(* ===== verification/Prelude.thy ===== *)
theory Prelude
  imports Complex_Main
begin

text \<open>
  Shared vocabulary of the development: the exceptions the Python code raises, the result type
  of fallible code, a few array operations of the code base (clip, masked sums, indexed update)
  on lists, and the collections of rewrite rules the component theories extend.

  Conventions. A Python int and a NumPy int64 counter is an \<open>int\<close> (an index is a \<open>nat\<close>); a
  float64 is a \<open>real\<close>, so rounding is not modelled. A NumPy array is a list, a two-dimensional
  one a list of rows. An exception is the left injection of a sum.
\<close>

named_theorems shape_simps \<open>lengths of the arrays the operations return\<close>
named_theorems frame_simps \<open>fields an operation leaves alone\<close>

datatype py_error =
    AssertionError
  | ValueError
  | IndexError
  | KeyError
  | TypeError
  | AttributeError
  | ZeroDivisionError

type_synonym 'a res = "py_error + 'a"

text \<open>Sequencing of fallible code: the first exception ends the computation.\<close>

definition bind_res :: "'a res \<Rightarrow> ('a \<Rightarrow> 'b res) \<Rightarrow> 'b res" where
  "bind_res m f = (case m of Inl e \<Rightarrow> Inl e | Inr x \<Rightarrow> f x)"

definition check :: "py_error \<Rightarrow> bool \<Rightarrow> unit res" where
  "check e b = (if b then Inr () else Inl e)"

lemma bind_res_simps [simp]:
  "bind_res (Inl e) f = Inl e"
  "bind_res (Inr x) f = f x"
  by (simp_all add: bind_res_def)

lemma bind_res_Inr: "bind_res m f = Inr y \<longleftrightarrow> (\<exists>x. m = Inr x \<and> f x = Inr y)"
  by (cases m) simp_all

lemma check_Inr [simp]: "check e b = Inr u \<longleftrightarrow> b"
  by (simp add: check_def)

lemma bind_check: "bind_res (check e b) f = (if b then f () else Inl e)"
  by (simp add: check_def)

text \<open>A loop whose body may raise.\<close>

fun fold_res :: "('a \<Rightarrow> 's \<Rightarrow> 's res) \<Rightarrow> 'a list \<Rightarrow> 's \<Rightarrow> 's res" where
  "fold_res f [] s = Inr s"
| "fold_res f (x # xs) s = bind_res (f x s) (fold_res f xs)"

fun map_res :: "('a \<Rightarrow> 'b res) \<Rightarrow> 'a list \<Rightarrow> 'b list res" where
  "map_res f [] = Inr []"
| "map_res f (x # xs) = bind_res (f x) (\<lambda>y. bind_res (map_res f xs) (\<lambda>ys. Inr (y # ys)))"

lemma map_res_Inr:
  "map_res f xs = Inr ys \<longleftrightarrow> length ys = length xs \<and> (\<forall>i < length xs. f (xs ! i) = Inr (ys ! i))"
proof (induction xs arbitrary: ys)
  case Nil
  then show ?case by auto
next
  case (Cons x xs)
  then show ?case by (cases ys) (auto simp: bind_res_Inr nth_Cons split: nat.splits)
qed

lemma map_res_succeeds:
  assumes "\<And>x. x \<in> set xs \<Longrightarrow> \<exists>y. f x = Inr y \<and> P x y"
  shows "\<exists>ys. map_res f xs = Inr ys \<and> length ys = length xs \<and> (\<forall>i < length xs. P (xs ! i) (ys ! i))"
  using assms
proof (induction xs)
  case Nil
  then show ?case by simp
next
  case (Cons x xs)
  obtain y ys where "f x = Inr y" "P x y" "map_res f xs = Inr ys" "length ys = length xs"
    "\<forall>i < length xs. P (xs ! i) (ys ! i)"
    using Cons by (metis list.set_intros)
  then show ?case by (intro exI [of _ "y # ys"]) (auto simp: less_Suc_eq_0_disj)
qed

subsection \<open>Arrays\<close>

text \<open>\<open>np.clip\<close> with both bounds: \<open>np.minimum(a_max, np.maximum(a, a_min))\<close>.\<close>

definition clip :: "real \<Rightarrow> real \<Rightarrow> real \<Rightarrow> real" where
  "clip lo hi x = min hi (max x lo)"

lemma clip_bounds: "lo \<le> hi \<Longrightarrow> lo \<le> clip lo hi x \<and> clip lo hi x \<le> hi"
  by (simp add: clip_def)

lemma clip_id: "lo \<le> x \<Longrightarrow> x \<le> hi \<Longrightarrow> clip lo hi x = x"
  by (simp add: clip_def)

lemma clip_le_hi [simp]: "clip lo hi x \<le> hi"
  by (simp add: clip_def)

lemma clip_abs_le: "0 \<le> h \<Longrightarrow> \<bar>clip (- h) h x\<bar> \<le> h"
  using clip_bounds [of "- h" h x] by linarith

text \<open>The truth value of a whole row: \<open>row.any()\<close> on integers.\<close>

definition any_nonzero :: "int list \<Rightarrow> bool" where
  "any_nonzero xs = list_ex (\<lambda>x. x \<noteq> 0) xs"

lemma any_nonzero_iff: "any_nonzero xs \<longleftrightarrow> (\<exists>i < length xs. xs ! i \<noteq> 0)"
  unfolding any_nonzero_def list_ex_iff by (metis in_set_conv_nth)

text \<open>\<open>np.flatnonzero(mask)\<close>: the indices where the mask holds, ascending.\<close>

definition flatnonzero :: "bool list \<Rightarrow> nat list" where
  "flatnonzero bs = filter (\<lambda>i. bs ! i) [0..<length bs]"

lemma set_flatnonzero: "set (flatnonzero bs) = {i. i < length bs \<and> bs ! i}"
  by (auto simp: flatnonzero_def)

lemma flatnonzero_empty: "flatnonzero bs = [] \<longleftrightarrow> (\<forall>i < length bs. \<not> bs ! i)"
  by (auto simp: flatnonzero_def filter_empty_conv)

lemma distinct_flatnonzero [simp]: "distinct (flatnonzero bs)"
  by (simp add: flatnonzero_def)

definition bool_int :: "bool \<Rightarrow> int" where
  "bool_int b = (if b then 1 else 0)"

lemma bool_int_simps [simp]: "bool_int True = 1" "bool_int False = 0"
  by (simp_all add: bool_int_def)

lemma bool_int_bounds: "0 \<le> bool_int b" "bool_int b \<le> 1"
  by (simp_all add: bool_int_def)

definition count_true :: "bool list \<Rightarrow> int" where
  "count_true bs = sum_list (map bool_int bs)"

lemma count_true_nonneg: "0 \<le> count_true bs"
  by (induction bs) (auto simp: count_true_def bool_int_def)

lemma count_true_le_length: "count_true bs \<le> int (length bs)"
  by (induction bs) (auto simp: count_true_def bool_int_def)

lemma nth_upd: "j < length xs \<Longrightarrow> xs[i := v] ! j = (if i = j then v else xs ! j)"
  by (auto simp: nth_list_update)

text \<open>Sums over a list that is updated at one index.\<close>

lemma sum_list_update_int:
  fixes xs :: "int list"
  assumes "i < length xs"
  shows "sum_list (xs[i := v]) = sum_list xs - xs ! i + v"
  using assms
proof (induction xs arbitrary: i)
  case Nil
  then show ?case by simp
next
  case (Cons x xs)
  then show ?case by (cases i) auto
qed

lemma sum_upd:
  fixes f :: "nat \<Rightarrow> int"
  assumes "finite A" and "i \<in> A"
  shows "(\<Sum>j \<in> A. if j = i then v else f j) = (\<Sum>j \<in> A. f j) - f i + v"
proof -
  have "(\<Sum>j \<in> A. if j = i then v else f j) = v + (\<Sum>j \<in> A - {i}. f j)"
    using assms by (subst sum.remove [of A i]) (auto intro!: sum.cong)
  moreover have "(\<Sum>j \<in> A. f j) = f i + (\<Sum>j \<in> A - {i}. f j)"
    using assms by (rule sum.remove)
  ultimately show ?thesis by simp
qed

lemma sum_lt_nth_update:
  fixes xs :: "int list"
  assumes "i < n" and "n \<le> length xs"
  shows "(\<Sum>j < n. xs[i := v] ! j) = (\<Sum>j < n. xs ! j) - xs ! i + v"
proof -
  have "(\<Sum>j < n. xs[i := v] ! j) = (\<Sum>j < n. if j = i then v else xs ! j)"
    using assms by (intro sum.cong) (auto simp: nth_list_update)
  then show ?thesis using assms by (simp add: sum_upd)
qed

text \<open>The two-dimensional update \<open>m[i, j] = v\<close> and the column sum of a matrix.\<close>

definition mat_upd :: "'a list list \<Rightarrow> nat \<Rightarrow> nat \<Rightarrow> 'a \<Rightarrow> 'a list list" where
  "mat_upd m i j v = m[i := (m ! i)[j := v]]"

definition is_matrix :: "nat \<Rightarrow> nat \<Rightarrow> 'a list list \<Rightarrow> bool" where
  "is_matrix r c m \<longleftrightarrow> length m = r \<and> (\<forall>i < r. length (m ! i) = c)"

lemma is_matrix_upd [simp]: "is_matrix r c m \<Longrightarrow> is_matrix r c (mat_upd m i j v)"
  by (cases "i < length m") (auto simp: is_matrix_def mat_upd_def nth_list_update)

lemma mat_upd_nth:
  assumes "is_matrix r c m" and "i < r" and "j < c" and "a < r"
  shows "mat_upd m i j v ! a ! b = (if a = i \<and> b = j then v else m ! a ! b)"
  using assms by (auto simp: is_matrix_def mat_upd_def nth_list_update)

definition col_sum :: "int list list \<Rightarrow> nat \<Rightarrow> int" where
  "col_sum m j = (\<Sum>i < length m. m ! i ! j)"

lemma col_sum_mat_upd:
  assumes "is_matrix r c m" and "i < r" and "j < c"
  shows "col_sum (mat_upd m i j v) k = col_sum m k - (if k = j then m ! i ! j - v else 0)"
proof -
  have len: "length (mat_upd m i j v) = length m" "i < length m"
    using assms by (auto simp: mat_upd_def is_matrix_def)
  have "col_sum (mat_upd m i j v) k
      = (\<Sum>a < length m. if a = i then (if k = j then v else m ! i ! k) else m ! a ! k)"
    unfolding col_sum_def len(1) using assms
    by (intro sum.cong) (auto simp: mat_upd_nth is_matrix_def)
  then show ?thesis
    using len by (simp add: sum_upd col_sum_def)
qed

lemma col_sum_row_upd:
  assumes "i < length m"
  shows "col_sum (m[i := row]) k = col_sum m k - m ! i ! k + row ! k"
proof -
  have "col_sum (m[i := row]) k
      = (\<Sum>a < length m. if a = i then row ! k else m ! a ! k)"
    unfolding col_sum_def using assms by (intro sum.cong) (auto simp: nth_list_update)
  then show ?thesis
    using assms by (simp add: sum_upd col_sum_def)
qed

subsection \<open>The first least element\<close>

text \<open>\<open>np.argmin\<close>: the first index of the least element; so does \<open>min\<close> with a key.\<close>

definition argmin :: "real list \<Rightarrow> nat" where
  "argmin xs = length (takeWhile (\<lambda>x. x \<noteq> Min (set xs)) xs)"

lemma takeWhile_shorter: "\<exists>x \<in> set xs. \<not> P x \<Longrightarrow> length (takeWhile P xs) < length xs"
  by (induction xs) auto

lemma argmin_least:
  assumes "xs \<noteq> []"
  shows "argmin xs < length xs" and "xs ! argmin xs = Min (set xs)" and "j < argmin xs \<Longrightarrow> xs ! j \<noteq> Min (set xs)"
proof -
  have "Min (set xs) \<in> set xs" using assms by simp
  then show lt: "argmin xs < length xs"
    unfolding argmin_def by (intro takeWhile_shorter) blast
  show "xs ! argmin xs = Min (set xs)" using nth_length_takeWhile [OF lt [unfolded argmin_def]] by (simp add: argmin_def)
  show "xs ! j \<noteq> Min (set xs)" if "j < argmin xs"
  proof -
    let ?P = "\<lambda>x. x \<noteq> Min (set xs)"
    have j: "j < length (takeWhile ?P xs)" using that by (simp add: argmin_def)
    from nth_mem [OF this] have "?P (takeWhile ?P xs ! j)" by (rule set_takeWhileD [THEN conjunct2])
    then show ?thesis by (simp only: takeWhile_nth [OF j] not_False_eq_True)
  qed
qed

end
