(* ===== verification/Randomness.thy ===== *)
theory Randomness
  imports Prelude
begin

text \<open>
  The random number generators. The program draws from \<open>numpy.random.RandomState\<close> objects (one
  for the environment, one per entity, one per agent), which are library code: the model takes
  the operations the program calls as a record \<open>'g rng\<close> over an arbitrary generator state \<open>'g\<close>,
  an argument of every definition that draws. What NumPy documents of the operations is the
  predicate \<open>rng_ok\<close>. \<open>counter_rng\<close> is a concrete generator that satisfies it: the witnesses
  run the model with it.
\<close>

record 'g rng =
  choice :: "'g \<Rightarrow> nat list \<Rightarrow> nat \<times> 'g"
  choice_distinct :: "'g \<Rightarrow> nat \<Rightarrow> nat \<Rightarrow> nat list \<times> 'g"
  permutation :: "'g \<Rightarrow> nat \<Rightarrow> nat list \<times> 'g"
  random_unit :: "'g \<Rightarrow> real \<times> 'g"
  binomial1 :: "'g \<Rightarrow> real \<Rightarrow> nat \<times> 'g"
  randint :: "'g \<Rightarrow> int \<Rightarrow> int \<Rightarrow> int \<times> 'g"
  uniform :: "'g \<Rightarrow> real \<Rightarrow> real \<Rightarrow> real \<times> 'g"
  sample_box1 :: "'g \<Rightarrow> real \<Rightarrow> real \<Rightarrow> real \<times> 'g"
  sample_box2 :: "'g \<Rightarrow> real \<times> real \<Rightarrow> real \<times> real \<Rightarrow> (real \<times> real) \<times> 'g"

text \<open>
  \<open>choice\<close> of an array returns one of its elements; \<open>choice(n, size=k, replace=False)\<close> returns
  \<open>k\<close> distinct indices below \<open>n\<close>; \<open>permutation(n)\<close> (and \<open>shuffle\<close>, which permutes positions)
  returns a permutation of the indices; \<open>binomial(1, p)\<close> returns 0 or 1, surely 0 for \<open>p = 0\<close>
  and surely 1 for \<open>p = 1\<close>; \<open>random()\<close> and \<open>uniform\<close> and \<open>randint\<close> stay in their intervals.
  \<open>sample_box1\<close> and \<open>sample_box2\<close> are \<open>gym.spaces.Box.sample\<close> in one and two dimensions.
\<close>

definition rng_ok :: "'g rng \<Rightarrow> bool" where
  "rng_ok R \<longleftrightarrow>
     (\<forall>g xs. xs \<noteq> [] \<longrightarrow> fst (choice R g xs) \<in> set xs)
   \<and> (\<forall>g n k. k \<le> n \<longrightarrow> length (fst (choice_distinct R g n k)) = k
        \<and> distinct (fst (choice_distinct R g n k)) \<and> set (fst (choice_distinct R g n k)) \<subseteq> {..<n})
   \<and> (\<forall>g n. length (fst (permutation R g n)) = n \<and> set (fst (permutation R g n)) = {..<n})
   \<and> (\<forall>g. 0 \<le> fst (random_unit R g) \<and> fst (random_unit R g) < 1)
   \<and> (\<forall>g p. fst (binomial1 R g p) \<le> 1 \<and> fst (binomial1 R g 0) = 0 \<and> fst (binomial1 R g 1) = 1)
   \<and> (\<forall>g lo hi. lo < hi \<longrightarrow> lo \<le> fst (randint R g lo hi) \<and> fst (randint R g lo hi) < hi)
   \<and> (\<forall>g lo hi. lo \<le> hi \<longrightarrow> lo \<le> fst (uniform R g lo hi) \<and> fst (uniform R g lo hi) \<le> hi)
   \<and> (\<forall>g lo hi. lo \<le> hi \<longrightarrow> lo \<le> fst (sample_box1 R g lo hi) \<and> fst (sample_box1 R g lo hi) \<le> hi)
   \<and> (\<forall>g lo hi. fst lo \<le> fst hi \<and> snd lo \<le> snd hi \<longrightarrow>
        (let p = fst (sample_box2 R g lo hi)
         in fst lo \<le> fst p \<and> fst p \<le> fst hi \<and> snd lo \<le> snd p \<and> snd p \<le> snd hi))"

lemma rng_choice: "rng_ok R \<Longrightarrow> xs \<noteq> [] \<Longrightarrow> fst (choice R g xs) \<in> set xs"
  by (simp add: rng_ok_def)

lemma rng_distinct:
  assumes "rng_ok R" and "k \<le> n"
  shows "length (fst (choice_distinct R g n k)) = k"
    and "distinct (fst (choice_distinct R g n k))"
    and "set (fst (choice_distinct R g n k)) \<subseteq> {..<n}"
  using assms by (auto simp: rng_ok_def)

lemma rng_permutation:
  assumes "rng_ok R"
  shows "length (fst (permutation R g n)) = n" and "set (fst (permutation R g n)) = {..<n}"
  using assms by (auto simp: rng_ok_def)

lemma rng_random_unit: "rng_ok R \<Longrightarrow> 0 \<le> fst (random_unit R g) \<and> fst (random_unit R g) < 1"
  by (simp add: rng_ok_def)

lemma rng_binomial:
  "rng_ok R \<Longrightarrow> fst (binomial1 R g 0) = 0" "rng_ok R \<Longrightarrow> fst (binomial1 R g 1) = 1"
  by (simp_all add: rng_ok_def)

lemma rng_randint:
  "rng_ok R \<Longrightarrow> lo < hi \<Longrightarrow> lo \<le> fst (randint R g lo hi) \<and> fst (randint R g lo hi) < hi"
  by (simp add: rng_ok_def)

lemma rng_uniform:
  "rng_ok R \<Longrightarrow> lo \<le> hi \<Longrightarrow> lo \<le> fst (uniform R g lo hi) \<and> fst (uniform R g lo hi) \<le> hi"
  by (simp add: rng_ok_def)

lemma rng_sample_box1:
  "rng_ok R \<Longrightarrow> lo \<le> hi
     \<Longrightarrow> lo \<le> fst (sample_box1 R g lo hi) \<and> fst (sample_box1 R g lo hi) \<le> hi"
  by (simp add: rng_ok_def)

lemma rng_sample_box2:
  assumes "rng_ok R" and "fst lo \<le> fst hi" and "snd lo \<le> snd hi"
  shows "fst lo \<le> fst (fst (sample_box2 R g lo hi)) \<and> fst (fst (sample_box2 R g lo hi)) \<le> fst hi
    \<and> snd lo \<le> snd (fst (sample_box2 R g lo hi)) \<and> snd (fst (sample_box2 R g lo hi)) \<le> snd hi"
  using assms unfolding rng_ok_def Let_def by blast

text \<open>\<open>np_random.shuffle(xs)\<close> permutes the list in place.\<close>

definition shuffle_list :: "'g rng \<Rightarrow> 'g \<Rightarrow> 'a list \<Rightarrow> 'a list \<times> 'g" where
  "shuffle_list R g xs =
     (case permutation R g (length xs) of (p, g') \<Rightarrow> (map (\<lambda>i. xs ! i) p, g'))"

lemma length_shuffle_list:
  assumes "rng_ok R"
  shows "length (fst (shuffle_list R g xs)) = length xs"
  using rng_permutation(1) [OF assms, of g "length xs"]
  by (auto simp: shuffle_list_def split: prod.split)

lemma set_shuffle_list:
  assumes "rng_ok R"
  shows "set (fst (shuffle_list R g xs)) = set xs"
proof -
  obtain p g' where p: "permutation R g (length xs) = (p, g')"
    by (cases "permutation R g (length xs)")
  then have "set p = {..<length xs}"
    using rng_permutation(2) [OF assms, of g "length xs"] by simp
  then have "(!) xs ` set p = set xs"
    by (auto simp: set_conv_nth)
  then show ?thesis
    using p by (simp add: shuffle_list_def)
qed

subsection \<open>A concrete generator\<close>

text \<open>The state is a counter: draws cycle through the possible values.\<close>

definition counter_rng :: "nat rng" where
  "counter_rng = \<lparr>
     choice = (\<lambda>g xs. (xs ! (g mod length xs), Suc g)),
     choice_distinct = (\<lambda>g n k. (map (\<lambda>i. (g + i) mod n) [0..<k], Suc g)),
     permutation = (\<lambda>g n. ([0..<n], Suc g)),
     random_unit = (\<lambda>g. (0, Suc g)),
     binomial1 = (\<lambda>g p. ((if p = 1 then 1 else 0), Suc g)),
     randint = (\<lambda>g lo hi. (lo, Suc g)),
     uniform = (\<lambda>g lo hi. (lo, Suc g)),
     sample_box1 = (\<lambda>g lo hi. (lo, Suc g)),
     sample_box2 = (\<lambda>g lo hi. (lo, Suc g)) \<rparr>"

lemma mod_shift_inj:
  fixes g x y n :: nat
  assumes "x < n" and "y < n" and "(g + x) mod n = (g + y) mod n"
  shows "x = y"
proof -
  have le: "a = b" if "a \<le> b" "b < n" "(g + b) mod n = (g + a) mod n" for a b
  proof -
    have "n dvd (g + b) - (g + a)"
      using that by (subst mod_eq_dvd_iff_nat [symmetric]) auto
    then have "n dvd b - a" by simp
    then have "b - a = 0"
      using that by (metis dvd_imp_le less_imp_diff_less not_le neq0_conv)
    then show "a = b" using that by simp
  qed
  show ?thesis
    using le [of x y] le [of y x] assms by (cases "x \<le> y") auto
qed

lemma counter_distinct:
  assumes "k \<le> n"
  shows "distinct (map (\<lambda>i. (g + i) mod n) [0..<k])"
  using assms by (auto simp: distinct_map inj_on_def intro: mod_shift_inj [of _ n _ g])

lemma counter_rng_ok: "rng_ok counter_rng"
  unfolding rng_ok_def
  by (auto simp: counter_rng_def counter_distinct atLeast0LessThan)

end
