(* ===== verification/Geometry.thy ===== *)
theory Geometry
  imports Prelude
begin

text \<open>
  \<^verbatim>\<open>mate/utils.py\<close>: trigonometry in degrees, the polar and cartesian conversions, angle
  normalisation. NumPy's elementary functions are the real functions they compute. The lemmas
  are the conversions' round trips and the range and uniqueness of the normalised angle.
\<close>

type_synonym vec = "real \<times> real"

definition vadd :: "vec \<Rightarrow> vec \<Rightarrow> vec" where
  "vadd a b = (fst a + fst b, snd a + snd b)"

definition vsub :: "vec \<Rightarrow> vec \<Rightarrow> vec" where
  "vsub a b = (fst a - fst b, snd a - snd b)"

definition vneg :: "vec \<Rightarrow> vec" where
  "vneg a = (- fst a, - snd a)"

definition vscale :: "real \<Rightarrow> vec \<Rightarrow> vec" where
  "vscale k a = (k * fst a, k * snd a)"

definition vdot :: "vec \<Rightarrow> vec \<Rightarrow> real" where
  "vdot a b = fst a * fst b + snd a * snd b"

text \<open>\<open>np.linalg.norm(v)\<close> and \<open>np.linalg.norm(v, ord=np.inf)\<close>.\<close>

definition vnorm :: "vec \<Rightarrow> real" where
  "vnorm a = sqrt ((fst a)\<^sup>2 + (snd a)\<^sup>2)"

definition vnorm_inf :: "vec \<Rightarrow> real" where
  "vnorm_inf a = max \<bar>fst a\<bar> \<bar>snd a\<bar>"

lemma vnorm_nonneg [simp]: "0 \<le> vnorm a"
  by (simp add: vnorm_def)

lemma vnorm_vneg [simp]: "vnorm (vneg a) = vnorm a"
  by (simp add: vnorm_def vneg_def)

lemma vnorm_vscale: "vnorm (vscale k a) = \<bar>k\<bar> * vnorm a"
proof -
  have "(k * fst a)\<^sup>2 + (k * snd a)\<^sup>2 = k\<^sup>2 * ((fst a)\<^sup>2 + (snd a)\<^sup>2)"
    by (simp add: power_mult_distrib algebra_simps)
  then show ?thesis
    by (simp add: vnorm_def vscale_def real_sqrt_mult)
qed

lemma vnorm_eq_0 [simp]: "vnorm a = 0 \<longleftrightarrow> a = (0, 0)"
  by (cases a) (simp add: vnorm_def sum_power2_eq_zero_iff)

lemma vnorm_zero [simp]: "vnorm (0, 0) = 0"
  by (simp add: vnorm_def)

lemma vnorm_components: "\<bar>fst a\<bar> \<le> vnorm a" "\<bar>snd a\<bar> \<le> vnorm a"
  by (simp_all add: vnorm_def real_le_rsqrt)

lemma vsub_vadd [simp]: "vsub (vadd a b) a = b"
  by (simp add: vsub_def vadd_def)

lemma vnorm_vsub_commute: "vnorm (vsub a b) = vnorm (vsub b a)"
  by (simp add: vnorm_def vsub_def power2_commute)

subsection \<open>Trigonometry in degrees\<close>

definition deg2rad :: "real \<Rightarrow> real" where
  "deg2rad x = x * (pi / 180)"

definition rad2deg :: "real \<Rightarrow> real" where
  "rad2deg x = x * (180 / pi)"

definition sin_deg :: "real \<Rightarrow> real" where
  "sin_deg x = sin (deg2rad x)"

definition cos_deg :: "real \<Rightarrow> real" where
  "cos_deg x = cos (deg2rad x)"

definition tan_deg :: "real \<Rightarrow> real" where
  "tan_deg x = tan (deg2rad x)"

definition arcsin_deg :: "real \<Rightarrow> real" where
  "arcsin_deg x = rad2deg (arcsin x)"

definition arccos_deg :: "real \<Rightarrow> real" where
  "arccos_deg x = rad2deg (arccos x)"

text \<open>\<open>np.arctan2\<close>: the angle of the point \<open>(x, y)\<close> in \<open>(-pi, pi]\<close>, 0 at the origin.\<close>

definition arctan2 :: "real \<Rightarrow> real \<Rightarrow> real" where
  "arctan2 y x =
     (if 0 < x then arctan (y / x)
      else if x < 0 then (if 0 \<le> y then arctan (y / x) + pi else arctan (y / x) - pi)
      else if 0 < y then pi / 2
      else if y < 0 then - (pi / 2)
      else 0)"

definition arctan2_deg :: "real \<Rightarrow> real \<Rightarrow> real" where
  "arctan2_deg y x = rad2deg (arctan2 y x)"

definition cartesian2polar :: "real \<Rightarrow> real \<Rightarrow> real \<times> real" where
  "cartesian2polar x y = (sqrt (x\<^sup>2 + y\<^sup>2), arctan2_deg y x)"

definition polar2cartesian :: "real \<Rightarrow> real \<Rightarrow> vec" where
  "polar2cartesian rho phi = (rho * cos (deg2rad phi), rho * sin (deg2rad phi))"

text \<open>Python's \<open>%\<close> on floats: the result has the sign of the divisor.\<close>

definition py_fmod :: "real \<Rightarrow> real \<Rightarrow> real" where
  "py_fmod x m = x - m * of_int \<lfloor>x / m\<rfloor>"

definition normalize_angle :: "real \<Rightarrow> real" where
  "normalize_angle angle = py_fmod (angle + 180) 360 - 180"

lemma deg2rad_rad2deg [simp]: "deg2rad (rad2deg x) = x" "rad2deg (deg2rad x) = x"
  by (simp_all add: deg2rad_def rad2deg_def)

lemma deg2rad_add: "deg2rad (a + b) = deg2rad a + deg2rad b"
  by (simp add: deg2rad_def algebra_simps)

lemma deg2rad_180 [simp]: "deg2rad 180 = pi" "deg2rad 0 = 0" "deg2rad 90 = pi / 2"
  by (simp_all add: deg2rad_def)

lemma polar_scale: "polar2cartesian (k * rho) phi = vscale k (polar2cartesian rho phi)"
  by (simp add: polar2cartesian_def vscale_def)

lemma vnorm_polar: "vnorm (polar2cartesian rho phi) = \<bar>rho\<bar>"
proof -
  have "(rho * cos (deg2rad phi))\<^sup>2 + (rho * sin (deg2rad phi))\<^sup>2
      = rho\<^sup>2 * ((cos (deg2rad phi))\<^sup>2 + (sin (deg2rad phi))\<^sup>2)"
    by (simp add: power_mult_distrib algebra_simps del: sin_cos_squared_add2)
  then show ?thesis
    by (simp add: vnorm_def polar2cartesian_def)
qed

lemma polar_half_turn: "polar2cartesian rho (phi + 180) = vneg (polar2cartesian rho phi)"
  by (simp add: polar2cartesian_def vneg_def deg2rad_add)

lemma polar_turns: "polar2cartesian rho (phi + 360 * of_int k) = polar2cartesian rho phi"
proof -
  have "deg2rad (phi + 360 * of_int k) = deg2rad phi + 2 * pi * of_int k"
    by (simp add: deg2rad_def algebra_simps)
  then show ?thesis
    by (simp add: polar2cartesian_def sin_add cos_add)
qed

subsection \<open>arctan2 is the inverse of the polar form\<close>

lemma arctan2_bounds: "- pi < arctan2 y x \<and> arctan2 y x \<le> pi"
proof -
  have b: "- (pi / 2) < arctan (y / x)" "arctan (y / x) < pi / 2"
    by (rule arctan_lbound, rule arctan_ubound)
  have neg: "x < 0 \<Longrightarrow> 0 \<le> y \<Longrightarrow> arctan (y / x) \<le> 0"
    by (simp add: divide_nonneg_neg)
  have pos: "x < 0 \<Longrightarrow> y < 0 \<Longrightarrow> 0 < arctan (y / x)"
    by (simp add: divide_neg_neg)
  have pi: "0 < pi" by simp
  show ?thesis
    unfolding arctan2_def using b neg pos pi by (auto split: if_splits)
qed

lemma sqrt_ratio:
  assumes "x \<noteq> 0"
  shows "sqrt (1 + (y / x)\<^sup>2) = sqrt (x\<^sup>2 + y\<^sup>2) / \<bar>x\<bar>"
proof -
  have "1 + (y / x)\<^sup>2 = (x\<^sup>2 + y\<^sup>2) / x\<^sup>2"
    using assms by (simp add: power_divide field_simps)
  then show ?thesis by (simp add: real_sqrt_divide)
qed

lemma arctan2_polar:
  "sqrt (x\<^sup>2 + y\<^sup>2) * cos (arctan2 y x) = x" "sqrt (x\<^sup>2 + y\<^sup>2) * sin (arctan2 y x) = y"
proof -
  have r: "x \<noteq> 0 \<Longrightarrow> sqrt (x\<^sup>2 + y\<^sup>2) \<noteq> 0"
    by (simp add: sum_power2_eq_zero_iff)
  have c: "x \<noteq> 0 \<Longrightarrow> sqrt (x\<^sup>2 + y\<^sup>2) * cos (arctan (y / x)) = \<bar>x\<bar>"
    using r by (simp add: cos_arctan sqrt_ratio)
  have s: "x \<noteq> 0 \<Longrightarrow> sqrt (x\<^sup>2 + y\<^sup>2) * sin (arctan (y / x)) = \<bar>x\<bar> * (y / x)"
    using r by (simp add: sin_arctan sqrt_ratio)
  show "sqrt (x\<^sup>2 + y\<^sup>2) * cos (arctan2 y x) = x"
    using c by (auto simp: arctan2_def cos_diff)
  show "sqrt (x\<^sup>2 + y\<^sup>2) * sin (arctan2 y x) = y"
    using s by (auto simp: arctan2_def sin_diff sin_add)
qed

lemma polar_of_vec: "polar2cartesian (vnorm v) (arctan2_deg (snd v) (fst v)) = v"
  by (cases v) (simp add: polar2cartesian_def arctan2_deg_def vnorm_def arctan2_polar)

lemma arctan2_of_polar:
  assumes "0 < r" and "- pi < a" and "a \<le> pi"
  shows "arctan2 (r * sin a) (r * cos a) = a"
proof -
  let ?b = "arctan2 (r * sin a) (r * cos a)"
  have sq: "(r * cos a)\<^sup>2 + (r * sin a)\<^sup>2 = r\<^sup>2"
    by (simp add: power_mult_distrib flip: distrib_left)
  have "r * cos ?b = r * cos a" "r * sin ?b = r * sin a"
    using arctan2_polar [of "r * cos a" "r * sin a"] assms(1) by (simp_all add: sq)
  then have "sin ?b = sin a \<and> cos ?b = cos a"
    using assms(1) by simp
  then obtain n :: int where n: "?b = a + 2 * pi * of_int n"
    using sin_cos_eq_iff [of ?b a] by (auto simp: ac_simps)
  have "\<bar>2 * pi * of_int n\<bar> < 2 * pi"
    using n assms(2,3) arctan2_bounds [of "r * sin a" "r * cos a"] by linarith
  then have "\<bar>real_of_int n\<bar> < 1"
    by (simp add: abs_mult)
  then have "n = 0" by linarith
  with n show ?thesis by simp
qed

lemma arctan2_deg_polar:
  assumes "0 < rho" and "- 180 < phi" and "phi \<le> 180"
  shows "arctan2_deg (snd (polar2cartesian rho phi)) (fst (polar2cartesian rho phi)) = phi"
proof -
  have "deg2rad (- 180) < deg2rad phi"
    using assms(2) unfolding deg2rad_def by (rule mult_strict_right_mono) simp
  moreover have "deg2rad phi \<le> deg2rad 180"
    using assms(3) unfolding deg2rad_def by (rule mult_right_mono) simp
  moreover have "deg2rad (- 180) = - pi"
    by (simp add: deg2rad_def)
  ultimately have "- pi < deg2rad phi" "deg2rad phi \<le> pi"
    by simp_all
  then show ?thesis
    using assms(1) by (simp add: polar2cartesian_def arctan2_deg_def arctan2_of_polar)
qed

lemma arctan2_deg_bounds: "- 180 < arctan2_deg y x \<and> arctan2_deg y x \<le> 180"
proof -
  have p: "0 < 180 / pi" by simp
  have e: "- pi * (180 / pi) = - 180" "pi * (180 / pi) = 180" by simp_all
  have "- pi * (180 / pi) < arctan2 y x * (180 / pi)"
    using arctan2_bounds [of y x] p by (intro mult_strict_right_mono) simp_all
  moreover have "arctan2 y x * (180 / pi) \<le> pi * (180 / pi)"
    using arctan2_bounds [of y x] p by (intro mult_right_mono) simp_all
  ultimately show ?thesis
    unfolding arctan2_deg_def rad2deg_def e by simp
qed

subsection \<open>Normalised angles\<close>

lemma py_fmod_bounds:
  assumes "0 < m"
  shows "0 \<le> py_fmod x m \<and> py_fmod x m < m"
proof -
  have "of_int \<lfloor>x / m\<rfloor> \<le> x / m" "x / m < of_int \<lfloor>x / m\<rfloor> + 1"
    by linarith+
  then have "of_int \<lfloor>x / m\<rfloor> * m \<le> x" "x < (of_int \<lfloor>x / m\<rfloor> + 1) * m"
    using assms by (simp_all only: pos_le_divide_eq pos_divide_less_eq)
  then show ?thesis
    by (simp add: py_fmod_def algebra_simps)
qed

lemma normalize_angle_turns: "\<exists>k :: int. normalize_angle a = a + 360 * of_int k"
  by (rule exI [of _ "- \<lfloor>(a + 180) / 360\<rfloor>"]) (simp add: normalize_angle_def py_fmod_def)

lemma normalize_angle_range: "- 180 \<le> normalize_angle a \<and> normalize_angle a < 180"
  using py_fmod_bounds [of 360 "a + 180"] by (simp add: normalize_angle_def)

lemma normalize_angle_unique:
  assumes "- 180 \<le> b" and "b < 180" and "b = a + 360 * of_int k"
  shows "normalize_angle a = b"
proof -
  obtain j :: int where j: "normalize_angle a = a + 360 * of_int j"
    using normalize_angle_turns by blast
  have "\<bar>360 * real_of_int (j - k)\<bar> < 360"
    using normalize_angle_range [of a] assms j by (simp add: abs_less_iff)
  then have "\<bar>real_of_int (j - k)\<bar> < 1"
    by (simp add: abs_mult)
  then have "j = k" by linarith
  with j assms(3) show ?thesis by simp
qed

lemma normalize_angle_id: "- 180 \<le> a \<Longrightarrow> a < 180 \<Longrightarrow> normalize_angle a = a"
  by (rule normalize_angle_unique [of a a 0]) simp_all

lemma polar_normalize [simp]: "polar2cartesian rho (normalize_angle a) = polar2cartesian rho a"
  using normalize_angle_turns [of a] by (auto simp: polar_turns)

lemma normalize_angle_shift: "normalize_angle (a + 360 * of_int k) = normalize_angle a"
proof -
  obtain j :: int where j: "normalize_angle a = a + 360 * of_int j"
    using normalize_angle_turns by blast
  show ?thesis
    using normalize_angle_range [of a] j
    by (intro normalize_angle_unique [of "normalize_angle a" _ "j - k"]) (auto simp: algebra_simps)
qed

lemma normalize_angle_180: "normalize_angle 180 = - 180"
  by (rule normalize_angle_unique [of _ _ "- 1"]) simp_all

text \<open>The polar and the cartesian form are inverse to each other: a point is rebuilt from its
  norm and angle, which are in range, and a positive norm and an angle in \<open>(-180, 180]\<close> are read back
  from the point they describe.\<close>

lemma polar_round_trip:
  "(case cartesian2polar x y of (rho, phi) \<Rightarrow>
      polar2cartesian rho phi = (x, y) \<and> 0 \<le> rho \<and> - 180 < phi \<and> phi \<le> 180)
   \<and> (0 < r \<and> - 180 < a \<and> a \<le> 180 \<longrightarrow>
      cartesian2polar (fst (polar2cartesian r a)) (snd (polar2cartesian r a)) = (r, a))"
proof (intro conjI impI)
  show "case cartesian2polar x y of (rho, phi) \<Rightarrow>
      polar2cartesian rho phi = (x, y) \<and> 0 \<le> rho \<and> - 180 < phi \<and> phi \<le> 180"
    using polar_of_vec [of "(x, y)"] arctan2_deg_bounds [of y x]
    by (simp add: cartesian2polar_def vnorm_def)
  assume A: "0 < r \<and> - 180 < a \<and> a \<le> 180"
  then have "sqrt ((fst (polar2cartesian r a))\<^sup>2 + (snd (polar2cartesian r a))\<^sup>2) = r"
    using vnorm_polar [of r a] by (simp add: vnorm_def)
  with A show "cartesian2polar (fst (polar2cartesian r a)) (snd (polar2cartesian r a)) = (r, a)"
    by (simp add: cartesian2polar_def arctan2_deg_polar)
qed

text \<open>The normalised angle is the one number of \<open>[-180, 180)\<close> that differs from the given angle by
  full turns.\<close>

lemma normalize_angle_correct:
  "normalize_angle a = b \<longleftrightarrow> - 180 \<le> b \<and> b < 180 \<and> (\<exists>k :: int. b = a + 360 * of_int k)"
  using normalize_angle_range [of a] normalize_angle_turns [of a] normalize_angle_unique [of b a] by auto

end
