(* ===== verification/Vectors.thy ===== *)
theory Vectors
  imports Geometry
begin

text \<open>
  The class \<open>Vector2D\<close> of \<^verbatim>\<open>mate/utils.py\<close>: an object that stores a vector in cartesian or polar
  form and fills the other form in when it is read. \<open>vector2d\<close> is the object with its three
  cached attributes; a getter returns the value and the object with the cache filled. \<open>ray\<close> is
  the abstract value (norm, angle, origin) the rest of the program reasons with; \<open>abs_ray\<close> is
  the abstraction, valid for the coherent objects, and the refinement lemmas say that every
  operation of the class implements its counterpart on rays. The laws both satisfy are the
  interface \<open>planar_vector\<close>.
\<close>

record vector2d =
  f_vector :: "vec option"
  f_angle :: "real option"
  f_norm :: "real option"
  f_origin :: "vec option"

definition set_vector :: "vector2d \<Rightarrow> vec \<Rightarrow> vector2d" where
  "set_vector v value = v\<lparr>f_vector := Some value, f_norm := None, f_angle := None\<rparr>"

definition get_vector :: "vector2d \<Rightarrow> (vec \<times> vector2d) res" where
  "get_vector v =
     (case f_vector v of
        Some p \<Rightarrow> Inr (p, v)
      | None \<Rightarrow>
          (case (f_norm v, f_angle v) of
             (Some n, Some a) \<Rightarrow>
               (let p = polar2cartesian n a in Inr (p, v\<lparr>f_vector := Some p\<rparr>))
           | _ \<Rightarrow> Inl TypeError))"

definition set_angle :: "vector2d \<Rightarrow> real \<Rightarrow> vector2d" where
  "set_angle v value = v\<lparr>f_angle := Some (normalize_angle value), f_vector := None\<rparr>"

definition get_angle :: "vector2d \<Rightarrow> (real \<times> vector2d) res" where
  "get_angle v =
     (case f_angle v of
        Some a \<Rightarrow> Inr (a, v)
      | None \<Rightarrow>
          (case f_vector v of
             Some p \<Rightarrow> (let a = arctan2_deg (snd p) (fst p) in Inr (a, v\<lparr>f_angle := Some a\<rparr>))
           | None \<Rightarrow> Inl TypeError))"

definition get_norm :: "vector2d \<Rightarrow> (real \<times> vector2d) res" where
  "get_norm v =
     (case f_norm v of
        Some n \<Rightarrow> Inr (n, v)
      | None \<Rightarrow>
          (case f_vector v of
             Some p \<Rightarrow> (let n = vnorm p in Inr (n, v\<lparr>f_norm := Some n\<rparr>))
           | None \<Rightarrow> Inl TypeError))"

definition set_norm :: "vector2d \<Rightarrow> real \<Rightarrow> vector2d res" where
  "set_norm v value =
     bind_res (get_angle v) (\<lambda>(angle, v1).
       let v2 = v1\<lparr>f_norm := Some \<bar>value\<bar>, f_vector := None\<rparr>
       in Inr (if value < 0 then set_angle v2 (angle + 180) else v2))"

definition empty_vector2d :: "vec option \<Rightarrow> vector2d" where
  "empty_vector2d origin = \<lparr>f_vector = None, f_angle = None, f_norm = None, f_origin = origin\<rparr>"

text \<open>\<open>Vector2D(vector, norm, angle, origin)\<close>: either a vector, or a norm and an angle.\<close>

definition new_vector2d ::
  "vec option \<Rightarrow> real option \<Rightarrow> real option \<Rightarrow> vec option \<Rightarrow> vector2d res" where
  "new_vector2d vector nrm angle origin =
     (case (vector, nrm, angle) of
        (Some p, None, None) \<Rightarrow> Inr (set_vector (empty_vector2d origin) p)
      | (None, Some n, Some a) \<Rightarrow> set_norm (set_angle (empty_vector2d origin) a) n
      | _ \<Rightarrow> Inl ValueError)"

definition get_endpoint :: "vector2d \<Rightarrow> (vec \<times> vector2d) res" where
  "get_endpoint v =
     (case f_origin v of
        None \<Rightarrow> Inl TypeError
      | Some o1 \<Rightarrow> bind_res (get_vector v) (\<lambda>(p, v1). Inr (vadd o1 p, v1)))"

definition set_endpoint :: "vector2d \<Rightarrow> vec \<Rightarrow> vector2d res" where
  "set_endpoint v endpoint =
     (case f_origin v of
        None \<Rightarrow> Inl TypeError
      | Some o1 \<Rightarrow> Inr (set_vector v (vsub endpoint o1)))"

definition vector2d_copy :: "vector2d \<Rightarrow> vector2d res" where
  "vector2d_copy v =
     bind_res (get_vector v) (\<lambda>(p, v1). new_vector2d (Some p) None None (f_origin v1))"

definition vector2d_eq :: "vector2d \<Rightarrow> vector2d \<Rightarrow> bool res" where
  "vector2d_eq v w =
     bind_res (get_angle v) (\<lambda>(a, _). bind_res (get_angle w) (\<lambda>(b, _). Inr (a = b)))"

definition vector2d_add :: "vector2d \<Rightarrow> vector2d \<Rightarrow> vector2d res" where
  "vector2d_add v w =
     bind_res (get_vector v) (\<lambda>(p, _). bind_res (get_vector w) (\<lambda>(q, _).
       new_vector2d (Some (vadd p q)) None None (f_origin v)))"

definition vector2d_sub :: "vector2d \<Rightarrow> vector2d \<Rightarrow> vector2d res" where
  "vector2d_sub v w =
     bind_res (get_vector v) (\<lambda>(p, _). bind_res (get_vector w) (\<lambda>(q, _).
       new_vector2d (Some (vsub p q)) None None (f_origin v)))"

definition vector2d_mul :: "vector2d \<Rightarrow> real \<Rightarrow> vector2d res" where
  "vector2d_mul v k =
     bind_res (get_norm v) (\<lambda>(n, v1). bind_res (get_angle v1) (\<lambda>(a, _).
       new_vector2d None (Some (n * k)) (Some a) (f_origin v)))"

definition vector2d_neg :: "vector2d \<Rightarrow> vector2d res" where
  "vector2d_neg v =
     bind_res (get_vector v) (\<lambda>(p, _). new_vector2d (Some (vneg p)) None None (f_origin v))"

text \<open>
  \<open>__imul__\<close> sets the norm and has no \<open>return\<close>, so the statement \<open>v *= k\<close> rebinds the name to
  None: the pair is the mutated object and what the name is bound to.
\<close>

definition vector2d_imul :: "vector2d \<Rightarrow> real \<Rightarrow> (vector2d \<times> vector2d option) res" where
  "vector2d_imul v k =
     bind_res (get_norm v) (\<lambda>(n, v1). bind_res (set_norm v1 (n * k)) (\<lambda>v2. Inr (v2, None)))"

subsection \<open>The abstract value\<close>

record ray =
  r_norm :: real
  r_angle :: real
  r_origin :: "vec option"

definition ray_of_vec :: "vec \<Rightarrow> vec option \<Rightarrow> ray" where
  "ray_of_vec p origin =
     \<lparr>r_norm = vnorm p, r_angle = arctan2_deg (snd p) (fst p), r_origin = origin\<rparr>"

definition ray_of_polar :: "real \<Rightarrow> real \<Rightarrow> vec option \<Rightarrow> ray" where
  "ray_of_polar n a origin =
     \<lparr>r_norm = \<bar>n\<bar>,
      r_angle = (if n < 0 then normalize_angle (normalize_angle a + 180) else normalize_angle a),
      r_origin = origin\<rparr>"

definition ray_vector :: "ray \<Rightarrow> vec" where
  "ray_vector r = polar2cartesian (r_norm r) (r_angle r)"

definition ray_set_norm :: "ray \<Rightarrow> real \<Rightarrow> ray" where
  "ray_set_norm r k =
     r\<lparr>r_norm := \<bar>k\<bar>, r_angle := (if k < 0 then normalize_angle (r_angle r + 180) else r_angle r)\<rparr>"

definition ray_neg :: "ray \<Rightarrow> ray" where
  "ray_neg r = ray_of_vec (vneg (ray_vector r)) (r_origin r)"

definition ray_endpoint :: "ray \<Rightarrow> vec" where
  "ray_endpoint r = (case r_origin r of Some o1 \<Rightarrow> vadd o1 (ray_vector r) | None \<Rightarrow> ray_vector r)"

definition ray_wf :: "ray \<Rightarrow> bool" where
  "ray_wf r \<longleftrightarrow> 0 \<le> r_norm r"

definition coherent :: "vector2d \<Rightarrow> bool" where
  "coherent v \<longleftrightarrow>
     (case f_norm v of None \<Rightarrow> True | Some n \<Rightarrow> 0 \<le> n)
   \<and> (case f_vector v of
        None \<Rightarrow> f_norm v \<noteq> None \<and> f_angle v \<noteq> None
      | Some p \<Rightarrow>
          f_norm v \<in> {None, Some (vnorm p)}
        \<and> (case f_angle v of None \<Rightarrow> True | Some a \<Rightarrow> p = polar2cartesian (vnorm p) a))"

definition abs_ray :: "vector2d \<Rightarrow> ray" where
  "abs_ray v =
     (case f_vector v of
        Some p \<Rightarrow>
          \<lparr>r_norm = vnorm p,
           r_angle = (case f_angle v of Some a \<Rightarrow> a | None \<Rightarrow> arctan2_deg (snd p) (fst p)),
           r_origin = f_origin v\<rparr>
      | None \<Rightarrow>
          \<lparr>r_norm = the (f_norm v), r_angle = the (f_angle v), r_origin = f_origin v\<rparr>)"

lemmas vector2d_defs =
  coherent_def abs_ray_def get_vector_def get_angle_def get_norm_def set_norm_def
  set_angle_def set_vector_def

lemma ray_of_vec_vector [simp]: "ray_vector (ray_of_vec p origin) = p"
  by (simp add: ray_vector_def ray_of_vec_def polar_of_vec)

lemma ray_of_vec_sel [simp]:
  "r_norm (ray_of_vec p origin) = vnorm p"
  "r_angle (ray_of_vec p origin) = arctan2_deg (snd p) (fst p)"
  "r_origin (ray_of_vec p origin) = origin"
  "ray_wf (ray_of_vec p origin)"
  by (simp_all add: ray_of_vec_def ray_wf_def)

lemma ray_neg_sel [simp]:
  "ray_vector (ray_neg r) = vneg (ray_vector r)"
  "r_norm (ray_neg r) = \<bar>r_norm r\<bar>"
  "r_origin (ray_neg r) = r_origin r"
  "ray_wf (ray_neg r)"
  by (simp_all add: ray_neg_def) (simp add: ray_vector_def vnorm_polar)

lemma ray_set_norm_sel [simp]:
  "r_norm (ray_set_norm r k) = \<bar>k\<bar>"
  "r_origin (ray_set_norm r k) = r_origin r"
  "ray_wf (ray_set_norm r k)"
  by (simp_all add: ray_set_norm_def ray_wf_def)

text \<open>The getters read the abstract value and keep it: filling a cache is not observable.\<close>

lemma get_vector_abs:
  assumes "coherent v"
  shows "\<exists>v'. get_vector v = Inr (ray_vector (abs_ray v), v') \<and> coherent v' \<and> abs_ray v' = abs_ray v"
proof (cases "f_vector v")
  case None
  then obtain n a where na: "f_norm v = Some n" "f_angle v = Some a"
    using assms by (auto simp: coherent_def)
  then have "0 \<le> n" using assms by (auto simp: coherent_def)
  then have "vnorm (polar2cartesian n a) = n" by (simp add: vnorm_polar)
  with None na \<open>0 \<le> n\<close> show ?thesis
    by (simp add: vector2d_defs ray_vector_def Let_def)
next
  case (Some p)
  have "ray_vector (abs_ray v) = p"
    using assms Some
    by (auto simp: vector2d_defs ray_vector_def polar_of_vec split: option.splits)
  with Some assms show ?thesis by (auto simp: get_vector_def)
qed

lemma get_angle_abs:
  assumes "coherent v"
  shows "\<exists>v'. get_angle v = Inr (r_angle (abs_ray v), v') \<and> coherent v' \<and> abs_ray v' = abs_ray v"
proof (cases "f_angle v")
  case None
  then obtain p where "f_vector v = Some p"
    using assms None by (auto simp: coherent_def split: option.splits)
  with None assms polar_of_vec [of p] show ?thesis
    by (simp add: vector2d_defs Let_def)
next
  case (Some a)
  with assms show ?thesis
    by (auto simp: vector2d_defs split: option.splits)
qed

lemma get_norm_abs:
  assumes "coherent v"
  shows "\<exists>v'. get_norm v = Inr (r_norm (abs_ray v), v') \<and> coherent v' \<and> abs_ray v' = abs_ray v"
proof (cases "f_norm v")
  case None
  then obtain p where "f_vector v = Some p"
    using assms None by (auto simp: coherent_def split: option.splits)
  with None assms show ?thesis
    by (auto simp: vector2d_defs Let_def)
next
  case (Some n)
  with assms show ?thesis
    by (auto simp: vector2d_defs split: option.splits)
qed

lemma get_angle_caches:
  "get_angle v = Inr (a, w) \<Longrightarrow> f_angle w = Some a \<and> f_origin w = f_origin v"
  by (auto simp: get_angle_def Let_def split: option.splits)

lemma r_origin_abs_ray [simp]: "r_origin (abs_ray v) = f_origin v"
  by (simp add: abs_ray_def split: option.splits)

lemma ray_set_norm_eq:
  "ray_set_norm r k =
     \<lparr>r_norm = \<bar>k\<bar>,
      r_angle = (if k < 0 then normalize_angle (r_angle r + 180) else r_angle r),
      r_origin = r_origin r\<rparr>"
  by (cases r) (simp add: ray_set_norm_def)

lemma abs_ray_polar:
  assumes "f_vector v = None" and "f_norm v = Some n" and "f_angle v = Some a"
  shows "abs_ray v = \<lparr>r_norm = n, r_angle = a, r_origin = f_origin v\<rparr>"
  using assms by (simp add: abs_ray_def)

lemma set_norm_abs:
  assumes "coherent v"
  shows "\<exists>v'. set_norm v k = Inr v' \<and> coherent v' \<and> abs_ray v' = ray_set_norm (abs_ray v) k"
proof -
  obtain w where w: "get_angle v = Inr (r_angle (abs_ray v), w)"
    using get_angle_abs [OF assms] by blast
  note a = get_angle_caches [OF w]
  let ?w = "w\<lparr>f_norm := Some \<bar>k\<bar>, f_vector := None\<rparr>"
  have "set_norm v k = Inr (if k < 0 then set_angle ?w (r_angle (abs_ray v) + 180) else ?w)"
    using w by (simp add: set_norm_def Let_def)
  moreover have "coherent (if k < 0 then set_angle ?w (r_angle (abs_ray v) + 180) else ?w)"
    using a by (simp add: coherent_def set_angle_def)
  moreover have "abs_ray (if k < 0 then set_angle ?w (r_angle (abs_ray v) + 180) else ?w)
      = ray_set_norm (abs_ray v) k"
    using a by (simp add: abs_ray_polar ray_set_norm_eq set_angle_def)
  ultimately show ?thesis by blast
qed

lemma new_vector2d_abs:
  "\<exists>v. new_vector2d (Some p) None None origin = Inr v \<and> coherent v \<and> abs_ray v = ray_of_vec p origin"
  "\<exists>v. new_vector2d None (Some n) (Some a) origin = Inr v \<and> coherent v
     \<and> abs_ray v = ray_of_polar n a origin"
  by (auto simp: new_vector2d_def vector2d_defs empty_vector2d_def ray_of_vec_def ray_of_polar_def Let_def)

subsection \<open>The interface of plane vectors\<close>

locale planar_vector =
  fixes invar :: "'v \<Rightarrow> bool"
    and vector_of :: "'v \<Rightarrow> vec"
    and norm_of :: "'v \<Rightarrow> real"
    and angle_of :: "'v \<Rightarrow> real"
    and with_norm :: "'v \<Rightarrow> real \<Rightarrow> 'v"
  assumes polar_form: "invar v \<Longrightarrow> vector_of v = polar2cartesian (norm_of v) (angle_of v)"
    and norm_nonneg: "invar v \<Longrightarrow> 0 \<le> norm_of v"
    and invar_with_norm: "invar v \<Longrightarrow> invar (with_norm v k)"
    and norm_with_norm: "invar v \<Longrightarrow> norm_of (with_norm v k) = \<bar>k\<bar>"
    and angle_with_norm: "invar v \<Longrightarrow> 0 \<le> k \<Longrightarrow> angle_of (with_norm v k) = angle_of v"
    and angle_reversed:
      "invar v \<Longrightarrow> k < 0 \<Longrightarrow> angle_of (with_norm v k) = normalize_angle (angle_of v + 180)"
begin

lemma norm_vector: "invar v \<Longrightarrow> vnorm (vector_of v) = norm_of v"
  by (simp add: polar_form vnorm_polar norm_nonneg)

lemma vector_with_norm:
  assumes "invar v"
  shows "vector_of (with_norm v k) = polar2cartesian k (angle_of v)"
proof (cases "k < 0")
  case True
  have "polar2cartesian (- k) (angle_of v + 180) = polar2cartesian k (angle_of v)"
    by (simp add: polar_half_turn) (simp add: polar2cartesian_def vneg_def)
  with True assms show ?thesis
    by (simp add: polar_form invar_with_norm norm_with_norm angle_reversed)
next
  case False
  with assms show ?thesis
    by (simp add: polar_form invar_with_norm norm_with_norm angle_with_norm)
qed

lemma vector_rescaled:
  assumes "invar v" and "norm_of v \<noteq> 0"
  shows "vector_of (with_norm v k) = vscale (k / norm_of v) (vector_of v)"
proof -
  have "polar2cartesian k (angle_of v)
      = vscale (k / norm_of v) (polar2cartesian (norm_of v) (angle_of v))"
    using assms(2) by (simp flip: polar_scale)
  with assms(1) show ?thesis by (simp add: vector_with_norm polar_form)
qed

text \<open>The clamp the program applies: \<open>if v.norm > limit: v.norm = limit\<close>.\<close>

lemma clamped_norm:
  assumes "invar v" and "0 \<le> limit"
  shows "vnorm (vector_of (if norm_of v > limit then with_norm v limit else v))
    = min (norm_of v) limit"
  using assms by (auto simp: norm_vector invar_with_norm norm_with_norm)

end

interpretation rv: planar_vector ray_wf ray_vector r_norm r_angle ray_set_norm
  by unfold_locales (auto simp: ray_wf_def ray_vector_def ray_set_norm_def)

text \<open>The values a getter reads, with the object's cache ignored.\<close>

definition vector_read :: "vector2d \<Rightarrow> vec" where
  "vector_read v = (case get_vector v of Inr (p, _) \<Rightarrow> p | Inl _ \<Rightarrow> (0, 0))"

definition norm_read :: "vector2d \<Rightarrow> real" where
  "norm_read v = (case get_norm v of Inr (n, _) \<Rightarrow> n | Inl _ \<Rightarrow> 0)"

definition angle_read :: "vector2d \<Rightarrow> real" where
  "angle_read v = (case get_angle v of Inr (a, _) \<Rightarrow> a | Inl _ \<Rightarrow> 0)"

definition norm_written :: "vector2d \<Rightarrow> real \<Rightarrow> vector2d" where
  "norm_written v k = (case set_norm v k of Inr w \<Rightarrow> w | Inl _ \<Rightarrow> v)"

lemma coherent_reads:
  assumes "coherent v"
  shows "vector_read v = ray_vector (abs_ray v)" and "norm_read v = r_norm (abs_ray v)"
    and "angle_read v = r_angle (abs_ray v)"
    and "coherent (norm_written v k) \<and> abs_ray (norm_written v k) = ray_set_norm (abs_ray v) k"
  using get_vector_abs [OF assms] get_norm_abs [OF assms] get_angle_abs [OF assms]
    set_norm_abs [OF assms, of k]
  by (auto simp: vector_read_def norm_read_def angle_read_def norm_written_def)

lemma coherent_ray_wf: "coherent v \<Longrightarrow> ray_wf (abs_ray v)"
  by (auto simp: coherent_def abs_ray_def ray_wf_def split: option.splits)

interpretation cv: planar_vector coherent vector_read norm_read angle_read norm_written
proof unfold_locales
  fix v :: vector2d and k :: real
  assume c: "coherent v"
  note wf = coherent_ray_wf [OF c]
  note reads = coherent_reads(1,2,3) [OF c]
  have w: "coherent (norm_written v k)" "abs_ray (norm_written v k) = ray_set_norm (abs_ray v) k"
    using coherent_reads(4) [OF c] by auto
  note wreads = coherent_reads(2,3) [OF w(1)]
  show "vector_read v = polar2cartesian (norm_read v) (angle_read v)"
    by (simp add: reads ray_vector_def)
  show "0 \<le> norm_read v"
    using wf by (simp add: reads ray_wf_def)
  show "coherent (norm_written v k)" by (rule w)
  show "norm_read (norm_written v k) = \<bar>k\<bar>"
    by (simp add: wreads w)
  show "angle_read (norm_written v k) = angle_read v" if "0 \<le> k"
    using that by (simp add: wreads w reads ray_set_norm_def)
  show "angle_read (norm_written v k) = normalize_angle (angle_read v + 180)" if "k < 0"
    using that by (simp add: wreads w reads ray_set_norm_def)
qed

text \<open>C40: the cached object is observationally the plain value: for a coherent object every getter
  returns the component of its abstract ray and leaves a coherent object with the same ray, setting
  the norm refines the operation on rays, and neither raises; the two ways of building an object give
  coherent objects.\<close>

theorem vector2d_refines_ray:
  assumes "coherent v"
  shows "(\<exists>v'. get_vector v = Inr (ray_vector (abs_ray v), v') \<and> coherent v' \<and> abs_ray v' = abs_ray v)
    \<and> (\<exists>v'. get_angle v = Inr (r_angle (abs_ray v), v') \<and> coherent v' \<and> abs_ray v' = abs_ray v)
    \<and> (\<exists>v'. get_norm v = Inr (r_norm (abs_ray v), v') \<and> coherent v' \<and> abs_ray v' = abs_ray v)
    \<and> (\<exists>v'. set_norm v k = Inr v' \<and> coherent v' \<and> abs_ray v' = ray_set_norm (abs_ray v) k)
    \<and> (\<exists>w. new_vector2d (Some p) None None origin = Inr w \<and> coherent w \<and> abs_ray w = ray_of_vec p origin)"
  using get_vector_abs [OF assms] get_angle_abs [OF assms] get_norm_abs [OF assms]
    set_norm_abs [OF assms] new_vector2d_abs(1) by blast

theorem vector2d_refines_ray_witness:
  "\<exists>v'. set_norm \<lparr>f_vector = None, f_angle = Some 90, f_norm = Some 2, f_origin = None\<rparr> (- 3) = Inr v'
     \<and> abs_ray v' = \<lparr>r_norm = 3, r_angle = normalize_angle 270, r_origin = None\<rparr>"
proof -
  let ?v = "\<lparr>f_vector = None, f_angle = Some 90, f_norm = Some 2, f_origin = None\<rparr> :: vector2d"
  have c: "coherent ?v" by (simp add: coherent_def)
  have "ray_set_norm (abs_ray ?v) (- 3) = \<lparr>r_norm = 3, r_angle = normalize_angle 270, r_origin = None\<rparr>"
    by (simp add: abs_ray_def ray_set_norm_def)
  with vector2d_refines_ray [OF c, of "- 3"] show ?thesis by metis
qed

end
