(* ===== verification/Obstruction.thy ===== *)
theory Obstruction
  imports Vectors
begin

text \<open>
  \<open>Obstacle.obstruct\<close> of \<^verbatim>\<open>mate/entities.py\<close>: what a disc does to a ray, either a line of sight
  (the ray is cut at the near or the far side) or a moving target (the rest of the step slides
  along the disc). \<open>obstruct\<close> is the method on rays; \<open>obstruct_vec\<close> is its effect on the vector
  of the ray. The lemmas: an obstructed step is never longer, and from outside the disc it never
  ends inside.
\<close>

definition origin_of :: "ray \<Rightarrow> vec" where
  "origin_of r = (case r_origin r of Some o1 \<Rightarrow> o1 | None \<Rightarrow> (0, 0))"

lemma ray_endpoint_eq: "ray_endpoint r = vadd (origin_of r) (ray_vector r)"
  by (simp add: ray_endpoint_def origin_of_def vadd_def split: option.split)

definition obstruct :: "vec \<Rightarrow> real \<Rightarrow> ray \<Rightarrow> bool \<Rightarrow> bool \<Rightarrow> ray" where
  "obstruct location radius ray keep_tangential outer =
     (let relative = vsub location (origin_of ray);
          relative_norm = vnorm relative;
          nrm = r_norm ray
      in if nrm = 0 \<or> relative_norm < radius then ray_neg ray
      else if relative_norm \<ge> nrm + radius then ray
      else
        (let dotp = vdot relative (ray_vector ray)
         in if dotp \<ge> 0 then
              (let cosine = min 1 (dotp / (relative_norm * nrm));
                   perpendicular = relative_norm * sqrt (1 - cosine\<^sup>2)
               in if radius > perpendicular then
                    (let half_chord = sqrt (radius\<^sup>2 - perpendicular\<^sup>2);
                         new_norm = (if \<not> outer then max 0 (relative_norm * cosine - half_chord)
                                     else max 0 (relative_norm * cosine + half_chord))
                     in if new_norm < nrm then
                          (let old_ray = ray_vector ray;
                               ray1 = ray_set_norm ray new_norm
                           in if keep_tangential then
                                (let r = vsub (ray_endpoint ray1) location
                                 in ray_of_vec
                                      (vadd old_ray
                                        (vscale ((nrm - new_norm) * half_chord / radius\<^sup>2) r))
                                      (r_origin ray))
                              else ray1)
                        else ray)
                  else ray)
            else ray))"

subsection \<open>The effect on the vector\<close>

text \<open>\<open>d\<close> is the centre seen from the origin of the ray, \<open>v\<close> the vector of the ray.\<close>

definition foot :: "vec \<Rightarrow> vec \<Rightarrow> real" where
  "foot d v = vdot d v / vnorm v"

definition half_chord_of :: "vec \<Rightarrow> real \<Rightarrow> vec \<Rightarrow> real" where
  "half_chord_of d radius v = sqrt (radius\<^sup>2 - (vnorm d)\<^sup>2 + (foot d v)\<^sup>2)"

definition hit :: "vec \<Rightarrow> real \<Rightarrow> vec \<Rightarrow> bool" where
  "hit d radius v \<longleftrightarrow>
     \<not> vnorm d \<ge> vnorm v + radius \<and> vdot d v \<ge> 0 \<and> 0 < radius
   \<and> (vnorm d)\<^sup>2 - (foot d v)\<^sup>2 < radius\<^sup>2"

definition obstruct_vec :: "vec \<Rightarrow> real \<Rightarrow> vec \<Rightarrow> bool \<Rightarrow> vec" where
  "obstruct_vec d radius v keep_tangential =
     (if v = (0, 0) \<or> vnorm d < radius then vneg v
      else if hit d radius v \<and> foot d v - half_chord_of d radius v < vnorm v then
        (let new_norm = foot d v - half_chord_of d radius v;
             cut = vscale (new_norm / vnorm v) v
         in if keep_tangential
            then vadd v (vscale ((vnorm v - new_norm) * half_chord_of d radius v / radius\<^sup>2)
                           (vsub cut d))
            else cut)
      else v)"

lemma vdot_self: "vdot v v = (vnorm v)\<^sup>2"
  by (simp add: vdot_def vnorm_def power2_eq_square)

lemma vnorm_sq: "(vnorm v)\<^sup>2 = (fst v)\<^sup>2 + (snd v)\<^sup>2"
  by (simp add: vnorm_def)

lemma vnorm_pos: "v \<noteq> (0, 0) \<Longrightarrow> 0 < vnorm v"
  using vnorm_nonneg [of v] vnorm_eq_0 [of v] by linarith

lemma cauchy_schwarz: "(vdot d v)\<^sup>2 \<le> (vnorm d)\<^sup>2 * (vnorm v)\<^sup>2"
proof -
  have "(vnorm d)\<^sup>2 * (vnorm v)\<^sup>2 - (vdot d v)\<^sup>2 = (fst d * snd v - snd d * fst v)\<^sup>2"
    unfolding vnorm_sq by (simp add: vdot_def power2_eq_square algebra_simps)
  then have "0 \<le> (vnorm d)\<^sup>2 * (vnorm v)\<^sup>2 - (vdot d v)\<^sup>2" by simp
  then show ?thesis by simp
qed

lemma vdot_le: "vdot d v \<le> vnorm d * vnorm v"
  by (rule power2_le_imp_le) (simp_all add: cauchy_schwarz power_mult_distrib)

lemma foot_le: "v \<noteq> (0, 0) \<Longrightarrow> foot d v \<le> vnorm d"
  using vdot_le [of d v] by (simp add: foot_def pos_divide_le_eq vnorm_pos)

lemma foot_sq_le: "v \<noteq> (0, 0) \<Longrightarrow> (foot d v)\<^sup>2 \<le> (vnorm d)\<^sup>2"
  using cauchy_schwarz [of d v]
  by (simp add: foot_def power_divide pos_divide_le_eq vnorm_pos)

lemma vdot_foot: "v \<noteq> (0, 0) \<Longrightarrow> vdot d v = foot d v * vnorm v"
  by (simp add: foot_def)

text \<open>The squared distance from the centre to the end of a multiple of the ray.\<close>

lemma dist_scaled:
  "(vnorm (vsub (vscale k v) d))\<^sup>2 = k\<^sup>2 * (vnorm v)\<^sup>2 - 2 * k * vdot d v + (vnorm d)\<^sup>2"
  unfolding vnorm_sq by (simp add: vsub_def vscale_def vdot_def power2_eq_square algebra_simps)

lemma dist_end: "(vnorm (vsub v d))\<^sup>2 = (vnorm v)\<^sup>2 - 2 * vdot d v + (vnorm d)\<^sup>2"
  using dist_scaled [of 1 v d] by (simp add: vscale_def)

lemma hit_chord:
  assumes "hit d radius v" and "v \<noteq> (0, 0)" and "radius \<le> vnorm d"
  shows "0 < half_chord_of d radius v" and "half_chord_of d radius v \<le> radius"
    and "(half_chord_of d radius v)\<^sup>2 = radius\<^sup>2 - (vnorm d)\<^sup>2 + (foot d v)\<^sup>2"
    and "0 \<le> foot d v - half_chord_of d radius v"
proof -
  let ?h = "half_chord_of d radius v"
  have pos: "0 < radius\<^sup>2 - (vnorm d)\<^sup>2 + (foot d v)\<^sup>2" and r: "0 < radius"
    using assms(1) by (simp_all add: hit_def)
  then show h: "0 < ?h" and sq: "?h\<^sup>2 = radius\<^sup>2 - (vnorm d)\<^sup>2 + (foot d v)\<^sup>2"
    by (simp_all add: half_chord_of_def)
  have "?h\<^sup>2 \<le> radius\<^sup>2"
    using sq foot_sq_le [OF assms(2), of d] by linarith
  then show "?h \<le> radius"
    by (rule power2_le_imp_le) (use r in simp)
  have "radius\<^sup>2 \<le> (vnorm d)\<^sup>2"
    using assms(3) r by (intro power_mono) simp_all
  then have "?h\<^sup>2 \<le> (foot d v)\<^sup>2"
    using sq by linarith
  moreover have "0 \<le> foot d v"
    using assms(1) by (simp add: hit_def foot_def)
  ultimately have "?h \<le> foot d v"
    by (rule power2_le_imp_le)
  then show "0 \<le> foot d v - ?h" by simp
qed

text \<open>The cut point lies on the circle, and the outward normal there opposes the motion.\<close>

lemma cut_point:
  assumes "hit d radius v" and "v \<noteq> (0, 0)" and "radius \<le> vnorm d"
  defines "h \<equiv> half_chord_of d radius v"
  defines "m \<equiv> vsub (vscale ((foot d v - h) / vnorm v) v) d"
  shows "(vnorm m)\<^sup>2 = radius\<^sup>2" and "vdot v m = - (h * vnorm v)"
proof -
  have n: "0 < vnorm v" using assms(2) vnorm_nonneg [of v] vnorm_eq_0 [of v] by linarith
  let ?k = "(foot d v - h) / vnorm v"
  have kn: "?k * vnorm v = foot d v - h" using assms(2) by simp
  have "(vnorm m)\<^sup>2 = (?k * vnorm v)\<^sup>2 - 2 * (?k * vnorm v) * foot d v + (vnorm d)\<^sup>2"
    unfolding m_def dist_scaled vdot_foot [OF assms(2)]
    by (simp only: power_mult_distrib) (simp only: mult.assoc mult.commute mult.left_commute)
  also have "\<dots> = h\<^sup>2 - (foot d v)\<^sup>2 + (vnorm d)\<^sup>2"
    unfolding kn by (simp add: power2_eq_square algebra_simps)
  also have "\<dots> = radius\<^sup>2"
    using hit_chord(3) [OF assms(1-3)] by (simp add: h_def)
  finally show "(vnorm m)\<^sup>2 = radius\<^sup>2" .
  have "vdot v m = ?k * vdot v v - vdot d v"
    by (simp add: m_def vdot_def vsub_def vscale_def algebra_simps)
  also have "\<dots> = (?k * vnorm v) * vnorm v - foot d v * vnorm v"
    unfolding vdot_self vdot_foot [OF assms(2)] power2_eq_square by (simp only: mult.assoc)
  also have "\<dots> = - (h * vnorm v)"
    unfolding kn by (simp add: algebra_simps)
  finally show "vdot v m = - (h * vnorm v)" .
qed

lemma vnorm_add_scale:
  "(vnorm (vadd v (vscale c m)))\<^sup>2 = (vnorm v)\<^sup>2 + 2 * c * vdot v m + c\<^sup>2 * (vnorm m)\<^sup>2"
  unfolding vnorm_sq by (simp add: vadd_def vscale_def vdot_def power2_eq_square algebra_simps)

lemma vdot_vscale: "vdot (vscale a v) m = a * vdot v m"
  by (simp add: vdot_def vscale_def algebra_simps)

lemma slide_end:
  assumes "v \<noteq> (0, 0)" and "vdot v m = - (h * vnorm v)" and "(vnorm m)\<^sup>2 = radius\<^sup>2"
  shows "(vnorm (vadd (vscale (k / vnorm v) v) (vscale (1 + c) m)))\<^sup>2
    = (1 + c)\<^sup>2 * radius\<^sup>2 - 2 * (1 + c) * k * h + k\<^sup>2"
proof -
  have "(vnorm (vscale (k / vnorm v) v))\<^sup>2 = k\<^sup>2"
    using assms(1) by (simp add: vnorm_vscale)
  moreover have "vdot (vscale (k / vnorm v) v) m = - (k * h)"
    using assms(1) by (simp add: vdot_vscale assms(2))
  ultimately show ?thesis
    unfolding vnorm_add_scale assms(3) by simp
qed

text \<open>The two quadratic identities of the sliding step.\<close>

lemma slide_norm:
  fixes n k h radius :: real
  assumes "0 < radius" and "0 \<le> k" and "k \<le> n" and "c = k * h / radius\<^sup>2"
  shows "n\<^sup>2 + 2 * c * (- (h * n)) + c\<^sup>2 * radius\<^sup>2 \<le> n\<^sup>2"
proof -
  have cr: "c * radius\<^sup>2 = k * h" using assms(1,4) by simp
  have "n\<^sup>2 + 2 * c * (- (h * n)) + c\<^sup>2 * radius\<^sup>2 = n\<^sup>2 - c * h * (2 * n - k)"
    using cr by (simp add: power2_eq_square algebra_simps)
  moreover have "0 \<le> c * h * (2 * n - k)"
  proof -
    have "c * h = k * h\<^sup>2 / radius\<^sup>2" using assms(4) by (simp add: power2_eq_square)
    then have "0 \<le> c * h" using assms(1,2) by simp
    then show ?thesis by (rule mult_nonneg_nonneg) (use assms(2,3) in simp)
  qed
  ultimately show ?thesis by simp
qed

lemma slide_outside:
  fixes k h radius :: real
  assumes "0 < radius" and "0 \<le> h" and "h \<le> radius" and "c = k * h / radius\<^sup>2"
  shows "radius\<^sup>2 \<le> (1 + c)\<^sup>2 * radius\<^sup>2 - 2 * (1 + c) * k * h + k\<^sup>2"
proof -
  have cr: "c * radius\<^sup>2 = k * h" using assms(1,4) by simp
  have "(1 + c)\<^sup>2 * radius\<^sup>2 - 2 * (1 + c) * k * h + k\<^sup>2
      = radius\<^sup>2 + 2 * (c * radius\<^sup>2) + c * (c * radius\<^sup>2) - 2 * (k * h) - 2 * c * (k * h) + k\<^sup>2"
    by (simp add: power2_eq_square algebra_simps)
  also have "\<dots> = radius\<^sup>2 + k\<^sup>2 - c * (k * h)"
    unfolding cr by (simp add: algebra_simps)
  finally have e: "(1 + c)\<^sup>2 * radius\<^sup>2 - 2 * (1 + c) * k * h + k\<^sup>2 = radius\<^sup>2 + k\<^sup>2 - c * (k * h)" .
  have "h\<^sup>2 \<le> radius\<^sup>2" using assms(2,3) by (rule power_mono [rotated])
  then have "k\<^sup>2 * (h\<^sup>2 / radius\<^sup>2) \<le> k\<^sup>2 * 1"
    using assms(1) by (intro mult_left_mono) (simp_all add: divide_le_eq)
  moreover have "c * (k * h) = k\<^sup>2 * (h\<^sup>2 / radius\<^sup>2)"
    using assms(4) by (simp add: power2_eq_square)
  ultimately show ?thesis unfolding e by simp
qed

lemma obstruct_vec_norm_le: "vnorm (obstruct_vec d radius v keep) \<le> vnorm v"
proof (cases "v \<noteq> (0, 0) \<and> \<not> vnorm d < radius \<and> hit d radius v
    \<and> foot d v - half_chord_of d radius v < vnorm v")
  case False
  then show ?thesis by (auto simp: obstruct_vec_def)
next
  case True
  then have v: "v \<noteq> (0, 0)" and dr: "radius \<le> vnorm d" and ht: "hit d radius v" by auto
  let ?h = "half_chord_of d radius v" and ?n = "vnorm v"
  let ?new = "foot d v - ?h"
  let ?m = "vsub (vscale (?new / ?n) v) d" and ?c = "(?n - ?new) * ?h / radius\<^sup>2"
  have new: "0 \<le> ?new" "?new < ?n" and r: "0 < radius"
    using hit_chord(4) [OF ht v dr] True ht by (simp_all add: hit_def)
  have n: "0 < ?n" using new by linarith
  show ?thesis
  proof (cases keep)
    case keep: True
    have "(vnorm (vadd v (vscale ?c ?m)))\<^sup>2 = ?n\<^sup>2 + 2 * ?c * (- (?h * ?n)) + ?c\<^sup>2 * radius\<^sup>2"
      unfolding vnorm_add_scale cut_point [OF ht v dr] ..
    also have "\<dots> \<le> ?n\<^sup>2"
      using r new by (intro slide_norm [where k = "?n - ?new"]) auto
    finally have "vnorm (vadd v (vscale ?c ?m)) \<le> ?n"
      by (rule power2_le_imp_le) simp
    with keep True show ?thesis by (simp add: obstruct_vec_def Let_def)
  next
    case False
    have "vnorm (vscale (?new / ?n) v) = ?new"
      using new n v by (simp add: vnorm_vscale)
    with False True new show ?thesis by (simp add: obstruct_vec_def Let_def)
  qed
qed

lemma obstruct_vec_outside:
  assumes "0 \<le> radius" and "radius \<le> vnorm d"
  shows "radius \<le> vnorm (vsub (obstruct_vec d radius v keep) d)"
proof -
  have zero: "vnorm (vsub (0, 0) d) = vnorm d"
    by (simp add: vnorm_def vsub_def)
  have sq: "radius \<le> vnorm w" if "radius\<^sup>2 \<le> (vnorm w)\<^sup>2" for w
    using that by (rule power2_le_imp_le) simp
  consider (Zero) "v = (0, 0)" | (Miss) "v \<noteq> (0, 0)" "\<not> hit d radius v"
    | (Short) "v \<noteq> (0, 0)" "hit d radius v" "\<not> foot d v - half_chord_of d radius v < vnorm v"
    | (Hit) "v \<noteq> (0, 0)" "hit d radius v" "foot d v - half_chord_of d radius v < vnorm v"
    by blast
  then show ?thesis
  proof cases
    case Zero
    then show ?thesis using assms by (simp add: obstruct_vec_def vneg_def zero)
  next
    case Miss
    let ?n = "vnorm v" and ?D = "vnorm d" and ?f = "foot d v"
    have e: "(vnorm (vsub v d))\<^sup>2 = (?n - ?f)\<^sup>2 + (?D\<^sup>2 - ?f\<^sup>2)"
      unfolding dist_end vdot_foot [OF Miss(1)] by (simp add: power2_eq_square algebra_simps)
    have D: "radius\<^sup>2 \<le> ?D\<^sup>2" using assms by (intro power_mono)
    have "radius\<^sup>2 \<le> (vnorm (vsub v d))\<^sup>2"
    proof (cases "?D \<ge> ?n + radius")
      case True
      have "(?D - ?n)\<^sup>2 \<le> (vnorm (vsub v d))\<^sup>2"
        unfolding dist_end using vdot_le [of d v] by (simp add: power2_eq_square algebra_simps)
      moreover have "radius\<^sup>2 \<le> (?D - ?n)\<^sup>2"
        using True assms(1) by (intro power_mono) simp_all
      ultimately show ?thesis by simp
    next
      case False
      with Miss consider "vdot d v < 0" | "radius = 0" | "radius\<^sup>2 \<le> ?D\<^sup>2 - ?f\<^sup>2"
        using assms(1) by (fastforce simp: hit_def)
      then show ?thesis
      proof cases
        case 1
        then show ?thesis unfolding dist_end using D zero_le_power2 [of ?n] by linarith
      next
        case 2
        then show ?thesis by simp
      next
        case 3
        then show ?thesis unfolding e using zero_le_power2 [of "?n - ?f"] by linarith
      qed
    qed
    with Miss assms show ?thesis by (simp add: obstruct_vec_def sq)
  next
    case Short
    let ?n = "vnorm v" and ?D = "vnorm d" and ?f = "foot d v" and ?h = "half_chord_of d radius v"
    have h: "0 < ?h" "?h\<^sup>2 = radius\<^sup>2 - ?D\<^sup>2 + ?f\<^sup>2"
      using hit_chord(1,3) [OF Short(2,1) assms(2)] by simp_all
    have "?h \<le> ?f - ?n" using Short(3) by simp
    then have "?h\<^sup>2 \<le> (?f - ?n)\<^sup>2" using h(1) by (intro power_mono) simp_all
    moreover have "(vnorm (vsub v d))\<^sup>2 = (?f - ?n)\<^sup>2 + (?D\<^sup>2 - ?f\<^sup>2)"
      unfolding dist_end vdot_foot [OF Short(1)] by (simp add: power2_eq_square algebra_simps)
    ultimately have "radius\<^sup>2 \<le> (vnorm (vsub v d))\<^sup>2" using h(2) by linarith
    with Short assms show ?thesis by (simp add: obstruct_vec_def sq)
  next
    case Hit
    let ?n = "vnorm v" and ?h = "half_chord_of d radius v"
    let ?new = "foot d v - ?h"
    let ?m = "vsub (vscale (?new / ?n) v) d" and ?c = "(?n - ?new) * ?h / radius\<^sup>2"
    have m: "(vnorm ?m)\<^sup>2 = radius\<^sup>2" "vdot v ?m = - (?h * ?n)"
      using cut_point [OF Hit(2,1) assms(2)] by simp_all
    have n: "0 < ?n" using Hit(1) vnorm_nonneg [of v] vnorm_eq_0 [of v] by linarith
    have h: "0 \<le> ?h" "?h \<le> radius" and r: "0 < radius"
      using hit_chord(1,2) [OF Hit(2,1) assms(2)] Hit(2) by (simp_all add: hit_def)
    show ?thesis
    proof (cases keep)
      case True
      let ?w = "vadd v (vscale ?c ?m)"
      have split: "vsub ?w d = vadd (vscale ((?n - ?new) / ?n) v) (vscale (1 + ?c) ?m)"
        using n Hit(1) by (simp add: vsub_def vadd_def vscale_def diff_divide_distrib add_divide_distrib
              algebra_simps)
      have "(vnorm (vsub ?w d))\<^sup>2
          = (1 + ?c)\<^sup>2 * radius\<^sup>2 - 2 * (1 + ?c) * (?n - ?new) * ?h + (?n - ?new)\<^sup>2"
        unfolding split by (rule slide_end [OF Hit(1) m(2,1)])
      then have "radius\<^sup>2 \<le> (vnorm (vsub ?w d))\<^sup>2"
        using slide_outside [OF r h, of ?c "?n - ?new"] by simp
      with Hit True assms show ?thesis by (simp add: obstruct_vec_def Let_def sq)
    next
      case False
      with Hit assms m(1) show ?thesis by (simp add: obstruct_vec_def Let_def sq)
    qed
  qed
qed

subsection \<open>The method computes it\<close>

lemma obstruct_frame [simp]:
  "r_origin (obstruct location radius ray keep outer) = r_origin ray"
  "origin_of (obstruct location radius ray keep outer) = origin_of ray"
  by (simp_all add: obstruct_def Let_def origin_of_def)

lemma obstruct_wf: "ray_wf ray \<Longrightarrow> ray_wf (obstruct location radius ray keep outer)"
  by (simp add: obstruct_def Let_def)

lemma perpendicular_foot:
  assumes "d \<noteq> (0, 0)" and "v \<noteq> (0, 0)" and "0 \<le> vdot d v"
  defines "cosine \<equiv> min 1 (vdot d v / (vnorm d * vnorm v))"
  shows "vnorm d * cosine = foot d v"
    and "(vnorm d * sqrt (1 - cosine\<^sup>2))\<^sup>2 = (vnorm d)\<^sup>2 - (foot d v)\<^sup>2"
    and "0 \<le> vnorm d * sqrt (1 - cosine\<^sup>2)"
proof -
  have pos: "0 < vnorm d" "0 < vnorm v" using assms(1,2) by (simp_all add: vnorm_pos)
  have c: "cosine = vdot d v / (vnorm d * vnorm v)"
    using vdot_le [of d v] assms(1,2) pos
    by (simp add: cosine_def min_def pos_divide_le_eq mult.commute)
  show f: "vnorm d * cosine = foot d v"
    using assms(1) unfolding c by (simp add: foot_def)
  have "0 \<le> cosine" "cosine \<le> 1"
    using assms(3) pos unfolding cosine_def by simp_all
  then have sq: "cosine\<^sup>2 \<le> 1"
    by (simp add: power_le_one)
  then have "(vnorm d * sqrt (1 - cosine\<^sup>2))\<^sup>2 = (vnorm d)\<^sup>2 - (vnorm d * cosine)\<^sup>2"
    by (simp add: power_mult_distrib right_diff_distrib)
  then show "(vnorm d * sqrt (1 - cosine\<^sup>2))\<^sup>2 = (vnorm d)\<^sup>2 - (foot d v)\<^sup>2"
    unfolding f .
  show "0 \<le> vnorm d * sqrt (1 - cosine\<^sup>2)"
    using sq by simp
qed

lemma square_less_iff:
  fixes p radius :: real
  assumes "0 \<le> p" and "0 \<le> radius"
  shows "p < radius \<longleftrightarrow> 0 < radius \<and> p\<^sup>2 < radius\<^sup>2"
  using assms power_strict_mono [of p radius 2] power2_less_imp_less [of p radius] by auto

theorem obstruct_vector:
  assumes "ray_wf ray" and "0 \<le> radius"
  shows "ray_vector (obstruct location radius ray keep False)
    = obstruct_vec (vsub location (origin_of ray)) radius (ray_vector ray) keep"
proof -
  let ?d = "vsub location (origin_of ray)" and ?v = "ray_vector ray"
  have n: "r_norm ray = vnorm ?v"
    using rv.norm_vector [OF assms(1)] by simp
  show ?thesis
  proof (cases "?v = (0, 0) \<or> vnorm ?d < radius")
    case True
    then show ?thesis by (auto simp: obstruct_def obstruct_vec_def Let_def n)
  next
    case False
    then have v: "?v \<noteq> (0, 0)" and dr: "radius \<le> vnorm ?d" by auto
    let ?cos = "min 1 (vdot ?d ?v / (vnorm ?d * vnorm ?v))"
    let ?perp = "vnorm ?d * sqrt (1 - ?cos\<^sup>2)"
    show ?thesis
    proof (cases "vnorm ?d < vnorm ?v + radius \<and> 0 \<le> vdot ?d ?v \<and> ?d \<noteq> (0, 0)")
      case False
      then show ?thesis
        using v dr assms(2)
        by (auto simp: obstruct_def obstruct_vec_def hit_def Let_def n)
    next
      case True
      note perp = perpendicular_foot [OF _ v, of ?d]
      have p: "vnorm ?d * ?cos = foot ?d ?v" "?perp\<^sup>2 = (vnorm ?d)\<^sup>2 - (foot ?d ?v)\<^sup>2" "0 \<le> ?perp"
        using perp True by simp_all
      have ht: "hit ?d radius ?v \<longleftrightarrow> ?perp < radius"
        unfolding square_less_iff [OF p(3) assms(2)] p(2) using True by (auto simp: hit_def)
      have hc: "sqrt (radius\<^sup>2 - ?perp\<^sup>2) = half_chord_of ?d radius ?v"
        unfolding p(2) half_chord_of_def by (rule arg_cong [where f = sqrt]) simp
      have cut: "ray_vector (ray_set_norm ray k) = vscale (k / vnorm ?v) ?v" for k
        using rv.vector_rescaled [OF assms(1)] v by (simp add: n)
      have nonneg: "hit ?d radius ?v \<Longrightarrow> max 0 (foot ?d ?v - half_chord_of ?d radius ?v)
          = foot ?d ?v - half_chord_of ?d radius ?v"
        using hit_chord(4) [OF _ v dr] by simp
      have e: "vsub (ray_endpoint (ray_set_norm ray k)) location = vsub (vscale (k / vnorm ?v) ?v) ?d" for k
        unfolding ray_endpoint_eq cut by (simp add: origin_of_def vsub_def vadd_def)
      show ?thesis
        unfolding obstruct_def Let_def n p(1) hc e
        using True v dr ht nonneg
        by (auto simp: obstruct_vec_def Let_def cut)
    qed
  qed
qed

text \<open>A ray that is not turned back keeps its direction, and the cut never lengthens it.\<close>

lemma obstruct_line_of_sight:
  assumes "ray_wf ray" and "r_norm ray \<noteq> 0"
    and "radius \<le> vnorm (vsub location (origin_of ray))"
  shows "r_norm (obstruct location radius ray False outer) \<le> r_norm ray"
    and "r_angle (obstruct location radius ray False outer) = r_angle ray"
  using assms by (auto simp: obstruct_def Let_def ray_set_norm_def ray_wf_def)

end
