(* ===== verification/Constants.thy ===== *)
theory Constants
  imports Geometry
begin

text \<open>
  \<^verbatim>\<open>mate/constants.py\<close> and the team enumeration of \<^verbatim>\<open>mate/utils.py\<close>: the terrain, the
  warehouses, the dimensions of the state and observation vectors, the observation spaces, and
  the layout of an observation (the index of each part, its slices and the mask of coordinate
  entries). The lemmas say that the layout, the spaces and the masks agree on every length.
\<close>

datatype team = CAMERA | TARGET

text \<open>A bound of a \<open>spaces.Box\<close>: finite or infinite. The dimension of a box is the length.\<close>

datatype ext = Fin real | PInf | NInf

record box =
  low :: "ext list"
  high :: "ext list"

definition TERRAIN_SIZE :: real where "TERRAIN_SIZE = 1000"
definition TERRAIN_WIDTH :: real where "TERRAIN_WIDTH = 2 * TERRAIN_SIZE"
definition WAREHOUSE_RADIUS :: real where "WAREHOUSE_RADIUS = 75 / 1000 * TERRAIN_SIZE"

definition WAREHOUSES :: "vec list" where
  "WAREHOUSES = map (vscale (TERRAIN_SIZE - WAREHOUSE_RADIUS)) [(1, 1), (- 1, 1), (- 1, - 1), (1, - 1)]"

definition NUM_WAREHOUSES :: nat where "NUM_WAREHOUSES = 4"
definition MAX_CAMERA_VIEWING_ANGLE :: real where "MAX_CAMERA_VIEWING_ANGLE = 180"
definition TARGET_RADIUS :: real where "TARGET_RADIUS = 0"
definition PRESERVED_DIM :: nat where "PRESERVED_DIM = 3 + 1 + 2 * NUM_WAREHOUSES + 1"
definition CAMERA_STATE_DIM_PUBLIC :: nat where "CAMERA_STATE_DIM_PUBLIC = 6"
definition CAMERA_STATE_DIM_PRIVATE :: nat where "CAMERA_STATE_DIM_PRIVATE = 9"
definition TARGET_STATE_DIM_PUBLIC :: nat where "TARGET_STATE_DIM_PUBLIC = 4"
definition TARGET_STATE_DIM_PRIVATE :: nat where "TARGET_STATE_DIM_PRIVATE = 6 + NUM_WAREHOUSES * 2"
definition OBSTACLE_STATE_DIM :: nat where "OBSTACLE_STATE_DIM = 3"
definition CAMERA_ACTION_DIM :: nat where "CAMERA_ACTION_DIM = 2"
definition TARGET_ACTION_DIM :: nat where "TARGET_ACTION_DIM = 2"

lemmas dim_defs = NUM_WAREHOUSES_def PRESERVED_DIM_def CAMERA_STATE_DIM_PUBLIC_def
  CAMERA_STATE_DIM_PRIVATE_def TARGET_STATE_DIM_PUBLIC_def TARGET_STATE_DIM_PRIVATE_def
  OBSTACLE_STATE_DIM_def CAMERA_ACTION_DIM_def TARGET_ACTION_DIM_def

lemmas terrain_defs = TERRAIN_SIZE_def TERRAIN_WIDTH_def WAREHOUSE_RADIUS_def

lemma num_warehouses: "length WAREHOUSES = NUM_WAREHOUSES"
  by (simp add: WAREHOUSES_def NUM_WAREHOUSES_def)

subsection \<open>Spaces\<close>

definition tile :: "nat \<Rightarrow> 'a list \<Rightarrow> 'a list" where
  "tile n xs = concat (replicate n xs)"

lemma length_tile [simp, shape_simps]: "length (tile n xs) = n * length xs"
  by (induction n) (simp_all add: tile_def)

definition TERRAIN_SPACE :: box where
  "TERRAIN_SPACE = \<lparr>low = [Fin (- TERRAIN_SIZE), Fin (- TERRAIN_SIZE)],
                    high = [Fin TERRAIN_SIZE, Fin TERRAIN_SIZE]\<rparr>"

text \<open>\<open>2.0 * TERRAIN_SPACE.low\<close> and \<open>2.0 * TERRAIN_SPACE.high\<close>.\<close>

definition WIDE_LOW :: "ext list" where "WIDE_LOW = [Fin (- TERRAIN_WIDTH), Fin (- TERRAIN_WIDTH)]"
definition WIDE_HIGH :: "ext list" where "WIDE_HIGH = [Fin TERRAIN_WIDTH, Fin TERRAIN_WIDTH]"

definition PRESERVED_SPACE :: box where
  "PRESERVED_SPACE =
     \<lparr>low = replicate 4 (Fin 0) @ tile NUM_WAREHOUSES WIDE_LOW @ [Fin 0],
      high = replicate 4 PInf @ tile NUM_WAREHOUSES WIDE_HIGH @ [Fin TERRAIN_SIZE]\<rparr>"

definition CAMERA_STATE_SPACE_PUBLIC :: box where
  "CAMERA_STATE_SPACE_PUBLIC =
     \<lparr>low = WIDE_LOW @ [Fin 0, Fin (- TERRAIN_WIDTH), Fin (- TERRAIN_WIDTH), Fin 0],
      high = WIDE_HIGH @ [Fin TERRAIN_SIZE, Fin TERRAIN_WIDTH, Fin TERRAIN_WIDTH,
                          Fin MAX_CAMERA_VIEWING_ANGLE]\<rparr>"

definition CAMERA_STATE_SPACE_PRIVATE :: box where
  "CAMERA_STATE_SPACE_PRIVATE =
     \<lparr>low = low CAMERA_STATE_SPACE_PUBLIC @ [Fin 0, Fin 0, Fin 0],
      high = high CAMERA_STATE_SPACE_PUBLIC @ [Fin TERRAIN_WIDTH, Fin MAX_CAMERA_VIEWING_ANGLE,
                                                Fin MAX_CAMERA_VIEWING_ANGLE]\<rparr>"

definition TARGET_STATE_SPACE_PUBLIC :: box where
  "TARGET_STATE_SPACE_PUBLIC =
     \<lparr>low = WIDE_LOW @ [Fin 0, Fin (- 1)], high = WIDE_HIGH @ [Fin TERRAIN_WIDTH, Fin 1]\<rparr>"

definition TARGET_STATE_SPACE_PRIVATE :: box where
  "TARGET_STATE_SPACE_PRIVATE =
     \<lparr>low = low TARGET_STATE_SPACE_PUBLIC @ [Fin 0, Fin 1]
             @ replicate NUM_WAREHOUSES (Fin 0) @ replicate NUM_WAREHOUSES (Fin (- 1)),
      high = high TARGET_STATE_SPACE_PUBLIC @ [Fin TERRAIN_WIDTH, Fin 2]
             @ replicate NUM_WAREHOUSES PInf @ replicate NUM_WAREHOUSES (Fin 1)\<rparr>"

definition OBSTACLE_STATE_SPACE :: box where
  "OBSTACLE_STATE_SPACE =
     \<lparr>low = WIDE_LOW @ [Fin 0], high = WIDE_HIGH @ [Fin TERRAIN_SIZE]\<rparr>"

lemmas space_defs = WIDE_LOW_def WIDE_HIGH_def PRESERVED_SPACE_def CAMERA_STATE_SPACE_PUBLIC_def
  CAMERA_STATE_SPACE_PRIVATE_def TARGET_STATE_SPACE_PUBLIC_def TARGET_STATE_SPACE_PRIVATE_def
  OBSTACLE_STATE_SPACE_def

definition camera_observation_space_of :: "nat \<Rightarrow> nat \<Rightarrow> nat \<Rightarrow> box" where
  "camera_observation_space_of num_cameras num_targets num_obstacles =
     \<lparr>low = low PRESERVED_SPACE @ low CAMERA_STATE_SPACE_PRIVATE
         @ tile num_targets (low TARGET_STATE_SPACE_PUBLIC @ [Fin (- 1)])
         @ tile num_obstacles (low OBSTACLE_STATE_SPACE @ [Fin (- 1)])
         @ tile num_cameras (low CAMERA_STATE_SPACE_PUBLIC @ [Fin (- 1)]),
      high = high PRESERVED_SPACE @ high CAMERA_STATE_SPACE_PRIVATE
         @ tile num_targets (high TARGET_STATE_SPACE_PUBLIC @ [Fin 1])
         @ tile num_obstacles (high OBSTACLE_STATE_SPACE @ [Fin 1])
         @ tile num_cameras (high CAMERA_STATE_SPACE_PUBLIC @ [Fin 1])\<rparr>"

definition target_observation_space_of :: "nat \<Rightarrow> nat \<Rightarrow> nat \<Rightarrow> box" where
  "target_observation_space_of num_cameras num_targets num_obstacles =
     \<lparr>low = low PRESERVED_SPACE @ low TARGET_STATE_SPACE_PRIVATE
         @ tile num_cameras (low CAMERA_STATE_SPACE_PUBLIC @ [Fin (- 1)])
         @ tile num_obstacles (low OBSTACLE_STATE_SPACE @ [Fin (- 1)])
         @ tile num_targets (low TARGET_STATE_SPACE_PUBLIC @ [Fin (- 1)]),
      high = high PRESERVED_SPACE @ high TARGET_STATE_SPACE_PRIVATE
         @ tile num_cameras (high CAMERA_STATE_SPACE_PUBLIC @ [Fin 1])
         @ tile num_obstacles (high OBSTACLE_STATE_SPACE @ [Fin 1])
         @ tile num_targets (high TARGET_STATE_SPACE_PUBLIC @ [Fin 1])\<rparr>"

definition observation_space_of :: "team \<Rightarrow> nat \<Rightarrow> nat \<Rightarrow> nat \<Rightarrow> box" where
  "observation_space_of team = (case team of CAMERA \<Rightarrow> camera_observation_space_of
                                           | TARGET \<Rightarrow> target_observation_space_of)"

subsection \<open>Indices\<close>

fun cumsum_from :: "nat \<Rightarrow> nat list \<Rightarrow> nat list" where
  "cumsum_from acc [] = []"
| "cumsum_from acc (x # xs) = (acc + x) # cumsum_from (acc + x) xs"

definition camera_observation_indices_of :: "nat \<Rightarrow> nat \<Rightarrow> nat \<Rightarrow> nat list" where
  "camera_observation_indices_of num_cameras num_targets num_obstacles =
     cumsum_from 0
       [0, PRESERVED_DIM, CAMERA_STATE_DIM_PRIVATE,
        num_targets * (TARGET_STATE_DIM_PUBLIC + 1),
        num_obstacles * (OBSTACLE_STATE_DIM + 1),
        num_cameras * (CAMERA_STATE_DIM_PUBLIC + 1)]"

definition target_observation_indices_of :: "nat \<Rightarrow> nat \<Rightarrow> nat \<Rightarrow> nat list" where
  "target_observation_indices_of num_cameras num_targets num_obstacles =
     cumsum_from 0
       [0, PRESERVED_DIM, TARGET_STATE_DIM_PRIVATE,
        num_cameras * (CAMERA_STATE_DIM_PUBLIC + 1),
        num_obstacles * (OBSTACLE_STATE_DIM + 1),
        num_targets * (TARGET_STATE_DIM_PUBLIC + 1)]"

definition observation_indices_of :: "team \<Rightarrow> nat \<Rightarrow> nat \<Rightarrow> nat \<Rightarrow> nat list" where
  "observation_indices_of team = (case team of CAMERA \<Rightarrow> camera_observation_indices_of
                                             | TARGET \<Rightarrow> target_observation_indices_of)"

subsection \<open>Slices\<close>

text \<open>A Python \<open>slice(start, stop, step)\<close> with non-negative bounds, and what it selects.\<close>

record py_slice =
  s_start :: nat
  s_stop :: nat
  s_step :: nat

definition slice2 :: "nat \<Rightarrow> nat \<Rightarrow> py_slice" where
  "slice2 a b = \<lparr>s_start = a, s_stop = b, s_step = 1\<rparr>"

definition slice3 :: "nat \<Rightarrow> nat \<Rightarrow> nat \<Rightarrow> py_slice" where
  "slice3 a b c = \<lparr>s_start = a, s_stop = b, s_step = c\<rparr>"

definition slice_indices :: "py_slice \<Rightarrow> nat \<Rightarrow> nat list" where
  "slice_indices s len =
     filter (\<lambda>i. (i - s_start s) mod s_step s = 0) [s_start s..<min (s_stop s) len]"

definition slice_of :: "'a list \<Rightarrow> py_slice \<Rightarrow> 'a list" where
  "slice_of xs s = map (\<lambda>i. xs ! i) (slice_indices s (length xs))"

record observation_slices =
  preserved_data_slice :: py_slice
  self_state_slice :: py_slice
  opponent_states_slice :: py_slice
  opponent_mask_slice :: py_slice
  obstacle_states_slice :: py_slice
  obstacle_mask_slice :: py_slice
  teammate_states_slice :: py_slice
  teammate_mask_slice :: py_slice

definition camera_observation_slices_of :: "nat \<Rightarrow> nat \<Rightarrow> nat \<Rightarrow> observation_slices" where
  "camera_observation_slices_of num_cameras num_targets num_obstacles =
     (let indices = camera_observation_indices_of num_cameras num_targets num_obstacles in
      \<lparr>preserved_data_slice = slice2 (indices ! 0) (indices ! 1),
       self_state_slice = slice2 (indices ! 1) (indices ! 2),
       opponent_states_slice = slice2 (indices ! 2) (indices ! 3),
       opponent_mask_slice = slice3 (indices ! 2 + TARGET_STATE_DIM_PUBLIC) (indices ! 3)
                               (TARGET_STATE_DIM_PUBLIC + 1),
       obstacle_states_slice = slice2 (indices ! 3) (indices ! 4),
       obstacle_mask_slice = slice3 (indices ! 3 + OBSTACLE_STATE_DIM) (indices ! 4)
                               (OBSTACLE_STATE_DIM + 1),
       teammate_states_slice = slice2 (indices ! 4) (indices ! 5),
       teammate_mask_slice = slice3 (indices ! 4 + CAMERA_STATE_DIM_PUBLIC) (indices ! 5)
                               (CAMERA_STATE_DIM_PUBLIC + 1)\<rparr>)"

definition target_observation_slices_of :: "nat \<Rightarrow> nat \<Rightarrow> nat \<Rightarrow> observation_slices" where
  "target_observation_slices_of num_cameras num_targets num_obstacles =
     (let indices = target_observation_indices_of num_cameras num_targets num_obstacles in
      \<lparr>preserved_data_slice = slice2 (indices ! 0) (indices ! 1),
       self_state_slice = slice2 (indices ! 1) (indices ! 2),
       opponent_states_slice = slice2 (indices ! 2) (indices ! 3),
       opponent_mask_slice = slice3 (indices ! 2 + CAMERA_STATE_DIM_PUBLIC) (indices ! 3)
                               (CAMERA_STATE_DIM_PUBLIC + 1),
       obstacle_states_slice = slice2 (indices ! 3) (indices ! 4),
       obstacle_mask_slice = slice3 (indices ! 3 + OBSTACLE_STATE_DIM) (indices ! 4)
                               (OBSTACLE_STATE_DIM + 1),
       teammate_states_slice = slice2 (indices ! 4) (indices ! 5),
       teammate_mask_slice = slice3 (indices ! 4 + TARGET_STATE_DIM_PUBLIC) (indices ! 5)
                               (TARGET_STATE_DIM_PUBLIC + 1)\<rparr>)"

definition observation_slices_of :: "team \<Rightarrow> nat \<Rightarrow> nat \<Rightarrow> nat \<Rightarrow> observation_slices" where
  "observation_slices_of team = (case team of CAMERA \<Rightarrow> camera_observation_slices_of
                                            | TARGET \<Rightarrow> target_observation_slices_of)"

subsection \<open>Coordinate masks\<close>

text \<open>A boolean array of length \<open>n\<close> with \<open>mask[a:b] = True\<close>.\<close>

definition range_mask :: "nat \<Rightarrow> nat \<Rightarrow> nat \<Rightarrow> bool list" where
  "range_mask n a b = map (\<lambda>i. a \<le> i \<and> i < b) [0..<n]"

lemma length_range_mask [simp, shape_simps]: "length (range_mask n a b) = n"
  by (simp add: range_mask_def)

definition preserved_mask :: "bool list" where
  "preserved_mask =
     range_mask PRESERVED_DIM (PRESERVED_DIM - 1 - 2 * NUM_WAREHOUSES) (PRESERVED_DIM - 1)"

definition camera_coordinate_mask_of :: "nat \<Rightarrow> nat \<Rightarrow> nat \<Rightarrow> bool list" where
  "camera_coordinate_mask_of num_cameras num_targets num_obstacles =
     preserved_mask
   @ replicate CAMERA_STATE_DIM_PRIVATE False
   @ tile num_targets (range_mask (TARGET_STATE_DIM_PUBLIC + 1) 0 2)
   @ tile num_obstacles (range_mask (OBSTACLE_STATE_DIM + 1) 0 2)
   @ tile num_cameras (range_mask (CAMERA_STATE_DIM_PUBLIC + 1) 0 2)"

definition target_coordinate_mask_of :: "nat \<Rightarrow> nat \<Rightarrow> nat \<Rightarrow> bool list" where
  "target_coordinate_mask_of num_cameras num_targets num_obstacles =
     preserved_mask
   @ replicate TARGET_STATE_DIM_PRIVATE False
   @ tile num_cameras (range_mask (CAMERA_STATE_DIM_PUBLIC + 1) 0 2)
   @ tile num_obstacles (range_mask (OBSTACLE_STATE_DIM + 1) 0 2)
   @ tile num_targets (range_mask (TARGET_STATE_DIM_PUBLIC + 1) 0 2)"

definition coordinate_mask_of :: "team \<Rightarrow> nat \<Rightarrow> nat \<Rightarrow> nat \<Rightarrow> bool list" where
  "coordinate_mask_of team = (case team of CAMERA \<Rightarrow> camera_coordinate_mask_of
                                         | TARGET \<Rightarrow> target_coordinate_mask_of)"

subsection \<open>The layout is consistent\<close>

text \<open>The width of an entity's private state and of the two kinds of public states.\<close>

definition self_dim :: "team \<Rightarrow> nat" where
  "self_dim team = (case team of CAMERA \<Rightarrow> CAMERA_STATE_DIM_PRIVATE | TARGET \<Rightarrow> TARGET_STATE_DIM_PRIVATE)"

definition public_dim :: "team \<Rightarrow> nat" where
  "public_dim team = (case team of CAMERA \<Rightarrow> CAMERA_STATE_DIM_PUBLIC | TARGET \<Rightarrow> TARGET_STATE_DIM_PUBLIC)"

definition opponent :: "team \<Rightarrow> team" where
  "opponent team = (case team of CAMERA \<Rightarrow> TARGET | TARGET \<Rightarrow> CAMERA)"

definition team_count :: "team \<Rightarrow> nat \<Rightarrow> nat \<Rightarrow> nat" where
  "team_count team num_cameras num_targets = (case team of CAMERA \<Rightarrow> num_cameras | TARGET \<Rightarrow> num_targets)"

lemma observation_indices:
  "observation_indices_of team nc nt no =
     (let i1 = PRESERVED_DIM;
          i2 = i1 + self_dim team;
          i3 = i2 + team_count (opponent team) nc nt * (public_dim (opponent team) + 1);
          i4 = i3 + no * (OBSTACLE_STATE_DIM + 1)
      in [0, i1, i2, i3, i4, i4 + team_count team nc nt * (public_dim team + 1)])"
  by (cases team)
    (simp_all add: observation_indices_of_def camera_observation_indices_of_def
      target_observation_indices_of_def Let_def self_dim_def public_dim_def opponent_def team_count_def)

definition observation_dim :: "team \<Rightarrow> nat \<Rightarrow> nat \<Rightarrow> nat \<Rightarrow> nat" where
  "observation_dim team nc nt no = last (observation_indices_of team nc nt no)"

lemma length_state_spaces [simp, shape_simps]:
  "length (low PRESERVED_SPACE) = PRESERVED_DIM"
  "length (high PRESERVED_SPACE) = PRESERVED_DIM"
  "length (low CAMERA_STATE_SPACE_PUBLIC) = CAMERA_STATE_DIM_PUBLIC"
  "length (high CAMERA_STATE_SPACE_PUBLIC) = CAMERA_STATE_DIM_PUBLIC"
  "length (low CAMERA_STATE_SPACE_PRIVATE) = CAMERA_STATE_DIM_PRIVATE"
  "length (high CAMERA_STATE_SPACE_PRIVATE) = CAMERA_STATE_DIM_PRIVATE"
  "length (low TARGET_STATE_SPACE_PUBLIC) = TARGET_STATE_DIM_PUBLIC"
  "length (high TARGET_STATE_SPACE_PUBLIC) = TARGET_STATE_DIM_PUBLIC"
  "length (low TARGET_STATE_SPACE_PRIVATE) = TARGET_STATE_DIM_PRIVATE"
  "length (high TARGET_STATE_SPACE_PRIVATE) = TARGET_STATE_DIM_PRIVATE"
  "length (low OBSTACLE_STATE_SPACE) = OBSTACLE_STATE_DIM"
  "length (high OBSTACLE_STATE_SPACE) = OBSTACLE_STATE_DIM"
  "length preserved_mask = PRESERVED_DIM"
  by (simp_all add: space_defs dim_defs preserved_mask_def)

lemma length_observation_space:
  "length (low (observation_space_of team nc nt no)) = observation_dim team nc nt no"
  "length (high (observation_space_of team nc nt no)) = observation_dim team nc nt no"
  by (cases team; simp add: observation_dim_def observation_indices Let_def observation_space_of_def
      camera_observation_space_of_def target_observation_space_of_def self_dim_def public_dim_def
      opponent_def team_count_def)+

lemma length_coordinate_mask:
  "length (coordinate_mask_of team nc nt no) = observation_dim team nc nt no"
  by (cases team) (simp_all add: observation_dim_def observation_indices Let_def coordinate_mask_of_def
      camera_coordinate_mask_of_def target_coordinate_mask_of_def self_dim_def public_dim_def
      opponent_def team_count_def)

lemma slice2_of: "b \<le> length xs \<Longrightarrow> slice_of xs (slice2 a b) = take (b - a) (drop a xs)"
  by (rule nth_equalityI) (auto simp: slice_of_def slice_indices_def slice2_def min_def)

end
