(* ===== verification/Collision.thy ===== *)
theory Collision
  imports Obstruction Constants
begin

text \<open>
  The collision side of \<^verbatim>\<open>mate/entities.py\<close> and the class \<open>SpatialHashmap\<close> of
  \<^verbatim>\<open>mate/utils.py\<close>: the class attributes \<open>Target.SPATIAL_HASHMAP\<close> and \<open>Target.OBSTACLES\<close>,
  the class methods that fill and clear them, and the movement of a target (clamp the step, slide
  along the obstacles of the nearby cells, clip to the terrain). An obstacle is registered by its
  disc, the pair of centre and radius, and named by its position in the registry. Python iterates
  a set of objects in no documented order: the order is the argument \<open>order\<close>.

  The interface \<open>broad_phase\<close> states what the index promises (no disc within reach is missed) and
  proves that the movement over the candidates is the movement over all obstacles.
\<close>

type_synonym disc = "vec \<times> real"

record collision_index =
  hash_step :: real
  cells :: "int \<times> int \<Rightarrow> nat list"
  registry :: "disc list"

definition SPATIAL_GRID_RESOLUTION :: real where "SPATIAL_GRID_RESOLUTION = 80"

text \<open>Python's \<open>int(x)\<close> on a float truncates towards zero.\<close>

definition py_int :: "real \<Rightarrow> int" where
  "py_int x = (if 0 \<le> x then \<lfloor>x\<rfloor> else \<lceil>x\<rceil>)"

definition hash_key :: "real \<Rightarrow> vec \<Rightarrow> int \<times> int" where
  "hash_key step name = (py_int (fst name / step), py_int (snd name / step))"

definition empty_index :: collision_index where
  "empty_index =
     \<lparr>hash_step = TERRAIN_WIDTH / SPATIAL_GRID_RESOLUTION, cells = (\<lambda>_. []), registry = []\<rparr>"

definition vshift :: "vec \<Rightarrow> real \<Rightarrow> vec" where
  "vshift v k = (fst v + k, snd v + k)"

definition grid_range :: "int \<times> int \<Rightarrow> int \<times> int \<Rightarrow> (int \<times> int) list" where
  "grid_range lo hi = List.product [fst lo..fst hi] [snd lo..snd hi]"

definition add_to_cell ::
  "nat \<Rightarrow> int \<times> int \<Rightarrow> (int \<times> int \<Rightarrow> nat list) \<Rightarrow> (int \<times> int \<Rightarrow> nat list)" where
  "add_to_cell i key m = m(key := List.insert i (m key))"

definition add_obstacle :: "real \<Rightarrow> disc \<Rightarrow> collision_index \<Rightarrow> collision_index" where
  "add_obstacle epsilon obstacle idx =
     (let (location, radius) = obstacle;
          lo = hash_key (hash_step idx) (vshift location (- radius - epsilon));
          hi = hash_key (hash_step idx) (vshift location (radius + epsilon));
          i = length (registry idx)
      in idx\<lparr>cells := fold (add_to_cell i) (grid_range lo hi) (cells idx),
             registry := registry idx @ [obstacle]\<rparr>)"

definition add_obstacles :: "real \<Rightarrow> disc list \<Rightarrow> collision_index \<Rightarrow> collision_index" where
  "add_obstacles epsilon obstacles idx = fold (add_obstacle epsilon) obstacles idx"

definition clear_obstacles :: "collision_index \<Rightarrow> collision_index" where
  "clear_obstacles idx = idx\<lparr>cells := (\<lambda>_. []), registry := []\<rparr>"

definition nearby_obstacles :: "collision_index \<Rightarrow> vec \<Rightarrow> real \<Rightarrow> nat list" where
  "nearby_obstacles idx location step_size =
     remdups (concat (map (cells idx)
       (grid_range (hash_key (hash_step idx) (vshift location (- step_size)))
                   (hash_key (hash_step idx) (vshift location step_size)))))"

definition slide :: "disc list \<Rightarrow> ray \<Rightarrow> ray" where
  "slide obstacles step =
     fold (\<lambda>(location, radius) r. obstruct location radius r True False) obstacles step"

definition clip_terrain :: "vec \<Rightarrow> vec" where
  "clip_terrain p = (clip (- TERRAIN_SIZE) TERRAIN_SIZE (fst p), clip (- TERRAIN_SIZE) TERRAIN_SIZE (snd p))"

definition clamped_step :: "vec \<Rightarrow> real \<Rightarrow> vec \<Rightarrow> ray" where
  "clamped_step location step_size action =
     (let step = ray_of_vec action (Some location)
      in if r_norm step > step_size then ray_set_norm step step_size else step)"

text \<open>\<open>Target.simulate\<close>: the new location and the collision flag.\<close>

definition target_move ::
  "(nat list \<Rightarrow> nat list) \<Rightarrow> collision_index \<Rightarrow> vec \<Rightarrow> real \<Rightarrow> vec \<Rightarrow> vec \<times> bool" where
  "target_move order idx location step_size action =
     (let step = clamped_step location step_size action;
          desired_location = ray_endpoint step;
          step' = (if registry idx \<noteq> []
                   then slide (map (\<lambda>i. registry idx ! i) (order (nearby_obstacles idx location step_size))) step
                   else step);
          location' = clip_terrain (ray_endpoint step')
      in (location',
          \<not> (\<bar>fst location' - fst desired_location\<bar> \<le> 1 / 10 ^ 6
             \<and> \<bar>snd location' - snd desired_location\<bar> \<le> 1 / 10 ^ 6)))"

subsection \<open>The index misses nothing\<close>

lemma py_int_mono: "x \<le> y \<Longrightarrow> py_int x \<le> py_int y"
proof (cases "0 \<le> x \<or> y < 0")
  case True
  assume "x \<le> y"
  with True show ?thesis by (auto simp: py_int_def floor_mono ceiling_mono)
next
  case False
  then have "\<lceil>x\<rceil> \<le> 0" "0 \<le> \<lfloor>y\<rfloor>" by (simp_all add: ceiling_le_zero)
  then have "\<lceil>x\<rceil> \<le> \<lfloor>y\<rfloor>" by linarith
  with False show ?thesis by (simp add: py_int_def)
qed

lemma set_grid_range:
  "set (grid_range lo hi) = {k. fst lo \<le> fst k \<and> fst k \<le> fst hi \<and> snd lo \<le> snd k \<and> snd k \<le> snd hi}"
  by (auto simp: grid_range_def)

lemma fold_add_to_cell:
  "set (fold (add_to_cell i) keys m k) = set (m k) \<union> (if k \<in> set keys then {i} else {})"
  by (induction keys arbitrary: m) (auto simp: add_to_cell_def)

lemma add_obstacle_frame [simp]:
  "hash_step (add_obstacle e ob idx) = hash_step idx"
  "registry (add_obstacle e ob idx) = registry idx @ [ob]"
  by (simp_all add: add_obstacle_def Let_def split: prod.split)

text \<open>Every registered disc is in each cell its (enlarged) bounding box meets.\<close>

definition index_ok :: "collision_index \<Rightarrow> bool" where
  "index_ok idx \<longleftrightarrow>
     0 < hash_step idx
   \<and> (\<forall>k. set (cells idx k) \<subseteq> {..<length (registry idx)})
   \<and> (\<forall>i < length (registry idx). 0 \<le> snd (registry idx ! i)
        \<and> (\<forall>k \<in> set (grid_range
              (hash_key (hash_step idx) (vshift (fst (registry idx ! i)) (- snd (registry idx ! i))))
              (hash_key (hash_step idx) (vshift (fst (registry idx ! i)) (snd (registry idx ! i))))).
             i \<in> set (cells idx k)))"

lemma index_ok_empty: "index_ok empty_index"
  by (simp add: index_ok_def empty_index_def terrain_defs SPATIAL_GRID_RESOLUTION_def)

lemma index_ok_clear: "index_ok idx \<Longrightarrow> index_ok (clear_obstacles idx)"
  by (simp add: index_ok_def clear_obstacles_def)

lemma hash_key_mono:
  assumes "0 < step" and "fst a \<le> fst b" and "snd a \<le> snd b"
  shows "fst (hash_key step a) \<le> fst (hash_key step b) \<and> snd (hash_key step a) \<le> snd (hash_key step b)"
  using assms by (auto simp: hash_key_def intro!: py_int_mono divide_right_mono)

lemma index_ok_add:
  assumes ok: "index_ok idx" and rad: "0 \<le> radius" and eps: "0 \<le> epsilon"
  shows "index_ok (add_obstacle epsilon (location, radius) idx)"
proof -
  let ?idx = "add_obstacle epsilon (location, radius) idx" and ?n = "length (registry idx)"
  let ?s = "hash_step idx"
  have cells: "set (cells ?idx k) = set (cells idx k) \<union>
      (if k \<in> set (grid_range (hash_key ?s (vshift location (- radius - epsilon)))
                             (hash_key ?s (vshift location (radius + epsilon)))) then {?n} else {})" for k
    by (simp add: add_obstacle_def Let_def fold_add_to_cell)
  have s: "0 < ?s" using ok by (simp add: index_ok_def)
  have bigger: "k \<in> set (grid_range (hash_key ?s (vshift location (- radius - epsilon)))
                              (hash_key ?s (vshift location (radius + epsilon))))"
    if "k \<in> set (grid_range (hash_key ?s (vshift location (- radius))) (hash_key ?s (vshift location radius)))"
    for k
    using that eps
      hash_key_mono [OF s, of "vshift location (- radius - epsilon)" "vshift location (- radius)"]
      hash_key_mono [OF s, of "vshift location radius" "vshift location (radius + epsilon)"]
    by (auto simp: set_grid_range vshift_def)
  show ?thesis
    unfolding index_ok_def
  proof (intro conjI allI impI)
    show "0 < hash_step ?idx" using s by simp
    show "set (cells ?idx k) \<subseteq> {..<length (registry ?idx)}" for k
    proof -
      have "set (cells idx k) \<subseteq> {..<?n}"
        using ok unfolding index_ok_def by blast
      then show ?thesis unfolding cells by auto
    qed
    fix i
    assume i: "i < length (registry ?idx)"
    show "0 \<le> snd (registry ?idx ! i)"
      using i ok rad by (auto simp: index_ok_def nth_append less_Suc_eq)
    show "\<forall>k \<in> set (grid_range
         (hash_key (hash_step ?idx) (vshift (fst (registry ?idx ! i)) (- snd (registry ?idx ! i))))
         (hash_key (hash_step ?idx) (vshift (fst (registry ?idx ! i)) (snd (registry ?idx ! i))))).
        i \<in> set (cells ?idx k)"
    proof (cases "i = ?n")
      case True
      then show ?thesis using bigger unfolding cells by (simp add: nth_append)
    next
      case False
      then show ?thesis using i ok unfolding cells by (auto simp: index_ok_def nth_append)
    qed
  qed
qed

lemma index_ok_add_obstacles:
  assumes "index_ok idx" and "\<forall>ob \<in> set obstacles. 0 \<le> snd ob" and "0 \<le> epsilon"
  shows "index_ok (add_obstacles epsilon obstacles idx)
    \<and> registry (add_obstacles epsilon obstacles idx) = registry idx @ obstacles"
  using assms
proof (induction obstacles arbitrary: idx)
  case Nil
  then show ?case by (simp add: add_obstacles_def)
next
  case (Cons ob obs)
  obtain c r where ob: "ob = (c, r)" by (cases ob)
  have "index_ok (add_obstacle epsilon ob idx)"
    unfolding ob using Cons.prems ob by (intro index_ok_add) auto
  then show ?case
    using Cons.IH [of "add_obstacle epsilon ob idx"] Cons.prems
    by (simp add: add_obstacles_def)
qed

lemma overlap_key:
  assumes "0 < step" and "\<bar>c - l\<bar> \<le> s + r" and "0 \<le> s" and "0 \<le> r"
  shows "\<exists>k. py_int ((l - s) / step) \<le> k \<and> k \<le> py_int ((l + s) / step)
           \<and> py_int ((c - r) / step) \<le> k \<and> k \<le> py_int ((c + r) / step)"
proof -
  let ?x = "max (l - s) (c - r)"
  have "l - s \<le> ?x" "?x \<le> l + s" "c - r \<le> ?x" "?x \<le> c + r"
    using assms(2-4) by (auto simp: abs_le_iff)
  then show ?thesis
    using assms(1) by (intro exI [of _ "py_int (?x / step)"]) (auto intro!: py_int_mono divide_right_mono)
qed

lemma nearby_complete:
  assumes ok: "index_ok idx" and i: "i < length (registry idx)" and s: "0 \<le> step_size"
    and near: "vnorm (vsub (fst (registry idx ! i)) location) < step_size + snd (registry idx ! i)"
  shows "i \<in> set (nearby_obstacles idx location step_size)"
proof -
  obtain c r where cr: "registry idx ! i = (c, r)" by (cases "registry idx ! i")
  have r: "0 \<le> r" and st: "0 < hash_step idx"
    using ok i cr by (auto simp: index_ok_def)
  have "\<bar>fst c - fst location\<bar> \<le> step_size + r" "\<bar>snd c - snd location\<bar> \<le> step_size + r"
    using near cr vnorm_components [of "vsub c location"] by (simp_all add: vsub_def)
  then obtain kx ky where k:
    "(kx, ky) \<in> set (grid_range (hash_key (hash_step idx) (vshift location (- step_size)))
                              (hash_key (hash_step idx) (vshift location step_size)))"
    "(kx, ky) \<in> set (grid_range (hash_key (hash_step idx) (vshift c (- r)))
                              (hash_key (hash_step idx) (vshift c r)))"
    using overlap_key [OF st _ s r, of "fst c" "fst location"]
      overlap_key [OF st _ s r, of "snd c" "snd location"]
    by (auto simp: set_grid_range hash_key_def vshift_def)
  from k(2) have "i \<in> set (cells idx (kx, ky))"
    using ok i cr unfolding index_ok_def by fastforce
  with k(1) show ?thesis by (auto simp: nearby_obstacles_def)
qed

lemma nearby_valid:
  "index_ok idx \<Longrightarrow> set (nearby_obstacles idx location step_size) \<subseteq> {..<length (registry idx)}"
  by (fastforce simp: nearby_obstacles_def index_ok_def)

subsection \<open>Movement over vectors\<close>

definition slide_vec :: "vec \<Rightarrow> disc list \<Rightarrow> vec \<Rightarrow> vec" where
  "slide_vec origin obstacles v =
     fold (\<lambda>(location, radius) v. obstruct_vec (vsub location origin) radius v True) obstacles v"

lemma slide_vector:
  assumes "ray_wf step" and "\<forall>ob \<in> set obstacles. 0 \<le> snd ob"
  shows "ray_vector (slide obstacles step) = slide_vec (origin_of step) obstacles (ray_vector step)
    \<and> r_origin (slide obstacles step) = r_origin step \<and> ray_wf (slide obstacles step)"
  using assms
proof (induction obstacles arbitrary: step)
  case Nil
  then show ?case by (simp add: slide_def slide_vec_def)
next
  case (Cons ob obs)
  obtain c r where ob: "ob = (c, r)" by (cases ob)
  show ?case
    using Cons.IH [of "obstruct c r step True False"] Cons.prems
    by (simp add: slide_def slide_vec_def ob obstruct_wf obstruct_vector)
qed

lemma slide_vec_norm_le: "vnorm (slide_vec origin obstacles v) \<le> vnorm v"
proof (induction obstacles arbitrary: v)
  case Nil
  then show ?case by (simp add: slide_vec_def)
next
  case (Cons ob obs)
  obtain c r where ob: "ob = (c, r)" by (cases ob)
  show ?case
    using Cons.IH [of "obstruct_vec (vsub c origin) r v True"]
      obstruct_vec_norm_le [of "vsub c origin" r v True]
    by (simp add: slide_vec_def ob)
qed

text \<open>A disc out of reach has no effect on a step that is at most \<open>s\<close> long.\<close>

lemma obstruct_vec_far:
  assumes "s + radius \<le> vnorm d" and "vnorm v \<le> s" and "0 \<le> radius"
  shows "obstruct_vec d radius v keep = v"
proof -
  have "\<not> vnorm d < radius"
    using assms vnorm_nonneg [of v] by linarith
  then show ?thesis
    using assms by (auto simp: obstruct_vec_def hit_def vneg_def)
qed

locale broad_phase =
  fixes invar :: "'q \<Rightarrow> bool"
    and discs :: "'q \<Rightarrow> disc list"
    and candidates :: "'q \<Rightarrow> vec \<Rightarrow> real \<Rightarrow> nat list"
  assumes complete:
      "invar q \<Longrightarrow> i < length (discs q) \<Longrightarrow> 0 \<le> s
        \<Longrightarrow> vnorm (vsub (fst (discs q ! i)) location) < s + snd (discs q ! i)
        \<Longrightarrow> i \<in> set (candidates q location s)"
    and radius_nonneg: "invar q \<Longrightarrow> i < length (discs q) \<Longrightarrow> 0 \<le> snd (discs q ! i)"
begin

lemma slide_candidates:
  assumes "invar q" and "0 \<le> s" and "vnorm v \<le> s" and "set order \<subseteq> {..<length (discs q)}"
  shows "slide_vec location (map (\<lambda>i. discs q ! i) (filter (\<lambda>i. i \<in> set (candidates q location s)) order)) v
       = slide_vec location (map (\<lambda>i. discs q ! i) order) v"
  using assms(3,4)
proof (induction order arbitrary: v)
  case Nil
  then show ?case by simp
next
  case (Cons i order)
  obtain c r where cr: "discs q ! i = (c, r)" by (cases "discs q ! i")
  have i: "i < length (discs q)" using Cons.prems(2) by simp
  let ?w = "obstruct_vec (vsub c location) r v True"
  have w: "vnorm ?w \<le> s"
    using obstruct_vec_norm_le [of "vsub c location" r v True] Cons.prems(1) by linarith
  show ?case
  proof (cases "i \<in> set (candidates q location s)")
    case True
    then show ?thesis
      using Cons.IH [OF w] Cons.prems(2) by (simp add: slide_vec_def cr)
  next
    case False
    have "s + r \<le> vnorm (vsub c location)"
      using False complete [OF assms(1) i assms(2), of location] cr by (simp add: not_less [symmetric]) blast
    then have "?w = v"
      using Cons.prems(1) radius_nonneg [OF assms(1) i] cr by (intro obstruct_vec_far) auto
    with False show ?thesis
      using Cons.IH [OF Cons.prems(1)] Cons.prems(2) by (simp add: slide_vec_def cr)
  qed
qed

end

interpretation hashed: broad_phase index_ok registry nearby_obstacles
  by unfold_locales (auto simp: nearby_complete, auto simp: index_ok_def)

subsection \<open>The movement of a target\<close>

lemma clamped_step_props:
  assumes "0 \<le> step_size"
  shows "ray_wf (clamped_step location step_size action)"
    and "r_origin (clamped_step location step_size action) = Some location"
    and "origin_of (clamped_step location step_size action) = location"
    and "vnorm (ray_vector (clamped_step location step_size action)) \<le> step_size"
proof -
  let ?s = "ray_of_vec action (Some location)"
  show "ray_wf (clamped_step location step_size action)"
    "r_origin (clamped_step location step_size action) = Some location"
    "origin_of (clamped_step location step_size action) = location"
    by (simp_all add: clamped_step_def Let_def origin_of_def)
  have "vnorm (ray_vector (if r_norm ?s > step_size then ray_set_norm ?s step_size else ?s))
      = min (r_norm ?s) step_size"
    by (rule rv.clamped_norm) (simp_all add: assms)
  then show "vnorm (ray_vector (clamped_step location step_size action)) \<le> step_size"
    by (simp add: clamped_step_def Let_def)
qed

definition in_terrain :: "vec \<Rightarrow> bool" where
  "in_terrain p \<longleftrightarrow> \<bar>fst p\<bar> \<le> TERRAIN_SIZE \<and> \<bar>snd p\<bar> \<le> TERRAIN_SIZE"

lemma clip_terrain_in: "in_terrain (clip_terrain p)"
  using clip_abs_le [of TERRAIN_SIZE "fst p"] clip_abs_le [of TERRAIN_SIZE "snd p"]
  by (simp add: in_terrain_def clip_terrain_def terrain_defs)

lemma clip_nonexpansive:
  assumes "\<bar>l\<bar> \<le> h"
  shows "\<bar>clip (- h) h x - l\<bar> \<le> \<bar>x - l\<bar>"
  using assms by (auto simp: clip_def min_def max_def abs_if split: if_splits)

lemma clip_terrain_nonexpansive:
  assumes "in_terrain l"
  shows "vnorm (vsub (clip_terrain p) l) \<le> vnorm (vsub p l)"
proof -
  have "(fst (clip_terrain p) - fst l)\<^sup>2 \<le> (fst p - fst l)\<^sup>2"
    using clip_nonexpansive [of "fst l" TERRAIN_SIZE "fst p"] assms
    by (simp add: clip_terrain_def in_terrain_def abs_le_square_iff)
  moreover have "(snd (clip_terrain p) - snd l)\<^sup>2 \<le> (snd p - snd l)\<^sup>2"
    using clip_nonexpansive [of "snd l" TERRAIN_SIZE "snd p"] assms
    by (simp add: clip_terrain_def in_terrain_def abs_le_square_iff)
  ultimately show ?thesis
    by (simp add: vnorm_def vsub_def add_mono)
qed

subsection \<open>Where a target ends\<close>

lemma fst_target_move:
  assumes "registry idx = [] \<Longrightarrow> order (nearby_obstacles idx location step_size) = []"
  shows "fst (target_move order idx location step_size action) = clip_terrain (ray_endpoint
     (slide (map (\<lambda>i. registry idx ! i) (order (nearby_obstacles idx location step_size)))
       (clamped_step location step_size action)))"
  using assms by (cases "registry idx = []") (simp_all add: target_move_def Let_def slide_def)

text \<open>C14: the movement of a target. It stays in the terrain, moves by at most its step size, and the
  grid index is transparent: sliding along the discs of the nearby cells is sliding along all the
  registered discs, in any order that visits the nearby ones in the order of the set.\<close>

theorem target_move_correct:
  assumes ok: "index_ok idx" and s: "0 \<le> step_size" and l: "in_terrain location"
    and ord: "order (nearby_obstacles idx location step_size)
      = filter (\<lambda>i. i \<in> set (nearby_obstacles idx location step_size)) is"
    and all: "set is \<subseteq> {..<length (registry idx)}"
    and p: "p = fst (target_move order idx location step_size action)"
  shows "in_terrain p \<and> vnorm (vsub p location) \<le> step_size
    \<and> p = clip_terrain (vadd location (slide_vec location (map (\<lambda>i. registry idx ! i) is)
             (ray_vector (clamped_step location step_size action))))"
proof -
  let ?c = "clamped_step location step_size action" and ?near = "nearby_obstacles idx location step_size"
  let ?obs = "map (\<lambda>i. registry idx ! i) (order ?near)"
  note C = clamped_step_props [OF s, of location action]
  have empty: "order ?near = []" if "registry idx = []"
    using nearby_valid [OF ok, of location step_size] ord that by simp
  have sub: "set (order ?near) \<subseteq> {..<length (registry idx)}" using ord all by auto
  have rad: "\<forall>ob \<in> set ?obs. 0 \<le> snd ob"
    using sub ok by (auto simp: index_ok_def)
  note S = slide_vector [OF C(1) rad]
  let ?v = "slide_vec location (map (\<lambda>i. registry idx ! i) is) (ray_vector ?c)"
  have v: "ray_vector (slide ?obs ?c) = ?v"
    using S hashed.slide_candidates [OF ok s C(4) all] by (simp add: C(3) ord)
  have e: "ray_endpoint (slide ?obs ?c) = vadd location ?v"
    using S C(2,3) by (simp add: ray_endpoint_eq origin_of_def v)
  have eq: "p = clip_terrain (vadd location ?v)"
    by (simp add: p fst_target_move [of idx order location step_size action, OF empty] e)
  have "vnorm ?v \<le> step_size"
    using slide_vec_norm_le [of location "map (\<lambda>i. registry idx ! i) is" "ray_vector ?c"] C(4) by linarith
  moreover have "vnorm (vsub (clip_terrain (vadd location ?v)) location) \<le> vnorm ?v"
    using clip_terrain_nonexpansive [OF l, of "vadd location ?v"] by simp
  ultimately show ?thesis using eq clip_terrain_in by simp
qed

theorem target_move_correct_witness:
  "vnorm (vsub (fst (target_move id (add_obstacle (1 / 10 ^ 5) ((100, 0), 50) empty_index) (0, 0) 20 (90, 0))) (0, 0)) \<le> 20"
proof -
  let ?idx = "add_obstacle (1 / 10 ^ 5) ((100, 0), 50) empty_index"
  have ok: "index_ok ?idx" by (rule index_ok_add) (simp_all add: index_ok_empty)
  have f: "id (nearby_obstacles ?idx (0, 0) 20)
      = filter (\<lambda>i. i \<in> set (nearby_obstacles ?idx (0, 0) 20)) (nearby_obstacles ?idx (0, 0) 20)"
    by (simp add: filter_id_conv)
  have t: "in_terrain (0, 0)" by (simp add: in_terrain_def TERRAIN_SIZE_def)
  have z: "(0 :: real) \<le> 20" by simp
  from target_move_correct [where order = id and action = "(90, 0)", OF ok z t f nearby_valid [OF ok] refl]
  show ?thesis by blast
qed

end
