(* ===== verification/Entities.thy ===== *)
theory Entities
  imports Randomness Collision
begin

text \<open>
  \<^verbatim>\<open>mate/entities.py\<close>: the objects of the terrain. The class hierarchy becomes records that
  extend each other: \<open>entity\<close> (location, radius and the box the location is drawn from),
  \<open>obstacle\<close> (radius box, transmittance), \<open>camera\<close> (an obstacle with a field of view) and
  \<open>target\<close>. Every entity owns a generator \<open>gen\<close>. The constructors return the exceptions of their
  assertions; methods that draw take the generator operations \<open>R\<close>.
\<close>

record 'g entity =
  location :: vec
  radius :: real
  range_low :: vec
  range_high :: vec
  gen :: 'g

record 'g obstacle = "'g entity" +
  radius_low :: real
  radius_high :: real
  transmittance :: real

record 'g camera = "'g obstacle" +
  sight_range :: real
  orientation :: real
  viewing_angle :: real
  min_viewing_angle :: real
  max_sight_range :: real
  rotation_step :: real
  zooming_step :: real
  area_product :: real
  sight_phis :: "real list"
  sight_rhos :: "real list"
  sight_outer_phis :: "real list"
  sight_outer_rhos :: "real list"
  boundary :: "ray list"
  boundary_outer :: "ray list"
  cam_obstacles :: "nat list"

record 'g target = "'g entity" +
  t_sight_range :: real
  transport_product :: real
  capacity :: int
  step_size :: real
  goal_bits :: "int list"
  empty_bits :: "bool list"
  is_colliding :: bool

subsection \<open>Entity\<close>

definition clip_inside :: "real \<Rightarrow> vec \<Rightarrow> vec" where
  "clip_inside margin p =
     (clip (- TERRAIN_SIZE + margin) (TERRAIN_SIZE - margin) (fst p),
      clip (- TERRAIN_SIZE + margin) (TERRAIN_SIZE - margin) (snd p))"

definition entity_reset :: "'g rng \<Rightarrow> ('g, 'z) entity_scheme \<Rightarrow> ('g, 'z) entity_scheme" where
  "entity_reset R e =
     (case sample_box2 R (gen e) (range_low e) (range_high e) of
        (p, g) \<Rightarrow> e\<lparr>location := clip_inside (12 / 10 * radius e) p, gen := g\<rparr>)"

definition distance :: "('g, 'z) entity_scheme \<Rightarrow> ('h, 'y) entity_scheme \<Rightarrow> real" where
  "distance e other = vnorm (vsub (location e) (location other))"

definition entity_overlap ::
  "('g, 'z) entity_scheme \<Rightarrow> ('h, 'y) entity_scheme \<Rightarrow> real \<Rightarrow> bool" where
  "entity_overlap e other min_distance \<longleftrightarrow>
     distance e other * (1 + 1 / 10 ^ 6) < radius e + radius other + min_distance"

text \<open>
  The checks of \<open>Entity.__init__\<close> and the entity before its first reset: exactly one of a fixed
  location and a box, and a non-negative radius. A fixed location is the box of one point.
\<close>

definition entity_range :: "vec option \<Rightarrow> (vec \<times> vec) option \<Rightarrow> real \<Rightarrow> (vec \<times> vec) res" where
  "entity_range loc random_range rad =
     (if rad < 0 then Inl AssertionError
      else case (loc, random_range) of
        (Some p, None) \<Rightarrow> Inr (p, p)
      | (None, Some b) \<Rightarrow> Inr b
      | _ \<Rightarrow> Inl AssertionError)"

subsection \<open>Obstacle\<close>

definition obstacle_state :: "('g, 'z) obstacle_scheme \<Rightarrow> real list" where
  "obstacle_state ob = [fst (location ob), snd (location ob), radius ob]"

definition obstacle_reset :: "'g rng \<Rightarrow> ('g, 'z) obstacle_scheme \<Rightarrow> ('g, 'z) obstacle_scheme" where
  "obstacle_reset R ob =
     (case sample_box1 R (gen ob) (radius_low ob) (radius_high ob) of
        (r, g) \<Rightarrow> entity_reset R (ob\<lparr>radius := r, gen := g\<rparr>))"

definition new_obstacle ::
  "'g rng \<Rightarrow> 'g \<Rightarrow> vec option \<Rightarrow> (vec \<times> vec) option \<Rightarrow> real option \<Rightarrow> (real \<times> real) option \<Rightarrow> real
    \<Rightarrow> 'g obstacle res" where
  "new_obstacle R g loc random_range rad radius_random_range transm =
     bind_res (check AssertionError ((rad = None) \<noteq> (radius_random_range = None))) (\<lambda>_.
     bind_res (check AssertionError (0 \<le> transm \<and> transm \<le> 1)) (\<lambda>_.
     let (rlo, rhi) = (case radius_random_range of Some b \<Rightarrow> b | None \<Rightarrow> (the rad, the rad));
         r = (case rad of Some r \<Rightarrow> r | None \<Rightarrow> fst (sample_box1 R g rlo rhi))
     in bind_res (entity_range loc random_range r) (\<lambda>(lo, hi).
       Inr (obstacle_reset R
         \<lparr>location = lo, radius = r, range_low = lo, range_high = hi, gen = g,
          radius_low = rlo, radius_high = rhi, transmittance = transm\<rparr>))))"

subsection \<open>Camera: movement and reset\<close>

definition linspace :: "real \<Rightarrow> real \<Rightarrow> nat \<Rightarrow> bool \<Rightarrow> real list" where
  "linspace start stop num endpoint =
     (let parts = (if endpoint then num - 1 else num)
      in map (\<lambda>i. start + real i * ((stop - start) / real parts)) [0..<num])"

definition full_circle :: "real \<Rightarrow> vec \<Rightarrow> ray list" where
  "full_circle rho origin =
     map (\<lambda>angle. ray_of_polar rho angle (Some origin)) (linspace (- 180) 180 360 False)"

definition camera_reset :: "'g rng \<Rightarrow> 'g camera \<Rightarrow> 'g camera" where
  "camera_reset R cam =
     (let cam1 = obstacle_reset R cam;
          (k, g1) = randint R (gen cam1) 0 \<lfloor>360 / rotation_step cam1\<rfloor>;
          (angle, g2) = uniform R g1 (min_viewing_angle cam1) MAX_CAMERA_VIEWING_ANGLE;
          phis = linspace (- 180) 180 361 True
      in cam1\<lparr>gen := g2,
              orientation := normalize_angle (rotation_step cam1 * of_int k),
              viewing_angle := angle,
              sight_range := sqrt (area_product cam1 / angle),
              boundary := full_circle (max_sight_range cam1) (location cam1),
              boundary_outer := full_circle (max_sight_range cam1) (location cam1),
              sight_phis := phis,
              sight_rhos := map (\<lambda>_. max_sight_range cam1) phis\<rparr>)"

text \<open>The first reset raises a \<open>ValueError\<close> for a rotation step above 360 degrees: \<open>randint\<close> of an empty range.\<close>

definition new_camera ::
  "'g rng \<Rightarrow> 'g \<Rightarrow> vec option \<Rightarrow> (vec \<times> vec) option \<Rightarrow> real \<Rightarrow> real \<Rightarrow> real \<Rightarrow> real \<Rightarrow> real
    \<Rightarrow> 'g camera res" where
  "new_camera R g loc random_range rad min_angle max_range rot_step zoom_step =
     bind_res (check AssertionError (0 < min_angle \<and> min_angle \<le> MAX_CAMERA_VIEWING_ANGLE)) (\<lambda>_.
     bind_res (check AssertionError (0 < rot_step)) (\<lambda>_.
     bind_res (check AssertionError (0 < zoom_step)) (\<lambda>_.
     bind_res (check AssertionError (0 < max_range)) (\<lambda>_.
     bind_res (entity_range loc random_range rad) (\<lambda>(lo, hi).
     bind_res (check ValueError (0 < \<lfloor>360 / rot_step\<rfloor>)) (\<lambda>_.
       Inr (camera_reset R
         \<lparr>location = lo, radius = rad, range_low = lo, range_high = hi, gen = g,
          radius_low = rad, radius_high = rad, transmittance = 0,
          sight_range = max_range, orientation = 0, viewing_angle = min_angle,
          min_viewing_angle = min_angle, max_sight_range = max_range,
          rotation_step = rot_step, zooming_step = zoom_step,
          area_product = min_angle * max_range\<^sup>2,
          sight_phis = [], sight_rhos = [], sight_outer_phis = [], sight_outer_rhos = [],
          boundary = [], boundary_outer = [], cam_obstacles = []\<rparr>)))))))"

definition camera_simulate :: "'g camera \<Rightarrow> real list \<Rightarrow> 'g camera res" where
  "camera_simulate cam action =
     bind_res (check AssertionError (length action = CAMERA_ACTION_DIM)) (\<lambda>_.
       let delta_angle = clip (- rotation_step cam) (rotation_step cam) (action ! 0);
           delta_viewing_angle = clip (- zooming_step cam) (zooming_step cam) (action ! 1);
           angle = clip (min_viewing_angle cam) MAX_CAMERA_VIEWING_ANGLE
                     (viewing_angle cam + delta_viewing_angle)
       in Inr (cam\<lparr>orientation := normalize_angle (orientation cam + delta_angle),
                   viewing_angle := angle,
                   sight_range := sqrt (area_product cam / angle)\<rparr>))"

definition camera_state :: "'g camera \<Rightarrow> bool \<Rightarrow> real list" where
  "camera_state cam private =
     (let sight = polar2cartesian (sight_range cam) (orientation cam);
          public = [fst (location cam), snd (location cam), radius cam, fst sight, snd sight,
                    viewing_angle cam]
      in if private then public @ [max_sight_range cam, rotation_step cam, zooming_step cam]
         else public)"

definition camera_overlap_camera :: "'g camera \<Rightarrow> 'g camera \<Rightarrow> real \<Rightarrow> bool" where
  "camera_overlap_camera cam other min_distance \<longleftrightarrow>
     entity_overlap cam other min_distance
     \<or> distance cam other < 1 / 10 * min (sight_range cam) (sight_range other)"

subsection \<open>Camera: perception\<close>

text \<open>\<open>scipy.interpolate.interp1d(phis, rhos)\<close> is the parameter \<open>interp1d\<close>.\<close>

definition sight_range_at :: "(real list \<Rightarrow> real list \<Rightarrow> real \<Rightarrow> real) \<Rightarrow> 'g camera \<Rightarrow> real \<Rightarrow> bool \<Rightarrow> real" where
  "sight_range_at interp1d cam angle outer =
     (if outer then interp1d (sight_outer_phis cam) (sight_outer_rhos cam) (normalize_angle angle)
      else interp1d (sight_phis cam) (sight_rhos cam) (normalize_angle angle))"

definition camera_perceive ::
  "'g rng \<Rightarrow> (real list \<Rightarrow> real list \<Rightarrow> real \<Rightarrow> real) \<Rightarrow> 'g camera \<Rightarrow> vec \<Rightarrow> real \<Rightarrow> bool \<times> 'g camera" where
  "camera_perceive R interp1d cam other_location transm =
     (let relative = ray_of_vec (vsub other_location (location cam)) None
      in if r_norm relative > sight_range cam then (False, cam)
      else
        (let a = \<bar>orientation cam - r_angle relative\<bar>;
             relative_angle = min a (360 - a)
         in if relative_angle * 2 > viewing_angle cam then (False, cam)
         else case binomial1 R (gen cam) transm of
           (b, g) \<Rightarrow>
             (b \<noteq> 0 \<or> r_norm relative \<le> sight_range_at interp1d cam (r_angle relative) False * (1 + 1 / 10 ^ 6),
              cam\<lparr>gen := g\<rparr>)))"

subsection \<open>Target\<close>

definition set_capacity :: "('g, 'z) target_scheme \<Rightarrow> int \<Rightarrow> ('g, 'z) target_scheme res" where
  "set_capacity t value =
     (let stepsz = transport_product t / of_int value
      in if 0 < stepsz then Inr (t\<lparr>capacity := value, step_size := stepsz\<rparr>) else Inl AssertionError)"

definition is_loaded :: "('g, 'z) target_scheme \<Rightarrow> bool" where
  "is_loaded t = any_nonzero (goal_bits t)"

definition target_state :: "('g, 'z) target_scheme \<Rightarrow> bool \<Rightarrow> real list" where
  "target_state t private =
     (let public = [fst (location t), snd (location t), t_sight_range t, of_bool (is_loaded t)]
      in if private
         then public @ [step_size t, of_int (capacity t)] @ map of_int (goal_bits t)
                @ map of_bool (empty_bits t)
         else public)"

definition target_reset :: "'g rng \<Rightarrow> ('g, 'z) target_scheme \<Rightarrow> ('g, 'z) target_scheme" where
  "target_reset R t =
     (entity_reset R t)
       \<lparr>goal_bits := replicate (length (goal_bits t)) 0,
        empty_bits := replicate (length (empty_bits t)) False,
        is_colliding := False\<rparr>"

definition new_target ::
  "'g rng \<Rightarrow> 'g \<Rightarrow> vec option \<Rightarrow> (vec \<times> vec) option \<Rightarrow> real \<Rightarrow> real \<Rightarrow> 'g target res" where
  "new_target R g loc random_range sight stepsz =
     bind_res (check AssertionError (0 < stepsz)) (\<lambda>_.
     bind_res (check AssertionError (0 < sight)) (\<lambda>_.
     bind_res (entity_range loc random_range TARGET_RADIUS) (\<lambda>(lo, hi).
       Inr (target_reset R
         \<lparr>location = lo, radius = TARGET_RADIUS, range_low = lo, range_high = hi, gen = g,
          t_sight_range = sight, transport_product = stepsz, capacity = 1, step_size = stepsz,
          goal_bits = replicate NUM_WAREHOUSES 0, empty_bits = replicate NUM_WAREHOUSES False,
          is_colliding = False\<rparr>))))"

definition target_perceive :: "('g, 'z) target_scheme \<Rightarrow> ('h, 'y) entity_scheme \<Rightarrow> bool" where
  "target_perceive t other \<longleftrightarrow> distance t other \<le> t_sight_range t + radius other"

definition target_simulate ::
  "(nat list \<Rightarrow> nat list) \<Rightarrow> collision_index \<Rightarrow> ('g, 'z) target_scheme \<Rightarrow> real list
    \<Rightarrow> ('g, 'z) target_scheme res" where
  "target_simulate order idx t action =
     bind_res (check AssertionError (length action = TARGET_ACTION_DIM)) (\<lambda>_.
       case target_move order idx (location t) (step_size t) (action ! 0, action ! 1) of
         (p, collides) \<Rightarrow> Inr (t\<lparr>location := p, is_colliding := collides\<rparr>))"

subsection \<open>Invariants of the entities\<close>

definition camera_ok :: "'g camera \<Rightarrow> bool" where
  "camera_ok cam \<longleftrightarrow>
     0 < min_viewing_angle cam \<and> min_viewing_angle cam \<le> viewing_angle cam
   \<and> viewing_angle cam \<le> MAX_CAMERA_VIEWING_ANGLE
   \<and> 0 < max_sight_range cam \<and> 0 < rotation_step cam \<and> rotation_step cam \<le> 360 \<and> 0 < zooming_step cam
   \<and> area_product cam = min_viewing_angle cam * (max_sight_range cam)\<^sup>2
   \<and> sight_range cam = sqrt (area_product cam / viewing_angle cam)
   \<and> - 180 \<le> orientation cam \<and> orientation cam < 180"

lemma camera_ok_sight:
  assumes "camera_ok cam"
  shows "(sight_range cam)\<^sup>2 * viewing_angle cam = area_product cam"
    and "0 < sight_range cam" and "sight_range cam \<le> max_sight_range cam"
proof -
  let ?m = "min_viewing_angle cam" and ?v = "viewing_angle cam" and ?s = "max_sight_range cam"
  have m: "0 < ?m" and v: "0 < ?v" and mv: "?m \<le> ?v" and s: "0 < ?s"
    and a: "area_product cam = ?m * ?s\<^sup>2" and r: "sight_range cam = sqrt (area_product cam / ?v)"
    using assms by (auto simp: camera_ok_def)
  have p: "0 < area_product cam" using m s by (simp add: a)
  then have sq: "(sight_range cam)\<^sup>2 = area_product cam / ?v"
    using v by (simp add: r)
  then show "(sight_range cam)\<^sup>2 * ?v = area_product cam"
    using v by simp
  show "0 < sight_range cam" using p v by (simp add: r)
  have "area_product cam / ?v \<le> ?s\<^sup>2"
    using mv v by (simp add: a pos_divide_le_eq mult.commute mult_right_mono)
  then show "sight_range cam \<le> ?s"
    using s sq by (intro power2_le_imp_le [of "sight_range cam" ?s]) simp_all
qed

lemma camera_simulate_ok:
  assumes "camera_ok cam" and "camera_simulate cam action = Inr cam'"
  shows "camera_ok cam'"
proof -
  let ?angle = "clip (min_viewing_angle cam) MAX_CAMERA_VIEWING_ANGLE
      (viewing_angle cam + clip (- zooming_step cam) (zooming_step cam) (action ! 1))"
  have "min_viewing_angle cam \<le> MAX_CAMERA_VIEWING_ANGLE"
    using assms(1) by (auto simp: camera_ok_def)
  then have "min_viewing_angle cam \<le> ?angle \<and> ?angle \<le> MAX_CAMERA_VIEWING_ANGLE"
    by (rule clip_bounds)
  then show ?thesis
    using assms
    by (auto simp: camera_simulate_def bind_check camera_ok_def Let_def normalize_angle_range
        split: if_splits)
qed

lemma entity_reset_frame [frame_simps]:
  "radius (entity_reset R e) = radius e"
  "range_low (entity_reset R e) = range_low e" "range_high (entity_reset R e) = range_high e"
  "entity.more (entity_reset R e) = entity.more e"
  by (simp_all add: entity_reset_def split: prod.split)

text \<open>What a reset draws for a camera satisfies the invariant.\<close>

lemma obstacle_reset_frame [frame_simps]:
  fixes cam :: "'g camera"
  shows "min_viewing_angle (obstacle_reset R cam) = min_viewing_angle cam"
    "max_sight_range (obstacle_reset R cam) = max_sight_range cam"
    "rotation_step (obstacle_reset R cam) = rotation_step cam"
    "zooming_step (obstacle_reset R cam) = zooming_step cam"
    "area_product (obstacle_reset R cam) = area_product cam"
  by (simp_all add: obstacle_reset_def entity_reset_def split: prod.split)

definition camera_params_ok :: "'g camera \<Rightarrow> bool" where
  "camera_params_ok cam \<longleftrightarrow>
     0 < min_viewing_angle cam \<and> min_viewing_angle cam \<le> MAX_CAMERA_VIEWING_ANGLE
   \<and> 0 < max_sight_range cam \<and> 0 < rotation_step cam \<and> rotation_step cam \<le> 360 \<and> 0 < zooming_step cam
   \<and> area_product cam = min_viewing_angle cam * (max_sight_range cam)\<^sup>2"

lemma camera_ok_params: "camera_ok cam \<Longrightarrow> camera_params_ok cam"
  by (auto simp: camera_ok_def camera_params_ok_def)

lemma camera_reset_ok:
  assumes "rng_ok R" and "camera_params_ok cam"
  shows "camera_ok (camera_reset R cam)"
proof -
  let ?cam = "obstacle_reset R cam"
  obtain k g1 where k: "randint R (gen ?cam) 0 \<lfloor>360 / rotation_step cam\<rfloor> = (k, g1)"
    by fastforce
  obtain a g2 where a: "uniform R g1 (min_viewing_angle cam) MAX_CAMERA_VIEWING_ANGLE = (a, g2)"
    by fastforce
  have "min_viewing_angle cam \<le> MAX_CAMERA_VIEWING_ANGLE"
    using assms(2) by (simp add: camera_params_ok_def)
  from rng_uniform [OF assms(1) this, of g1] have "min_viewing_angle cam \<le> a \<and> a \<le> MAX_CAMERA_VIEWING_ANGLE"
    by (simp add: a)
  then show ?thesis
    using assms(2)
    by (simp add: camera_reset_def k a Let_def camera_ok_def camera_params_ok_def
        normalize_angle_range frame_simps)
qed

text \<open>A location is kept inside the terrain by a margin of 1.2 radii.\<close>

lemma clip_inside_in_terrain:
  assumes "0 \<le> margin" and "margin \<le> TERRAIN_SIZE"
  shows "in_terrain (clip_inside margin p)"
  using assms by (auto simp: in_terrain_def clip_inside_def clip_def terrain_defs)

lemma entity_reset_in_terrain:
  assumes "0 \<le> radius e" and "12 / 10 * radius e \<le> TERRAIN_SIZE"
  shows "in_terrain (location (entity_reset R e))"
  using assms by (simp add: entity_reset_def clip_inside_in_terrain split: prod.split)

definition target_ok :: "('g, 'z) target_scheme \<Rightarrow> bool" where
  "target_ok t \<longleftrightarrow>
     radius t = TARGET_RADIUS \<and> in_terrain (location t) \<and> 0 < step_size t \<and> 0 < t_sight_range t
   \<and> length (goal_bits t) = NUM_WAREHOUSES \<and> length (empty_bits t) = NUM_WAREHOUSES"

lemma target_reset_ok:
  assumes "target_ok t"
  shows "target_ok (target_reset R t)" and "\<not> is_loaded (target_reset R t)"
  using assms
  by (auto simp: target_ok_def target_reset_def entity_reset_def is_loaded_def any_nonzero_iff
      TARGET_RADIUS_def terrain_defs clip_inside_in_terrain split: prod.split)

end
