(* ===== verification/Cargo.thy ===== *)
theory Cargo
  imports Entities
begin

text \<open>
  The transport game of \<^verbatim>\<open>mate/environment.py\<close>: the cargo fields of the environment object, the
  method \<open>_assign_goals\<close> (rewards of a step, delivery, loading) and the part of \<open>reset\<close> that
  draws the cargoes and loads the targets. Every count is an integer, the scales included: they
  are values of \<open>np.ceil\<close>, and \<open>freights\<close> and \<open>bounties\<close> are int64 arrays.

  The invariant \<open>cargo_inv\<close> says what the arrays mean: each target carries nothing or one kind of
  cargo, and the count a warehouse awaits is what remains for it plus what is on the way.
  \<open>bounty_lost\<close> is the part of the bounties that tracking has taken from the loads on the way; it
  is exactly the difference between the dense and the delayed episode rewards.
\<close>

record 'g world =
  targets :: "'g target list"
  target_capacities :: "int list"
  remaining_cargoes :: "int list list"
  awaiting_cargo_counts :: "int list"
  num_delivered_cargoes :: int
  target_team_episode_reward :: int
  delayed_target_team_episode_reward :: int
  target_warehouse_distances :: "real list list"
  target_goal_bits :: "int list list"
  target_goals :: "int list"
  target_dones :: "bool list"
  target_steps :: "int list"
  tracked_steps :: "int list"
  freight_scale :: int
  bounty_scale :: int
  freights :: "int list"
  bounties :: "int list"
  tracked_bits :: "bool list"
  np_random :: 'g

definition num_targets :: "('g, 'z) world_scheme \<Rightarrow> nat" where
  "num_targets s = length (targets s)"

definition reward_scale :: "('g, 'z) world_scheme \<Rightarrow> int" where
  "reward_scale s = freight_scale s + bounty_scale s"

subsection \<open>The operations\<close>

text \<open>The warehouses whose square contains the location, in index order.\<close>

definition nearby_warehouses :: "vec \<Rightarrow> nat list" where
  "nearby_warehouses p =
     flatnonzero (map (\<lambda>w. vnorm_inf (vsub p w) \<le> WAREHOUSE_RADIUS) WAREHOUSES)"

definition warehouse_distances :: "vec \<Rightarrow> real list" where
  "warehouse_distances p = map (\<lambda>w. vnorm (vsub p w)) WAREHOUSES"

text \<open>The delivery at the goal: counters first, the rewards are added by the caller.\<close>

definition delivery_reward :: "nat \<Rightarrow> ('g, 'z) world_scheme \<Rightarrow> int" where
  "delivery_reward t s = freights s ! t + bounties s ! t"

definition delivery_delayed_reward :: "nat \<Rightarrow> nat \<Rightarrow> ('g, 'z) world_scheme \<Rightarrow> int" where
  "delivery_delayed_reward t goal s =
     (let total_bounty = target_goal_bits s ! t ! goal * bounty_scale s
      in delivery_reward t s - (total_bounty - bounties s ! t))"

definition deliver :: "nat \<Rightarrow> nat \<Rightarrow> ('g, 'z) world_scheme \<Rightarrow> ('g, 'z) world_scheme" where
  "deliver t goal s =
     (let cargo_weight = target_goal_bits s ! t ! goal
      in s\<lparr>num_delivered_cargoes := num_delivered_cargoes s + cargo_weight,
           awaiting_cargo_counts :=
             (awaiting_cargo_counts s)[goal := awaiting_cargo_counts s ! goal - cargo_weight]\<rparr>)"

definition clear_load :: "nat \<Rightarrow> ('g, 'z) world_scheme \<Rightarrow> ('g, 'z) world_scheme" where
  "clear_load t s =
     s\<lparr>freights := (freights s)[t := 0], bounties := (bounties s)[t := 0],
       tracked_steps := (tracked_steps s)[t := 0], target_steps := (target_steps s)[t := 0],
       target_goal_bits := (target_goal_bits s)[t := replicate NUM_WAREHOUSES 0],
       targets := (targets s)[t := (targets s ! t)\<lparr>goal_bits := replicate NUM_WAREHOUSES 0\<rparr>],
       target_goals := (target_goals s)[t := - 1]\<rparr>"

definition available_goals :: "nat \<Rightarrow> ('g, 'z) world_scheme \<Rightarrow> nat list" where
  "available_goals warehouse s = flatnonzero (map (\<lambda>r. r > 0) (remaining_cargoes s ! warehouse))"

definition load_cargo :: "'g rng \<Rightarrow> nat \<Rightarrow> nat \<Rightarrow> ('g, 'z) world_scheme \<Rightarrow> ('g, 'z) world_scheme" where
  "load_cargo R t warehouse s =
     (let (new_goal, g) = choice R (np_random s) (available_goals warehouse s);
          remaining = remaining_cargoes s ! warehouse ! new_goal;
          cargo_weight = min (target_capacities s ! t) remaining
      in s\<lparr>np_random := g,
           remaining_cargoes :=
             mat_upd (remaining_cargoes s) warehouse new_goal (remaining - cargo_weight),
           target_goal_bits := mat_upd (target_goal_bits s) t new_goal cargo_weight,
           freights := (freights s)[t := cargo_weight * freight_scale s],
           bounties := (bounties s)[t := cargo_weight * bounty_scale s],
           targets := (targets s)[t := (targets s ! t)
             \<lparr>goal_bits := (goal_bits (targets s ! t))[new_goal := cargo_weight]\<rparr>],
           target_goals := (target_goals s)[t := int new_goal]\<rparr>)"

text \<open>
  The loop over the nearby warehouses for target \<open>t\<close> with the goal it had at the start: skip a
  warehouse that is not the goal of a loaded target, deliver at the goal, take a new load and
  leave the loop if the warehouse has any cargo, otherwise go on. The accumulator holds the world
  and the two rewards of the step.
\<close>

type_synonym ('g, 'z) tally = "('g, 'z) world_scheme \<times> int \<times> int"

fun visit_warehouses ::
  "'g rng \<Rightarrow> nat \<Rightarrow> int \<Rightarrow> nat list \<Rightarrow> ('g, 'z) tally \<Rightarrow> ('g, 'z) tally" where
  "visit_warehouses R t goal [] acc = acc"
| "visit_warehouses R t goal (warehouse # ws) (s, reward, delayed) =
     (if goal \<ge> 0 \<and> goal \<noteq> int warehouse then visit_warehouses R t goal ws (s, reward, delayed)
      else
        (let (s1, reward1, delayed1) =
               (if goal \<ge> 0
                then (deliver t warehouse s, reward + delivery_reward t s,
                      delayed + delivery_delayed_reward t warehouse s)
                else (s, reward, delayed));
             s2 = clear_load t s1
         in if any_nonzero (remaining_cargoes s2 ! warehouse)
            then (load_cargo R t warehouse s2, reward1, delayed1)
            else visit_warehouses R t goal ws (s2, reward1, delayed1)))"

definition see_empty_warehouses :: "nat \<Rightarrow> nat list \<Rightarrow> ('g, 'z) world_scheme \<Rightarrow> ('g, 'z) world_scheme" where
  "see_empty_warehouses t ws s =
     s\<lparr>targets := (targets s)[t := (targets s ! t)
        \<lparr>empty_bits := fold (\<lambda>w bits. bits[w := \<not> any_nonzero (remaining_cargoes s ! w)]) ws
                         (empty_bits (targets s ! t))\<rparr>]\<rparr>"

definition assign_target :: "'g rng \<Rightarrow> nat \<Rightarrow> ('g, 'z) tally \<Rightarrow> ('g, 'z) tally" where
  "assign_target R t acc =
     (case acc of (s, reward, delayed) \<Rightarrow>
       let p = location (targets s ! t);
           ws = nearby_warehouses p;
           s1 = s\<lparr>target_warehouse_distances := (target_warehouse_distances s)[t := warehouse_distances p]\<rparr>
       in case visit_warehouses R t (target_goals s ! t) ws (s1, reward, delayed) of
         (s2, reward2, delayed2) \<Rightarrow> (see_empty_warehouses t ws s2, reward2, delayed2))"

definition tracked_with_bounty :: "('g, 'z) world_scheme \<Rightarrow> int" where
  "tracked_with_bounty s =
     count_true (map (\<lambda>t. tracked_bits s ! t \<and> bounties s ! t > 0) [0..<num_targets s])"

definition pay_bounties :: "('g, 'z) world_scheme \<Rightarrow> ('g, 'z) world_scheme" where
  "pay_bounties s =
     s\<lparr>bounties := map (\<lambda>t. max (bounties s ! t - bool_int (tracked_bits s ! t)) 0) [0..<num_targets s]\<rparr>"

definition assign_goals :: "'g rng \<Rightarrow> ('g, 'z) world_scheme \<Rightarrow> ('g, 'z) tally" where
  "assign_goals R s =
     (let old_target_goals = target_goals s
      in case fold (assign_target R) [0..<num_targets s]
                (pay_bounties s, - tracked_with_bounty s, 0) of
        (s1, reward, delayed) \<Rightarrow>
          (s1\<lparr>target_dones := map (\<lambda>t. target_goals s1 ! t \<noteq> old_target_goals ! t
                                     \<and> old_target_goals ! t \<ge> 0) [0..<num_targets s1]\<rparr>,
           reward, delayed))"

subsection \<open>Drawing the cargoes at reset\<close>

definition draw_cargo :: "'g rng \<Rightarrow> ('g, 'z) world_scheme \<Rightarrow> ('g, 'z) world_scheme" where
  "draw_cargo R s =
     (let (pair, g) = choice_distinct R (np_random s) NUM_WAREHOUSES 2;
          sender = pair ! 0; recipient = pair ! 1
      in s\<lparr>np_random := g,
           remaining_cargoes := mat_upd (remaining_cargoes s) sender recipient
             (remaining_cargoes s ! sender ! recipient + 1)\<rparr>)"

definition draw_batch :: "'g rng \<Rightarrow> nat \<Rightarrow> ('g, 'z) world_scheme \<Rightarrow> ('g, 'z) world_scheme" where
  "draw_batch R n s = (draw_cargo R ^^ n) s"

definition count_awaiting :: "('g, 'z) world_scheme \<Rightarrow> ('g, 'z) world_scheme" where
  "count_awaiting s =
     s\<lparr>awaiting_cargo_counts := map (col_sum (remaining_cargoes s)) [0..<NUM_WAREHOUSES]\<rparr>"

text \<open>\<open>while not self.remaining_cargoes.any(axis=-1).all()\<close>: None if the loop never ends.\<close>

partial_function (option) draw_until_all ::
  "'g rng \<Rightarrow> nat \<Rightarrow> ('g, 'z) world_scheme \<Rightarrow> ('g, 'z) world_scheme option" where
  "draw_until_all R n s =
     (if list_all any_nonzero (remaining_cargoes s) then Some s
      else draw_until_all R n (count_awaiting (draw_batch R n s)))"

definition clear_transport :: "('g, 'z) world_scheme \<Rightarrow> ('g, 'z) world_scheme" where
  "clear_transport s =
     (let n = num_targets s
      in s\<lparr>target_warehouse_distances := replicate n (replicate NUM_WAREHOUSES 0),
           target_goals := replicate n (- 1),
           target_goal_bits := replicate n (replicate NUM_WAREHOUSES 0),
           target_steps := replicate n 0, tracked_steps := replicate n 0,
           freights := replicate n 0, bounties := replicate n 0\<rparr>)"

definition clear_episode :: "('g, 'z) world_scheme \<Rightarrow> ('g, 'z) world_scheme" where
  "clear_episode s =
     s\<lparr>target_dones := replicate (num_targets s) False, num_delivered_cargoes := 0,
       target_team_episode_reward := 0, delayed_target_team_episode_reward := 0\<rparr>"

text \<open>\<open>targets_start_with_cargoes\<close>: a random warehouse with cargo for each unloaded target.\<close>

fun first_load :: "'g rng \<Rightarrow> nat \<Rightarrow> nat list \<Rightarrow> ('g, 'z) world_scheme \<Rightarrow> ('g, 'z) world_scheme" where
  "first_load R t [] s = s"
| "first_load R t (warehouse # ws) s =
     (if any_nonzero (remaining_cargoes s ! warehouse) then load_cargo R t warehouse s
      else first_load R t ws s)"

definition start_target :: "'g rng \<Rightarrow> nat \<Rightarrow> ('g, 'z) world_scheme \<Rightarrow> ('g, 'z) world_scheme" where
  "start_target R t s =
     (case permutation R (np_random s) NUM_WAREHOUSES of
        (ws, g) \<Rightarrow> first_load R t ws (s\<lparr>np_random := g\<rparr>))"

definition start_with_cargoes :: "'g rng \<Rightarrow> ('g, 'z) world_scheme \<Rightarrow> ('g, 'z) world_scheme res" where
  "start_with_cargoes R s =
     (let s1 = fold (start_target R) (filter (\<lambda>t. target_goals s ! t < 0) [0..<num_targets s]) s
      in if list_all (\<lambda>goal. goal \<ge> 0) (target_goals s1) then Inr s1 else Inl AssertionError)"

definition reset_remaining :: "('g, 'z) world_scheme \<Rightarrow> ('g, 'z) world_scheme" where
  "reset_remaining s = s\<lparr>remaining_cargoes := replicate NUM_WAREHOUSES (replicate NUM_WAREHOUSES 0)\<rparr>"

text \<open>The cargo part of \<open>reset\<close>, in the order of the code.\<close>

definition reset_cargo ::
  "'g rng \<Rightarrow> nat \<Rightarrow> bool \<Rightarrow> ('g, 'z) world_scheme \<Rightarrow> ('g, 'z) world_scheme res option" where
  "reset_cargo R num_cargoes_per_target targets_start_with_cargoes s =
     (case draw_until_all R (num_cargoes_per_target * num_targets s) (reset_remaining s) of
        None \<Rightarrow> None
      | Some s1 \<Rightarrow>
          (case assign_goals R (clear_transport s1) of
             (s2, _, _) \<Rightarrow>
               Some (if targets_start_with_cargoes then start_with_cargoes R (clear_episode s2)
                     else Inr (clear_episode s2))))"

subsection \<open>The invariant\<close>

definition load_ok :: "('g, 'z) world_scheme \<Rightarrow> nat \<Rightarrow> bool" where
  "load_ok s t \<longleftrightarrow>
     (let goal = target_goals s ! t; bits = target_goal_bits s ! t
      in goal_bits (targets s ! t) = bits
       \<and> (if goal < 0
          then goal = - 1 \<and> bits = replicate NUM_WAREHOUSES 0
             \<and> freights s ! t = 0 \<and> bounties s ! t = 0
          else goal < int NUM_WAREHOUSES
             \<and> 0 < bits ! nat goal \<and> bits ! nat goal \<le> target_capacities s ! t
             \<and> bits = (replicate NUM_WAREHOUSES 0)[nat goal := bits ! nat goal]
             \<and> freights s ! t = bits ! nat goal * freight_scale s
             \<and> 0 \<le> bounties s ! t \<and> bounties s ! t \<le> bits ! nat goal * bounty_scale s))"

definition cargo_shapes :: "('g, 'z) world_scheme \<Rightarrow> bool" where
  "cargo_shapes s \<longleftrightarrow>
     length (target_capacities s) = num_targets s
   \<and> is_matrix NUM_WAREHOUSES NUM_WAREHOUSES (remaining_cargoes s)
   \<and> length (awaiting_cargo_counts s) = NUM_WAREHOUSES
   \<and> is_matrix (num_targets s) NUM_WAREHOUSES (target_goal_bits s)
   \<and> length (target_goals s) = num_targets s
   \<and> length (freights s) = num_targets s \<and> length (bounties s) = num_targets s
   \<and> length (tracked_bits s) = num_targets s"

definition stock_ok :: "('g, 'z) world_scheme \<Rightarrow> bool" where
  "stock_ok s \<longleftrightarrow>
     (\<forall>w < NUM_WAREHOUSES. \<forall>g < NUM_WAREHOUSES. 0 \<le> remaining_cargoes s ! w ! g)
   \<and> (\<forall>w < NUM_WAREHOUSES. remaining_cargoes s ! w ! w = 0)"

definition balanced :: "('g, 'z) world_scheme \<Rightarrow> bool" where
  "balanced s \<longleftrightarrow>
     (\<forall>g < NUM_WAREHOUSES. awaiting_cargo_counts s ! g
        = col_sum (remaining_cargoes s) g + col_sum (target_goal_bits s) g)"

definition scales_ok :: "('g, 'z) world_scheme \<Rightarrow> bool" where
  "scales_ok s \<longleftrightarrow>
     0 < freight_scale s \<and> 0 \<le> bounty_scale s
   \<and> (\<forall>t < num_targets s. 0 < target_capacities s ! t)"

definition cargo_inv :: "('g, 'z) world_scheme \<Rightarrow> bool" where
  "cargo_inv s \<longleftrightarrow>
     cargo_shapes s \<and> scales_ok s \<and> stock_ok s \<and> balanced s \<and> (\<forall>t < num_targets s. load_ok s t)"

text \<open>What target \<open>t\<close> carries, and the bounty its load has lost to tracking.\<close>

definition weight :: "('g, 'z) world_scheme \<Rightarrow> nat \<Rightarrow> int" where
  "weight s t = sum_list (target_goal_bits s ! t)"

definition lost_of :: "('g, 'z) world_scheme \<Rightarrow> nat \<Rightarrow> int" where
  "lost_of s t = weight s t * bounty_scale s - bounties s ! t"

definition bounty_lost :: "('g, 'z) world_scheme \<Rightarrow> int" where
  "bounty_lost s = (\<Sum>t < num_targets s. lost_of s t)"

definition total_cargoes :: "('g, 'z) world_scheme \<Rightarrow> int" where
  "total_cargoes s = (\<Sum>g < NUM_WAREHOUSES. awaiting_cargo_counts s ! g) + num_delivered_cargoes s"

end
