(* ===== verification/Transport.thy ===== *)
theory Transport
  imports Cargo
begin

text \<open>
  What the transport game of \<open>Cargo\<close> does: every operation of \<open>_assign_goals\<close> is a \<open>ledger\<close> step,
  that is, it keeps the invariant and the setup of the world, conserves the cargoes, and moves the
  two rewards by amounts the deliveries and the lost bounties account for. \<open>ledger\<close> is reflexive
  and transitive, so the loops over warehouses and targets are ledger steps by induction.
\<close>

subsection \<open>Ledger steps\<close>

text \<open>Two states of the same target: only what it carries and knows of the warehouses differs.\<close>

definition same_body :: "'g target \<Rightarrow> 'g target \<Rightarrow> bool" where
  "same_body a b \<longleftrightarrow>
     b\<lparr>goal_bits := [], empty_bits := []\<rparr> = a\<lparr>goal_bits := [], empty_bits := []\<rparr>
   \<and> length (empty_bits b) = length (empty_bits a)"

lemma same_body_refl [simp]: "same_body a a"
  by (simp add: same_body_def)

lemma same_body_upd [simp]:
  "same_body a (a\<lparr>goal_bits := x\<rparr>)"
  "same_body a (a\<lparr>empty_bits := y\<rparr>) \<longleftrightarrow> length y = length (empty_bits a)"
  by (simp_all add: same_body_def)

lemma same_body_eqs:
  assumes "same_body a b"
  shows "location b = location a" "radius b = radius a" "step_size b = step_size a"
    "t_sight_range b = t_sight_range a" "capacity b = capacity a"
    "length (empty_bits b) = length (empty_bits a)" "transport_product b = transport_product a"
proof -
  have e: "b\<lparr>goal_bits := [], empty_bits := []\<rparr> = a\<lparr>goal_bits := [], empty_bits := []\<rparr>"
    and l: "length (empty_bits b) = length (empty_bits a)"
    using assms by (simp_all only: same_body_def)
  show "location b = location a" "radius b = radius a" "step_size b = step_size a"
    "t_sight_range b = t_sight_range a" "capacity b = capacity a" "transport_product b = transport_product a"
    using arg_cong [OF e, of transport_product] arg_cong [OF e, of location] arg_cong [OF e, of radius] arg_cong [OF e, of step_size]
      arg_cong [OF e, of t_sight_range] arg_cong [OF e, of capacity]
    by simp_all
  show "length (empty_bits b) = length (empty_bits a)" by (rule l)
qed

lemma same_body_trans: "same_body a b \<Longrightarrow> same_body b c \<Longrightarrow> same_body a c"
  by (simp add: same_body_def)

definition same_setup :: "('g, 'z) world_scheme \<Rightarrow> ('g, 'z) world_scheme \<Rightarrow> bool" where
  "same_setup s s' \<longleftrightarrow>
     num_targets s' = num_targets s \<and> target_capacities s' = target_capacities s
   \<and> freight_scale s' = freight_scale s \<and> bounty_scale s' = bounty_scale s
   \<and> tracked_bits s' = tracked_bits s
   \<and> target_team_episode_reward s' = target_team_episode_reward s
   \<and> delayed_target_team_episode_reward s' = delayed_target_team_episode_reward s
   \<and> world.more s' = world.more s
   \<and> length (target_steps s') = length (target_steps s)
   \<and> length (tracked_steps s') = length (tracked_steps s)
   \<and> (\<forall>j < num_targets s. same_body (targets s ! j) (targets s' ! j))"

definition ledger :: "('g, 'z) tally \<Rightarrow> ('g, 'z) tally \<Rightarrow> bool" where
  "ledger a b \<longleftrightarrow>
     (case a of (s, r, d) \<Rightarrow> case b of (s', r', d') \<Rightarrow>
        same_setup s s' \<and> cargo_inv s'
      \<and> r' - d' + bounty_lost s' = r - d + bounty_lost s
      \<and> total_cargoes s' = total_cargoes s
      \<and> num_delivered_cargoes s \<le> num_delivered_cargoes s'
      \<and> (freight_scale s - bounty_scale s) * (num_delivered_cargoes s' - num_delivered_cargoes s) \<le> d' - d
      \<and> d' - d \<le> reward_scale s * (num_delivered_cargoes s' - num_delivered_cargoes s))"

lemma same_setup_refl [simp]: "same_setup s s"
  by (simp add: same_setup_def)

lemma same_setup_trans: "same_setup s t \<Longrightarrow> same_setup t u \<Longrightarrow> same_setup s u"
  unfolding same_setup_def by (simp, metis same_body_trans)

lemma same_setup_body: "same_setup s s' \<Longrightarrow> j < num_targets s \<Longrightarrow> same_body (targets s ! j) (targets s' ! j)"
  by (simp add: same_setup_def)

lemma ledger_refl: "cargo_inv s \<Longrightarrow> ledger (s, r, d) (s, r, d)"
  by (simp add: ledger_def)

lemma ledger_trans:
  assumes ab: "ledger a b" and bc: "ledger b c"
  shows "ledger a c"
proof -
  obtain s r d where a: "a = (s, r, d)" by (cases a)
  obtain s' r' d' where b: "b = (s', r', d')" by (cases b)
  obtain u r'' d'' where c: "c = (u, r'', d'')" by (cases c)
  have sc: "freight_scale s' = freight_scale s" "bounty_scale s' = bounty_scale s"
    "reward_scale s' = reward_scale s"
    using ab by (auto simp: ledger_def a b same_setup_def reward_scale_def)
  have D: "(freight_scale s - bounty_scale s) * (num_delivered_cargoes s' - num_delivered_cargoes s) \<le> d' - d"
    "d' - d \<le> reward_scale s * (num_delivered_cargoes s' - num_delivered_cargoes s)"
    "(freight_scale s - bounty_scale s) * (num_delivered_cargoes u - num_delivered_cargoes s') \<le> d'' - d'"
    "d'' - d' \<le> reward_scale s * (num_delivered_cargoes u - num_delivered_cargoes s')"
    using ab bc by (auto simp: ledger_def a b c sc)
  have "same_setup s u"
    using ab bc same_setup_trans by (auto simp: ledger_def a b c)
  moreover have "(freight_scale s - bounty_scale s) * (num_delivered_cargoes u - num_delivered_cargoes s) \<le> d'' - d"
    "d'' - d \<le> reward_scale s * (num_delivered_cargoes u - num_delivered_cargoes s)"
    using D by (simp_all add: right_diff_distrib')
  ultimately show ?thesis
    using ab bc by (auto simp: ledger_def a b c)
qed

lemma ledger_inv: "ledger a (s', r', d') \<Longrightarrow> cargo_inv s'"
  by (auto simp: ledger_def split: prod.splits)

subsection \<open>Loads\<close>

text \<open>The row of a target that carries \<open>n\<close> units for warehouse \<open>g\<close>.\<close>

lemma nth_unit_row:
  "j < NUM_WAREHOUSES \<Longrightarrow> (replicate NUM_WAREHOUSES 0)[g := n] ! j = (if j = g then n else (0 :: int))"
  by (simp add: nth_list_update)

lemma sum_list_unit_row:
  assumes "g < NUM_WAREHOUSES"
  shows "sum_list ((replicate NUM_WAREHOUSES 0)[g := n :: int]) = n"
  using assms by (simp add: sum_list_update_int sum_list_replicate)

lemma load_ok_empty:
  assumes "load_ok s t" and "target_goals s ! t < 0"
  shows "target_goals s ! t = - 1" "target_goal_bits s ! t = replicate NUM_WAREHOUSES 0"
    "freights s ! t = 0" "bounties s ! t = 0" "lost_of s t = 0" "weight s t = 0"
  using assms by (auto simp: load_ok_def Let_def lost_of_def weight_def sum_list_replicate)

lemma load_ok_loaded:
  assumes "load_ok s t" and "0 \<le> target_goals s ! t"
  obtains g n where "target_goals s ! t = int g" "g < NUM_WAREHOUSES"
    "target_goal_bits s ! t = (replicate NUM_WAREHOUSES 0)[g := n]" "weight s t = n"
    "0 < n" "n \<le> target_capacities s ! t" "freights s ! t = n * freight_scale s"
    "0 \<le> bounties s ! t" "bounties s ! t \<le> n * bounty_scale s"
proof -
  let ?g = "nat (target_goals s ! t)"
  let ?n = "target_goal_bits s ! t ! ?g"
  have L: "?g < NUM_WAREHOUSES" "target_goal_bits s ! t = (replicate NUM_WAREHOUSES 0)[?g := ?n]"
    using assms by (auto simp: load_ok_def Let_def)
  have "weight s t = ?n"
    unfolding weight_def by (subst L(2), rule sum_list_unit_row [OF L(1)])
  then show thesis
    using that [of ?g ?n] assms L by (auto simp: load_ok_def Let_def)
qed

subsection \<open>Delivery and clearing\<close>

definition settle :: "nat \<Rightarrow> nat \<Rightarrow> ('g, 'z) world_scheme \<Rightarrow> ('g, 'z) world_scheme" where
  "settle t goal s = clear_load t (deliver t goal s)"

lemma bounty_lost_change:
  assumes "t < num_targets s" and "num_targets s' = num_targets s"
    and "\<And>j. j < num_targets s \<Longrightarrow> j \<noteq> t \<Longrightarrow> lost_of s' j = lost_of s j"
  shows "bounty_lost s' = bounty_lost s - lost_of s t + lost_of s' t"
proof -
  have "bounty_lost s' = (\<Sum>j < num_targets s. if j = t then lost_of s' t else lost_of s j)"
    unfolding bounty_lost_def using assms by (intro sum.cong) auto
  then show ?thesis
    using assms(1) by (simp add: sum_upd bounty_lost_def)
qed

lemma cargo_shapes_lengths:
  assumes "cargo_shapes s"
  shows "length (targets s) = num_targets s" "length (target_goals s) = num_targets s"
    "length (freights s) = num_targets s" "length (bounties s) = num_targets s"
    "length (target_goal_bits s) = num_targets s" "length (tracked_bits s) = num_targets s"
    "length (target_capacities s) = num_targets s"
    "length (awaiting_cargo_counts s) = NUM_WAREHOUSES"
    "length (remaining_cargoes s) = NUM_WAREHOUSES"
  using assms by (auto simp: cargo_shapes_def num_targets_def is_matrix_def)

lemma clear_load_loads:
  assumes "cargo_shapes s" and "t < num_targets s" and "\<forall>j < num_targets s. load_ok s j"
  shows "\<forall>j < num_targets s. load_ok (clear_load t s) j"
    and "\<And>j. j < num_targets s \<Longrightarrow> lost_of (clear_load t s) j = (if j = t then 0 else lost_of s j)"
    and "target_goals (clear_load t s) ! t = - 1"
  using assms cargo_shapes_lengths [OF assms(1)]
  by (auto simp: clear_load_def load_ok_def lost_of_def weight_def nth_list_update Let_def
      sum_list_replicate)

lemma clear_load_frame [frame_simps]:
  "num_targets (clear_load t s) = num_targets s"
  "remaining_cargoes (clear_load t s) = remaining_cargoes s"
  "awaiting_cargo_counts (clear_load t s) = awaiting_cargo_counts s"
  "num_delivered_cargoes (clear_load t s) = num_delivered_cargoes s"
  "target_capacities (clear_load t s) = target_capacities s"
  "freight_scale (clear_load t s) = freight_scale s"
  "bounty_scale (clear_load t s) = bounty_scale s"
  "scales_ok (clear_load t s) = scales_ok s" "stock_ok (clear_load t s) = stock_ok s"
  "np_random (clear_load t s) = np_random s"
  by (simp_all add: clear_load_def num_targets_def scales_ok_def stock_ok_def)

lemma clear_load_shapes:
  assumes "cargo_shapes s" and "t < num_targets s"
  shows "cargo_shapes (clear_load t s)"
  using assms by (auto simp: cargo_shapes_def clear_load_def num_targets_def is_matrix_def nth_list_update)

lemma clear_load_setup: "same_setup s (clear_load t s)"
  by (auto simp: same_setup_def clear_load_def num_targets_def nth_upd)

lemma deliver_frame [frame_simps]:
  "num_targets (deliver t g s) = num_targets s"
  "load_ok (deliver t g s) j = load_ok s j" "lost_of (deliver t g s) j = lost_of s j"
  "scales_ok (deliver t g s) = scales_ok s" "stock_ok (deliver t g s) = stock_ok s"
  "remaining_cargoes (deliver t g s) = remaining_cargoes s"
  "target_goal_bits (deliver t g s) = target_goal_bits s"
  "target_goals (deliver t g s) = target_goals s"
  "freight_scale (deliver t g s) = freight_scale s"
  "bounty_scale (deliver t g s) = bounty_scale s"
  "same_setup s (deliver t g s)"
  by (simp_all add: deliver_def num_targets_def load_ok_def lost_of_def weight_def scales_ok_def
      stock_ok_def same_setup_def Let_def)

lemma deliver_shapes: "cargo_shapes s \<Longrightarrow> cargo_shapes (deliver t g s)"
  by (simp add: cargo_shapes_def deliver_def num_targets_def Let_def)

lemma col_sum_clear_load:
  assumes "cargo_shapes s" and "t < num_targets s" and "k < NUM_WAREHOUSES"
  shows "col_sum (target_goal_bits (clear_load t s)) k
    = col_sum (target_goal_bits s) k - target_goal_bits s ! t ! k"
  using assms cargo_shapes_lengths [OF assms(1)]
  by (simp add: clear_load_def col_sum_row_upd)

text \<open>A target without a load: clearing changes nothing that counts.\<close>

lemma clear_unloaded_ledger:
  assumes inv: "cargo_inv s" and t: "t < num_targets s" and goal: "target_goals s ! t < 0"
  shows "ledger (s, r, d) (clear_load t s, r, d)"
proof -
  have sh: "cargo_shapes s" and ld: "\<forall>j < num_targets s. load_ok s j" and bal: "balanced s"
    using inv by (auto simp: cargo_inv_def)
  have empty: "target_goal_bits s ! t = replicate NUM_WAREHOUSES 0" "lost_of s t = 0"
    using load_ok_empty ld t goal by blast+
  have "balanced (clear_load t s)"
    using bal empty(1) by (simp add: balanced_def col_sum_clear_load [OF sh t] frame_simps)
  then have "cargo_inv (clear_load t s)"
    using inv clear_load_shapes [OF sh t] clear_load_loads(1) [OF sh t ld]
    by (simp add: cargo_inv_def frame_simps)
  moreover have "bounty_lost (clear_load t s) = bounty_lost s"
    using bounty_lost_change [OF t, of "clear_load t s"] clear_load_loads(2) [OF sh t ld] t empty(2)
    by (simp add: frame_simps)
  ultimately show ?thesis
    by (simp add: ledger_def clear_load_setup total_cargoes_def frame_simps)
qed

text \<open>A delivery at the goal.\<close>

lemma settle_ledger:
  assumes inv: "cargo_inv s" and t: "t < num_targets s" and goal: "target_goals s ! t = int g"
  shows "ledger (s, r, d) (settle t g s, r + delivery_reward t s, d + delivery_delayed_reward t g s)"
proof -
  have sh: "cargo_shapes s" and ld: "\<forall>j < num_targets s. load_ok s j" and bal: "balanced s"
    and scl: "0 \<le> freight_scale s" "0 \<le> bounty_scale s"
    using inv by (auto simp: cargo_inv_def scales_ok_def)
  have "load_ok s t" "0 \<le> target_goals s ! t" using ld t goal by auto
  then obtain n where g: "g < NUM_WAREHOUSES"
    and bits: "target_goal_bits s ! t = (replicate NUM_WAREHOUSES 0)[g := n]" and w: "weight s t = n"
    and n: "0 < n" and f: "freights s ! t = n * freight_scale s"
    and b: "0 \<le> bounties s ! t" "bounties s ! t \<le> n * bounty_scale s"
    by (rule load_ok_loaded) (use goal in auto)
  let ?s = "deliver t g s"
  have cw: "target_goal_bits s ! t ! g = n" using bits g by simp
  have sh': "cargo_shapes ?s" and t': "t < num_targets ?s" and ld': "\<forall>j < num_targets ?s. load_ok ?s j"
    using sh t ld by (auto simp: deliver_shapes frame_simps)
  have aw: "awaiting_cargo_counts ?s ! k = awaiting_cargo_counts s ! k - target_goal_bits s ! t ! k"
    if "k < NUM_WAREHOUSES" for k
    using that g cw bits cargo_shapes_lengths(8) [OF sh]
    by (auto simp: deliver_def nth_list_update Let_def)
  have "balanced (settle t g s)"
    using bal aw by (simp add: balanced_def settle_def col_sum_clear_load [OF sh' t'] frame_simps)
  then have inv': "cargo_inv (settle t g s)"
    using inv clear_load_shapes [OF sh' t'] clear_load_loads(1) [OF sh' t' ld']
    by (simp add: cargo_inv_def settle_def frame_simps)
  have lost: "bounty_lost (settle t g s) = bounty_lost s - (n * bounty_scale s - bounties s ! t)"
    using bounty_lost_change [OF t, of "settle t g s"] clear_load_loads(2) [OF sh' t' ld'] t w
    by (simp add: settle_def frame_simps) (simp add: lost_of_def)
  have nd: "num_delivered_cargoes (settle t g s) = num_delivered_cargoes s + n"
    by (simp add: settle_def frame_simps deliver_def cw Let_def)
  have "total_cargoes (settle t g s) = total_cargoes s"
    using sum_lt_nth_update [of g NUM_WAREHOUSES "awaiting_cargo_counts s"] g cargo_shapes_lengths(8) [OF sh]
    by (simp add: total_cargoes_def nd) (simp add: settle_def frame_simps deliver_def Let_def cw)
  moreover have "same_setup s (settle t g s)"
    unfolding settle_def by (rule same_setup_trans [OF _ clear_load_setup]) (simp add: frame_simps)
  moreover have "delivery_reward t s - delivery_delayed_reward t g s = n * bounty_scale s - bounties s ! t"
    by (simp add: delivery_delayed_reward_def Let_def cw)
  moreover have "(freight_scale s - bounty_scale s) * n \<le> delivery_delayed_reward t g s"
    "delivery_delayed_reward t g s \<le> reward_scale s * n"
    using b by (simp_all add: delivery_delayed_reward_def delivery_reward_def reward_scale_def
        Let_def cw f algebra_simps)
  ultimately show ?thesis
    using inv' n by (simp add: ledger_def nd lost)
qed

subsection \<open>Loading\<close>

lemma available_goal:
  assumes "rng_ok R" and "cargo_shapes s" and "stock_ok s" and "w < NUM_WAREHOUSES"
    and "any_nonzero (remaining_cargoes s ! w)"
    and "choice R (np_random s) (available_goals w s) = (g, h)"
  shows "g < NUM_WAREHOUSES" "0 < remaining_cargoes s ! w ! g" "g \<noteq> w"
proof -
  have len: "length (remaining_cargoes s ! w) = NUM_WAREHOUSES"
    using assms by (auto simp: cargo_shapes_def is_matrix_def)
  have "available_goals w s \<noteq> []"
    using assms len by (force simp: available_goals_def flatnonzero_empty any_nonzero_iff stock_ok_def
        order.order_iff_strict)
  from rng_choice [OF assms(1) this] have "g \<in> set (available_goals w s)"
    using assms(6) by (metis fst_conv)
  then show "g < NUM_WAREHOUSES" "0 < remaining_cargoes s ! w ! g"
    by (auto simp: available_goals_def set_flatnonzero len)
  then show "g \<noteq> w" using assms(3,4) by (auto simp: stock_ok_def)
qed

text \<open>The effect of a load, with the drawn goal \<open>g\<close> and weight \<open>n\<close> named.\<close>

definition take_load :: "nat \<Rightarrow> nat \<Rightarrow> nat \<Rightarrow> int \<Rightarrow> 'g \<Rightarrow> ('g, 'z) world_scheme \<Rightarrow> ('g, 'z) world_scheme" where
  "take_load t w g n h s =
     s\<lparr>np_random := h,
       remaining_cargoes := mat_upd (remaining_cargoes s) w g (remaining_cargoes s ! w ! g - n),
       target_goal_bits := mat_upd (target_goal_bits s) t g n,
       freights := (freights s)[t := n * freight_scale s],
       bounties := (bounties s)[t := n * bounty_scale s],
       targets := (targets s)[t := (targets s ! t)\<lparr>goal_bits := (goal_bits (targets s ! t))[g := n]\<rparr>],
       target_goals := (target_goals s)[t := int g]\<rparr>"

lemma load_cargo_cases:
  assumes "rng_ok R" and "cargo_inv s" and "t < num_targets s" and "w < NUM_WAREHOUSES"
    and "any_nonzero (remaining_cargoes s ! w)"
  obtains g n h where "load_cargo R t w s = take_load t w g n h s" "g < NUM_WAREHOUSES" "g \<noteq> w"
    "0 < n" "n \<le> target_capacities s ! t" "n \<le> remaining_cargoes s ! w ! g"
proof -
  obtain g h where c: "choice R (np_random s) (available_goals w s) = (g, h)"
    by fastforce
  have inv: "cargo_shapes s" "stock_ok s" "0 < target_capacities s ! t"
    using assms(2,3) by (auto simp: cargo_inv_def scales_ok_def)
  note g = available_goal [OF assms(1) inv(1,2) assms(4,5) c]
  show thesis
    by (rule that [of g "min (target_capacities s ! t) (remaining_cargoes s ! w ! g)" h])
      (use g inv(3) in \<open>auto simp: load_cargo_def take_load_def c Let_def\<close>)
qed

lemma take_load_frame [frame_simps]:
  "num_targets (take_load t w g n h s) = num_targets s"
  "awaiting_cargo_counts (take_load t w g n h s) = awaiting_cargo_counts s"
  "num_delivered_cargoes (take_load t w g n h s) = num_delivered_cargoes s"
  "scales_ok (take_load t w g n h s) = scales_ok s"
  by (simp_all add: take_load_def num_targets_def scales_ok_def)

lemma take_load_goals:
  "t < length (target_goals s) \<Longrightarrow> target_goals (take_load t w g n h s) ! t = int g"
  "j \<noteq> t \<Longrightarrow> target_goals (take_load t w g n h s) ! j = target_goals s ! j"
  "length (target_goals (take_load t w g n h s)) = length (target_goals s)"
  by (simp_all add: take_load_def)

lemma take_load_lost:
  assumes "cargo_shapes s" and "t < num_targets s" and "g < NUM_WAREHOUSES"
    and "target_goal_bits s ! t = replicate NUM_WAREHOUSES 0"
  shows "lost_of (take_load t w g n h s) t = 0"
proof -
  have "target_goal_bits (take_load t w g n h s) ! t = (replicate NUM_WAREHOUSES 0)[g := n]"
    using assms cargo_shapes_lengths(5) [OF assms(1)] by (simp add: take_load_def mat_upd_def)
  then show ?thesis
    unfolding lost_of_def weight_def using assms cargo_shapes_lengths(4) [OF assms(1)]
    by (simp add: sum_list_unit_row) (simp add: take_load_def)
qed

lemma take_load_setup: "same_setup s (take_load t w g n h s)"
  by (auto simp: same_setup_def take_load_def num_targets_def nth_upd)

lemma take_load_ledger:
  assumes inv: "cargo_inv s" and t: "t < num_targets s" and goal: "target_goals s ! t < 0"
    and w: "w < NUM_WAREHOUSES" and g: "g < NUM_WAREHOUSES" "g \<noteq> w"
    and n: "0 < n" "n \<le> target_capacities s ! t" "n \<le> remaining_cargoes s ! w ! g"
  shows "ledger (s, r, d) (take_load t w g n h s, r, d)"
proof -
  let ?s = "take_load t w g n h s"
  have sh: "cargo_shapes s" and ld: "\<forall>j < num_targets s. load_ok s j" and bal: "balanced s"
    and st: "stock_ok s" and scl: "scales_ok s" "0 \<le> bounty_scale s"
    using inv by (auto simp: cargo_inv_def scales_ok_def)
  note len = cargo_shapes_lengths [OF sh]
  have mats: "is_matrix NUM_WAREHOUSES NUM_WAREHOUSES (remaining_cargoes s)"
    "is_matrix (num_targets s) NUM_WAREHOUSES (target_goal_bits s)"
    using sh by (auto simp: cargo_shapes_def)
  have "load_ok s t" using ld t by simp
  note empty = load_ok_empty [OF this goal]
  have bits: "goal_bits (targets s ! t) = replicate NUM_WAREHOUSES 0"
    using \<open>load_ok s t\<close> empty by (simp add: load_ok_def Let_def)
  have row: "target_goal_bits ?s ! t = (replicate NUM_WAREHOUSES 0)[g := n]"
    using t len empty(2) by (simp add: take_load_def mat_upd_def)
  have other: "load_ok ?s j = load_ok s j" "lost_of ?s j = lost_of s j" if "j < num_targets s" "j \<noteq> t" for j
    using that by (simp_all add: take_load_def load_ok_def lost_of_def weight_def mat_upd_def Let_def)
  have "load_ok ?s t"
    unfolding load_ok_def row
    using t n(1,2) g(1) len bits scl(2) by (simp add: take_load_def Let_def)
  then have ld': "\<forall>j < num_targets ?s. load_ok ?s j"
    using other ld by (metis take_load_frame(1))
  have "lost_of ?s t = 0"
    by (rule take_load_lost [OF sh t g(1) empty(2)])
  then have lost: "bounty_lost ?s = bounty_lost s"
    using bounty_lost_change [OF t, of ?s] other(2) empty(5) by (simp add: frame_simps)
  have sh': "cargo_shapes ?s"
    using sh mats by (simp add: cargo_shapes_def take_load_def num_targets_def)
  have rem: "remaining_cargoes ?s ! a ! b
      = (if a = w \<and> b = g then remaining_cargoes s ! w ! g - n else remaining_cargoes s ! a ! b)"
    if "a < NUM_WAREHOUSES" for a b
    using mat_upd_nth [OF mats(1) w g(1) that] by (simp add: take_load_def)
  have st': "stock_ok ?s"
    using st n(3) g(2) by (auto simp: stock_ok_def rem)
  have "col_sum (remaining_cargoes ?s) k + col_sum (target_goal_bits ?s) k
      = col_sum (remaining_cargoes s) k + col_sum (target_goal_bits s) k" for k
    using col_sum_mat_upd [OF mats(1) w g(1)] col_sum_mat_upd [OF mats(2) t g(1)] empty(2) g(1)
    by (simp add: take_load_def)
  then have "balanced ?s"
    using bal by (simp add: balanced_def frame_simps)
  then show ?thesis
    using sh' st' ld' scl lost by (simp add: ledger_def cargo_inv_def take_load_setup total_cargoes_def frame_simps)
qed

lemma load_cargo_ledger:
  assumes "rng_ok R" and "cargo_inv s" and "t < num_targets s" and "target_goals s ! t < 0"
    and "w < NUM_WAREHOUSES" and "any_nonzero (remaining_cargoes s ! w)"
  shows "ledger (s, r, d) (load_cargo R t w s, r, d)"
    and "0 \<le> target_goals (load_cargo R t w s) ! t"
    and "target_goals (load_cargo R t w s) ! t \<noteq> int w"
    and "j \<noteq> t \<Longrightarrow> target_goals (load_cargo R t w s) ! j = target_goals s ! j"
    and "lost_of (load_cargo R t w s) t = 0"
proof -
  obtain g n h where L: "load_cargo R t w s = take_load t w g n h s" "g < NUM_WAREHOUSES" "g \<noteq> w"
    "0 < n" "n \<le> target_capacities s ! t" "n \<le> remaining_cargoes s ! w ! g"
    by (rule load_cargo_cases [OF assms(1-3,5,6)])
  have t: "t < length (target_goals s)"
    using assms(2,3) cargo_shapes_lengths(2) [of s] by (simp add: cargo_inv_def)
  show "ledger (s, r, d) (load_cargo R t w s, r, d)"
    unfolding L(1) using assms L by (intro take_load_ledger) auto
  show "0 \<le> target_goals (load_cargo R t w s) ! t" "target_goals (load_cargo R t w s) ! t \<noteq> int w"
    using t L by (simp_all add: take_load_goals)
  show "j \<noteq> t \<Longrightarrow> target_goals (load_cargo R t w s) ! j = target_goals s ! j"
    by (simp add: L(1) take_load_goals)
  show "lost_of (load_cargo R t w s) t = 0"
    unfolding L(1)
    by (rule take_load_lost [OF _ assms(3) L(2)])
      (use assms(2-4) load_ok_empty(2) in \<open>auto simp: cargo_inv_def\<close>)
qed

subsection \<open>The loop over the warehouses\<close>

text \<open>What an operation on target \<open>t\<close> leaves alone: the loads of the other targets.\<close>

definition keeps_others :: "nat \<Rightarrow> ('g, 'z) world_scheme \<Rightarrow> ('g, 'z) world_scheme \<Rightarrow> bool" where
  "keeps_others t s s' \<longleftrightarrow>
     (\<forall>j. j \<noteq> t \<longrightarrow> target_goals s' ! j = target_goals s ! j \<and> weight s' j = weight s j
        \<and> bounties s' ! j = bounties s ! j \<and> freights s' ! j = freights s ! j)"

lemma keeps_others_refl [simp]: "keeps_others t s s"
  by (simp add: keeps_others_def)

lemma keeps_others_trans: "keeps_others t s s' \<Longrightarrow> keeps_others t s' u \<Longrightarrow> keeps_others t s u"
  by (simp add: keeps_others_def)

lemma keeps_others_ops:
  "keeps_others t s (clear_load t s)" "keeps_others t s (settle t g s)"
  "keeps_others t s (take_load t w g n h s)" "keeps_others t s (load_cargo R t w s)"
  by (simp_all add: keeps_others_def clear_load_def settle_def deliver_def take_load_def load_cargo_def
      weight_def mat_upd_def Let_def split: prod.split)

lemma visit_skip:
  assumes "0 \<le> goal" and "nat goal \<notin> set ws"
  shows "visit_warehouses R t goal ws acc = acc"
  using assms by (induction ws arbitrary: acc) (auto split: prod.splits)

lemma visit_goal:
  assumes "g \<in> set ws" and "distinct ws"
  shows "visit_warehouses R t (int g) ws (s, r, d) =
    (let s1 = settle t g s; r1 = r + delivery_reward t s; d1 = d + delivery_delayed_reward t g s
     in if any_nonzero (remaining_cargoes s ! g) then (load_cargo R t g s1, r1, d1) else (s1, r1, d1))"
  using assms
proof (induction ws)
  case Nil
  then show ?case by simp
next
  case (Cons w ws)
  show ?case
  proof (cases "w = g")
    case True
    then show ?thesis
      using Cons.prems by (simp add: settle_def Let_def frame_simps visit_skip)
  next
    case False
    then show ?thesis using Cons by simp
  qed
qed

lemma visit_unloaded:
  assumes "rng_ok R" and "goal < 0" and "cargo_inv s" and "t < num_targets s"
    and "target_goals s ! t < 0" and "set ws \<subseteq> {..<NUM_WAREHOUSES}"
  shows "case visit_warehouses R t goal ws (s, r, d) of (s', r', d') \<Rightarrow>
    ledger (s, r, d) (s', r', d') \<and> keeps_others t s s'
    \<and> num_delivered_cargoes s' = num_delivered_cargoes s \<and> r' = r \<and> d' = d \<and> lost_of s' t = 0"
  using assms(3-)
proof (induction ws arbitrary: s)
  case Nil
  then show ?case using load_ok_empty(5) by (auto simp: ledger_refl cargo_inv_def)
next
  case (Cons w ws)
  let ?s = "clear_load t s"
  have L: "ledger (s, r, d) (?s, r, d)"
    using clear_unloaded_ledger Cons.prems by blast
  have sh: "cargo_shapes s" "\<forall>j < num_targets s. load_ok s j"
    using Cons.prems by (auto simp: cargo_inv_def)
  have P: "cargo_inv ?s" "t < num_targets ?s" "target_goals ?s ! t < 0" "w < NUM_WAREHOUSES"
    using ledger_inv [OF L] Cons.prems clear_load_loads(3) [OF sh(1) _ sh(2)]
    by (auto simp: frame_simps)
  show ?case
  proof (cases "any_nonzero (remaining_cargoes s ! w)")
    case True
    then have nz: "any_nonzero (remaining_cargoes ?s ! w)" by (simp add: frame_simps)
    obtain g n h where "load_cargo R t w ?s = take_load t w g n h ?s"
      by (rule load_cargo_cases [OF assms(1) P(1,2,4) nz])
    then have "num_delivered_cargoes (load_cargo R t w ?s) = num_delivered_cargoes s"
      by (simp add: frame_simps)
    moreover have "ledger (s, r, d) (load_cargo R t w ?s, r, d)"
      by (rule ledger_trans [OF L load_cargo_ledger(1) [OF assms(1) P nz]])
    ultimately show ?thesis
      using assms(2) True keeps_others_trans [OF keeps_others_ops(1) keeps_others_ops(4)]
        load_cargo_ledger(5) [OF assms(1) P nz]
      by (simp add: Let_def frame_simps)
  next
    case False
    have "case visit_warehouses R t goal ws (?s, r, d) of (s', r', d') \<Rightarrow>
      ledger (?s, r, d) (s', r', d') \<and> keeps_others t ?s s'
      \<and> num_delivered_cargoes s' = num_delivered_cargoes ?s \<and> r' = r \<and> d' = d \<and> lost_of s' t = 0"
      using Cons.IH [OF P(1-3)] Cons.prems(4) by simp
    then show ?thesis
      using assms(2) False ledger_trans [OF L] keeps_others_trans [OF keeps_others_ops(1)]
      by (auto simp: Let_def frame_simps split: prod.splits)
  qed
qed

text \<open>A target has arrived when it carries a load and stands inside the warehouse of its goal.\<close>

definition arrived :: "('g, 'z) world_scheme \<Rightarrow> nat \<Rightarrow> bool" where
  "arrived s t \<longleftrightarrow> 0 \<le> target_goals s ! t
     \<and> nat (target_goals s ! t) \<in> set (nearby_warehouses (location (targets s ! t)))"

lemma arrived_nonneg: "arrived s t \<Longrightarrow> 0 \<le> target_goals s ! t"
  by (simp add: arrived_def)

lemma length_WAREHOUSES: "length WAREHOUSES = NUM_WAREHOUSES"
  by (simp add: WAREHOUSES_def NUM_WAREHOUSES_def)

lemma set_nearby_warehouses:
  "w \<in> set (nearby_warehouses p) \<longleftrightarrow>
     w < NUM_WAREHOUSES \<and> vnorm_inf (vsub p (WAREHOUSES ! w)) \<le> WAREHOUSE_RADIUS"
  using length_WAREHOUSES by (auto simp: nearby_warehouses_def set_flatnonzero)

lemma distinct_nearby_warehouses [simp]: "distinct (nearby_warehouses p)"
  by (simp add: nearby_warehouses_def)

subsection \<open>One target\<close>

lemma distances_ledger:
  "cargo_inv s \<Longrightarrow> ledger (s, r, d) (s\<lparr>target_warehouse_distances := x\<rparr>, r, d)"
  by (simp add: ledger_def same_setup_def cargo_inv_def cargo_shapes_def scales_ok_def stock_ok_def
      balanced_def load_ok_def Let_def bounty_lost_def lost_of_def weight_def total_cargoes_def
      num_targets_def)

lemma see_empty_frame [frame_simps]:
  "num_targets (see_empty_warehouses t ws s) = num_targets s"
  "target_goals (see_empty_warehouses t ws s) = target_goals s"
  "weight (see_empty_warehouses t ws s) j = weight s j"
  "lost_of (see_empty_warehouses t ws s) j = lost_of s j"
  "num_delivered_cargoes (see_empty_warehouses t ws s) = num_delivered_cargoes s"
  "keeps_others t s (see_empty_warehouses t ws s)"
  by (simp_all add: see_empty_warehouses_def num_targets_def lost_of_def weight_def keeps_others_def)

lemma see_empty_load:
  "j < num_targets s \<Longrightarrow> load_ok (see_empty_warehouses t ws s) j = load_ok s j"
  by (simp add: see_empty_warehouses_def load_ok_def num_targets_def nth_upd)

lemma length_fold_bits: "length (fold (\<lambda>w bits. bits[w := f w]) ws bits) = length bits"
  by (induction ws arbitrary: bits) simp_all

lemma see_empty_ledger:
  assumes "cargo_inv s"
  shows "ledger (s, r, d) (see_empty_warehouses t ws s, r, d)"
proof -
  let ?s = "see_empty_warehouses t ws s"
  have "same_setup s ?s"
    by (auto simp: same_setup_def see_empty_warehouses_def num_targets_def nth_upd length_fold_bits)
  moreover have "cargo_shapes ?s = cargo_shapes s" "scales_ok ?s = scales_ok s"
    "stock_ok ?s = stock_ok s" "balanced ?s = balanced s" "total_cargoes ?s = total_cargoes s"
    by (simp_all add: see_empty_warehouses_def cargo_shapes_def scales_ok_def stock_ok_def
        balanced_def total_cargoes_def num_targets_def)
  moreover have "bounty_lost ?s = bounty_lost s"
    by (simp add: bounty_lost_def frame_simps)
  ultimately show ?thesis
    using assms by (simp add: ledger_def cargo_inv_def see_empty_load frame_simps)
qed

text \<open>What a step of the loop over the targets does to the load of its target.\<close>

definition target_step :: "nat \<Rightarrow> ('g, 'z) tally \<Rightarrow> ('g, 'z) tally \<Rightarrow> bool" where
  "target_step t a b \<longleftrightarrow>
     (case a of (s, r, d) \<Rightarrow> case b of (s', r', d') \<Rightarrow>
        keeps_others t s s'
      \<and> num_delivered_cargoes s' = num_delivered_cargoes s + (if arrived s t then weight s t else 0)
      \<and> r' = r + (if arrived s t then delivery_reward t s else 0)
      \<and> d' = d + (if arrived s t then delivery_reward t s - lost_of s t else 0)
      \<and> (arrived s t \<longrightarrow> target_goals s' ! t \<noteq> target_goals s ! t)
      \<and> (arrived s t \<or> target_goals s ! t < 0 \<longrightarrow> lost_of s' t = 0)
      \<and> (0 \<le> target_goals s ! t \<and> \<not> arrived s t \<longrightarrow>
           target_goals s' ! t = target_goals s ! t \<and> weight s' t = weight s t))"

lemma visit_step:
  assumes R: "rng_ok R" and inv: "cargo_inv s" and t: "t < num_targets s"
    and ws: "ws = nearby_warehouses (location (targets s ! t))"
  shows "case visit_warehouses R t (target_goals s ! t) ws (s, r, d) of (s', r', d') \<Rightarrow>
    ledger (s, r, d) (s', r', d') \<and> target_step t (s, r, d) (s', r', d')"
proof -
  have ld: "load_ok s t" and sh: "cargo_shapes s" "\<forall>j < num_targets s. load_ok s j"
    using inv t by (auto simp: cargo_inv_def)
  have ws': "distinct ws" "set ws \<subseteq> {..<NUM_WAREHOUSES}"
    by (auto simp: ws set_nearby_warehouses)
  consider (unloaded) "target_goals s ! t < 0"
    | (away) "0 \<le> target_goals s ! t" "nat (target_goals s ! t) \<notin> set ws"
    | (there) "0 \<le> target_goals s ! t" "nat (target_goals s ! t) \<in> set ws" by linarith
  then show ?thesis
  proof cases
    case unloaded
    then have "\<not> arrived s t" by (simp add: arrived_def)
    then show ?thesis
      using visit_unloaded [OF R unloaded inv t unloaded ws'(2), of r d] unloaded
      by (auto simp: target_step_def split: prod.splits)
  next
    case away
    then show ?thesis
      using inv by (simp add: visit_skip ledger_refl target_step_def arrived_def ws)
  next
    case there
    then obtain g where g: "target_goals s ! t = int g" "g \<in> set ws"
      by (metis nat_eq_iff)
    have arr: "arrived s t" using there by (simp add: arrived_def ws)
    have gN: "g < NUM_WAREHOUSES" using g(2) ws'(2) by blast
    let ?s = "settle t g s"
    have L: "ledger (s, r, d) (?s, r + delivery_reward t s, d + delivery_delayed_reward t g s)"
      by (rule settle_ledger [OF inv t g(1)])
    have nd: "num_delivered_cargoes ?s = num_delivered_cargoes s + weight s t"
      "delivery_delayed_reward t g s = delivery_reward t s - lost_of s t"
      by (rule load_ok_loaded [OF ld there(1)],
          use g(1) in \<open>simp add: settle_def frame_simps deliver_def Let_def
            delivery_delayed_reward_def lost_of_def\<close>)+
    have goal: "target_goals ?s ! t = - 1"
      unfolding settle_def by (rule clear_load_loads(3)) (use sh t in \<open>auto simp: deliver_shapes frame_simps\<close>)
    have lost: "lost_of ?s t = 0"
      unfolding settle_def
      by (subst clear_load_loads(2)) (use sh t in \<open>auto simp: deliver_shapes frame_simps\<close>)
    have P: "cargo_inv ?s" "t < num_targets ?s" "target_goals ?s ! t < 0"
      using ledger_inv [OF L] t goal by (simp_all add: settle_def frame_simps)
    show ?thesis
    proof (cases "any_nonzero (remaining_cargoes s ! g)")
      case False
      then show ?thesis
        using L g ws'(1) nd goal lost keeps_others_ops(2)
        by (simp add: visit_goal Let_def target_step_def arr)
    next
      case True
      then have nz: "any_nonzero (remaining_cargoes ?s ! g)" by (simp add: settle_def frame_simps)
      obtain g' n h where "load_cargo R t g ?s = take_load t g g' n h ?s"
        by (rule load_cargo_cases [OF R P(1,2) gN nz])
      then have "num_delivered_cargoes (load_cargo R t g ?s) = num_delivered_cargoes s + weight s t"
        by (simp add: frame_simps nd(1))
      then show ?thesis
        using True g ws'(1) ledger_trans [OF L load_cargo_ledger(1) [OF R P gN nz]]
          load_cargo_ledger(3,5) [OF R P gN nz] nd(2) keeps_others_trans [OF keeps_others_ops(2) keeps_others_ops(4)]
        by (simp add: visit_goal Let_def target_step_def arr)
    qed
  qed
qed

lemma assign_target_step:
  assumes R: "rng_ok R" and inv: "cargo_inv s" and t: "t < num_targets s"
  shows "case assign_target R t (s, r, d) of (s', r', d') \<Rightarrow>
    ledger (s, r, d) (s', r', d') \<and> target_step t (s, r, d) (s', r', d')"
proof -
  let ?ws = "nearby_warehouses (location (targets s ! t))"
  define s1 where "s1 = s\<lparr>target_warehouse_distances :=
    (target_warehouse_distances s)[t := warehouse_distances (location (targets s ! t))]\<rparr>"
  have L1: "ledger (s, r, d) (s1, r, d)"
    unfolding s1_def by (rule distances_ledger [OF inv])
  have eq: "target_goals s1 = target_goals s" "num_targets s1 = num_targets s"
    "targets s1 = targets s" "weight s1 = weight s" "num_delivered_cargoes s1 = num_delivered_cargoes s"
    "bounties s1 = bounties s" "freights s1 = freights s" "lost_of s1 = lost_of s"
    "delivery_reward t s1 = delivery_reward t s"
    by (simp_all add: s1_def num_targets_def weight_def lost_of_def delivery_reward_def fun_eq_iff)
  obtain s2 r2 d2 where v: "visit_warehouses R t (target_goals s ! t) ?ws (s1, r, d) = (s2, r2, d2)"
    by (cases "visit_warehouses R t (target_goals s ! t) ?ws (s1, r, d)")
  have V: "ledger (s1, r, d) (s2, r2, d2)" "target_step t (s1, r, d) (s2, r2, d2)"
    using visit_step [OF R ledger_inv [OF L1], of t ?ws r d] t by (simp_all add: eq v)
  have "assign_target R t (s, r, d) = (see_empty_warehouses t ?ws s2, r2, d2)"
    by (simp add: assign_target_def Let_def v [unfolded s1_def])
  moreover have "ledger (s, r, d) (see_empty_warehouses t ?ws s2, r2, d2)"
    by (intro ledger_trans [OF L1] ledger_trans [OF V(1)] see_empty_ledger ledger_inv [OF V(1)])
  moreover have "target_step t (s, r, d) (see_empty_warehouses t ?ws s2, r2, d2)"
    using V(2) keeps_others_trans [OF _ see_empty_frame(6), of t s s2]
    by (auto simp: target_step_def keeps_others_def frame_simps eq arrived_def cong: if_cong)
  ultimately show ?thesis by simp
qed

subsection \<open>The whole method\<close>

lemma sum_list_upt: "sum_list (map f [0..<n]) = (\<Sum>j < n. f j)"
  by (simp add: interv_sum_list_conv_sum_set_nat atLeast0LessThan)

lemma pay_bounties_ledger:
  assumes inv: "cargo_inv s"
  shows "ledger (s, 0, 0) (pay_bounties s, - tracked_with_bounty s, 0)"
proof -
  let ?s = "pay_bounties s"
  have b: "0 \<le> bounties s ! j" if "j < num_targets s" for j
    using inv that by (auto simp: cargo_inv_def load_ok_def Let_def split: if_splits)
  have nth: "bounties ?s ! j = bounties s ! j - bool_int (tracked_bits s ! j \<and> bounties s ! j > 0)"
    if "j < num_targets s" for j
    using b [OF that] that by (auto simp: pay_bounties_def bool_int_def)
  have frame: "num_targets ?s = num_targets s" "same_setup s ?s" "stock_ok ?s = stock_ok s"
    "scales_ok ?s = scales_ok s" "balanced ?s = balanced s" "total_cargoes ?s = total_cargoes s"
    "num_delivered_cargoes ?s = num_delivered_cargoes s" "cargo_shapes ?s = cargo_shapes s"
    using inv by (auto simp: pay_bounties_def num_targets_def same_setup_def stock_ok_def scales_ok_def
        balanced_def total_cargoes_def cargo_shapes_def cargo_inv_def)
  have "load_ok ?s j" if j: "j < num_targets s" for j
  proof -
    have "load_ok s j" using inv j by (simp add: cargo_inv_def)
    moreover have "0 \<le> bounties ?s ! j" "bounties ?s ! j \<le> bounties s ! j"
      using j b [OF j] by (simp_all add: nth bool_int_def)
    moreover have "target_goals ?s = target_goals s" "target_goal_bits ?s = target_goal_bits s"
      "targets ?s = targets s" "freights ?s = freights s" "freight_scale ?s = freight_scale s"
      "bounty_scale ?s = bounty_scale s" "target_capacities ?s = target_capacities s"
      by (simp_all add: pay_bounties_def)
    ultimately show ?thesis by (simp add: load_ok_def Let_def split: if_splits)
  qed
  then have "cargo_inv ?s" using inv frame by (simp add: cargo_inv_def)
  moreover have "bounty_lost ?s = bounty_lost s + tracked_with_bounty s"
  proof -
    have "lost_of ?s j = lost_of s j + bool_int (tracked_bits s ! j \<and> bounties s ! j > 0)"
      if "j < num_targets s" for j
      using nth [OF that] by (simp add: lost_of_def weight_def) (simp add: pay_bounties_def)
    then have "bounty_lost ?s
        = (\<Sum>j < num_targets s. lost_of s j + bool_int (tracked_bits s ! j \<and> bounties s ! j > 0))"
      unfolding bounty_lost_def frame(1) by (intro sum.cong) auto
    then show ?thesis
      by (simp add: sum.distrib bounty_lost_def tracked_with_bounty_def count_true_def sum_list_upt comp_def)
  qed
  ultimately show ?thesis using frame by (simp add: ledger_def)
qed

text \<open>After the first \<open>k\<close> targets.\<close>

definition targets_done :: "nat \<Rightarrow> ('g, 'z) tally \<Rightarrow> ('g, 'z) tally \<Rightarrow> bool" where
  "targets_done k a b \<longleftrightarrow>
     (case a of (s, r, d) \<Rightarrow> case b of (s', r', d') \<Rightarrow>
        num_delivered_cargoes s' = num_delivered_cargoes s + (\<Sum>j < k. if arrived s j then weight s j else 0)
      \<and> r' = r + (\<Sum>j < k. if arrived s j then delivery_reward j s else 0)
      \<and> d' = d + (\<Sum>j < k. if arrived s j then delivery_reward j s - lost_of s j else 0)
      \<and> (\<forall>j < k. (arrived s j \<longrightarrow> target_goals s' ! j \<noteq> target_goals s ! j)
               \<and> (arrived s j \<or> target_goals s ! j < 0 \<longrightarrow> lost_of s' j = 0)
               \<and> (0 \<le> target_goals s ! j \<and> \<not> arrived s j \<longrightarrow>
                    target_goals s' ! j = target_goals s ! j \<and> weight s' j = weight s j))
      \<and> (\<forall>j \<ge> k. target_goals s' ! j = target_goals s ! j \<and> weight s' j = weight s j
               \<and> lost_of s' j = lost_of s j \<and> delivery_reward j s' = delivery_reward j s))"

lemma keeps_others_lost:
  assumes "keeps_others t s s'" and "same_setup s s'" and "j \<noteq> t"
  shows "lost_of s' j = lost_of s j" "delivery_reward j s' = delivery_reward j s"
  using assms by (simp_all add: keeps_others_def lost_of_def delivery_reward_def same_setup_def)

lemma targets_done_Suc:
  assumes "targets_done k (s, r0, d0) (s', r, d)" and "same_setup s s'" and "same_setup s' u"
    and "k < num_targets s" and "target_step k (s', r, d) (u, r', d')"
  shows "targets_done (Suc k) (s, r0, d0) (u, r', d')"
proof -
  have eq: "arrived s' k = arrived s k" "weight s' k = weight s k" "target_goals s' ! k = target_goals s ! k"
    "lost_of s' k = lost_of s k" "delivery_reward k s' = delivery_reward k s"
    using assms(1,4) same_body_eqs(1) [OF same_setup_body [OF assms(2,4)]]
    by (auto simp: arrived_def targets_done_def)
  have K: "keeps_others k s' u" using assms(5) by (simp add: target_step_def)
  show ?thesis
    using assms(1,5) K keeps_others_lost [OF K assms(3)]
    by (auto simp: targets_done_def target_step_def keeps_others_def eq less_Suc_eq)
qed

lemma fold_targets:
  assumes R: "rng_ok R" and inv: "cargo_inv s" and k: "k \<le> num_targets s"
  shows "case fold (assign_target R) [0..<k] (s, r, d) of (s', r', d') \<Rightarrow>
    ledger (s, r, d) (s', r', d') \<and> targets_done k (s, r, d) (s', r', d')"
  using k
proof (induction k)
  case 0
  then show ?case by (simp add: inv ledger_refl targets_done_def)
next
  case (Suc k)
  obtain s' r' d' where f: "fold (assign_target R) [0..<k] (s, r, d) = (s', r', d')"
    by (cases "fold (assign_target R) [0..<k] (s, r, d)")
  have L: "ledger (s, r, d) (s', r', d')" "targets_done k (s, r, d) (s', r', d')"
    using Suc by (simp_all add: f)
  have S: "same_setup s s'" using L(1) by (simp add: ledger_def)
  obtain u r2 d2 where a: "assign_target R k (s', r', d') = (u, r2, d2)"
    by (cases "assign_target R k (s', r', d')")
  have "k < num_targets s'" using S Suc.prems by (simp add: same_setup_def)
  from assign_target_step [OF R ledger_inv [OF L(1)] this, of r' d']
  have A: "ledger (s', r', d') (u, r2, d2)" "target_step k (s', r', d') (u, r2, d2)" by (simp_all add: a)
  have S': "same_setup s' u" using A(1) by (simp add: ledger_def)
  show ?case
    using ledger_trans [OF L(1) A(1)] targets_done_Suc [OF L(2) S S' _ A(2)] Suc.prems by (simp add: f a)
qed

lemma dones_ledger:
  "cargo_inv s \<Longrightarrow> ledger (s, r, d) (s\<lparr>target_dones := x\<rparr>, r, d)"
  by (simp add: ledger_def same_setup_def cargo_inv_def cargo_shapes_def scales_ok_def stock_ok_def
      balanced_def load_ok_def Let_def bounty_lost_def lost_of_def weight_def total_cargoes_def
      num_targets_def)

text \<open>
  The rewards of a step in closed form: what tracking costs now, and for each target that has
  arrived its freight and what the bounty is after this step's payment. The delayed reward also
  charges the bounty the load has lost since it was taken.
\<close>

definition bounty_after :: "('g, 'z) world_scheme \<Rightarrow> nat \<Rightarrow> int" where
  "bounty_after s t = max (bounties s ! t - bool_int (tracked_bits s ! t)) 0"

definition sum_arrived :: "('g, 'z) world_scheme \<Rightarrow> (nat \<Rightarrow> int) \<Rightarrow> int" where
  "sum_arrived s f = (\<Sum>t < num_targets s. if arrived s t then f t else 0)"

lemma assign_goals_step:
  assumes R: "rng_ok R" and inv: "cargo_inv s" and step: "assign_goals R s = (s', r, d)"
  shows "ledger (s, 0, 0) (s', r, d)"
    and "\<And>t. t < num_targets s \<Longrightarrow> target_dones s' ! t = arrived s t"
    and "length (target_dones s') = num_targets s"
    and "num_delivered_cargoes s' = num_delivered_cargoes s + sum_arrived s (weight s)"
    and "r = sum_arrived s (\<lambda>t. freights s ! t + bounty_after s t) - tracked_with_bounty s"
    and "d = sum_arrived s (\<lambda>t. freights s ! t + 2 * bounty_after s t - weight s t * bounty_scale s)"
    and "\<And>t. t < num_targets s \<Longrightarrow> 0 \<le> target_goals s ! t \<Longrightarrow> \<not> arrived s t \<Longrightarrow>
           target_goals s' ! t = target_goals s ! t \<and> weight s' t = weight s t"
    and "\<And>t. t < num_targets s \<Longrightarrow> target_goals s ! t < 0 \<Longrightarrow> lost_of s' t = 0"
proof -
  let ?p = "pay_bounties s"
  have P: "ledger (s, 0, 0) (?p, - tracked_with_bounty s, 0)"
    by (rule pay_bounties_ledger [OF inv])
  have eq: "num_targets ?p = num_targets s" "target_goals ?p = target_goals s" "arrived ?p = arrived s"
    "weight ?p = weight s" "num_delivered_cargoes ?p = num_delivered_cargoes s"
    "bounty_scale ?p = bounty_scale s"
    by (simp_all add: pay_bounties_def num_targets_def arrived_def weight_def fun_eq_iff)
  have rew: "delivery_reward j ?p = freights s ! j + bounty_after s j"
    "lost_of ?p j = weight s j * bounty_scale s - bounty_after s j" if "j < num_targets s" for j
    using that by (simp_all add: delivery_reward_def lost_of_def eq)
      (simp_all add: pay_bounties_def bounty_after_def)
  obtain u r1 d1 where f: "fold (assign_target R) [0..<num_targets s]
      (?p, - tracked_with_bounty s, 0) = (u, r1, d1)"
    by (cases "fold (assign_target R) [0..<num_targets s] (?p, - tracked_with_bounty s, 0)")
  have F: "ledger (?p, - tracked_with_bounty s, 0) (u, r1, d1)"
    "targets_done (num_targets s) (?p, - tracked_with_bounty s, 0) (u, r1, d1)"
    using fold_targets [OF R ledger_inv [OF P], of "num_targets s" "- tracked_with_bounty s" 0]
    by (simp_all add: eq f)
  have n: "num_targets u = num_targets s"
    using F(1) by (simp add: ledger_def same_setup_def eq)
  have s': "s' = u\<lparr>target_dones := map (\<lambda>t. target_goals u ! t \<noteq> target_goals s ! t
      \<and> target_goals s ! t \<ge> 0) [0..<num_targets u]\<rparr>" "r = r1" "d = d1"
    using step by (simp_all add: assign_goals_def f Let_def)
  have sel: "target_goals s' = target_goals u" "weight s' = weight u" "lost_of s' = lost_of u"
    by (simp_all add: s' weight_def lost_of_def fun_eq_iff)
  show "ledger (s, 0, 0) (s', r, d)"
    unfolding s' by (rule ledger_trans [OF P ledger_trans [OF F(1) dones_ledger [OF ledger_inv [OF F(1)]]]])
  show "target_dones s' ! t = arrived s t" if "t < num_targets s" for t
  proof -
    have "arrived s t \<longrightarrow> target_goals u ! t \<noteq> target_goals s ! t"
      "0 \<le> target_goals s ! t \<and> \<not> arrived s t \<longrightarrow> target_goals u ! t = target_goals s ! t"
      using that F(2) by (simp_all add: targets_done_def eq)
    then show ?thesis using that by (auto simp: s' n dest: arrived_nonneg)
  qed
  show "length (target_dones s') = num_targets s" by (simp add: s' n)
  show "num_delivered_cargoes s' = num_delivered_cargoes s + sum_arrived s (weight s)"
    using F(2) by (simp add: s' targets_done_def sum_arrived_def eq cong: if_cong)
  have "(\<Sum>j < num_targets s. if arrived s j then delivery_reward j ?p else 0)
      = sum_arrived s (\<lambda>t. freights s ! t + bounty_after s t)"
    unfolding sum_arrived_def by (intro sum.cong) (simp_all add: rew)
  then show "r = sum_arrived s (\<lambda>t. freights s ! t + bounty_after s t) - tracked_with_bounty s"
    using F(2) by (simp add: s' targets_done_def eq)
  have "(\<Sum>j < num_targets s. if arrived s j then delivery_reward j ?p - lost_of ?p j else 0)
      = sum_arrived s (\<lambda>t. freights s ! t + 2 * bounty_after s t - weight s t * bounty_scale s)"
    unfolding sum_arrived_def by (intro sum.cong) (simp_all add: rew)
  then show "d = sum_arrived s (\<lambda>t. freights s ! t + 2 * bounty_after s t - weight s t * bounty_scale s)"
    using F(2) by (simp add: s' targets_done_def eq)
  show "target_goals s' ! t = target_goals s ! t \<and> weight s' t = weight s t"
    if "t < num_targets s" "0 \<le> target_goals s ! t" "\<not> arrived s t" for t
    using that F(2) by (simp add: sel targets_done_def eq)
  show "lost_of s' t = 0" if "t < num_targets s" "target_goals s ! t < 0" for t
    using that F(2) by (simp add: sel targets_done_def eq)
qed

end
