(* ===== verification/Stocking.thy ===== *)
theory Stocking
  imports Transport
begin

text \<open>
  The cargoes of an episode, drawn and handed out by \<open>reset\<close>: the loop that draws until every
  warehouse has something to send, the first call of \<open>_assign_goals\<close> and the first loads of the
  targets. The loop need not end (a generator could always draw the same warehouse), so
  \<open>draw_until_all\<close> is a partial function; it returns once every warehouse has been drawn as a
  sender, and what it returns is some number of whole batches.
\<close>

subsection \<open>Drawing\<close>

definition stocked :: "('g, 'z) world_scheme \<Rightarrow> bool" where
  "stocked s \<longleftrightarrow> is_matrix NUM_WAREHOUSES NUM_WAREHOUSES (remaining_cargoes s) \<and> stock_ok s"

definition stock_total :: "('g, 'z) world_scheme \<Rightarrow> int" where
  "stock_total s = (\<Sum>g < NUM_WAREHOUSES. col_sum (remaining_cargoes s) g)"

text \<open>Everything but the stock, the awaiting counts and the generator.\<close>

definition rest_of :: "('g, 'z) world_scheme \<Rightarrow> ('g, 'z) world_scheme" where
  "rest_of s = s\<lparr>remaining_cargoes := [], awaiting_cargo_counts := [], np_random := undefined\<rparr>"

lemma draw_pair:
  assumes "rng_ok R" and "choice_distinct R g NUM_WAREHOUSES 2 = (pair, h)"
  shows "pair ! 0 < NUM_WAREHOUSES" "pair ! 1 < NUM_WAREHOUSES" "pair ! 0 \<noteq> pair ! 1"
proof -
  have p: "length pair = 2" "distinct pair" "set pair \<subseteq> {..<NUM_WAREHOUSES}"
    using rng_distinct [OF assms(1), of 2 NUM_WAREHOUSES g] assms(2) by (auto simp: NUM_WAREHOUSES_def)
  then obtain a b where "pair = [a, b]" by (auto simp: numeral_2_eq_2 length_Suc_conv)
  then show "pair ! 0 < NUM_WAREHOUSES" "pair ! 1 < NUM_WAREHOUSES" "pair ! 0 \<noteq> pair ! 1"
    using p by auto
qed

lemma draw_cargo_props:
  assumes R: "rng_ok R" and s: "stocked s"
  shows "stocked (draw_cargo R s)" "stock_total (draw_cargo R s) = stock_total s + 1"
    "rest_of (draw_cargo R s) = rest_of s"
    "w < NUM_WAREHOUSES \<Longrightarrow> any_nonzero (remaining_cargoes s ! w)
      \<Longrightarrow> any_nonzero (remaining_cargoes (draw_cargo R s) ! w)"
    "any_nonzero (remaining_cargoes (draw_cargo R s) !
        (fst (choice_distinct R (np_random s) NUM_WAREHOUSES 2) ! 0))"
proof -
  obtain pair h where c: "choice_distinct R (np_random s) NUM_WAREHOUSES 2 = (pair, h)"
    by fastforce
  define a b where ab: "a = pair ! 0" "b = pair ! 1"
  let ?s = "draw_cargo R s"
  have p: "a < NUM_WAREHOUSES" "b < NUM_WAREHOUSES" "a \<noteq> b"
    using draw_pair [OF R c] by (simp_all add: ab)
  have m: "is_matrix NUM_WAREHOUSES NUM_WAREHOUSES (remaining_cargoes s)" and st: "stock_ok s"
    using s by (auto simp: stocked_def)
  have rem: "remaining_cargoes ?s = mat_upd (remaining_cargoes s) a b (remaining_cargoes s ! a ! b + 1)"
    by (simp add: draw_cargo_def c Let_def ab)
  have nth: "remaining_cargoes ?s ! i ! j
      = (if i = a \<and> j = b then remaining_cargoes s ! a ! b + 1 else remaining_cargoes s ! i ! j)"
    if "i < NUM_WAREHOUSES" for i j
    unfolding rem by (rule mat_upd_nth [OF m p(1,2) that])
  have row: "length (remaining_cargoes ?s ! w) = NUM_WAREHOUSES" "length (remaining_cargoes s ! w) = NUM_WAREHOUSES"
    if "w < NUM_WAREHOUSES" for w
    using is_matrix_upd [OF m] m that by (auto simp: rem is_matrix_def)
  show st': "stocked ?s"
    using st p m by (auto simp: stocked_def stock_ok_def nth) (simp add: rem)
  have "col_sum (remaining_cargoes ?s) k = col_sum (remaining_cargoes s) k + (if k = b then 1 else 0)" for k
    using col_sum_mat_upd [OF m p(1,2)] by (simp add: rem)
  then show "stock_total ?s = stock_total s + 1"
    using p(2) by (simp add: stock_total_def sum.distrib)
  show "rest_of ?s = rest_of s"
    by (simp add: rest_of_def draw_cargo_def c Let_def)
  show "any_nonzero (remaining_cargoes ?s ! w)"
    if w: "w < NUM_WAREHOUSES" "any_nonzero (remaining_cargoes s ! w)"
  proof -
    obtain i where "i < NUM_WAREHOUSES" "remaining_cargoes s ! w ! i \<noteq> 0"
      using w by (auto simp: any_nonzero_iff row)
    then have "remaining_cargoes ?s ! w ! i \<noteq> 0"
      using st w(1) by (auto simp: nth stock_ok_def)
        (metis add_nonneg_eq_0_iff order_refl zero_le_one zero_neq_one)
    then show ?thesis using \<open>i < NUM_WAREHOUSES\<close> w(1) by (auto simp: any_nonzero_iff row)
  qed
  have "remaining_cargoes ?s ! a ! b \<noteq> 0"
    using st p by (simp add: nth stock_ok_def)
      (metis add_nonneg_eq_0_iff order_refl zero_le_one zero_neq_one)
  then show "any_nonzero (remaining_cargoes ?s ! (fst (choice_distinct R (np_random s) NUM_WAREHOUSES 2) ! 0))"
    using p by (auto simp: c ab [symmetric] any_nonzero_iff row)
qed

lemma draw_batch_props:
  assumes "rng_ok R" and "stocked s"
  shows "stocked (draw_batch R n s)" "stock_total (draw_batch R n s) = stock_total s + int n"
    "rest_of (draw_batch R n s) = rest_of s"
  using assms by (induction n) (auto simp: draw_batch_def draw_cargo_props)

lemma count_awaiting_frame [frame_simps]:
  "stocked (count_awaiting s) = stocked s" "stock_total (count_awaiting s) = stock_total s"
  "rest_of (count_awaiting s) = rest_of s" "remaining_cargoes (count_awaiting s) = remaining_cargoes s"
  "np_random (count_awaiting s) = np_random s"
  by (simp_all add: count_awaiting_def stocked_def stock_ok_def stock_total_def rest_of_def)

lemma draw_until_all_result:
  assumes "draw_until_all R n s = Some s'"
  shows "\<exists>m. s' = ((\<lambda>s. count_awaiting (draw_batch R n s)) ^^ m) s
           \<and> list_all any_nonzero (remaining_cargoes s')"
proof (rule draw_until_all.raw_induct [OF _ assms])
  fix loop :: "'a rng \<Rightarrow> nat \<Rightarrow> ('a, 'b) world_scheme \<Rightarrow> ('a, 'b) world_scheme option"
    and R :: "'a rng" and n s s'
  let ?f = "\<lambda>s. count_awaiting (draw_batch R n s)"
  assume IH: "\<And>R n s s'. loop R n s = Some s' \<Longrightarrow>
      \<exists>m. s' = ((\<lambda>s. count_awaiting (draw_batch R n s)) ^^ m) s
        \<and> list_all any_nonzero (remaining_cargoes s')"
    and run: "(if list_all any_nonzero (remaining_cargoes s) then Some s else loop R n (?f s)) = Some s'"
  show "\<exists>m. s' = (?f ^^ m) s \<and> list_all any_nonzero (remaining_cargoes s')"
  proof (cases "list_all any_nonzero (remaining_cargoes s)")
    case True
    then show ?thesis using run by (intro exI [of _ 0]) simp
  next
    case False
    then obtain m where "s' = (?f ^^ m) (?f s)" "list_all any_nonzero (remaining_cargoes s')"
      using IH run by fastforce
    then show ?thesis by (intro exI [of _ "Suc m"]) (simp only: funpow_Suc_right comp_apply)
  qed
qed

text \<open>
  When the loop returns. The draws are determined by the generator: \<open>draw_sender R g i\<close> is the sender of
  the draw number \<open>i\<close> from the state \<open>g\<close>.
\<close>

definition gen_after :: "'g rng \<Rightarrow> 'g \<Rightarrow> nat \<Rightarrow> 'g" where
  "gen_after R g i = ((\<lambda>g. snd (choice_distinct R g NUM_WAREHOUSES 2)) ^^ i) g"

definition draw_sender :: "'g rng \<Rightarrow> 'g \<Rightarrow> nat \<Rightarrow> nat" where
  "draw_sender R g i = fst (choice_distinct R (gen_after R g i) NUM_WAREHOUSES 2) ! 0"

definition drawn :: "'g rng \<Rightarrow> 'g \<Rightarrow> nat \<Rightarrow> ('g, 'z) world_scheme \<Rightarrow> bool" where
  "drawn R g k s \<longleftrightarrow>
     stocked s \<and> np_random s = gen_after R g k \<and> (\<forall>i < k. any_nonzero (remaining_cargoes s ! draw_sender R g i))"

lemma draw_sender_less: "rng_ok R \<Longrightarrow> draw_sender R g i < NUM_WAREHOUSES"
  unfolding draw_sender_def by (rule draw_pair(1) [OF _ surjective_pairing]) simp

lemma drawn_step:
  assumes "rng_ok R" and "drawn R g k s"
  shows "drawn R g (Suc k) (draw_cargo R s)"
proof -
  have s: "stocked s" "np_random s = gen_after R g k"
    and old: "\<forall>i < k. any_nonzero (remaining_cargoes s ! draw_sender R g i)"
    using assms(2) by (auto simp: drawn_def)
  have "np_random (draw_cargo R s) = gen_after R g (Suc k)"
    by (simp add: draw_cargo_def gen_after_def s(2) Let_def split: prod.split)
  moreover have "any_nonzero (remaining_cargoes (draw_cargo R s) ! draw_sender R g i)" if "i < Suc k" for i
  proof (cases "i = k")
    case True
    then show ?thesis
      using draw_cargo_props(5) [OF assms(1) s(1)] by (simp add: draw_sender_def s(2))
  next
    case False
    then show ?thesis
      using that old by (intro draw_cargo_props(4) [OF assms(1) s(1) draw_sender_less [OF assms(1)]]) simp
  qed
  ultimately show ?thesis
    using draw_cargo_props(1) [OF assms(1) s(1)] by (simp add: drawn_def)
qed

lemma drawn_batch: "rng_ok R \<Longrightarrow> drawn R g k s \<Longrightarrow> drawn R g (k + n) (draw_batch R n s)"
  by (induction n) (auto simp: draw_batch_def drawn_step)

lemma drawn_rounds:
  assumes "rng_ok R" and "drawn R g 0 s"
  shows "drawn R g (m * n) (((\<lambda>s. count_awaiting (draw_batch R n s)) ^^ m) s)"
proof (induction m)
  case 0
  then show ?case using assms by simp
next
  case (Suc m)
  then show ?case
    using drawn_batch [OF assms(1) Suc.IH, of n] by (simp add: drawn_def frame_simps add.commute)
qed

lemma draw_until_all_returns:
  assumes "list_all any_nonzero (remaining_cargoes (((\<lambda>s. count_awaiting (draw_batch R n s)) ^^ m) s))"
  shows "draw_until_all R n s \<noteq> None"
  using assms
proof (induction m arbitrary: s)
  case 0
  then show ?case by (subst draw_until_all.simps) simp
next
  case (Suc m)
  from Suc.prems have "draw_until_all R n (count_awaiting (draw_batch R n s)) \<noteq> None"
    by (intro Suc.IH) (simp only: funpow_Suc_right comp_apply)
  then show ?case by (subst draw_until_all.simps) simp
qed

lemma draw_loop_ends:
  assumes R: "rng_ok R" and s: "stocked s" and n: "0 < n"
    and all: "\<forall>w < NUM_WAREHOUSES. \<exists>i < N. draw_sender R (np_random s) i = w"
  shows "draw_until_all R n s \<noteq> None"
proof (rule draw_until_all_returns [where m = N])
  let ?s = "((\<lambda>s. count_awaiting (draw_batch R n s)) ^^ N) s"
  have D: "drawn R (np_random s) (N * n) ?s"
    by (rule drawn_rounds [OF R]) (simp add: drawn_def s gen_after_def)
  have "any_nonzero (remaining_cargoes ?s ! w)" if w: "w < NUM_WAREHOUSES" for w
  proof -
    obtain i where "i < N" "draw_sender R (np_random s) i = w" using all w by blast
    moreover have "i < N * n" using n \<open>i < N\<close> by (metis less_le_trans mult.right_neutral mult_le_mono2 Suc_leI One_nat_def)
    ultimately show ?thesis using D by (auto simp: drawn_def)
  qed
  then show "list_all any_nonzero (remaining_cargoes ?s)"
    using D by (auto simp: drawn_def stocked_def is_matrix_def list_all_length)
qed

subsection \<open>The stock and the loads\<close>

definition awaiting_total :: "('g, 'z) world_scheme \<Rightarrow> int" where
  "awaiting_total s = (\<Sum>g < NUM_WAREHOUSES. awaiting_cargo_counts s ! g)"

lemma awaiting_total_split:
  assumes "cargo_inv s"
  shows "awaiting_total s = stock_total s + (\<Sum>t < num_targets s. weight s t)"
proof -
  have bal: "balanced s" and m: "is_matrix (num_targets s) NUM_WAREHOUSES (target_goal_bits s)"
    using assms by (auto simp: cargo_inv_def cargo_shapes_def)
  have "(\<Sum>g < NUM_WAREHOUSES. col_sum (target_goal_bits s) g)
      = (\<Sum>t < num_targets s. \<Sum>g < NUM_WAREHOUSES. target_goal_bits s ! t ! g)"
    using m by (simp add: col_sum_def is_matrix_def) (rule sum.swap)
  also have "\<dots> = (\<Sum>t < num_targets s. weight s t)"
    using m by (intro sum.cong) (auto simp: weight_def is_matrix_def sum_list_sum_nth atLeast0LessThan)
  finally show ?thesis
    using bal by (simp add: awaiting_total_def stock_total_def balanced_def sum.distrib)
qed

lemma stock_left:
  assumes "cargo_inv s" and t: "t < num_targets s" and empty: "target_goals s ! t < 0"
    and cap: "\<forall>j < num_targets s. target_capacities s ! j \<le> 2"
    and enough: "2 * int (num_targets s) \<le> awaiting_total s"
  obtains w where "w < NUM_WAREHOUSES" "any_nonzero (remaining_cargoes s ! w)"
proof -
  have ld: "load_ok s j" if "j < num_targets s" for j
    using assms(1) that by (simp add: cargo_inv_def)
  have le: "weight s j \<le> (if j = t then 0 else 2)" if "j < num_targets s" for j
  proof (cases "target_goals s ! j < 0")
    case True
    then show ?thesis using load_ok_empty(6) [OF ld [OF that]] by simp
  next
    case False
    then have "0 \<le> target_goals s ! j" by simp
    with ld [OF that] have "weight s j \<le> target_capacities s ! j"
      by (rule load_ok_loaded) simp
    then show ?thesis using False empty cap that by force
  qed
  have "(\<Sum>j < num_targets s. weight s j) \<le> (\<Sum>j < num_targets s. if j = t then 0 else 2)"
    by (rule sum_mono) (use le in auto)
  also have "\<dots> = 2 * int (num_targets s) - 2"
    using sum_upd [of "{..<num_targets s}" t 0 "\<lambda>_. 2"] t by simp
  finally have "stock_total s \<noteq> 0"
    using awaiting_total_split [OF assms(1)] enough by linarith
  then obtain g w where "g < NUM_WAREHOUSES" "w < NUM_WAREHOUSES" "remaining_cargoes s ! w ! g \<noteq> 0"
    using assms(1) cargo_shapes_lengths(9) [of s]
    by (auto simp: stock_total_def col_sum_def cargo_inv_def elim!: sum.not_neutral_contains_not_neutral)
  moreover from this have "length (remaining_cargoes s ! w) = NUM_WAREHOUSES"
    using assms(1) by (simp add: cargo_inv_def cargo_shapes_def is_matrix_def)
  ultimately show thesis using that [of w] by (auto simp: any_nonzero_iff)
qed

subsection \<open>The first loads\<close>

text \<open>What the loop over the unloaded targets keeps: the state is as it was but for loads taken.\<close>

definition start_ok :: "('g, 'z) world_scheme \<Rightarrow> ('g, 'z) world_scheme \<Rightarrow> bool" where
  "start_ok s s' \<longleftrightarrow>
     ledger (s, 0, 0) (s', 0, 0) \<and> num_delivered_cargoes s' = num_delivered_cargoes s
   \<and> (\<forall>j < num_targets s. 0 \<le> target_goals s ! j \<longrightarrow> target_goals s' ! j = target_goals s ! j)
   \<and> ((\<forall>j < num_targets s. lost_of s j = 0) \<longrightarrow> (\<forall>j < num_targets s'. lost_of s' j = 0))"

lemma start_ok_trans: "start_ok s s' \<Longrightarrow> start_ok s' u \<Longrightarrow> start_ok s u"
proof -
  assume a: "start_ok s s'" and b: "start_ok s' u"
  have "num_targets s' = num_targets s"
    using a by (simp add: start_ok_def ledger_def same_setup_def)
  moreover have "ledger (s, 0, 0) (u, 0, 0)"
    using a b ledger_trans unfolding start_ok_def by blast
  ultimately show ?thesis
    using a b by (simp add: start_ok_def)
qed

lemma load_cargo_start:
  assumes "rng_ok R" and "cargo_inv s" and "t < num_targets s" and "target_goals s ! t < 0"
    and "w < NUM_WAREHOUSES" and "any_nonzero (remaining_cargoes s ! w)"
  shows "start_ok s (load_cargo R t w s)"
proof -
  note L = load_cargo_ledger [OF assms]
  have S: "same_setup s (load_cargo R t w s)" using L(1) by (simp add: ledger_def)
  have "lost_of (load_cargo R t w s) j = lost_of s j" if "j \<noteq> t" for j
    by (rule keeps_others_lost(1) [OF keeps_others_ops(4) S that])
  moreover have "num_delivered_cargoes (load_cargo R t w s) = num_delivered_cargoes s"
    by (rule load_cargo_cases [OF assms(1-3,5,6)]) (simp add: frame_simps)
  ultimately show ?thesis
    using L S assms(4) by (auto simp: start_ok_def same_setup_def) (metis not_le)+
qed

lemma first_load_takes:
  assumes "rng_ok R" and "cargo_inv s" and "t < num_targets s" and "target_goals s ! t < 0"
    and "set ws \<subseteq> {..<NUM_WAREHOUSES}" and "w \<in> set ws" and "any_nonzero (remaining_cargoes s ! w)"
  shows "start_ok s (first_load R t ws s)" "0 \<le> target_goals (first_load R t ws s) ! t"
proof -
  have "start_ok s (first_load R t ws s) \<and> 0 \<le> target_goals (first_load R t ws s) ! t"
    using assms(5,6)
  proof (induction ws)
    case Nil
    then show ?case by simp
  next
    case (Cons v ws)
    then show ?case
      using load_cargo_start [OF assms(1-4)] load_cargo_ledger(2) [OF assms(1-4)] assms(7)
      by auto
  qed
  then show "start_ok s (first_load R t ws s)" "0 \<le> target_goals (first_load R t ws s) ! t"
    by auto
qed

lemma awaiting_total_alt: "awaiting_total s = total_cargoes s - num_delivered_cargoes s"
  by (simp add: awaiting_total_def total_cargoes_def)

lemma gen_ledger:
  assumes "cargo_inv s"
  shows "start_ok s (s\<lparr>np_random := g\<rparr>)"
  using assms
  by (simp add: start_ok_def ledger_def same_setup_def cargo_inv_def cargo_shapes_def scales_ok_def
      stock_ok_def balanced_def load_ok_def Let_def bounty_lost_def lost_of_def weight_def
      total_cargoes_def num_targets_def)

lemma start_target_takes:
  assumes R: "rng_ok R" and inv: "cargo_inv s" and t: "t < num_targets s" "target_goals s ! t < 0"
    and cap: "\<forall>j < num_targets s. target_capacities s ! j \<le> 2"
    and enough: "2 * int (num_targets s) \<le> awaiting_total s"
  shows "start_ok s (start_target R t s)" "0 \<le> target_goals (start_target R t s) ! t"
proof -
  obtain ws g where p: "permutation R (np_random s) NUM_WAREHOUSES = (ws, g)" by fastforce
  let ?s = "s\<lparr>np_random := g\<rparr>"
  have ws: "set ws = {..<NUM_WAREHOUSES}"
    using rng_permutation(2) [OF R, of "np_random s" NUM_WAREHOUSES] by (simp add: p)
  have G: "start_ok s ?s" by (rule gen_ledger [OF inv])
  obtain w where w: "w < NUM_WAREHOUSES" "any_nonzero (remaining_cargoes s ! w)"
    by (rule stock_left [OF inv t cap enough])
  have P: "cargo_inv ?s" "t < num_targets ?s" "target_goals ?s ! t < 0"
    using G t by (auto simp: start_ok_def ledger_def num_targets_def)
  note F = first_load_takes [OF R P, of ws w]
  show "start_ok s (start_target R t s)" "0 \<le> target_goals (start_target R t s) ! t"
    using start_ok_trans [OF G F(1)] F(2) w ws by (simp_all add: start_target_def p)
qed

lemma start_ok_simps:
  assumes "start_ok s s'"
  shows "cargo_inv s'" "num_targets s' = num_targets s" "target_capacities s' = target_capacities s"
    "awaiting_total s' = awaiting_total s"
  using assms by (auto simp: start_ok_def ledger_def same_setup_def awaiting_total_alt)

lemma first_load_other: "j \<noteq> t \<Longrightarrow> target_goals (first_load R t ws s) ! j = target_goals s ! j"
  using keeps_others_ops(4) [of t s R] by (induction ws) (auto simp: keeps_others_def)

lemma start_target_other: "j \<noteq> t \<Longrightarrow> target_goals (start_target R t s) ! j = target_goals s ! j"
  by (simp add: start_target_def first_load_other split: prod.split)

lemma start_fold:
  assumes R: "rng_ok R" and inv: "cargo_inv s"
    and cap: "\<forall>j < num_targets s. target_capacities s ! j \<le> 2"
    and enough: "2 * int (num_targets s) \<le> awaiting_total s"
    and "distinct ts" and "\<forall>t \<in> set ts. t < num_targets s \<and> target_goals s ! t < 0"
  shows "start_ok s (fold (start_target R) ts s)
       \<and> (\<forall>t \<in> set ts. 0 \<le> target_goals (fold (start_target R) ts s) ! t)"
  using assms(2-)
proof (induction ts arbitrary: s)
  case Nil
  then show ?case by (simp add: start_ok_def ledger_refl)
next
  case (Cons t ts)
  let ?s = "start_target R t s"
  have T: "start_ok s ?s" "0 \<le> target_goals ?s ! t"
    using start_target_takes [OF R Cons.prems(1)] Cons.prems by auto
  note S = start_ok_simps [OF T(1)]
  have IH: "start_ok ?s (fold (start_target R) ts ?s)
      \<and> (\<forall>t \<in> set ts. 0 \<le> target_goals (fold (start_target R) ts ?s) ! t)"
  proof (rule Cons.IH)
    show "\<forall>j \<in> set ts. j < num_targets ?s \<and> target_goals ?s ! j < 0"
    proof
      fix j assume "j \<in> set ts"
      then have "j \<noteq> t" "j < num_targets s" "target_goals s ! j < 0"
        using Cons.prems(4,5) by auto
      then show "j < num_targets ?s \<and> target_goals ?s ! j < 0"
        by (simp add: S start_target_other)
    qed
  qed (use Cons.prems S in simp_all)
  moreover have "0 \<le> target_goals (fold (start_target R) ts ?s) ! t"
    using IH T(2) Cons.prems(5) S(2) by (auto simp: start_ok_def)
  ultimately show ?case
    using start_ok_trans [OF T(1)] by simp
qed

lemma start_with_cargoes_ok:
  assumes R: "rng_ok R" and inv: "cargo_inv s"
    and cap: "\<forall>j < num_targets s. target_capacities s ! j \<le> 2"
    and enough: "2 * int (num_targets s) \<le> awaiting_total s"
  obtains s' where "start_with_cargoes R s = Inr s'" "start_ok s s'"
    "\<forall>t < num_targets s'. 0 \<le> target_goals s' ! t"
proof -
  let ?ts = "filter (\<lambda>t. target_goals s ! t < 0) [0..<num_targets s]"
  let ?s = "fold (start_target R) ?ts s"
  have F: "start_ok s ?s" "\<forall>t \<in> set ?ts. 0 \<le> target_goals ?s ! t"
    by (rule conjunct1 [OF start_fold [OF R inv cap enough]], simp, simp,
        rule conjunct2 [OF start_fold [OF R inv cap enough]], simp, simp)
  have n: "num_targets ?s = num_targets s" "length (target_goals ?s) = num_targets s"
    using start_ok_simps [OF F(1)] cargo_shapes_lengths(2) [of ?s] by (simp_all add: cargo_inv_def)
  have all: "0 \<le> target_goals ?s ! t" if "t < num_targets s" for t
    using F that by (cases "target_goals s ! t < 0") (auto simp: start_ok_def)
  then have "start_with_cargoes R s = Inr ?s"
    by (simp add: start_with_cargoes_def Let_def list_all_length n)
  then show thesis
    using that F(1) all n by simp
qed

subsection \<open>The reset of the game\<close>

text \<open>What \<open>reset\<close> finds when it reaches the cargoes: targets just reset, the scales computed.\<close>

definition reset_ready :: "('g, 'z) world_scheme \<Rightarrow> bool" where
  "reset_ready s \<longleftrightarrow>
     0 < num_targets s \<and> length (target_capacities s) = num_targets s
   \<and> length (tracked_bits s) = num_targets s \<and> scales_ok s
   \<and> (\<forall>t < num_targets s. target_capacities s ! t \<le> 2
        \<and> goal_bits (targets s ! t) = replicate NUM_WAREHOUSES 0)"

lemma reset_remaining_props:
  "stocked (reset_remaining s)" "stock_total (reset_remaining s) = 0"
  "\<not> list_all any_nonzero (remaining_cargoes (reset_remaining s))"
proof -
  show "stocked (reset_remaining s)" "stock_total (reset_remaining s) = 0"
    by (simp_all add: reset_remaining_def stocked_def is_matrix_def stock_ok_def stock_total_def col_sum_def)
  show "\<not> list_all any_nonzero (remaining_cargoes (reset_remaining s))"
    by (simp add: reset_remaining_def NUM_WAREHOUSES_def any_nonzero_def numeral_eq_Suc)
qed

text \<open>What the drawing loop returns: at least one batch, a warehouse row each, counts computed.\<close>

lemma draw_result:
  assumes R: "rng_ok R" and d: "draw_until_all R n (reset_remaining s) = Some s'"
  obtains m where "stocked s'" "stock_total s' = int (Suc m * n)"
    "awaiting_cargo_counts s' = map (col_sum (remaining_cargoes s')) [0..<NUM_WAREHOUSES]"
    "list_all any_nonzero (remaining_cargoes s')" "rest_of s' = rest_of s"
proof -
  let ?f = "\<lambda>s. count_awaiting (draw_batch R n s)"
  obtain k where k: "s' = (?f ^^ k) (reset_remaining s)" "list_all any_nonzero (remaining_cargoes s')"
    using draw_until_all_result [OF d] by blast
  then obtain m where m: "k = Suc m"
    using reset_remaining_props(3) [of s] by (cases k) auto
  have P: "stocked ((?f ^^ j) (reset_remaining s)) \<and> stock_total ((?f ^^ j) (reset_remaining s)) = int (j * n)
      \<and> rest_of ((?f ^^ j) (reset_remaining s)) = rest_of (reset_remaining s)" for j
    by (induction j) (auto simp: reset_remaining_props draw_batch_props [OF R] frame_simps algebra_simps)
  have "rest_of (reset_remaining s) = rest_of s" by (simp add: reset_remaining_def rest_of_def)
  then show thesis
    using that [of m] P [of k] k m by (simp add: count_awaiting_def)
qed

lemma rest_of_fields:
  assumes "rest_of s' = rest_of s"
  shows "targets s' = targets s" "target_capacities s' = target_capacities s"
    "freight_scale s' = freight_scale s" "bounty_scale s' = bounty_scale s"
    "tracked_bits s' = tracked_bits s" "num_delivered_cargoes s' = num_delivered_cargoes s"
    "world.more s' = world.more s"
  using arg_cong [OF assms, of targets] arg_cong [OF assms, of target_capacities]
    arg_cong [OF assms, of freight_scale] arg_cong [OF assms, of bounty_scale]
    arg_cong [OF assms, of tracked_bits] arg_cong [OF assms, of num_delivered_cargoes]
    arg_cong [OF assms, of world.more]
  by (simp_all add: rest_of_def)

lemma clear_transport_inv:
  assumes ready: "reset_ready s" and rest: "rest_of s' = rest_of s" and st: "stocked s'"
    and aw: "awaiting_cargo_counts s' = map (col_sum (remaining_cargoes s')) [0..<NUM_WAREHOUSES]"
  shows "cargo_inv (clear_transport s')"
    and "\<forall>t < num_targets s. target_goals (clear_transport s') ! t = - 1"
    and "num_targets (clear_transport s') = num_targets s"
    and "bounty_lost (clear_transport s') = 0"
    and "awaiting_total (clear_transport s') = stock_total s'"
proof -
  let ?s = "clear_transport s'"
  note eq = rest_of_fields [OF rest]
  have n: "num_targets s' = num_targets s" by (simp add: num_targets_def eq)
  show n': "num_targets ?s = num_targets s"
    by (simp add: clear_transport_def Let_def num_targets_def eq)
  show "\<forall>t < num_targets s. target_goals ?s ! t = - 1"
    by (simp add: clear_transport_def Let_def n)
  have "load_ok ?s t" if "t < num_targets s" for t
    using that ready by (simp add: load_ok_def clear_transport_def Let_def n eq reset_ready_def)
  moreover have "cargo_shapes ?s"
    unfolding cargo_shapes_def n' using ready st
    by (simp add: stocked_def reset_ready_def aw eq clear_transport_def Let_def n is_matrix_def)
  moreover have "balanced ?s"
    by (simp add: balanced_def clear_transport_def Let_def aw col_sum_def n)
  moreover have "scales_ok ?s" "stock_ok ?s"
    using ready st by (simp_all add: scales_ok_def stock_ok_def reset_ready_def n' stocked_def)
      (simp_all add: clear_transport_def Let_def eq)
  ultimately show "cargo_inv ?s" by (simp add: cargo_inv_def n')
  show "bounty_lost ?s = 0"
    unfolding bounty_lost_def n' by (simp add: lost_of_def weight_def clear_transport_def Let_def n sum_list_replicate)
  show "awaiting_total ?s = stock_total s'"
    by (simp add: awaiting_total_def stock_total_def clear_transport_def Let_def aw)
qed

text \<open>A new episode: the invariant holds, nothing is delivered, no bounty is lost.\<close>

definition fresh_episode :: "('g, 'z) world_scheme \<Rightarrow> bool" where
  "fresh_episode s \<longleftrightarrow>
     cargo_inv s \<and> num_delivered_cargoes s = 0 \<and> bounty_lost s = 0
   \<and> target_team_episode_reward s = 0 \<and> delayed_target_team_episode_reward s = 0"

lemma clear_episode_props:
  "cargo_inv (clear_episode s) = cargo_inv s" "bounty_lost (clear_episode s) = bounty_lost s"
  "num_targets (clear_episode s) = num_targets s" "target_goals (clear_episode s) = target_goals s"
  "num_delivered_cargoes (clear_episode s) = 0" "awaiting_total (clear_episode s) = awaiting_total s"
  "target_capacities (clear_episode s) = target_capacities s"
  "fresh_episode (clear_episode s) \<longleftrightarrow> cargo_inv s \<and> bounty_lost s = 0"
  by (simp_all add: clear_episode_def cargo_inv_def cargo_shapes_def scales_ok_def stock_ok_def
      balanced_def load_ok_def Let_def bounty_lost_def lost_of_def weight_def num_targets_def
      awaiting_total_def fresh_episode_def)

lemma start_ok_fresh: "start_ok s s' \<Longrightarrow> fresh_episode s \<Longrightarrow> fresh_episode s'"
  by (simp add: start_ok_def fresh_episode_def ledger_def same_setup_def)

text \<open>What the reset of the game leaves alone.\<close>

definition game_frame :: "('g, 'z) world_scheme \<Rightarrow> ('g, 'z) world_scheme \<Rightarrow> bool" where
  "game_frame s s' \<longleftrightarrow>
     num_targets s' = num_targets s \<and> world.more s' = world.more s
   \<and> freight_scale s' = freight_scale s \<and> bounty_scale s' = bounty_scale s
   \<and> target_capacities s' = target_capacities s
   \<and> length (target_steps s') = num_targets s \<and> length (tracked_steps s') = num_targets s
   \<and> (\<forall>j < num_targets s. same_body (targets s ! j) (targets s' ! j))"

lemma game_frame_setup: "game_frame s s' \<Longrightarrow> same_setup s' u \<Longrightarrow> game_frame s u"
  unfolding game_frame_def same_setup_def by (simp, metis same_body_trans)

lemma clear_transport_frame:
  assumes "rest_of s1 = rest_of s"
  shows "game_frame s (clear_transport s1)"
  using rest_of_fields [OF assms] by (simp add: game_frame_def clear_transport_def Let_def num_targets_def)

lemma clear_episode_frame: "game_frame s s' \<Longrightarrow> game_frame s (clear_episode s')"
  by (simp add: game_frame_def clear_episode_def num_targets_def)

lemma reset_cargo_fresh:
  assumes R: "rng_ok R" and ready: "reset_ready s" and k: "2 \<le> k"
    and run: "reset_cargo R k start s = Some res"
  obtains s' m where "res = Inr s'" "fresh_episode s'" "num_targets s' = num_targets s"
    "total_cargoes s' = int (Suc m * (k * num_targets s))"
    "start \<Longrightarrow> \<forall>t < num_targets s'. 0 \<le> target_goals s' ! t" "game_frame s s'"
proof -
  let ?n = "num_targets s"
  obtain s1 where d: "draw_until_all R (k * ?n) (reset_remaining s) = Some s1"
    using run by (auto simp: reset_cargo_def split: option.splits)
  obtain m where s1: "stocked s1" "stock_total s1 = int (Suc m * (k * ?n))"
    "awaiting_cargo_counts s1 = map (col_sum (remaining_cargoes s1)) [0..<NUM_WAREHOUSES]"
    "list_all any_nonzero (remaining_cargoes s1)" "rest_of s1 = rest_of s"
    by (rule draw_result [OF R d])
  let ?c = "clear_transport s1"
  note C = clear_transport_inv [OF ready s1(5,1,3)]
  obtain s2 r d where a: "assign_goals R ?c = (s2, r, d)" by (cases "assign_goals R ?c")
  note A = assign_goals_step [OF R C(1) a]
  have S: "same_setup ?c s2" and inv2: "cargo_inv s2" and tot: "total_cargoes s2 = total_cargoes ?c"
    using A(1) by (auto simp: ledger_def)
  have n2: "num_targets s2 = ?n" using S C(3) by (simp add: same_setup_def)
  have "lost_of s2 t = 0" if "t < ?n" for t
    using A(8) C(2,3) that by simp
  then have lost2: "bounty_lost s2 = 0" by (simp add: bounty_lost_def n2)
  have "\<not> arrived ?c t" if "t < ?n" for t
    using C(2) that by (simp add: arrived_def)
  then have "num_delivered_cargoes s2 = num_delivered_cargoes ?c"
    using A(4) by (simp add: sum_arrived_def C(3))
  then have aw2: "awaiting_total s2 = int (Suc m * (k * ?n))"
    using tot C(5) s1(2) by (simp add: awaiting_total_alt)
  let ?e = "clear_episode s2"
  note E = clear_episode_props [of s2]
  have fresh: "fresh_episode ?e" by (simp add: E inv2 lost2)
  have res: "res = (if start then start_with_cargoes R ?e else Inr ?e)"
    using run d a by (simp add: reset_cargo_def)
  have tote: "total_cargoes ?e = int (Suc m * (k * ?n))"
    using E(5,6) aw2 awaiting_total_alt [of ?e] by simp
  have fr: "game_frame s ?e"
    by (rule clear_episode_frame [OF game_frame_setup [OF clear_transport_frame [OF s1(5)] S]])
  show thesis
  proof (cases start)
    case False
    then show thesis using that [of ?e m] res fresh E(3) n2 tote fr by simp
  next
    case True
    have cap: "\<forall>j < num_targets ?e. target_capacities ?e ! j \<le> 2"
      using ready S rest_of_fields(2) [OF s1(5)] n2
      by (simp add: E reset_ready_def same_setup_def) (simp add: clear_transport_def Let_def)
    have "2 * ?n \<le> k * ?n" "k * ?n \<le> Suc m * (k * ?n)" using k by auto
    then have "2 * ?n \<le> Suc m * (k * ?n)" by (rule le_trans)
    then have "2 * int (num_targets ?e) \<le> awaiting_total ?e"
      unfolding E(3) n2 E(6) aw2 by (metis of_nat_mono of_nat_mult of_nat_numeral)
    then obtain s3 where s3: "start_with_cargoes R ?e = Inr s3" "start_ok ?e s3"
      "\<forall>t < num_targets s3. 0 \<le> target_goals s3 ! t"
      using start_with_cargoes_ok [OF R _ cap] E(1) inv2 by blast
    have "total_cargoes s3 = int (Suc m * (k * ?n))" "num_targets s3 = ?n"
      using s3(2) tote E(3) n2 by (simp_all add: start_ok_def ledger_def same_setup_def)
    moreover have "game_frame s s3"
      using s3(2) by (intro game_frame_setup [OF fr]) (simp add: start_ok_def ledger_def)
    ultimately show thesis
      using that [of s3 m] res True s3 start_ok_fresh [OF s3(2) fresh] by simp
  qed
qed

end
