(* ===== verification/Occlusion.thy ===== *)
theory Occlusion
  imports Entities
begin

text \<open>
  What a camera can see around obstacles: \<open>Camera.add_obstacles\<close>, its local function
  \<open>interpolate\<close>, \<open>clear_obstacles\<close> and \<open>boundary_between\<close> of \<^verbatim>\<open>mate/entities.py\<close>. The boundary
  of the field of view is a list of rays from the camera: a full circle, extra rays at the edges
  of every obstacle, all of them cut by every obstacle, sorted by angle with the shortest ray kept
  at each angle. The sight range in a direction is interpolated between them by
  \<open>scipy.interpolate.interp1d\<close>, the parameter \<open>interp1d\<close> of \<open>sight_range_at\<close>.

  The obstacles in range form a Python set: the parameter \<open>order\<close> is the order in which it is
  iterated. An obstacle is known by its index in the list of the environment.
\<close>

subsection \<open>Building the boundary\<close>

definition opaque :: "('g, 'z) obstacle_scheme \<Rightarrow> bool" where
  "opaque o1 \<longleftrightarrow> transmittance o1 \<noteq> 1"

definition in_reach :: "'g camera \<Rightarrow> ('h, 'y) obstacle_scheme \<Rightarrow> bool" where
  "in_reach cam o1 \<longleftrightarrow> distance cam o1 < max_sight_range cam + radius o1"

definition polar_rays :: "'g camera \<Rightarrow> real \<Rightarrow> real list \<Rightarrow> ray list" where
  "polar_rays cam rho angles = map (\<lambda>a. ray_of_polar rho a (Some (location cam))) angles"

text \<open>The 21 points between the tangent point of an edge and a point just outside the shadow.\<close>

definition blend :: "'g camera \<Rightarrow> ray \<Rightarrow> ray \<Rightarrow> ray list" where
  "blend cam near far =
     map (\<lambda>t. ray_of_vec (vadd (vscale (1 - t) (ray_vector near)) (vscale t (ray_vector far)))
                (Some (location cam)))
       (linspace 0 1 21 True)"

text \<open>The rays an obstacle adds to the two boundaries.\<close>

definition edge_rays :: "'g camera \<Rightarrow> ('h, 'y) obstacle_scheme \<Rightarrow> ray list \<times> ray list" where
  "edge_rays cam o1 =
     (let relative = ray_of_vec (vsub (location o1) (location cam)) None;
          half_opening_angle = arcsin_deg (radius o1 / r_norm relative);
          max_rho = min (max_sight_range cam) (r_norm relative + radius o1);
          angle_left = r_angle relative - half_opening_angle;
          angle_right = r_angle relative + half_opening_angle;
          shadow = polar_rays cam max_rho
            (linspace angle_left angle_right (max 16 (nat \<lfloor>2 * half_opening_angle\<rfloor>) + 1) True);
          near_rho = min (max_sight_range cam) (sqrt ((r_norm relative)\<^sup>2 + (radius o1)\<^sup>2));
          edge = (\<lambda>rho a. ray_of_polar rho a (Some (location cam)))
      in (polar_rays cam (max_sight_range cam)
            [angle_left - 1 / 100, angle_left + 1 / 100, angle_right - 1 / 100, angle_right + 1 / 100]
            @ shadow,
          shadow
            @ blend cam (edge near_rho angle_left) (edge (max_sight_range cam) (angle_left - 1 / 100))
            @ blend cam (edge near_rho angle_right) (edge (max_sight_range cam) (angle_right + 1 / 100))))"

text \<open>A camera inside an obstacle sees nothing: four rays of length 0, and the loop is left.\<close>

definition blind_rays :: "'g camera \<Rightarrow> ray list" where
  "blind_rays cam = polar_rays cam 0 [- 180, - 90, 0, 90]"

fun extend_boundary ::
  "'g camera \<Rightarrow> 'g obstacle list \<Rightarrow> ray list \<times> ray list \<Rightarrow> ray list \<times> ray list" where
  "extend_boundary cam [] bs = bs"
| "extend_boundary cam (o1 # obs) bs =
     (if \<not> opaque o1 then extend_boundary cam obs bs
      else if radius o1 > vnorm (vsub (location o1) (location cam)) then (blind_rays cam, blind_rays cam)
      else (case bs of (inner, outer) \<Rightarrow> case edge_rays cam o1 of (ei, eo) \<Rightarrow>
              extend_boundary cam obs (inner @ ei, outer @ eo)))"

definition cut_by :: "'g obstacle list \<Rightarrow> bool \<Rightarrow> ray list \<Rightarrow> ray list" where
  "cut_by obs outer rays =
     fold (\<lambda>o1 rs. if opaque o1 then map (\<lambda>b. obstruct (location o1) (radius o1) b False outer) rs else rs)
       obs rays"

text \<open>\<open>interpolate\<close>: sort by angle, keep the shortest of the rays with the same angle, close the circle.\<close>

fun dedup_into :: "ray list \<Rightarrow> ray list \<Rightarrow> ray list" where
  "dedup_into kept [] = kept"
| "dedup_into kept (r # rs) =
     (if kept \<noteq> [] \<and> r_angle (last kept) = r_angle r
      then (if r_norm (last kept) > r_norm r then dedup_into (butlast kept @ [r]) rs
            else dedup_into kept rs)
      else dedup_into (kept @ [r]) rs)"

definition close_circle :: "ray list \<Rightarrow> (real list \<times> real list) res" where
  "close_circle rays =
     (case rays of
        [] \<Rightarrow> Inl IndexError
      | r # _ \<Rightarrow> Inr (map r_angle rays @ [r_angle r + 360], map r_norm rays @ [r_norm r]))"

definition interpolate_boundary :: "ray list \<Rightarrow> ((real list \<times> real list) \<times> ray list) res" where
  "interpolate_boundary rays =
     (let kept = dedup_into [] (sort_key r_angle rays)
      in bind_res (close_circle kept) (\<lambda>c. Inr (c, kept)))"

definition camera_add_obstacles ::
  "(nat list \<Rightarrow> nat list) \<Rightarrow> 'g obstacle list \<Rightarrow> 'g camera \<Rightarrow> 'g camera res" where
  "camera_add_obstacles order obs cam =
     (let found = filter (\<lambda>i. in_reach cam (obs ! i)) [0..<length obs];
          near = map (\<lambda>i. obs ! i) (order found)
      in case extend_boundary cam near (boundary cam, boundary_outer cam) of (inner, outer) \<Rightarrow>
         bind_res (interpolate_boundary (cut_by near False inner)) (\<lambda>((phis, rhos), b).
         bind_res (interpolate_boundary (cut_by near True outer)) (\<lambda>((ophis, orhos), bo).
           Inr (cam\<lparr>cam_obstacles := remdups (cam_obstacles cam @ found),
                    sight_phis := phis, sight_rhos := rhos, boundary := b,
                    sight_outer_phis := ophis, sight_outer_rhos := orhos, boundary_outer := bo\<rparr>))))"

definition camera_clear_obstacles :: "'g camera \<Rightarrow> 'g camera" where
  "camera_clear_obstacles cam = cam\<lparr>cam_obstacles := []\<rparr>"

text \<open>\<open>boundary_between\<close>: the end points are always read from the inner function, as in the code.\<close>

definition boundary_between ::
  "(real list \<Rightarrow> real list \<Rightarrow> real \<Rightarrow> real) \<Rightarrow> 'g camera \<Rightarrow> real \<Rightarrow> real \<Rightarrow> bool
    \<Rightarrow> (real list \<times> real list) res" where
  "boundary_between interp1d cam angle_left0 angle_right0 outer =
     bind_res (check AssertionError (0 < angle_right0 - angle_left0 \<and> angle_right0 - angle_left0 \<le> 360)) (\<lambda>_.
       let angle_left = normalize_angle angle_left0;
           angle_right = angle_left + (angle_right0 - angle_left0);
           nodes = (if outer then zip (sight_outer_phis cam) (sight_outer_rhos cam)
                    else zip (sight_phis cam) (sight_rhos cam));
           picked = (if angle_right \<le> 180
                     then filter (\<lambda>(phi, rho). angle_left < phi \<and> phi < angle_right) nodes
                     else filter (\<lambda>(phi, rho). angle_left < phi \<and> phi \<le> 180) nodes
                        @ filter (\<lambda>(phi, rho). - 180 < phi \<and> phi < angle_right - 360) nodes)
       in Inr ([angle_left] @ map fst picked @ [angle_right],
               [sight_range_at interp1d cam angle_left False] @ map snd picked
                 @ [sight_range_at interp1d cam angle_right False]))"

subsection \<open>Sorting and deduplication\<close>

text \<open>The angles strictly increase, and each kept ray is a shortest one of its angle.\<close>

definition shortest_in :: "ray list \<Rightarrow> ray \<Rightarrow> bool" where
  "shortest_in rays r \<longleftrightarrow>
     r \<in> set rays \<and> (\<forall>r' \<in> set rays. r_angle r' = r_angle r \<longrightarrow> r_norm r \<le> r_norm r')"

definition dedup_ok :: "ray list \<Rightarrow> ray list \<Rightarrow> bool" where
  "dedup_ok rays kept \<longleftrightarrow>
     sorted_wrt (\<lambda>a b. r_angle a < r_angle b) kept \<and> r_angle ` set kept = r_angle ` set rays
   \<and> (\<forall>r \<in> set kept. shortest_in rays r)"

lemma sorted_wrt_angle_last:
  assumes "sorted_wrt (\<lambda>a b. r_angle a < r_angle b) kept" and "r \<in> set kept"
  shows "r_angle r < r_angle (last kept) \<or> r = last kept"
proof (cases kept rule: rev_cases)
  case Nil
  then show ?thesis using assms by simp
next
  case (snoc ks k)
  then show ?thesis using assms by (auto simp: sorted_wrt_append)
qed

lemma dedup_step:
  assumes ok: "dedup_ok done kept" and le: "\<forall>r' \<in> set done. r_angle r' \<le> r_angle r"
  shows "dedup_ok (done @ [r])
     (if kept \<noteq> [] \<and> r_angle (last kept) = r_angle r
      then (if r_norm (last kept) > r_norm r then butlast kept @ [r] else kept) else kept @ [r])"
proof (cases "kept \<noteq> [] \<and> r_angle (last kept) = r_angle r")
  case True
  then obtain ks k where k: "kept = ks @ [k]" "r_angle k = r_angle r"
    by (cases kept rule: rev_cases) auto
  have K: "shortest_in done k" and lt: "\<forall>a \<in> set ks. r_angle a < r_angle r"
    and old: "\<forall>a \<in> set ks. shortest_in done a" and img: "r_angle ` set kept = r_angle ` set done"
    using ok by (auto simp: dedup_ok_def k sorted_wrt_append)
  have ks: "shortest_in (done @ [r]) a" if "a \<in> set ks" for a
    using old lt that by (fastforce simp: shortest_in_def)
  have "r_angle ` set (done @ [r]) = r_angle ` set kept"
    using img k by auto
  moreover have "shortest_in (done @ [r]) (if r_norm k > r_norm r then r else k)"
    using K k(2) by (fastforce simp: shortest_in_def)
  ultimately show ?thesis
    using ok ks lt True k by (auto simp: dedup_ok_def sorted_wrt_append split: if_splits)
next
  case False
  have lt: "r_angle a < r_angle r" if "a \<in> set kept" for a
  proof -
    have "last kept \<in> set kept" using that by (cases kept) auto
    then have "last kept \<in> set done" using ok by (auto simp: dedup_ok_def shortest_in_def)
    then have "r_angle (last kept) < r_angle r" using le False that by force
    then show ?thesis using sorted_wrt_angle_last [OF _ that] ok by (fastforce simp: dedup_ok_def)
  qed
  have "r_angle a < r_angle r" if "a \<in> set done" for a
  proof -
    have "r_angle a \<in> r_angle ` set kept" using ok that by (simp add: dedup_ok_def)
    then show ?thesis using lt by auto
  qed
  then have "shortest_in (done @ [r]) r" by (force simp: shortest_in_def)
  moreover have "shortest_in (done @ [r]) a" if "a \<in> set kept" for a
    using ok lt [OF that] that by (fastforce simp: shortest_in_def dedup_ok_def)
  ultimately show ?thesis
    using ok lt by (simp add: dedup_ok_def sorted_wrt_append False)
qed

lemma dedup_into_ok:
  assumes "dedup_ok done kept" and "sorted (map r_angle (done @ rays))"
  shows "dedup_ok (done @ rays) (dedup_into kept rays)"
  using assms
proof (induction rays arbitrary: "done" kept)
  case Nil
  then show ?case by simp
next
  case (Cons r rays)
  have "\<forall>r' \<in> set done. r_angle r' \<le> r_angle r"
    using Cons.prems(2) by (auto simp: sorted_append)
  note step = dedup_step [OF Cons.prems(1) this]
  show ?case
    using Cons.IH [OF step] Cons.prems(2) by (auto split: if_splits)
qed

lemma dedup_sorted: "dedup_ok rays (dedup_into [] (sort_key r_angle rays))"
proof -
  have "dedup_ok ([] @ sort_key r_angle rays) (dedup_into [] (sort_key r_angle rays))"
    by (rule dedup_into_ok) (simp_all add: dedup_ok_def)
  then show ?thesis by (simp add: dedup_ok_def shortest_in_def)
qed

subsection \<open>Lines of sight\<close>

text \<open>The segment of the vector \<open>v\<close> avoids the open disc of the given radius around \<open>d\<close>.\<close>

definition clear_of :: "vec \<Rightarrow> real \<Rightarrow> vec \<Rightarrow> bool" where
  "clear_of d rad v \<longleftrightarrow> (\<forall>s. 0 \<le> s \<and> s \<le> 1 \<longrightarrow> rad \<le> vnorm (vsub (vscale s v) d))"

lemma vscale_vscale: "vscale a (vscale b v) = vscale (a * b) v"
  by (simp add: vscale_def)

lemma foot_scale: "0 < s \<Longrightarrow> foot d (vscale s v) = foot d v"
proof -
  assume "0 < s"
  then have "vnorm (vscale s v) = s * vnorm v" by (simp add: vnorm_vscale)
  then show ?thesis using \<open>0 < s\<close> by (simp add: foot_def vdot_def vscale_def)
      (simp add: distrib_left [symmetric] mult.left_commute)
qed

lemma clear_of_scale:
  assumes "clear_of d rad v" and "0 \<le> k" and "k \<le> 1"
  shows "clear_of d rad (vscale k v)"
  using assms by (simp add: clear_of_def vscale_vscale mult_le_one)

lemma clear_of_zero: "rad \<le> vnorm d \<Longrightarrow> clear_of d rad (0, 0)"
  by (simp add: clear_of_def vscale_def vsub_def vnorm_def)

lemma obstruct_vec_scales:
  assumes "rad \<le> vnorm d"
  obtains k where "0 \<le> k" "k \<le> 1" "obstruct_vec d rad v False = vscale k v"
proof (cases "v \<noteq> (0, 0) \<and> hit d rad v \<and> foot d v - half_chord_of d rad v < vnorm v")
  case True
  then have "0 \<le> foot d v - half_chord_of d rad v"
    using hit_chord(4) assms by blast
  then show thesis
    using True assms by (intro that [of "(foot d v - half_chord_of d rad v) / vnorm v"])
      (auto simp: obstruct_vec_def divide_le_eq)
next
  case False
  then show thesis
    using assms by (intro that [of "if v = (0, 0) then 0 else 1"])
      (auto simp: obstruct_vec_def vneg_def vscale_def)
qed

text \<open>A prefix of the cut ray is not cut again.\<close>

lemma obstruct_vec_prefix:
  assumes v: "v \<noteq> (0, 0)" and d: "rad \<le> vnorm d" and s: "0 < s" "s \<le> 1"
    and p: "p = vscale s (obstruct_vec d rad v False)" "p \<noteq> (0, 0)"
  shows "obstruct_vec d rad p False = p"
proof -
  have n: "0 < vnorm v" using v by (rule vnorm_pos)
  have stop: "obstruct_vec d rad p False = p"
    if "hit d rad p \<Longrightarrow> vnorm p \<le> foot d p - half_chord_of d rad p"
    using that p(2) d by (auto simp: obstruct_vec_def Let_def)
  show ?thesis
  proof (cases "hit d rad v \<and> foot d v - half_chord_of d rad v < vnorm v")
    case True
    let ?new = "foot d v - half_chord_of d rad v"
    have new: "0 \<le> ?new" using hit_chord(4) [OF _ v d] True by blast
    have pv: "p = vscale (s * (?new / vnorm v)) v"
      using True v d by (simp add: p(1) obstruct_vec_def vscale_vscale)
    then have pos: "0 < s * (?new / vnorm v)"
      using p(2) s new n by (metis divide_nonneg_pos less_eq_real_def mult_nonneg_nonneg vscale_def
          mult_zero_left prod.collapse)
    have "vnorm p = s * (?new / vnorm v) * vnorm v"
      unfolding pv vnorm_vscale using pos by (simp only: abs_of_pos)
    then have "vnorm p = s * ?new" using v by simp
    then have "vnorm p \<le> ?new" using s new by (simp add: mult_left_le_one_le)
    moreover have f: "foot d p = foot d v"
      unfolding pv by (rule foot_scale [OF pos])
    moreover have "half_chord_of d rad p = half_chord_of d rad v"
      by (simp add: half_chord_of_def f)
    ultimately show ?thesis by (intro stop) simp
  next
    case False
    then have pv: "p = vscale s v" using v d by (auto simp: p(1) obstruct_vec_def)
    have f1: "foot d p = foot d v"
      unfolding pv by (rule foot_scale [OF s(1)])
    then have f: "foot d p = foot d v" "half_chord_of d rad p = half_chord_of d rad v"
      by (simp_all add: half_chord_of_def)
    have le: "vnorm p \<le> vnorm v" using s unfolding pv by (simp add: vnorm_vscale mult_left_le_one_le)
    show ?thesis
    proof (rule stop)
      assume h: "hit d rad p"
      have "vdot d p = s * vdot d v" by (simp add: pv vdot_def vscale_def algebra_simps)
      then have "hit d rad v"
        using h le s f by (auto simp: hit_def zero_le_mult_iff)
      then show "vnorm p \<le> foot d p - half_chord_of d rad p" using False le f by simp
    qed
  qed
qed

lemma obstruct_vec_clear:
  assumes "0 \<le> rad" and d: "rad \<le> vnorm d"
  shows "clear_of d rad (obstruct_vec d rad v False)"
  unfolding clear_of_def
proof (intro allI impI)
  fix s :: real
  assume s: "0 \<le> s \<and> s \<le> 1"
  let ?w = "obstruct_vec d rad v False"
  show "rad \<le> vnorm (vsub (vscale s ?w) d)"
  proof (cases "vscale s ?w = (0, 0)")
    case True
    then show ?thesis using d by (simp add: vsub_def vnorm_def)
  next
    case False
    have w0: "vneg (0, 0) = (0, 0)" by (simp add: vneg_def)
    have v: "v \<noteq> (0, 0)"
      using False w0 by (auto simp: obstruct_vec_def vscale_def)
    have "0 < s" using s False by (cases "s = 0") (auto simp: vscale_def)
    then have "obstruct_vec d rad (vscale s ?w) False = vscale s ?w"
      using obstruct_vec_prefix [OF v d _ _ refl False] s by simp
    then show ?thesis
      using obstruct_vec_outside [OF assms, of "vscale s ?w" False] by simp
  qed
qed

subsection \<open>The boundary of a camera\<close>

text \<open>A ray from the camera, no longer than its maximal sight range.\<close>

definition sight_ray :: "'g camera \<Rightarrow> ray \<Rightarrow> bool" where
  "sight_ray cam r \<longleftrightarrow>
     r_origin r = Some (location cam) \<and> 0 \<le> r_norm r \<and> r_norm r \<le> max_sight_range cam"

lemma obstruct_norm_le:
  assumes "ray_wf ray" and "0 \<le> rad"
  shows "r_norm (obstruct c rad ray False False) \<le> r_norm ray"
proof -
  have "r_norm (obstruct c rad ray False False) = vnorm (ray_vector (obstruct c rad ray False False))"
    using rv.norm_vector [OF obstruct_wf [OF assms(1)]] by simp
  also have "\<dots> \<le> vnorm (ray_vector ray)"
    unfolding obstruct_vector [OF assms] by (rule obstruct_vec_norm_le)
  also have "\<dots> = r_norm ray" using rv.norm_vector [OF assms(1)] by simp
  finally show ?thesis .
qed

lemma sight_ray_obstruct:
  assumes "sight_ray cam r" and "0 \<le> rad"
  shows "sight_ray cam (obstruct c rad r False False)"
  using assms obstruct_norm_le [of r rad c] obstruct_wf [of r c rad False False]
  by (auto simp: sight_ray_def ray_wf_def)

lemma polar_sight_rays:
  assumes "\<bar>rho\<bar> \<le> max_sight_range cam" and "r \<in> set (polar_rays cam rho angles)"
  shows "sight_ray cam r"
  using assms by (auto simp: polar_rays_def sight_ray_def ray_of_polar_def)

lemma edge_rays_sight:
  assumes "0 \<le> max_sight_range cam" and "0 \<le> radius o1" and "r \<in> set (fst (edge_rays cam o1))"
  shows "sight_ray cam r"
proof -
  have m: "\<bar>max_sight_range cam\<bar> \<le> max_sight_range cam"
    "\<bar>min (max_sight_range cam) (vnorm (vsub (location o1) (location cam)) + radius o1)\<bar> \<le> max_sight_range cam"
    using assms(1,2) by auto
  then show ?thesis
    using assms(3) polar_sight_rays [OF m(1)] polar_sight_rays [OF m(2)]
    by (auto simp: edge_rays_def Let_def)
qed

lemma blind_sight: "0 \<le> max_sight_range cam \<Longrightarrow> r \<in> set (blind_rays cam) \<Longrightarrow> sight_ray cam r"
  unfolding blind_rays_def by (rule polar_sight_rays) simp_all

definition inside :: "'g camera \<Rightarrow> 'g obstacle \<Rightarrow> bool" where
  "inside cam o1 \<longleftrightarrow> opaque o1 \<and> radius o1 > vnorm (vsub (location o1) (location cam))"

lemma extend_boundary_sight:
  assumes "0 \<le> max_sight_range cam" and "\<forall>o1 \<in> set obs. 0 \<le> radius o1"
    and "\<forall>r \<in> set (fst bs). sight_ray cam r"
  shows "\<forall>r \<in> set (fst (extend_boundary cam obs bs)). sight_ray cam r"
    and "\<exists>o1 \<in> set obs. inside cam o1 \<Longrightarrow> fst (extend_boundary cam obs bs) = blind_rays cam"
proof -
  have "(\<forall>r \<in> set (fst (extend_boundary cam obs bs)). sight_ray cam r)
      \<and> ((\<exists>o1 \<in> set obs. inside cam o1) \<longrightarrow> fst (extend_boundary cam obs bs) = blind_rays cam)"
    using assms(2,3)
  proof (induction obs arbitrary: bs)
    case Nil
    then show ?case by simp
  next
    case (Cons o1 obs)
    obtain inner outer where bs: "bs = (inner, outer)" by (cases bs)
    obtain ei eo where e: "edge_rays cam o1 = (ei, eo)" by (cases "edge_rays cam o1")
    have ei: "\<forall>r \<in> set ei. sight_ray cam r"
      using edge_rays_sight [OF assms(1), of o1] Cons.prems(1) by (simp add: e)
    consider (clear) "\<not> opaque o1" | (blind) "inside cam o1"
      | (edges) "opaque o1" "\<not> inside cam o1" by (auto simp: inside_def)
    then show ?case
    proof cases
      case clear
      then have "\<not> inside cam o1" by (simp add: inside_def)
      then show ?thesis using clear Cons.IH [of bs] Cons.prems by simp
    next
      case blind
      then show ?thesis using blind_sight [OF assms(1)] by (simp add: inside_def)
    next
      case edges
      have "\<forall>r \<in> set (fst (inner @ ei, outer @ eo)). sight_ray cam r"
        using Cons.prems(2) ei by (auto simp: bs)
      note IH = Cons.IH [OF _ this]
      have "extend_boundary cam (o1 # obs) bs = extend_boundary cam obs (inner @ ei, outer @ eo)"
        using edges by (simp add: bs e inside_def)
      then show ?thesis using IH Cons.prems(1) edges by simp
    qed
  qed
  then show "\<forall>r \<in> set (fst (extend_boundary cam obs bs)). sight_ray cam r"
    and "\<exists>o1 \<in> set obs. inside cam o1 \<Longrightarrow> fst (extend_boundary cam obs bs) = blind_rays cam"
    by blast+
qed

lemma ray_vector_obstruct:
  assumes "sight_ray cam r" and "0 \<le> rad"
  shows "ray_vector (obstruct c rad r False False) = obstruct_vec (vsub c (location cam)) rad (ray_vector r) False"
proof -
  have "ray_wf r" "origin_of r = location cam"
    using assms(1) by (simp_all add: sight_ray_def ray_wf_def origin_of_def)
  then show ?thesis using obstruct_vector [OF _ assms(2), of r c False] by simp
qed

lemma cut_by_Cons:
  "cut_by (o1 # obs) outer rays = cut_by obs outer
     (if opaque o1 then map (\<lambda>b. obstruct (location o1) (radius o1) b False outer) rays else rays)"
  by (simp add: cut_by_def)

text \<open>Cutting keeps the rays from the camera, and clears every obstacle the camera is not inside of.\<close>

lemma cut_by_clear:
  assumes "\<forall>o1 \<in> set obs. 0 \<le> radius o1" and "\<forall>r \<in> set rays. sight_ray cam r"
    and "(\<forall>o1 \<in> set obs. \<not> inside cam o1) \<or> (\<forall>r \<in> set rays. ray_vector r = (0, 0))"
    and "\<forall>r \<in> set rays. \<forall>(d, rad) \<in> D. clear_of d rad (ray_vector r)"
  shows "\<forall>r \<in> set (cut_by obs False rays). sight_ray cam r
     \<and> (\<forall>(d, rad) \<in> D. clear_of d rad (ray_vector r))
     \<and> (\<forall>o1 \<in> set obs. opaque o1 \<and> radius o1 \<le> vnorm (vsub (location o1) (location cam))
          \<longrightarrow> clear_of (vsub (location o1) (location cam)) (radius o1) (ray_vector r))"
  using assms
proof (induction obs arbitrary: rays D)
  case Nil
  then show ?case by (simp add: cut_by_def)
next
  case (Cons o1 obs)
  let ?d = "vsub (location o1) (location cam)"
  have rad: "0 \<le> radius o1" using Cons.prems(1) by simp
  show ?case
  proof (cases "opaque o1")
    case False
    then show ?thesis using Cons.IH [of rays D] Cons.prems by (auto simp: cut_by_Cons)
  next
    case True
    let ?cut = "\<lambda>b. obstruct (location o1) (radius o1) b False False"
    let ?rays = "map ?cut rays"
    let ?D = "if radius o1 \<le> vnorm ?d then insert (?d, radius o1) D else D"
    have vec: "ray_vector (?cut b) = obstruct_vec ?d (radius o1) (ray_vector b) False" if "b \<in> set rays" for b
      using Cons.prems(2) that by (intro ray_vector_obstruct rad) blast
    have scaled: "\<exists>k. 0 \<le> k \<and> k \<le> 1 \<and> ray_vector (?cut b) = vscale k (ray_vector b)" if b: "b \<in> set rays" for b
    proof (cases "radius o1 \<le> vnorm ?d")
      case le: True
      obtain k where "0 \<le> k" "k \<le> 1" "obstruct_vec ?d (radius o1) (ray_vector b) False = vscale k (ray_vector b)"
        by (rule obstruct_vec_scales [OF le])
      then show ?thesis unfolding vec [OF b] by blast
    next
      case False
      then have "inside cam o1" using True by (simp add: inside_def)
      then have "ray_vector b = (0, 0)" using Cons.prems(3) b by auto
      then show ?thesis
        unfolding vec [OF b] by (intro exI [of _ 0]) (simp add: obstruct_vec_def vneg_def vscale_def)
    qed
    have zero: "ray_vector (?cut b) = (0, 0)" if "b \<in> set rays" "ray_vector b = (0, 0)" for b
      using scaled [OF that(1)] that(2) by (auto simp: vscale_def)
    have old: "clear_of d r (ray_vector (?cut b))" if b: "b \<in> set rays" and D: "(d, r) \<in> D" for b d r
    proof -
      obtain k where "0 \<le> k" "k \<le> 1" "ray_vector (?cut b) = vscale k (ray_vector b)"
        using scaled [OF b] by blast
      moreover have "clear_of d r (ray_vector b)" using Cons.prems(4) b D by blast
      ultimately show ?thesis by (simp add: clear_of_scale)
    qed
    have new: "clear_of ?d (radius o1) (ray_vector (?cut b))" if "b \<in> set rays" "radius o1 \<le> vnorm ?d" for b
      unfolding vec [OF that(1)] by (rule obstruct_vec_clear [OF rad that(2)])
    have A: "\<forall>r \<in> set ?rays. sight_ray cam r"
      using Cons.prems(2) by (auto intro: sight_ray_obstruct [OF _ rad])
    have B: "(\<forall>o1 \<in> set obs. \<not> inside cam o1) \<or> (\<forall>r \<in> set ?rays. ray_vector r = (0, 0))"
      using Cons.prems(3) zero by simp blast
    have C: "\<forall>r \<in> set ?rays. \<forall>(d, r') \<in> ?D. clear_of d r' (ray_vector r)"
      using old new by auto
    have O: "\<forall>o1 \<in> set obs. 0 \<le> radius o1" using Cons.prems(1) by simp
    have cut: "cut_by (o1 # obs) False rays = cut_by obs False ?rays"
      using True by (simp add: cut_by_Cons)
    have sub: "D \<subseteq> ?D" "radius o1 \<le> vnorm ?d \<Longrightarrow> (?d, radius o1) \<in> ?D" by auto
    show ?thesis
      unfolding cut
    proof (intro ballI conjI)
      fix r assume "r \<in> set (cut_by obs False ?rays)"
      note R = bspec [OF Cons.IH [OF O A B C] this]
      show "sight_ray cam r" using R by blast
      have D': "\<forall>(d, rad) \<in> ?D. clear_of d rad (ray_vector r)" using R by blast
      then show "case x of (d, rad) \<Rightarrow> clear_of d rad (ray_vector r)" if "x \<in> D" for x
        using that sub(1) by blast
      fix o2 assume "o2 \<in> set (o1 # obs)"
      then consider "o2 = o1" | "o2 \<in> set obs" by auto
      then show "opaque o2 \<and> radius o2 \<le> vnorm (vsub (location o2) (location cam))
          \<longrightarrow> clear_of (vsub (location o2) (location cam)) (radius o2) (ray_vector r)"
      proof cases
        case 1
        then show ?thesis using D' sub(2) by blast
      next
        case 2
        then show ?thesis using R by blast
      qed
    qed
  qed
qed

lemma interpolate_boundary_Inr:
  assumes "interpolate_boundary rays = Inr ((phis, rhos), kept)"
  shows "dedup_ok rays kept" "kept \<noteq> []"
    "phis = map r_angle kept @ [r_angle (hd kept) + 360]" "rhos = map r_norm kept @ [r_norm (hd kept)]"
  using assms dedup_sorted [of rays]
  by (auto simp: interpolate_boundary_def Let_def bind_res_Inr close_circle_def split: list.splits)

lemma camera_add_obstacles_Inr:
  assumes "camera_add_obstacles order obs cam = Inr cam'"
  obtains phis rhos b ext where
    "ext = extend_boundary cam (map (\<lambda>i. obs ! i) (order (filter (\<lambda>i. in_reach cam (obs ! i)) [0..<length obs])))
             (boundary cam, boundary_outer cam)"
    "interpolate_boundary (cut_by (map (\<lambda>i. obs ! i)
       (order (filter (\<lambda>i. in_reach cam (obs ! i)) [0..<length obs]))) False (fst ext)) = Inr ((phis, rhos), b)"
    "boundary cam' = b" "sight_phis cam' = phis" "sight_rhos cam' = rhos"
  using assms by (auto simp: camera_add_obstacles_def Let_def bind_res_Inr split: prod.splits)


text \<open>The nodes handed to the interpolation: the angles increase strictly over exactly one turn,
  every angle of the rays is kept once, and the ray kept for it is a shortest one.\<close>

lemma interpolate_boundary_nodes:
  assumes "interpolate_boundary rays = Inr ((phis, rhos), kept)"
    and "\<forall>r \<in> set rays. - 180 \<le> r_angle r \<and> r_angle r < 180"
  shows "sorted_wrt (<) phis \<and> last phis = hd phis + 360 \<and> length phis = length rhos
    \<and> (\<forall>r \<in> set kept. shortest_in rays r) \<and> r_angle ` set kept = r_angle ` set rays"
proof -
  note K = interpolate_boundary_Inr [OF assms(1)]
  have ok: "sorted_wrt (\<lambda>a b. r_angle a < r_angle b) kept" "r_angle ` set kept = r_angle ` set rays"
    "\<forall>r \<in> set kept. shortest_in rays r" using K(1) by (auto simp: dedup_ok_def)
  have rng: "- 180 \<le> r_angle r \<and> r_angle r < 180" if "r \<in> set kept" for r
    using ok(3) that assms(2) by (auto simp: shortest_in_def)
  have "hd kept \<in> set kept" using K(2) by simp
  from rng [OF this] have "- 180 \<le> r_angle (hd kept)" by simp
  then have "\<forall>r \<in> set kept. r_angle r < r_angle (hd kept) + 360"
    using rng by fastforce
  then have "sorted_wrt (<) phis"
    using ok(1) unfolding K(3) by (simp add: sorted_wrt_append sorted_wrt_map)
  moreover have "last phis = hd phis + 360" "length phis = length rhos"
    unfolding K(3,4) using K(2) by (simp_all add: hd_map)
  ultimately show ?thesis using ok by blast
qed

end
