(* ===== verification/Messages.thy ===== *)
theory Messages
  imports Constants Randomness "HOL-Library.Sublist"
begin

text \<open>
  Communication inside a team: the class \<open>Message\<close> of \<^verbatim>\<open>mate/utils.py\<close>, the message queues,
  buffers and communication counters of \<^verbatim>\<open>mate/environment.py\<close> with \<open>route_messages\<close>,
  \<open>send_messages\<close> and \<open>receive_messages\<close>, and the channel wrappers \<open>MessageFilter\<close>,
  \<open>NoCommunication\<close>, \<open>RestrictedCommunicationRange\<close>, \<open>RandomMessageDropout\<close> and
  \<open>ExtraCommunicationDelays\<close> of \<^verbatim>\<open>mate/wrappers/\<close>.

  A \<open>defaultdict(list)\<close> from agent indices is a function, a missing key being the empty list. The
  contract of a channel (what is waiting for an agent after a send) is the locale \<open>channel\<close>: the
  environment provides it, and so does every filter around it.
\<close>

record 'm message =
  sender :: nat
  recipient :: "nat option"
  content :: 'm
  msg_team :: team
  broadcasting :: bool

record 'm mailbox =
  team_size :: "team \<Rightarrow> nat"
  message_queues :: "team \<Rightarrow> nat \<Rightarrow> 'm message list"
  message_buffers :: "team \<Rightarrow> nat \<Rightarrow> 'm message list"
  communication_edges :: "team \<Rightarrow> int list list"
  total_communication_edges :: "team \<Rightarrow> int list list"

subsection \<open>Operations\<close>

definition route_messages :: "'m mailbox \<Rightarrow> 'm message list \<Rightarrow> 'm message list" where
  "route_messages mb messages =
     concat (map (\<lambda>m. case recipient m of
         None \<Rightarrow> map (\<lambda>r. m\<lparr>recipient := Some r, broadcasting := True\<rparr>) [0..<team_size mb (msg_team m)]
       | Some _ \<Rightarrow> [m]) messages)"

text \<open>The body of the loop of \<open>send_messages\<close>; a routed message always names its recipient.\<close>

definition post_message :: "'m message \<Rightarrow> 'm mailbox \<Rightarrow> 'm mailbox res" where
  "post_message m mb =
     (case recipient m of
        None \<Rightarrow> Inl TypeError
      | Some r \<Rightarrow>
          let t = msg_team m; e = communication_edges mb t
          in if sender m < team_size mb t \<and> r < team_size mb t
             then Inr (mb\<lparr>
               message_queues := (message_queues mb)(t := (message_queues mb t)(r := message_queues mb t r @ [m])),
               message_buffers := (message_buffers mb)(t := (message_buffers mb t)(r := message_buffers mb t r @ [m])),
               communication_edges := (communication_edges mb)(t := mat_upd e (sender m) r (e ! sender m ! r + 1))\<rparr>)
             else Inl IndexError)"

definition one_team :: "'m message list \<Rightarrow> bool" where
  "one_team messages \<longleftrightarrow> length (remdups (map msg_team messages)) \<le> 1"

definition send_messages :: "'m mailbox \<Rightarrow> 'm message list \<Rightarrow> 'm mailbox res" where
  "send_messages mb messages =
     bind_res (check AssertionError (one_team messages))
       (\<lambda>_. fold_res post_message (route_messages mb messages) mb)"

text \<open>\<open>receive_messages()\<close> for everyone, and \<open>receive_messages(agent_id)\<close>.\<close>

definition receive_all ::
  "'m mailbox \<Rightarrow> ('m message list list \<times> 'm message list list) \<times> 'm mailbox" where
  "receive_all mb =
     ((map (message_queues mb CAMERA) [0..<team_size mb CAMERA],
       map (message_queues mb TARGET) [0..<team_size mb TARGET]),
      mb\<lparr>message_queues := (\<lambda>_ _. [])\<rparr>)"

definition receive_for :: "'m mailbox \<Rightarrow> team \<Rightarrow> nat \<Rightarrow> 'm message list \<times> 'm mailbox" where
  "receive_for mb t i =
     (message_queues mb t i,
      mb\<lparr>message_queues := (message_queues mb)(t := (message_queues mb t)(i := []))\<rparr>)"

text \<open>The end of \<open>step\<close>, and the end of \<open>reset\<close>.\<close>

definition mat_add :: "int list list \<Rightarrow> int list list \<Rightarrow> int list list" where
  "mat_add a b = map2 (map2 (+)) a b"

definition zero_edges :: "nat \<Rightarrow> int list list" where
  "zero_edges n = replicate n (replicate n 0)"

definition end_of_step :: "'m mailbox \<Rightarrow> 'm mailbox" where
  "end_of_step mb =
     mb\<lparr>total_communication_edges :=
          (\<lambda>t. mat_add (total_communication_edges mb t) (communication_edges mb t)),
        communication_edges := (\<lambda>t. zero_edges (team_size mb t)),
        message_buffers := (\<lambda>_ _. []), message_queues := (\<lambda>_ _. [])\<rparr>"

definition clear_mailbox :: "'m mailbox \<Rightarrow> 'm mailbox" where
  "clear_mailbox mb =
     mb\<lparr>total_communication_edges := (\<lambda>t. zero_edges (team_size mb t)),
        communication_edges := (\<lambda>t. zero_edges (team_size mb t)),
        message_buffers := (\<lambda>_ _. []), message_queues := (\<lambda>_ _. [])\<rparr>"

subsection \<open>Channel wrappers\<close>

text \<open>\<open>filter(self._filter, messages)\<close>: the filter function may raise.\<close>

fun filter_res :: "('a \<Rightarrow> bool res) \<Rightarrow> 'a list \<Rightarrow> 'a list res" where
  "filter_res keep [] = Inr []"
| "filter_res keep (x # xs) =
     bind_res (keep x) (\<lambda>b. bind_res (filter_res keep xs) (\<lambda>ys. Inr (if b then x # ys else ys)))"

definition filter_send ::
  "('s \<Rightarrow> 'm message list \<Rightarrow> 'm message list) \<Rightarrow> ('s \<Rightarrow> 'm message list \<Rightarrow> 's res)
    \<Rightarrow> ('m message \<Rightarrow> bool res) \<Rightarrow> 's \<Rightarrow> 'm message list \<Rightarrow> 's res" where
  "filter_send route send keep s messages = bind_res (filter_res keep (route s messages)) (send s)"

datatype team_choice = Both | OnlyCamera | OnlyTarget | NoTeam

definition no_communication :: "team_choice \<Rightarrow> 'm message \<Rightarrow> bool res" where
  "no_communication disabled m =
     (case disabled of Both \<Rightarrow> Inr False | NoTeam \<Rightarrow> Inr True
      | OnlyCamera \<Rightarrow> Inr (msg_team m \<noteq> CAMERA) | OnlyTarget \<Rightarrow> Inr (msg_team m \<noteq> TARGET))"

text \<open>The locations of the agents of each team are the part of the environment the filter reads.\<close>

definition within_range :: "(team \<Rightarrow> vec list) \<Rightarrow> real \<Rightarrow> 'm message \<Rightarrow> bool res" where
  "within_range locations range_limit m =
     (case recipient m of
        None \<Rightarrow> Inl TypeError
      | Some r \<Rightarrow>
          let entities = locations (msg_team m)
          in if sender m < length entities \<and> r < length entities
             then Inr (vnorm (vsub (entities ! r) (entities ! sender m)) \<le> range_limit)
             else Inl IndexError)"

text \<open>\<open>RandomMessageDropout\<close> draws from the generator of the environment for every message.\<close>

fun dropout_filter :: "(('g \<Rightarrow> real \<Rightarrow> nat \<times> 'g)) \<Rightarrow> real \<Rightarrow> 'g \<Rightarrow> 'm message list \<Rightarrow> 'm message list \<times> 'g" where
  "dropout_filter binom p g [] = ([], g)"
| "dropout_filter binom p g (m # ms) =
     (case binom g p of (b, g1) \<Rightarrow>
        case dropout_filter binom p g1 ms of (kept, g2) \<Rightarrow> (if b = 0 then m # kept else kept, g2))"

definition dropout_send ::
  "('g \<Rightarrow> real \<Rightarrow> nat \<times> 'g) \<Rightarrow> real \<Rightarrow> 'm mailbox \<times> 'g \<Rightarrow> 'm message list \<Rightarrow> ('m mailbox \<times> 'g) res" where
  "dropout_send binom p s messages =
     (case s of (mb, g) \<Rightarrow>
        case dropout_filter binom p g (route_messages mb messages) of (kept, g') \<Rightarrow>
          bind_res (send_messages mb kept) (\<lambda>mb'. Inr (mb', g')))"

definition new_dropout :: "real \<Rightarrow> real res" where
  "new_dropout p = bind_res (check AssertionError (0 \<le> p \<and> p \<le> 1)) (\<lambda>_. Inr p)"

subsection \<open>Delays\<close>

text \<open>
  The heap holds pairs of a due time and a message. Python compares tuples left to right: at
  equal times it compares the messages, and \<open>Message\<close>, a dataclass without \<open>order=True\<close>, has
  \<open>==\<close> but no \<open><\<close>. \<open>siftdown\<close> and \<open>siftup\<close> are the loops of \<open>heapq\<close>.
\<close>

type_synonym 'm entry = "int \<times> 'm message"

definition entry_less :: "'m entry \<Rightarrow> 'm entry \<Rightarrow> bool res" where
  "entry_less a b =
     (if fst a \<noteq> fst b then Inr (fst a < fst b)
      else if snd a = snd b then Inr False else Inl TypeError)"

function siftdown :: "'m entry list \<Rightarrow> nat \<Rightarrow> 'm entry \<Rightarrow> 'm entry list res" where
  "siftdown heap pos newitem =
     (if pos = 0 then Inr (heap[pos := newitem])
      else (let parentpos = (pos - 1) div 2; parent = heap ! parentpos
            in bind_res (entry_less newitem parent) (\<lambda>b.
                 if b then siftdown (heap[pos := parent]) parentpos newitem
                 else Inr (heap[pos := newitem]))))"
  by pat_completeness auto
termination
  by (relation "measure (\<lambda>(heap, pos, newitem). pos)") auto

function siftup :: "'m entry list \<Rightarrow> nat \<Rightarrow> 'm entry \<Rightarrow> 'm entry list res" where
  "siftup heap pos newitem =
     (let childpos = 2 * pos + 1; rightpos = childpos + 1
      in if childpos \<ge> length heap then siftdown heap pos newitem
         else if rightpos < length heap
         then bind_res (entry_less (heap ! childpos) (heap ! rightpos)) (\<lambda>b.
                let c = (if b then childpos else rightpos)
                in siftup (heap[pos := heap ! c]) c newitem)
         else siftup (heap[pos := heap ! childpos]) childpos newitem)"
  by pat_completeness auto
termination
  by (relation "measure (\<lambda>(heap, pos, newitem). length heap - pos)") (auto split: if_splits)

definition heappush :: "'m entry list \<Rightarrow> 'm entry \<Rightarrow> 'm entry list res" where
  "heappush heap item = siftdown (heap @ [item]) (length heap) item"

definition heappop :: "'m entry list \<Rightarrow> ('m entry \<times> 'm entry list) res" where
  "heappop heap =
     (if heap = [] then Inl IndexError
      else (let lastelt = last heap; rest = butlast heap
            in if rest = [] then Inr (lastelt, [])
               else bind_res (siftup rest 0 lastelt) (\<lambda>h. Inr (rest ! 0, h))))"

text \<open>The loop that releases what is due; the heap shrinks in every round, so its length is enough fuel.\<close>

fun release_due :: "nat \<Rightarrow> int \<Rightarrow> 'm entry list \<Rightarrow> ('m message list \<times> 'm entry list) res" where
  "release_due 0 now heap = Inr ([], heap)"
| "release_due (Suc fuel) now heap =
     (if heap \<noteq> [] \<and> fst (heap ! 0) \<le> now
      then bind_res (heappop heap) (\<lambda>(item, heap1).
             bind_res (release_due fuel now heap1) (\<lambda>(ms, heap2). Inr (snd item # ms, heap2)))
      else Inr ([], heap))"

definition delay_send ::
  "('m message \<Rightarrow> int) \<Rightarrow> int \<Rightarrow> 'm entry list \<times> 'm mailbox \<Rightarrow> 'm message list
    \<Rightarrow> ('m entry list \<times> 'm mailbox) res" where
  "delay_send delay episode_step s messages =
     (case s of (heap, mb) \<Rightarrow>
        bind_res (check AssertionError (one_team messages)) (\<lambda>_.
        bind_res (fold_res (\<lambda>m h. heappush h (episode_step + delay m, m)) messages heap) (\<lambda>heap1.
        bind_res (release_due (length heap1) episode_step heap1) (\<lambda>(due, heap2).
        bind_res (send_messages mb due) (\<lambda>mb'. Inr (heap2, mb'))))))"

declare siftdown.simps [simp del] siftup.simps [simp del]

subsection \<open>Routing\<close>

definition addressed :: "team \<Rightarrow> nat \<Rightarrow> 'm message \<Rightarrow> bool" where
  "addressed t i m \<longleftrightarrow> msg_team m = t \<and> recipient m = Some i"

lemma route_recipients: "\<forall>m \<in> set (route_messages mb ms). recipient m \<noteq> None"
  by (induction ms) (auto simp: route_messages_def split: option.splits)

lemma route_recipient: "m \<in> set (route_messages mb ms) \<Longrightarrow> recipient m \<noteq> None"
  using route_recipients by blast

lemma route_routed: "\<forall>m \<in> set ms. recipient m \<noteq> None \<Longrightarrow> route_messages mb ms = ms"
  by (induction ms) (auto simp: route_messages_def)

lemma route_append: "route_messages mb (ms @ ms') = route_messages mb ms @ route_messages mb ms'"
  by (simp add: route_messages_def)

lemma route_cong: "team_size mb = team_size mb' \<Longrightarrow> route_messages mb = route_messages mb'"
  by (intro ext) (simp add: route_messages_def cong: option.case_cong)

text \<open>A broadcast reaches every agent of the team once, the sender included.\<close>

lemma filter_addressed_broadcast:
  assumes "recipient m = None" and "i < team_size mb (msg_team m)"
  shows "filter (addressed (msg_team m) i) (route_messages mb [m]) = [m\<lparr>recipient := Some i, broadcasting := True\<rparr>]"
proof -
  have "filter (\<lambda>r. r = i) [0..<n] = [i]" if "i < n" for n
    using that by (induction n) (auto simp: less_Suc_eq)
  then show ?thesis
    using assms by (simp add: route_messages_def filter_map comp_def addressed_def)
qed

lemma one_team_iff: "one_team ms \<longleftrightarrow> (\<forall>m \<in> set ms. \<forall>m' \<in> set ms. msg_team m = msg_team m')"
proof -
  have "length (remdups (map msg_team ms)) = card (msg_team ` set ms)"
    by (simp add: length_remdups_card_conv)
  then have "one_team ms \<longleftrightarrow> card (msg_team ` set ms) \<le> Suc 0"
    by (simp add: one_team_def)
  also have "\<dots> \<longleftrightarrow> (\<forall>m \<in> set ms. \<forall>m' \<in> set ms. msg_team m = msg_team m')"
    by (subst card_le_Suc0_iff_eq) auto
  finally show ?thesis .
qed

subsection \<open>Sending\<close>

definition mailbox_ok :: "'m mailbox \<Rightarrow> bool" where
  "mailbox_ok mb \<longleftrightarrow>
     (\<forall>t. is_matrix (team_size mb t) (team_size mb t) (communication_edges mb t)
        \<and> is_matrix (team_size mb t) (team_size mb t) (total_communication_edges mb t))"

definition in_team :: "'m mailbox \<Rightarrow> 'm message \<Rightarrow> bool" where
  "in_team mb m \<longleftrightarrow> sender m < team_size mb (msg_team m)
     \<and> (\<forall>r. recipient m = Some r \<longrightarrow> r < team_size mb (msg_team m))"

definition sent :: "'m message list \<Rightarrow> team \<Rightarrow> nat \<Rightarrow> nat \<Rightarrow> int" where
  "sent ms t i j = int (length (filter (\<lambda>m. msg_team m = t \<and> sender m = i \<and> recipient m = Some j) ms))"

text \<open>The effect of posting a list of routed messages.\<close>

definition posted :: "'m message list \<Rightarrow> 'm mailbox \<Rightarrow> 'm mailbox \<Rightarrow> bool" where
  "posted ms mb mb' \<longleftrightarrow>
     team_size mb' = team_size mb \<and> total_communication_edges mb' = total_communication_edges mb
   \<and> (\<forall>t i. message_queues mb' t i = message_queues mb t i @ filter (addressed t i) ms)
   \<and> (\<forall>t i. message_buffers mb' t i = message_buffers mb t i @ filter (addressed t i) ms)"

lemma posted_refl: "posted [] mb mb"
  by (simp add: posted_def)

lemma posted_trans: "posted ms mb mb' \<Longrightarrow> posted ms' mb' mb'' \<Longrightarrow> posted (ms @ ms') mb mb''"
  by (simp add: posted_def)

lemma post_message_posted: "post_message m mb = Inr mb' \<Longrightarrow> posted [m] mb mb'"
  by (auto simp: post_message_def posted_def addressed_def Let_def split: option.splits if_splits)

lemma fold_posted: "fold_res post_message ms mb = Inr mb' \<Longrightarrow> posted ms mb mb'"
proof (induction ms arbitrary: mb)
  case Nil
  then show ?case by (simp add: posted_refl)
next
  case (Cons m ms)
  then obtain mb1 where "post_message m mb = Inr mb1" "fold_res post_message ms mb1 = Inr mb'"
    by (auto simp: bind_res_Inr)
  then show ?case
    using posted_trans [OF post_message_posted Cons.IH] by fastforce
qed

lemma post_message_cases:
  assumes "post_message m mb = Inr mb'"
  obtains r where "recipient m = Some r" "sender m < team_size mb (msg_team m)" "r < team_size mb (msg_team m)"
    "communication_edges mb' = (communication_edges mb)(msg_team m :=
       mat_upd (communication_edges mb (msg_team m)) (sender m) r
         (communication_edges mb (msg_team m) ! sender m ! r + 1))"
  using assms by (auto simp: post_message_def Let_def split: option.splits if_splits)

lemma post_message_edges:
  assumes "post_message m mb = Inr mb'"
    and "is_matrix (team_size mb t) (team_size mb t) (communication_edges mb t)"
  shows "i < team_size mb t
      \<Longrightarrow> communication_edges mb' t ! i ! j = communication_edges mb t ! i ! j + sent [m] t i j"
    and "is_matrix (team_size mb t) (team_size mb t) (communication_edges mb' t)"
proof -
  obtain r where r: "recipient m = Some r" "sender m < team_size mb (msg_team m)"
    "r < team_size mb (msg_team m)"
    and e: "communication_edges mb' = (communication_edges mb)(msg_team m :=
       mat_upd (communication_edges mb (msg_team m)) (sender m) r
         (communication_edges mb (msg_team m) ! sender m ! r + 1))"
    by (rule post_message_cases [OF assms(1)])
  show "communication_edges mb' t ! i ! j = communication_edges mb t ! i ! j + sent [m] t i j"
    if "i < team_size mb t"
    using that r assms(2) mat_upd_nth [OF assms(2), of "sender m" r i]
    by (cases "msg_team m = t") (auto simp: e sent_def)
  show "is_matrix (team_size mb t) (team_size mb t) (communication_edges mb' t)"
    using assms(2) by (auto simp: e)
qed

lemma fold_edges:
  assumes "fold_res post_message ms mb = Inr mb'"
    and "is_matrix (team_size mb t) (team_size mb t) (communication_edges mb t)"
  shows "(\<forall>i < team_size mb t. \<forall>j. communication_edges mb' t ! i ! j
        = communication_edges mb t ! i ! j + sent ms t i j)
    \<and> is_matrix (team_size mb t) (team_size mb t) (communication_edges mb' t)"
  using assms
proof (induction ms arbitrary: mb)
  case Nil
  then show ?case by (simp add: sent_def)
next
  case (Cons m ms)
  have sent: "sent (m # ms) t i j = sent [m] t i j + sent ms t i j" for i j by (simp add: sent_def)
  obtain mb1 where mb1: "post_message m mb = Inr mb1" "fold_res post_message ms mb1 = Inr mb'"
    using Cons.prems(1) by (auto simp: bind_res_Inr)
  have "team_size mb1 = team_size mb" using post_message_posted [OF mb1(1)] by (simp add: posted_def)
  then show ?case
    using Cons.IH [OF mb1(2)] post_message_edges [OF mb1(1) Cons.prems(2)] sent by simp
qed

lemma fold_succeeds:
  assumes "\<forall>m \<in> set ms. recipient m \<noteq> None \<and> in_team mb m"
  shows "\<exists>mb'. fold_res post_message ms mb = Inr mb'"
  using assms
proof (induction ms arbitrary: mb)
  case Nil
  then show ?case by simp
next
  case (Cons m ms)
  then obtain r where r: "recipient m = Some r" by auto
  obtain mb1 where p: "post_message m mb = Inr mb1"
    using Cons.prems r by (auto simp: post_message_def in_team_def Let_def)
  have "team_size mb1 = team_size mb" using post_message_posted [OF p] by (simp add: posted_def)
  then show ?case using Cons.IH [of mb1] Cons.prems by (auto simp: p in_team_def)
qed

lemma route_in_team:
  assumes "\<forall>m \<in> set ms. in_team mb m"
  shows "\<forall>m \<in> set (route_messages mb ms). recipient m \<noteq> None \<and> in_team mb m"
proof -
  have one: "\<forall>m' \<in> set (route_messages mb [m]). in_team mb m'" if "in_team mb m" for m
    using that by (cases "recipient m") (simp_all add: route_messages_def in_team_def)
  have "\<forall>m' \<in> set (route_messages mb ms). in_team mb m'"
    using assms
  proof (induction ms)
    case Nil
    then show ?case by (simp add: route_messages_def)
  next
    case (Cons m ms)
    then show ?case using one [of m] route_append [of mb "[m]" ms] by auto
  qed
  then show ?thesis using route_recipients by blast
qed

subsection \<open>The contract of a channel\<close>

locale channel =
  fixes send :: "'s \<Rightarrow> 'm message list \<Rightarrow> 's res"
    and route :: "'s \<Rightarrow> 'm message list \<Rightarrow> 'm message list"
    and waiting :: "'s \<Rightarrow> team \<Rightarrow> nat \<Rightarrow> 'm message list"
    and passes :: "'m message \<Rightarrow> bool"
  assumes send_waiting: "send s ms = Inr s'
      \<Longrightarrow> waiting s' t i = waiting s t i @ filter (\<lambda>m. addressed t i m \<and> passes m) (route s ms)"
    and send_route: "send s ms = Inr s' \<Longrightarrow> route s' = route s"
    and route_addressed: "m \<in> set (route s ms) \<Longrightarrow> recipient m \<noteq> None"
    and route_again: "\<forall>m \<in> set ms. recipient m \<noteq> None \<Longrightarrow> route s ms = ms"
begin

text \<open>A sequence of sends: everything that passes is waiting in the order in which it was sent.\<close>

lemma sends_in_order:
  assumes "fold_res (\<lambda>ms s. send s ms) batches s = Inr s'"
  shows "waiting s' t i = waiting s t i
    @ filter (\<lambda>m. addressed t i m \<and> passes m) (concat (map (route s) batches))"
  using assms
proof (induction batches arbitrary: s)
  case Nil
  then show ?case by simp
next
  case (Cons ms batches)
  then obtain s1 where s1: "send s ms = Inr s1" "fold_res (\<lambda>ms s. send s ms) batches s1 = Inr s'"
    by (auto simp: bind_res_Inr)
  show ?case
    using Cons.IH [OF s1(2)] send_waiting [OF s1(1)] send_route [OF s1(1)] by simp
qed

lemma nothing_passes:
  assumes "send s ms = Inr s'" and "\<And>m. m \<in> set (route s ms) \<Longrightarrow> \<not> passes m"
  shows "waiting s' t i = waiting s t i"
proof -
  have "filter (\<lambda>m. addressed t i m \<and> passes m) (route s ms) = []"
    using assms(2) by (auto simp: filter_empty_conv)
  then show ?thesis using send_waiting [OF assms(1)] by simp
qed

lemma filter_res_passes:
  "filter_res keep xs = Inr ys \<Longrightarrow> ys = filter (\<lambda>x. keep x = Inr True) xs"
  by (induction xs arbitrary: ys) (auto simp: bind_res_Inr)

text \<open>A filter in front of a channel gives a channel: both conditions must hold.\<close>

lemma filtered_waiting:
  assumes "filter_send route send keep s ms = Inr s'"
  shows "waiting s' t i = waiting s t i
      @ filter (\<lambda>m. addressed t i m \<and> passes m \<and> keep m = Inr True) (route s ms)"
    and "route s' = route s"
proof -
  obtain kept where k: "filter_res keep (route s ms) = Inr kept" "send s kept = Inr s'"
    using assms by (auto simp: filter_send_def bind_res_Inr)
  have kept: "kept = filter (\<lambda>m. keep m = Inr True) (route s ms)"
    by (rule filter_res_passes [OF k(1)])
  have "route s kept = kept"
    using route_addressed by (intro route_again) (auto simp: kept)
  then show "waiting s' t i = waiting s t i
      @ filter (\<lambda>m. addressed t i m \<and> passes m \<and> keep m = Inr True) (route s ms)"
    using send_waiting [OF k(2), of t i] by (simp add: kept conj_ac)
  show "route s' = route s" by (rule send_route [OF k(2)])
qed

end

lemma send_nothing: "send_messages mb [] = Inr mb"
  by (simp add: send_messages_def one_team_def route_messages_def check_def)

lemma send_messages_Inr:
  "send_messages mb ms = Inr mb' \<longleftrightarrow>
     one_team ms \<and> fold_res post_message (route_messages mb ms) mb = Inr mb'"
  by (simp add: send_messages_def bind_check)

interpretation env: channel send_messages route_messages message_queues "\<lambda>_. True"
proof
  fix mb mb' :: "'m mailbox" and ms :: "'m message list" and t i and m :: "'m message"
  show "message_queues mb' t i = message_queues mb t i
      @ filter (\<lambda>m. addressed t i m \<and> True) (route_messages mb ms)"
    if "send_messages mb ms = Inr mb'"
  proof -
    have "posted (route_messages mb ms) mb mb'"
      using that fold_posted send_messages_Inr by blast
    then show ?thesis by (simp add: posted_def)
  qed
  show "route_messages mb' = route_messages mb" if "send_messages mb ms = Inr mb'"
  proof -
    have "posted (route_messages mb ms) mb mb'"
      using that fold_posted send_messages_Inr by blast
    then show ?thesis by (intro route_cong) (simp add: posted_def)
  qed
  show "recipient m \<noteq> None" if "m \<in> set (route_messages mb ms)"
    using that by (rule route_recipient)
  show "route_messages mb ms = ms" if "\<forall>m \<in> set ms. recipient m \<noteq> None"
    using that by (rule route_routed)
qed

text \<open>A filter in front of the environment, and a second filter in front of that, are channels.\<close>

interpretation filtered: channel "filter_send route_messages send_messages keep" route_messages
    message_queues "\<lambda>m. keep m = Inr True" for keep :: "'m message \<Rightarrow> bool res"
proof
  fix mb mb' :: "'m mailbox" and ms :: "'m message list" and t i and m :: "'m message"
  show "message_queues mb' t i = message_queues mb t i
      @ filter (\<lambda>m. addressed t i m \<and> keep m = Inr True) (route_messages mb ms)"
    if "filter_send route_messages send_messages keep mb ms = Inr mb'"
    using env.filtered_waiting(1) [OF that] by simp
  show "route_messages mb' = route_messages mb"
    if "filter_send route_messages send_messages keep mb ms = Inr mb'"
    by (rule env.filtered_waiting(2) [OF that])
qed (simp_all add: route_recipient route_routed)

subsection \<open>Dropout and delays\<close>

lemma dropout_Cons:
  "fst (dropout_filter binom p g (m # ms))
    = (if fst (binom g p) = 0 then [m] else []) @ fst (dropout_filter binom p (snd (binom g p)) ms)"
  by (simp split: prod.split)

lemma dropout_subseq: "subseq (fst (dropout_filter binom p g ms)) ms"
  by (induction ms arbitrary: g) (auto simp: dropout_Cons simp del: dropout_filter.simps(2) intro: list_emb_Cons)

lemma dropout_none:
  assumes "\<And>g. fst (binom g p) = 0"
  shows "fst (dropout_filter binom p g ms) = ms"
  by (induction ms arbitrary: g) (simp_all add: dropout_Cons assms del: dropout_filter.simps(2))

lemma dropout_all:
  assumes "\<And>g. fst (binom g p) = 1"
  shows "fst (dropout_filter binom p g ms) = []"
  by (induction ms arbitrary: g) (simp_all add: dropout_Cons assms del: dropout_filter.simps(2))

lemma heap_single:
  "heappush [] e = Inr [e]" "heappop [e] = Inr (e, [])"
  by (simp_all add: heappush_def heappop_def siftdown.simps)

text \<open>A second entry with the same due time makes the heap compare two messages.\<close>

lemma heap_tie:
  assumes "m \<noteq> m'"
  shows "heappush [(k, m)] (k, m') = Inl TypeError"
  using assms by (simp add: heappush_def siftdown.simps [of _ "Suc 0"] entry_less_def)

subsection \<open>Properties\<close>

text \<open>C23: sending a list of messages of one team with indices inside the team succeeds; every
  agent finds the messages addressed to it at the end of its queue and of its buffer, in the order
  sent and broadcasts copied to every teammate, and the communication counters grow by the number
  of messages from the sender to the recipient.\<close>

theorem send_messages_delivers:
  assumes "mailbox_ok mb" and "one_team ms" and "\<forall>m \<in> set ms. in_team mb m"
  shows "\<exists>mb'. send_messages mb ms = Inr mb' \<and> mailbox_ok mb'
    \<and> (\<forall>t i. message_queues mb' t i = message_queues mb t i @ filter (addressed t i) (route_messages mb ms))
    \<and> (\<forall>t i. message_buffers mb' t i = message_buffers mb t i @ filter (addressed t i) (route_messages mb ms))
    \<and> (\<forall>t. \<forall>i < team_size mb t. \<forall>j. communication_edges mb' t ! i ! j
         = communication_edges mb t ! i ! j + sent (route_messages mb ms) t i j)"
proof -
  obtain mb' where f: "fold_res post_message (route_messages mb ms) mb = Inr mb'"
    using fold_succeeds [OF route_in_team [OF assms(3)]] by blast
  note P = fold_posted [OF f]
  have E: "(\<forall>i < team_size mb t. \<forall>j. communication_edges mb' t ! i ! j
        = communication_edges mb t ! i ! j + sent (route_messages mb ms) t i j)
    \<and> is_matrix (team_size mb t) (team_size mb t) (communication_edges mb' t)" for t
    by (rule fold_edges [OF f]) (use assms(1) in \<open>simp add: mailbox_ok_def\<close>)
  then have "mailbox_ok mb'"
    using P E assms(1) by (simp add: mailbox_ok_def posted_def)
  then show ?thesis
    using f P E assms(2) by (auto simp: send_messages_Inr posted_def)
qed

text \<open>A mailbox of two cameras and two targets, and a few messages, for the witnesses.\<close>

definition demo_mailbox :: "nat mailbox" where
  "demo_mailbox = \<lparr>team_size = (\<lambda>_. 2), message_queues = (\<lambda>_ _. []), message_buffers = (\<lambda>_ _. []),
     communication_edges = (\<lambda>_. zero_edges 2), total_communication_edges = (\<lambda>_. zero_edges 2)\<rparr>"

definition demo_message :: "nat \<Rightarrow> nat option \<Rightarrow> team \<Rightarrow> nat message" where
  "demo_message i r t = \<lparr>sender = i, recipient = r, content = 7, msg_team = t, broadcasting = (r = None)\<rparr>"

lemma demo_mailbox_ok: "mailbox_ok demo_mailbox"
  by (simp add: mailbox_ok_def demo_mailbox_def zero_edges_def is_matrix_def)

theorem send_messages_delivers_witness:
  "\<exists>mb'. send_messages demo_mailbox [demo_message 0 None CAMERA, demo_message 1 (Some 0) CAMERA] = Inr mb'
     \<and> communication_edges mb' CAMERA ! 0 ! 1 = 1 \<and> length (message_queues mb' CAMERA 0) = 2"
proof -
  let ?ms = "[demo_message 0 None CAMERA, demo_message 1 (Some 0) CAMERA]"
  have ms: "one_team ?ms" "\<forall>m \<in> set ?ms. in_team demo_mailbox m"
    by (simp_all add: one_team_def in_team_def demo_message_def demo_mailbox_def)
  from send_messages_delivers [OF demo_mailbox_ok ms] obtain mb' where
    mb': "send_messages demo_mailbox ?ms = Inr mb'"
    and q: "message_queues mb' CAMERA 0 = message_queues demo_mailbox CAMERA 0
        @ filter (addressed CAMERA 0) (route_messages demo_mailbox ?ms)"
    and e: "\<forall>i < team_size demo_mailbox CAMERA. \<forall>j. communication_edges mb' CAMERA ! i ! j
         = communication_edges demo_mailbox CAMERA ! i ! j + sent (route_messages demo_mailbox ?ms) CAMERA i j"
    by blast
  have r: "route_messages demo_mailbox ?ms = [demo_message 0 (Some 0) CAMERA\<lparr>broadcasting := True\<rparr>,
      demo_message 0 (Some 1) CAMERA\<lparr>broadcasting := True\<rparr>, demo_message 1 (Some 0) CAMERA]"
    by (simp add: route_messages_def demo_message_def demo_mailbox_def numeral_2_eq_2)
  have "communication_edges mb' CAMERA ! 0 ! 1 = 1"
    using e [unfolded r, rule_format, of 0 1]
    by (simp add: demo_mailbox_def zero_edges_def sent_def demo_message_def)
  moreover have "length (message_queues mb' CAMERA 0) = 2"
    using q [unfolded r] by (simp add: demo_mailbox_def addressed_def demo_message_def)
  ultimately show ?thesis using mb' by blast
qed

lemma post_no_assertion: "post_message m mb \<noteq> Inl AssertionError"
  by (simp add: post_message_def Let_def split: option.split)

lemma fold_no_assertion: "fold_res post_message ms mb \<noteq> Inl AssertionError"
proof (induction ms arbitrary: mb)
  case Nil
  show ?case by simp
next
  case (Cons m ms)
  then show ?case using post_no_assertion [of m mb] by (cases "post_message m mb") simp_all
qed

text \<open>A send is refused with an assertion error exactly when the list mixes the two teams.\<close>

lemma send_messages_mixed:
  "send_messages mb ms = Inl AssertionError \<longleftrightarrow> (\<exists>m \<in> set ms. \<exists>m' \<in> set ms. msg_team m \<noteq> msg_team m')"
proof -
  have "send_messages mb ms = Inl AssertionError \<longleftrightarrow> \<not> one_team ms"
    by (simp add: send_messages_def bind_check fold_no_assertion)
  then show ?thesis by (simp add: one_team_iff)
qed

text \<open>Receiving takes the queue exactly once: what an agent receives after a send is its old
  queue followed by the routed messages addressed to it, a second receive returns nothing, and the
  queues of the other agents are untouched.\<close>

lemma receive_after_send:
  assumes "send_messages mb ms = Inr mb'"
  shows "fst (receive_for mb' t i)
      = message_queues mb t i @ filter (addressed t i) (route_messages mb ms)
    \<and> fst (receive_for (snd (receive_for mb' t i)) t i) = []
    \<and> (\<forall>t' i'. (t', i') \<noteq> (t, i)
        \<longrightarrow> message_queues (snd (receive_for mb' t i)) t' i' = message_queues mb' t' i')"
proof (intro conjI allI impI)
  show "fst (receive_for mb' t i) = message_queues mb t i @ filter (addressed t i) (route_messages mb ms)"
    using env.send_waiting [OF assms, of t i] by (simp add: receive_for_def)
  show "fst (receive_for (snd (receive_for mb' t i)) t i) = []"
    by (simp add: receive_for_def)
  show "message_queues (snd (receive_for mb' t i)) t' i' = message_queues mb' t' i'"
    if "(t', i') \<noteq> (t, i)" for t' i'
    using that by (auto simp: receive_for_def)
qed

lemma demo_send_ok: "\<exists>mb'. send_messages demo_mailbox [demo_message 0 (Some 1) TARGET] = Inr mb'"
  by (simp add: send_messages_def one_team_def route_messages_def post_message_def demo_message_def
      demo_mailbox_def check_def Let_def)

lemma demo_route: "route_messages demo_mailbox [demo_message 0 (Some 1) TARGET] = [demo_message 0 (Some 1) TARGET]"
  by (simp add: route_messages_def demo_message_def)

lemma demo_addressed: "addressed TARGET 1 (demo_message 0 (Some 1) TARGET)"
  by (simp add: addressed_def demo_message_def)

text \<open>Stacking two message filters lets through, in order, exactly the messages both accept.\<close>

lemma stacked_filters:
  assumes "filter_send route_messages (filter_send route_messages send_messages f) g mb ms = Inr mb'"
  shows "message_queues mb' t i = message_queues mb t i
    @ filter (\<lambda>m. addressed t i m \<and> f m = Inr True \<and> g m = Inr True) (route_messages mb ms)"
  by (rule filtered.filtered_waiting(1) [OF assms])

text \<open>With communication disabled for both teams no send changes what anybody receives;
  disabled for one team, the other team's messages all pass.\<close>

lemma no_communication_silent:
  fixes ms :: "'m message list"
  assumes "filter_send route_messages send_messages (no_communication disabled) mb ms = Inr mb'"
  shows "(disabled = Both \<longrightarrow> message_queues mb' = message_queues mb)
    \<and> (disabled = OnlyCamera \<longrightarrow> message_queues mb' CAMERA = message_queues mb CAMERA
        \<and> (\<forall>i. message_queues mb' TARGET i
             = message_queues mb TARGET i @ filter (addressed TARGET i) (route_messages mb ms)))
    \<and> (disabled = OnlyTarget \<longrightarrow> message_queues mb' TARGET = message_queues mb TARGET
        \<and> (\<forall>i. message_queues mb' CAMERA i
             = message_queues mb CAMERA i @ filter (addressed CAMERA i) (route_messages mb ms)))"
proof -
  have q: "message_queues mb' t i = message_queues mb t i
      @ filter (\<lambda>m. addressed t i m \<and> no_communication disabled m = Inr True) (route_messages mb ms)" for t i
    using filtered.send_waiting [OF assms, of t i] by simp
  have off: "message_queues mb' t = message_queues mb t"
    if "\<And>m :: 'm message. msg_team m = t \<Longrightarrow> no_communication disabled m \<noteq> Inr True" for t
  proof (rule ext)
    fix i
    have "filter (\<lambda>m. addressed t i m \<and> no_communication disabled m = Inr True) (route_messages mb ms) = []"
      using that by (auto simp: filter_empty_conv addressed_def)
    then show "message_queues mb' t i = message_queues mb t i" by (simp add: q)
  qed
  have on: "message_queues mb' t i = message_queues mb t i @ filter (addressed t i) (route_messages mb ms)"
    if "\<And>m :: 'm message. msg_team m = t \<Longrightarrow> no_communication disabled m = Inr True" for t i
    unfolding q using that by (auto simp: addressed_def intro!: filter_cong)
  show ?thesis
  proof (cases disabled)
    case Both
    then have "message_queues mb' t = message_queues mb t" for t
      by (intro off) (simp add: no_communication_def)
    then show ?thesis using Both by auto
  next
    case OnlyCamera
    then show ?thesis using off [of CAMERA] on [of TARGET] by (auto simp: no_communication_def)
  next
    case OnlyTarget
    then show ?thesis using off [of TARGET] on [of CAMERA] by (auto simp: no_communication_def)
  qed simp
qed

text \<open>Random dropout sends a subsequence of the routed messages, in order; at rate 0 it sends
  them all and at rate 1 none.\<close>

lemma dropout_send_drops:
  assumes "dropout_send (binomial1 R) p (mb, g) ms = Inr (mb', g')" and "rng_ok R"
  shows "\<exists>kept. subseq kept (route_messages mb ms) \<and> send_messages mb kept = Inr mb'
     \<and> (p = 0 \<longrightarrow> kept = route_messages mb ms) \<and> (p = 1 \<longrightarrow> kept = [])"
proof -
  let ?kept = "fst (dropout_filter (binomial1 R) p g (route_messages mb ms))"
  have "send_messages mb ?kept = Inr mb'"
    using assms(1)
    by (cases "dropout_filter (binomial1 R) p g (route_messages mb ms)")
      (simp add: dropout_send_def bind_res_Inr)
  moreover have "p = 0 \<longrightarrow> ?kept = route_messages mb ms"
    by (simp add: dropout_none rng_binomial [OF assms(2)])
  moreover have "p = 1 \<longrightarrow> ?kept = []"
    by (simp add: dropout_all rng_binomial [OF assms(2)])
  ultimately show ?thesis
    using dropout_subseq by (intro exI [of _ ?kept] conjI) assumption+
qed



end
