(* ===== verification/View.thy ===== *)
theory View
  imports Occlusion Cargo Messages
begin

text \<open>
  The state of the environment object and what its agents see: the record \<open>env\<close> (the transport
  game of \<open>Cargo\<close> extended by cameras, obstacles, view masks, rates and the mailbox),
  \<open>_update_view\<close>, \<open>state\<close> and \<open>joint_observation\<close> of \<^verbatim>\<open>mate/environment.py\<close>.

  The lists \<open>cameras\<close>, \<open>targets\<close>, \<open>obstacles\<close> of the object hold the same objects as
  \<open>cameras_ordered\<close>, \<open>targets_ordered\<close>, \<open>obstacles_ordered\<close> in a shuffled order: the model stores
  the shuffled list and, as a list of indices, the order it is in.
\<close>

record settings =
  max_episode_steps :: int
  sparse_reward :: bool
  cargoes_per_target :: nat
  start_loaded :: bool
  clear_transmittance :: real
  shuffle_entities :: bool
  num_high_capacity :: nat
  target_step_size :: real

record ('g, 'm) env = "'g world" +
  settings :: settings
  cameras :: "'g camera list"
  obstacles :: "'g obstacle list"
  camera_order :: "nat list"
  target_order :: "nat list"
  obstacle_order :: "nat list"
  collisions :: collision_index
  camera_target_view_mask :: "bool list list"
  target_camera_view_mask :: "bool list list"
  camera_obstacle_view_mask :: "bool list list"
  camera_camera_view_mask :: "bool list list"
  target_obstacle_view_mask :: "bool list list"
  target_target_view_mask :: "bool list list"
  obstacle_states_flagged :: "real list list"
  camera_obstacle_observations :: "real list list"
  state_cache :: "real list option"
  coverage_rate :: real
  real_coverage_rate :: real
  mean_transport_rate :: real
  episode_step :: int
  target_orientations :: "real list"
  mail :: "'m mailbox"

definition num_cameras :: "('g, 'm) env \<Rightarrow> nat" where
  "num_cameras s = length (cameras s)"

definition num_obstacles :: "('g, 'm) env \<Rightarrow> nat" where
  "num_obstacles s = length (obstacles s)"

definition preserved_data :: "('g, 'm) env \<Rightarrow> real list" where
  "preserved_data s =
     map real [num_cameras s, num_targets s, num_obstacles s] @ [0]
     @ concat (map (\<lambda>w. [fst w, snd w]) WAREHOUSES) @ [WAREHOUSE_RADIUS]"

subsection \<open>View masks\<close>

definition false_mask :: "nat \<Rightarrow> nat \<Rightarrow> bool list list" where
  "false_mask r c = replicate r (replicate c False)"

text \<open>
  A camera draws from its own generator whenever something is in its sector, so looking changes the
  camera. The pairs are visited target by target, camera by camera.
\<close>

type_synonym interp = "real list \<Rightarrow> real list \<Rightarrow> real \<Rightarrow> real"

definition look_at ::
  "'g rng \<Rightarrow> interp \<Rightarrow> real \<Rightarrow> vec \<Rightarrow> nat \<Rightarrow> nat \<Rightarrow> 'g camera list \<times> bool list list
    \<Rightarrow> 'g camera list \<times> bool list list" where
  "look_at R interp1d transm p c j acc =
     (case acc of (cams, seen) \<Rightarrow>
        case camera_perceive R interp1d (cams ! c) p transm of
          (b, cam) \<Rightarrow> (cams[c := cam], if b then mat_upd seen c j True else seen))"

definition camera_view ::
  "'g rng \<Rightarrow> interp \<Rightarrow> ('g, 'm) env \<Rightarrow> 'g camera list \<times> bool list list" where
  "camera_view R interp1d s =
     fold (\<lambda>(t, c). look_at R interp1d (clear_transmittance (settings s)) (location (targets s ! t)) c t)
       (List.product [0..<num_targets s] [0..<num_cameras s])
       (cameras s, false_mask (num_cameras s) (num_targets s))"

definition camera_camera_view ::
  "'g rng \<Rightarrow> interp \<Rightarrow> nat \<Rightarrow> 'g camera list \<Rightarrow> 'g camera list \<times> bool list list" where
  "camera_camera_view R interp1d n cams =
     fold (\<lambda>(c, c') acc. if c = c' then (fst acc, mat_upd (snd acc) c c True)
                          else look_at R interp1d 0 (location (fst acc ! c')) c c' acc)
       (List.product [0..<n] [0..<n]) (cams, false_mask n n)"

definition update_view :: "'g rng \<Rightarrow> interp \<Rightarrow> ('g, 'm) env \<Rightarrow> ('g, 'm) env" where
  "update_view R interp1d s =
     (case camera_view R interp1d s of (cams1, ct) \<Rightarrow>
      case camera_camera_view R interp1d (num_cameras s) cams1 of (cams2, cc) \<Rightarrow>
        s\<lparr>state_cache := None,
          cameras := cams2,
          camera_target_view_mask := ct,
          target_camera_view_mask := map (\<lambda>t. map (target_perceive t) (cameras s)) (targets s),
          target_obstacle_view_mask := map (\<lambda>t. map (target_perceive t) (obstacles s)) (targets s),
          target_target_view_mask :=
            map (\<lambda>i. map (\<lambda>j. i = j \<or> target_perceive (targets s ! i) (targets s ! j)) [0..<num_targets s])
              [0..<num_targets s],
          camera_camera_view_mask := cc,
          tracked_bits := map (\<lambda>t. list_ex (\<lambda>row. row ! t) ct) [0..<num_targets s]\<rparr>)"

subsection \<open>The global state\<close>

definition fresh_state :: "('g, 'm) env \<Rightarrow> real list" where
  "fresh_state s =
     preserved_data s
     @ concat (map (\<lambda>cam. camera_state cam True) (cameras s))
     @ concat (map (\<lambda>t. target_state t True) (targets s))
     @ concat (map obstacle_state (obstacles s))
     @ map of_int (freights s) @ map of_int (bounties s)
     @ concat (map (map of_int) (remaining_cargoes s))"

definition env_state :: "('g, 'm) env \<Rightarrow> real list \<times> ('g, 'm) env" where
  "env_state s =
     (case state_cache s of
        Some v \<Rightarrow> (v, s)
      | None \<Rightarrow> (fresh_state s, s\<lparr>state_cache := Some (fresh_state s)\<rparr>))"

subsection \<open>Observations\<close>

text \<open>\<open>np.where(mask, states, 0.0).ravel()\<close>\<close>

definition masked_rows :: "bool list \<Rightarrow> real list list \<Rightarrow> real list" where
  "masked_rows seen states = concat (map2 (\<lambda>b row. if b then row else map (\<lambda>_. 0) row) seen states)"

definition flagged :: "real list \<Rightarrow> real list" where
  "flagged row = row @ [1]"

definition camera_rows :: "('g, 'm) env \<Rightarrow> real list list" where
  "camera_rows s = map (\<lambda>cam. flagged (camera_state cam False)) (cameras s)"

definition target_rows :: "('g, 'm) env \<Rightarrow> real list list" where
  "target_rows s = map (\<lambda>t. flagged (target_state t False)) (targets s)"

definition camera_observation :: "('g, 'm) env \<Rightarrow> nat \<Rightarrow> real list" where
  "camera_observation s c =
     (preserved_data s @ camera_state (cameras s ! c) True
      @ masked_rows (camera_target_view_mask s ! c) (target_rows s)
      @ camera_obstacle_observations s ! c
      @ masked_rows (camera_camera_view_mask s ! c) (camera_rows s))[3 := real c]"

definition target_observation :: "('g, 'm) env \<Rightarrow> nat \<Rightarrow> real list" where
  "target_observation s t =
     (preserved_data s @ target_state (targets s ! t) True
      @ masked_rows (target_camera_view_mask s ! t) (camera_rows s)
      @ masked_rows (target_obstacle_view_mask s ! t) (obstacle_states_flagged s)
      @ masked_rows (target_target_view_mask s ! t) (target_rows s))[3 := real t]"

definition update_rates :: "('g, 'm) env \<Rightarrow> ('g, 'm) env" where
  "update_rates s =
     (let with_bounty_bits = map (\<lambda>b. b > 0) (bounties s);
          num_with_bounty = count_true with_bounty_bits
      in s\<lparr>coverage_rate := of_int (count_true (tracked_bits s)) / real (num_targets s),
           real_coverage_rate :=
             (if num_with_bounty > 0
              then of_int (count_true (map2 (\<and>) (tracked_bits s) with_bounty_bits)) / of_int num_with_bounty
              else 0),
           mean_transport_rate :=
             (if num_delivered_cargoes s > 0
              then of_int (delayed_target_team_episode_reward s)
                     / (of_int (reward_scale s) * of_int (num_delivered_cargoes s))
              else 0)\<rparr>)"

definition joint_observation ::
  "('g, 'm) env \<Rightarrow> (real list list \<times> real list list) \<times> ('g, 'm) env" where
  "joint_observation s =
     ((map (camera_observation s) [0..<num_cameras s], map (target_observation s) [0..<num_targets s]),
      update_rates s)"

subsection \<open>What an observation contains\<close>

text \<open>Reading row \<open>i\<close> of a flattened matrix.\<close>

lemma take_drop_concat:
  assumes "\<forall>xs \<in> set xss. length xs = d" and "i < length xss"
  shows "take d (drop (d * i) (concat xss @ ys)) = xss ! i"
  using assms
proof (induction xss arbitrary: i)
  case Nil
  then show ?case by simp
next
  case (Cons xs xss)
  then show ?case by (cases i) (simp_all add: algebra_simps)
qed

lemma length_concat_rows: "\<forall>xs \<in> set xss. length xs = d \<Longrightarrow> length (concat xss) = length xss * d"
  by (induction xss) simp_all

lemma masked_rows_row:
  assumes "\<forall>row \<in> set rows. length row = d" and "length seen = length rows" and "i < length rows"
  shows "take d (drop (d * i) (masked_rows seen rows @ ys)) = (if seen ! i then rows ! i else replicate d 0)"
proof -
  let ?m = "map2 (\<lambda>b row. if b then row else map (\<lambda>_. 0) row) seen rows"
  have len: "\<forall>xs \<in> set ?m. length xs = d"
    using assms(1) by (auto dest: set_zip_rightD)
  show "take d (drop (d * i) (masked_rows seen rows @ ys)) = (if seen ! i then rows ! i else replicate d 0)"
    unfolding masked_rows_def take_drop_concat [OF len]
    using assms take_drop_concat [OF len, of i ys] by (simp add: map_replicate_const)
qed

lemma masked_rows_length:
  assumes "\<forall>row \<in> set rows. length row = d" and "length seen = length rows"
  shows "length (masked_rows seen rows) = length rows * d"
proof -
  have "\<forall>xs \<in> set (map2 (\<lambda>b row. if b then row else map (\<lambda>_. 0) row) seen rows). length xs = d"
    using assms(1) by (auto dest: set_zip_rightD)
  from length_concat_rows [OF this] show ?thesis
    using assms(2) by (simp add: masked_rows_def)
qed

lemma length_states [simp]:
  "length (camera_state cam False) = CAMERA_STATE_DIM_PUBLIC"
  "length (camera_state cam True) = CAMERA_STATE_DIM_PRIVATE"
  "length (target_state t False) = TARGET_STATE_DIM_PUBLIC"
  "length (obstacle_state ob) = OBSTACLE_STATE_DIM"
  by (simp_all add: camera_state_def target_state_def obstacle_state_def Let_def
      CAMERA_STATE_DIM_PUBLIC_def CAMERA_STATE_DIM_PRIVATE_def TARGET_STATE_DIM_PUBLIC_def OBSTACLE_STATE_DIM_def)

lemma length_target_private:
  "target_ok t \<Longrightarrow> length (target_state t True) = TARGET_STATE_DIM_PRIVATE"
  by (simp add: target_state_def target_ok_def TARGET_STATE_DIM_PRIVATE_def)

lemma length_preserved_data [simp]: "length (preserved_data s) = PRESERVED_DIM"
  by (simp add: preserved_data_def PRESERVED_DIM_def WAREHOUSES_def NUM_WAREHOUSES_def)

lemma length_flagged [simp]: "length (flagged row) = length row + 1"
  by (simp add: flagged_def)

lemma camera_rows_shape:
  "length (camera_rows s) = num_cameras s" "\<forall>row \<in> set (camera_rows s). length row = CAMERA_STATE_DIM_PUBLIC + 1"
  by (auto simp: camera_rows_def num_cameras_def)

lemma target_rows_shape:
  "length (target_rows s) = num_targets s" "\<forall>row \<in> set (target_rows s). length row = TARGET_STATE_DIM_PUBLIC + 1"
  by (auto simp: target_rows_def num_targets_def)

text \<open>The masks and the cached obstacle arrays have the shapes the observations need.\<close>

definition view_shapes :: "('g, 'm) env \<Rightarrow> bool" where
  "view_shapes s \<longleftrightarrow>
     is_matrix (num_cameras s) (num_targets s) (camera_target_view_mask s)
   \<and> is_matrix (num_cameras s) (num_cameras s) (camera_camera_view_mask s)
   \<and> is_matrix (num_targets s) (num_cameras s) (target_camera_view_mask s)
   \<and> is_matrix (num_targets s) (num_obstacles s) (target_obstacle_view_mask s)
   \<and> is_matrix (num_targets s) (num_targets s) (target_target_view_mask s)
   \<and> is_matrix (num_obstacles s) (OBSTACLE_STATE_DIM + 1) (obstacle_states_flagged s)
   \<and> is_matrix (num_cameras s) (num_obstacles s * (OBSTACLE_STATE_DIM + 1)) (camera_obstacle_observations s)
   \<and> (\<forall>t < num_targets s. target_ok (targets s ! t))"

text \<open>The observation of agent \<open>i\<close> of a team: own part, opponents, obstacles, teammates.\<close>

definition obstacle_part :: "team \<Rightarrow> ('g, 'm) env \<Rightarrow> nat \<Rightarrow> real list" where
  "obstacle_part team s i =
     (case team of CAMERA \<Rightarrow> camera_obstacle_observations s ! i
      | TARGET \<Rightarrow> masked_rows (target_obstacle_view_mask s ! i) (obstacle_states_flagged s))"

definition self_part :: "team \<Rightarrow> ('g, 'm) env \<Rightarrow> nat \<Rightarrow> real list" where
  "self_part team s i =
     (case team of CAMERA \<Rightarrow> camera_state (cameras s ! i) True | TARGET \<Rightarrow> target_state (targets s ! i) True)"

definition rows_of :: "team \<Rightarrow> ('g, 'm) env \<Rightarrow> real list list" where
  "rows_of team s = (case team of CAMERA \<Rightarrow> camera_rows s | TARGET \<Rightarrow> target_rows s)"

definition opponent_seen :: "team \<Rightarrow> ('g, 'm) env \<Rightarrow> nat \<Rightarrow> bool list" where
  "opponent_seen team s i =
     (case team of CAMERA \<Rightarrow> camera_target_view_mask s ! i | TARGET \<Rightarrow> target_camera_view_mask s ! i)"

definition teammate_seen :: "team \<Rightarrow> ('g, 'm) env \<Rightarrow> nat \<Rightarrow> bool list" where
  "teammate_seen team s i =
     (case team of CAMERA \<Rightarrow> camera_camera_view_mask s ! i | TARGET \<Rightarrow> target_target_view_mask s ! i)"

definition observation_of :: "team \<Rightarrow> ('g, 'm) env \<Rightarrow> nat \<Rightarrow> real list" where
  "observation_of team s i =
     (case team of CAMERA \<Rightarrow> camera_observation s i | TARGET \<Rightarrow> target_observation s i)"

definition num_agents :: "team \<Rightarrow> ('g, 'm) env \<Rightarrow> nat" where
  "num_agents team s = (case team of CAMERA \<Rightarrow> num_cameras s | TARGET \<Rightarrow> num_targets s)"

lemma PRESERVED_DIM_gt: "3 < PRESERVED_DIM"
  by (simp add: PRESERVED_DIM_def)

lemma observation_parts:
  "observation_of team s i = (preserved_data s)[3 := real i] @ self_part team s i
     @ masked_rows (opponent_seen team s i) (rows_of (opponent team) s)
     @ obstacle_part team s i @ masked_rows (teammate_seen team s i) (rows_of team s)"
  using PRESERVED_DIM_gt
  by (cases team) (simp_all add: observation_of_def camera_observation_def target_observation_def
      self_part_def opponent_seen_def rows_of_def opponent_def obstacle_part_def teammate_seen_def
      list_update_append)

lemma rows_shape:
  "length (rows_of team s) = num_agents team s" "\<forall>row \<in> set (rows_of team s). length row = public_dim team + 1"
  by (cases team; simp add: rows_of_def num_agents_def camera_rows_shape target_rows_shape public_dim_def)+

lemma part_lengths:
  assumes "view_shapes s" and "i < num_agents team s"
  shows "length (self_part team s i) = self_dim team"
    "length (opponent_seen team s i) = num_agents (opponent team) s"
    "length (teammate_seen team s i) = num_agents team s"
    "length (obstacle_part team s i) = num_obstacles s * (OBSTACLE_STATE_DIM + 1)"
proof -
  show "length (self_part team s i) = self_dim team"
    using assms
    by (cases team) (simp_all add: self_part_def self_dim_def view_shapes_def num_agents_def length_target_private)
  show "length (opponent_seen team s i) = num_agents (opponent team) s"
    "length (teammate_seen team s i) = num_agents team s"
    using assms by (cases team; simp add: opponent_seen_def teammate_seen_def view_shapes_def
        num_agents_def opponent_def is_matrix_def)+
  show "length (obstacle_part team s i) = num_obstacles s * (OBSTACLE_STATE_DIM + 1)"
  proof (cases team)
    case CAMERA
    then show ?thesis using assms by (simp add: obstacle_part_def view_shapes_def num_agents_def is_matrix_def)
  next
    case TARGET
    then have sh: "is_matrix (num_obstacles s) (OBSTACLE_STATE_DIM + 1) (obstacle_states_flagged s)"
      "length (target_obstacle_view_mask s ! i) = num_obstacles s"
      using assms by (auto simp: view_shapes_def num_agents_def is_matrix_def)
    then have "\<forall>row \<in> set (obstacle_states_flagged s). length row = OBSTACLE_STATE_DIM + 1"
      by (auto simp: is_matrix_def in_set_conv_nth)
    from masked_rows_length [OF this]
    have "length (masked_rows (target_obstacle_view_mask s ! i) (obstacle_states_flagged s))
        = length (obstacle_states_flagged s) * (OBSTACLE_STATE_DIM + 1)"
      using sh by (simp add: is_matrix_def)
    then show ?thesis using TARGET sh by (simp add: obstacle_part_def is_matrix_def)
  qed
qed

lemma num_agents_count: "num_agents team s = team_count team (num_cameras s) (num_targets s)"
  by (cases team) (simp_all add: num_agents_def team_count_def)

lemma length_observation_of:
  assumes "view_shapes s" and "i < num_agents team s"
  shows "length (observation_of team s i)
    = observation_dim team (num_cameras s) (num_targets s) (num_obstacles s)"
proof -
  note P = part_lengths [OF assms]
  have "length (masked_rows (opponent_seen team s i) (rows_of (opponent team) s))
      = num_agents (opponent team) s * (public_dim (opponent team) + 1)"
    "length (masked_rows (teammate_seen team s i) (rows_of team s)) = num_agents team s * (public_dim team + 1)"
    using masked_rows_length [OF rows_shape(2)] P rows_shape(1) by metis+
  then show ?thesis
    using P by (simp add: observation_parts observation_dim_def observation_indices Let_def num_agents_count)
qed

subsection \<open>What the masks mean\<close>

definition in_sector :: "'g camera \<Rightarrow> vec \<Rightarrow> bool" where
  "in_sector cam p \<longleftrightarrow>
     (let d = vsub p (location cam); a = \<bar>orientation cam - arctan2_deg (snd d) (fst d)\<bar>
      in vnorm d \<le> sight_range cam \<and> min a (360 - a) * 2 \<le> viewing_angle cam)"

definition unobstructed :: "interp \<Rightarrow> 'g camera \<Rightarrow> vec \<Rightarrow> bool" where
  "unobstructed interp1d cam p \<longleftrightarrow>
     (let d = vsub p (location cam)
      in vnorm d \<le> sight_range_at interp1d cam (arctan2_deg (snd d) (fst d)) False * (1 + 1 / 10 ^ 6))"

text \<open>Two cameras that differ at most in their generators: they see the same.\<close>

definition same_camera :: "'g camera \<Rightarrow> 'g camera \<Rightarrow> bool" where
  "same_camera a b \<longleftrightarrow> b = a\<lparr>gen := gen b\<rparr>"

lemma same_camera_refl [simp]: "same_camera a a"
  by (simp add: same_camera_def)

lemma same_camera_gen [simp]: "same_camera a (a\<lparr>gen := g\<rparr>)"
  by (simp add: same_camera_def)

lemma same_camera_eqs:
  assumes "same_camera a b"
  shows "location b = location a" "in_sector b = in_sector a" "unobstructed i b = unobstructed i a"
    "camera_ok b = camera_ok a" "camera_state b = camera_state a" "radius b = radius a"
    "cam_obstacles b = cam_obstacles a" "sight_range b = sight_range a"
proof -
  obtain g where b: "b = a\<lparr>gen := g\<rparr>" using assms by (metis same_camera_def)
  show "location b = location a" "in_sector b = in_sector a" "unobstructed i b = unobstructed i a"
    "camera_ok b = camera_ok a" "camera_state b = camera_state a" "radius b = radius a"
    "cam_obstacles b = cam_obstacles a" "sight_range b = sight_range a"
    by (simp_all add: b in_sector_def unobstructed_def camera_ok_def camera_state_def sight_range_at_def
        fun_eq_iff Let_def)
qed

lemma same_camera_trans: "same_camera a b \<Longrightarrow> same_camera b c \<Longrightarrow> same_camera a c"
proof -
  assume "same_camera a b" "same_camera b c"
  then obtain g h where "b = a\<lparr>gen := g\<rparr>" "c = b\<lparr>gen := h\<rparr>" by (metis same_camera_def)
  then have "c = a\<lparr>gen := h\<rparr>" by simp
  then show ?thesis by simp
qed

lemma camera_perceive_result:
  assumes "camera_perceive R interp1d cam p transm = (b, cam')"
  shows "same_camera cam cam'" and "b \<Longrightarrow> in_sector cam p"
    and "in_sector cam p \<Longrightarrow> unobstructed interp1d cam p \<Longrightarrow> b"
    and "rng_ok R \<Longrightarrow> transm = 0 \<Longrightarrow> b \<Longrightarrow> unobstructed interp1d cam p"
  using assms rng_binomial(1) [of R "gen cam"]
  by (auto simp: camera_perceive_def in_sector_def unobstructed_def Let_def not_less not_le
      split: if_splits prod.splits)

text \<open>After the pairs \<open>ps\<close> (observed point, camera, column) have been looked at.\<close>

definition looked ::
  "'g rng \<Rightarrow> interp \<Rightarrow> real \<Rightarrow> (nat \<Rightarrow> vec) \<Rightarrow> nat \<Rightarrow> nat \<Rightarrow> (nat \<times> nat) set
    \<Rightarrow> 'g camera list \<Rightarrow> 'g camera list \<times> bool list list \<Rightarrow> bool" where
  "looked R interp1d transm p nc nj ps cams acc \<longleftrightarrow>
     (case acc of (cams', seen) \<Rightarrow>
        length cams' = length cams \<and> (\<forall>c < length cams. same_camera (cams ! c) (cams' ! c))
      \<and> is_matrix nc nj seen
      \<and> (\<forall>c < nc. \<forall>j < nj. seen ! c ! j \<longrightarrow>
           in_sector (cams ! c) (p j) \<and> (rng_ok R \<and> transm = 0 \<longrightarrow> unobstructed interp1d (cams ! c) (p j)))
      \<and> (\<forall>(j, c) \<in> ps. in_sector (cams ! c) (p j) \<and> unobstructed interp1d (cams ! c) (p j) \<longrightarrow> seen ! c ! j))"

lemma looked_start: "looked R interp1d transm p nc nj {} cams (cams, false_mask nc nj)"
  by (simp add: looked_def false_mask_def is_matrix_def)

lemma look_at_looked:
  assumes L: "looked R interp1d transm p nc nj ps cams acc" and c: "c < nc" "j < nj"
    and n: "length cams = nc" and ps: "ps \<subseteq> {..<nj} \<times> {..<nc}"
  shows "looked R interp1d transm p nc nj (insert (j, c) ps) cams (look_at R interp1d transm (p j) c j acc)"
proof -
  obtain cams' seen where acc: "acc = (cams', seen)" by (cases acc)
  obtain b cam where v: "camera_perceive R interp1d (cams' ! c) (p j) transm = (b, cam)" by fastforce
  have m: "is_matrix nc nj seen" and len: "length cams' = nc"
    and same: "\<forall>c < nc. same_camera (cams ! c) (cams' ! c)"
    and sound: "\<forall>c < nc. \<forall>j < nj. seen ! c ! j \<longrightarrow>
       in_sector (cams ! c) (p j) \<and> (rng_ok R \<and> transm = 0 \<longrightarrow> unobstructed interp1d (cams ! c) (p j))"
    and compl: "\<forall>(j, c) \<in> ps. in_sector (cams ! c) (p j) \<and> unobstructed interp1d (cams ! c) (p j) \<longrightarrow> seen ! c ! j"
    using L n by (auto simp: looked_def acc)
  note V = camera_perceive_result [OF v] and E = same_camera_eqs(2,3) [OF same [rule_format, OF c(1)]]
  let ?seen = "if b then mat_upd seen c j True else seen"
  have nth: "?seen ! a ! i = (if b \<and> a = c \<and> i = j then True else seen ! a ! i)" if "a < nc" for a i
    by (cases b) (simp_all add: mat_upd_nth [OF m c that])
  have eq: "look_at R interp1d transm (p j) c j acc = (cams'[c := cam], ?seen)"
    by (simp add: look_at_def acc v)
  have "same_camera (cams ! a) (cams'[c := cam] ! a)" if "a < nc" for a
    using that same V(1) len c(1) same_camera_trans by (cases "a = c") auto
  moreover have "in_sector (cams ! a) (p i) \<and> (rng_ok R \<and> transm = 0 \<longrightarrow> unobstructed interp1d (cams ! a) (p i))"
    if "a < nc" "i < nj" "?seen ! a ! i" for a i
    using that sound V(2,4) by (auto simp: nth E split: if_splits)
  moreover have "?seen ! a ! i"
    if "(i, a) \<in> insert (j, c) ps" "in_sector (cams ! a) (p i)" "unobstructed interp1d (cams ! a) (p i)" for i a
  proof (cases "(i, a) = (j, c)")
    case True
    then have "i = j" "a = c" "b" using that V(3) by (auto simp: E)
    then show ?thesis using nth [OF c(1), of j] by simp
  next
    case False
    then have "(i, a) \<in> ps" using that(1) by blast
    then have "seen ! a ! i" "a < nc" using compl that ps by auto
    then show ?thesis by (simp add: nth)
  qed
  ultimately show ?thesis
    using m len n by (auto simp: looked_def eq)
qed

lemma fold_looked:
  assumes "set ps \<subseteq> {..<nj} \<times> {..<nc}" and "length cams = nc"
    and "looked R interp1d transm p nc nj qs cams acc" and "qs \<subseteq> {..<nj} \<times> {..<nc}"
  shows "looked R interp1d transm p nc nj (set ps \<union> qs) cams
    (fold (\<lambda>(t, c). look_at R interp1d transm (p t) c t) ps acc)"
  using assms
proof (induction ps arbitrary: acc qs)
  case Nil
  then show ?case by simp
next
  case (Cons x ps)
  obtain t c where x: "x = (t, c)" by (cases x)
  have "looked R interp1d transm p nc nj (insert (t, c) qs) cams (look_at R interp1d transm (p t) c t acc)"
    using Cons.prems by (intro look_at_looked) (auto simp: x)
  then show ?case
    using Cons.IH [of "insert (t, c) qs"] Cons.prems by (simp add: x)
qed

lemma camera_view_looked:
  "looked R interp1d (clear_transmittance (settings s)) (\<lambda>t. location (targets s ! t)) (num_cameras s)
     (num_targets s) ({..<num_targets s} \<times> {..<num_cameras s}) (cameras s) (camera_view R interp1d s)"
proof -
  let ?ps = "List.product [0..<num_targets s] [0..<num_cameras s]"
  have "looked R interp1d (clear_transmittance (settings s)) (\<lambda>t. location (targets s ! t)) (num_cameras s)
     (num_targets s) (set ?ps \<union> {}) (cameras s)
     (fold (\<lambda>(t, c). look_at R interp1d (clear_transmittance (settings s)) ((\<lambda>t. location (targets s ! t)) t) c t)
       ?ps (cameras s, false_mask (num_cameras s) (num_targets s)))"
    by (rule fold_looked) (auto simp: num_cameras_def looked_start)
  then show ?thesis by (simp add: camera_view_def atLeast0LessThan)
qed

definition cams_frame :: "nat \<Rightarrow> 'g camera list \<Rightarrow> 'g camera list \<times> bool list list \<Rightarrow> bool" where
  "cams_frame n cams acc \<longleftrightarrow>
     length (fst acc) = length cams \<and> (\<forall>c < length cams. same_camera (cams ! c) (fst acc ! c))
   \<and> is_matrix n n (snd acc)"

lemma cams_frame_look:
  assumes "cams_frame n cams acc" and "c < length cams"
  shows "cams_frame n cams (look_at R interp1d transm p c j acc)"
proof -
  obtain cams' seen where acc: "acc = (cams', seen)" by (cases acc)
  obtain b cam where v: "camera_perceive R interp1d (cams' ! c) p transm = (b, cam)" by fastforce
  have "same_camera (cams ! a) (cams'[c := cam] ! a)" if "a < length cams" for a
    using assms that camera_perceive_result(1) [OF v] same_camera_trans
    by (cases "a = c") (auto simp: cams_frame_def acc)
  then show ?thesis
    using assms by (simp add: cams_frame_def acc look_at_def v)
qed

lemma camera_camera_view_frame:
  assumes "length cams = n"
  shows "cams_frame n cams (camera_camera_view R interp1d n cams)"
proof -
  have F: "cams_frame n cams (fold (\<lambda>(c, c') acc. if c = c' then (fst acc, mat_upd (snd acc) c c True)
      else look_at R interp1d 0 (location (fst acc ! c')) c c' acc) ps acc)"
    if "set ps \<subseteq> {..<n} \<times> {..<n}" "cams_frame n cams acc" for ps acc
    using that
  proof (induction ps arbitrary: acc)
    case Nil
    then show ?case by simp
  next
    case (Cons x ps)
    obtain c c' where x: "x = (c, c')" by (cases x)
    have "cams_frame n cams (if c = c' then (fst acc, mat_upd (snd acc) c c True)
        else look_at R interp1d 0 (location (fst acc ! c')) c c' acc)"
      using Cons.prems assms cams_frame_look [of n cams acc c] by (auto simp: x cams_frame_def)
    then show ?case using Cons.IH Cons.prems(1) by (simp add: x)
  qed
  show ?thesis
    unfolding camera_camera_view_def by (rule F) (auto simp: cams_frame_def false_mask_def is_matrix_def assms)
qed

text \<open>\<open>_update_view\<close> as a whole: the cameras change in their generators only.\<close>

lemma update_view_frame:
  shows "\<exists>cams ct cc tc to tt tb. update_view R interp1d s = s\<lparr>state_cache := None, cameras := cams,
      camera_target_view_mask := ct, target_camera_view_mask := tc, target_obstacle_view_mask := to,
      target_target_view_mask := tt, camera_camera_view_mask := cc, tracked_bits := tb\<rparr>
    \<and> length cams = num_cameras s \<and> (\<forall>c < num_cameras s. same_camera (cameras s ! c) (cams ! c))
    \<and> is_matrix (num_cameras s) (num_targets s) ct \<and> is_matrix (num_cameras s) (num_cameras s) cc
    \<and> tb = map (\<lambda>t. list_ex (\<lambda>row. row ! t) ct) [0..<num_targets s]"
proof -
  obtain cams1 ct where v: "camera_view R interp1d s = (cams1, ct)" by fastforce
  have V: "length cams1 = num_cameras s" "\<forall>c < num_cameras s. same_camera (cameras s ! c) (cams1 ! c)"
    "is_matrix (num_cameras s) (num_targets s) ct"
    using camera_view_looked [of R interp1d s] by (auto simp: v looked_def num_cameras_def)
  obtain cams2 cc where w: "camera_camera_view R interp1d (num_cameras s) cams1 = (cams2, cc)" by fastforce
  have W: "length cams2 = num_cameras s" "\<forall>c < num_cameras s. same_camera (cams1 ! c) (cams2 ! c)"
    "is_matrix (num_cameras s) (num_cameras s) cc"
    using camera_camera_view_frame [OF V(1), of R interp1d] V(1) by (auto simp: w cams_frame_def)
  have "\<forall>c < num_cameras s. same_camera (cameras s ! c) (cams2 ! c)"
    using V(2) W(2) same_camera_trans by blast
  then show ?thesis
    using V W by (intro exI) (auto simp: update_view_def v w)
qed

lemma update_view_masks:
  "target_camera_view_mask (update_view R interp1d s) = map (\<lambda>t. map (target_perceive t) (cameras s)) (targets s)"
  "target_obstacle_view_mask (update_view R interp1d s) = map (\<lambda>t. map (target_perceive t) (obstacles s)) (targets s)"
  "target_target_view_mask (update_view R interp1d s) =
     map (\<lambda>i. map (\<lambda>j. i = j \<or> target_perceive (targets s ! i) (targets s ! j)) [0..<num_targets s])
       [0..<num_targets s]"
  "camera_target_view_mask (update_view R interp1d s) = snd (camera_view R interp1d s)"
  by (simp_all add: update_view_def split: prod.split)

text \<open>C12: after the view is updated a camera sees a target exactly when the target is in its sector
  and either nothing obstructs the line of sight or the draw for a transparent obstacle lets it
  through (with transmittance 0: exactly when it is in the sector and unobstructed); a target is
  tracked iff some camera sees it, and targets see cameras, obstacles and teammates by distance.\<close>

theorem update_view_correct:
  assumes s': "update_view R interp1d s = s'" and "c < num_cameras s" and "t < num_targets s"
  shows "(in_sector (cameras s ! c) (location (targets s ! t))
        \<and> unobstructed interp1d (cameras s ! c) (location (targets s ! t)) \<longrightarrow> camera_target_view_mask s' ! c ! t)
    \<and> (camera_target_view_mask s' ! c ! t \<longrightarrow> in_sector (cameras s ! c) (location (targets s ! t))
        \<and> (rng_ok R \<and> clear_transmittance (settings s) = 0
             \<longrightarrow> unobstructed interp1d (cameras s ! c) (location (targets s ! t))))
    \<and> (tracked_bits s' ! t \<longleftrightarrow> (\<exists>c < num_cameras s. camera_target_view_mask s' ! c ! t))
    \<and> (target_camera_view_mask s' ! t ! c \<longleftrightarrow> target_perceive (targets s ! t) (cameras s ! c))
    \<and> (\<forall>u < num_targets s. target_target_view_mask s' ! t ! u
        \<longleftrightarrow> t = u \<or> target_perceive (targets s ! t) (targets s ! u))"
proof (intro conjI impI allI)
  obtain cams ct where v: "camera_view R interp1d s = (cams, ct)" by fastforce
  have L: "is_matrix (num_cameras s) (num_targets s) ct"
    "\<forall>c < num_cameras s. \<forall>j < num_targets s. ct ! c ! j \<longrightarrow> in_sector (cameras s ! c) (location (targets s ! j))
       \<and> (rng_ok R \<and> clear_transmittance (settings s) = 0
            \<longrightarrow> unobstructed interp1d (cameras s ! c) (location (targets s ! j)))"
    "\<forall>(j, c) \<in> {..<num_targets s} \<times> {..<num_cameras s}. in_sector (cameras s ! c) (location (targets s ! j))
       \<and> unobstructed interp1d (cameras s ! c) (location (targets s ! j)) \<longrightarrow> ct ! c ! j"
    using camera_view_looked [of R interp1d s] unfolding v looked_def prod.case by blast+
  note M = update_view_masks [of R interp1d s, unfolded s' v snd_conv]
  have ct: "camera_target_view_mask s' = ct" using M by simp
  show "camera_target_view_mask s' ! c ! t" if "in_sector (cameras s ! c) (location (targets s ! t))
      \<and> unobstructed interp1d (cameras s ! c) (location (targets s ! t))"
    using L(3) assms(2,3) that by (auto simp: ct)
  show "in_sector (cameras s ! c) (location (targets s ! t))" if "camera_target_view_mask s' ! c ! t"
    using L(2) assms(2,3) that by (auto simp: ct)
  show "unobstructed interp1d (cameras s ! c) (location (targets s ! t))"
    if "camera_target_view_mask s' ! c ! t" "rng_ok R \<and> clear_transmittance (settings s) = 0"
    using L(2) assms(2,3) that by (auto simp: ct)
  have "tracked_bits s' = map (\<lambda>t. list_ex (\<lambda>row. row ! t) ct) [0..<num_targets s]"
    unfolding s' [symmetric] by (simp add: update_view_def v split: prod.split)
  then show "tracked_bits s' ! t \<longleftrightarrow> (\<exists>c < num_cameras s. camera_target_view_mask s' ! c ! t)"
    using L(1) assms(3) nth_mem [of _ ct] by (fastforce simp: ct list_ex_iff is_matrix_def in_set_conv_nth)
  show "target_camera_view_mask s' ! t ! c \<longleftrightarrow> target_perceive (targets s ! t) (cameras s ! c)"
    using M(1) assms(2,3) by (simp add: num_targets_def num_cameras_def)
  show "target_target_view_mask s' ! t ! u
      \<longleftrightarrow> t = u \<or> target_perceive (targets s ! t) (targets s ! u)" if "u < num_targets s" for u
    using M(3) assms(3) that by simp
qed

end
