(* ===== verification/Environment.thy ===== *)
theory Environment
  imports Stocking View
begin

text \<open>
  The episode of \<^verbatim>\<open>mate/environment.py\<close>: \<open>_simulate\<close>, \<open>step\<close>, \<open>seed\<close> and \<open>reset\<close>, composed of the
  transport game (\<open>Cargo\<close>), the movement and perception of the entities and the mailbox. The joint
  actions are flat arrays, reshaped by the code; the results of \<open>step\<close> are a record. What is
  library code is an argument: the generator operations \<open>R\<close>, \<open>interp1d\<close>, the iteration order of a
  set \<open>order\<close>, and \<open>seeding.np_random\<close>.
\<close>

subsection \<open>Simulation\<close>

definition reshape :: "nat \<Rightarrow> nat \<Rightarrow> real list \<Rightarrow> real list list res" where
  "reshape r c xs =
     (if length xs = r * c then Inr (map (\<lambda>i. take c (drop (c * i) xs)) [0..<r]) else Inl ValueError)"

definition move_camera :: "nat \<Rightarrow> real list \<Rightarrow> ('g, 'm) env \<Rightarrow> ('g, 'm) env res" where
  "move_camera c action s =
     bind_res (camera_simulate (cameras s ! c) action)
       (\<lambda>cam. Inr (s\<lparr>cameras := (cameras s)[c := cam]\<rparr>))"

definition move_target ::
  "(nat list \<Rightarrow> nat list) \<Rightarrow> nat \<Rightarrow> real list \<Rightarrow> ('g, 'm) env \<Rightarrow> ('g, 'm) env res" where
  "move_target order t action s =
     (let previous_location = location (targets s ! t)
      in bind_res (target_simulate order (collisions s) (targets s ! t) action) (\<lambda>t'.
           let s1 = s\<lparr>targets := (targets s)[t := t']\<rparr>;
               d = vsub (location t') previous_location
           in Inr (if previous_location \<noteq> location t'
                   then s1\<lparr>target_orientations := (target_orientations s)[t := arctan2_deg (snd d) (fst d)]\<rparr>
                   else s1)))"

definition simulate ::
  "'g rng \<Rightarrow> interp \<Rightarrow> (nat list \<Rightarrow> nat list) \<Rightarrow> real list \<times> real list \<Rightarrow> ('g, 'm) env \<Rightarrow> ('g, 'm) env res" where
  "simulate R interp1d order action s =
     bind_res (reshape (num_cameras s) CAMERA_ACTION_DIM (fst action)) (\<lambda>camera_joint_action.
     bind_res (reshape (num_targets s) TARGET_ACTION_DIM (snd action)) (\<lambda>target_joint_action.
     bind_res (fold_res (\<lambda>c. move_camera c (camera_joint_action ! c)) [0..<num_cameras s] s) (\<lambda>s1.
     bind_res (fold_res (\<lambda>t. move_target order t (target_joint_action ! t)) [0..<num_targets s] s1) (\<lambda>s2.
       Inr (update_view R interp1d s2)))))"

subsection \<open>Step\<close>

record 'm agent_info =
  raw_reward :: int
  normalized_raw_reward :: real
  messages :: "'m message list"
  out_communication_edges :: int
  in_communication_edges :: int
  info_coverage_rate :: real
  info_real_coverage_rate :: real
  info_mean_transport_rate :: real
  info_num_delivered_cargoes :: int

record 'm step_result =
  camera_joint_observation :: "real list list"
  target_joint_observation :: "real list list"
  camera_team_reward :: int
  target_team_reward :: int
  done_flag :: bool
  camera_infos :: "'m agent_info list"
  target_infos :: "'m agent_info list"

definition max_target_team_episode_reward :: "('g, 'm) env \<Rightarrow> int" where
  "max_target_team_episode_reward s =
     reward_scale s * int (cargoes_per_target (settings s)) * int (num_targets s)"

definition team_info :: "team \<Rightarrow> int \<Rightarrow> ('g, 'm) env \<Rightarrow> nat \<Rightarrow> 'm agent_info" where
  "team_info team reward s i =
     \<lparr>raw_reward = reward,
      normalized_raw_reward = of_int reward / of_int (max_target_team_episode_reward s),
      messages = message_buffers (mail s) team i,
      out_communication_edges = sum_list (communication_edges (mail s) team ! i),
      in_communication_edges = col_sum (communication_edges (mail s) team) i,
      info_coverage_rate = coverage_rate s, info_real_coverage_rate = real_coverage_rate s,
      info_mean_transport_rate = mean_transport_rate s,
      info_num_delivered_cargoes = num_delivered_cargoes s\<rparr>"

text \<open>The statements of \<open>step\<close> between the simulation and the return, in order.\<close>

definition book_rewards :: "int \<Rightarrow> int \<Rightarrow> ('g, 'z) world_scheme \<Rightarrow> ('g, 'z) world_scheme" where
  "book_rewards reward delayed s =
     s\<lparr>target_team_episode_reward := target_team_episode_reward s + reward,
       delayed_target_team_episode_reward := delayed_target_team_episode_reward s + delayed\<rparr>"

definition tick :: "('g, 'm) env \<Rightarrow> ('g, 'm) env" where
  "tick s =
     s\<lparr>target_steps := map (\<lambda>x. x + 1) (target_steps s),
       tracked_steps := map2 (\<lambda>x b. x + bool_int b) (tracked_steps s) (tracked_bits s),
       episode_step := episode_step s + 1\<rparr>"

definition episode_done :: "('g, 'm) env \<Rightarrow> bool" where
  "episode_done s \<longleftrightarrow>
     \<not> (episode_step s \<le> max_episode_steps (settings s) \<and> any_nonzero (awaiting_cargo_counts s))"

definition step ::
  "'g rng \<Rightarrow> interp \<Rightarrow> (nat list \<Rightarrow> nat list) \<Rightarrow> real list \<times> real list \<Rightarrow> ('g, 'm) env
    \<Rightarrow> ('m step_result \<times> ('g, 'm) env) res" where
  "step R interp1d order action s =
     bind_res (simulate R interp1d order action s) (\<lambda>s1.
       case assign_goals R s1 of (s2, reward, delayed) \<Rightarrow>
       case joint_observation (book_rewards reward delayed s2) of ((camera_obs, target_obs), s3) \<Rightarrow>
       let returned = (if sparse_reward (settings s) then delayed else reward);
           s4 = tick s3
       in Inr (\<lparr>camera_joint_observation = camera_obs, target_joint_observation = target_obs,
                camera_team_reward = - returned, target_team_reward = returned,
                done_flag = episode_done s4,
                camera_infos = map (team_info CAMERA (- returned) s4) [0..<num_cameras s4],
                target_infos = map (team_info TARGET returned s4) [0..<num_targets s4]\<rparr>,
               s4\<lparr>mail := end_of_step (mail s4)\<rparr>))"

subsection \<open>Reset\<close>

definition NUM_RESET_RETRIES :: nat where "NUM_RESET_RETRIES = 500"

definition np_int_max :: int where "np_int_max = 2 ^ 63 - 1"

definition env_seed ::
  "'g rng \<Rightarrow> (int option \<Rightarrow> 'g \<times> int) \<Rightarrow> int option \<Rightarrow> ('g, 'm) env \<Rightarrow> int list \<times> ('g, 'm) env" where
  "env_seed R seeding seed s =
     (let (g, main) = seeding seed;
          draw = (\<lambda>g. case randint R g 0 np_int_max of (v, g') \<Rightarrow> (seeding (Some v), g'));
          (cs, g1) = fold (\<lambda>c (acc, g). case draw g of (r, g') \<Rightarrow> (acc @ [r], g')) (cameras s) ([], g);
          (ts, g2) = fold (\<lambda>t (acc, g). case draw g of (r, g') \<Rightarrow> (acc @ [r], g')) (targets s) ([], g1);
          (os, g3) = fold (\<lambda>ob (acc, g). case draw g of (r, g') \<Rightarrow> (acc @ [r], g')) (obstacles s) ([], g2)
      in (main # map snd cs @ map snd ts @ map snd os,
          s\<lparr>np_random := g3,
            cameras := map2 (\<lambda>cam (g, _). cam\<lparr>gen := g\<rparr>) (cameras s) cs,
            targets := map2 (\<lambda>t (g, _). t\<lparr>gen := g\<rparr>) (targets s) ts,
            obstacles := map2 (\<lambda>ob (g, _). ob\<lparr>gen := g\<rparr>) (obstacles s) os\<rparr>))"

text \<open>
  \<open>list(self.cameras_ordered)\<close> undoes the last shuffle: \<open>perm ! i\<close> is the original index of element
  \<open>i\<close>, so the original list holds at index \<open>k\<close> the element whose original index is \<open>k\<close>.
\<close>

definition unshuffle :: "nat list \<Rightarrow> 'a list \<Rightarrow> 'a list" where
  "unshuffle perm xs = map snd (sort_key fst (zip perm xs))"

definition restore_order :: "('g, 'm) env \<Rightarrow> ('g, 'm) env" where
  "restore_order s =
     s\<lparr>cameras := unshuffle (camera_order s) (cameras s), camera_order := [0..<num_cameras s],
       targets := unshuffle (target_order s) (targets s), target_order := [0..<num_targets s],
       obstacles := unshuffle (obstacle_order s) (obstacles s), obstacle_order := [0..<num_obstacles s]\<rparr>"

definition shuffle_env :: "'g rng \<Rightarrow> ('g, 'm) env \<Rightarrow> ('g, 'm) env" where
  "shuffle_env R s =
     (if \<not> shuffle_entities (settings s) then s
      else
        (let (cp, g1) = permutation R (np_random s) (num_cameras s);
             (tp, g2) = permutation R g1 (num_targets s);
             (op, g3) = permutation R g2 (num_obstacles s)
         in s\<lparr>np_random := g3,
              cameras := map (\<lambda>i. cameras s ! i) cp, camera_order := map (\<lambda>i. camera_order s ! i) cp,
              targets := map (\<lambda>i. targets s ! i) tp, target_order := map (\<lambda>i. target_order s ! i) tp,
              obstacles := map (\<lambda>i. obstacles s ! i) op,
              obstacle_order := map (\<lambda>i. obstacle_order s ! i) op\<rparr>))"

definition assign_capacities :: "'g rng \<Rightarrow> ('g, 'm) env \<Rightarrow> ('g, 'm) env res" where
  "assign_capacities R s =
     (let n = num_targets s; high = num_high_capacity (settings s)
      in if high = 0 then Inr (s\<lparr>target_capacities := replicate n 1\<rparr>)
         else
           (let (slices, g) = (if shuffle_entities (settings s)
                               then choice_distinct R (np_random s) n high
                               else ([0..<min high n], np_random s));
                caps = map (\<lambda>t. if t \<in> set slices then 2 else 1) [0..<n]
            in bind_res (map_res (\<lambda>t. set_capacity (targets s ! t) (caps ! t)) [0..<n]) (\<lambda>ts.
                 Inr (s\<lparr>np_random := g, target_capacities := caps, targets := ts\<rparr>))))"

text \<open>What placing an entity looks at of those placed before: location, radius, sight of a camera.\<close>

record footprint =
  fp_location :: vec
  fp_radius :: real
  fp_sight :: "real option"

definition footprint_of :: "real option \<Rightarrow> ('g, 'z) entity_scheme \<Rightarrow> footprint" where
  "footprint_of sight e = \<lparr>fp_location = location e, fp_radius = radius e, fp_sight = sight\<rparr>"

definition overlaps :: "footprint \<Rightarrow> footprint \<Rightarrow> real \<Rightarrow> bool" where
  "overlaps a b min_distance \<longleftrightarrow>
     (let d = vnorm (vsub (fp_location a) (fp_location b))
      in d * (1 + 1 / 10 ^ 6) < fp_radius a + fp_radius b + min_distance
       \<or> (case (fp_sight a, fp_sight b) of
            (Some sa, Some sb) \<Rightarrow> d < 1 / 10 * min sa sb
          | _ \<Rightarrow> False))"

text \<open>The loop \<open>for _ in range(NUM_RESET_RETRIES): ... else: ...\<close>; the flag says whether it broke off.\<close>

fun place :: "nat \<Rightarrow> ('e \<Rightarrow> 'e) \<Rightarrow> ('e \<Rightarrow> footprint) \<Rightarrow> real \<Rightarrow> footprint list \<Rightarrow> 'e \<Rightarrow> 'e \<times> bool" where
  "place 0 rst fp min_distance placed e = (e, False)"
| "place (Suc n) rst fp min_distance placed e =
     (let e1 = rst e
      in if list_all (\<lambda>r. \<not> overlaps (fp e1) r min_distance) placed then (e1, True)
         else place n rst fp min_distance placed e1)"

fun place_all ::
  "('e \<Rightarrow> 'e) \<Rightarrow> ('e \<Rightarrow> footprint) \<Rightarrow> ('e \<Rightarrow> 'e) \<Rightarrow> real \<Rightarrow> 'e list \<Rightarrow> footprint list
    \<Rightarrow> 'e list \<times> footprint list" where
  "place_all rst fp give_up min_distance [] placed = ([], placed)"
| "place_all rst fp give_up min_distance (e # es) placed =
     (case place NUM_RESET_RETRIES rst fp min_distance placed e of
        (e1, found) \<Rightarrow>
          let e2 = (if found then e1 else give_up e1)
          in case place_all rst fp give_up min_distance es (placed @ [fp e2]) of
               (es', placed') \<Rightarrow> (e2 # es', placed'))"

definition warehouse_footprints :: "footprint list" where
  "warehouse_footprints =
     map (\<lambda>w. \<lparr>fp_location = w, fp_radius = 75 / 100 * WAREHOUSE_RADIUS, fp_sight = None\<rparr>) WAREHOUSES"

definition place_entities :: "'g rng \<Rightarrow> ('g, 'm) env \<Rightarrow> ('g, 'm) env" where
  "place_entities R s =
     (let d = target_step_size (settings s);
          (cams, p1) = place_all (camera_reset R) (\<lambda>cam. footprint_of (Some (sight_range cam)) cam) id d
                         (cameras s) warehouse_footprints;
          (obs, p2) = place_all (obstacle_reset R) (footprint_of None) (\<lambda>ob. ob\<lparr>radius := 0\<rparr>) d
                         (obstacles s) p1;
          (ts, p3) = place_all (target_reset R) (footprint_of None) id 0 (targets s) p2
      in s\<lparr>cameras := cams, obstacles := obs, targets := ts\<rparr>)"

definition register_obstacles :: "(nat list \<Rightarrow> nat list) \<Rightarrow> ('g, 'm) env \<Rightarrow> ('g, 'm) env res" where
  "register_obstacles order s =
     bind_res (map_res (\<lambda>cam. camera_add_obstacles order (obstacles s) (camera_clear_obstacles cam)) (cameras s))
       (\<lambda>cams.
         let discs = map (\<lambda>ob. (location ob, radius ob)) (obstacles s)
                     @ map (\<lambda>cam. (location cam, radius cam)) cams
         in Inr (s\<lparr>cameras := cams,
                   collisions := add_obstacles (1 / 10 ^ 5) discs (clear_obstacles (collisions s))\<rparr>))"

definition note_obstacles :: "('g, 'm) env \<Rightarrow> ('g, 'm) env" where
  "note_obstacles s =
     (if num_obstacles s = 0 then s
      else
        (let rows = map (\<lambda>ob. flagged (obstacle_state ob)) (obstacles s);
             co = map (\<lambda>cam. map (\<lambda>j. j \<in> set (cam_obstacles cam)) [0..<num_obstacles s]) (cameras s);
             s1 = s\<lparr>obstacle_states_flagged := rows, camera_obstacle_view_mask := co,
                    target_obstacle_view_mask := false_mask (num_targets s) (num_obstacles s)\<rparr>
         in if num_cameras s = 0 then s1
            else s1\<lparr>camera_obstacle_observations := map (\<lambda>row. masked_rows row rows) co\<rparr>))"

definition orient_target :: "'g rng \<Rightarrow> nat \<Rightarrow> ('g, 'm) env \<Rightarrow> ('g, 'm) env" where
  "orient_target R t s =
     (let goal = target_goals s ! t
      in if goal \<ge> 0
         then (let d = vsub (WAREHOUSES ! nat goal) (location (targets s ! t))
               in s\<lparr>target_orientations := (target_orientations s)[t := arctan2_deg (snd d) (fst d)]\<rparr>)
         else (case random_unit R (np_random s) of
                 (x, g) \<Rightarrow> s\<lparr>np_random := g,
                   target_orientations := (target_orientations s)[t := normalize_angle (360 * x)]\<rparr>))"

definition orient_targets :: "'g rng \<Rightarrow> ('g, 'm) env \<Rightarrow> ('g, 'm) env" where
  "orient_targets R s =
     fold (orient_target R) [0..<num_targets s]
       (s\<lparr>target_orientations := replicate (num_targets s) 0\<rparr>)"

text \<open>\<open>reset\<close>: None if the drawing of the cargoes never ends.\<close>

definition reset ::
  "'g rng \<Rightarrow> (int option \<Rightarrow> 'g \<times> int) \<Rightarrow> interp \<Rightarrow> (nat list \<Rightarrow> nat list) \<Rightarrow> int option
    \<Rightarrow> ('g, 'm) env \<Rightarrow> ((real list list \<times> real list list) \<times> ('g, 'm) env) res option" where
  "reset R seeding interp1d order seed s =
     (let s0 = restore_order s;
          s1 = (if seed = None then s0 else snd (env_seed R seeding seed s0))
      in case bind_res (assign_capacities R (shuffle_env R s1)) (\<lambda>s2.
                register_obstacles order (place_entities R s2)) of
           Inl e \<Rightarrow> Some (Inl e)
         | Inr s3 \<Rightarrow>
             (let s4 = update_view R interp1d (note_obstacles s3)
              in case reset_cargo R (cargoes_per_target (settings s)) (start_loaded (settings s)) s4 of
                   None \<Rightarrow> None
                 | Some (Inl e) \<Rightarrow> Some (Inl e)
                 | Some (Inr s5) \<Rightarrow>
                     (let s6 = orient_targets R s5
                      in Some (Inr (joint_observation
                           (s6\<lparr>mail := clear_mailbox (mail s6), episode_step := 0\<rparr>))))))"

end
