(* ===== verification/Episode.thy ===== *)
theory Episode
  imports Environment
begin

text \<open>
  What holds during an episode: the invariant \<open>env_ok\<close> of the environment object, established by
  \<open>reset\<close> and kept by \<open>step\<close>, with the shape of the result of a step, the rewards, the rates and the
  end of an episode. The lemmas on \<open>_simulate\<close> reduce it to the movements of the entities followed by
  \<open>update_view\<close>.
\<close>

subsection \<open>The invariant depends on the cargo fields only\<close>

lemma cargo_inv_cong:
  fixes s :: "('g, 'z) world_scheme" and s' :: "('g, 'y) world_scheme"
  assumes "num_targets s' = num_targets s" "target_capacities s' = target_capacities s"
    "remaining_cargoes s' = remaining_cargoes s" "awaiting_cargo_counts s' = awaiting_cargo_counts s"
    "target_goal_bits s' = target_goal_bits s" "target_goals s' = target_goals s"
    "freights s' = freights s" "bounties s' = bounties s"
    "freight_scale s' = freight_scale s" "bounty_scale s' = bounty_scale s"
    "length (tracked_bits s') = length (tracked_bits s)"
    "\<And>t. t < num_targets s \<Longrightarrow> goal_bits (targets s' ! t) = goal_bits (targets s ! t)"
  shows "cargo_inv s' = cargo_inv s" and "bounty_lost s' = bounty_lost s"
proof -
  have "load_ok s' t = load_ok s t" if "t < num_targets s" for t
    using assms that by (simp add: load_ok_def)
  then show "cargo_inv s' = cargo_inv s"
    using assms by (simp add: cargo_inv_def cargo_shapes_def scales_ok_def stock_ok_def balanced_def)
  show "bounty_lost s' = bounty_lost s"
    using assms by (simp add: bounty_lost_def lost_of_def weight_def)
qed

subsection \<open>Simulation\<close>

lemma fold_res_append: "fold_res f (xs @ ys) s = bind_res (fold_res f xs s) (fold_res f ys)"
proof (induction xs arbitrary: s)
  case Nil
  then show ?case by simp
next
  case (Cons x xs)
  then show ?case by (cases "f x s") simp_all
qed

lemma fold_cameras:
  assumes "k \<le> num_cameras s" and "fold_res (\<lambda>c. move_camera c (A ! c)) [0..<k] s = Inr s'"
  shows "\<exists>cams. s' = s\<lparr>cameras := cams\<rparr> \<and> length cams = num_cameras s
     \<and> (\<forall>c < k. camera_simulate (cameras s ! c) (A ! c) = Inr (cams ! c))
     \<and> (\<forall>c \<ge> k. cams ! c = cameras s ! c)"
  using assms
proof (induction k arbitrary: s')
  case 0
  then show ?case by (intro exI [of _ "cameras s"]) (simp add: num_cameras_def)
next
  case (Suc k)
  obtain s1 where s1: "fold_res (\<lambda>c. move_camera c (A ! c)) [0..<k] s = Inr s1"
    "move_camera k (A ! k) s1 = Inr s'"
    using Suc.prems(2) by (auto simp: fold_res_append bind_res_Inr)
  obtain cams where c: "s1 = s\<lparr>cameras := cams\<rparr>" "length cams = num_cameras s"
    "\<forall>c < k. camera_simulate (cameras s ! c) (A ! c) = Inr (cams ! c)"
    "\<forall>c \<ge> k. cams ! c = cameras s ! c"
    using Suc.IH [OF _ s1(1)] Suc.prems(1) by auto
  obtain cam where cam: "camera_simulate (cameras s ! k) (A ! k) = Inr cam"
    "s' = s\<lparr>cameras := cams[k := cam]\<rparr>"
    using s1(2) c by (auto simp: move_camera_def bind_res_Inr)
  show ?case
    using c cam Suc.prems(1) by (intro exI [of _ "cams[k := cam]"]) (auto simp: less_Suc_eq)
qed

lemma cameras_succeed:
  assumes "k \<le> num_cameras s" and "\<forall>c < k. length (A ! c) = CAMERA_ACTION_DIM"
  shows "\<exists>s'. fold_res (\<lambda>c. move_camera c (A ! c)) [0..<k] s = Inr s'"
  using assms
proof (induction k)
  case 0
  then show ?case by simp
next
  case (Suc k)
  then obtain s1 where "fold_res (\<lambda>c. move_camera c (A ! c)) [0..<k] s = Inr s1" by auto
  moreover have "\<exists>s2. move_camera k (A ! k) s1 = Inr s2"
    using Suc.prems(2) by (simp add: move_camera_def camera_simulate_def bind_check Let_def)
  ultimately show ?case by (auto simp: fold_res_append)
qed

lemma move_target_Inr:
  assumes "move_target order t a s = Inr s'"
  obtains t' ors where "target_simulate order (collisions s) (targets s ! t) a = Inr t'"
    "s' = s\<lparr>targets := (targets s)[t := t'], target_orientations := ors\<rparr>"
    "length ors = length (target_orientations s)"
proof -
  obtain t' where t': "target_simulate order (collisions s) (targets s ! t) a = Inr t'"
    using assms by (auto simp: move_target_def Let_def bind_res_Inr)
  let ?d = "vsub (location t') (location (targets s ! t))"
  let ?ors = "if location (targets s ! t) \<noteq> location t'
    then (target_orientations s)[t := arctan2_deg (snd ?d) (fst ?d)] else target_orientations s"
  have "s' = s\<lparr>targets := (targets s)[t := t'], target_orientations := ?ors\<rparr>"
    using assms t' by (cases "location (targets s ! t) = location t'") (auto simp: move_target_def Let_def)
  then show thesis by (rule that [OF t']) simp
qed

lemma fold_move_targets:
  assumes "k \<le> num_targets s" and "fold_res (\<lambda>t. move_target order t (A ! t)) [0..<k] s = Inr s'"
  shows "\<exists>ts ors. s' = s\<lparr>targets := ts, target_orientations := ors\<rparr> \<and> length ts = num_targets s
     \<and> length ors = length (target_orientations s)
     \<and> (\<forall>t < k. target_simulate order (collisions s) (targets s ! t) (A ! t) = Inr (ts ! t))
     \<and> (\<forall>t \<ge> k. ts ! t = targets s ! t)"
  using assms
proof (induction k arbitrary: s')
  case 0
  then show ?case
    by (intro exI [of _ "targets s"] exI [of _ "target_orientations s"]) (simp add: num_targets_def)
next
  case (Suc k)
  obtain s1 where s1: "fold_res (\<lambda>t. move_target order t (A ! t)) [0..<k] s = Inr s1"
    "move_target order k (A ! k) s1 = Inr s'"
    using Suc.prems(2) by (auto simp: fold_res_append bind_res_Inr)
  obtain ts ors where c: "s1 = s\<lparr>targets := ts, target_orientations := ors\<rparr>" "length ts = num_targets s"
    "length ors = length (target_orientations s)"
    "\<forall>t < k. target_simulate order (collisions s) (targets s ! t) (A ! t) = Inr (ts ! t)"
    "\<forall>t \<ge> k. ts ! t = targets s ! t"
    using Suc.IH [OF _ s1(1)] Suc.prems(1) by auto
  obtain t' ors' where t': "target_simulate order (collisions s) (targets s ! k) (A ! k) = Inr t'"
    "s' = s\<lparr>targets := ts[k := t'], target_orientations := ors'\<rparr>" "length ors' = length ors"
    by (rule move_target_Inr [OF s1(2)]) (use c in simp)
  show ?case
    using c t' Suc.prems(1) by (intro exI [of _ "ts[k := t']"] exI [of _ ors']) (auto simp: less_Suc_eq)
qed

lemma targets_succeed:
  assumes "k \<le> num_targets s" and "\<forall>t < k. length (A ! t) = TARGET_ACTION_DIM"
  shows "\<exists>s'. fold_res (\<lambda>t. move_target order t (A ! t)) [0..<k] s = Inr s'"
  using assms
proof (induction k)
  case 0
  then show ?case by simp
next
  case (Suc k)
  then obtain s1 where "fold_res (\<lambda>t. move_target order t (A ! t)) [0..<k] s = Inr s1" by auto
  moreover have "\<exists>s2. move_target order k (A ! k) s1 = Inr s2"
    using Suc.prems(2)
    by (simp add: move_target_def target_simulate_def bind_check Let_def split: prod.split)
  ultimately show ?case by (auto simp: fold_res_append)
qed

lemma reshape_rows:
  assumes "length xs = r * c"
  obtains rows where "reshape r c xs = Inr rows" "length rows = r" "\<forall>i < r. length (rows ! i) = c"
proof (rule that)
  show "reshape r c xs = Inr (map (\<lambda>i. take c (drop (c * i) xs)) [0..<r])"
    using assms by (simp add: reshape_def)
  have "c * i + c \<le> length xs" if "i < r" for i
    using that assms by (metis Suc_leI add.commute mult.commute mult_Suc mult_le_mono1)
  then show "\<forall>i < r. length (map (\<lambda>i. take c (drop (c * i) xs)) [0..<r] ! i) = c"
    by fastforce
qed simp

text \<open>The moved environment: everything but cameras, targets and orientations as before.\<close>

definition moved ::
  "(nat list \<Rightarrow> nat list) \<Rightarrow> ('g, 'm) env \<Rightarrow> ('g, 'm) env \<Rightarrow> bool" where
  "moved order s s' \<longleftrightarrow>
     (\<exists>cams ts ors. s' = s\<lparr>cameras := cams, targets := ts, target_orientations := ors\<rparr>
      \<and> length cams = num_cameras s \<and> length ts = num_targets s
      \<and> length ors = length (target_orientations s)
      \<and> (\<forall>c < num_cameras s. \<exists>a. camera_simulate (cameras s ! c) a = Inr (cams ! c))
      \<and> (\<forall>t < num_targets s. \<exists>a. target_simulate order (collisions s) (targets s ! t) a = Inr (ts ! t)))"

lemma simulate_moves:
  assumes "length (fst action) = num_cameras s * CAMERA_ACTION_DIM"
    and "length (snd action) = num_targets s * TARGET_ACTION_DIM"
  obtains s' where "moved order s s'" "simulate R interp1d order action s = Inr (update_view R interp1d s')"
proof -
  obtain ca where ca: "reshape (num_cameras s) CAMERA_ACTION_DIM (fst action) = Inr ca"
    "\<forall>c < num_cameras s. length (ca ! c) = CAMERA_ACTION_DIM"
    by (rule reshape_rows [OF assms(1)])
  obtain ta where ta: "reshape (num_targets s) TARGET_ACTION_DIM (snd action) = Inr ta"
    "\<forall>t < num_targets s. length (ta ! t) = TARGET_ACTION_DIM"
    by (rule reshape_rows [OF assms(2)])
  obtain s1 where s1: "fold_res (\<lambda>c. move_camera c (ca ! c)) [0..<num_cameras s] s = Inr s1"
    using cameras_succeed [OF le_refl ca(2)] by blast
  obtain cams where cams: "s1 = s\<lparr>cameras := cams\<rparr>" "length cams = num_cameras s"
    "\<forall>c < num_cameras s. camera_simulate (cameras s ! c) (ca ! c) = Inr (cams ! c)"
    using fold_cameras [OF le_refl s1] by blast
  have n: "num_targets s1 = num_targets s" by (simp add: cams(1) num_targets_def)
  obtain s2 where s2: "fold_res (\<lambda>t. move_target order t (ta ! t)) [0..<num_targets s] s1 = Inr s2"
    using targets_succeed [of "num_targets s" s1 ta order] ta(2) n by auto
  obtain ts ors where ts: "s2 = s1\<lparr>targets := ts, target_orientations := ors\<rparr>" "length ts = num_targets s"
    "length ors = length (target_orientations s1)"
    "\<forall>t < num_targets s. target_simulate order (collisions s1) (targets s1 ! t) (ta ! t) = Inr (ts ! t)"
    using fold_move_targets [of "num_targets s" s1 order ta s2] s2 n by auto
  have "moved order s s2"
    unfolding moved_def using cams ts
    by (intro exI [of _ cams] exI [of _ ts] exI [of _ ors]) auto
  moreover have "simulate R interp1d order action s = Inr (update_view R interp1d s2)"
    by (simp add: simulate_def ca ta s1 s2)
  ultimately show thesis by (rule that)
qed

subsection \<open>The invariant of the environment\<close>

definition books_ok :: "('g, 'z) world_scheme \<Rightarrow> bool" where
  "books_ok s \<longleftrightarrow>
     0 \<le> num_delivered_cargoes s
   \<and> target_team_episode_reward s = delayed_target_team_episode_reward s - bounty_lost s
   \<and> (freight_scale s - bounty_scale s) * num_delivered_cargoes s \<le> delayed_target_team_episode_reward s
   \<and> delayed_target_team_episode_reward s \<le> reward_scale s * num_delivered_cargoes s"

definition env_ok :: "('g, 'm) env \<Rightarrow> bool" where
  "env_ok s \<longleftrightarrow>
     0 < num_targets s
   \<and> (\<forall>c < num_cameras s. camera_ok (cameras s ! c))
   \<and> view_shapes s \<and> cargo_inv s \<and> books_ok s
   \<and> length (target_orientations s) = num_targets s
   \<and> length (target_steps s) = num_targets s \<and> length (tracked_steps s) = num_targets s
   \<and> mailbox_ok (mail s) \<and> team_size (mail s) = (\<lambda>t. num_agents t s)"

lemma target_simulate_ok:
  assumes "target_ok t" and "target_simulate order idx t a = Inr t'"
  shows "target_ok t'" "goal_bits t' = goal_bits t" "empty_bits t' = empty_bits t"
    "step_size t' = step_size t" "capacity t' = capacity t"
proof -
  obtain p b where m: "target_move order idx (location t) (step_size t) (a ! 0, a ! 1) = (p, b)"
    by fastforce
  have "p = fst (target_move order idx (location t) (step_size t) (a ! 0, a ! 1))" unfolding m by simp
  then have p: "in_terrain p" by (simp add: target_move_def Let_def clip_terrain_in)
  have "t' = t\<lparr>location := p, is_colliding := b\<rparr>"
    using assms(2) unfolding target_simulate_def m by (simp add: bind_check split: if_splits)
  then show "target_ok t'" "goal_bits t' = goal_bits t" "empty_bits t' = empty_bits t"
    "step_size t' = step_size t" "capacity t' = capacity t"
    using assms(1) p by (simp_all add: target_ok_def)
qed

lemma moved_env_ok:
  assumes "env_ok s" and "moved order s s'"
  shows "env_ok s'"
proof -
  obtain cams ts ors where m: "s' = s\<lparr>cameras := cams, targets := ts, target_orientations := ors\<rparr>"
    "length cams = num_cameras s" "length ts = num_targets s" "length ors = length (target_orientations s)"
    and c: "\<forall>c < num_cameras s. \<exists>a. camera_simulate (cameras s ! c) a = Inr (cams ! c)"
    and t: "\<forall>t < num_targets s. \<exists>a. target_simulate order (collisions s) (targets s ! t) a = Inr (ts ! t)"
    using assms(2) unfolding moved_def by blast
  have n: "num_targets s' = num_targets s" "num_cameras s' = num_cameras s" "num_obstacles s' = num_obstacles s"
    using m by (simp_all add: num_targets_def num_cameras_def num_obstacles_def)
  have T: "target_ok (ts ! i)" "goal_bits (ts ! i) = goal_bits (targets s ! i)" if "i < num_targets s" for i
    using t that assms(1) target_simulate_ok by (metis env_ok_def view_shapes_def)+
  have C: "camera_ok (cams ! i)" if "i < num_cameras s" for i
    using c that assms(1) camera_simulate_ok by (metis env_ok_def)
  have eq: "cargo_inv s' = cargo_inv s" "bounty_lost s' = bounty_lost s"
    by (rule cargo_inv_cong; use n T in \<open>simp add: m(1)\<close>)+
  have "view_shapes s'"
    using assms(1) T(1) n by (auto simp: env_ok_def view_shapes_def m(1))
  moreover have "books_ok s'"
    using assms(1) by (simp add: env_ok_def books_ok_def eq reward_scale_def) (simp add: m(1))
  moreover have "num_agents t s' = num_agents t s" for t
    by (cases t) (simp_all add: num_agents_def n)
  ultimately show ?thesis
    using assms(1) C m(4) n eq by (auto simp: env_ok_def m(1))
qed

lemma update_view_env_ok:
  assumes "env_ok s"
  shows "env_ok (update_view R interp1d s)"
proof -
  let ?s = "update_view R interp1d s"
  obtain cams ct cc tc to tt tb where u: "?s = s\<lparr>state_cache := None, cameras := cams,
      camera_target_view_mask := ct, target_camera_view_mask := tc, target_obstacle_view_mask := to,
      target_target_view_mask := tt, camera_camera_view_mask := cc, tracked_bits := tb\<rparr>"
    and L: "length cams = num_cameras s" "\<forall>c < num_cameras s. same_camera (cameras s ! c) (cams ! c)"
    "is_matrix (num_cameras s) (num_targets s) ct" "is_matrix (num_cameras s) (num_cameras s) cc"
    "tb = map (\<lambda>t. list_ex (\<lambda>row. row ! t) ct) [0..<num_targets s]"
    using update_view_frame [of R interp1d s] by blast
  have n: "num_targets ?s = num_targets s" "num_cameras ?s = num_cameras s" "num_obstacles ?s = num_obstacles s"
    using L(1) by (simp_all add: u num_targets_def num_cameras_def num_obstacles_def)
  have len: "length (tracked_bits s) = num_targets s"
    using assms by (simp add: env_ok_def cargo_inv_def cargo_shapes_def)
  have eq: "cargo_inv ?s = cargo_inv s" "bounty_lost ?s = bounty_lost s"
    by (rule cargo_inv_cong; simp add: u L(5) len num_targets_def)+
  have masks: "is_matrix (num_targets s) (num_cameras s) (target_camera_view_mask ?s)"
    "is_matrix (num_targets s) (num_obstacles s) (target_obstacle_view_mask ?s)"
    "is_matrix (num_targets s) (num_targets s) (target_target_view_mask ?s)"
    by (simp_all add: update_view_masks is_matrix_def num_targets_def num_cameras_def num_obstacles_def)
  have "view_shapes ?s"
    unfolding view_shapes_def n using assms masks L(3,4)
    by (simp add: env_ok_def view_shapes_def) (simp add: u)
  moreover have "books_ok ?s"
    using assms by (simp add: env_ok_def books_ok_def eq reward_scale_def) (simp add: u)
  moreover have "camera_ok (cams ! c)" if "c < num_cameras s" for c
    using same_camera_eqs(4) [OF L(2) [rule_format, OF that]] assms that by (simp add: env_ok_def)
  moreover have "num_agents t ?s = num_agents t s" for t
    by (cases t) (simp_all add: num_agents_def n)
  ultimately show ?thesis
    using assms n eq by (simp add: env_ok_def) (simp add: u)
qed

text \<open>The transport game leaves everything else of the environment alone.\<close>

lemma env_more:
  fixes s s' :: "('g, 'm) env"
  assumes "world.more s' = world.more s"
  shows "settings s' = settings s" "cameras s' = cameras s" "obstacles s' = obstacles s"
    "collisions s' = collisions s"
    "camera_target_view_mask s' = camera_target_view_mask s"
    "target_camera_view_mask s' = target_camera_view_mask s"
    "camera_camera_view_mask s' = camera_camera_view_mask s"
    "target_obstacle_view_mask s' = target_obstacle_view_mask s"
    "target_target_view_mask s' = target_target_view_mask s"
    "obstacle_states_flagged s' = obstacle_states_flagged s"
    "camera_obstacle_observations s' = camera_obstacle_observations s"
    "episode_step s' = episode_step s" "target_orientations s' = target_orientations s"
    "mail s' = mail s" "camera_order s' = camera_order s" "target_order s' = target_order s"
    "obstacle_order s' = obstacle_order s"
  using assms by (cases s; cases s'; simp)+

lemma assign_goals_env:
  assumes R: "rng_ok R" and ok: "env_ok s" and step: "assign_goals R s = (s', reward, delayed)"
  shows "env_ok (book_rewards reward delayed s')"
proof -
  note A = assign_goals_step [OF R _ step]
  have inv: "cargo_inv s" using ok by (simp add: env_ok_def)
  have L: "ledger (s, 0, 0) (s', reward, delayed)" by (rule A(1) [OF inv])
  have S: "same_setup s s'" and inv': "cargo_inv s'" using L by (auto simp: ledger_def)
  have n: "num_targets s' = num_targets s" and more: "world.more s' = world.more s"
    using S by (auto simp: same_setup_def)
  note M = env_more [OF more]
  have T: "target_ok (targets s' ! t)" if t: "t < num_targets s" for t
  proof -
    have b: "same_body (targets s ! t) (targets s' ! t)" by (rule same_setup_body [OF S t])
    have "goal_bits (targets s' ! t) = target_goal_bits s' ! t"
      using inv' t n by (simp add: cargo_inv_def load_ok_def Let_def)
    moreover have "length (target_goal_bits s' ! t) = NUM_WAREHOUSES"
      using inv' t n by (simp add: cargo_inv_def cargo_shapes_def is_matrix_def)
    ultimately show ?thesis
      using ok t same_body_eqs [OF b] by (simp add: env_ok_def view_shapes_def target_ok_def)
  qed
  let ?b = "book_rewards reward delayed s'"
  have nb: "num_targets ?b = num_targets s" "num_cameras ?b = num_cameras s" "num_obstacles ?b = num_obstacles s"
    using n M by (simp_all add: book_rewards_def num_targets_def num_cameras_def num_obstacles_def)
  have eq: "cargo_inv ?b = cargo_inv s'" "bounty_lost ?b = bounty_lost s'"
    by (rule cargo_inv_cong; simp add: book_rewards_def num_targets_def)+
  have bk: "books_ok s" using ok by (simp add: env_ok_def)
  have sc: "freight_scale s' = freight_scale s" "bounty_scale s' = bounty_scale s"
    "reward_scale s' = reward_scale s"
    "target_team_episode_reward s' = target_team_episode_reward s"
    "delayed_target_team_episode_reward s' = delayed_target_team_episode_reward s"
    using S by (auto simp: same_setup_def reward_scale_def)
  have "books_ok ?b"
    using L bk unfolding books_ok_def eq
    by (simp add: ledger_def book_rewards_def sc reward_scale_def algebra_simps)
  moreover have "view_shapes ?b"
    using ok T by (simp add: view_shapes_def nb env_ok_def) (simp add: book_rewards_def M)
  moreover have "num_agents t ?b = num_agents t s" for t
    by (cases t) (simp_all add: num_agents_def nb)
  moreover have "length (target_steps s') = length (target_steps s)"
    "length (tracked_steps s') = length (tracked_steps s)"
    using S by (simp_all add: same_setup_def)
  ultimately show ?thesis
    using ok inv' by (simp add: env_ok_def nb eq) (simp add: book_rewards_def M)
qed

subsection \<open>A step\<close>

lemma is_matrix_mat_add:
  "is_matrix r c a \<Longrightarrow> is_matrix r c b \<Longrightarrow> is_matrix r c (mat_add a b)"
  by (simp add: is_matrix_def mat_add_def)

lemma end_of_step_ok:
  assumes "mailbox_ok mb"
  shows "mailbox_ok (end_of_step mb)" "team_size (end_of_step mb) = team_size mb"
proof -
  have "is_matrix n n (zero_edges n)" for n
    by (simp add: zero_edges_def is_matrix_def)
  then show "mailbox_ok (end_of_step mb)" "team_size (end_of_step mb) = team_size mb"
    using assms by (simp_all add: mailbox_ok_def end_of_step_def is_matrix_mat_add)
qed

text \<open>The rates, the clock and the mailbox.\<close>

definition finish_step :: "('g, 'm) env \<Rightarrow> ('g, 'm) env" where
  "finish_step s = (tick (update_rates s))\<lparr>mail := end_of_step (mail s)\<rparr>"

lemma finish_step_frame:
  "num_targets (finish_step s) = num_targets s" "num_cameras (finish_step s) = num_cameras s"
  "num_obstacles (finish_step s) = num_obstacles s" "settings (finish_step s) = settings s"
  "episode_step (finish_step s) = episode_step s + 1"
  "total_cargoes (finish_step s) = total_cargoes s" "num_delivered_cargoes (finish_step s) = num_delivered_cargoes s"
  "target_team_episode_reward (finish_step s) = target_team_episode_reward s"
  "delayed_target_team_episode_reward (finish_step s) = delayed_target_team_episode_reward s"
  "awaiting_cargo_counts (finish_step s) = awaiting_cargo_counts s"
  "target_dones (finish_step s) = target_dones s" "targets (finish_step s) = targets s"
  "freight_scale (finish_step s) = freight_scale s" "bounty_scale (finish_step s) = bounty_scale s"
  "coverage_rate (finish_step s) = coverage_rate (update_rates s)"
  "real_coverage_rate (finish_step s) = real_coverage_rate (update_rates s)"
  "mean_transport_rate (finish_step s) = mean_transport_rate (update_rates s)"
  by (simp_all add: finish_step_def tick_def update_rates_def Let_def num_targets_def num_cameras_def
      num_obstacles_def total_cargoes_def)

lemma finish_step_env_ok:
  assumes "env_ok s"
  shows "env_ok (finish_step s)"
proof -
  let ?s = "finish_step s"
  have eq: "cargo_inv ?s = cargo_inv s" "bounty_lost ?s = bounty_lost s"
    by (rule cargo_inv_cong; simp add: finish_step_def tick_def update_rates_def Let_def num_targets_def)+
  have "length (tracked_bits s) = num_targets s"
    using assms by (simp add: env_ok_def cargo_inv_def cargo_shapes_def)
  moreover have "view_shapes ?s"
    using assms by (simp add: env_ok_def view_shapes_def finish_step_frame)
      (simp add: finish_step_def tick_def update_rates_def Let_def)
  moreover have "books_ok ?s"
    using assms by (simp add: env_ok_def books_ok_def eq finish_step_frame reward_scale_def)
  moreover have "num_agents t ?s = num_agents t s" for t
    by (cases t) (simp_all add: num_agents_def finish_step_frame)
  ultimately show ?thesis
    using assms end_of_step_ok [of "mail s"]
    by (simp add: env_ok_def finish_step_frame eq)
      (simp add: finish_step_def tick_def update_rates_def Let_def)
qed

text \<open>A step decomposed: movement, view, transport, books, end.\<close>

lemma step_decomposed:
  assumes "length (fst action) = num_cameras s * CAMERA_ACTION_DIM"
    and "length (snd action) = num_targets s * TARGET_ACTION_DIM"
  obtains s1 s2 s3 reward delayed res where
    "moved order s s1" "s2 = update_view R interp1d s1" "assign_goals R s2 = (s3, reward, delayed)"
    "step R interp1d order action s = Inr (res, finish_step (book_rewards reward delayed s3))"
    "target_team_reward res = (if sparse_reward (settings s) then delayed else reward)"
    "camera_team_reward res = - target_team_reward res"
    "done_flag res = episode_done (finish_step (book_rewards reward delayed s3))"
    "(camera_joint_observation res, target_joint_observation res)
       = fst (joint_observation (book_rewards reward delayed s3))"
proof -
  obtain s1 where s1: "moved order s s1" "simulate R interp1d order action s = Inr (update_view R interp1d s1)"
    by (rule simulate_moves [OF assms])
  obtain s3 reward delayed where a: "assign_goals R (update_view R interp1d s1) = (s3, reward, delayed)"
    by (cases "assign_goals R (update_view R interp1d s1)")
  let ?b = "book_rewards reward delayed s3"
  have m: "mail (tick (update_rates ?b)) = mail ?b"
    by (simp add: tick_def update_rates_def Let_def)
  have d: "episode_done (x\<lparr>mail := y\<rparr>) = episode_done x" for x :: "('a, 'b) env" and y
    by (simp add: episode_done_def)
  have "\<exists>res. step R interp1d order action s = Inr (res, finish_step ?b)
      \<and> target_team_reward res = (if sparse_reward (settings s) then delayed else reward)
      \<and> camera_team_reward res = - target_team_reward res
      \<and> done_flag res = episode_done (finish_step ?b)
      \<and> (camera_joint_observation res, target_joint_observation res) = fst (joint_observation ?b)"
    by (simp add: step_def s1(2) a joint_observation_def Let_def finish_step_def m d)
  then show thesis using that [OF s1(1) refl a] by blast
qed

lemma moved_frame:
  assumes "moved order s s'"
  shows "settings s' = settings s" "num_targets s' = num_targets s" "num_cameras s' = num_cameras s"
    "episode_step s' = episode_step s" "total_cargoes s' = total_cargoes s"
    "num_delivered_cargoes s' = num_delivered_cargoes s"
    "target_team_episode_reward s' = target_team_episode_reward s"
    "delayed_target_team_episode_reward s' = delayed_target_team_episode_reward s"
    "freight_scale s' = freight_scale s" "bounty_scale s' = bounty_scale s"
  using assms by (auto simp: moved_def num_targets_def num_cameras_def total_cargoes_def)

lemma update_view_world:
  "settings (update_view R i s) = settings s" "num_targets (update_view R i s) = num_targets s"
  "num_cameras (update_view R i s) = num_cameras s"
  "episode_step (update_view R i s) = episode_step s" "total_cargoes (update_view R i s) = total_cargoes s"
  "num_delivered_cargoes (update_view R i s) = num_delivered_cargoes s"
  "target_team_episode_reward (update_view R i s) = target_team_episode_reward s"
  "delayed_target_team_episode_reward (update_view R i s) = delayed_target_team_episode_reward s"
  "freight_scale (update_view R i s) = freight_scale s" "bounty_scale (update_view R i s) = bounty_scale s"
proof -
  obtain cams ct cc tc to tt tb where u: "update_view R i s = s\<lparr>state_cache := None, cameras := cams,
      camera_target_view_mask := ct, target_camera_view_mask := tc, target_obstacle_view_mask := to,
      target_target_view_mask := tt, camera_camera_view_mask := cc, tracked_bits := tb\<rparr>"
    and L: "length cams = num_cameras s"
    using update_view_frame [of R i s] by blast
  show "settings (update_view R i s) = settings s" "num_targets (update_view R i s) = num_targets s"
    "num_cameras (update_view R i s) = num_cameras s"
    "episode_step (update_view R i s) = episode_step s" "total_cargoes (update_view R i s) = total_cargoes s"
    "num_delivered_cargoes (update_view R i s) = num_delivered_cargoes s"
    "target_team_episode_reward (update_view R i s) = target_team_episode_reward s"
    "delayed_target_team_episode_reward (update_view R i s) = delayed_target_team_episode_reward s"
    "freight_scale (update_view R i s) = freight_scale s" "bounty_scale (update_view R i s) = bounty_scale s"
    using L by (simp_all add: u num_targets_def num_cameras_def total_cargoes_def)
qed

text \<open>What a step does to the environment, for actions of the right size.\<close>

lemma step_env:
  assumes R: "rng_ok R" and ok: "env_ok s"
    and "length (fst action) = num_cameras s * CAMERA_ACTION_DIM"
    and "length (snd action) = num_targets s * TARGET_ACTION_DIM"
  obtains res s' where "step R interp1d order action s = Inr (res, s')" "env_ok s'"
    "settings s' = settings s" "num_targets s' = num_targets s" "num_cameras s' = num_cameras s"
    "freight_scale s' = freight_scale s" "bounty_scale s' = bounty_scale s"
    "episode_step s' = episode_step s + 1" "total_cargoes s' = total_cargoes s"
    "num_delivered_cargoes s \<le> num_delivered_cargoes s'"
    "(freight_scale s - bounty_scale s) * (num_delivered_cargoes s' - num_delivered_cargoes s)
       \<le> delayed_target_team_episode_reward s' - delayed_target_team_episode_reward s"
    "delayed_target_team_episode_reward s' - delayed_target_team_episode_reward s
       \<le> reward_scale s * (num_delivered_cargoes s' - num_delivered_cargoes s)"
    "camera_team_reward res = - target_team_reward res"
    "target_team_reward res =
       (if sparse_reward (settings s)
        then delayed_target_team_episode_reward s' - delayed_target_team_episode_reward s
        else target_team_episode_reward s' - target_team_episode_reward s)"
    "done_flag res = (max_episode_steps (settings s) \<le> episode_step s \<or> \<not> any_nonzero (awaiting_cargo_counts s'))"
proof -
  obtain s1 s2 s3 reward delayed res where D: "moved order s s1" "s2 = update_view R interp1d s1"
    "assign_goals R s2 = (s3, reward, delayed)"
    "step R interp1d order action s = Inr (res, finish_step (book_rewards reward delayed s3))"
    "target_team_reward res = (if sparse_reward (settings s) then delayed else reward)"
    "camera_team_reward res = - target_team_reward res"
    "done_flag res = episode_done (finish_step (book_rewards reward delayed s3))"
    by (rule step_decomposed [OF assms(3,4)]) (rule that; assumption?)
  let ?b = "book_rewards reward delayed s3"
  have ok2: "env_ok s2" unfolding D(2) by (intro update_view_env_ok moved_env_ok [OF ok D(1)])
  have okb: "env_ok ?b" by (rule assign_goals_env [OF R ok2 D(3)])
  have L: "ledger (s2, 0, 0) (s3, reward, delayed)"
    using assign_goals_step(1) [OF R _ D(3)] ok2 by (simp add: env_ok_def)
  have S: "same_setup s2 s3" "total_cargoes s3 = total_cargoes s2"
    "num_delivered_cargoes s2 \<le> num_delivered_cargoes s3"
    "(freight_scale s2 - bounty_scale s2) * (num_delivered_cargoes s3 - num_delivered_cargoes s2) \<le> delayed"
    "delayed \<le> (freight_scale s2 + bounty_scale s2) * (num_delivered_cargoes s3 - num_delivered_cargoes s2)"
    using L by (auto simp: ledger_def reward_scale_def)
  have more: "world.more s3 = world.more s2" using S(1) by (simp add: same_setup_def)
  note M = env_more [OF more]
  note V = update_view_world [of R interp1d s1, folded D(2)] and mv = moved_frame [OF D(1)]
  have S': "num_targets s3 = num_targets s2" "freight_scale s3 = freight_scale s2"
    "bounty_scale s3 = bounty_scale s2"
    "target_team_episode_reward s3 = target_team_episode_reward s2"
    "delayed_target_team_episode_reward s3 = delayed_target_team_episode_reward s2"
    using S(1) by (auto simp: same_setup_def)
  have b: "settings ?b = settings s" "num_targets ?b = num_targets s" "num_cameras ?b = num_cameras s"
    "freight_scale ?b = freight_scale s" "bounty_scale ?b = bounty_scale s"
    "episode_step ?b = episode_step s" "total_cargoes ?b = total_cargoes s"
    "num_delivered_cargoes s \<le> num_delivered_cargoes ?b"
    "target_team_episode_reward ?b = target_team_episode_reward s + reward"
    "delayed_target_team_episode_reward ?b = delayed_target_team_episode_reward s + delayed"
    using S(2,3) S' M V mv
    by (simp_all add: book_rewards_def num_cameras_def num_targets_def total_cargoes_def)
  have "num_delivered_cargoes ?b = num_delivered_cargoes s3" by (simp add: book_rewards_def)
  then have paid: "(freight_scale s - bounty_scale s) * (num_delivered_cargoes ?b - num_delivered_cargoes s) \<le> delayed"
    "delayed \<le> reward_scale s * (num_delivered_cargoes ?b - num_delivered_cargoes s)"
    using S(4,5) V mv by (simp_all add: reward_scale_def)
  show thesis
    by (rule that [OF D(4) finish_step_env_ok [OF okb]])
      (use b paid D(5-7) in \<open>auto simp: finish_step_frame episode_done_def\<close>)
qed

end
