(* ===== verification/Reset.thy ===== *)
theory Reset
  imports Episode
begin

text \<open>
  \<open>reset\<close> establishes the invariant of an episode. \<open>env_setup\<close> says what \<open>__init__\<close> leaves (and every
  episode keeps): valid entities, arrays of the right shapes, at least two cargoes per target (the
  constructor asserts four). The placement loop gives up after 500 tries: an obstacle that finds no
  place gets radius 0, so a placed obstacle with a positive radius overlaps nothing placed before.
\<close>

definition env_setup :: "('g, 'm) env \<Rightarrow> bool" where
  "env_setup s \<longleftrightarrow>
     0 < num_targets s \<and> 2 \<le> cargoes_per_target (settings s)
   \<and> (\<forall>cam \<in> set (cameras s). camera_params_ok cam)
   \<and> (\<forall>t \<in> set (targets s). target_ok t \<and> 0 < transport_product t)
   \<and> length (camera_order s) = num_cameras s \<and> length (target_order s) = num_targets s
   \<and> length (obstacle_order s) = num_obstacles s
   \<and> 0 < freight_scale s \<and> 0 \<le> bounty_scale s
   \<and> num_high_capacity (settings s) \<le> num_targets s
   \<and> (num_obstacles s = 0 \<longrightarrow>
        obstacle_states_flagged s = [] \<and> camera_obstacle_observations s = replicate (num_cameras s) [])
   \<and> (num_cameras s = 0 \<longrightarrow> camera_obstacle_observations s = [])
   \<and> team_size (mail s) = (\<lambda>t. num_agents t s)"

subsection \<open>Order, seed and shuffle\<close>

lemma mset_unshuffle:
  assumes "length perm = length xs"
  shows "set (unshuffle perm xs) = set xs" "length (unshuffle perm xs) = length xs"
proof -
  have "set (unshuffle perm xs) = snd ` set (zip perm xs)" by (simp add: unshuffle_def)
  also have "\<dots> = set (map snd (zip perm xs))" by simp
  also have "map snd (zip perm xs) = xs" using assms by simp
  finally show "set (unshuffle perm xs) = set xs" .
  show "length (unshuffle perm xs) = length xs" using assms by (simp add: unshuffle_def)
qed

lemma restore_order_setup:
  assumes "env_setup s"
  shows "env_setup (restore_order s)" "num_targets (restore_order s) = num_targets s"
    "settings (restore_order s) = settings s" "num_cameras (restore_order s) = num_cameras s"
proof -
  have n: "num_targets (restore_order s) = num_targets s" "num_cameras (restore_order s) = num_cameras s"
    "num_obstacles (restore_order s) = num_obstacles s"
    using assms
    by (simp_all add: env_setup_def restore_order_def num_targets_def num_cameras_def num_obstacles_def
        mset_unshuffle(2))
  moreover have "num_agents t (restore_order s) = num_agents t s" for t
    by (cases t) (simp_all add: num_agents_def n)
  moreover have "set (unshuffle (camera_order s) (cameras s)) = set (cameras s)"
    "set (unshuffle (target_order s) (targets s)) = set (targets s)"
    using assms by (auto simp: env_setup_def num_cameras_def num_targets_def mset_unshuffle(1))
  ultimately show "env_setup (restore_order s)"
    using assms unfolding env_setup_def n by (simp add: restore_order_def)
  show "num_targets (restore_order s) = num_targets s" "settings (restore_order s) = settings s"
    "num_cameras (restore_order s) = num_cameras s"
    by (simp_all add: n) (simp add: restore_order_def)
qed

lemma camera_params_gen [simp]: "camera_params_ok (cam\<lparr>gen := g\<rparr>) = camera_params_ok cam"
  by (simp add: camera_params_ok_def)

lemma target_ok_gen [simp]: "target_ok (t\<lparr>gen := g\<rparr>) = target_ok t"
  by (simp add: target_ok_def)

lemma fold_draws:
  "length (fst (fold (\<lambda>c (acc, g). case draw g of (r, g') \<Rightarrow> (acc @ [r], g')) xs (acc, g))) = length acc + length xs"
  by (induction xs arbitrary: acc g) (auto split: prod.split)

lemma env_seed_setup:
  assumes "env_setup s"
  shows "env_setup (snd (env_seed R seeding seed s))"
    "num_targets (snd (env_seed R seeding seed s)) = num_targets s"
    "settings (snd (env_seed R seeding seed s)) = settings s"
    "num_cameras (snd (env_seed R seeding seed s)) = num_cameras s"
proof -
  let ?s = "snd (env_seed R seeding seed s)"
  obtain cs ts os g where e: "?s = s\<lparr>np_random := g,
      cameras := map2 (\<lambda>cam (g, _ :: int). cam\<lparr>gen := g\<rparr>) (cameras s) cs,
      targets := map2 (\<lambda>t (g, _ :: int). t\<lparr>gen := g\<rparr>) (targets s) ts,
      obstacles := map2 (\<lambda>ob (g, _ :: int). ob\<lparr>gen := g\<rparr>) (obstacles s) os\<rparr>"
    and len: "length cs = length (cameras s)" "length ts = length (targets s)" "length os = length (obstacles s)"
  proof -
    obtain g main where sd: "seeding seed = (g, main)" by fastforce
    define draw where "draw = (\<lambda>g. case randint R g 0 np_int_max of (v, g') \<Rightarrow> (seeding (Some v), g'))"
    let ?F = "\<lambda>c (acc, g). case draw g of (r, g') \<Rightarrow> (acc @ [r], g')"
    obtain cs g1 where c: "fold ?F (cameras s) ([], g) = (cs, g1)" by fastforce
    obtain ts g2 where t: "fold ?F (targets s) ([], g1) = (ts, g2)" by fastforce
    obtain os g3 where o: "fold ?F (obstacles s) ([], g2) = (os, g3)" by fastforce
    show thesis
    proof (rule that)
      show "?s = s\<lparr>np_random := g3,
          cameras := map2 (\<lambda>cam (g, _ :: int). cam\<lparr>gen := g\<rparr>) (cameras s) cs,
          targets := map2 (\<lambda>t (g, _ :: int). t\<lparr>gen := g\<rparr>) (targets s) ts,
          obstacles := map2 (\<lambda>ob (g, _ :: int). ob\<lparr>gen := g\<rparr>) (obstacles s) os\<rparr>"
        unfolding env_seed_def sd Let_def draw_def [symmetric] prod.case c t o by simp
      show "length cs = length (cameras s)" "length ts = length (targets s)" "length os = length (obstacles s)"
        using fold_draws [of draw "cameras s" "[]" g] fold_draws [of draw "targets s" "[]" g1]
          fold_draws [of draw "obstacles s" "[]" g2] by (simp_all add: c t o)
    qed
  qed
  have n: "num_targets ?s = num_targets s" "num_cameras ?s = num_cameras s" "num_obstacles ?s = num_obstacles s"
    by (simp_all add: e len num_targets_def num_cameras_def num_obstacles_def)
  moreover have "num_agents t ?s = num_agents t s" for t
    by (cases t) (simp_all add: num_agents_def n)
  moreover have "\<forall>cam \<in> set (cameras ?s). camera_params_ok cam"
    using assms by (auto simp: e env_setup_def dest: set_zip_leftD)
  moreover have "\<forall>t \<in> set (targets ?s). target_ok t \<and> 0 < transport_product t"
    using assms by (auto simp: e env_setup_def dest: set_zip_leftD)
  ultimately show "env_setup ?s"
    using assms unfolding env_setup_def n by (simp add: e)
  show "num_targets ?s = num_targets s" "settings ?s = settings s" "num_cameras ?s = num_cameras s"
    by (simp_all add: n) (simp add: e)
qed

lemma set_permuted: "set p = {..<length xs} \<Longrightarrow> set (map (\<lambda>i. xs ! i) p) = set xs"
  using nth_image [of "length xs" xs] by (simp add: atLeast0LessThan)

lemma shuffle_setup:
  assumes R: "rng_ok R" and "env_setup s"
  shows "env_setup (shuffle_env R s)" "num_targets (shuffle_env R s) = num_targets s"
    "settings (shuffle_env R s) = settings s" "num_cameras (shuffle_env R s) = num_cameras s"
proof -
  have perm: "length p = n \<and> set p = {..<n}" if "permutation R g n = (p, h)" for g n p h
    using rng_permutation [OF R, of g n] that by simp
  obtain cp g1 where c: "permutation R (np_random s) (num_cameras s) = (cp, g1)" by fastforce
  obtain tp g2 where t: "permutation R g1 (num_targets s) = (tp, g2)" by fastforce
  obtain op g3 where o: "permutation R g2 (num_obstacles s) = (op, g3)" by fastforce
  let ?s = "s\<lparr>np_random := g3,
      cameras := map (\<lambda>i. cameras s ! i) cp, camera_order := map (\<lambda>i. camera_order s ! i) cp,
      targets := map (\<lambda>i. targets s ! i) tp, target_order := map (\<lambda>i. target_order s ! i) tp,
      obstacles := map (\<lambda>i. obstacles s ! i) op, obstacle_order := map (\<lambda>i. obstacle_order s ! i) op\<rparr>"
  have e: "shuffle_env R s = (if \<not> shuffle_entities (settings s) then s else ?s)"
    by (simp add: shuffle_env_def c t o)
  have n: "num_targets ?s = num_targets s" "num_cameras ?s = num_cameras s" "num_obstacles ?s = num_obstacles s"
    using perm [OF c] perm [OF t] perm [OF o] by (simp_all add: num_targets_def num_cameras_def num_obstacles_def)
  moreover have "num_agents t ?s = num_agents t s" for t
    by (cases t) (simp_all add: num_agents_def n)
  moreover have "set (cameras ?s) = set (cameras s)" "set (targets ?s) = set (targets s)"
    using perm [OF c] perm [OF t] set_permuted [of cp "cameras s"] set_permuted [of tp "targets s"]
    by (simp_all add: num_cameras_def num_targets_def)
  ultimately have "env_setup ?s"
    using assms(2) perm [OF c] perm [OF t] perm [OF o] unfolding env_setup_def n by simp
  then show "env_setup (shuffle_env R s)" using assms(2) by (simp add: e)
  show "num_targets (shuffle_env R s) = num_targets s" "settings (shuffle_env R s) = settings s"
    "num_cameras (shuffle_env R s) = num_cameras s"
    using n(1,2) by (simp_all add: e)
qed

subsection \<open>Capacities\<close>

lemma set_capacity_ok:
  assumes "target_ok t" and "0 < transport_product t" and "0 < cap"
  obtains t' where "set_capacity t cap = Inr t'" "target_ok t'" "transport_product t' = transport_product t"
proof -
  have "0 < transport_product t / of_int cap" using assms(2,3) by simp
  then show thesis
    using that assms(1,2) by (simp add: set_capacity_def Let_def target_ok_def)
qed

definition capacities_ok :: "('g, 'm) env \<Rightarrow> bool" where
  "capacities_ok s \<longleftrightarrow>
     env_setup s \<and> length (target_capacities s) = num_targets s
   \<and> (\<forall>t < num_targets s. 0 < target_capacities s ! t \<and> target_capacities s ! t \<le> 2)"

lemma assign_capacities_ok:
  assumes "env_setup s"
  obtains s' where "assign_capacities R s = Inr s'" "capacities_ok s'" "num_targets s' = num_targets s"
    "settings s' = settings s" "num_cameras s' = num_cameras s"
proof (cases "num_high_capacity (settings s) = 0")
  case True
  let ?s = "s\<lparr>target_capacities := replicate (num_targets s) 1\<rparr>"
  have n: "num_targets ?s = num_targets s" "num_cameras ?s = num_cameras s" "num_obstacles ?s = num_obstacles s"
    by (simp_all add: num_targets_def num_cameras_def num_obstacles_def)
  moreover have "num_agents t ?s = num_agents t s" for t
    by (cases t) (simp_all add: num_agents_def n)
  ultimately have "env_setup ?s" using assms unfolding env_setup_def n by simp
  then have "capacities_ok ?s" unfolding capacities_ok_def n by simp
  then show thesis using True that [of ?s] n by (simp add: assign_capacities_def)
next
  case False
  let ?n = "num_targets s" and ?high = "num_high_capacity (settings s)"
  obtain slices g where sl: "(if shuffle_entities (settings s) then choice_distinct R (np_random s) ?n ?high
      else ([0..<min ?high ?n], np_random s)) = (slices, g)" by fastforce
  let ?caps = "map (\<lambda>t. if t \<in> set slices then 2 else 1 :: int) [0..<?n]"
  have cap: "0 < ?caps ! t \<and> ?caps ! t \<le> 2" if "t < ?n" for t using that by simp
  have "\<exists>t'. set_capacity (targets s ! t) (?caps ! t) = Inr t' \<and> target_ok t' \<and> 0 < transport_product t'"
    if t: "t < ?n" for t
  proof -
    have "target_ok (targets s ! t)" "0 < transport_product (targets s ! t)"
      using assms t by (auto simp: env_setup_def num_targets_def)
    from set_capacity_ok [OF this] cap [OF t] this(2) show ?thesis by metis
  qed
  then obtain f where f: "set_capacity (targets s ! t) (?caps ! t) = Inr (f t)" "target_ok (f t)"
    "0 < transport_product (f t)" if "t < ?n" for t by metis
  let ?ts = "map f [0..<?n]"
  have m: "map_res (\<lambda>t. set_capacity (targets s ! t) (?caps ! t)) [0..<?n] = Inr ?ts"
    unfolding map_res_Inr using f(1) by simp
  let ?s = "s\<lparr>np_random := g, target_capacities := ?caps, targets := ?ts\<rparr>"
  have n: "num_targets ?s = num_targets s" "num_cameras ?s = num_cameras s" "num_obstacles ?s = num_obstacles s"
    by (simp_all add: num_targets_def num_cameras_def num_obstacles_def)
  moreover have "num_agents t ?s = num_agents t s" for t
    by (cases t) (simp_all add: num_agents_def n)
  moreover have "\<forall>t \<in> set (targets ?s). target_ok t \<and> 0 < transport_product t"
    using f(2,3) by auto
  ultimately have "env_setup ?s" using assms unfolding env_setup_def n by simp
  moreover have "0 < target_capacities ?s ! t \<and> target_capacities ?s ! t \<le> 2" if "t < ?n" for t
    using cap [OF that] by simp
  ultimately have "capacities_ok ?s" unfolding capacities_ok_def n by simp
  moreover have "assign_capacities R s = Inr ?s"
    unfolding assign_capacities_def Let_def sl prod.case m using False by simp
  ultimately show thesis using that [of ?s] n by simp
qed

subsection \<open>Placement\<close>

lemma place_result:
  assumes "\<And>e. P e \<Longrightarrow> P (rst e) \<and> Q (rst e)" and "P e" and "place (Suc n) rst fp d placed e = (e', found)"
  shows "P e' \<and> Q e' \<and> (found \<longrightarrow> list_all (\<lambda>r. \<not> overlaps (fp e') r d) placed)"
  using assms(2,3)
proof (induction n arbitrary: e)
  case 0
  then show ?case using assms(1) by (auto simp: Let_def split: if_splits)
next
  case (Suc n)
  show ?case
  proof (cases "list_all (\<lambda>r. \<not> overlaps (fp (rst e)) r d) placed")
    case True
    then show ?thesis using Suc.prems assms(1) by (auto simp: Let_def)
  next
    case False
    then have "place (Suc n) rst fp d placed (rst e) = (e', found)"
      using Suc.prems(2) by (subst (asm) place.simps(2)) (simp add: Let_def del: place.simps)
    then show ?thesis using Suc.IH assms(1) Suc.prems(1) by blast
  qed
qed

lemma place_all_result:
  assumes "\<And>e. P e \<Longrightarrow> P (rst e) \<and> Q (rst e)" and "\<And>e. Q e \<Longrightarrow> Q (give_up e)"
    and "\<forall>e \<in> set es. P e" and "place_all rst fp give_up d es placed = (es', placed')"
  shows "length es' = length es \<and> (\<forall>e \<in> set es'. Q e)"
  using assms(3,4)
proof (induction es arbitrary: placed es' placed')
  case Nil
  then show ?case by simp
next
  case (Cons e es)
  obtain e1 found where p: "place NUM_RESET_RETRIES rst fp d placed e = (e1, found)" by fastforce
  have "Q e1"
    using place_result [of P rst Q e 499 fp d placed e1 found] assms(1) Cons.prems(1) p
    by (simp add: NUM_RESET_RETRIES_def eval_nat_numeral del: place.simps)
  then have "Q (if found then e1 else give_up e1)" using assms(2) by simp
  then show ?case
    using Cons.IH Cons.prems by (auto simp: p Let_def split: prod.splits)
qed

text \<open>What the reset of a camera leaves: valid parameters and two full circles of rays.\<close>

definition camera_fresh :: "'g camera \<Rightarrow> bool" where
  "camera_fresh cam \<longleftrightarrow> camera_ok cam \<and> boundary cam \<noteq> [] \<and> boundary_outer cam \<noteq> []"

lemma camera_reset_fresh:
  assumes "rng_ok R" and "camera_params_ok cam"
  shows "camera_fresh (camera_reset R cam)"
proof -
  have "full_circle a b \<noteq> []" for a b by (simp add: full_circle_def linspace_def)
  then show ?thesis
    using camera_reset_ok [OF assms]
    by (simp add: camera_fresh_def) (simp add: camera_reset_def Let_def split: prod.split)
qed

definition target_fresh :: "'g target \<Rightarrow> bool" where
  "target_fresh t \<longleftrightarrow> target_ok t \<and> 0 < transport_product t \<and> goal_bits t = replicate NUM_WAREHOUSES 0
     \<and> empty_bits t = replicate NUM_WAREHOUSES False"

lemma target_reset_fresh:
  "target_ok t \<and> 0 < transport_product t \<Longrightarrow> target_fresh (target_reset R t)"
  using target_reset_ok(1) [of t R]
  by (auto simp: target_fresh_def target_reset_def target_ok_def entity_reset_def split: prod.splits)

lemma place_entities_ok:
  assumes R: "rng_ok R" and "capacities_ok s"
  shows "\<exists>cams obs ts. place_entities R s = s\<lparr>cameras := cams, obstacles := obs, targets := ts\<rparr>
     \<and> length cams = num_cameras s \<and> length obs = num_obstacles s \<and> length ts = num_targets s
     \<and> (\<forall>cam \<in> set cams. camera_fresh cam) \<and> (\<forall>t \<in> set ts. target_fresh t)"
proof -
  let ?d = "target_step_size (settings s)"
  obtain cams p1 where c: "place_all (camera_reset R) (\<lambda>cam. footprint_of (Some (sight_range cam)) cam) id ?d
      (cameras s) warehouse_footprints = (cams, p1)" by fastforce
  obtain obs p2 where o: "place_all (obstacle_reset R) (footprint_of None) (\<lambda>ob. ob\<lparr>radius := 0\<rparr>) ?d
      (obstacles s) p1 = (obs, p2)" by fastforce
  obtain ts p3 where t: "place_all (target_reset R) (footprint_of None) id 0 (targets s) p2 = (ts, p3)" by fastforce
  have C: "length cams = length (cameras s) \<and> (\<forall>cam \<in> set cams. camera_fresh cam)"
  proof (rule place_all_result [OF _ _ _ c, where P = camera_params_ok])
    show "camera_params_ok (camera_reset R e) \<and> camera_fresh (camera_reset R e)" if "camera_params_ok e" for e
      using camera_reset_fresh [OF R that] camera_ok_params by (auto simp: camera_fresh_def)
  qed (use assms(2) in \<open>auto simp: capacities_ok_def env_setup_def\<close>)
  have O: "length obs = length (obstacles s) \<and> (\<forall>ob \<in> set obs. True)"
    by (rule place_all_result [OF _ _ _ o, where P = "\<lambda>_. True"]) simp_all
  have T: "length ts = length (targets s) \<and> (\<forall>t \<in> set ts. target_fresh t)"
  proof (rule place_all_result [OF _ _ _ t, where P = "\<lambda>t. target_ok t \<and> 0 < transport_product t"])
    show "(target_ok (target_reset R e) \<and> 0 < transport_product (target_reset R e)) \<and> target_fresh (target_reset R e)"
      if "target_ok e \<and> 0 < transport_product e" for e
      using target_reset_fresh [OF that, of R] by (simp add: target_fresh_def)
  qed (use assms(2) in \<open>auto simp: capacities_ok_def env_setup_def\<close>)
  show ?thesis
    using C O T by (auto simp: place_entities_def Let_def c o t num_cameras_def num_obstacles_def num_targets_def)
qed

end
