(* ===== verification/Startup.thy ===== *)
theory Startup
  imports Reset
begin

text \<open>
  \<open>reset\<close> as a whole: after the placement the obstacles are registered with the cameras and the
  collision index, the view is updated, the cargoes are drawn, and the observations of the first
  state are returned. The section shows that every part succeeds and that the state it leaves
  satisfies the invariant of an episode.
\<close>

subsection \<open>Registering the obstacles never fails after a reset\<close>

lemma extend_boundary_nonempty:
  "fst bs \<noteq> [] \<Longrightarrow> snd bs \<noteq> [] \<Longrightarrow> fst (extend_boundary cam obs bs) \<noteq> [] \<and> snd (extend_boundary cam obs bs) \<noteq> []"
  by (induction obs arbitrary: bs) (auto simp: blind_rays_def polar_rays_def split: prod.split)

lemma length_cut_by: "length (cut_by obs outer rays) = length rays"
proof -
  have "length (fold (\<lambda>o1 rs. if opaque o1 then map (\<lambda>b. obstruct (location o1) (radius o1) b False outer) rs
      else rs) obs rays) = length rays"
    by (induction obs arbitrary: rays) auto
  then show ?thesis by (simp add: cut_by_def)
qed

lemma cut_by_Nil: "cut_by obs outer rays = [] \<longleftrightarrow> rays = []"
  using length_cut_by [of obs outer rays] by (metis length_0_conv)

lemma interpolate_boundary_succeeds:
  assumes "rays \<noteq> []"
  obtains c kept where "interpolate_boundary rays = Inr (c, kept)" "kept \<noteq> []"
proof -
  let ?k = "dedup_into [] (sort_key r_angle rays)"
  have "r_angle ` set ?k = r_angle ` set rays" using dedup_sorted [of rays] by (simp add: dedup_ok_def)
  then have "?k \<noteq> []" using assms by auto
  then show thesis
    using that by (cases ?k) (auto simp: interpolate_boundary_def close_circle_def)
qed

lemma camera_add_obstacles_succeeds:
  assumes "camera_fresh cam"
  obtains cam' where "camera_add_obstacles order obs (camera_clear_obstacles cam) = Inr cam'"
    "camera_ok cam'" "location cam' = location cam" "radius cam' = radius cam"
proof -
  let ?c = "camera_clear_obstacles cam"
  let ?near = "map (\<lambda>i. obs ! i) (order (filter (\<lambda>i. in_reach ?c (obs ! i)) [0..<length obs]))"
  obtain inner outer where e: "extend_boundary ?c ?near (boundary ?c, boundary_outer ?c) = (inner, outer)"
    by fastforce
  have "boundary ?c \<noteq> []" "boundary_outer ?c \<noteq> []"
    using assms by (simp_all add: camera_fresh_def camera_clear_obstacles_def)
  then have "inner \<noteq> []" "outer \<noteq> []"
    using extend_boundary_nonempty [of "(boundary ?c, boundary_outer ?c)" ?c ?near] by (simp_all add: e)
  then have ne: "cut_by ?near False inner \<noteq> []" "cut_by ?near True outer \<noteq> []"
    by (simp_all add: cut_by_Nil)
  obtain phis rhos b where i: "interpolate_boundary (cut_by ?near False inner) = Inr ((phis, rhos), b)"
    using interpolate_boundary_succeeds [OF ne(1)] by (metis surj_pair)
  obtain ophis orhos bo where o: "interpolate_boundary (cut_by ?near True outer) = Inr ((ophis, orhos), bo)"
    using interpolate_boundary_succeeds [OF ne(2)] by (metis surj_pair)
  have "camera_add_obstacles order obs ?c = Inr (?c\<lparr>
      cam_obstacles := remdups (cam_obstacles ?c @ filter (\<lambda>i. in_reach ?c (obs ! i)) [0..<length obs]),
      sight_phis := phis, sight_rhos := rhos, boundary := b,
      sight_outer_phis := ophis, sight_outer_rhos := orhos, boundary_outer := bo\<rparr>)"
    by (simp add: camera_add_obstacles_def Let_def e i o)
  then show thesis
    by (rule that) (use assms in \<open>simp_all add: camera_fresh_def camera_ok_def camera_clear_obstacles_def\<close>)
qed

lemma register_obstacles_succeeds:
  assumes "\<forall>cam \<in> set (cameras s). camera_fresh cam"
  obtains cams idx where "register_obstacles order s = Inr (s\<lparr>cameras := cams, collisions := idx\<rparr>)"
    "length cams = num_cameras s" "\<forall>c < num_cameras s. camera_ok (cams ! c)"
proof -
  let ?f = "\<lambda>cam. camera_add_obstacles order (obstacles s) (camera_clear_obstacles cam)"
  have "\<exists>cam'. ?f cam = Inr cam' \<and> camera_ok cam'" if "cam \<in> set (cameras s)" for cam
    using that assms camera_add_obstacles_succeeds [of cam order "obstacles s"] by metis
  from map_res_succeeds [of "cameras s" ?f "\<lambda>_. camera_ok", OF this]
  obtain cams where "map_res ?f (cameras s) = Inr cams" "length cams = length (cameras s)"
    "\<forall>i < length (cameras s). camera_ok (cams ! i)" by blast
  then show thesis
    using that by (simp add: register_obstacles_def Let_def num_cameras_def)
qed

lemma note_obstacles_frame:
  assumes "num_obstacles s = 0 \<Longrightarrow>
      obstacle_states_flagged s = [] \<and> camera_obstacle_observations s = replicate (num_cameras s) []"
    and "num_cameras s = 0 \<Longrightarrow> camera_obstacle_observations s = []"
  shows "\<exists>rows com tom obs. note_obstacles s = s\<lparr>obstacle_states_flagged := rows,
      camera_obstacle_view_mask := com, target_obstacle_view_mask := tom, camera_obstacle_observations := obs\<rparr>
    \<and> is_matrix (num_obstacles s) (OBSTACLE_STATE_DIM + 1) rows
    \<and> is_matrix (num_cameras s) (num_obstacles s * (OBSTACLE_STATE_DIM + 1)) obs"
proof (cases "num_obstacles s = 0")
  case True
  then show ?thesis
    using assms(1)
    by (intro exI [of _ "obstacle_states_flagged s"] exI [of _ "camera_obstacle_view_mask s"]
        exI [of _ "target_obstacle_view_mask s"] exI [of _ "camera_obstacle_observations s"])
      (simp add: note_obstacles_def is_matrix_def)
next
  case False
  let ?rows = "map (\<lambda>ob. flagged (obstacle_state ob)) (obstacles s)"
  let ?co = "map (\<lambda>cam. map (\<lambda>j. j \<in> set (cam_obstacles cam)) [0..<num_obstacles s]) (cameras s)"
  let ?obs = "map (\<lambda>row. masked_rows row ?rows) ?co"
  have rows: "\<forall>row \<in> set ?rows. length row = OBSTACLE_STATE_DIM + 1" "length ?rows = num_obstacles s"
    by (auto simp: num_obstacles_def)
  have m: "is_matrix (num_obstacles s) (OBSTACLE_STATE_DIM + 1) ?rows"
    using rows by (simp add: is_matrix_def num_obstacles_def)
  have obs: "is_matrix (num_cameras s) (num_obstacles s * (OBSTACLE_STATE_DIM + 1)) ?obs"
    unfolding is_matrix_def
  proof (intro conjI ballI allI impI)
    show "length ?obs = num_cameras s" by (simp add: num_cameras_def)
  qed (use masked_rows_length [OF rows(1)] rows(2) in \<open>auto simp: num_cameras_def\<close>)
  show ?thesis
  proof (cases "num_cameras s = 0")
    case True
    then show ?thesis
      using False m assms(2)
      by (intro exI [of _ ?rows] exI [of _ ?co] exI [of _ "false_mask (num_targets s) (num_obstacles s)"]
          exI [of _ "camera_obstacle_observations s"]) (simp add: note_obstacles_def Let_def is_matrix_def)
  next
    case cams: False
    then show ?thesis
      using False m obs
      by (intro exI [of _ ?rows] exI [of _ ?co] exI [of _ "false_mask (num_targets s) (num_obstacles s)"]
          exI [of _ ?obs]) (simp add: note_obstacles_def Let_def)
  qed
qed

subsection \<open>The state before the cargoes are drawn\<close>

text \<open>What of \<open>env_setup\<close> an invariant of an episode does not already say: nothing of it ever changes.\<close>

definition config_ok :: "('g, 'm) env \<Rightarrow> bool" where
  "config_ok s \<longleftrightarrow>
     2 \<le> cargoes_per_target (settings s) \<and> num_high_capacity (settings s) \<le> num_targets s
   \<and> (\<forall>t < num_targets s. 0 < transport_product (targets s ! t))
   \<and> length (camera_order s) = num_cameras s \<and> length (target_order s) = num_targets s
   \<and> length (obstacle_order s) = num_obstacles s"

lemma env_ok_setup:
  assumes "env_ok s" and "config_ok s"
  shows "env_setup s"
proof -
  have "camera_params_ok cam" if "cam \<in> set (cameras s)" for cam
    using that assms(1) camera_ok_params by (auto simp: env_ok_def num_cameras_def in_set_conv_nth)
  moreover have "target_ok t \<and> 0 < transport_product t" if "t \<in> set (targets s)" for t
    using that assms by (auto simp: env_ok_def config_ok_def view_shapes_def num_targets_def in_set_conv_nth)
  moreover have "camera_obstacle_observations s = replicate (num_cameras s) []" if "num_obstacles s = 0"
    using that assms(1) by (auto simp: env_ok_def view_shapes_def is_matrix_def intro!: nth_equalityI)
  ultimately show ?thesis
    using assms by (auto simp: env_setup_def env_ok_def config_ok_def view_shapes_def is_matrix_def cargo_inv_def scales_ok_def)
qed

lemma config_ok_cong:
  assumes "settings s' = settings s" "camera_order s' = camera_order s" "target_order s' = target_order s"
    "obstacle_order s' = obstacle_order s" "num_cameras s' = num_cameras s" "num_targets s' = num_targets s"
    "num_obstacles s' = num_obstacles s"
    "\<And>t. t < num_targets s \<Longrightarrow> transport_product (targets s' ! t) = transport_product (targets s ! t)"
  shows "config_ok s' = config_ok s"
  using assms by (simp add: config_ok_def)

definition staged :: "('g, 'm) env \<Rightarrow> bool" where
  "staged s \<longleftrightarrow> config_ok s \<and>
     (\<forall>c < num_cameras s. camera_ok (cameras s ! c)) \<and> view_shapes s \<and> reset_ready s
   \<and> team_size (mail s) = (\<lambda>t. num_agents t s)
   \<and> (\<forall>t < num_targets s. empty_bits (targets s ! t) = replicate NUM_WAREHOUSES False)"

lemma placed_staged:
  assumes R: "rng_ok R" and ok: "capacities_ok s"
  obtains s3 where "register_obstacles order (place_entities R s) = Inr s3"
    "staged (update_view R interp1d (note_obstacles s3))"
    "num_targets (update_view R interp1d (note_obstacles s3)) = num_targets s"
    "settings (update_view R interp1d (note_obstacles s3)) = settings s"
    "num_cameras (update_view R interp1d (note_obstacles s3)) = num_cameras s"
proof -
  obtain cams obs ts where p: "place_entities R s = s\<lparr>cameras := cams, obstacles := obs, targets := ts\<rparr>"
    and len: "length cams = num_cameras s" "length obs = num_obstacles s" "length ts = num_targets s"
    and fresh: "\<forall>cam \<in> set cams. camera_fresh cam" "\<forall>t \<in> set ts. target_fresh t"
    using place_entities_ok [OF R ok] by blast
  let ?p = "place_entities R s"
  have "\<forall>cam \<in> set (cameras ?p). camera_fresh cam" using fresh(1) by (simp add: p)
  then obtain cams' idx where
    r: "register_obstacles order ?p = Inr (?p\<lparr>cameras := cams', collisions := idx\<rparr>)"
      "length cams' = num_cameras ?p" "\<forall>c < num_cameras ?p. camera_ok (cams' ! c)"
    by (rule register_obstacles_succeeds)
  define s3 where "s3 = ?p\<lparr>cameras := cams', collisions := idx\<rparr>"
  have s3: "s3 = s\<lparr>obstacles := obs, targets := ts, cameras := cams', collisions := idx\<rparr>"
    by (simp add: s3_def p)
  have n3: "num_cameras s3 = num_cameras s" "num_targets s3 = num_targets s" "num_obstacles s3 = num_obstacles s"
    using r(2) len by (simp_all add: s3 p num_cameras_def num_targets_def num_obstacles_def)
  have su: "env_setup s" using ok by (simp add: capacities_ok_def)
  have zero: "num_obstacles s3 = 0 \<Longrightarrow> obstacle_states_flagged s3 = []
      \<and> camera_obstacle_observations s3 = replicate (num_cameras s3) []"
    "num_cameras s3 = 0 \<Longrightarrow> camera_obstacle_observations s3 = []"
    unfolding n3 using su by (simp_all add: s3 env_setup_def)
  obtain rows com tom ob where no: "note_obstacles s3 = s3\<lparr>obstacle_states_flagged := rows,
      camera_obstacle_view_mask := com, target_obstacle_view_mask := tom, camera_obstacle_observations := ob\<rparr>"
    and mats: "is_matrix (num_obstacles s) (OBSTACLE_STATE_DIM + 1) rows"
    "is_matrix (num_cameras s) (num_obstacles s * (OBSTACLE_STATE_DIM + 1)) ob"
    using note_obstacles_frame [of s3, OF zero] unfolding n3 by blast
  define n where "n = note_obstacles s3"
  note ne = no [folded n_def, unfolded s3]
  define u where "u = update_view R interp1d n"
  have nn: "num_cameras n = num_cameras s" "num_targets n = num_targets s" "num_obstacles n = num_obstacles s"
    using n3 no [folded n_def] by (simp_all add: num_cameras_def num_targets_def num_obstacles_def)
  obtain cams2 ct cc tc to tt tb where e: "u = n\<lparr>state_cache := None, cameras := cams2,
      camera_target_view_mask := ct, target_camera_view_mask := tc, target_obstacle_view_mask := to,
      target_target_view_mask := tt, camera_camera_view_mask := cc, tracked_bits := tb\<rparr>"
    and L: "length cams2 = num_cameras s" "\<forall>c < num_cameras s. same_camera (cameras n ! c) (cams2 ! c)"
    "is_matrix (num_cameras s) (num_targets s) ct" "is_matrix (num_cameras s) (num_cameras s) cc"
    "tb = map (\<lambda>t. list_ex (\<lambda>row. row ! t) ct) [0..<num_targets s]"
    using update_view_frame [of R interp1d n] unfolding nn u_def by blast
  have nu: "num_cameras u = num_cameras s" "num_targets u = num_targets s" "num_obstacles u = num_obstacles s"
    using L(1) nn by (simp_all add: e num_cameras_def num_targets_def num_obstacles_def)
  have masks: "is_matrix (num_targets s) (num_cameras s) (target_camera_view_mask u)"
    "is_matrix (num_targets s) (num_obstacles s) (target_obstacle_view_mask u)"
    "is_matrix (num_targets s) (num_targets s) (target_target_view_mask u)"
    using nn by (simp_all add: u_def update_view_masks is_matrix_def num_targets_def num_cameras_def num_obstacles_def)
  have ts: "targets u = ts" by (simp add: e ne)
  have tfresh: "target_fresh (ts ! t)" if "t < num_targets s" for t using fresh(2) len(3) that by simp
  have cams: "camera_ok (cameras u ! c)" if "c < num_cameras s" for c
  proof -
    have "camera_ok (cameras n ! c)" using r(3) that len by (simp add: ne p num_cameras_def)
    then show ?thesis using same_camera_eqs(4) [OF L(2) [rule_format, OF that]] by (simp add: e)
  qed
  have "is_matrix (num_obstacles s) (OBSTACLE_STATE_DIM + 1) (obstacle_states_flagged u)"
    "is_matrix (num_cameras s) (num_obstacles s * (OBSTACLE_STATE_DIM + 1)) (camera_obstacle_observations u)"
    "is_matrix (num_cameras s) (num_targets s) (camera_target_view_mask u)"
    "is_matrix (num_cameras s) (num_cameras s) (camera_camera_view_mask u)"
    using mats L by (simp_all add: e ne)
  then have "view_shapes u"
    using masks tfresh unfolding view_shapes_def nu ts by (simp add: target_fresh_def)
  moreover have "reset_ready u"
    unfolding reset_ready_def scales_ok_def nu ts using ok tfresh
    by (auto simp: L(5) capacities_ok_def env_setup_def target_fresh_def e ne)
  moreover have "num_agents t u = num_agents t s" for t
    by (cases t) (simp_all add: num_agents_def nu)
  moreover have "empty_bits (targets u ! t) = replicate NUM_WAREHOUSES False" if "t < num_targets s" for t
    using tfresh [OF that] by (simp add: ts target_fresh_def)
  moreover have "config_ok u"
    using su tfresh unfolding config_ok_def nu ts by (simp add: env_setup_def target_fresh_def) (simp add: e ne)
  ultimately have "staged u"
    using cams su by (simp add: staged_def nu env_setup_def) (simp add: e ne)
  moreover have "settings u = settings s" by (simp add: e ne)
  moreover have "register_obstacles order ?p = Inr s3" using r(1) by (simp add: s3_def)
  ultimately show thesis
    using nu(1,2) unfolding u_def n_def by (intro that)
qed

subsection \<open>The cargoes, the orientations and the first observations\<close>

lemma same_body_target_ok:
  assumes "same_body t t'" and "target_ok t" and "length (goal_bits t') = NUM_WAREHOUSES"
  shows "target_ok t'"
  using assms same_body_eqs [OF assms(1)] by (simp add: target_ok_def)

lemma cargo_inv_goal_bits:
  assumes "cargo_inv s" and "t < num_targets s"
  shows "length (goal_bits (targets s ! t)) = NUM_WAREHOUSES"
  using assms by (simp add: cargo_inv_def load_ok_def Let_def cargo_shapes_def is_matrix_def)

lemma staged_cargo:
  assumes R: "rng_ok R" and st: "staged s" and k: "2 \<le> k" and run: "reset_cargo R k start s = Some res"
  obtains s' m where "res = Inr s'" "fresh_episode s'" "num_targets s' = num_targets s"
    "total_cargoes s' = int (Suc m * (k * num_targets s))"
    "start \<Longrightarrow> \<forall>t < num_targets s'. 0 \<le> target_goals s' ! t"
    "settings s' = settings s" "num_cameras s' = num_cameras s" "view_shapes s'" "\<forall>c < num_cameras s'. camera_ok (cameras s' ! c)"
    "team_size (mail s') = (\<lambda>t. num_agents t s')"
    "length (target_steps s') = num_targets s" "length (tracked_steps s') = num_targets s" "config_ok s'"
proof -
  have ready: "reset_ready s" using st by (simp add: staged_def)
  obtain s' m where r: "res = Inr s'" "fresh_episode s'" "num_targets s' = num_targets s"
    "total_cargoes s' = int (Suc m * (k * num_targets s))"
    "start \<Longrightarrow> \<forall>t < num_targets s'. 0 \<le> target_goals s' ! t" and fr: "game_frame s s'"
    by (rule reset_cargo_fresh [OF R ready k run]) (rule that; assumption?)
  have more: "world.more s' = world.more s" using fr by (simp add: game_frame_def)
  note M = env_more [OF more]
  have n: "num_cameras s' = num_cameras s" "num_obstacles s' = num_obstacles s"
    using M by (simp_all add: num_cameras_def num_obstacles_def)
  have inv: "cargo_inv s'" using r(2) by (simp add: fresh_episode_def)
  have T: "target_ok (targets s' ! t)" if t: "t < num_targets s" for t
  proof (rule same_body_target_ok)
    show "same_body (targets s ! t) (targets s' ! t)" using fr t by (simp add: game_frame_def)
    show "target_ok (targets s ! t)" using st t by (simp add: staged_def view_shapes_def)
    show "length (goal_bits (targets s' ! t)) = NUM_WAREHOUSES"
      using cargo_inv_goal_bits [OF inv] t r(3) by simp
  qed
  have "view_shapes s'"
    using st T by (simp add: staged_def view_shapes_def n r(3) M)
  moreover have "num_agents t s' = num_agents t s" for t
    by (cases t) (simp_all add: num_agents_def n r(3))
  moreover have "config_ok s' = config_ok s"
    using fr by (intro config_ok_cong) (auto simp: M n r(3) game_frame_def same_body_eqs)
  ultimately show thesis
    using st fr by (intro that [OF r]) (auto simp: staged_def M n game_frame_def)
qed

lemma orient_targets_frame:
  "\<exists>g ors. orient_targets R s = s\<lparr>np_random := g, target_orientations := ors\<rparr> \<and> length ors = num_targets s"
proof -
  have F: "\<exists>g ors. fold (orient_target R) ts u = u\<lparr>np_random := g, target_orientations := ors\<rparr>
      \<and> length ors = length (target_orientations u)" for ts u
  proof (induction ts arbitrary: u)
    case Nil
    then show ?case by (intro exI [of _ "np_random u"] exI [of _ "target_orientations u"]) simp
  next
    case (Cons t ts)
    have "\<exists>g ors. orient_target R t u = u\<lparr>np_random := g, target_orientations := ors\<rparr>
        \<and> length ors = length (target_orientations u)"
    proof (cases "target_goals u ! t \<ge> 0")
      case True
      then show ?thesis
        by (intro exI [of _ "np_random u"]) (auto simp: orient_target_def Let_def)
    next
      case False
      obtain x g where "random_unit R (np_random u) = (x, g)" by fastforce
      then show ?thesis
        using False by (intro exI [of _ g]) (auto simp: orient_target_def Let_def)
    qed
    then obtain g ors where o: "orient_target R t u = u\<lparr>np_random := g, target_orientations := ors\<rparr>"
      "length ors = length (target_orientations u)" by blast
    obtain g' ors' where "fold (orient_target R) ts (orient_target R t u)
        = (orient_target R t u)\<lparr>np_random := g', target_orientations := ors'\<rparr>"
      "length ors' = length (target_orientations (orient_target R t u))"
      using Cons.IH by blast
    then show ?case using o by (intro exI [of _ g'] exI [of _ ors']) simp
  qed
  show ?thesis
    using F [of "[0..<num_targets s]" "s\<lparr>target_orientations := replicate (num_targets s) 0\<rparr>"]
    by (auto simp: orient_targets_def)
qed

lemma clear_mailbox_ok: "mailbox_ok (clear_mailbox mb)" "team_size (clear_mailbox mb) = team_size mb"
  by (simp_all add: mailbox_ok_def clear_mailbox_def zero_edges_def is_matrix_def)

text \<open>The state \<open>reset\<close> returns, from the one with the cargoes drawn.\<close>

definition finish_reset :: "'g rng \<Rightarrow> ('g, 'm) env \<Rightarrow> ('g, 'm) env" where
  "finish_reset R s = (let s6 = orient_targets R s in update_rates (s6\<lparr>mail := clear_mailbox (mail s6), episode_step := 0\<rparr>))"

lemma finish_reset_ok:
  assumes "fresh_episode s" and "0 < num_targets s" and "view_shapes s"
    and "\<forall>c < num_cameras s. camera_ok (cameras s ! c)" and "team_size (mail s) = (\<lambda>t. num_agents t s)"
    and "length (target_steps s) = num_targets s" "length (tracked_steps s) = num_targets s"
  shows "env_ok (finish_reset R s)" "episode_step (finish_reset R s) = 0" "settings (finish_reset R s) = settings s"
    "total_cargoes (finish_reset R s) = total_cargoes s" "num_targets (finish_reset R s) = num_targets s"
    "target_goals (finish_reset R s) = target_goals s" "num_delivered_cargoes (finish_reset R s) = 0"
    "target_team_episode_reward (finish_reset R s) = 0" "delayed_target_team_episode_reward (finish_reset R s) = 0"
    "num_cameras (finish_reset R s) = num_cameras s" "config_ok (finish_reset R s) = config_ok s"
proof -
  obtain g ors where o: "orient_targets R s = s\<lparr>np_random := g, target_orientations := ors\<rparr>"
    "length ors = num_targets s" using orient_targets_frame [of R s] by blast
  let ?s = "finish_reset R s"
  have n: "num_targets ?s = num_targets s" "num_cameras ?s = num_cameras s" "num_obstacles ?s = num_obstacles s"
    by (simp_all add: finish_reset_def o Let_def update_rates_def num_targets_def num_cameras_def num_obstacles_def)
  have eq: "cargo_inv ?s = cargo_inv s" "bounty_lost ?s = bounty_lost s"
    by (rule cargo_inv_cong; simp add: finish_reset_def o Let_def update_rates_def num_targets_def)+
  have "view_shapes ?s"
    using assms(3) by (simp add: view_shapes_def n) (simp add: finish_reset_def o Let_def update_rates_def)
  moreover have "books_ok ?s"
    using assms(1) by (simp add: fresh_episode_def books_ok_def eq reward_scale_def)
      (simp add: finish_reset_def o Let_def update_rates_def)
  moreover have "num_agents t ?s = num_agents t s" for t
    by (cases t) (simp_all add: num_agents_def n)
  ultimately show "env_ok ?s"
    using assms o(2) by (simp add: env_ok_def n eq fresh_episode_def)
      (simp add: finish_reset_def o Let_def update_rates_def clear_mailbox_ok)
  show "episode_step ?s = 0" "settings ?s = settings s" "total_cargoes ?s = total_cargoes s"
    "num_targets ?s = num_targets s" "target_goals ?s = target_goals s" "num_delivered_cargoes ?s = 0"
    "target_team_episode_reward ?s = 0" "delayed_target_team_episode_reward ?s = 0"
    "num_cameras ?s = num_cameras s"
    using assms(1) n
    by (simp_all add: fresh_episode_def finish_reset_def o Let_def update_rates_def total_cargoes_def)
  show "config_ok ?s = config_ok s"
    by (rule config_ok_cong) (simp_all add: n, simp_all add: finish_reset_def o Let_def update_rates_def)
qed

subsection \<open>The whole of reset\<close>

lemma reset_decomposed:
  assumes R: "rng_ok R" and ok: "env_setup s"
  obtains s4 where "staged s4" "settings s4 = settings s" "num_targets s4 = num_targets s"
    "num_cameras s4 = num_cameras s"
    "reset R seeding interp1d order seed s =
       (case reset_cargo R (cargoes_per_target (settings s)) (start_loaded (settings s)) s4 of
          None \<Rightarrow> None
        | Some (Inl e) \<Rightarrow> Some (Inl e)
        | Some (Inr s5) \<Rightarrow>
            Some (Inr (joint_observation ((orient_targets R s5)
              \<lparr>mail := clear_mailbox (mail (orient_targets R s5)), episode_step := 0\<rparr>))))"
proof -
  let ?s0 = "restore_order s"
  let ?s1 = "if seed = None then ?s0 else snd (env_seed R seeding seed ?s0)"
  note O = restore_order_setup [OF ok]
  have s1: "env_setup ?s1" "num_targets ?s1 = num_targets s" "settings ?s1 = settings s"
    "num_cameras ?s1 = num_cameras s"
    using O env_seed_setup [OF O(1)] by auto
  note S = shuffle_setup [OF R s1(1)]
  obtain s2 where s2: "assign_capacities R (shuffle_env R ?s1) = Inr s2" "capacities_ok s2"
    "num_targets s2 = num_targets (shuffle_env R ?s1)" "settings s2 = settings (shuffle_env R ?s1)" "num_cameras s2 = num_cameras (shuffle_env R ?s1)"
    by (rule assign_capacities_ok [OF S(1)])
  obtain s3 where s3: "register_obstacles order (place_entities R s2) = Inr s3"
    "staged (update_view R interp1d (note_obstacles s3))"
    "num_targets (update_view R interp1d (note_obstacles s3)) = num_targets s2"
    "settings (update_view R interp1d (note_obstacles s3)) = settings s2"
    "num_cameras (update_view R interp1d (note_obstacles s3)) = num_cameras s2"
    by (rule placed_staged [OF R s2(2)])
  show thesis
  proof (rule that [OF s3(2)])
    show "settings (update_view R interp1d (note_obstacles s3)) = settings s"
      "num_targets (update_view R interp1d (note_obstacles s3)) = num_targets s"
      "num_cameras (update_view R interp1d (note_obstacles s3)) = num_cameras s"
      using s3(3,4,5) s2(3,4,5) S(2,3,4) s1(2,3,4) by simp_all
  qed (simp add: reset_def Let_def s2(1) s3(1) split: option.split sum.split)
qed

lemma reset_result:
  assumes R: "rng_ok R" and ok: "env_setup s" and run: "reset R seeding interp1d order seed s = Some res"
  obtains obs s' m where "res = Inr (obs, s')" "env_ok s'" "episode_step s' = 0"
    "settings s' = settings s" "num_targets s' = num_targets s" "num_cameras s' = num_cameras s"
    "total_cargoes s' = int (Suc m * (cargoes_per_target (settings s) * num_targets s))"
    "num_delivered_cargoes s' = 0" "target_team_episode_reward s' = 0"
    "delayed_target_team_episode_reward s' = 0"
    "start_loaded (settings s) \<Longrightarrow> \<forall>t < num_targets s. 0 \<le> target_goals s' ! t" "env_setup s'"
proof -
  let ?k = "cargoes_per_target (settings s)"
  obtain s4 where s4: "staged s4" "settings s4 = settings s" "num_targets s4 = num_targets s"
    "num_cameras s4 = num_cameras s"
    and eq: "reset R seeding interp1d order seed s =
       (case reset_cargo R ?k (start_loaded (settings s)) s4 of
          None \<Rightarrow> None
        | Some (Inl e) \<Rightarrow> Some (Inl e)
        | Some (Inr s5) \<Rightarrow>
            Some (Inr (joint_observation ((orient_targets R s5)
              \<lparr>mail := clear_mailbox (mail (orient_targets R s5)), episode_step := 0\<rparr>))))"
    by (rule reset_decomposed [OF R ok])
  obtain res5 where c: "reset_cargo R ?k (start_loaded (settings s)) s4 = Some res5"
    using run unfolding eq by (cases "reset_cargo R ?k (start_loaded (settings s)) s4") auto
  have k: "2 \<le> ?k" and n: "0 < num_targets s" using ok by (auto simp: env_setup_def)
  obtain s5 m where s5: "res5 = Inr s5" "fresh_episode s5" "num_targets s5 = num_targets s4"
    "total_cargoes s5 = int (Suc m * (?k * num_targets s4))"
    "start_loaded (settings s) \<Longrightarrow> \<forall>t < num_targets s5. 0 \<le> target_goals s5 ! t"
    "settings s5 = settings s4" "num_cameras s5 = num_cameras s4" "view_shapes s5" "\<forall>c < num_cameras s5. camera_ok (cameras s5 ! c)"
    "team_size (mail s5) = (\<lambda>t. num_agents t s5)"
    "length (target_steps s5) = num_targets s4" "length (tracked_steps s5) = num_targets s4" "config_ok s5"
    by (rule staged_cargo [OF R s4(1) k c]) (rule that; assumption?)
  have n5: "0 < num_targets s5" "length (target_steps s5) = num_targets s5"
    "length (tracked_steps s5) = num_targets s5" using s5(3,11,12) s4(3) n by simp_all
  note F = finish_reset_ok [OF s5(2) n5(1) s5(8,9,10) n5(2,3), of R]
  let ?s6 = "(orient_targets R s5)\<lparr>mail := clear_mailbox (mail (orient_targets R s5)), episode_step := 0\<rparr>"
  have "res = Inr (fst (joint_observation ?s6), finish_reset R s5)"
    using run by (simp add: eq c s5(1) joint_observation_def finish_reset_def Let_def)
  moreover have "env_setup (finish_reset R s5)" using env_ok_setup F(1,11) s5(13) by simp
  ultimately show thesis
    using F s5(3-7) s4(2-4) by (intro that [OF _ F(1,2), of _ m]) simp_all
qed

text \<open>
  The loop that draws the cargoes ends for a generator that, from every state, draws each warehouse
  as a sender within a bounded number of draws (a pseudo-random generator does, the counter of
  \<open>Randomness\<close> within four).
\<close>

definition draws_all_senders :: "'g rng \<Rightarrow> bool" where
  "draws_all_senders R \<longleftrightarrow> (\<forall>g. \<exists>N. \<forall>w < NUM_WAREHOUSES. \<exists>i < N. draw_sender R g i = w)"

lemma counter_gen_after: "gen_after counter_rng g i = g + i"
  by (induction i) (simp_all add: gen_after_def counter_rng_def)

lemma counter_draw_sender: "draw_sender counter_rng g i = (g + i) mod NUM_WAREHOUSES"
  by (simp add: draw_sender_def counter_gen_after) (simp add: counter_rng_def)

lemma counter_draws_all: "draws_all_senders counter_rng"
  unfolding draws_all_senders_def
proof (rule allI, rule exI [of _ NUM_WAREHOUSES], rule allI, rule impI)
  fix g w :: nat assume w: "w < NUM_WAREHOUSES"
  let ?i = "(w + (NUM_WAREHOUSES - 1) * g) mod NUM_WAREHOUSES"
  have "(g + ?i) mod NUM_WAREHOUSES = (g + (w + (NUM_WAREHOUSES - 1) * g)) mod NUM_WAREHOUSES"
    by (simp add: mod_add_right_eq)
  also have "g + (w + (NUM_WAREHOUSES - 1) * g) = w + NUM_WAREHOUSES * g"
    by (simp add: NUM_WAREHOUSES_def)
  finally have "draw_sender counter_rng g ?i = w" using w by (simp add: counter_draw_sender)
  moreover have "?i < NUM_WAREHOUSES" by (simp add: NUM_WAREHOUSES_def)
  ultimately show "\<exists>i < NUM_WAREHOUSES. draw_sender counter_rng g i = w" by blast
qed

lemma reset_terminates:
  assumes R: "rng_ok R" and ok: "env_setup s" and all: "draws_all_senders R"
  shows "reset R seeding interp1d order seed s \<noteq> None"
proof -
  let ?k = "cargoes_per_target (settings s)"
  obtain s4 where s4: "staged s4" "settings s4 = settings s" "num_targets s4 = num_targets s"
    "num_cameras s4 = num_cameras s"
    and eq: "reset R seeding interp1d order seed s =
       (case reset_cargo R ?k (start_loaded (settings s)) s4 of
          None \<Rightarrow> None
        | Some (Inl e) \<Rightarrow> Some (Inl e)
        | Some (Inr s5) \<Rightarrow>
            Some (Inr (joint_observation ((orient_targets R s5)
              \<lparr>mail := clear_mailbox (mail (orient_targets R s5)), episode_step := 0\<rparr>))))"
    by (rule reset_decomposed [OF R ok])
  have "0 < ?k * num_targets s4" using ok s4(3) by (simp add: env_setup_def)
  then have "draw_until_all R (?k * num_targets s4) (reset_remaining s4) \<noteq> None"
    using all [unfolded draws_all_senders_def, rule_format, of "np_random (reset_remaining s4)"]
      draw_loop_ends [OF R reset_remaining_props(1)] by blast
  then have "reset_cargo R ?k (start_loaded (settings s)) s4 \<noteq> None"
    by (auto simp: reset_cargo_def split: prod.split)
  then show ?thesis
    unfolding eq by (auto split: sum.split)
qed

end
