(* ===== verification/Runs.thy ===== *)
theory Runs
  imports Startup
begin

text \<open>
  Whole episodes. \<open>run\<close> is the relation of an episode: a sequence of successful calls of \<open>step\<close> from
  a state. An abstract game (cargo not yet delivered, delivered, paid for, bounty forfeited, clock)
  says what the rewards of an episode are for; every step of the environment is a step of the game.
\<close>

subsection \<open>When a step succeeds\<close>

lemma reshape_wrong: "length xs \<noteq> r * c \<Longrightarrow> reshape r c xs = Inl ValueError"
  by (simp add: reshape_def)

definition sized :: "('g, 'm) env \<Rightarrow> real list \<times> real list \<Rightarrow> bool" where
  "sized s action \<longleftrightarrow>
     length (fst action) = num_cameras s * CAMERA_ACTION_DIM
   \<and> length (snd action) = num_targets s * TARGET_ACTION_DIM"

lemma step_unsized: "\<not> sized s action \<Longrightarrow> step R interp1d order action s = Inl ValueError"
  by (cases "length (fst action) = num_cameras s * CAMERA_ACTION_DIM")
    (auto simp: sized_def step_def simulate_def reshape_wrong reshape_def)

lemma step_returns_sized: "step R interp1d order action s = Inr p \<Longrightarrow> sized s action"
  using step_unsized [of s action R interp1d order] by (cases "sized s action") auto

subsection \<open>The awaited counts\<close>

lemma goal_bits_nonneg:
  assumes "cargo_inv s" and "t < num_targets s" and "g < NUM_WAREHOUSES"
  shows "0 \<le> target_goal_bits s ! t ! g"
proof -
  have ld: "load_ok s t" using assms by (simp add: cargo_inv_def)
  show ?thesis
  proof (cases "target_goals s ! t < 0")
    case True
    then show ?thesis using ld assms(3) by (simp add: load_ok_def Let_def)
  next
    case False
    then have "0 \<le> target_goals s ! t" by simp
    with ld obtain h n where "target_goal_bits s ! t = (replicate NUM_WAREHOUSES 0)[h := n]" "0 < n"
      by (rule load_ok_loaded)
    then show ?thesis using assms(3) by (simp add: nth_upd)
  qed
qed

lemma awaiting_nonneg:
  assumes "cargo_inv s" and "g < NUM_WAREHOUSES"
  shows "0 \<le> awaiting_cargo_counts s ! g"
proof -
  have "length (remaining_cargoes s) = NUM_WAREHOUSES" "length (target_goal_bits s) = num_targets s"
    using assms(1) by (auto simp: cargo_inv_def cargo_shapes_def is_matrix_def)
  moreover have "0 \<le> remaining_cargoes s ! w ! g" if "w < NUM_WAREHOUSES" for w
    using assms that by (simp add: cargo_inv_def stock_ok_def)
  ultimately have "0 \<le> col_sum (remaining_cargoes s) g" "0 \<le> col_sum (target_goal_bits s) g"
    using goal_bits_nonneg [OF assms(1) _ assms(2)] by (auto simp: col_sum_def intro!: sum_nonneg)
  then show ?thesis using assms by (simp add: cargo_inv_def balanced_def)
qed

lemma awaiting_any:
  assumes "cargo_inv s"
  shows "any_nonzero (awaiting_cargo_counts s) \<longleftrightarrow> awaiting_total s \<noteq> 0" "0 \<le> awaiting_total s"
proof -
  have len: "length (awaiting_cargo_counts s) = NUM_WAREHOUSES"
    using assms by (simp add: cargo_inv_def cargo_shapes_def)
  have nn: "\<forall>g \<in> {..<NUM_WAREHOUSES}. 0 \<le> awaiting_cargo_counts s ! g"
    using awaiting_nonneg [OF assms] by simp
  then show "0 \<le> awaiting_total s" unfolding awaiting_total_def by (intro sum_nonneg) simp
  have "awaiting_total s = 0 \<longleftrightarrow> (\<forall>g \<in> {..<NUM_WAREHOUSES}. awaiting_cargo_counts s ! g = 0)"
    unfolding awaiting_total_def by (rule sum_nonneg_eq_0_iff) (use nn in auto)
  then show "any_nonzero (awaiting_cargo_counts s) \<longleftrightarrow> awaiting_total s \<noteq> 0"
    by (auto simp: any_nonzero_iff len)
qed

subsection \<open>The abstract game\<close>

record game =
  undelivered :: int
  handed_over :: int
  paid :: int
  forfeited :: int
  clock :: int

text \<open>
  In one round \<open>n\<close> cargoes are handed over, \<open>d\<close> is paid for them (at least the freight less the bounty
  of each, at most both), and the dense reward \<open>r\<close> differs from the payment by what the loads on the
  way have forfeited meanwhile. The game is over when the clock has run out or nothing is left.
\<close>

inductive game_round :: "int \<Rightarrow> int \<Rightarrow> int \<Rightarrow> game \<Rightarrow> int \<Rightarrow> int \<Rightarrow> bool \<Rightarrow> game \<Rightarrow> bool" for f b limit where
  hand_over:
    "0 \<le> n \<Longrightarrow> n \<le> undelivered g \<Longrightarrow> (f - b) * n \<le> d \<Longrightarrow> d \<le> (f + b) * n \<Longrightarrow> 0 \<le> forfeited g + d - r
     \<Longrightarrow> game_round f b limit g r d (limit \<le> clock g \<or> undelivered g = n)
          \<lparr>undelivered = undelivered g - n, handed_over = handed_over g + n, paid = paid g + d,
           forfeited = forfeited g + d - r, clock = clock g + 1\<rparr>"

definition abs_game :: "('g, 'm) env \<Rightarrow> game" where
  "abs_game s = \<lparr>undelivered = awaiting_total s, handed_over = num_delivered_cargoes s,
     paid = delayed_target_team_episode_reward s, forfeited = bounty_lost s, clock = episode_step s\<rparr>"

lemma lost_nonneg:
  assumes "cargo_inv s" and "t < num_targets s"
  shows "0 \<le> lost_of s t"
proof -
  have ld: "load_ok s t" using assms by (simp add: cargo_inv_def)
  show ?thesis
  proof (cases "target_goals s ! t < 0")
    case True
    then show ?thesis using ld by (simp add: load_ok_def Let_def lost_of_def weight_def sum_list_replicate)
  next
    case False
    then have "0 \<le> target_goals s ! t" by simp
    with ld obtain n where "weight s t = n" "bounties s ! t \<le> n * bounty_scale s"
      by (rule load_ok_loaded)
    then show ?thesis by (simp add: lost_of_def)
  qed
qed

lemma bounty_lost_nonneg: "cargo_inv s \<Longrightarrow> 0 \<le> bounty_lost s"
  unfolding bounty_lost_def by (intro sum_nonneg) (simp add: lost_nonneg)

subsection \<open>A step is a round of the game\<close>

lemma env_ok_parts:
  assumes "env_ok s"
  shows "cargo_inv s" "target_team_episode_reward s = delayed_target_team_episode_reward s - bounty_lost s"
    "awaiting_total s = total_cargoes s - num_delivered_cargoes s"
  using assms by (simp_all add: env_ok_def books_ok_def awaiting_total_alt)

lemma step_round:
  assumes R: "rng_ok R" and ok: "env_ok s" and sz: "sized s action"
  obtains res s' r d where "step R interp1d order action s = Inr (res, s')" "env_ok s'"
    "settings s' = settings s" "freight_scale s' = freight_scale s" "bounty_scale s' = bounty_scale s"
    "num_targets s' = num_targets s" "num_cameras s' = num_cameras s"
    "game_round (freight_scale s) (bounty_scale s) (max_episode_steps (settings s))
       (abs_game s) r d (done_flag res) (abs_game s')"
    "target_team_reward res = (if sparse_reward (settings s) then d else r)"
    "camera_team_reward res = - target_team_reward res"
proof -
  obtain res s' where st: "step R interp1d order action s = Inr (res, s')" "env_ok s'"
    and fr: "settings s' = settings s" "num_targets s' = num_targets s" "num_cameras s' = num_cameras s"
    "freight_scale s' = freight_scale s" "bounty_scale s' = bounty_scale s"
    and ck: "episode_step s' = episode_step s + 1" "total_cargoes s' = total_cargoes s"
    "num_delivered_cargoes s \<le> num_delivered_cargoes s'"
    and pay: "(freight_scale s - bounty_scale s) * (num_delivered_cargoes s' - num_delivered_cargoes s)
       \<le> delayed_target_team_episode_reward s' - delayed_target_team_episode_reward s"
    "delayed_target_team_episode_reward s' - delayed_target_team_episode_reward s
       \<le> reward_scale s * (num_delivered_cargoes s' - num_delivered_cargoes s)"
    and rew: "camera_team_reward res = - target_team_reward res"
    "target_team_reward res =
       (if sparse_reward (settings s)
        then delayed_target_team_episode_reward s' - delayed_target_team_episode_reward s
        else target_team_episode_reward s' - target_team_episode_reward s)"
    and dn: "done_flag res = (max_episode_steps (settings s) \<le> episode_step s \<or> \<not> any_nonzero (awaiting_cargo_counts s'))"
    using step_env [OF R ok] sz unfolding sized_def by metis
  let ?n = "num_delivered_cargoes s' - num_delivered_cargoes s"
  let ?d = "delayed_target_team_episode_reward s' - delayed_target_team_episode_reward s"
  let ?r = "target_team_episode_reward s' - target_team_episode_reward s"
  note P = env_ok_parts [OF ok] and P' = env_ok_parts [OF st(2)]
  note A = awaiting_any [OF P'(1)]
  have "game_round (freight_scale s) (bounty_scale s) (max_episode_steps (settings s)) (abs_game s) ?r ?d
      (max_episode_steps (settings s) \<le> clock (abs_game s) \<or> undelivered (abs_game s) = ?n)
      \<lparr>undelivered = undelivered (abs_game s) - ?n, handed_over = handed_over (abs_game s) + ?n,
       paid = paid (abs_game s) + ?d, forfeited = forfeited (abs_game s) + ?d - ?r, clock = clock (abs_game s) + 1\<rparr>"
  proof (rule hand_over)
    show "0 \<le> forfeited (abs_game s) + ?d - ?r"
      using bounty_lost_nonneg [OF P'(1)] P(2) P'(2) by (simp add: abs_game_def)
    show "?n \<le> undelivered (abs_game s)" using A(2) P(3) P'(3) ck(2) by (simp add: abs_game_def)
  qed (use ck pay in \<open>simp_all add: reward_scale_def\<close>)
  moreover have "\<lparr>undelivered = undelivered (abs_game s) - ?n, handed_over = handed_over (abs_game s) + ?n,
       paid = paid (abs_game s) + ?d, forfeited = forfeited (abs_game s) + ?d - ?r, clock = clock (abs_game s) + 1\<rparr>
      = abs_game s'"
    using P(2,3) P'(2,3) ck by (simp add: abs_game_def)
  moreover have "(max_episode_steps (settings s) \<le> clock (abs_game s) \<or> undelivered (abs_game s) = ?n) = done_flag res"
    using A P(3) P'(3) ck(2) unfolding dn by (auto simp: abs_game_def)
  ultimately have "game_round (freight_scale s) (bounty_scale s) (max_episode_steps (settings s))
       (abs_game s) ?r ?d (done_flag res) (abs_game s')" by simp
  from that [OF st fr(1,4,5,2,3) this] show thesis using rew by simp
qed

subsection \<open>Episodes\<close>

inductive run ::
  "'g rng \<Rightarrow> interp \<Rightarrow> (nat list \<Rightarrow> nat list) \<Rightarrow> ('g, 'm) env \<Rightarrow> 'm step_result list \<Rightarrow> ('g, 'm) env \<Rightarrow> bool"
  for R interp1d order where
  run_start: "run R interp1d order s [] s"
| run_step: "run R interp1d order s rs s1 \<Longrightarrow> step R interp1d order action s1 = Inr (res, s2)
     \<Longrightarrow> run R interp1d order s (rs @ [res]) s2"

inductive_cases run_snocE: "run R interp1d order s (rs @ [res]) s2"

definition camera_return :: "'m step_result list \<Rightarrow> int" where
  "camera_return rs = sum_list (map camera_team_reward rs)"

definition target_return :: "'m step_result list \<Rightarrow> int" where
  "target_return rs = sum_list (map target_team_reward rs)"

lemma run_facts:
  assumes R: "rng_ok R" and "run R interp1d order s rs s'" and "env_ok s"
  shows "env_ok s' \<and> settings s' = settings s \<and> freight_scale s' = freight_scale s
    \<and> bounty_scale s' = bounty_scale s \<and> num_targets s' = num_targets s \<and> num_cameras s' = num_cameras s
    \<and> undelivered (abs_game s') + handed_over (abs_game s') = undelivered (abs_game s) + handed_over (abs_game s)
    \<and> handed_over (abs_game s) \<le> handed_over (abs_game s')
    \<and> clock (abs_game s') = clock (abs_game s) + int (length rs)
    \<and> target_return rs = (if sparse_reward (settings s) then paid (abs_game s') - paid (abs_game s)
        else (paid (abs_game s') - forfeited (abs_game s')) - (paid (abs_game s) - forfeited (abs_game s)))
    \<and> camera_return rs = - target_return rs
    \<and> (\<forall>i < length rs. max_episode_steps (settings s) \<le> clock (abs_game s) + int i \<longrightarrow> done_flag (rs ! i))
    \<and> (\<forall>i < length rs. done_flag (rs ! i) \<longrightarrow>
         max_episode_steps (settings s) \<le> clock (abs_game s) + int i \<or> undelivered (abs_game s') = 0)"
  using assms(2,3)
proof (induction rule: run.induct)
  case (run_start s)
  then show ?case by (simp add: target_return_def camera_return_def)
next
  case (run_step s rs s1 action res s2)
  note IH = run_step.IH [OF run_step.prems]
  have ok: "env_ok s1" using IH by simp
  obtain res' s2' r d where st: "step R interp1d order action s1 = Inr (res', s2')" "env_ok s2'"
    "settings s2' = settings s1" "freight_scale s2' = freight_scale s1" "bounty_scale s2' = bounty_scale s1"
    "num_targets s2' = num_targets s1" "num_cameras s2' = num_cameras s1"
    and rd: "game_round (freight_scale s1) (bounty_scale s1) (max_episode_steps (settings s1))
       (abs_game s1) r d (done_flag res') (abs_game s2')"
    and rew: "target_team_reward res' = (if sparse_reward (settings s1) then d else r)"
    "camera_team_reward res' = - target_team_reward res'"
    by (rule step_round [OF R ok step_returns_sized [OF run_step.hyps(2)]])
  have e: "res' = res" "s2' = s2" using st(1) run_step.hyps(2) by simp_all
  obtain n where n: "0 \<le> n" "n \<le> undelivered (abs_game s1)" "0 \<le> forfeited (abs_game s1) + d - r"
    "done_flag res = (max_episode_steps (settings s1) \<le> clock (abs_game s1) \<or> undelivered (abs_game s1) = n)"
    "abs_game s2 = \<lparr>undelivered = undelivered (abs_game s1) - n, handed_over = handed_over (abs_game s1) + n,
       paid = paid (abs_game s1) + d, forfeited = forfeited (abs_game s1) + d - r, clock = clock (abs_game s1) + 1\<rparr>"
    by (rule game_round.cases [OF rd [unfolded e]]) (rule that; simp)
  have left: "undelivered (abs_game s2) = 0" if "undelivered (abs_game s1) = 0" using n that by simp
  have "done_flag ((rs @ [res]) ! i)"
    if "i < length (rs @ [res])" "max_episode_steps (settings s) \<le> clock (abs_game s) + int i" for i
    using that IH n(4) by (cases "i < length rs") (auto simp: nth_append less_Suc_eq)
  moreover have "max_episode_steps (settings s) \<le> clock (abs_game s) + int i \<or> undelivered (abs_game s2) = 0"
    if "i < length (rs @ [res])" "done_flag ((rs @ [res]) ! i)" for i
    using that IH n(4,5) left by (cases "i < length rs") (auto simp: nth_append less_Suc_eq)
  moreover have "target_return (rs @ [res]) = target_return rs + target_team_reward res"
    "camera_return (rs @ [res]) = camera_return rs + camera_team_reward res"
    by (simp_all add: target_return_def camera_return_def)
  ultimately show ?case using IH st(2-) rew n(1,5) unfolding e by simp
qed

subsection \<open>Observations and rates\<close>

lemma step_inside:
  assumes R: "rng_ok R" and ok: "env_ok s" and st: "step R interp1d order action s = Inr (res, s')"
  obtains b where "env_ok b" "s' = finish_step b" "num_cameras b = num_cameras s" "num_targets b = num_targets s"
    "(camera_joint_observation res, target_joint_observation res) = fst (joint_observation b)"
proof -
  have sz: "length (fst action) = num_cameras s * CAMERA_ACTION_DIM"
    "length (snd action) = num_targets s * TARGET_ACTION_DIM"
    using step_returns_sized [OF st] by (simp_all add: sized_def)
  obtain s1 s2 s3 reward delayed res' where D: "moved order s s1" "s2 = update_view R interp1d s1"
    "assign_goals R s2 = (s3, reward, delayed)"
    "step R interp1d order action s = Inr (res', finish_step (book_rewards reward delayed s3))"
    "(camera_joint_observation res', target_joint_observation res')
       = fst (joint_observation (book_rewards reward delayed s3))"
    by (rule step_decomposed [OF sz]) (rule that; assumption?)
  let ?b = "book_rewards reward delayed s3"
  have ok2: "env_ok s2" unfolding D(2) by (intro update_view_env_ok moved_env_ok [OF ok D(1)])
  have b: "env_ok ?b" by (rule assign_goals_env [OF R ok2 D(3)])
  have e: "res = res'" "s' = finish_step ?b" using st D(4) by simp_all
  obtain res2 s4 where "step R interp1d order action s = Inr (res2, s4)" "num_targets s4 = num_targets s"
    "num_cameras s4 = num_cameras s"
    using step_env [OF R ok sz, of interp1d order] by metis
  then have "num_targets ?b = num_targets s" "num_cameras ?b = num_cameras s"
    using st e(2) finish_step_frame(1,2) [of ?b] by auto
  then show thesis using that b e D(5) by simp
qed

lemma joint_observation_shapes:
  assumes "view_shapes s" and "joint_observation s = ((cobs, tobs), s')"
  shows "length cobs = num_cameras s" "length tobs = num_targets s"
    "\<forall>ob \<in> set cobs. length ob = observation_dim CAMERA (num_cameras s) (num_targets s) (num_obstacles s)"
    "\<forall>ob \<in> set tobs. length ob = observation_dim TARGET (num_cameras s) (num_targets s) (num_obstacles s)"
  using assms(2) length_observation_of [OF assms(1), of _ CAMERA] length_observation_of [OF assms(1), of _ TARGET]
  by (auto simp: joint_observation_def observation_of_def num_agents_def)

lemma count_and_le: "count_true (map2 (\<and>) xs ys) \<le> count_true ys"
proof (induction xs arbitrary: ys)
  case Nil
  show ?case using count_true_nonneg [of ys] by (simp add: count_true_def)
next
  case (Cons x xs)
  have "bool_int (x \<and> a) \<le> bool_int a" for a by (simp add: bool_int_def)
  then show ?case using Cons by (cases ys) (simp_all add: count_true_def add_mono)
qed

definition rates_ok :: "('g, 'm) env \<Rightarrow> bool" where
  "rates_ok s \<longleftrightarrow>
     0 \<le> coverage_rate s \<and> coverage_rate s \<le> 1 \<and> 0 \<le> real_coverage_rate s \<and> real_coverage_rate s \<le> 1
   \<and> mean_transport_rate s \<le> 1
   \<and> (mean_transport_rate s = 0
      \<or> of_int (freight_scale s - bounty_scale s) / of_int (reward_scale s) \<le> mean_transport_rate s)"

lemma rates_bounded:
  assumes "env_ok s"
  shows "rates_ok (update_rates s)"
proof -
  let ?n = "real (num_targets s)" and ?w = "map (\<lambda>b. b > 0) (bounties s)" and ?u = "update_rates s"
  let ?D = "num_delivered_cargoes s" and ?P = "delayed_target_team_episode_reward s"
  have n: "0 < num_targets s" and len: "length (tracked_bits s) = num_targets s"
    and sc: "0 < freight_scale s" "0 \<le> bounty_scale s"
    and bk: "(freight_scale s - bounty_scale s) * ?D \<le> ?P" "?P \<le> reward_scale s * ?D"
    using assms by (auto simp: env_ok_def cargo_inv_def cargo_shapes_def scales_ok_def books_ok_def)
  have rs: "0 < reward_scale s" using sc by (simp add: reward_scale_def)
  have u: "freight_scale ?u = freight_scale s" "bounty_scale ?u = bounty_scale s" "reward_scale ?u = reward_scale s"
    "coverage_rate ?u = of_int (count_true (tracked_bits s)) / ?n"
    "real_coverage_rate ?u = (if count_true ?w > 0
       then of_int (count_true (map2 (\<and>) (tracked_bits s) ?w)) / of_int (count_true ?w) else 0)"
    "mean_transport_rate ?u = (if ?D > 0 then of_int ?P / (of_int (reward_scale s) * of_int ?D) else 0)"
    by (simp_all add: update_rates_def Let_def reward_scale_def)
  have "real_of_int (count_true (tracked_bits s)) \<le> ?n"
    using count_true_le_length [of "tracked_bits s"] len by linarith
  then have c: "0 \<le> coverage_rate ?u" "coverage_rate ?u \<le> 1"
    using n count_true_nonneg [of "tracked_bits s"] by (simp_all add: u)
  have r: "0 \<le> real_coverage_rate ?u" "real_coverage_rate ?u \<le> 1"
    using count_and_le [of "tracked_bits s" ?w] count_true_nonneg by (simp_all add: u)
  have m: "mean_transport_rate ?u \<le> 1 \<and> (mean_transport_rate ?u = 0
      \<or> of_int (freight_scale s - bounty_scale s) / of_int (reward_scale s) \<le> mean_transport_rate ?u)"
  proof (cases "?D > 0")
    case True
    have p: "0 < real_of_int (reward_scale s) * real_of_int ?D" using rs True by simp
    have "real_of_int ?P \<le> real_of_int (reward_scale s) * real_of_int ?D"
      using bk(2) by (metis of_int_le_iff of_int_mult)
    moreover have "real_of_int (freight_scale s - bounty_scale s) * real_of_int ?D \<le> real_of_int ?P"
      using bk(1) by (metis of_int_le_iff of_int_mult)
    ultimately show ?thesis
      using p True rs by (simp add: u divide_le_eq le_divide_eq mult.commute mult.left_commute)
  qed (simp add: u)
  show ?thesis using c r m by (simp add: rates_ok_def u)
qed

lemma finish_step_rates: "rates_ok (finish_step s) = rates_ok (update_rates s)"
proof -
  have "freight_scale (update_rates s) = freight_scale s" "bounty_scale (update_rates s) = bounty_scale s"
    by (simp_all add: update_rates_def Let_def)
  then show ?thesis by (simp add: rates_ok_def finish_step_frame reward_scale_def)
qed

end
