(* ===== verification/Demo.thy ===== *)
theory Demo
  imports Runs
begin

text \<open>
  A small environment to run the model on: one camera that turns and zooms, one obstacle, one target,
  an episode of ten steps, two cargoes per target, and the counter as the generator of everything.
  \<open>demo_start\<close> is the state its reset leaves.
\<close>

definition demo_settings :: settings where
  "demo_settings = \<lparr>max_episode_steps = 10, sparse_reward = False, cargoes_per_target = 2,
     start_loaded = True, clear_transmittance = 0, shuffle_entities = True, num_high_capacity = 1,
     target_step_size = 20\<rparr>"

definition demo_camera :: "nat camera" where
  "demo_camera = \<lparr>location = (100, 0), radius = 40, range_low = (100, 0), range_high = (100, 0), gen = 0,
     radius_low = 40, radius_high = 40, transmittance = 0,
     sight_range = 1000, orientation = 0, viewing_angle = 30, min_viewing_angle = 30,
     max_sight_range = 1000, rotation_step = 5, zooming_step = 1 / 2,
     area_product = 30 * 1000\<^sup>2, sight_phis = [], sight_rhos = [], sight_outer_phis = [],
     sight_outer_rhos = [], boundary = [], boundary_outer = [], cam_obstacles = []\<rparr>"

definition demo_obstacle :: "nat obstacle" where
  "demo_obstacle = \<lparr>location = (- 300, 200), radius = 50, range_low = (- 300, 200), range_high = (- 300, 200),
     gen = 0, radius_low = 50, radius_high = 50, transmittance = 0\<rparr>"

definition demo_target :: "nat target" where
  "demo_target = \<lparr>location = (0, 0), radius = TARGET_RADIUS, range_low = (0, 0), range_high = (0, 0), gen = 0,
     t_sight_range = 500, transport_product = 20, capacity = 1, step_size = 20,
     goal_bits = replicate NUM_WAREHOUSES 0, empty_bits = replicate NUM_WAREHOUSES False,
     is_colliding = False\<rparr>"

definition demo_env :: "(nat, nat) env" where
  "demo_env = \<lparr>targets = [demo_target], target_capacities = [1],
     remaining_cargoes = replicate NUM_WAREHOUSES (replicate NUM_WAREHOUSES 0),
     awaiting_cargo_counts = replicate NUM_WAREHOUSES 0, num_delivered_cargoes = 0,
     target_team_episode_reward = 0, delayed_target_team_episode_reward = 0,
     target_warehouse_distances = [], target_goal_bits = [], target_goals = [], target_dones = [],
     target_steps = [], tracked_steps = [], freight_scale = 100, bounty_scale = 100,
     freights = [], bounties = [], tracked_bits = [], np_random = 0,
     settings = demo_settings, cameras = [demo_camera], obstacles = [demo_obstacle],
     camera_order = [0], target_order = [0], obstacle_order = [0], collisions = empty_index,
     camera_target_view_mask = [], target_camera_view_mask = [], camera_obstacle_view_mask = [],
     camera_camera_view_mask = [], target_obstacle_view_mask = [], target_target_view_mask = [],
     obstacle_states_flagged = [], camera_obstacle_observations = [], state_cache = None,
     coverage_rate = 0, real_coverage_rate = 0, mean_transport_rate = 0, episode_step = 0,
     target_orientations = [],
     mail = \<lparr>team_size = (\<lambda>_. 1), message_queues = (\<lambda>_ _. []), message_buffers = (\<lambda>_ _. []),
       communication_edges = (\<lambda>_. []), total_communication_edges = (\<lambda>_. [])\<rparr>\<rparr>"

lemma demo_counts: "num_targets demo_env = 1" "num_cameras demo_env = 1" "num_obstacles demo_env = 1"
  "settings demo_env = demo_settings"
  by (simp_all add: num_targets_def num_cameras_def num_obstacles_def demo_env_def)

lemma demo_env_setup: "env_setup demo_env"
proof -
  have c: "camera_params_ok demo_camera"
    by (simp add: camera_params_ok_def demo_camera_def MAX_CAMERA_VIEWING_ANGLE_def)
  have t: "target_ok demo_target" "0 < transport_product demo_target"
    by (simp_all add: target_ok_def demo_target_def in_terrain_def terrain_defs)
  have n: "num_agents t demo_env = 1" for t
    by (cases t) (simp_all add: num_agents_def demo_counts)
  have "(\<lambda>t. num_agents t demo_env) = (\<lambda>_. 1)" by (simp add: n)
  then show ?thesis
    unfolding env_setup_def demo_counts using c t
    by (simp add: demo_settings_def) (simp add: demo_env_def)
qed

text \<open>\<open>seeding.np_random\<close>, interpolation and set order of the demonstration.\<close>

definition demo_seeding :: "int option \<Rightarrow> nat \<times> int" where
  "demo_seeding seed = (case seed of None \<Rightarrow> (0, 0) | Some k \<Rightarrow> (nat k, k))"

definition demo_interp :: interp where
  "demo_interp phis rhos angle = 500"

definition demo_reset :: "((real list list \<times> real list list) \<times> (nat, nat) env) res option" where
  "demo_reset = reset counter_rng demo_seeding demo_interp id (Some 7) demo_env"

definition demo_start :: "(nat, nat) env" where
  "demo_start = (case demo_reset of Some (Inr (_, s)) \<Rightarrow> s | _ \<Rightarrow> demo_env)"

lemma demo_start_ok:
  "env_ok demo_start" "episode_step demo_start = 0" "settings demo_start = demo_settings"
  "num_targets demo_start = 1" "num_delivered_cargoes demo_start = 0"
  "target_team_episode_reward demo_start = 0" "delayed_target_team_episode_reward demo_start = 0"
  "0 \<le> target_goals demo_start ! 0" "num_cameras demo_start = 1" "env_setup demo_start"
proof -
  have "demo_reset \<noteq> None"
    unfolding demo_reset_def by (rule reset_terminates [OF counter_rng_ok demo_env_setup counter_draws_all])
  then obtain res where r: "reset counter_rng demo_seeding demo_interp id (Some 7) demo_env = Some res"
    by (auto simp: demo_reset_def)
  obtain obs s' m where res: "res = Inr (obs, s')" and S: "env_ok s'" "episode_step s' = 0"
    "settings s' = settings demo_env" "num_targets s' = num_targets demo_env"
    "num_cameras s' = num_cameras demo_env"
    "num_delivered_cargoes s' = 0" "target_team_episode_reward s' = 0"
    "delayed_target_team_episode_reward s' = 0"
    "start_loaded (settings demo_env) \<Longrightarrow> \<forall>t < num_targets demo_env. 0 \<le> target_goals s' ! t" "env_setup s'"
    by (rule reset_result [OF counter_rng_ok demo_env_setup r]) (rule that; assumption?)
  have "demo_start = s'" by (simp add: demo_start_def demo_reset_def r res)
  then show "env_ok demo_start" "episode_step demo_start = 0" "settings demo_start = demo_settings"
    "num_targets demo_start = 1" "num_delivered_cargoes demo_start = 0"
    "target_team_episode_reward demo_start = 0" "delayed_target_team_episode_reward demo_start = 0"
    "0 \<le> target_goals demo_start ! 0" "num_cameras demo_start = 1" "env_setup demo_start"
    using S by (simp_all add: demo_counts demo_settings_def)
qed

end
