(* ===== verification/AgentBase.thy ===== *)
theory AgentBase
  imports View
begin

text \<open>
  \<^verbatim>\<open>mate/agents/base.py\<close>: what every agent does with an observation. \<open>agent_reset\<close> reads the
  numbers of entities and its own index from the preserved part, \<open>check_inputs\<close> the private state,
  and the getters cut the public state and the visibility flag of another entity out of the
  observation. The theorems close the loop with \<open>joint_observation\<close>: what the getters return is
  what the environment wrote, and zeros for an entity that is not seen.
\<close>

text \<open>\<open>np.round\<close>: to the nearest integer, halves to the even one.\<close>

definition np_round :: "real \<Rightarrow> int" where
  "np_round x =
     (let f = \<lfloor>x + 1 / 2\<rfloor> in if x + 1 / 2 = of_int f \<and> odd f then f - 1 else f)"

record 'm agent =
  ag_team :: team
  ag_num_cameras :: nat
  ag_num_targets :: nat
  ag_num_obstacles :: nat
  ag_index :: nat
  ag_state :: "real list"
  ag_episode_step :: int
  ag_step_counter :: nat
  ag_last_observation :: "real list option"
  ag_last_requests :: "'m message list"
  ag_last_responses :: "'m message list"

definition ag_indices :: "('m, 'z) agent_scheme \<Rightarrow> nat list" where
  "ag_indices ag =
     observation_indices_of (ag_team ag) (ag_num_cameras ag) (ag_num_targets ag) (ag_num_obstacles ag)"

definition ag_observation_dim :: "('m, 'z) agent_scheme \<Rightarrow> nat" where
  "ag_observation_dim ag = last (ag_indices ag)"

definition ag_slices :: "('m, 'z) agent_scheme \<Rightarrow> observation_slices" where
  "ag_slices ag =
     observation_slices_of (ag_team ag) (ag_num_cameras ag) (ag_num_targets ag) (ag_num_obstacles ag)"

definition ag_num_teammates :: "('m, 'z) agent_scheme \<Rightarrow> nat" where
  "ag_num_teammates ag = team_count (ag_team ag) (ag_num_cameras ag) (ag_num_targets ag)"

definition ag_num_opponents :: "('m, 'z) agent_scheme \<Rightarrow> nat" where
  "ag_num_opponents ag = team_count (opponent (ag_team ag)) (ag_num_cameras ag) (ag_num_targets ag)"

definition agent_reset :: "real list \<Rightarrow> ('m, 'z) agent_scheme \<Rightarrow> ('m, 'z) agent_scheme res" where
  "agent_reset obs ag0 =
     (if length obs < 4 then Inl IndexError
      else
        (let ag = ag0\<lparr>ag_num_cameras := nat (np_round (obs ! 0)),
                     ag_num_targets := nat (np_round (obs ! 1)),
                     ag_num_obstacles := nat (np_round (obs ! 2)),
                     ag_index := nat (np_round (obs ! 3))\<rparr>
         in bind_res (check AssertionError (length obs = ag_observation_dim ag)) (\<lambda>_.
              Inr (ag\<lparr>ag_state := slice_of obs (self_state_slice (ag_slices ag)),
                     ag_episode_step := - 1, ag_step_counter := 0, ag_last_observation := None,
                     ag_last_requests := [], ag_last_responses := []\<rparr>))))"

text \<open>\<open>check_inputs\<close> is called by \<open>observe\<close> and by \<open>act\<close>: the step advances on every second call.\<close>

definition check_inputs :: "real list \<Rightarrow> ('m, 'z) agent_scheme \<Rightarrow> ('m, 'z) agent_scheme res" where
  "check_inputs obs ag =
     bind_res (check AssertionError (length obs = ag_observation_dim ag)) (\<lambda>_.
       Inr (ag\<lparr>ag_state := slice_of obs (self_state_slice (ag_slices ag)),
              ag_episode_step := (if ag_step_counter ag mod 2 = 0 then ag_episode_step ag + 1
                                  else ag_episode_step ag),
              ag_step_counter := ag_step_counter ag + 1\<rparr>))"

definition observe :: "real list \<Rightarrow> ('m, 'z) agent_scheme \<Rightarrow> ('m, 'z) agent_scheme res" where
  "observe obs ag =
     bind_res (check_inputs obs ag) (\<lambda>ag1. Inr (ag1\<lparr>ag_last_observation := Some obs\<rparr>))"

definition receive_requests :: "'m message list \<Rightarrow> ('m, 'z) agent_scheme \<Rightarrow> ('m, 'z) agent_scheme" where
  "receive_requests ms ag = ag\<lparr>ag_last_requests := ms\<rparr>"

definition receive_responses :: "'m message list \<Rightarrow> ('m, 'z) agent_scheme \<Rightarrow> ('m, 'z) agent_scheme" where
  "receive_responses ms ag = ag\<lparr>ag_last_responses := ms\<rparr>"

definition pack_message :: "('m, 'z) agent_scheme \<Rightarrow> 'm \<Rightarrow> nat option \<Rightarrow> 'm message" where
  "pack_message ag c r =
     \<lparr>sender = ag_index ag, recipient = r, content = c, msg_team = ag_team ag,
      broadcasting = (r = None)\<rparr>"

text \<open>The three getters differ in the part of the observation, the width of a state and the count.\<close>

definition state_at :: "real list \<Rightarrow> nat \<Rightarrow> nat \<Rightarrow> nat \<Rightarrow> real list \<times> bool" where
  "state_at obs start d i =
     (let offset = start + (d + 1) * i
      in (take d (drop offset obs), obs ! (offset + d) \<noteq> 0))"

definition get_teammate_state :: "('m, 'z) agent_scheme \<Rightarrow> real list \<Rightarrow> int \<Rightarrow> (real list \<times> bool) res" where
  "get_teammate_state ag obs i =
     (if 0 \<le> i \<and> i < int (ag_num_teammates ag)
      then Inr (state_at obs (ag_indices ag ! 4) (public_dim (ag_team ag)) (nat i))
      else Inl IndexError)"

definition get_opponent_state :: "('m, 'z) agent_scheme \<Rightarrow> real list \<Rightarrow> int \<Rightarrow> (real list \<times> bool) res" where
  "get_opponent_state ag obs i =
     (if 0 \<le> i \<and> i < int (ag_num_opponents ag)
      then Inr (state_at obs (ag_indices ag ! 2) (public_dim (opponent (ag_team ag))) (nat i))
      else Inl IndexError)"

definition get_obstacle_state :: "('m, 'z) agent_scheme \<Rightarrow> real list \<Rightarrow> int \<Rightarrow> (real list \<times> bool) res" where
  "get_obstacle_state ag obs i =
     (if 0 \<le> i \<and> i < int (ag_num_obstacles ag)
      then Inr (state_at obs (ag_indices ag ! 3) OBSTACLE_STATE_DIM (nat i))
      else Inl IndexError)"

definition get_teammate_states :: "('m, 'z) agent_scheme \<Rightarrow> real list \<Rightarrow> (real list \<times> bool) list res" where
  "get_teammate_states ag obs = map_res (\<lambda>i. get_teammate_state ag obs (int i)) [0..<ag_num_teammates ag]"

definition get_all_opponent_states :: "('m, 'z) agent_scheme \<Rightarrow> real list \<Rightarrow> (real list \<times> bool) list res" where
  "get_all_opponent_states ag obs = map_res (\<lambda>i. get_opponent_state ag obs (int i)) [0..<ag_num_opponents ag]"

definition get_all_obstacle_states :: "('m, 'z) agent_scheme \<Rightarrow> real list \<Rightarrow> (real list \<times> bool) list res" where
  "get_all_obstacle_states ag obs = map_res (\<lambda>i. get_obstacle_state ag obs (int i)) [0..<ag_num_obstacles ag]"

subsection \<open>Reading back what the environment wrote\<close>

lemma np_round_real [simp]: "np_round (real n) = int n"
proof -
  have "\<lfloor>real n + 1 / 2\<rfloor> = int n" by linarith
  moreover have "real n + 1 / 2 \<noteq> real_of_int (int n)" by simp
  ultimately show ?thesis by (simp add: np_round_def)
qed

lemma preserved_data_head:
  "(preserved_data s)[3 := real i] ! 0 = real (num_cameras s)"
  "(preserved_data s)[3 := real i] ! 1 = real (num_targets s)"
  "(preserved_data s)[3 := real i] ! 2 = real (num_obstacles s)"
  "(preserved_data s)[3 := real i] ! 3 = real i"
  by (simp_all add: preserved_data_def numeral_eq_Suc)

text \<open>The agent after a reset on its own observation.\<close>

definition agent_of :: "team \<Rightarrow> ('g, 'm) env \<Rightarrow> nat \<Rightarrow> 'm agent" where
  "agent_of team s i =
     \<lparr>ag_team = team, ag_num_cameras = num_cameras s, ag_num_targets = num_targets s,
      ag_num_obstacles = num_obstacles s, ag_index = i, ag_state = self_part team s i,
      ag_episode_step = - 1, ag_step_counter = 0, ag_last_observation = None,
      ag_last_requests = [], ag_last_responses = []\<rparr>"

lemma agent_of_sel [simp]:
  "ag_team (agent_of team s i) = team" "ag_num_cameras (agent_of team s i) = num_cameras s"
  "ag_num_targets (agent_of team s i) = num_targets s" "ag_num_obstacles (agent_of team s i) = num_obstacles s"
  by (simp_all add: agent_of_def)

lemma self_slice:
  assumes "view_shapes s" and "i < num_agents team s"
  shows "slice_of (observation_of team s i) (self_state_slice (observation_slices_of team (num_cameras s)
     (num_targets s) (num_obstacles s))) = self_part team s i"
proof -
  have idx: "observation_slices_of team nc nt no = observation_slices_of team nc nt no"
    "self_state_slice (observation_slices_of team nc nt no)
      = slice2 PRESERVED_DIM (PRESERVED_DIM + self_dim team)" for nc nt no
    by (cases team; simp add: observation_slices_of_def camera_observation_slices_of_def
        target_observation_slices_of_def Let_def camera_observation_indices_of_def
        target_observation_indices_of_def self_dim_def)+
  have len: "length (observation_of team s i) \<ge> PRESERVED_DIM + self_dim team"
    using part_lengths(1) [OF assms] by (simp add: observation_parts)
  show ?thesis
    unfolding idx(2) using len part_lengths(1) [OF assms]
    by (simp add: slice2_of observation_parts)
qed

text \<open>An agent that is reset on its own observation reads back what the environment wrote: the three
  counts, its index and its private state.\<close>

definition reset_as :: "('g, 'e) env \<Rightarrow> nat \<Rightarrow> ('m, 'z) agent_scheme \<Rightarrow> ('m, 'z) agent_scheme" where
  "reset_as s i ag =
     ag\<lparr>ag_num_cameras := num_cameras s, ag_num_targets := num_targets s, ag_num_obstacles := num_obstacles s,
        ag_index := i, ag_state := self_part (ag_team ag) s i, ag_episode_step := - 1, ag_step_counter := 0,
        ag_last_observation := None, ag_last_requests := [], ag_last_responses := []\<rparr>"

lemma reset_as_sel [simp]:
  "ag_team (reset_as s i ag) = ag_team ag" "ag_num_cameras (reset_as s i ag) = num_cameras s"
  "ag_num_targets (reset_as s i ag) = num_targets s" "ag_num_obstacles (reset_as s i ag) = num_obstacles s"
  "ag_index (reset_as s i ag) = i" "ag_state (reset_as s i ag) = self_part (ag_team ag) s i"
  by (simp_all add: reset_as_def)

lemma agent_reset_reads:
  assumes "view_shapes s" and "i < num_agents team s" and "ag_team ag0 = team"
  shows "agent_reset (observation_of team s i) ag0 = Inr (reset_as s i ag0)"
proof -
  let ?obs = "observation_of team s i"
  have len: "length ?obs = observation_dim team (num_cameras s) (num_targets s) (num_obstacles s)"
    by (rule length_observation_of [OF assms(1,2)])
  have head: "?obs ! 0 = real (num_cameras s)" "?obs ! 1 = real (num_targets s)"
    "?obs ! 2 = real (num_obstacles s)" "?obs ! 3 = real i"
    using preserved_data_head [of s i] PRESERVED_DIM_gt by (simp_all add: observation_parts nth_append)
  have "4 \<le> length ?obs" using PRESERVED_DIM_gt by (simp add: observation_parts)
  then show ?thesis
    using assms(3) self_slice [OF assms(1,2)] len
    by (simp add: agent_reset_def head ag_observation_dim_def ag_indices_def observation_dim_def check_def
        ag_slices_def reset_as_def del: One_nat_def)
qed

lemma nth_by_drop: "k \<le> length xs \<Longrightarrow> xs ! (k + d) = take (d + 1) (drop k xs) ! d"
  by simp

lemma state_at_masked:
  assumes "\<forall>row \<in> set rows. length row = d + 1" and "length seen = length rows" and "i < length rows"
    and "length pre = start"
  shows "state_at (pre @ masked_rows seen rows @ post) start d i
    = (if seen ! i then (take d (rows ! i), rows ! i ! d \<noteq> 0) else (replicate d 0, False))"
proof -
  let ?obs = "pre @ masked_rows seen rows @ post" and ?off = "start + (d + 1) * i"
  have row: "take (d + 1) (drop ?off ?obs) = (if seen ! i then rows ! i else replicate (d + 1) 0)"
    using masked_rows_row [OF assms(1-3), of post] assms(4) by simp
  have "take d (drop ?off ?obs) = take d (take (d + 1) (drop ?off ?obs))"
    unfolding take_take by simp
  moreover have "?obs ! (?off + d) = take (d + 1) (drop ?off ?obs) ! d"
  proof -
    have "length (masked_rows seen rows) = length rows * (d + 1)"
      by (rule masked_rows_length [OF assms(1,2)])
    moreover have "i * (d + 1) \<le> length rows * (d + 1)"
      using assms(3) by (intro mult_le_mono1) simp
    ultimately have "?off \<le> length ?obs" using assms(4) by (simp add: mult.commute)
    then show ?thesis by (rule nth_by_drop)
  qed
  ultimately show ?thesis
    unfolding state_at_def Let_def row
    by (cases "seen ! i") (simp_all only: if_True if_False take_replicate min_def nth_replicate less_add_one
        le_add1 simp_thms)
qed

text \<open>The public state of agent \<open>j\<close> of a team.\<close>

definition public_state :: "team \<Rightarrow> ('g, 'm) env \<Rightarrow> nat \<Rightarrow> real list" where
  "public_state team s j =
     (case team of CAMERA \<Rightarrow> camera_state (cameras s ! j) False | TARGET \<Rightarrow> target_state (targets s ! j) False)"

lemma rows_of_nth:
  "j < num_agents team s \<Longrightarrow> rows_of team s ! j = flagged (public_state team s j)"
  by (cases team) (simp_all add: rows_of_def camera_rows_def target_rows_def public_state_def
      num_agents_def num_cameras_def num_targets_def)

lemma length_public_state: "length (public_state team s j) = public_dim team"
  by (cases team) (simp_all add: public_state_def public_dim_def)

lemma seen_row:
  assumes "j < num_agents team s" and "length seen = num_agents team s" and "length pre = start"
  shows "state_at (pre @ masked_rows seen (rows_of team s) @ post) start (public_dim team) j
    = (if seen ! j then (public_state team s j, True) else (replicate (public_dim team) 0, False))"
proof -
  have R: "\<forall>row \<in> set (rows_of team s). length row = public_dim team + 1"
    by (rule rows_shape(2))
  have "seen ! j \<Longrightarrow> take (public_dim team) (rows_of team s ! j) = public_state team s j"
    "rows_of team s ! j ! public_dim team = 1"
    using assms(1) length_public_state [of team s j] by (simp_all add: rows_of_nth flagged_def nth_append)
  then show ?thesis
    using state_at_masked [OF R, of seen j pre start post] assms rows_shape(1) [of team s]
    by simp
qed

lemma indices_at:
  "ag_indices (agent_of team s i) ! 2 = PRESERVED_DIM + self_dim team"
  "ag_indices (agent_of team s i) ! 3 = PRESERVED_DIM + self_dim team
     + num_agents (opponent team) s * (public_dim (opponent team) + 1)"
  "ag_indices (agent_of team s i) ! 4 = PRESERVED_DIM + self_dim team
     + num_agents (opponent team) s * (public_dim (opponent team) + 1)
     + num_obstacles s * (OBSTACLE_STATE_DIM + 1)"
  by (simp_all add: ag_indices_def observation_indices Let_def num_agents_count numeral_eq_Suc)

lemma part_lengths_masked:
  assumes "view_shapes s" and "i < num_agents team s"
  shows "length (masked_rows (opponent_seen team s i) (rows_of (opponent team) s))
      = num_agents (opponent team) s * (public_dim (opponent team) + 1)"
  using masked_rows_length [OF rows_shape(2)] part_lengths(2) [OF assms] rows_shape(1) by metis

text \<open>The getters of an agent read back from its observation the public state and the flag of
  every opponent and teammate it senses, zeros and a false flag for the others, and raise an
  \<open>IndexError\<close> for an index out of range (negative ones included).\<close>

lemma getters_read_back:
  assumes sh: "view_shapes s" and i: "i < num_agents team s"
  shows "(\<forall>j < num_agents (opponent team) s.
      get_opponent_state (agent_of team s i) (observation_of team s i) (int j)
        = Inr (if opponent_seen team s i ! j then (public_state (opponent team) s j, True)
               else (replicate (public_dim (opponent team)) 0, False)))
    \<and> (\<forall>j < num_agents team s.
      get_teammate_state (agent_of team s i) (observation_of team s i) (int j)
        = Inr (if teammate_seen team s i ! j then (public_state team s j, True)
               else (replicate (public_dim team) 0, False)))
    \<and> (\<forall>k. \<not> (0 \<le> k \<and> k < int (num_agents (opponent team) s)) \<longrightarrow>
      get_opponent_state (agent_of team s i) (observation_of team s i) k = Inl IndexError)"
proof (intro conjI allI impI)
  note P = part_lengths [OF sh i] and M = part_lengths_masked [OF sh i]
  show "get_opponent_state (agent_of team s i) (observation_of team s i) (int j)
        = Inr (if opponent_seen team s i ! j then (public_state (opponent team) s j, True)
               else (replicate (public_dim (opponent team)) 0, False))" if "j < num_agents (opponent team) s" for j
    using that seen_row [OF that P(2), of "(preserved_data s)[3 := real i] @ self_part team s i" _
      "obstacle_part team s i @ masked_rows (teammate_seen team s i) (rows_of team s)", OF refl] P(1)
    by (simp add: get_opponent_state_def ag_num_opponents_def num_agents_count [symmetric] indices_at
        observation_parts)
  show "get_teammate_state (agent_of team s i) (observation_of team s i) (int j)
        = Inr (if teammate_seen team s i ! j then (public_state team s j, True)
               else (replicate (public_dim team) 0, False))" if "j < num_agents team s" for j
    using that seen_row [OF that P(3), of "(preserved_data s)[3 := real i] @ self_part team s i
        @ masked_rows (opponent_seen team s i) (rows_of (opponent team) s) @ obstacle_part team s i" _ "[]",
      OF refl] P(1,4) M
    by (simp add: get_teammate_state_def ag_num_teammates_def num_agents_count [symmetric] indices_at
        observation_parts add.assoc)
  show "get_opponent_state (agent_of team s i) (observation_of team s i) k = Inl IndexError"
    if "\<not> (0 \<le> k \<and> k < int (num_agents (opponent team) s))" for k
    using that by (auto simp: get_opponent_state_def ag_num_opponents_def num_agents_count)
qed

end
