(* ===== verification/Config.thy ===== *)
theory Config
  imports Reset
begin

text \<open>
  Configuration and construction in \<^verbatim>\<open>mate/environment.py\<close>: \<open>validate_config\<close>, the part of
  \<open>read_config\<close> after it, the properties that read the configuration, \<open>__init__\<close> and \<open>load_config\<close>.

  The configuration is a Python dict with three sub-dicts. Here it is a record with one optional field
  per key the code reads (\<open>None\<close>: the key is missing); values have the types the code expects of them.
  A box of locations is the pair of its corners. The lemmas say what validation accepts and that the
  constructor, run on a validated configuration, leaves a state from which \<open>reset\<close> starts an episode.
\<close>

record camera_section =
  cs_location :: "vec list option"
  cs_random_range :: "(vec \<times> vec) list option"
  cs_radius :: "real option"
  cs_min_viewing_angle :: "real option"
  cs_max_sight_range :: "real option"
  cs_rotation_step :: "real option"
  cs_zooming_step :: "real option"

record target_section =
  ts_location :: "vec list option"
  ts_random_range :: "(vec \<times> vec) list option"
  ts_sight_range :: "real option"
  ts_step_size :: "real option"

record obstacle_section =
  os_location :: "vec list option"
  os_random_range :: "(vec \<times> vec) list option"
  os_radius :: "real option"
  os_radius_random_range :: "(real \<times> real) option"
  os_transmittance :: "real option"

record config =
  c_max_episode_steps :: "int option"
  c_reward_type :: "string option"
  c_num_cargoes_per_target :: "int option"
  c_high_capacity_target_split :: "real option"
  c_targets_start_with_cargoes :: "bool option"
  c_bounty_factor :: "real option"
  c_shuffle_entities :: "bool option"
  c_camera :: "camera_section option"
  c_target :: "target_section option"
  c_obstacle :: "obstacle_section option"

text \<open>\<open>d.get(key, default)\<close> and \<open>d[key]\<close>.\<close>

definition get_or :: "'a \<Rightarrow> 'a option \<Rightarrow> 'a" where
  "get_or d x = (case x of None \<Rightarrow> d | Some v \<Rightarrow> v)"

definition key :: "'a option \<Rightarrow> 'a res" where
  "key x = (case x of None \<Rightarrow> Inl KeyError | Some v \<Rightarrow> Inr v)"

lemma get_or_simps [simp]: "get_or d None = d" "get_or d (Some v) = v"
  by (simp_all add: get_or_def)

lemma key_Some [simp]: "key (Some v) = Inr v"
  by (simp add: key_def)

subsection \<open>Validation\<close>

definition DEFAULT_SIGHT_RANGE :: real where "DEFAULT_SIGHT_RANGE = 500"
definition DEFAULT_CAMERA_RADIUS :: real where "DEFAULT_CAMERA_RADIUS = 40"
definition DEFAULT_CAMERA_MIN_VIEWING_ANGLE :: real where "DEFAULT_CAMERA_MIN_VIEWING_ANGLE = 90"
definition DEFAULT_CAMERA_ROTATION_STEP :: real where "DEFAULT_CAMERA_ROTATION_STEP = 5"
definition DEFAULT_CAMERA_ZOOMING_STEP :: real where "DEFAULT_CAMERA_ZOOMING_STEP = 5 / 2"
definition DEFAULT_TARGET_STEP_SIZE :: real where "DEFAULT_TARGET_STEP_SIZE = 10"
definition DEFAULT_OBSTACLE_TRANSMITTANCE :: real where "DEFAULT_OBSTACLE_TRANSMITTANCE = 0"

lemmas default_defs = DEFAULT_SIGHT_RANGE_def DEFAULT_CAMERA_RADIUS_def DEFAULT_CAMERA_MIN_VIEWING_ANGLE_def
  DEFAULT_CAMERA_ROTATION_STEP_def DEFAULT_CAMERA_ZOOMING_STEP_def DEFAULT_TARGET_STEP_SIZE_def
  DEFAULT_OBSTACLE_TRANSMITTANCE_def

text \<open>One turn of the loop over \<open>Entity.DEFAULTS\<close>: fill the key in, then require a positive number.\<close>

definition positive_key :: "real \<Rightarrow> real option \<Rightarrow> real option res" where
  "positive_key d x = bind_res (check ValueError (0 < get_or d x)) (\<lambda>_. Inr (Some (get_or d x)))"

definition validate_camera :: "camera_section \<Rightarrow> camera_section res" where
  "validate_camera c =
     bind_res (positive_key DEFAULT_CAMERA_RADIUS (cs_radius c)) (\<lambda>rad.
     bind_res (positive_key DEFAULT_CAMERA_MIN_VIEWING_ANGLE (cs_min_viewing_angle c)) (\<lambda>ang.
     bind_res (positive_key DEFAULT_SIGHT_RANGE (cs_max_sight_range c)) (\<lambda>sight.
     bind_res (positive_key DEFAULT_CAMERA_ROTATION_STEP (cs_rotation_step c)) (\<lambda>rot.
     bind_res (positive_key DEFAULT_CAMERA_ZOOMING_STEP (cs_zooming_step c)) (\<lambda>zoom.
       Inr (c\<lparr>cs_radius := rad, cs_min_viewing_angle := ang, cs_max_sight_range := sight,
              cs_rotation_step := rot, cs_zooming_step := zoom\<rparr>))))))"

definition validate_target :: "target_section \<Rightarrow> target_section res" where
  "validate_target t =
     bind_res (positive_key DEFAULT_SIGHT_RANGE (ts_sight_range t)) (\<lambda>sight.
     bind_res (positive_key DEFAULT_TARGET_STEP_SIZE (ts_step_size t)) (\<lambda>stepsz.
       Inr (t\<lparr>ts_sight_range := sight, ts_step_size := stepsz\<rparr>)))"

definition num_configured :: "'a list option \<Rightarrow> 'b list option \<Rightarrow> nat" where
  "num_configured locations ranges = length (get_or [] locations) + length (get_or [] ranges)"

definition validate_config :: "config \<Rightarrow> config res" where
  "validate_config cfg =
     (let steps = get_or 10000 (c_max_episode_steps cfg);
          kind = get_or ''dense'' (c_reward_type cfg);
          split = get_or (1 / 2) (c_high_capacity_target_split cfg);
          start = get_or True (c_targets_start_with_cargoes cfg);
          bounty = get_or 1 (c_bounty_factor cfg);
          shuffle = get_or True (c_shuffle_entities cfg)
      in bind_res (check ValueError (0 < steps)) (\<lambda>_.
         bind_res (check ValueError (kind = ''dense'' \<or> kind = ''sparse'')) (\<lambda>_.
         case c_target cfg of
           None \<Rightarrow> Inl ValueError
         | Some t \<Rightarrow>
             bind_res (check ValueError (num_configured (ts_location t) (ts_random_range t) \<noteq> 0)) (\<lambda>_.
             case c_num_cargoes_per_target cfg of
               None \<Rightarrow> Inl ValueError
             | Some n \<Rightarrow>
                 bind_res (check ValueError (int NUM_WAREHOUSES \<le> n)) (\<lambda>_.
                 bind_res (check ValueError (0 \<le> split \<and> split \<le> 1)) (\<lambda>_.
                 bind_res (check ValueError (0 \<le> bounty)) (\<lambda>_.
                 bind_res (case c_camera cfg of
                             None \<Rightarrow> Inr None
                           | Some c \<Rightarrow> bind_res (validate_camera c) (\<lambda>c'. Inr (Some c'))) (\<lambda>cam.
                 bind_res (validate_target t) (\<lambda>t'.
                   Inr (cfg\<lparr>c_max_episode_steps := Some steps, c_reward_type := Some kind,
                            c_high_capacity_target_split := Some split,
                            c_targets_start_with_cargoes := Some start,
                            c_bounty_factor := Some bounty, c_shuffle_entities := Some shuffle,
                            c_camera := cam, c_target := Some t'\<rparr>))))))))))"

text \<open>After validation \<open>read_config\<close> adds the sub-dicts that are missing, empty.\<close>

definition empty_camera_section :: camera_section where
  "empty_camera_section =
     \<lparr>cs_location = None, cs_random_range = None, cs_radius = None, cs_min_viewing_angle = None,
      cs_max_sight_range = None, cs_rotation_step = None, cs_zooming_step = None\<rparr>"

definition empty_obstacle_section :: obstacle_section where
  "empty_obstacle_section =
     \<lparr>os_location = None, os_random_range = None, os_radius = None, os_radius_random_range = None,
      os_transmittance = None\<rparr>"

definition read_config :: "config \<Rightarrow> config res" where
  "read_config cfg =
     bind_res (validate_config cfg) (\<lambda>cfg1.
       Inr (cfg1\<lparr>c_camera := Some (get_or empty_camera_section (c_camera cfg1)),
                 c_obstacle := Some (get_or empty_obstacle_section (c_obstacle cfg1))\<rparr>))"

subsection \<open>What validation accepts\<close>

definition positive_or :: "real \<Rightarrow> real option \<Rightarrow> bool" where
  "positive_or d x \<longleftrightarrow> 0 < get_or d x"

definition camera_keys_ok :: "camera_section \<Rightarrow> bool" where
  "camera_keys_ok c \<longleftrightarrow>
     positive_or DEFAULT_CAMERA_RADIUS (cs_radius c)
   \<and> positive_or DEFAULT_CAMERA_MIN_VIEWING_ANGLE (cs_min_viewing_angle c)
   \<and> positive_or DEFAULT_SIGHT_RANGE (cs_max_sight_range c)
   \<and> positive_or DEFAULT_CAMERA_ROTATION_STEP (cs_rotation_step c)
   \<and> positive_or DEFAULT_CAMERA_ZOOMING_STEP (cs_zooming_step c)"

definition target_keys_ok :: "target_section \<Rightarrow> bool" where
  "target_keys_ok t \<longleftrightarrow>
     num_configured (ts_location t) (ts_random_range t) \<noteq> 0
   \<and> positive_or DEFAULT_SIGHT_RANGE (ts_sight_range t) \<and> positive_or DEFAULT_TARGET_STEP_SIZE (ts_step_size t)"

definition config_acceptable :: "config \<Rightarrow> bool" where
  "config_acceptable cfg \<longleftrightarrow>
     (\<forall>n. c_max_episode_steps cfg = Some n \<longrightarrow> 0 < n)
   \<and> c_reward_type cfg \<in> {None, Some ''dense'', Some ''sparse''}
   \<and> (\<exists>n. c_num_cargoes_per_target cfg = Some n \<and> 4 \<le> n)
   \<and> (\<forall>x. c_high_capacity_target_split cfg = Some x \<longrightarrow> 0 \<le> x \<and> x \<le> 1)
   \<and> (\<forall>x. c_bounty_factor cfg = Some x \<longrightarrow> 0 \<le> x)
   \<and> (\<forall>c. c_camera cfg = Some c \<longrightarrow> camera_keys_ok c)
   \<and> (\<exists>t. c_target cfg = Some t \<and> target_keys_ok t)"

text \<open>The configuration with every key that has a default.\<close>

definition fill_camera :: "camera_section \<Rightarrow> camera_section" where
  "fill_camera c =
     c\<lparr>cs_radius := Some (get_or DEFAULT_CAMERA_RADIUS (cs_radius c)),
       cs_min_viewing_angle := Some (get_or DEFAULT_CAMERA_MIN_VIEWING_ANGLE (cs_min_viewing_angle c)),
       cs_max_sight_range := Some (get_or DEFAULT_SIGHT_RANGE (cs_max_sight_range c)),
       cs_rotation_step := Some (get_or DEFAULT_CAMERA_ROTATION_STEP (cs_rotation_step c)),
       cs_zooming_step := Some (get_or DEFAULT_CAMERA_ZOOMING_STEP (cs_zooming_step c))\<rparr>"

definition fill_target :: "target_section \<Rightarrow> target_section" where
  "fill_target t =
     t\<lparr>ts_sight_range := Some (get_or DEFAULT_SIGHT_RANGE (ts_sight_range t)),
       ts_step_size := Some (get_or DEFAULT_TARGET_STEP_SIZE (ts_step_size t))\<rparr>"

definition fill_defaults :: "config \<Rightarrow> config" where
  "fill_defaults cfg =
     cfg\<lparr>c_max_episode_steps := Some (get_or 10000 (c_max_episode_steps cfg)),
         c_reward_type := Some (get_or ''dense'' (c_reward_type cfg)),
         c_high_capacity_target_split := Some (get_or (1 / 2) (c_high_capacity_target_split cfg)),
         c_targets_start_with_cargoes := Some (get_or True (c_targets_start_with_cargoes cfg)),
         c_bounty_factor := Some (get_or 1 (c_bounty_factor cfg)),
         c_shuffle_entities := Some (get_or True (c_shuffle_entities cfg)),
         c_camera := map_option fill_camera (c_camera cfg),
         c_target := map_option fill_target (c_target cfg)\<rparr>"

lemma positive_key_eq: "positive_key d x = (if positive_or d x then Inr (Some (get_or d x)) else Inl ValueError)"
  by (simp add: positive_key_def positive_or_def bind_check)

lemma validate_camera_eq:
  "validate_camera c = (if camera_keys_ok c then Inr (fill_camera c) else Inl ValueError)"
  by (simp add: validate_camera_def positive_key_eq camera_keys_ok_def fill_camera_def)

lemma validate_target_eq:
  "num_configured (ts_location t) (ts_random_range t) \<noteq> 0 \<Longrightarrow>
   validate_target t = (if target_keys_ok t then Inr (fill_target t) else Inl ValueError)"
  by (simp add: validate_target_def positive_key_eq target_keys_ok_def fill_target_def)

lemma acceptable_get_or:
  "0 < get_or 10000 x \<longleftrightarrow> (\<forall>n :: int. x = Some n \<longrightarrow> 0 < n)"
  "get_or ''dense'' k = ''dense'' \<or> get_or ''dense'' k = ''sparse'' \<longleftrightarrow> k \<in> {None, Some ''dense'', Some ''sparse''}"
  "0 \<le> get_or (1 / 2) h \<and> get_or (1 / 2) h \<le> 1 \<longleftrightarrow> (\<forall>x :: real. h = Some x \<longrightarrow> 0 \<le> x \<and> x \<le> 1)"
  "0 \<le> get_or 1 b \<longleftrightarrow> (\<forall>x :: real. b = Some x \<longrightarrow> 0 \<le> x)"
  by (auto simp: get_or_def split: option.splits)

lemma fill_keys [simp]:
  "camera_keys_ok (fill_camera c) = camera_keys_ok c" "fill_camera (fill_camera c) = fill_camera c"
  "target_keys_ok (fill_target t) = target_keys_ok t" "fill_target (fill_target t) = fill_target t"
  by (simp_all add: camera_keys_ok_def target_keys_ok_def positive_or_def fill_camera_def fill_target_def)

lemma validate_config_eq:
  "validate_config cfg = (if config_acceptable cfg then Inr (fill_defaults cfg) else Inl ValueError)"
proof (cases "c_target cfg")
  case None
  then show ?thesis by (auto simp: validate_config_def bind_check config_acceptable_def)
next
  case (Some t)
  have cam: "(case c_camera cfg of None \<Rightarrow> Inr None | Some c \<Rightarrow> bind_res (validate_camera c) (\<lambda>c'. Inr (Some c')))
      = (if \<forall>c. c_camera cfg = Some c \<longrightarrow> camera_keys_ok c then Inr (map_option fill_camera (c_camera cfg))
         else Inl ValueError)"
    by (cases "c_camera cfg") (simp_all add: validate_camera_eq)
  show ?thesis
  proof (cases "num_configured (ts_location t) (ts_random_range t) \<noteq> 0")
    case False
    then have "\<not> target_keys_ok t" by (simp add: target_keys_ok_def)
    then show ?thesis
      using False Some by (auto simp: validate_config_def bind_check config_acceptable_def Let_def)
  next
    case True
    show ?thesis
      unfolding validate_config_def Let_def bind_check acceptable_get_or cam Some
      by (cases "c_num_cargoes_per_target cfg")
        (auto simp: True Some validate_target_eq [OF True] config_acceptable_def fill_defaults_def NUM_WAREHOUSES_def)
  qed
qed

lemma config_acceptable_filled: "config_acceptable cfg \<Longrightarrow> config_acceptable (fill_defaults cfg)"
  using acceptable_get_or(1) [of "c_max_episode_steps cfg"] acceptable_get_or(2) [of "c_reward_type cfg"]
    acceptable_get_or(3) [of "c_high_capacity_target_split cfg"] acceptable_get_or(4) [of "c_bounty_factor cfg"]
  by (auto simp: config_acceptable_def fill_defaults_def)

lemma fill_defaults_again: "fill_defaults (fill_defaults cfg) = fill_defaults cfg"
  by (simp add: fill_defaults_def option.map_comp comp_def)


text \<open>One target at a fixed place, everything else left to the defaults.\<close>

definition small_config :: config where
  "small_config =
     \<lparr>c_max_episode_steps = None, c_reward_type = None, c_num_cargoes_per_target = Some 4,
      c_high_capacity_target_split = None, c_targets_start_with_cargoes = None, c_bounty_factor = None,
      c_shuffle_entities = None,
      c_camera = Some (empty_camera_section\<lparr>cs_location := Some [(100, 0)]\<rparr>),
      c_target = Some \<lparr>ts_location = Some [(0, 0)], ts_random_range = None, ts_sight_range = None,
                       ts_step_size = None\<rparr>,
      c_obstacle = None\<rparr>"

lemma small_config_acceptable: "config_acceptable small_config"
  by (simp add: config_acceptable_def small_config_def camera_keys_ok_def target_keys_ok_def positive_or_def
      empty_camera_section_def num_configured_def default_defs)


subsection \<open>The properties that read the configuration\<close>

definition cfg_num_cargoes_per_target :: "config \<Rightarrow> int res" where
  "cfg_num_cargoes_per_target cfg = key (c_num_cargoes_per_target cfg)"

definition cfg_max_episode_steps :: "config \<Rightarrow> int res" where
  "cfg_max_episode_steps cfg = key (c_max_episode_steps cfg)"

definition cfg_target_step_size :: "config \<Rightarrow> real res" where
  "cfg_target_step_size cfg = bind_res (key (c_target cfg)) (\<lambda>t. key (ts_step_size t))"

definition cfg_target_sight_range :: "config \<Rightarrow> real res" where
  "cfg_target_sight_range cfg = bind_res (key (c_target cfg)) (\<lambda>t. key (ts_sight_range t))"

definition cfg_camera_min_viewing_angle :: "config \<Rightarrow> real res" where
  "cfg_camera_min_viewing_angle cfg = bind_res (key (c_camera cfg)) (\<lambda>c. key (cs_min_viewing_angle c))"

definition cfg_camera_max_sight_range :: "config \<Rightarrow> real res" where
  "cfg_camera_max_sight_range cfg = bind_res (key (c_camera cfg)) (\<lambda>c. key (cs_max_sight_range c))"

definition cfg_camera_rotation_step :: "config \<Rightarrow> real res" where
  "cfg_camera_rotation_step cfg = bind_res (key (c_camera cfg)) (\<lambda>c. key (cs_rotation_step c))"

definition cfg_camera_zooming_step :: "config \<Rightarrow> real res" where
  "cfg_camera_zooming_step cfg = bind_res (key (c_camera cfg)) (\<lambda>c. key (cs_zooming_step c))"

definition cfg_targets_start_with_cargoes :: "config \<Rightarrow> bool" where
  "cfg_targets_start_with_cargoes cfg = get_or True (c_targets_start_with_cargoes cfg)"

definition cfg_bounty_factor :: "config \<Rightarrow> real" where
  "cfg_bounty_factor cfg = max 0 (get_or 1 (c_bounty_factor cfg))"

definition cfg_obstacle_transmittance :: "config \<Rightarrow> real" where
  "cfg_obstacle_transmittance cfg =
     min (max 0 (get_or 0 (os_transmittance (get_or empty_obstacle_section (c_obstacle cfg))))) 1"

definition cfg_shuffle_entities :: "config \<Rightarrow> bool" where
  "cfg_shuffle_entities cfg = get_or True (c_shuffle_entities cfg)"

definition cfg_high_capacity_target_split :: "config \<Rightarrow> real" where
  "cfg_high_capacity_target_split cfg = min (max 0 (get_or (1 / 2) (c_high_capacity_target_split cfg))) 1"

definition cfg_num_high_capacity_targets :: "nat \<Rightarrow> config \<Rightarrow> nat" where
  "cfg_num_high_capacity_targets n cfg = nat (py_int (real n * cfg_high_capacity_target_split cfg))"

definition cfg_num_low_capacity_targets :: "nat \<Rightarrow> config \<Rightarrow> nat" where
  "cfg_num_low_capacity_targets n cfg = n - cfg_num_high_capacity_targets n cfg"

lemma cfg_num_high_le: "cfg_num_high_capacity_targets n cfg \<le> n"
proof -
  let ?x = "real n * cfg_high_capacity_target_split cfg"
  have s: "0 \<le> cfg_high_capacity_target_split cfg" "cfg_high_capacity_target_split cfg \<le> 1"
    by (simp_all add: cfg_high_capacity_target_split_def)
  then have "0 \<le> ?x" "?x \<le> real n" by (simp_all add: mult_left_le)
  then have "py_int ?x \<le> int n" by (simp add: py_int_def floor_le_iff)
  then show ?thesis by (simp add: cfg_num_high_capacity_targets_def)
qed

subsection \<open>The constructor\<close>

text \<open>\<open>make_from_config\<close>: first the fixed locations, then the boxes.\<close>

definition make_from_config ::
  "(vec option \<Rightarrow> (vec \<times> vec) option \<Rightarrow> 'e res) \<Rightarrow> vec list option \<Rightarrow> (vec \<times> vec) list option \<Rightarrow> 'e list res" where
  "make_from_config mk locations ranges =
     bind_res (map_res (\<lambda>p. mk (Some p) None) (get_or [] locations)) (\<lambda>xs.
     bind_res (map_res (\<lambda>b. mk None (Some b)) (get_or [] ranges)) (\<lambda>ys.
       Inr (xs @ ys)))"

definition configured_camera ::
  "'g rng \<Rightarrow> 'g \<Rightarrow> camera_section \<Rightarrow> vec option \<Rightarrow> (vec \<times> vec) option \<Rightarrow> 'g camera res" where
  "configured_camera R g c loc box =
     new_camera R g loc box (get_or DEFAULT_CAMERA_RADIUS (cs_radius c))
       (get_or DEFAULT_CAMERA_MIN_VIEWING_ANGLE (cs_min_viewing_angle c))
       (get_or DEFAULT_SIGHT_RANGE (cs_max_sight_range c))
       (get_or DEFAULT_CAMERA_ROTATION_STEP (cs_rotation_step c))
       (get_or DEFAULT_CAMERA_ZOOMING_STEP (cs_zooming_step c))"

definition configured_target ::
  "'g rng \<Rightarrow> 'g \<Rightarrow> target_section \<Rightarrow> vec option \<Rightarrow> (vec \<times> vec) option \<Rightarrow> 'g target res" where
  "configured_target R g t loc box =
     new_target R g loc box (get_or DEFAULT_SIGHT_RANGE (ts_sight_range t))
       (get_or DEFAULT_TARGET_STEP_SIZE (ts_step_size t))"

definition configured_obstacle ::
  "'g rng \<Rightarrow> 'g \<Rightarrow> obstacle_section \<Rightarrow> vec option \<Rightarrow> (vec \<times> vec) option \<Rightarrow> 'g obstacle res" where
  "configured_obstacle R g ob loc box =
     new_obstacle R g loc box (os_radius ob) (os_radius_random_range ob)
       (get_or DEFAULT_OBSTACLE_TRANSMITTANCE (os_transmittance ob))"

text \<open>\<open>merge_space\<close> of the action spaces of the entities, and the spaces of the environment. The
  joint spaces are the tuples of one space per agent.\<close>

definition merge_space :: "(real list \<times> real list) list \<Rightarrow> box" where
  "merge_space xs =
     (case xs of
        [] \<Rightarrow> \<lparr>low = [], high = []\<rparr>
      | (lo, hi) # ys \<Rightarrow>
          \<lparr>low = map Fin (fold (map2 min) (map fst ys) lo), high = map Fin (fold (map2 min) (map snd ys) hi)\<rparr>)"

definition camera_action_box :: "'g camera \<Rightarrow> real list \<times> real list" where
  "camera_action_box cam =
     ([- rotation_step cam, - zooming_step cam], [rotation_step cam, zooming_step cam])"

definition target_action_box :: "'g target \<Rightarrow> real list \<times> real list" where
  "target_action_box t = ([- step_size t, - step_size t], [step_size t, step_size t])"

record env_spaces =
  camera_action_space :: box
  target_action_space :: box
  camera_joint_action_space :: "box list"
  target_joint_action_space :: "box list"
  camera_observation_space :: box
  target_observation_space :: box
  camera_joint_observation_space :: "box list"
  target_joint_observation_space :: "box list"
  state_space :: box

definition state_space_of :: "nat \<Rightarrow> nat \<Rightarrow> nat \<Rightarrow> box" where
  "state_space_of nc nt no =
     \<lparr>low = low PRESERVED_SPACE @ tile nc (low CAMERA_STATE_SPACE_PRIVATE)
        @ tile nt (low TARGET_STATE_SPACE_PRIVATE) @ tile no (low OBSTACLE_STATE_SPACE)
        @ replicate (2 * nt + NUM_WAREHOUSES * NUM_WAREHOUSES) (Fin 0),
      high = high PRESERVED_SPACE @ tile nc (high CAMERA_STATE_SPACE_PRIVATE)
        @ tile nt (high TARGET_STATE_SPACE_PRIVATE) @ tile no (high OBSTACLE_STATE_SPACE)
        @ replicate (2 * nt + NUM_WAREHOUSES * NUM_WAREHOUSES) PInf\<rparr>"

definition spaces_of :: "'g camera list \<Rightarrow> 'g target list \<Rightarrow> nat \<Rightarrow> env_spaces" where
  "spaces_of cams ts no =
     (let nc = length cams; nt = length ts;
          ca = (if nc = 0 then \<lparr>low = replicate CAMERA_ACTION_DIM (Fin 0), high = replicate CAMERA_ACTION_DIM (Fin 0)\<rparr>
                else merge_space (map camera_action_box cams));
          ta = merge_space (map target_action_box ts);
          co = camera_observation_space_of nc nt no;
          to = target_observation_space_of nc nt no
      in \<lparr>camera_action_space = ca, target_action_space = ta,
          camera_joint_action_space = replicate nc ca, target_joint_action_space = replicate nt ta,
          camera_observation_space = co, target_observation_space = to,
          camera_joint_observation_space = replicate nc co, target_joint_observation_space = replicate nt to,
          state_space = state_space_of nc nt no\<rparr>)"

definition zero_matrix :: "nat \<Rightarrow> nat \<Rightarrow> 'a::zero list list" where
  "zero_matrix r c = replicate r (replicate c 0)"

text \<open>The arrays, counters and mailbox of a new environment with the given entities and scales.\<close>

definition fresh_env ::
  "'g \<Rightarrow> settings \<Rightarrow> int \<Rightarrow> int \<Rightarrow> 'g camera list \<Rightarrow> 'g target list \<Rightarrow> 'g obstacle list \<Rightarrow> ('g, 'm) env" where
  "fresh_env g st fscale bscale cams ts obs =
     (let nc = length cams; nt = length ts; no = length obs;
          size = (\<lambda>t. case t of CAMERA \<Rightarrow> nc | TARGET \<Rightarrow> nt)
      in \<lparr>targets = ts, target_capacities = replicate nt 1,
          remaining_cargoes = zero_matrix NUM_WAREHOUSES NUM_WAREHOUSES,
          awaiting_cargo_counts = replicate NUM_WAREHOUSES 0, num_delivered_cargoes = 0,
          target_team_episode_reward = 0, delayed_target_team_episode_reward = 0,
          target_warehouse_distances = zero_matrix nt NUM_WAREHOUSES,
          target_goal_bits = zero_matrix nt NUM_WAREHOUSES, target_goals = replicate nt (- 1),
          target_dones = replicate nt False, target_steps = replicate nt 0, tracked_steps = replicate nt 0,
          freight_scale = fscale, bounty_scale = bscale, freights = replicate nt 0, bounties = replicate nt 0,
          tracked_bits = replicate nt False, np_random = g,
          settings = st, cameras = cams, obstacles = obs,
          camera_order = [0..<nc], target_order = [0..<nt], obstacle_order = [0..<no],
          collisions = empty_index,
          camera_target_view_mask = false_mask nc nt, target_camera_view_mask = false_mask nt nc,
          camera_obstacle_view_mask = false_mask nc no, camera_camera_view_mask = false_mask nc nc,
          target_obstacle_view_mask = false_mask nt no, target_target_view_mask = false_mask nt nt,
          obstacle_states_flagged = zero_matrix no (OBSTACLE_STATE_DIM + 1),
          camera_obstacle_observations = zero_matrix nc (no * (OBSTACLE_STATE_DIM + 1)),
          state_cache = None, coverage_rate = 0, real_coverage_rate = 0, mean_transport_rate = 0,
          episode_step = 0, target_orientations = replicate nt 0,
          mail = \<lparr>team_size = size, message_queues = (\<lambda>_ _. []), message_buffers = (\<lambda>_ _. []),
                  communication_edges = (\<lambda>t. zero_edges (size t)),
                  total_communication_edges = (\<lambda>t. zero_edges (size t))\<rparr>\<rparr>)"

definition new_env ::
  "'g rng \<Rightarrow> (int option \<Rightarrow> 'g \<times> int) \<Rightarrow> config \<Rightarrow> (env_spaces \<times> ('g, 'm) env) res" where
  "new_env R seeding cfg0 =
     bind_res (read_config cfg0) (\<lambda>cfg.
     bind_res (cfg_num_cargoes_per_target cfg) (\<lambda>cargoes.
     bind_res (check AssertionError (int NUM_WAREHOUSES \<le> cargoes)) (\<lambda>_.
     bind_res (key (c_camera cfg)) (\<lambda>csec.
     bind_res (key (c_target cfg)) (\<lambda>tsec.
     bind_res (key (c_obstacle cfg)) (\<lambda>osec.
       let g0 = fst (seeding (Some 0)) in
     bind_res (make_from_config (configured_camera R g0 csec) (cs_location csec) (cs_random_range csec)) (\<lambda>cams.
     bind_res (make_from_config (configured_target R g0 tsec) (ts_location tsec) (ts_random_range tsec)) (\<lambda>ts.
     bind_res (make_from_config (configured_obstacle R g0 osec) (os_location osec) (os_random_range osec)) (\<lambda>obs.
     bind_res (check AssertionError (0 < length ts)) (\<lambda>_.
     bind_res (cfg_target_step_size cfg) (\<lambda>stepsz.
     bind_res (cfg_max_episode_steps cfg) (\<lambda>steps.
     bind_res (key (c_reward_type cfg)) (\<lambda>kind.
       let fscale = \<lceil>TERRAIN_WIDTH / stepsz\<rceil>;
           bscale = \<lceil>of_int fscale * cfg_bounty_factor cfg\<rceil>;
           st = \<lparr>max_episode_steps = steps, sparse_reward = (kind = ''sparse''),
                 cargoes_per_target = nat cargoes, start_loaded = cfg_targets_start_with_cargoes cfg,
                 clear_transmittance = cfg_obstacle_transmittance cfg,
                 shuffle_entities = cfg_shuffle_entities cfg,
                 num_high_capacity = cfg_num_high_capacity_targets (length ts) cfg,
                 target_step_size = stepsz\<rparr>;
           s = fresh_env g0 st fscale bscale cams ts obs
       in Inr (spaces_of cams ts (length obs), snd (env_seed R seeding (Some 0) s)))))))))))))))"

text \<open>\<open>load_config\<close>: a seed from the old generator, a new construction, and the seed applied.\<close>

definition load_config ::
  "'g rng \<Rightarrow> (int option \<Rightarrow> 'g \<times> int) \<Rightarrow> config \<Rightarrow> ('g, 'm) env \<Rightarrow> (env_spaces \<times> ('g, 'm) env) res" where
  "load_config R seeding cfg s =
     (let seed = fst (randint R (np_random s) 0 np_int_max)
      in bind_res (new_env R seeding cfg) (\<lambda>(sp, s1). Inr (sp, snd (env_seed R seeding (Some seed) s1))))"

subsection \<open>What the constructor leaves\<close>

text \<open>What the constructors of the entities require beyond validation.\<close>

definition obstacle_section_ok :: "obstacle_section \<Rightarrow> bool" where
  "obstacle_section_ok ob \<longleftrightarrow>
     (case (os_radius ob, os_radius_random_range ob) of
        (Some r, None) \<Rightarrow> 0 \<le> r
      | (None, Some (lo, hi)) \<Rightarrow> 0 \<le> lo \<and> lo \<le> hi
      | _ \<Rightarrow> False)
   \<and> 0 \<le> get_or 0 (os_transmittance ob) \<and> get_or 0 (os_transmittance ob) \<le> 1"

definition config_buildable :: "config \<Rightarrow> bool" where
  "config_buildable cfg \<longleftrightarrow>
     config_acceptable cfg
   \<and> (\<forall>c. c_camera cfg = Some c \<longrightarrow>
        get_or DEFAULT_CAMERA_MIN_VIEWING_ANGLE (cs_min_viewing_angle c) \<le> 180
      \<and> get_or DEFAULT_CAMERA_ROTATION_STEP (cs_rotation_step c) \<le> 360)
   \<and> (\<forall>ob. c_obstacle cfg = Some ob \<longrightarrow>
        num_configured (os_location ob) (os_random_range ob) = 0 \<or> obstacle_section_ok ob)"

lemma make_from_config_ok:
  assumes "0 < num_configured ls rs \<Longrightarrow> (\<And>loc box. (loc = None) \<noteq> (box = None) \<Longrightarrow> \<exists>e. mk loc box = Inr e \<and> P e)"
  shows "\<exists>es. make_from_config mk ls rs = Inr es \<and> length es = num_configured ls rs \<and> (\<forall>e \<in> set es. P e)"
proof -
  have one: "\<exists>e. mk (Some p) None = Inr e \<and> P e" if "p \<in> set (get_or [] ls)" for p
    using that assms [of "Some p" None] by (cases "get_or [] ls") (auto simp: num_configured_def)
  have two: "\<exists>e. mk None (Some b) = Inr e \<and> P e" if "b \<in> set (get_or [] rs)" for b
    using that assms [of None "Some b"] by (cases "get_or [] rs") (auto simp: num_configured_def)
  obtain xs where xs: "map_res (\<lambda>p. mk (Some p) None) (get_or [] ls) = Inr xs" "length xs = length (get_or [] ls)"
    "\<forall>i < length (get_or [] ls). P (xs ! i)"
    using map_res_succeeds [of "get_or [] ls" "\<lambda>p. mk (Some p) None" "\<lambda>_. P"] one by blast
  obtain ys where ys: "map_res (\<lambda>b. mk None (Some b)) (get_or [] rs) = Inr ys" "length ys = length (get_or [] rs)"
    "\<forall>i < length (get_or [] rs). P (ys ! i)"
    using map_res_succeeds [of "get_or [] rs" "\<lambda>b. mk None (Some b)" "\<lambda>_. P"] two by blast
  have "\<forall>e \<in> set (xs @ ys). P e" using xs ys by (auto simp: in_set_conv_nth)
  then show ?thesis using xs ys by (simp add: make_from_config_def num_configured_def)
qed

lemma entity_range_one:
  "(loc = None) \<noteq> (box = None) \<Longrightarrow> 0 \<le> rad \<Longrightarrow> \<exists>lo hi. entity_range loc box rad = Inr (lo, hi)"
  by (cases loc; cases box) (auto simp: entity_range_def)

lemma configured_camera_ok:
  assumes "rng_ok R" and "camera_keys_ok c" and "(loc = None) \<noteq> (box = None)"
    and "get_or DEFAULT_CAMERA_MIN_VIEWING_ANGLE (cs_min_viewing_angle c) \<le> 180"
    and "get_or DEFAULT_CAMERA_ROTATION_STEP (cs_rotation_step c) \<le> 360"
  shows "\<exists>cam. configured_camera R g c loc box = Inr cam \<and> camera_params_ok cam"
proof -
  let ?rad = "get_or DEFAULT_CAMERA_RADIUS (cs_radius c)"
  let ?rot = "get_or DEFAULT_CAMERA_ROTATION_STEP (cs_rotation_step c)"
  have pos: "0 < ?rad" "0 < ?rot" "0 < get_or DEFAULT_CAMERA_MIN_VIEWING_ANGLE (cs_min_viewing_angle c)"
    "0 < get_or DEFAULT_SIGHT_RANGE (cs_max_sight_range c)"
    "0 < get_or DEFAULT_CAMERA_ZOOMING_STEP (cs_zooming_step c)"
    using assms(2) by (simp_all add: camera_keys_ok_def positive_or_def)
  have "1 \<le> 360 / ?rot" using pos(2) assms(5) by (simp add: le_divide_eq)
  then have fl: "0 < \<lfloor>360 / ?rot\<rfloor>" by linarith
  obtain lo hi where "entity_range loc box ?rad = Inr (lo, hi)"
    using entity_range_one [OF assms(3)] pos(1) by (meson less_imp_le)
  then show ?thesis
    using pos fl assms(4,5) camera_ok_params [OF camera_reset_ok [OF assms(1)]]
    by (simp add: configured_camera_def new_camera_def bind_check MAX_CAMERA_VIEWING_ANGLE_def camera_params_ok_def)
qed

lemma configured_target_ok:
  assumes "target_keys_ok t" and "(loc = None) \<noteq> (box = None)"
  shows "\<exists>e. configured_target R g t loc box = Inr e \<and> target_ok e \<and> 0 < transport_product e"
proof -
  have pos: "0 < get_or DEFAULT_SIGHT_RANGE (ts_sight_range t)" "0 < get_or DEFAULT_TARGET_STEP_SIZE (ts_step_size t)"
    using assms(1) by (simp_all add: target_keys_ok_def positive_or_def)
  obtain lo hi where "entity_range loc box TARGET_RADIUS = Inr (lo, hi)"
    using entity_range_one [OF assms(2), of TARGET_RADIUS] by (auto simp: TARGET_RADIUS_def)
  then show ?thesis
    using pos
    by (auto simp: configured_target_def new_target_def bind_check target_ok_def target_reset_def entity_reset_def
        TARGET_RADIUS_def terrain_defs clip_inside_in_terrain split: prod.split)
qed

lemma configured_obstacle_ok:
  assumes "rng_ok R" and "obstacle_section_ok ob" and "(loc = None) \<noteq> (box = None)"
  shows "\<exists>e. configured_obstacle R g ob loc box = Inr e"
proof -
  have t: "0 \<le> get_or DEFAULT_OBSTACLE_TRANSMITTANCE (os_transmittance ob)"
    "get_or DEFAULT_OBSTACLE_TRANSMITTANCE (os_transmittance ob) \<le> 1"
    using assms(2) by (simp_all add: obstacle_section_ok_def DEFAULT_OBSTACLE_TRANSMITTANCE_def)
  consider r where "os_radius ob = Some r" "os_radius_random_range ob = None" "0 \<le> r"
    | lo hi where "os_radius ob = None" "os_radius_random_range ob = Some (lo, hi)" "0 \<le> lo" "lo \<le> hi"
    using assms(2) by (auto simp: obstacle_section_ok_def split: option.splits)
  then show ?thesis
  proof cases
    case 1
    then show ?thesis
      using t entity_range_one [OF assms(3) 1(3)] by (auto simp: configured_obstacle_def new_obstacle_def bind_check)
  next
    case 2
    have "0 \<le> fst (sample_box1 R g lo hi)" using rng_sample_box1 [OF assms(1) 2(4), of g] 2(3) by linarith
    from entity_range_one [OF assms(3) this] show ?thesis
      using t 2 by (auto simp: configured_obstacle_def new_obstacle_def bind_check)
  qed
qed

lemma fresh_env_setup:
  fixes cams :: "'g camera list"
  assumes "\<forall>cam \<in> set cams. camera_params_ok cam" and "\<forall>t \<in> set ts. target_ok t \<and> 0 < transport_product t"
    and "0 < length ts" and "0 < fscale" and "0 \<le> bscale" and "2 \<le> cargoes_per_target st"
    and "num_high_capacity st \<le> length ts"
  shows "env_setup (fresh_env g st fscale bscale cams ts obs :: ('g, 'm) env)"
proof -
  define s :: "('g, 'm) env" where "s = fresh_env g st fscale bscale cams ts obs"
  have n: "num_targets s = length ts" "num_cameras s = length cams" "num_obstacles s = length obs"
    by (simp_all add: num_targets_def num_cameras_def num_obstacles_def s_def fresh_env_def Let_def)
  have "team_size (mail s) = (\<lambda>t. num_agents t s)"
    by (rule ext) (simp add: num_agents_def n split: team.split, simp add: s_def fresh_env_def Let_def)
  moreover have sel: "cameras s = cams" "targets s = ts" "settings s = st" "freight_scale s = fscale"
    "bounty_scale s = bscale" "length (camera_order s) = length cams" "length (target_order s) = length ts"
    "length (obstacle_order s) = length obs"
    by (simp_all add: s_def fresh_env_def Let_def)
  moreover have "camera_obstacle_observations s = zero_matrix (length cams) (length obs * (OBSTACLE_STATE_DIM + 1))"
    "obstacle_states_flagged s = zero_matrix (length obs) (OBSTACLE_STATE_DIM + 1)"
    by (simp_all add: s_def fresh_env_def Let_def)
  ultimately have "env_setup s" unfolding env_setup_def n sel using assms by (auto simp: zero_matrix_def)
  then show ?thesis by (simp add: s_def)
qed

lemma env_seed_scales [frame_simps]:
  "freight_scale (snd (env_seed R seeding seed s)) = freight_scale s"
  "bounty_scale (snd (env_seed R seeding seed s)) = bounty_scale s"
  by (simp_all add: env_seed_def Let_def split: prod.splits)

lemma env_seed_obstacles: "num_obstacles (snd (env_seed R seeding seed s)) = num_obstacles s"
proof -
  obtain g main where sd: "seeding seed = (g, main)" by fastforce
  define draw where "draw = (\<lambda>g. case randint R g 0 np_int_max of (v, g') \<Rightarrow> (seeding (Some v), g'))"
  let ?F = "\<lambda>c (acc, g). case draw g of (r, g') \<Rightarrow> (acc @ [r], g')"
  obtain cs g1 where c: "fold ?F (cameras s) ([], g) = (cs, g1)" by fastforce
  obtain ts g2 where t: "fold ?F (targets s) ([], g1) = (ts, g2)" by fastforce
  obtain os g3 where o: "fold ?F (obstacles s) ([], g2) = (os, g3)" by fastforce
  have "length os = length (obstacles s)" using fold_draws [of draw "obstacles s" "[]" g2] by (simp add: o)
  then show ?thesis
    unfolding env_seed_def sd Let_def draw_def [symmetric] prod.case c t o by (simp add: num_obstacles_def)
qed

lemma read_config_eq:
  "config_acceptable cfg \<Longrightarrow>
   read_config cfg = Inr ((fill_defaults cfg)\<lparr>
     c_camera := Some (get_or empty_camera_section (map_option fill_camera (c_camera cfg))),
     c_obstacle := Some (get_or empty_obstacle_section (c_obstacle cfg))\<rparr>)"
  by (simp add: read_config_def validate_config_eq) (simp add: fill_defaults_def)

text \<open>The entities a buildable configuration asks for can all be made.\<close>

lemma entities_built:
  assumes R: "rng_ok R" and b: "config_buildable cfg" and t: "c_target cfg = Some t"
  defines "csec \<equiv> get_or empty_camera_section (map_option fill_camera (c_camera cfg))"
    and "osec \<equiv> get_or empty_obstacle_section (c_obstacle cfg)"
  shows "\<exists>cams. make_from_config (configured_camera R g csec) (cs_location csec) (cs_random_range csec) = Inr cams
      \<and> length cams = num_configured (cs_location csec) (cs_random_range csec) \<and> (\<forall>cam \<in> set cams. camera_params_ok cam)"
    and "\<exists>ts. make_from_config (configured_target R g (fill_target t)) (ts_location t) (ts_random_range t) = Inr ts
      \<and> length ts = num_configured (ts_location t) (ts_random_range t)
      \<and> (\<forall>e \<in> set ts. target_ok e \<and> 0 < transport_product e)"
    and "\<exists>obs. make_from_config (configured_obstacle R g osec) (os_location osec) (os_random_range osec) = Inr obs
      \<and> length obs = num_configured (os_location osec) (os_random_range osec)"
proof -
  have acc: "config_acceptable cfg" using b by (simp add: config_buildable_def)
  show "\<exists>cams. make_from_config (configured_camera R g csec) (cs_location csec) (cs_random_range csec) = Inr cams
      \<and> length cams = num_configured (cs_location csec) (cs_random_range csec) \<and> (\<forall>cam \<in> set cams. camera_params_ok cam)"
  proof (rule make_from_config_ok)
    fix loc :: "vec option" and box :: "(vec \<times> vec) option"
    assume n: "0 < num_configured (cs_location csec) (cs_random_range csec)" and one: "(loc = None) \<noteq> (box = None)"
    obtain c where c: "c_camera cfg = Some c"
      using n by (cases "c_camera cfg") (simp_all add: csec_def empty_camera_section_def num_configured_def)
    have "camera_keys_ok (fill_camera c)" using acc c by (simp add: config_acceptable_def)
    moreover have "get_or DEFAULT_CAMERA_MIN_VIEWING_ANGLE (cs_min_viewing_angle (fill_camera c)) \<le> 180"
      "get_or DEFAULT_CAMERA_ROTATION_STEP (cs_rotation_step (fill_camera c)) \<le> 360"
      using b c by (simp_all add: config_buildable_def fill_camera_def)
    ultimately show "\<exists>e. configured_camera R g csec loc box = Inr e \<and> camera_params_ok e"
      using configured_camera_ok [OF R _ one] by (simp add: csec_def c)
  qed
  have keys: "target_keys_ok (fill_target t)" using acc t by (simp add: config_acceptable_def)
  show "\<exists>ts. make_from_config (configured_target R g (fill_target t)) (ts_location t) (ts_random_range t) = Inr ts
      \<and> length ts = num_configured (ts_location t) (ts_random_range t)
      \<and> (\<forall>e \<in> set ts. target_ok e \<and> 0 < transport_product e)"
    by (rule make_from_config_ok) (rule configured_target_ok [OF keys])
  have "\<exists>obs. make_from_config (configured_obstacle R g osec) (os_location osec) (os_random_range osec) = Inr obs
      \<and> length obs = num_configured (os_location osec) (os_random_range osec) \<and> (\<forall>e \<in> set obs. True)"
  proof (rule make_from_config_ok)
    fix loc :: "vec option" and box :: "(vec \<times> vec) option"
    assume n: "0 < num_configured (os_location osec) (os_random_range osec)" and one: "(loc = None) \<noteq> (box = None)"
    obtain ob where ob: "c_obstacle cfg = Some ob"
      using n by (cases "c_obstacle cfg") (simp_all add: osec_def empty_obstacle_section_def num_configured_def)
    have "obstacle_section_ok osec" using b n ob by (auto simp: config_buildable_def osec_def)
    from configured_obstacle_ok [OF R this one]
    show "\<exists>e. configured_obstacle R g osec loc box = Inr e \<and> True" by simp
  qed
  then show "\<exists>obs. make_from_config (configured_obstacle R g osec) (os_location osec) (os_random_range osec) = Inr obs
      \<and> length obs = num_configured (os_location osec) (os_random_range osec)" by blast
qed

lemma new_env_result:
  fixes R :: "'g rng"
  assumes R: "rng_ok R" and b: "config_buildable cfg"
  obtains sp t n and s :: "('g, 'm) env" where "new_env R seeding cfg = Inr (sp, s)" "env_setup s" "c_target cfg = Some t"
    "num_targets s = num_configured (ts_location t) (ts_random_range t)"
    "c_num_cargoes_per_target cfg = Some n" "int (cargoes_per_target (settings s)) = n"
    "max_episode_steps (settings s) = get_or 10000 (c_max_episode_steps cfg)"
    "freight_scale s = \<lceil>TERRAIN_WIDTH / get_or DEFAULT_TARGET_STEP_SIZE (ts_step_size t)\<rceil>"
    "bounty_scale s = \<lceil>of_int (freight_scale s) * get_or 1 (c_bounty_factor cfg)\<rceil>"
    "length (camera_joint_action_space sp) = num_cameras s"
    "length (target_joint_action_space sp) = num_targets s"
    "num_cameras s = (case c_camera cfg of None \<Rightarrow> 0 | Some c \<Rightarrow> num_configured (cs_location c) (cs_random_range c))"
    "num_obstacles s = (case c_obstacle cfg of None \<Rightarrow> 0 | Some ob \<Rightarrow> num_configured (os_location ob) (os_random_range ob))"
proof -
  have acc: "config_acceptable cfg" using b by (simp add: config_buildable_def)
  obtain t where t: "c_target cfg = Some t" "target_keys_ok t" using acc by (auto simp: config_acceptable_def)
  obtain n where n: "c_num_cargoes_per_target cfg = Some n" "4 \<le> n" using acc by (auto simp: config_acceptable_def)
  define csec where "csec = get_or empty_camera_section (map_option fill_camera (c_camera cfg))"
  define osec where "osec = get_or empty_obstacle_section (c_obstacle cfg)"
  define cfg' where "cfg' = (fill_defaults cfg)\<lparr>c_camera := Some csec, c_obstacle := Some osec\<rparr>"
  define g where "g = fst (seeding (Some 0))"
  note B = entities_built [OF R b t(1), of g, folded csec_def osec_def]
  obtain cams where cams: "make_from_config (configured_camera R g csec) (cs_location csec) (cs_random_range csec) = Inr cams"
    "\<forall>cam \<in> set cams. camera_params_ok cam" "length cams = num_configured (cs_location csec) (cs_random_range csec)"
    using B(1) by blast
  obtain ts where ts: "make_from_config (configured_target R g (fill_target t)) (ts_location t) (ts_random_range t) = Inr ts"
    "length ts = num_configured (ts_location t) (ts_random_range t)"
    "\<forall>e \<in> set ts. target_ok e \<and> 0 < transport_product e" using B(2) by blast
  obtain obs where obs: "make_from_config (configured_obstacle R g osec) (os_location osec) (os_random_range osec) = Inr obs"
    "length obs = num_configured (os_location osec) (os_random_range osec)"
    using B(3) by blast
  let ?step = "get_or DEFAULT_TARGET_STEP_SIZE (ts_step_size t)"
  let ?f = "\<lceil>TERRAIN_WIDTH / ?step\<rceil>" and ?b = "\<lceil>of_int \<lceil>TERRAIN_WIDTH / ?step\<rceil> * cfg_bounty_factor cfg'\<rceil>"
  define st where "st = \<lparr>max_episode_steps = get_or 10000 (c_max_episode_steps cfg),
      sparse_reward = (get_or ''dense'' (c_reward_type cfg) = ''sparse''),
      cargoes_per_target = nat n, start_loaded = cfg_targets_start_with_cargoes cfg',
      clear_transmittance = cfg_obstacle_transmittance cfg', shuffle_entities = cfg_shuffle_entities cfg',
      num_high_capacity = cfg_num_high_capacity_targets (length ts) cfg', target_step_size = ?step\<rparr>"
  have sel: "c_camera cfg' = Some csec" "c_obstacle cfg' = Some osec" "c_target cfg' = Some (fill_target t)"
    "c_num_cargoes_per_target cfg' = Some n" "c_max_episode_steps cfg' = Some (get_or 10000 (c_max_episode_steps cfg))"
    "c_reward_type cfg' = Some (get_or ''dense'' (c_reward_type cfg))"
    "c_bounty_factor cfg' = Some (get_or 1 (c_bounty_factor cfg))"
    by (simp_all add: cfg'_def fill_defaults_def t n)
  have tsec: "ts_location (fill_target t) = ts_location t" "ts_random_range (fill_target t) = ts_random_range t"
    "ts_step_size (fill_target t) = Some ?step" by (simp_all add: fill_target_def)
  have nz: "0 < length ts" using ts(2) t(2) by (simp add: target_keys_ok_def)
  define s0 :: "('g, 'm) env" where "s0 = fresh_env g st ?f ?b cams ts obs"
  have run: "new_env R seeding cfg = Inr (spaces_of cams ts (length obs), snd (env_seed R seeding (Some 0) s0))"
    using nz n(2)
    by (simp add: new_env_def read_config_eq [OF acc, folded csec_def osec_def, folded cfg'_def] sel tsec cams(1)
        ts(1) obs(1) g_def [symmetric] cfg_num_cargoes_per_target_def cfg_target_step_size_def
        cfg_max_episode_steps_def check_def NUM_WAREHOUSES_def s0_def st_def Let_def)
  have "0 < ?step" using t(2) by (simp add: target_keys_ok_def positive_or_def)
  then have f: "0 < ?f" by (simp add: terrain_defs)
  moreover have "0 \<le> ?b"
  proof -
    have "0 \<le> of_int ?f * cfg_bounty_factor cfg'"
      using f by (intro mult_nonneg_nonneg) (simp_all add: cfg_bounty_factor_def)
    then show ?thesis by linarith
  qed
  ultimately have set0: "env_setup s0"
    unfolding s0_def using cams(2) ts(3) nz n(2) by (intro fresh_env_setup) (simp_all add: st_def cfg_num_high_le)
  have n0: "num_targets s0 = length ts" "num_cameras s0 = length cams" "settings s0 = st"
    "freight_scale s0 = ?f" "bounty_scale s0 = ?b"
    by (simp_all add: s0_def fresh_env_def Let_def num_targets_def num_cameras_def)
  have no: "num_obstacles (snd (env_seed R seeding (Some 0) s0)) = length obs"
    using env_seed_obstacles [of R seeding "Some 0" s0] by (simp add: s0_def fresh_env_def Let_def num_obstacles_def)
  have counts: "length cams = (case c_camera cfg of None \<Rightarrow> 0 | Some c \<Rightarrow> num_configured (cs_location c) (cs_random_range c))"
    "length obs = (case c_obstacle cfg of None \<Rightarrow> 0 | Some ob \<Rightarrow> num_configured (os_location ob) (os_random_range ob))"
    unfolding cams(3) obs(2)
    by (simp_all add: csec_def osec_def empty_camera_section_def empty_obstacle_section_def num_configured_def fill_camera_def
        split: option.split)
  have bf: "cfg_bounty_factor cfg' = get_or 1 (c_bounty_factor cfg)"
    using acc acceptable_get_or(4) [of "c_bounty_factor cfg"]
    by (simp add: cfg_bounty_factor_def sel config_acceptable_def)
  show thesis
    by (rule that [OF run env_seed_setup(1) [OF set0] t(1) _ n(1)])
      (use n(2) ts(2) no counts in \<open>simp_all add: env_seed_setup(2-4) [OF set0] env_seed_scales n0 st_def bf spaces_of_def Let_def\<close>)
qed

text \<open>C10: the constructor succeeds on every configuration that validation accepts and whose viewing
  angles, rotation steps and obstacle radii the entities accept, and leaves an environment from which
  a reset can start: one target per configured place, the number of cargoes and steps of the
  configuration (with defaults), and positive reward scales: the steps a target needs to cross the
  terrain, and the bounty factor of that, both rounded up.\<close>

theorem new_env_ready:
  assumes "rng_ok R" and "config_buildable cfg"
  shows "\<exists>sp s t n. new_env R seeding cfg = Inr (sp, s) \<and> env_setup s \<and> c_target cfg = Some t
    \<and> num_targets s = num_configured (ts_location t) (ts_random_range t)
    \<and> c_num_cargoes_per_target cfg = Some n \<and> int (cargoes_per_target (settings s)) = n
    \<and> max_episode_steps (settings s) = get_or 10000 (c_max_episode_steps cfg)
    \<and> freight_scale s = \<lceil>TERRAIN_WIDTH / get_or DEFAULT_TARGET_STEP_SIZE (ts_step_size t)\<rceil>
    \<and> bounty_scale s = \<lceil>of_int (freight_scale s) * get_or 1 (c_bounty_factor cfg)\<rceil>
    \<and> length (camera_joint_action_space sp) = num_cameras s
    \<and> length (target_joint_action_space sp) = num_targets s"
  by (rule new_env_result [OF assms, of seeding]) blast

lemma small_config_buildable: "config_buildable small_config"
  using small_config_acceptable
  by (simp add: config_buildable_def) (simp add: small_config_def empty_camera_section_def default_defs)

theorem new_env_ready_witness:
  "\<exists>sp s. new_env counter_rng (\<lambda>_. (0, 0)) small_config = Inr (sp, s) \<and> env_setup s \<and> num_targets s = 1
     \<and> freight_scale s = 200"
proof -
  obtain t where t: "c_target small_config = Some t" "ts_location t = Some [(0, 0)]" "ts_random_range t = None"
    "ts_step_size t = None" by (simp add: small_config_def)
  from new_env_ready [OF counter_rng_ok small_config_buildable, of "\<lambda>_. (0, 0)"] t show ?thesis
    by (auto simp: num_configured_def default_defs terrain_defs)
qed

end
