(* ===== verification/ConfigFiles.thy ===== *)
theory ConfigFiles
  imports Config "HOL-Library.AList" "HOL-Library.Product_Lexorder" "HOL-Library.List_Lexorder" "HOL-Library.Char_ord"
begin

text \<open>
  Finding and merging configurations in \<^verbatim>\<open>mate/environment.py\<close>: the edit distance that ranks the
  suggestions of \<open>_did_you_mean\<close>, the merge \<open>_deep_update\<close> of a configuration with keyword arguments,
  and the search for the file in \<open>read_config\<close>. The file system and the JSON and YAML parsers are a
  record of functions, an argument of the definitions.
\<close>

subsection \<open>The edit distance\<close>

text \<open>The table is a dict from pairs to numbers, filled row by row.\<close>

type_synonym table = "nat \<times> nat \<Rightarrow> nat option"

definition initial_table :: "'a list \<Rightarrow> 'a list \<Rightarrow> table" where
  "initial_table str1 str2 =
     (\<lambda>(i, j). if i = 0 \<and> j \<le> length str2 then Some j
                else if j = 0 \<and> i \<le> length str1 then Some i else None)"

definition fill_cell :: "'a list \<Rightarrow> 'a list \<Rightarrow> nat \<times> nat \<Rightarrow> table \<Rightarrow> table" where
  "fill_cell str1 str2 = (\<lambda>(i, j) dis. dis((i, j) \<mapsto>
     min (min (the (dis (i - 1, j - 1)) + (if str1 ! (i - 1) \<noteq> str2 ! (j - 1) then 1 else 0))
              (the (dis (i - 1, j)) + 1))
         (the (dis (i, j - 1)) + 1)))"

definition edit_distance :: "'a list \<Rightarrow> 'a list \<Rightarrow> nat" where
  "edit_distance str1 str2 =
     the (fold (fill_cell str1 str2) (List.product [1..<length str1 + 1] [1..<length str2 + 1])
            (initial_table str1 str2) (length str1, length str2))"

text \<open>The recursion the table solves.\<close>

fun lev :: "'a list \<Rightarrow> 'a list \<Rightarrow> nat \<Rightarrow> nat \<Rightarrow> nat" where
  "lev s t 0 j = j"
| "lev s t (Suc i) 0 = Suc i"
| "lev s t (Suc i) (Suc j) =
     min (min (lev s t i j + (if s ! i \<noteq> t ! j then 1 else 0)) (lev s t i (Suc j) + 1)) (lev s t (Suc i) j + 1)"

lemma lev_0 [simp]: "lev s t i 0 = i"
  by (cases i) simp_all

lemma fold_product: "fold f (List.product xs ys) s = fold (\<lambda>x. fold (\<lambda>y. f (x, y)) ys) xs s"
  by (induction xs arbitrary: s) (simp_all add: fold_map comp_def)

lemma fill_row:
  assumes "\<And>j. j \<le> length t \<Longrightarrow> dis (i, j) = Some (lev s t i j)" and "dis (Suc i, 0) = Some (Suc i)"
    and "n \<le> length t"
  shows "(\<forall>j \<le> n. fold (\<lambda>j. fill_cell s t (Suc i, j)) [1..<n + 1] dis (Suc i, j) = Some (lev s t (Suc i) j))
    \<and> (\<forall>k j. k \<noteq> Suc i \<longrightarrow> fold (\<lambda>j. fill_cell s t (Suc i, j)) [1..<n + 1] dis (k, j) = dis (k, j))"
  using assms(3)
proof (induction n)
  case 0
  then show ?case using assms(2) by simp
next
  case (Suc n)
  let ?d = "fold (\<lambda>j. fill_cell s t (Suc i, j)) [1..<n + 1] dis"
  have IH: "\<And>j. j \<le> n \<Longrightarrow> ?d (Suc i, j) = Some (lev s t (Suc i) j)" "\<And>k j. k \<noteq> Suc i \<Longrightarrow> ?d (k, j) = dis (k, j)"
    using Suc by simp_all
  have next_row: "fold (\<lambda>j. fill_cell s t (Suc i, j)) [1..<Suc n + 1] dis = fill_cell s t (Suc i, Suc n) ?d" by simp
  have "?d (i, n) = Some (lev s t i n)" "?d (i, Suc n) = Some (lev s t i (Suc n))"
    "?d (Suc i, n) = Some (lev s t (Suc i) n)"
    using IH assms(1) Suc.prems by simp_all
  then have "fill_cell s t (Suc i, Suc n) ?d = ?d((Suc i, Suc n) \<mapsto> lev s t (Suc i) (Suc n))"
    by (simp add: fill_cell_def)
  then show ?case unfolding next_row using IH by (simp add: le_Suc_eq)
qed

lemma fill_rows:
  assumes "n \<le> length s"
  shows "(\<forall>i \<le> n. \<forall>j \<le> length t. fold (\<lambda>i. fold (\<lambda>j. fill_cell s t (i, j)) [1..<length t + 1]) [1..<n + 1]
        (initial_table s t) (i, j) = Some (lev s t i j))
    \<and> (\<forall>i j. n < i \<longrightarrow> fold (\<lambda>i. fold (\<lambda>j. fill_cell s t (i, j)) [1..<length t + 1]) [1..<n + 1]
        (initial_table s t) (i, j) = initial_table s t (i, j))"
  using assms
proof (induction n)
  case 0
  then show ?case by (simp add: initial_table_def)
next
  case (Suc n)
  let ?d = "fold (\<lambda>i. fold (\<lambda>j. fill_cell s t (i, j)) [1..<length t + 1]) [1..<n + 1] (initial_table s t)"
  have IH: "\<And>i j. i \<le> n \<Longrightarrow> j \<le> length t \<Longrightarrow> ?d (i, j) = Some (lev s t i j)"
    "\<And>i j. n < i \<Longrightarrow> ?d (i, j) = initial_table s t (i, j)"
    using Suc by simp_all
  have "?d (Suc n, 0) = Some (Suc n)" using IH(2) Suc.prems by (simp add: initial_table_def)
  note row = fill_row [where dis = ?d and i = n and s = s and t = t and n = "length t",
      OF IH(1) [OF order_refl] this order_refl]
  have step: "fold (\<lambda>i. fold (\<lambda>j. fill_cell s t (i, j)) [1..<length t + 1]) [1..<Suc n + 1] (initial_table s t)
      = fold (\<lambda>j. fill_cell s t (Suc n, j)) [1..<length t + 1] ?d" by simp
  show ?case
    unfolding step
  proof (intro conjI allI impI)
    show "fold (\<lambda>j. fill_cell s t (Suc n, j)) [1..<length t + 1] ?d (i, j) = Some (lev s t i j)"
      if "i \<le> Suc n" "j \<le> length t" for i j
      using row IH(1) that by (cases "i = Suc n") simp_all
    show "fold (\<lambda>j. fill_cell s t (Suc n, j)) [1..<length t + 1] ?d (i, j) = initial_table s t (i, j)"
      if "Suc n < i" for i j
      using row IH(2) that by simp
  qed
qed

lemma edit_distance_lev: "edit_distance s t = lev s t (length s) (length t)"
  unfolding edit_distance_def fold_product using fill_rows [of "length s" s t] by simp

text \<open>\<open>edits n s t\<close>: \<open>n\<close> insertions, deletions and replacements turn \<open>s\<close> into \<open>t\<close>.\<close>

inductive edits :: "nat \<Rightarrow> 'a list \<Rightarrow> 'a list \<Rightarrow> bool" where
  edits_none: "edits 0 [] []"
| edits_keep: "edits n s t \<Longrightarrow> edits n (s @ [c]) (t @ [c])"
| edits_replace: "edits n s t \<Longrightarrow> edits (Suc n) (s @ [c]) (t @ [d])"
| edits_insert: "edits n s t \<Longrightarrow> edits (Suc n) s (t @ [c])"
| edits_delete: "edits n s t \<Longrightarrow> edits (Suc n) (s @ [c]) t"

lemma lev_prefix: "i \<le> length s \<Longrightarrow> j \<le> length t \<Longrightarrow> lev (s @ u) (t @ v) i j = lev s t i j"
proof (induction s t i j rule: lev.induct)
  case (3 s t i j)
  then show ?case by (simp add: nth_append)
qed simp_all

lemma lev_lower: "edits n s t \<Longrightarrow> lev s t (length s) (length t) \<le> n"
proof (induction rule: edits.induct)
  case (edits_keep n s t c)
  then show ?case using lev_prefix [of "length s" s "length t" t "[c]" "[c]"] by (simp add: min.coboundedI1)
next
  case (edits_replace n s t c d)
  then show ?case using lev_prefix [of "length s" s "length t" t "[c]" "[d]"] by (simp add: min.coboundedI1)
next
  case (edits_insert n s t c)
  then show ?case
    using lev_prefix [of "length s" s "length t" t "[]" "[c]"] by (cases "length s") simp_all
next
  case (edits_delete n s t c)
  then show ?case
    using lev_prefix [of "length s" s "length t" t "[c]" "[]"] by (cases "length t") (simp_all add: min.coboundedI1)
qed simp

lemma lev_attained: "i \<le> length s \<Longrightarrow> j \<le> length t \<Longrightarrow> edits (lev s t i j) (take i s) (take j t)"
proof (induction s t i j rule: lev.induct)
  case (1 s t j)
  then show ?case
    by (induction j) (auto intro: edits_none edits_insert simp: take_Suc_conv_app_nth)
next
  case (2 s t i)
  have "edits n (take 0 s) [] \<Longrightarrow> k \<le> length s \<Longrightarrow> edits (n + k) (take k s) []" for n k
    by (induction k) (auto intro: edits_delete simp: take_Suc_conv_app_nth)
  from this [of 0 "Suc i"] 2 show ?case by (simp add: edits_none)
next
  case (3 s t i j)
  have s: "take (Suc i) s = take i s @ [s ! i]" and t: "take (Suc j) t = take j t @ [t ! j]"
    using 3 by (simp_all add: take_Suc_conv_app_nth)
  let ?a = "lev s t i j + (if s ! i \<noteq> t ! j then 1 else 0)"
  have a: "edits ?a (take (Suc i) s) (take (Suc j) t)"
    using 3 unfolding s t by (cases "s ! i = t ! j") (auto intro: edits_keep edits_replace)
  have b: "edits (lev s t i (Suc j) + 1) (take (Suc i) s) (take (Suc j) t)"
    using 3 edits_delete [of _ "take i s" "take (Suc j) t" "s ! i"] unfolding s by simp
  have c: "edits (lev s t (Suc i) j + 1) (take (Suc i) s) (take (Suc j) t)"
    using 3 edits_insert [of _ "take (Suc i) s" "take j t" "t ! j"] unfolding t by simp
  have "min (min x y) z \<in> {x, y, z}" for x y z :: nat by (auto simp: min_def)
  then have "lev s t (Suc i) (Suc j) \<in> {?a, lev s t i (Suc j) + 1, lev s t (Suc i) j + 1}"
    unfolding lev.simps by blast
  then show ?case using a b c by (elim insertE) (simp_all only: empty_iff)
qed

text \<open>C38: the table computes the edit distance: the least number of insertions, deletions and
  replacements of single characters that turn the first string into the second.\<close>

theorem edit_distance_least:
  "edits (edit_distance s t) s t \<and> (\<forall>n. edits n s t \<longrightarrow> edit_distance s t \<le> n)"
  unfolding edit_distance_lev using lev_attained [of "length s" s "length t" t] lev_lower [of _ s t] by simp

theorem edit_distance_least_witness:
  "edit_distance ''ab'' ''b'' \<le> 1"
proof -
  have "edits (Suc 0) ([] @ [CHR ''a'']) ([] :: char list)" by (intro edits_delete edits_none)
  then have "edits (Suc 0) (([] @ [CHR ''a'']) @ [CHR ''b'']) ([] @ [CHR ''b''])" by (rule edits_keep)
  with edit_distance_least [of "''ab''" "''b''"] show ?thesis by simp
qed

subsection \<open>Merging dicts\<close>

text \<open>A nested dict: keys in insertion order; \<open>AList.update\<close> is \<open>d[key] = value\<close>.\<close>

datatype 'v pyval = Plain 'v | Dict "(string \<times> 'v pyval) list"

fun deep_update :: "(string \<times> 'v pyval) list \<Rightarrow> (string \<times> 'v pyval) list \<Rightarrow> (string \<times> 'v pyval) list" where
  "deep_update dict1 [] = dict1"
| "deep_update dict1 ((k, Dict sub2) # rest) =
     (case map_of dict1 k of
        Some (Dict sub1) \<Rightarrow> deep_update (AList.update k (Dict (deep_update sub1 sub2)) dict1) rest
      | _ \<Rightarrow> deep_update (AList.update k (Dict sub2) dict1) rest)"
| "deep_update dict1 ((k, Plain v) # rest) = deep_update (AList.update k (Plain v) dict1) rest"

definition merge_value :: "'v pyval option \<Rightarrow> 'v pyval \<Rightarrow> 'v pyval" where
  "merge_value old new =
     (case (old, new) of (Some (Dict sub1), Dict sub2) \<Rightarrow> Dict (deep_update sub1 sub2) | _ \<Rightarrow> new)"

lemma deep_update_Cons:
  "deep_update dict1 ((k, v) # rest) = deep_update (AList.update k (merge_value (map_of dict1 k) v) dict1) rest"
  by (cases v) (auto simp: merge_value_def split: option.splits pyval.splits)

lemma map_of_deep_update:
  assumes "distinct (map fst dict2)"
  shows "map_of (deep_update dict1 dict2) k =
    (case map_of dict2 k of None \<Rightarrow> map_of dict1 k | Some v \<Rightarrow> Some (merge_value (map_of dict1 k) v))"
  using assms
proof (induction dict2 arbitrary: dict1)
  case Nil
  then show ?case by simp
next
  case (Cons kv rest)
  obtain k' v where kv: "kv = (k', v)" by (cases kv)
  have "map_of rest k' = None" using Cons.prems kv by (simp add: map_of_eq_None_iff)
  with Cons show ?case
    by (auto simp: kv deep_update_Cons update_conv' split: option.splits)
qed

text \<open>The value at the end of a path of keys.\<close>

fun at_path :: "(string \<times> 'v pyval) list \<Rightarrow> string list \<Rightarrow> 'v pyval option" where
  "at_path d [] = Some (Dict d)"
| "at_path d (k # ks) =
     (case map_of d k of
        Some (Dict sub) \<Rightarrow> at_path sub ks
      | Some (Plain v) \<Rightarrow> (if ks = [] then Some (Plain v) else None)
      | None \<Rightarrow> None)"

text \<open>Every dict in the tree has distinct keys, as a Python dict has.\<close>

fun keys_distinct :: "'v pyval \<Rightarrow> bool" where
  "keys_distinct (Plain v) = True"
| "keys_distinct (Dict d) = (distinct (map fst d) \<and> (\<forall>kv \<in> set d. keys_distinct (snd kv)))"

text \<open>Merging a configuration with overrides: a key missing from the overrides keeps its value, two
  dicts under the same key are merged recursively, anything else is replaced, and so every plain value
  of the overrides, however deep, is found at its path in the result.\<close>

lemma deep_update_correct:
  assumes "keys_distinct (Dict dict2)"
  shows "(\<forall>k. map_of (deep_update dict1 dict2) k =
      (case map_of dict2 k of None \<Rightarrow> map_of dict1 k | Some v \<Rightarrow> Some (merge_value (map_of dict1 k) v)))
    \<and> (\<forall>ks v. at_path dict2 ks = Some (Plain v) \<longrightarrow> at_path (deep_update dict1 dict2) ks = Some (Plain v))"
proof (intro conjI allI impI)
  show "map_of (deep_update dict1 dict2) k =
      (case map_of dict2 k of None \<Rightarrow> map_of dict1 k | Some v \<Rightarrow> Some (merge_value (map_of dict1 k) v))" for k
    using assms by (simp add: map_of_deep_update)
  show "at_path (deep_update dict1 dict2) ks = Some (Plain v)" if "at_path dict2 ks = Some (Plain v)" for ks v
    using that assms
  proof (induction ks arbitrary: dict1 dict2)
    case Nil
    then show ?case by simp
  next
    case (Cons k ks)
    have m: "map_of (deep_update dict1 dict2) k =
      (case map_of dict2 k of None \<Rightarrow> map_of dict1 k | Some v \<Rightarrow> Some (merge_value (map_of dict1 k) v))"
      using Cons.prems(2) by (simp add: map_of_deep_update)
    show ?case
    proof (cases "map_of dict2 k")
      case None
      then show ?thesis using Cons.prems(1) by simp
    next
      case (Some w)
      show ?thesis
      proof (cases w)
        case (Plain x)
        then show ?thesis
          using Cons.prems(1) Some m by (auto simp: merge_value_def split: if_splits option.splits pyval.splits)
      next
        case (Dict sub2)
        have "(k, Dict sub2) \<in> set dict2" using Some Dict map_of_SomeD by fastforce
        then have "keys_distinct (Dict sub2)"
          using Cons.prems(2) by (metis keys_distinct.simps(2) snd_conv)
        then have "at_path (deep_update sub1 sub2) ks = Some (Plain v)" for sub1
          using Cons.IH [of sub2] Cons.prems(1) Some Dict by simp
        moreover have "at_path sub2 ks = Some (Plain v)" using Cons.prems(1) Some Dict by simp
        ultimately show ?thesis
          using m Some Dict by (auto simp: merge_value_def split: option.splits pyval.splits)
      qed
    qed
  qed
qed

subsection \<open>Finding the file\<close>

record file_system =
  exists_path :: "string \<Rightarrow> bool"
  is_file :: "string \<Rightarrow> bool"
  current_dir :: string
  assets_dir :: string
  glob :: "string \<Rightarrow> string \<Rightarrow> string list"
  load_json :: "string \<Rightarrow> config"
  load_yaml :: "string \<Rightarrow> config"

definition path_join :: "string \<Rightarrow> string \<Rightarrow> string" where
  "path_join dir name = dir @ ''/'' @ name"

definition did_you_mean :: "file_system \<Rightarrow> string \<Rightarrow> string list" where
  "did_you_mean fs path =
     map (\<lambda>(dir, name). path_join dir name)
       (sort_key (\<lambda>(dir, name). (edit_distance name path, dir = assets_dir fs, name))
         (concat (map (\<lambda>(pattern, dir). map (\<lambda>name. (dir, name)) (glob fs dir pattern))
            (List.product [''*.yaml'', ''*.yml'', ''*.json''] [current_dir fs, assets_dir fs]))))"

text \<open>\<open>os.path.splitext(path)[1].lower()\<close>.\<close>

definition lower_char :: "char \<Rightarrow> char" where
  "lower_char c = (if 65 \<le> (of_char c :: nat) \<and> of_char c \<le> (90 :: nat) then char_of (of_char c + (32 :: nat)) else c)"

definition file_extension :: "string \<Rightarrow> string" where
  "file_extension path =
     (let name = rev (takeWhile (\<lambda>c. c \<noteq> CHR ''/'') (rev path));
          body = dropWhile (\<lambda>c. c = CHR ''.'') name;
          ext = rev (takeWhile (\<lambda>c. c \<noteq> CHR ''.'') (rev body))
      in if CHR ''.'' \<in> set body then map lower_char (CHR ''.'' # ext) else [])"

text \<open>The branch for a path: look beside the program and in the assets; the suggestion in the message of
  the first error is the first candidate, so with no candidate at all the error is an \<open>IndexError\<close>.\<close>

definition locate_config :: "file_system \<Rightarrow> string \<Rightarrow> string res" where
  "locate_config fs path =
     (if exists_path fs path then Inr path
      else case filter (is_file fs) [path_join (current_dir fs) path, path_join (assets_dir fs) path] of
             candidate # _ \<Rightarrow> Inr candidate
           | [] \<Rightarrow> (if did_you_mean fs path = [] then Inl IndexError else Inl ValueError))"

definition load_config_file :: "file_system \<Rightarrow> string \<Rightarrow> config res" where
  "load_config_file fs path =
     (if \<not> exists_path fs path then Inl ValueError
      else (let ext = file_extension path
            in if ext = ''.json'' then Inr (load_json fs path)
               else if ext = ''.yaml'' \<or> ext = ''.yml'' then Inr (load_yaml fs path)
               else Inl ValueError))"

definition read_config_path :: "file_system \<Rightarrow> string \<Rightarrow> config res" where
  "read_config_path fs path =
     bind_res (locate_config fs path) (\<lambda>p. bind_res (load_config_file fs p) read_config)"

lemma set_did_you_mean:
  "set (did_you_mean fs path) = {path_join dir name | dir name.
     dir \<in> {current_dir fs, assets_dir fs} \<and> (\<exists>pat \<in> {''*.yaml'', ''*.yml'', ''*.json''}. name \<in> set (glob fs dir pat))}"
  by (auto simp: did_you_mean_def)

end
