(* ===== verification/DiscreteActions.thy ===== *)
theory DiscreteActions
  imports Config Guarantees
begin

text \<open>
  \<^verbatim>\<open>mate/wrappers/discrete_action_spaces.py\<close>: the two wrappers that let the cameras or the targets
  choose from a square grid of actions. The grids are instances of one interface, \<open>action_grid\<close>: distinct
  directions in the unit box, one per index. For the cameras the grid is square; for the targets it is
  squeezed onto discs, so that no choice exceeds the step size. Agents are reset through the wrapper, which
  then reads the step sizes the targets have drawn. The joint action of the wrapped team is a list of
  integers, that of the other team is passed on as it is.
\<close>

subsection \<open>Grids\<close>

definition linspace :: "real \<Rightarrow> real \<Rightarrow> nat \<Rightarrow> real list" where
  "linspace start stop num = map (\<lambda>k. start + real k * ((stop - start) / (real num - 1))) [0..<num]"

text \<open>\<open>np.stack(np.meshgrid(xs, xs), axis=-1).reshape(-1, 2)\<close>: row by row, the first coordinate runs fastest.\<close>

definition mesh_points :: "real list \<Rightarrow> vec list" where
  "mesh_points xs = concat (map (\<lambda>y. map (\<lambda>x. (x, y)) xs) xs)"

definition levels_ok :: "nat \<Rightarrow> bool" where
  "levels_ok levels \<longleftrightarrow> 3 \<le> levels \<and> levels mod 2 = 1"

definition camera_action_grid :: "nat \<Rightarrow> vec list res" where
  "camera_action_grid levels =
     bind_res (check AssertionError (levels_ok levels)) (\<lambda>_. Inr (mesh_points (linspace (- 1) 1 levels)))"

definition squeeze :: "vec \<Rightarrow> vec" where
  "squeeze p =
     (let angle = arctan2 (snd p) (fst p);
          bound = 1 / cos (pi * (py_fmod (angle / pi + 1 / 4) (1 / 2) - 1 / 4))
      in (fst p / bound, snd p / bound))"

definition target_action_grid :: "nat \<Rightarrow> vec list res" where
  "target_action_grid levels =
     bind_res (check AssertionError (levels_ok levels)) (\<lambda>_.
       Inr (map squeeze (mesh_points (linspace (- 1) 1 levels))))"

definition nearest_grid_point :: "vec list \<Rightarrow> vec \<Rightarrow> nat" where
  "nearest_grid_point grid p = argmin (map (\<lambda>q. vnorm (vsub p q)) grid)"

definition indices_of_nearest_grid_point :: "vec list \<Rightarrow> vec list \<Rightarrow> nat list" where
  "indices_of_nearest_grid_point points grid = map (nearest_grid_point grid) points"

definition scale_by :: "vec \<Rightarrow> vec \<Rightarrow> vec" where
  "scale_by hi p = (fst hi * fst p, snd hi * snd p)"

definition flat :: "vec list \<Rightarrow> real list" where
  "flat rows = concat (map (\<lambda>p. [fst p, snd p]) rows)"

definition unflat :: "nat \<Rightarrow> real list \<Rightarrow> vec list res" where
  "unflat n xs = bind_res (reshape n 2 xs) (\<lambda>rows. Inr (map (\<lambda>row. (row ! 0, row ! 1)) rows))"

subsection \<open>The wrapper of the cameras\<close>

record discrete_camera =
  dc_levels :: nat
  dc_agents :: nat
  dc_high :: vec
  dc_grid :: "vec list"

definition new_discrete_camera :: "config \<Rightarrow> ('g, 'm) env \<Rightarrow> nat \<Rightarrow> discrete_camera res" where
  "new_discrete_camera cfg s levels =
     bind_res (check AssertionError (levels_ok levels)) (\<lambda>_.
     bind_res (check AssertionError (0 < num_cameras s)) (\<lambda>_.
     bind_res (cfg_camera_rotation_step cfg) (\<lambda>rot.
     bind_res (cfg_camera_zooming_step cfg) (\<lambda>zoom.
     bind_res (camera_action_grid levels) (\<lambda>grid.
       Inr \<lparr>dc_levels = levels, dc_agents = num_cameras s, dc_high = (rot, zoom), dc_grid = grid\<rparr>)))))"

text \<open>\<open>joint_action_space.contains\<close> of a tuple of \<open>Discrete(levels * levels)\<close>.\<close>

definition joint_contains :: "nat \<Rightarrow> nat \<Rightarrow> int list \<Rightarrow> bool" where
  "joint_contains agents levels joint \<longleftrightarrow>
     length joint = agents \<and> list_all (\<lambda>a. 0 \<le> a \<and> a < int (levels * levels)) joint"

definition camera_action :: "discrete_camera \<Rightarrow> int list \<Rightarrow> vec list res" where
  "camera_action w joint =
     bind_res (check AssertionError (joint_contains (dc_agents w) (dc_levels w) joint)) (\<lambda>_.
       Inr (map (\<lambda>a. scale_by (dc_high w) (dc_grid w ! nat a)) joint))"

definition camera_reverse_action :: "discrete_camera \<Rightarrow> real list \<Rightarrow> nat list res" where
  "camera_reverse_action w points =
     bind_res (unflat (dc_agents w) points) (\<lambda>rows.
       Inr (indices_of_nearest_grid_point
              (map (\<lambda>p. (fst p / fst (dc_high w), snd p / snd (dc_high w))) rows) (dc_grid w)))"

text \<open>\<open>gym.ActionWrapper.step\<close>: a step of the wrapped environment on the converted action.\<close>

definition discrete_camera_step ::
  "'g rng \<Rightarrow> interp \<Rightarrow> (nat list \<Rightarrow> nat list) \<Rightarrow> discrete_camera \<Rightarrow> int list \<times> real list \<Rightarrow> ('g, 'm) env
    \<Rightarrow> ('m step_result \<times> ('g, 'm) env) res" where
  "discrete_camera_step R interp1d order w action s =
     bind_res (camera_action w (fst action)) (\<lambda>rows. step R interp1d order (flat rows, snd action) s)"

subsection \<open>The wrapper of the targets\<close>

record discrete_target =
  dt_levels :: nat
  dt_agents :: nat
  dt_high :: "vec list"
  dt_grid :: "vec list"

definition new_discrete_target :: "config \<Rightarrow> ('g, 'm) env \<Rightarrow> nat \<Rightarrow> discrete_target res" where
  "new_discrete_target cfg s levels =
     bind_res (check AssertionError (levels_ok levels)) (\<lambda>_.
     bind_res (cfg_target_step_size cfg) (\<lambda>size.
     bind_res (target_action_grid levels) (\<lambda>grid.
       Inr \<lparr>dt_levels = levels, dt_agents = num_targets s,
            dt_high = replicate (num_targets s) (size, size), dt_grid = grid\<rparr>)))"

text \<open>\<open>reset\<close>: the step sizes the targets have after the reset of the environment.\<close>

definition read_step_sizes :: "('g, 'm) env \<Rightarrow> discrete_target \<Rightarrow> discrete_target" where
  "read_step_sizes s w = w\<lparr>dt_high := map (\<lambda>t. (step_size t, step_size t)) (targets s)\<rparr>"

definition discrete_target_reset ::
  "'g rng \<Rightarrow> (int option \<Rightarrow> 'g \<times> int) \<Rightarrow> interp \<Rightarrow> (nat list \<Rightarrow> nat list) \<Rightarrow> int option \<Rightarrow> discrete_target
    \<Rightarrow> ('g, 'm) env \<Rightarrow> ((real list list \<times> real list list) \<times> discrete_target \<times> ('g, 'm) env) res option" where
  "discrete_target_reset R seeding interp1d order seed w s =
     map_option (\<lambda>res. bind_res res (\<lambda>(obs, s'). Inr (obs, read_step_sizes s' w, s')))
       (reset R seeding interp1d order seed s)"

definition target_action :: "discrete_target \<Rightarrow> int list \<Rightarrow> vec list res" where
  "target_action w joint =
     bind_res (check AssertionError (joint_contains (dt_agents w) (dt_levels w) joint)) (\<lambda>_.
       Inr (map2 (\<lambda>hi a. scale_by hi (dt_grid w ! nat a)) (dt_high w) joint))"

text \<open>\<open>reverse_action\<close> calls the tuple \<open>shape\<close> where \<open>reshape\<close> is meant.\<close>

definition target_reverse_action :: "discrete_target \<Rightarrow> real list \<Rightarrow> nat list res" where
  "target_reverse_action w points = Inl TypeError"

definition discrete_target_step ::
  "'g rng \<Rightarrow> interp \<Rightarrow> (nat list \<Rightarrow> nat list) \<Rightarrow> discrete_target \<Rightarrow> real list \<times> int list \<Rightarrow> ('g, 'm) env
    \<Rightarrow> ('m step_result \<times> ('g, 'm) env) res" where
  "discrete_target_step R interp1d order w action s =
     bind_res (target_action w (snd action)) (\<lambda>rows. step R interp1d order (fst action, flat rows) s)"

subsection \<open>What the wrappers need of a grid\<close>

lemma nearest_grid_point_least:
  assumes "grid \<noteq> []"
  shows "nearest_grid_point grid p < length grid"
    and "q \<in> set grid \<Longrightarrow> vnorm (vsub p (grid ! nearest_grid_point grid p)) \<le> vnorm (vsub p q)"
proof -
  let ?d = "map (\<lambda>q. vnorm (vsub p q)) grid"
  have ne: "?d \<noteq> []" using assms by simp
  show lt: "nearest_grid_point grid p < length grid"
    using argmin_least(1) [OF ne] by (simp add: nearest_grid_point_def)
  have "vnorm (vsub p (grid ! nearest_grid_point grid p)) = Min (set ?d)"
    using argmin_least(2) [OF ne] lt by (simp add: nearest_grid_point_def)
  then show "vnorm (vsub p (grid ! nearest_grid_point grid p)) \<le> vnorm (vsub p q)" if "q \<in> set grid"
    using that by simp
qed

locale action_grid =
  fixes mk :: "nat \<Rightarrow> vec list res"
  assumes refused: "\<not> levels_ok levels \<Longrightarrow> mk levels = Inl AssertionError"
    and made: "levels_ok levels \<Longrightarrow> \<exists>grid. mk levels = Inr grid"
    and size: "mk levels = Inr grid \<Longrightarrow> length grid = levels * levels"
    and apart: "mk levels = Inr grid \<Longrightarrow> distinct grid"
    and in_box: "mk levels = Inr grid \<Longrightarrow> p \<in> set grid \<Longrightarrow> \<bar>fst p\<bar> \<le> 1 \<and> \<bar>snd p\<bar> \<le> 1"
begin

lemma nonempty: "mk levels = Inr grid \<Longrightarrow> grid \<noteq> []"
  using size [of levels grid] refused [of levels] by (cases "levels_ok levels") (auto simp: levels_ok_def)

text \<open>A grid point is its own nearest grid point.\<close>

lemma nearest_own:
  assumes "mk levels = Inr grid" and "i < levels * levels"
  shows "nearest_grid_point grid (grid ! i) = i"
proof -
  let ?k = "nearest_grid_point grid (grid ! i)"
  have i: "i < length grid" using assms size by simp
  have "vnorm (vsub (grid ! i) (grid ! ?k)) \<le> vnorm (vsub (grid ! i) (grid ! i))"
    using nearest_grid_point_least(2) [OF nonempty [OF assms(1)]] i by simp
  moreover have "vsub p p = (0, 0)" for p by (simp add: vsub_def)
  ultimately have "vsub (grid ! i) (grid ! ?k) = (0, 0)"
    using vnorm_nonneg [of "vsub (grid ! i) (grid ! ?k)"] vnorm_eq_0 by (metis order_antisym vnorm_zero)
  then have "grid ! ?k = grid ! i" by (simp add: vsub_def prod_eq_iff)
  then show ?thesis
    using apart [OF assms(1)] nearest_grid_point_least(1) [OF nonempty [OF assms(1)]] i nth_eq_iff_index_eq by blast
qed

lemma scaled_within:
  assumes "mk levels = Inr grid" and "i < levels * levels" and "0 \<le> fst hi" and "0 \<le> snd hi"
  shows "\<bar>fst (scale_by hi (grid ! i))\<bar> \<le> fst hi \<and> \<bar>snd (scale_by hi (grid ! i))\<bar> \<le> snd hi"
  using in_box [OF assms(1), of "grid ! i"] size [OF assms(1)] assms(2-4)
  by (simp add: scale_by_def abs_mult mult_left_le)

end

subsection \<open>The two grids\<close>

lemma linspace_in_unit:
  assumes "levels_ok levels" and "x \<in> set (linspace (- 1) 1 levels)"
  shows "\<bar>x\<bar> \<le> 1"
proof -
  obtain k where k: "k < levels" "x = - 1 + real k * (2 / (real levels - 1))"
    using assms(2) by (auto simp: linspace_def)
  have "0 < real levels - 1" "real k \<le> real levels - 1" using assms(1) k(1) by (simp_all add: levels_ok_def)
  then have "- 1 \<le> x" "x \<le> 1" by (simp_all add: k(2) field_simps)
  then show ?thesis by (simp add: abs_le_iff)
qed

lemma linspace_distinct:
  assumes "levels_ok levels"
  shows "distinct (linspace (- 1) 1 levels)"
proof -
  have "0 < real levels - 1" using assms by (simp add: levels_ok_def)
  then show ?thesis by (auto simp: linspace_def distinct_map inj_on_def)
qed

lemma length_linspace [simp]: "length (linspace a b n) = n"
  by (simp add: linspace_def)

lemma mesh_points_product: "mesh_points xs = map (\<lambda>(y, x). (x, y)) (List.product xs xs)"
proof -
  have "concat (map (\<lambda>y. map (\<lambda>x. (x, y)) xs) ys) = map (\<lambda>(y, x). (x, y)) (List.product ys xs)" for ys
    by (induction ys) simp_all
  then show ?thesis by (simp add: mesh_points_def)
qed

lemma mesh_points_facts:
  "length (mesh_points xs) = length xs * length xs"
  "set (mesh_points xs) = set xs \<times> set xs"
  "distinct xs \<Longrightarrow> distinct (mesh_points xs)"
  by (auto simp: mesh_points_product distinct_map distinct_product inj_on_def)

text \<open>The direction angle, brought within an eighth of a turn of the nearest axis, has the larger of the
  two coordinates as its cosine.\<close>

lemma quarter_turns_cos: "cos (a - pi / 2 * of_int k) \<in> {cos a, - cos a, sin a, - sin a}"
proof (cases "even k")
  case True
  then obtain j where "k = 2 * j" by blast
  then have "pi / 2 * of_int k = pi * of_int j" by simp
  then show ?thesis by (auto simp: cos_diff sin_npi_int cos_npi_int)
next
  case False
  then obtain j where "k = 2 * j + 1" by (auto elim: oddE)
  then have e: "pi / 2 * of_int k = pi * of_int j + pi / 2" by (simp add: algebra_simps)
  have "cos (pi / 2 * of_int k) = 0" "sin (pi / 2 * of_int k) = cos (pi * of_int j)"
    unfolding e by (simp_all add: cos_add sin_add sin_npi_int)
  then show ?thesis unfolding cos_diff by (auto simp: cos_npi_int)
qed

lemma bound_cos:
  "cos (pi * (py_fmod (a / pi + 1 / 4) (1 / 2) - 1 / 4)) = max \<bar>cos a\<bar> \<bar>sin a\<bar>"
proof -
  define b where "b = pi * (py_fmod (a / pi + 1 / 4) (1 / 2) - 1 / 4)"
  have r: "0 \<le> py_fmod (a / pi + 1 / 4) (1 / 2)" "py_fmod (a / pi + 1 / 4) (1 / 2) \<le> 1 / 2"
    using py_fmod_bounds [of "1 / 2" "a / pi + 1 / 4"] by auto
  have "b \<le> pi * (1 / 4)" "pi * (- (1 / 4)) \<le> b"
    unfolding b_def using r by (intro mult_left_mono; simp)+
  then have "cos (pi / 4) \<le> cos \<bar>b\<bar>" by (intro cos_monotone_0_pi_le) auto
  then have pos: "sqrt 2 / 2 \<le> cos b" by (simp add: cos_45)
  moreover have "(sqrt 2 / 2)\<^sup>2 = (1 / 2 :: real)" by (simp add: power_divide)
  ultimately have big: "1 / 2 \<le> (cos b)\<^sup>2" by (metis power_mono real_sqrt_ge_zero divide_nonneg_nonneg zero_le_numeral)
  have "b = a - pi / 2 * of_int \<lfloor>(a / pi + 1 / 4) / (1 / 2)\<rfloor>"
    by (simp add: b_def py_fmod_def algebra_simps)
  then have c: "cos b \<in> {cos a, - cos a, sin a, - sin a}" using quarter_turns_cos by metis
  have p: "0 < cos b" using pos by (meson divide_pos_pos less_le_trans real_sqrt_gt_zero zero_less_numeral)
  have sq: "(cos a)\<^sup>2 + (sin a)\<^sup>2 = 1" by simp
  have "\<bar>cos a\<bar> = cos b \<and> \<bar>sin a\<bar> \<le> cos b \<or> \<bar>sin a\<bar> = cos b \<and> \<bar>cos a\<bar> \<le> cos b"
  proof (cases "cos b \<in> {cos a, - cos a}")
    case True
    then have e: "\<bar>cos a\<bar> = cos b" using p by auto
    then have "(cos a)\<^sup>2 = (cos b)\<^sup>2" by (metis power2_abs)
    then have "(sin a)\<^sup>2 \<le> (cos b)\<^sup>2" using big sq by linarith
    then have "\<bar>sin a\<bar> \<le> cos b" using p abs_le_square_iff [of "sin a" "cos b"] by simp
    with e show ?thesis by blast
  next
    case False
    then have e: "\<bar>sin a\<bar> = cos b" using c p by auto
    then have "(sin a)\<^sup>2 = (cos b)\<^sup>2" by (metis power2_abs)
    then have "(cos a)\<^sup>2 \<le> (cos b)\<^sup>2" using big sq by linarith
    then have "\<bar>cos a\<bar> \<le> cos b" using p abs_le_square_iff [of "cos a" "cos b"] by simp
    with e show ?thesis by blast
  qed
  then show ?thesis by (auto simp: b_def)
qed

text \<open>Squeezing keeps the direction and makes the larger coordinate the norm.\<close>

lemma squeeze_norm:
  "\<exists>c. 0 \<le> c \<and> c \<le> 1 \<and> squeeze p = vscale c p \<and> vnorm (squeeze p) = max \<bar>fst p\<bar> \<bar>snd p\<bar>"
proof -
  define a where "a = arctan2 (snd p) (fst p)"
  define c where "c = max \<bar>cos a\<bar> \<bar>sin a\<bar>"
  have c: "0 \<le> c" "c \<le> 1" by (auto simp: c_def)
  have polar: "fst p = vnorm p * cos a" "snd p = vnorm p * sin a"
    using arctan2_polar [of "fst p" "snd p"] by (simp_all add: a_def vnorm_def)
  have "squeeze p = (fst p * c, snd p * c)"
    by (simp add: squeeze_def Let_def bound_cos flip: a_def c_def)
  then have sq: "squeeze p = vscale c p" by (simp add: vscale_def mult.commute)
  have "vnorm (squeeze p) = vnorm p * c" unfolding sq using c vnorm_vscale [of c p] by (simp add: mult.commute)
  also have "\<dots> = max \<bar>fst p\<bar> \<bar>snd p\<bar>"
    unfolding c_def polar [of] abs_mult by (simp add: vnorm_nonneg max_mult_distrib_left)
  finally show ?thesis using sq c by blast
qed

lemma squeeze_inj: "inj_on squeeze A"
proof (rule inj_onI)
  fix p q assume e: "squeeze p = squeeze q"
  obtain c where c: "0 \<le> c" "squeeze p = vscale c p" "vnorm (squeeze p) = max \<bar>fst p\<bar> \<bar>snd p\<bar>"
    using squeeze_norm by blast
  obtain d where d: "0 \<le> d" "squeeze q = vscale d q" "vnorm (squeeze q) = max \<bar>fst q\<bar> \<bar>snd q\<bar>"
    using squeeze_norm by blast
  let ?m = "max \<bar>fst p\<bar> \<bar>snd p\<bar>"
  have m: "max \<bar>fst q\<bar> \<bar>snd q\<bar> = ?m" using c d e by simp
  have eq: "c * fst p = d * fst q" "c * snd p = d * snd q" using c d e by (simp_all add: vscale_def)
  show "p = q"
  proof (cases "?m = 0")
    case True
    then show ?thesis using m by (auto simp: prod_eq_iff max_def split: if_splits)
  next
    case False
    then have pos: "0 < ?m" by (auto simp: max_def)
    have "c * ?m = max \<bar>c * fst p\<bar> \<bar>c * snd p\<bar>" using c by (simp add: abs_mult max_mult_distrib_left)
    also have "\<dots> = d * ?m" unfolding eq m [symmetric] using d by (simp add: abs_mult max_mult_distrib_left)
    finally have "c = d" using pos by simp
    moreover have "c \<noteq> 0"
      using c pos by (auto simp: vscale_def)
    ultimately show ?thesis using eq by (simp add: prod_eq_iff)
  qed
qed

interpretation camera_grid: action_grid camera_action_grid
proof unfold_locales
  fix levels grid p
  show "\<not> levels_ok levels \<Longrightarrow> camera_action_grid levels = Inl AssertionError"
    "levels_ok levels \<Longrightarrow> \<exists>grid. camera_action_grid levels = Inr grid"
    by (simp_all add: camera_action_grid_def check_def)
  assume "camera_action_grid levels = Inr grid"
  then have g: "levels_ok levels" "grid = mesh_points (linspace (- 1) 1 levels)"
    by (auto simp: camera_action_grid_def check_def split: if_splits)
  show "length grid = levels * levels" "distinct grid"
    using linspace_distinct g(1) by (simp_all add: g(2) mesh_points_facts)
  show "p \<in> set grid \<Longrightarrow> \<bar>fst p\<bar> \<le> 1 \<and> \<bar>snd p\<bar> \<le> 1"
    using linspace_in_unit [OF g(1)] by (auto simp: g(2) mesh_points_facts)
qed

lemma target_grid_points:
  assumes "target_action_grid levels = Inr grid" and "i < levels * levels"
  shows "\<exists>p. \<bar>fst p\<bar> \<le> 1 \<and> \<bar>snd p\<bar> \<le> 1 \<and> grid ! i = squeeze p \<and> vnorm (grid ! i) \<le> 1"
proof -
  let ?ps = "mesh_points (linspace (- 1) 1 levels)"
  have g: "levels_ok levels" "grid = map squeeze ?ps"
    using assms(1) by (auto simp: target_action_grid_def check_def split: if_splits)
  have i: "i < length ?ps" using assms(2) by (simp add: mesh_points_facts)
  then have "?ps ! i \<in> set ?ps" by (rule nth_mem)
  then have box: "\<bar>fst (?ps ! i)\<bar> \<le> 1" "\<bar>snd (?ps ! i)\<bar> \<le> 1"
    using linspace_in_unit [OF g(1)] by (auto simp: mesh_points_facts)
  have "vnorm (squeeze (?ps ! i)) = max \<bar>fst (?ps ! i)\<bar> \<bar>snd (?ps ! i)\<bar>" using squeeze_norm by blast
  then show ?thesis using box i by (intro exI [of _ "?ps ! i"]) (simp add: g(2))
qed

interpretation target_grid: action_grid target_action_grid
proof unfold_locales
  fix levels grid p
  show "\<not> levels_ok levels \<Longrightarrow> target_action_grid levels = Inl AssertionError"
    "levels_ok levels \<Longrightarrow> \<exists>grid. target_action_grid levels = Inr grid"
    by (simp_all add: target_action_grid_def check_def)
  assume a: "target_action_grid levels = Inr grid"
  then have g: "levels_ok levels" "grid = map squeeze (mesh_points (linspace (- 1) 1 levels))"
    by (auto simp: target_action_grid_def check_def split: if_splits)
  show len: "length grid = levels * levels" and "distinct grid"
    using linspace_distinct g(1) squeeze_inj by (simp_all add: g(2) mesh_points_facts distinct_map)
  show "p \<in> set grid \<Longrightarrow> \<bar>fst p\<bar> \<le> 1 \<and> \<bar>snd p\<bar> \<le> 1"
    using target_grid_points [OF a] len vnorm_components by (metis in_set_conv_nth order_trans)
qed

subsection \<open>The wrappers\<close>

lemma length_flat [simp]: "length (flat rows) = length rows * 2"
  by (induction rows) (simp_all add: flat_def)

lemma flat_row: "i < length rows \<Longrightarrow> take 2 (drop (2 * i) (flat rows)) = [fst (rows ! i), snd (rows ! i)]"
proof (induction rows arbitrary: i)
  case (Cons p rows)
  then show ?case by (cases i) (simp_all add: flat_def)
qed simp

lemma unflat_flat: "unflat (length rows) (flat rows) = Inr rows"
proof -
  have "map (\<lambda>row. (row ! 0, row ! 1)) (map (\<lambda>i. take 2 (drop (2 * i) (flat rows))) [0..<length rows]) = rows"
    by (rule nth_equalityI) (simp_all add: flat_row)
  then show ?thesis by (simp add: unflat_def reshape_def)
qed

lemma joint_containsE:
  assumes "joint_contains n levels joint" and "a \<in> set joint"
  shows "nat a < levels * levels" and "int (nat a) = a"
proof -
  have "0 \<le> a \<and> a < int (levels * levels)" using assms by (simp add: joint_contains_def list_all_iff)
  then show "nat a < levels * levels" "int (nat a) = a" by linarith+
qed

text \<open>C39: a discrete choice of the cameras is faithful: a joint action outside the space is refused; one
  inside becomes one turn and zoom per camera, none beyond the configured steps, the inverse conversion
  finds the same choice again, and converting any continuous action back picks a nearest grid point.\<close>

theorem discrete_camera_round_trip:
  assumes w: "new_discrete_camera cfg s levels = Inr w"
    and pos: "0 < fst (dc_high w)" "0 < snd (dc_high w)"
  shows "(\<not> joint_contains (num_cameras s) levels joint \<longrightarrow> camera_action w joint = Inl AssertionError)
    \<and> (joint_contains (num_cameras s) levels joint \<longrightarrow>
        (\<exists>rows. camera_action w joint = Inr rows \<and> length rows = num_cameras s
          \<and> (\<forall>row \<in> set rows. \<bar>fst row\<bar> \<le> fst (dc_high w) \<and> \<bar>snd row\<bar> \<le> snd (dc_high w))
          \<and> camera_reverse_action w (flat rows) = Inr (map nat joint)))
    \<and> (\<forall>q \<in> set (dc_grid w). vnorm (vsub p (dc_grid w ! nearest_grid_point (dc_grid w) p)) \<le> vnorm (vsub p q))"
proof (intro conjI impI ballI)
  have W: "camera_action_grid levels = Inr (dc_grid w)" "dc_agents w = num_cameras s" "dc_levels w = levels"
    using w by (auto simp: new_discrete_camera_def bind_res_Inr)
  show "camera_action w joint = Inl AssertionError" if "\<not> joint_contains (num_cameras s) levels joint"
    using that by (simp add: camera_action_def W check_def)
  show "vnorm (vsub p (dc_grid w ! nearest_grid_point (dc_grid w) p)) \<le> vnorm (vsub p q)" if "q \<in> set (dc_grid w)" for q
    using nearest_grid_point_least(2) [OF camera_grid.nonempty [OF W(1)] that] .
  assume j: "joint_contains (num_cameras s) levels joint"
  define rows where "rows = map (\<lambda>a. scale_by (dc_high w) (dc_grid w ! nat a)) joint"
  have run: "camera_action w joint = Inr rows" using j by (simp add: camera_action_def W check_def rows_def)
  have len: "length rows = num_cameras s" using j by (simp add: rows_def joint_contains_def)
  have box: "\<bar>fst row\<bar> \<le> fst (dc_high w) \<and> \<bar>snd row\<bar> \<le> snd (dc_high w)" if "row \<in> set rows" for row
    using that camera_grid.scaled_within [OF W(1) joint_containsE(1) [OF j], of _ "dc_high w"] pos
    by (auto simp: rows_def)
  have "map (\<lambda>p. (fst p / fst (dc_high w), snd p / snd (dc_high w))) rows = map (\<lambda>a. dc_grid w ! nat a) joint"
    using pos by (simp add: rows_def scale_by_def)
  then have "indices_of_nearest_grid_point (map (\<lambda>p. (fst p / fst (dc_high w), snd p / snd (dc_high w))) rows)
      (dc_grid w) = map nat joint"
    using camera_grid.nearest_own [OF W(1) joint_containsE(1) [OF j]]
    by (simp only: indices_of_nearest_grid_point_def) simp
  then have "camera_reverse_action w (flat rows) = Inr (map nat joint)"
    using unflat_flat [of rows] by (simp add: camera_reverse_action_def W(2) flip: len)
  with run len box show "\<exists>rows. camera_action w joint = Inr rows \<and> length rows = num_cameras s
      \<and> (\<forall>row \<in> set rows. \<bar>fst row\<bar> \<le> fst (dc_high w) \<and> \<bar>snd row\<bar> \<le> snd (dc_high w))
      \<and> camera_reverse_action w (flat rows) = Inr (map nat joint)" by blast
qed

definition demo_config :: config where
  "demo_config = small_config\<lparr>c_camera := Some (empty_camera_section\<lparr>cs_location := Some [(100, 0)],
       cs_rotation_step := Some 5, cs_zooming_step := Some (1 / 2)\<rparr>),
     c_target := Some \<lparr>ts_location = Some [(0, 0)], ts_random_range = None, ts_sight_range = None,
       ts_step_size = Some 20\<rparr>\<rparr>"

theorem discrete_camera_round_trip_witness:
  "\<exists>w rows. new_discrete_camera demo_config demo_env 3 = Inr w \<and> camera_action w [5] = Inr rows
     \<and> camera_reverse_action w (flat rows) = Inr [5] \<and> camera_action w [9] = Inl AssertionError"
proof -
  obtain grid where g: "camera_action_grid 3 = Inr grid" using camera_grid.made [of 3] by (auto simp: levels_ok_def)
  let ?w = "\<lparr>dc_levels = 3, dc_agents = 1, dc_high = (5, 1 / 2), dc_grid = grid\<rparr>"
  have w: "new_discrete_camera demo_config demo_env 3 = Inr ?w"
    by (simp add: new_discrete_camera_def demo_config_def cfg_camera_rotation_step_def cfg_camera_zooming_step_def
        key_def check_def levels_ok_def demo_counts g)
  have pos: "0 < fst (dc_high ?w)" "0 < snd (dc_high ?w)" by simp_all
  have "joint_contains (num_cameras demo_env) 3 [5]" "\<not> joint_contains (num_cameras demo_env) 3 [9]"
    by (simp_all add: joint_contains_def demo_counts)
  then show ?thesis using discrete_camera_round_trip [OF w pos, of "[5]" undefined]
      discrete_camera_round_trip [OF w pos, of "[9]" undefined] w by fastforce
qed

text \<open>A discrete choice of a target is a movement of at most its own step size, so the environment never
  shortens it: the wrapper reads the step sizes after every reset (targets of higher capacity are
  slower), and a choice on the rim of the grid uses the step size fully. A joint action outside the space
  is refused; the inverse conversion always fails with a \<open>TypeError\<close>.\<close>

lemma discrete_target_full_step:
  assumes w: "new_discrete_target cfg s0 levels = Inr w0" and r: "w = read_step_sizes s w0"
    and n: "num_targets s = num_targets s0" and pos: "\<forall>t \<in> set (targets s). 0 < step_size t"
  shows "(\<not> joint_contains (num_targets s) levels joint \<longrightarrow> target_action w joint = Inl AssertionError)
    \<and> (joint_contains (num_targets s) levels joint \<longrightarrow>
        (\<exists>rows. target_action w joint = Inr rows \<and> length rows = num_targets s
          \<and> (\<forall>t < num_targets s. vnorm (rows ! t) \<le> step_size (targets s ! t)
               \<and> vnorm (rows ! t) = step_size (targets s ! t) * vnorm (dt_grid w ! nat (joint ! t))
               \<and> ray_vector (clamped_step (location (targets s ! t)) (step_size (targets s ! t)) (rows ! t)) = rows ! t)))
    \<and> target_reverse_action w xs = Inl TypeError"
proof (intro conjI impI)
  have W: "target_action_grid levels = Inr (dt_grid w)" "dt_agents w = num_targets s" "dt_levels w = levels"
    "dt_high w = map (\<lambda>t. (step_size t, step_size t)) (targets s)"
    using w by (auto simp: new_discrete_target_def bind_res_Inr r read_step_sizes_def n)
  have lt: "length (targets s) = num_targets s" by (simp add: num_targets_def)
  show "target_action w joint = Inl AssertionError" if "\<not> joint_contains (num_targets s) levels joint"
    using that by (simp add: target_action_def W check_def)
  show "target_reverse_action w xs = Inl TypeError" by (simp add: target_reverse_action_def)
  assume j: "joint_contains (num_targets s) levels joint"
  define rows where "rows = map2 (\<lambda>hi a. scale_by hi (dt_grid w ! nat a)) (dt_high w) joint"
  have lj: "length joint = num_targets s" using j by (simp add: joint_contains_def)
  have run: "target_action w joint = Inr rows" using j by (simp add: target_action_def W check_def rows_def)
  have len: "length rows = num_targets s" using lj lt by (simp add: rows_def W)
  have "vnorm (rows ! t) \<le> step_size (targets s ! t)
      \<and> vnorm (rows ! t) = step_size (targets s ! t) * vnorm (dt_grid w ! nat (joint ! t))
      \<and> ray_vector (clamped_step (location (targets s ! t)) (step_size (targets s ! t)) (rows ! t)) = rows ! t"
    if t: "t < num_targets s" for t
  proof -
    let ?k = "step_size (targets s ! t)" and ?q = "dt_grid w ! nat (joint ! t)"
    have k: "0 < ?k" using pos lt t by simp
    have row: "rows ! t = vscale ?k ?q"
      using t lj lt by (simp add: rows_def W scale_by_def vscale_def)
    have "joint ! t \<in> set joint" using t lj by simp
    then have "vnorm ?q \<le> 1" using target_grid_points [OF W(1) joint_containsE(1) [OF j]] by blast
    then have le: "vnorm (rows ! t) \<le> ?k" using k by (simp add: row vnorm_vscale mult_left_le)
    then show ?thesis using k by (simp add: row vnorm_vscale clamped_step_def Let_def)
  qed
  with run len show "\<exists>rows. target_action w joint = Inr rows \<and> length rows = num_targets s
      \<and> (\<forall>t < num_targets s. vnorm (rows ! t) \<le> step_size (targets s ! t)
           \<and> vnorm (rows ! t) = step_size (targets s ! t) * vnorm (dt_grid w ! nat (joint ! t))
           \<and> ray_vector (clamped_step (location (targets s ! t)) (step_size (targets s ! t)) (rows ! t)) = rows ! t)"
    by blast
qed

end
