(* ===== verification/SharedViews.thy ===== *)
theory SharedViews
  imports Demo AgentBase
begin

text \<open>
  The observation wrappers of \<^verbatim>\<open>mate/wrappers/enhanced_observation.py\<close> and
  \<^verbatim>\<open>mate/wrappers/shared_field_of_view.py\<close>. Both rewrite the entity parts of every observation of a
  team in place: the first shows everything, the second everything that some teammate senses. The
  lemmas place the slices of \<open>Constants\<close> in an observation; the theorems say what the rewritten
  observations are in terms of the masks of the environment. The assertions about the order of
  wrappers compare classes and are not modelled.
\<close>

subsection \<open>The code\<close>

text \<open>\<open>array[..., slice] = row\<close> for one row of the array.\<close>

definition put_slice :: "py_slice \<Rightarrow> 'a list \<Rightarrow> 'a list \<Rightarrow> 'a list" where
  "put_slice sl ys xs = take (s_start sl) xs @ ys @ drop (s_stop sl) xs"

definition wrapper_teams :: "string \<Rightarrow> (bool \<times> bool) res" where
  "wrapper_teams team =
     bind_res (check AssertionError (team \<in> {''both'', ''camera'', ''target'', ''none''})) (\<lambda>_.
       Inr (team \<in> {''camera'', ''both''}, team \<in> {''target'', ''both''}))"

text \<open>The public states of a team with a true flag, cut from the private states in its observations.\<close>

definition states_public_flagged :: "nat \<Rightarrow> real list list \<Rightarrow> real list list" where
  "states_public_flagged d joint = map (\<lambda>obs. take d (drop PRESERVED_DIM obs) @ [1]) joint"

definition target_empty_bits_slice :: "nat \<Rightarrow> nat \<Rightarrow> nat \<Rightarrow> py_slice" where
  "target_empty_bits_slice nc nt no =
     (let i2 = target_observation_indices_of nc nt no ! 2 in slice2 (i2 - NUM_WAREHOUSES) i2)"

definition write_entities ::
  "observation_slices \<Rightarrow> real list \<Rightarrow> real list \<Rightarrow> real list \<Rightarrow> real list \<Rightarrow> real list" where
  "write_entities sl opp obst mates obs =
     put_slice (teammate_states_slice sl) mates
       (put_slice (obstacle_states_slice sl) obst
         (put_slice (opponent_states_slice sl) opp obs))"

definition enhanced_observation ::
  "bool \<times> bool \<Rightarrow> ('g, 'm) env \<Rightarrow> real list list \<times> real list list \<Rightarrow> real list list \<times> real list list" where
  "enhanced_observation teams s obs =
     (case (teams, obs) of ((enhanced_camera, enhanced_target), (camera_joint, target_joint)) \<Rightarrow>
        if \<not> (enhanced_camera \<or> enhanced_target) then (camera_joint, target_joint)
        else
          (let cs = states_public_flagged CAMERA_STATE_DIM_PUBLIC camera_joint;
               ts = states_public_flagged TARGET_STATE_DIM_PUBLIC target_joint;
               os = obstacle_states_flagged s;
               csl = camera_observation_slices_of (num_cameras s) (num_targets s) (num_obstacles s);
               tsl = target_observation_slices_of (num_cameras s) (num_targets s) (num_obstacles s);
               esl = target_empty_bits_slice (num_cameras s) (num_targets s) (num_obstacles s);
               empty = map (\<lambda>row. of_bool (\<not> any_nonzero row)) (remaining_cargoes s)
           in (if enhanced_camera
               then map (write_entities csl (concat ts) (concat os) (concat cs)) camera_joint
               else camera_joint,
               if enhanced_target
               then map (\<lambda>obs. write_entities tsl (concat cs) (concat os) (concat ts) (put_slice esl empty obs))
                      target_joint
               else target_joint)))"

text \<open>\<open>array[..., slice].any(axis=0)\<close>: column by column, some row is not zero there.\<close>

definition any_rows :: "nat \<Rightarrow> py_slice \<Rightarrow> real list list \<Rightarrow> bool list" where
  "any_rows n sl joint = map (\<lambda>j. list_ex (\<lambda>obs. slice_of obs sl ! j \<noteq> 0) joint) [0..<n]"

definition shared_field_of_view ::
  "bool \<times> bool \<Rightarrow> ('g, 'm) env \<Rightarrow> real list list \<times> real list list \<Rightarrow> real list list \<times> real list list" where
  "shared_field_of_view teams s obs =
     (case (teams, obs) of ((shared_camera, shared_target), (camera_joint, target_joint)) \<Rightarrow>
        if \<not> (shared_camera \<or> shared_target) then (camera_joint, target_joint)
        else
          (let cs = states_public_flagged CAMERA_STATE_DIM_PUBLIC camera_joint;
               ts = states_public_flagged TARGET_STATE_DIM_PUBLIC target_joint;
               os = obstacle_states_flagged s;
               csl = camera_observation_slices_of (num_cameras s) (num_targets s) (num_obstacles s);
               tsl = target_observation_slices_of (num_cameras s) (num_targets s) (num_obstacles s);
               esl = target_empty_bits_slice (num_cameras s) (num_targets s) (num_obstacles s)
           in (if shared_camera
               then map (write_entities csl
                      (masked_rows (any_rows (num_targets s) (opponent_mask_slice csl) camera_joint) ts)
                      (masked_rows (any_rows (num_obstacles s) (obstacle_mask_slice csl) camera_joint) os)
                      (concat cs)) camera_joint
               else camera_joint,
               if shared_target
               then map (\<lambda>obs. write_entities tsl
                      (masked_rows (any_rows (num_cameras s) (opponent_mask_slice tsl) target_joint) cs)
                      (masked_rows (any_rows (num_obstacles s) (obstacle_mask_slice tsl) target_joint) os)
                      (concat ts)
                      (put_slice esl (map of_bool (any_rows NUM_WAREHOUSES esl target_joint)) obs)) target_joint
               else target_joint)))"

subsection \<open>Where the slices are\<close>

text \<open>An observation put together from its parts.\<close>

definition assemble :: "('g, 'm) env \<Rightarrow> nat \<Rightarrow> real list \<Rightarrow> real list \<Rightarrow> real list \<Rightarrow> real list \<Rightarrow> real list" where
  "assemble s i self opp obst mates = (preserved_data s)[3 := real i] @ self @ opp @ obst @ mates"

lemma slices_at:
  fixes team nc nt no
  defines "idx \<equiv> observation_indices_of team nc nt no" and "sl \<equiv> observation_slices_of team nc nt no"
  shows "opponent_states_slice sl = slice2 (idx ! 2) (idx ! 3)"
    "obstacle_states_slice sl = slice2 (idx ! 3) (idx ! 4)"
    "teammate_states_slice sl = slice2 (idx ! 4) (idx ! 5)"
    "opponent_mask_slice sl = slice3 (idx ! 2 + public_dim (opponent team)) (idx ! 3) (public_dim (opponent team) + 1)"
    "obstacle_mask_slice sl = slice3 (idx ! 3 + OBSTACLE_STATE_DIM) (idx ! 4) (OBSTACLE_STATE_DIM + 1)"
    "teammate_mask_slice sl = slice3 (idx ! 4 + public_dim team) (idx ! 5) (public_dim team + 1)"
  unfolding idx_def sl_def
  by (cases team; simp add: observation_slices_of_def camera_observation_slices_of_def
      target_observation_slices_of_def Let_def observation_indices_of_def public_dim_def opponent_def)+

lemma index_values:
  fixes s :: "('g, 'm) env"
  defines "idx \<equiv> \<lambda>team. observation_indices_of team (num_cameras s) (num_targets s) (num_obstacles s)"
  shows "idx team ! 2 = PRESERVED_DIM + self_dim team"
    "idx team ! 3 = PRESERVED_DIM + self_dim team + num_agents (opponent team) s * (public_dim (opponent team) + 1)"
    "idx team ! 4 = PRESERVED_DIM + self_dim team + num_agents (opponent team) s * (public_dim (opponent team) + 1)
      + num_obstacles s * (OBSTACLE_STATE_DIM + 1)"
    "idx team ! 5 = PRESERVED_DIM + self_dim team + num_agents (opponent team) s * (public_dim (opponent team) + 1)
      + num_obstacles s * (OBSTACLE_STATE_DIM + 1) + num_agents team s * (public_dim team + 1)"
  by (simp_all add: idx_def observation_indices Let_def num_agents_count numeral_eq_Suc)

lemma put_slice_middle:
  "length p = a \<Longrightarrow> length p + length x = b \<Longrightarrow> put_slice (slice2 a b) y (p @ x @ q) = p @ y @ q"
  by (simp add: put_slice_def slice2_def)

lemma write_entities_assemble:
  assumes "length self = self_dim team"
    and "length opp = num_agents (opponent team) s * (public_dim (opponent team) + 1)"
    and "length obst = num_obstacles s * (OBSTACLE_STATE_DIM + 1)"
    and "length mates = num_agents team s * (public_dim team + 1)"
    and "length opp' = length opp" and "length obst' = length obst"
  shows "write_entities (observation_slices_of team (num_cameras s) (num_targets s) (num_obstacles s))
      opp' obst' mates' (assemble s i self opp obst mates) = assemble s i self opp' obst' mates'"
proof -
  let ?pre = "(preserved_data s)[3 := real i] @ self"
  have a: "assemble s i self x y z = ?pre @ x @ y @ z" for x y z by (simp add: assemble_def)
  have 1: "put_slice (slice2 (length ?pre) (length ?pre + length opp)) opp' (?pre @ opp @ obst @ mates)
      = ?pre @ opp' @ obst @ mates"
    using put_slice_middle [of ?pre _ opp _ opp' "obst @ mates", OF refl refl] by simp
  have 2: "put_slice (slice2 (length (?pre @ opp')) (length (?pre @ opp') + length obst)) obst'
      (?pre @ opp' @ obst @ mates) = ?pre @ opp' @ obst' @ mates"
    using put_slice_middle [of "?pre @ opp'" _ obst _ obst' mates, OF refl refl] by simp
  have 3: "put_slice (slice2 (length (?pre @ opp' @ obst')) (length (?pre @ opp' @ obst') + length mates)) mates'
      (?pre @ opp' @ obst' @ mates) = ?pre @ opp' @ obst' @ mates'"
    using put_slice_middle [of "?pre @ opp' @ obst'" _ mates _ mates' "[]", OF refl refl] by simp
  show ?thesis
    unfolding write_entities_def slices_at index_values a
    using 1 2 3 assms by (simp add: add.assoc)
qed

lemma observation_assembled:
  "observation_of team s i = assemble s i (self_part team s i)
     (masked_rows (opponent_seen team s i) (rows_of (opponent team) s)) (obstacle_part team s i)
     (masked_rows (teammate_seen team s i) (rows_of team s))"
  by (simp add: observation_parts assemble_def)

lemma masked_lengths:
  assumes "view_shapes s" and "i < num_agents team s"
  shows "length (masked_rows (opponent_seen team s i) (rows_of (opponent team) s))
      = num_agents (opponent team) s * (public_dim (opponent team) + 1)"
    "length (masked_rows (teammate_seen team s i) (rows_of team s)) = num_agents team s * (public_dim team + 1)"
  using masked_rows_length [OF rows_shape(2)] part_lengths [OF assms] rows_shape(1) by metis+

lemma concat_rows_length: "length (concat (rows_of team s)) = num_agents team s * (public_dim team + 1)"
  using length_concat_rows [OF rows_shape(2)] rows_shape(1) by metis

lemma joint_observation_of:
  "fst (fst (joint_observation s)) = map (observation_of CAMERA s) [0..<num_cameras s]"
  "snd (fst (joint_observation s)) = map (observation_of TARGET s) [0..<num_targets s]"
  by (simp_all add: joint_observation_def observation_of_def)

text \<open>The public state is the head of the private state, so the flagged rows are the rows of the masks.\<close>

lemma public_prefix:
  assumes "view_shapes s" and "i < num_agents team s"
  shows "take (public_dim team) (drop PRESERVED_DIM (observation_of team s i)) @ [1] = rows_of team s ! i"
proof -
  have "take (public_dim team) (self_part team s i) = public_state team s i"
    using assms
    by (cases team) (simp_all add: self_part_def public_state_def public_dim_def camera_state_def target_state_def
        CAMERA_STATE_DIM_PUBLIC_def TARGET_STATE_DIM_PUBLIC_def Let_def)
  moreover have "public_dim team \<le> length (self_part team s i)"
    unfolding part_lengths(1) [OF assms]
    by (cases team) (simp_all add: public_dim_def self_dim_def dim_defs)
  ultimately show ?thesis
    using assms(2) by (simp add: observation_parts rows_of_nth flagged_def)
qed

lemma states_public_flagged_rows:
  assumes "view_shapes s"
  shows "states_public_flagged CAMERA_STATE_DIM_PUBLIC (map (observation_of CAMERA s) [0..<num_cameras s])
      = rows_of CAMERA s"
    "states_public_flagged TARGET_STATE_DIM_PUBLIC (map (observation_of TARGET s) [0..<num_targets s])
      = rows_of TARGET s"
  using public_prefix [OF assms, of _ CAMERA] public_prefix [OF assms, of _ TARGET]
    rows_shape(1) [of CAMERA s] rows_shape(1) [of TARGET s]
  by (auto simp: states_public_flagged_def public_dim_def num_agents_def intro!: nth_equalityI)

lemma obstacle_rows:
  assumes "view_shapes s"
  shows "length (obstacle_states_flagged s) = num_obstacles s"
    "\<forall>row \<in> set (obstacle_states_flagged s). length row = OBSTACLE_STATE_DIM + 1"
    "length (concat (obstacle_states_flagged s)) = num_obstacles s * (OBSTACLE_STATE_DIM + 1)"
proof -
  have m: "is_matrix (num_obstacles s) (OBSTACLE_STATE_DIM + 1) (obstacle_states_flagged s)"
    using assms by (simp add: view_shapes_def)
  then show 1: "length (obstacle_states_flagged s) = num_obstacles s"
    and 2: "\<forall>row \<in> set (obstacle_states_flagged s). length row = OBSTACLE_STATE_DIM + 1"
    by (auto simp: is_matrix_def in_set_conv_nth)
  show "length (concat (obstacle_states_flagged s)) = num_obstacles s * (OBSTACLE_STATE_DIM + 1)"
    using length_concat_rows [OF 2] 1 by simp
qed

subsection \<open>Everything is shown\<close>

definition with_empty_bits :: "real list \<Rightarrow> real list \<Rightarrow> real list" where
  "with_empty_bits bits self = take (length self - NUM_WAREHOUSES) self @ bits"

lemma put_empty_bits:
  assumes "length self = TARGET_STATE_DIM_PRIVATE"
  shows "put_slice (target_empty_bits_slice nc nt no) bits (assemble s i self opp obst mates)
    = assemble s i (with_empty_bits bits self) opp obst mates"
proof -
  let ?k = "TARGET_STATE_DIM_PRIVATE - NUM_WAREHOUSES"
  have i2: "target_observation_indices_of nc nt no ! 2 = PRESERVED_DIM + TARGET_STATE_DIM_PRIVATE"
    by (simp add: target_observation_indices_of_def numeral_eq_Suc)
  have k: "PRESERVED_DIM + TARGET_STATE_DIM_PRIVATE - NUM_WAREHOUSES = PRESERVED_DIM + ?k"
    "?k + NUM_WAREHOUSES = TARGET_STATE_DIM_PRIVATE"
    by (simp_all add: TARGET_STATE_DIM_PRIVATE_def)
  have self: "self = take ?k self @ drop ?k self" by simp
  have "put_slice (slice2 (PRESERVED_DIM + ?k) (PRESERVED_DIM + TARGET_STATE_DIM_PRIVATE)) bits
      (((preserved_data s)[3 := real i] @ take ?k self) @ drop ?k self @ (opp @ obst @ mates))
      = ((preserved_data s)[3 := real i] @ take ?k self) @ bits @ (opp @ obst @ mates)"
    by (rule put_slice_middle) (use assms k(2) in simp_all)
  moreover have "take ?k self @ drop ?k self @ zs = self @ zs" for zs
    by (simp flip: append_assoc)
  ultimately show ?thesis
    by (simp add: target_empty_bits_slice_def i2 k(1) assemble_def with_empty_bits_def assms)
qed

definition shown_all :: "team \<Rightarrow> ('g, 'm) env \<Rightarrow> nat \<Rightarrow> real list \<Rightarrow> real list" where
  "shown_all team s i self =
     assemble s i self (concat (rows_of (opponent team) s)) (concat (obstacle_states_flagged s))
       (concat (rows_of team s))"

definition empty_warehouses :: "('g, 'm) env \<Rightarrow> real list" where
  "empty_warehouses s = map (\<lambda>row. of_bool (\<not> any_nonzero row)) (remaining_cargoes s)"

lemma write_all:
  assumes "view_shapes s" and "i < num_agents team s" and "length self = self_dim team"
  shows "write_entities (observation_slices_of team (num_cameras s) (num_targets s) (num_obstacles s))
      (concat (rows_of (opponent team) s)) (concat (obstacle_states_flagged s)) (concat (rows_of team s))
      (assemble s i self (masked_rows (opponent_seen team s i) (rows_of (opponent team) s)) (obstacle_part team s i)
         (masked_rows (teammate_seen team s i) (rows_of team s)))
    = shown_all team s i self"
  unfolding shown_all_def
  using masked_lengths [OF assms(1,2)] part_lengths(4) [OF assms(1,2)] obstacle_rows(3) [OF assms(1)]
    concat_rows_length [of "opponent team" s] assms(3)
  by (intro write_entities_assemble) simp_all

lemma opponents: "opponent CAMERA = TARGET" "opponent TARGET = CAMERA"
  by (simp_all add: opponent_def)

lemma team_slices:
  "camera_observation_slices_of = observation_slices_of CAMERA" "target_observation_slices_of = observation_slices_of TARGET"
  by (simp_all add: observation_slices_of_def)

text \<open>C32: what the enhanced observation is: each observation of an enhanced team holds the agent's own
  part, then every opponent, every obstacle and every teammate with its flag set, whatever the masks
  say, and the targets learn which warehouses are empty; the other team's observations are unchanged.\<close>

theorem enhanced_observation_shows_all:
  assumes "view_shapes s" and "length (remaining_cargoes s) = NUM_WAREHOUSES"
  shows "enhanced_observation (ec, et) s (fst (joint_observation s)) =
    (map (\<lambda>c. if ec then shown_all CAMERA s c (self_part CAMERA s c) else observation_of CAMERA s c)
       [0..<num_cameras s],
     map (\<lambda>t. if et then shown_all TARGET s t (with_empty_bits (empty_warehouses s) (self_part TARGET s t))
              else observation_of TARGET s t) [0..<num_targets s])"
proof -
  define csl where "csl = observation_slices_of CAMERA (num_cameras s) (num_targets s) (num_obstacles s)"
  define tsl where "tsl = observation_slices_of TARGET (num_cameras s) (num_targets s) (num_obstacles s)"
  have cam: "write_entities csl (concat (rows_of TARGET s)) (concat (obstacle_states_flagged s))
      (concat (rows_of CAMERA s)) (observation_of CAMERA s c) = shown_all CAMERA s c (self_part CAMERA s c)"
    if "c < num_cameras s" for c
    using write_all [OF assms(1), of c CAMERA] that part_lengths(1) [OF assms(1), of c CAMERA]
    by (simp add: csl_def observation_assembled num_agents_def opponents)
  have tgt: "write_entities tsl (concat (rows_of CAMERA s)) (concat (obstacle_states_flagged s)) (concat (rows_of TARGET s))
      (put_slice (target_empty_bits_slice (num_cameras s) (num_targets s) (num_obstacles s)) (empty_warehouses s)
        (observation_of TARGET s t))
      = shown_all TARGET s t (with_empty_bits (empty_warehouses s) (self_part TARGET s t))"
    if "t < num_targets s" for t
  proof -
    have l: "length (self_part TARGET s t) = TARGET_STATE_DIM_PRIVATE"
      using part_lengths(1) [OF assms(1), of t TARGET] that by (simp add: num_agents_def self_dim_def)
    then have "length (with_empty_bits (empty_warehouses s) (self_part TARGET s t)) = self_dim TARGET"
      using assms(2) by (simp add: empty_warehouses_def with_empty_bits_def self_dim_def TARGET_STATE_DIM_PRIVATE_def)
    from write_all [OF assms(1) _ this] that show ?thesis
      by (simp add: observation_assembled put_empty_bits [OF l] tsl_def num_agents_def opponents)
  qed
  have obs: "fst (joint_observation s) = (map (observation_of CAMERA s) [0..<num_cameras s],
      map (observation_of TARGET s) [0..<num_targets s])"
    using joint_observation_of [of s] by (metis prod.collapse)
  show ?thesis
    unfolding obs enhanced_observation_def prod.case team_slices Let_def states_public_flagged_rows [OF assms(1)]
      csl_def [symmetric] tsl_def [symmetric] empty_warehouses_def [symmetric]
    using cam tgt by (auto simp: comp_def)
qed

theorem enhanced_observation_shows_all_witness:
  "fst (enhanced_observation (True, False) demo_start (fst (joint_observation demo_start)))
    = [shown_all CAMERA demo_start 0 (self_part CAMERA demo_start 0)]"
proof -
  have "env_ok demo_start" by (rule demo_start_ok(1))
  then have "view_shapes demo_start" "length (remaining_cargoes demo_start) = NUM_WAREHOUSES"
    by (simp_all add: env_ok_def cargo_inv_def cargo_shapes_def is_matrix_def)
  from enhanced_observation_shows_all [OF this, of True False] show ?thesis
    by (simp add: demo_start_ok)
qed

subsection \<open>What one teammate senses, all see\<close>

lemma slice3_indices:
  assumes "a + n * (d + 1) \<le> len"
  shows "slice_indices (slice3 (a + d) (a + n * (d + 1)) (d + 1)) len = map (\<lambda>j. a + d + (d + 1) * j) [0..<n]"
proof (rule sorted_distinct_set_unique)
  let ?xs = "slice_indices (slice3 (a + d) (a + n * (d + 1)) (d + 1)) len"
  show "sorted ?xs" "distinct ?xs" by (simp_all add: slice_indices_def sorted_wrt_filter)
  show "sorted (map (\<lambda>j. a + d + (d + 1) * j) [0..<n])" by (auto simp: sorted_map sorted_wrt_iff_nth_less intro!: add_mono mult_le_mono2)
  have inj: "x = y" if "x + d * x = y + d * y" for x y
  proof -
    have "Suc d * x = Suc d * y" using that by simp
    then show ?thesis by (simp only: mult_cancel1) simp
  qed
  show "distinct (map (\<lambda>j. a + d + (d + 1) * j) [0..<n])"
    unfolding distinct_map inj_on_def by (simp, blast dest: inj)
  show "set ?xs = set (map (\<lambda>j. a + d + (d + 1) * j) [0..<n])"
  proof (intro equalityI subsetI)
    fix i assume "i \<in> set ?xs"
    then have i: "a + d \<le> i" "i < a + n * (d + 1)" "(i - (a + d)) mod (d + 1) = 0"
      by (simp_all add: slice_indices_def slice3_def)
    then obtain q where q: "i - (a + d) = (d + 1) * q" by (metis mod_0_imp_dvd dvd_def)
    then have "i = a + d + (d + 1) * q" using i(1) by simp
    moreover have "q < n"
    proof (rule ccontr)
      assume "\<not> q < n"
      then have "(d + 1) * n \<le> (d + 1) * q" by (intro mult_le_mono2) simp
      with calculation i(2) show False by (simp add: algebra_simps)
    qed
    ultimately show "i \<in> set (map (\<lambda>j. a + d + (d + 1) * j) [0..<n])" by auto
  next
    fix i assume "i \<in> set (map (\<lambda>j. a + d + (d + 1) * j) [0..<n])"
    then obtain q where q: "i = a + d + (d + 1) * q" "q < n" by auto
    have "(d + 1) * (q + 1) \<le> (d + 1) * n" using q(2) by (intro mult_le_mono2) simp
    then have "i < a + n * (d + 1)" using q(1) by (simp add: algebra_simps)
    moreover have "(i - (a + d)) mod (d + 1) = 0"
      unfolding q(1) by (simp only: add_diff_cancel_left' mod_mult_self1_is_0)
    moreover have "a + d \<le> i" using q(1) by simp
    ultimately show "i \<in> set ?xs" using assms by (simp add: slice_indices_def slice3_def)
  qed
qed

lemma slice3_of:
  "a + n * (d + 1) \<le> length xs \<Longrightarrow>
   slice_of xs (slice3 (a + d) (a + n * (d + 1)) (d + 1)) = map (\<lambda>j. xs ! (a + d + (d + 1) * j)) [0..<n]"
  by (simp only: slice_of_def slice3_indices) simp

text \<open>The flags of the obstacles and the empty bits as they stand in an observation.\<close>

definition obstacle_noted :: "team \<Rightarrow> ('g, 'm) env \<Rightarrow> nat \<Rightarrow> nat \<Rightarrow> bool" where
  "obstacle_noted team s i j \<longleftrightarrow>
     obstacle_part team s i ! (OBSTACLE_STATE_DIM + (OBSTACLE_STATE_DIM + 1) * j) \<noteq> 0"

definition team_sees :: "team \<Rightarrow> ('g, 'm) env \<Rightarrow> bool list" where
  "team_sees team s = map (\<lambda>j. list_ex (\<lambda>i. opponent_seen team s i ! j) [0..<num_agents team s])
     [0..<num_agents (opponent team) s]"

definition team_notes :: "team \<Rightarrow> ('g, 'm) env \<Rightarrow> bool list" where
  "team_notes team s = map (\<lambda>j. list_ex (\<lambda>i. obstacle_noted team s i j) [0..<num_agents team s])
     [0..<num_obstacles s]"

definition known_empty :: "('g, 'm) env \<Rightarrow> real list" where
  "known_empty s = map (\<lambda>w. of_bool (list_ex (\<lambda>t. empty_bits (targets s ! t) ! w) [0..<num_targets s]))
     [0..<NUM_WAREHOUSES]"

lemma opponent_flag:
  assumes "view_shapes s" and "i < num_agents team s"
  shows "slice_of (observation_of team s i) (opponent_mask_slice
      (observation_slices_of team (num_cameras s) (num_targets s) (num_obstacles s)))
    = map (\<lambda>j. observation_of team s i ! (PRESERVED_DIM + self_dim team + public_dim (opponent team)
        + (public_dim (opponent team) + 1) * j)) [0..<num_agents (opponent team) s]"
    and "\<And>j. j < num_agents (opponent team) s \<Longrightarrow>
      observation_of team s i ! (PRESERVED_DIM + self_dim team + public_dim (opponent team)
        + (public_dim (opponent team) + 1) * j) \<noteq> 0 \<longleftrightarrow> opponent_seen team s i ! j"
proof -
  let ?d = "public_dim (opponent team)" and ?a = "PRESERVED_DIM + self_dim team"
  have len: "?a + num_agents (opponent team) s * (?d + 1) \<le> length (observation_of team s i)"
    using masked_lengths(1) [OF assms] part_lengths(1) [OF assms] by (simp add: observation_parts)
  show "slice_of (observation_of team s i) (opponent_mask_slice
      (observation_slices_of team (num_cameras s) (num_targets s) (num_obstacles s)))
    = map (\<lambda>j. observation_of team s i ! (?a + ?d + (?d + 1) * j)) [0..<num_agents (opponent team) s]"
    unfolding slices_at index_values by (rule slice3_of [OF len])
  fix j assume j: "j < num_agents (opponent team) s"
  have "length ((preserved_data s)[3 := real i] @ self_part team s i) = ?a"
    using part_lengths(1) [OF assms] by simp
  from seen_row [OF j part_lengths(2) [OF assms] this, of "obstacle_part team s i
      @ masked_rows (teammate_seen team s i) (rows_of team s)"]
  have "snd (state_at (observation_of team s i) ?a ?d j) = (opponent_seen team s i ! j)"
    by (simp add: observation_parts)
  then show "observation_of team s i ! (?a + ?d + (?d + 1) * j) \<noteq> 0 \<longleftrightarrow> opponent_seen team s i ! j"
    by (simp add: state_at_def Let_def ac_simps)
qed

lemma opponent_flag_nth:
  assumes "view_shapes s" and "i < num_agents team s" and "j < num_agents (opponent team) s"
  shows "slice_of (observation_of team s i) (opponent_mask_slice
      (observation_slices_of team (num_cameras s) (num_targets s) (num_obstacles s))) ! j \<noteq> 0
    \<longleftrightarrow> opponent_seen team s i ! j"
  using opponent_flag(2) [OF assms] assms(3)
  by (simp only: opponent_flag(1) [OF assms(1,2)] nth_map length_upt diff_zero nth_upt add_0)

lemma obstacle_flag:
  assumes "view_shapes s" and "i < num_agents team s"
  shows "slice_of (observation_of team s i) (obstacle_mask_slice
      (observation_slices_of team (num_cameras s) (num_targets s) (num_obstacles s)))
    = map (\<lambda>j. obstacle_part team s i ! (OBSTACLE_STATE_DIM + (OBSTACLE_STATE_DIM + 1) * j)) [0..<num_obstacles s]"
proof -
  let ?pre = "(preserved_data s)[3 := real i] @ self_part team s i
      @ masked_rows (opponent_seen team s i) (rows_of (opponent team) s)"
  let ?mates = "masked_rows (teammate_seen team s i) (rows_of team s)"
  have obs: "observation_of team s i = ?pre @ obstacle_part team s i @ ?mates" by (simp add: observation_parts)
  have a: "length ?pre = PRESERVED_DIM + self_dim team + num_agents (opponent team) s * (public_dim (opponent team) + 1)"
    using masked_lengths(1) [OF assms] part_lengths(1) [OF assms] by simp
  have o1: "length (obstacle_part team s i) = num_obstacles s * (OBSTACLE_STATE_DIM + 1)"
    by (rule part_lengths(4) [OF assms])
  have len: "length ?pre + num_obstacles s * (OBSTACLE_STATE_DIM + 1) \<le> length (observation_of team s i)"
    unfolding obs using o1 by simp
  have "slice_of (observation_of team s i) (obstacle_mask_slice
      (observation_slices_of team (num_cameras s) (num_targets s) (num_obstacles s)))
    = map (\<lambda>j. observation_of team s i ! (length ?pre + OBSTACLE_STATE_DIM + (OBSTACLE_STATE_DIM + 1) * j))
        [0..<num_obstacles s]"
    unfolding slices_at index_values a [symmetric] by (rule slice3_of [OF len])
  moreover have "observation_of team s i ! (length ?pre + OBSTACLE_STATE_DIM + (OBSTACLE_STATE_DIM + 1) * j)
      = obstacle_part team s i ! (OBSTACLE_STATE_DIM + (OBSTACLE_STATE_DIM + 1) * j)"
    if j: "j < num_obstacles s" for j
  proof -
    have "(OBSTACLE_STATE_DIM + 1) * (j + 1) \<le> (OBSTACLE_STATE_DIM + 1) * num_obstacles s"
      using j by (intro mult_le_mono2) simp
    then have k: "OBSTACLE_STATE_DIM + (OBSTACLE_STATE_DIM + 1) * j < length (obstacle_part team s i)"
      unfolding o1 by (simp add: algebra_simps)
    have "(?pre @ obstacle_part team s i @ ?mates) ! (length ?pre + k) = obstacle_part team s i ! k"
      if "k < length (obstacle_part team s i)" for k
      using that by (simp only: nth_append_length_plus) (simp add: nth_append)
    from this [OF k] show ?thesis unfolding obs by (simp only: add.assoc)
  qed
  ultimately show ?thesis by simp
qed

lemma empty_flag:
  assumes "view_shapes s" and "t < num_targets s"
  shows "slice_of (observation_of TARGET s t) (target_empty_bits_slice nc nt no) = map of_bool (empty_bits (targets s ! t))"
proof -
  have i2: "target_observation_indices_of nc nt no ! 2 = PRESERVED_DIM + TARGET_STATE_DIM_PRIVATE"
    by (simp add: target_observation_indices_of_def numeral_eq_Suc)
  have t: "t < num_agents TARGET s" using assms(2) by (simp add: num_agents_def)
  have ok: "length (goal_bits (targets s ! t)) = NUM_WAREHOUSES" "length (empty_bits (targets s ! t)) = NUM_WAREHOUSES"
    using assms by (simp_all add: view_shapes_def target_ok_def)
  have len: "PRESERVED_DIM + TARGET_STATE_DIM_PRIVATE \<le> length (observation_of TARGET s t)"
    using part_lengths(1) [OF assms(1) t] by (simp add: observation_parts self_dim_def)
  have "drop (TARGET_STATE_DIM_PRIVATE - NUM_WAREHOUSES) (self_part TARGET s t) = map of_bool (empty_bits (targets s ! t))"
    using ok by (simp add: self_part_def target_state_def Let_def TARGET_STATE_DIM_PRIVATE_def NUM_WAREHOUSES_def)
  then show ?thesis
    unfolding target_empty_bits_slice_def i2 Let_def slice2_of [OF len]
    using ok part_lengths(1) [OF assms(1) t]
    by (simp add: observation_parts self_dim_def TARGET_STATE_DIM_PRIVATE_def)
qed

lemma list_ex_upt: "list_ex P (map f [0..<n]) \<longleftrightarrow> list_ex (\<lambda>i. P (f i)) [0..<n]"
  by (simp add: list_ex_iff)

lemma list_ex_cong_upt: "(\<And>i. i < n \<Longrightarrow> P i = Q i) \<Longrightarrow> list_ex P [0..<n] = list_ex Q [0..<n]"
  by (auto simp: list_ex_iff)

text \<open>The columns of the masks, over the observations of a team.\<close>

lemma any_opponents:
  assumes "view_shapes s"
  shows "any_rows (num_agents (opponent team) s) (opponent_mask_slice (observation_slices_of team (num_cameras s)
      (num_targets s) (num_obstacles s))) (map (observation_of team s) [0..<num_agents team s]) = team_sees team s"
  unfolding any_rows_def team_sees_def list_ex_upt
  by (intro map_cong refl list_ex_cong_upt) (simp add: opponent_flag_nth [OF assms])

lemma any_obstacles:
  assumes "view_shapes s"
  shows "any_rows (num_obstacles s) (obstacle_mask_slice (observation_slices_of team (num_cameras s)
      (num_targets s) (num_obstacles s))) (map (observation_of team s) [0..<num_agents team s]) = team_notes team s"
  unfolding any_rows_def team_notes_def list_ex_upt
  by (intro map_cong refl list_ex_cong_upt) (simp add: obstacle_flag [OF assms] obstacle_noted_def)

lemma any_empty:
  assumes "view_shapes s"
  shows "map of_bool (any_rows NUM_WAREHOUSES (target_empty_bits_slice nc nt no)
      (map (observation_of TARGET s) [0..<num_targets s])) = known_empty s"
proof -
  have "length (empty_bits (targets s ! t)) = NUM_WAREHOUSES" if "t < num_targets s" for t
    using assms that by (simp add: view_shapes_def target_ok_def)
  then show ?thesis
    unfolding any_rows_def known_empty_def list_ex_upt map_map comp_def
    by (intro map_cong refl arg_cong [where f = of_bool] list_ex_cong_upt) (simp add: empty_flag [OF assms])
qed

text \<open>An observation that holds what the team knows: the opponents and obstacles that some member
  senses, and every teammate.\<close>

definition shown_shared :: "team \<Rightarrow> ('g, 'm) env \<Rightarrow> nat \<Rightarrow> real list \<Rightarrow> real list" where
  "shown_shared team s i self =
     assemble s i self (masked_rows (team_sees team s) (rows_of (opponent team) s))
       (masked_rows (team_notes team s) (obstacle_states_flagged s)) (concat (rows_of team s))"

lemma write_shared:
  assumes "view_shapes s" and "i < num_agents team s" and "length self = self_dim team"
  shows "write_entities (observation_slices_of team (num_cameras s) (num_targets s) (num_obstacles s))
      (masked_rows (team_sees team s) (rows_of (opponent team) s))
      (masked_rows (team_notes team s) (obstacle_states_flagged s)) (concat (rows_of team s))
      (assemble s i self (masked_rows (opponent_seen team s i) (rows_of (opponent team) s)) (obstacle_part team s i)
         (masked_rows (teammate_seen team s i) (rows_of team s)))
    = shown_shared team s i self"
proof -
  have "length (masked_rows (team_sees team s) (rows_of (opponent team) s))
      = num_agents (opponent team) s * (public_dim (opponent team) + 1)"
    using masked_rows_length [OF rows_shape(2)] rows_shape(1) by (metis length_map length_upt diff_zero team_sees_def)
  moreover have "length (masked_rows (team_notes team s) (obstacle_states_flagged s))
      = num_obstacles s * (OBSTACLE_STATE_DIM + 1)"
    using masked_rows_length [OF obstacle_rows(2) [OF assms(1)]] obstacle_rows(1) [OF assms(1)]
    by (metis length_map length_upt diff_zero team_notes_def)
  ultimately show ?thesis
    unfolding shown_shared_def
    using masked_lengths [OF assms(1,2)] part_lengths(4) [OF assms(1,2)] assms(3)
    by (intro write_entities_assemble) simp_all
qed

text \<open>C33: what sharing the field of view does: in each observation of a sharing team an opponent or an
  obstacle is shown exactly when some member of the team senses it, every teammate is shown, the
  agent's own part is kept, and a target knows of the empty warehouses any target knows of; the other
  team's observations are unchanged.\<close>

theorem shared_field_of_view_unites:
  assumes "view_shapes s"
  shows "shared_field_of_view (sc, st) s (fst (joint_observation s)) =
    (map (\<lambda>c. if sc then shown_shared CAMERA s c (self_part CAMERA s c) else observation_of CAMERA s c)
       [0..<num_cameras s],
     map (\<lambda>t. if st then shown_shared TARGET s t (with_empty_bits (known_empty s) (self_part TARGET s t))
              else observation_of TARGET s t) [0..<num_targets s])"
proof -
  define csl where "csl = observation_slices_of CAMERA (num_cameras s) (num_targets s) (num_obstacles s)"
  define tsl where "tsl = observation_slices_of TARGET (num_cameras s) (num_targets s) (num_obstacles s)"
  have cam: "write_entities csl (masked_rows (team_sees CAMERA s) (rows_of TARGET s))
      (masked_rows (team_notes CAMERA s) (obstacle_states_flagged s)) (concat (rows_of CAMERA s))
      (observation_of CAMERA s c) = shown_shared CAMERA s c (self_part CAMERA s c)"
    if "c < num_cameras s" for c
    using write_shared [OF assms, of c CAMERA] that part_lengths(1) [OF assms, of c CAMERA]
    by (simp add: csl_def observation_assembled num_agents_def opponents)
  have tgt: "write_entities tsl (masked_rows (team_sees TARGET s) (rows_of CAMERA s))
      (masked_rows (team_notes TARGET s) (obstacle_states_flagged s)) (concat (rows_of TARGET s))
      (put_slice (target_empty_bits_slice (num_cameras s) (num_targets s) (num_obstacles s)) (known_empty s)
        (observation_of TARGET s t))
      = shown_shared TARGET s t (with_empty_bits (known_empty s) (self_part TARGET s t))"
    if "t < num_targets s" for t
  proof -
    have l: "length (self_part TARGET s t) = TARGET_STATE_DIM_PRIVATE"
      using part_lengths(1) [OF assms, of t TARGET] that by (simp add: num_agents_def self_dim_def)
    then have "length (with_empty_bits (known_empty s) (self_part TARGET s t)) = self_dim TARGET"
      by (simp add: with_empty_bits_def self_dim_def TARGET_STATE_DIM_PRIVATE_def known_empty_def)
    from write_shared [OF assms _ this] that show ?thesis
      by (simp add: observation_assembled put_empty_bits [OF l] tsl_def num_agents_def opponents)
  qed
  have obs: "fst (joint_observation s) = (map (observation_of CAMERA s) [0..<num_cameras s],
      map (observation_of TARGET s) [0..<num_targets s])"
    using joint_observation_of [of s] by (metis prod.collapse)
  note any = any_opponents [OF assms, of CAMERA] any_opponents [OF assms, of TARGET]
    any_obstacles [OF assms, of CAMERA] any_obstacles [OF assms, of TARGET]
  show ?thesis
    unfolding obs shared_field_of_view_def prod.case team_slices Let_def states_public_flagged_rows [OF assms]
      csl_def [symmetric] tsl_def [symmetric] any_empty [OF assms]
      any [unfolded opponents num_agents_def team.case, folded csl_def tsl_def]
    using cam tgt by (auto simp: comp_def)
qed

theorem shared_field_of_view_unites_witness:
  "snd (shared_field_of_view (False, True) demo_start (fst (joint_observation demo_start)))
    = [shown_shared TARGET demo_start 0 (with_empty_bits (known_empty demo_start) (self_part TARGET demo_start 0))]"
proof -
  have "view_shapes demo_start" using demo_start_ok(1) by (simp add: env_ok_def)
  from shared_field_of_view_unites [OF this, of False True] show ?thesis by (simp add: demo_start_ok)
qed

end
