(* ===== verification/AgentStates.thy ===== *)
theory AgentStates
  imports SharedViews
begin

text \<open>
  \<^verbatim>\<open>mate/agents/utils.py\<close>: the state classes through which an agent reads the vectors it is given, the
  splitting, rescaling and relativising of an observation, and the two wrappers that apply them to
  every observation, \<^verbatim>\<open>mate/wrappers/rescaled_observation.py\<close> and
  \<^verbatim>\<open>mate/wrappers/relative_coordinates.py\<close> (without the single-team branch). A state object is the
  vector it holds; the cached properties are functions of it.
\<close>

subsection \<open>State classes\<close>

definition new_state :: "nat \<Rightarrow> real list \<Rightarrow> real list res" where
  "new_state n state = bind_res (check AssertionError (length state = n)) (\<lambda>_. Inr state)"

definition st_location :: "real list \<Rightarrow> vec" where
  "st_location st = (st ! 0, st ! 1)"

definition st_minus :: "real list \<Rightarrow> real list \<Rightarrow> ray" where
  "st_minus a b = ray_of_vec (vsub (st_location a) (st_location b)) (Some (st_location b))"

text \<open>\<open>CameraStatePublic\<close> and \<open>CameraStatePrivate\<close>; the norm of a number is its absolute value.\<close>

definition cs_st_radius :: "real list \<Rightarrow> real" where
  "cs_st_radius st = \<bar>st ! 2\<bar>"

definition cs_st_sight_range :: "real list \<Rightarrow> real" where
  "cs_st_sight_range st = vnorm (st ! 3, st ! 4)"

definition cs_st_orientation :: "real list \<Rightarrow> real" where
  "cs_st_orientation st = rad2deg (arctan2 (st ! 4) (st ! 3))"

definition cs_st_viewing_angle :: "real list \<Rightarrow> real" where
  "cs_st_viewing_angle st = st ! 5"

definition cs_st_max_sight_range :: "real list \<Rightarrow> real" where
  "cs_st_max_sight_range st = st ! 6"

definition cs_st_min_viewing_angle :: "real list \<Rightarrow> real" where
  "cs_st_min_viewing_angle st = cs_st_viewing_angle st * (cs_st_sight_range st / cs_st_max_sight_range st)\<^sup>2"

definition cs_st_rotation_step :: "real list \<Rightarrow> real" where
  "cs_st_rotation_step st = st ! 7"

definition cs_st_zooming_step :: "real list \<Rightarrow> real" where
  "cs_st_zooming_step st = st ! 8"

definition cs_st_action_space :: "real list \<Rightarrow> vec \<times> vec" where
  "cs_st_action_space st =
     ((- cs_st_rotation_step st, - cs_st_zooming_step st), (cs_st_rotation_step st, cs_st_zooming_step st))"

text \<open>\<open>TargetStatePublic\<close> and \<open>TargetStatePrivate\<close>; \<open>astype(np.int64)\<close> truncates.\<close>

definition ts_st_sight_range :: "real list \<Rightarrow> real" where
  "ts_st_sight_range st = st ! 2"

definition ts_st_is_loaded :: "real list \<Rightarrow> bool" where
  "ts_st_is_loaded st \<longleftrightarrow> st ! 3 \<noteq> 0"

definition ts_st_step_size :: "real list \<Rightarrow> real" where
  "ts_st_step_size st = st ! 4"

definition ts_st_capacity :: "real list \<Rightarrow> real" where
  "ts_st_capacity st = st ! 5"

definition ts_st_goal_bits :: "real list \<Rightarrow> int list" where
  "ts_st_goal_bits st = map py_int (take NUM_WAREHOUSES (drop 6 st))"

definition ts_st_empty_bits :: "real list \<Rightarrow> bool list" where
  "ts_st_empty_bits st = map (\<lambda>x. x \<noteq> 0) (take NUM_WAREHOUSES (drop (6 + NUM_WAREHOUSES) st))"

definition ts_st_action_space :: "real list \<Rightarrow> vec \<times> vec" where
  "ts_st_action_space st =
     ((- ts_st_step_size st, - ts_st_step_size st), (ts_st_step_size st, ts_st_step_size st))"

definition os_st_radius :: "real list \<Rightarrow> real" where
  "os_st_radius st = st ! 2"

lemmas state_class_defs = cs_st_radius_def cs_st_sight_range_def cs_st_orientation_def cs_st_viewing_angle_def
  cs_st_max_sight_range_def cs_st_min_viewing_angle_def cs_st_rotation_step_def cs_st_zooming_step_def
  ts_st_sight_range_def ts_st_is_loaded_def ts_st_step_size_def ts_st_capacity_def st_location_def

lemma camera_state_nth:
  "camera_state cam True ! 0 = fst (location cam)" "camera_state cam True ! 1 = snd (location cam)"
  "camera_state cam True ! 2 = radius cam"
  "camera_state cam True ! 3 = fst (polar2cartesian (sight_range cam) (orientation cam))"
  "camera_state cam True ! 4 = snd (polar2cartesian (sight_range cam) (orientation cam))"
  "camera_state cam True ! 5 = viewing_angle cam" "camera_state cam True ! 6 = max_sight_range cam"
  "camera_state cam True ! 7 = rotation_step cam" "camera_state cam True ! 8 = zooming_step cam"
  by (simp_all add: camera_state_def Let_def)

lemma polar_angle_back:
  assumes "0 < r" and "- 180 \<le> a" and "a < 180"
  shows "rad2deg (arctan2 (snd (polar2cartesian r a)) (fst (polar2cartesian r a))) = (if a = - 180 then 180 else a)"
proof (cases "a = - 180")
  case True
  have "polar2cartesian r a = polar2cartesian r 180"
    using polar_turns [of r 180 "- 1"] True by simp
  then show ?thesis
    using True arctan2_deg_polar [OF assms(1), of 180] by (simp add: arctan2_deg_def)
next
  case False
  then show ?thesis using assms arctan2_deg_polar [of r a] by (simp add: arctan2_deg_def)
qed

lemma camera_state_reads:
  assumes "camera_ok cam"
  shows "st_location (camera_state cam True) = location cam"
    and "cs_st_sight_range (camera_state cam True) = sight_range cam"
    and "cs_st_orientation (camera_state cam True) = (if orientation cam = - 180 then 180 else orientation cam)"
    and "cs_st_viewing_angle (camera_state cam True) = viewing_angle cam"
    and "cs_st_min_viewing_angle (camera_state cam True) = min_viewing_angle cam"
    and "cs_st_max_sight_range (camera_state cam True) = max_sight_range cam"
    and "cs_st_rotation_step (camera_state cam True) = rotation_step cam"
    and "cs_st_zooming_step (camera_state cam True) = zooming_step cam"
proof -
  have ok: "0 < max_sight_range cam" "area_product cam = min_viewing_angle cam * (max_sight_range cam)\<^sup>2"
    "- 180 \<le> orientation cam" "orientation cam < 180"
    using assms(1) by (simp_all add: camera_ok_def)
  note S = camera_ok_sight [OF assms(1)]
  show sight: "cs_st_sight_range (camera_state cam True) = sight_range cam"
    using S(2) vnorm_polar [of "sight_range cam" "orientation cam"]
    by (simp add: cs_st_sight_range_def camera_state_nth)
  have "viewing_angle cam * (sight_range cam / max_sight_range cam)\<^sup>2 = min_viewing_angle cam"
    using S(1) ok(1,2) by (simp add: power_divide field_simps)
  then show "cs_st_min_viewing_angle (camera_state cam True) = min_viewing_angle cam"
    by (simp add: cs_st_min_viewing_angle_def sight) (simp add: state_class_defs camera_state_nth)
  show "cs_st_orientation (camera_state cam True) = (if orientation cam = - 180 then 180 else orientation cam)"
    using polar_angle_back [OF S(2) ok(3,4)] by (simp add: cs_st_orientation_def camera_state_nth)
qed (simp_all add: st_location_def cs_st_viewing_angle_def cs_st_max_sight_range_def cs_st_rotation_step_def
    cs_st_zooming_step_def camera_state_nth del: One_nat_def)

text \<open>What a camera agent reads from its private state is what the camera is: location, radius,
  sight range, viewing angle, the limits and steps, even the minimal viewing angle, which is not in
  the vector but is recovered from the sector area; the orientation is read exactly except that the
  camera's -180 degrees reads as 180.\<close>

lemma camera_state_read_back:
  assumes "camera_ok cam" and "0 \<le> radius cam"
  shows "st_location (camera_state cam True) = location cam
    \<and> cs_st_radius (camera_state cam True) = radius cam
    \<and> cs_st_sight_range (camera_state cam True) = sight_range cam
    \<and> cs_st_orientation (camera_state cam True) = (if orientation cam = - 180 then 180 else orientation cam)
    \<and> cs_st_viewing_angle (camera_state cam True) = viewing_angle cam
    \<and> cs_st_min_viewing_angle (camera_state cam True) = min_viewing_angle cam
    \<and> cs_st_max_sight_range (camera_state cam True) = max_sight_range cam
    \<and> cs_st_rotation_step (camera_state cam True) = rotation_step cam
    \<and> cs_st_zooming_step (camera_state cam True) = zooming_step cam"
  using camera_state_reads [OF assms(1)] assms(2) by (simp add: cs_st_radius_def camera_state_nth del: One_nat_def)

text \<open>What a target agent reads from its private state is what the target is: location, step size,
  capacity, the load for each warehouse and the warehouses known to be empty.\<close>

lemma target_state_read_back:
  assumes "target_ok t"
  shows "st_location (target_state t True) = location t
    \<and> ts_st_step_size (target_state t True) = step_size t
    \<and> ts_st_capacity (target_state t True) = of_int (capacity t)
    \<and> ts_st_goal_bits (target_state t True) = goal_bits t
    \<and> ts_st_empty_bits (target_state t True) = empty_bits t
    \<and> (ts_st_is_loaded (target_state t False) \<longleftrightarrow> is_loaded t)"
proof -
  have len: "length (goal_bits t) = NUM_WAREHOUSES" "length (empty_bits t) = NUM_WAREHOUSES"
    using assms by (simp_all add: target_ok_def)
  have int: "map (\<lambda>x. py_int (real_of_int x)) xs = xs" for xs
    by (simp add: py_int_def map_idI)
  have "map (\<lambda>x. (of_bool x :: real) \<noteq> 0) bs = bs" for bs by (simp add: map_idI)
  then show ?thesis
    using len int
    by (simp add: st_location_def ts_st_step_size_def ts_st_capacity_def ts_st_goal_bits_def ts_st_empty_bits_def
        ts_st_is_loaded_def target_state_def Let_def comp_def NUM_WAREHOUSES_def)
qed

subsection \<open>Splitting an observation\<close>

text \<open>\<open>np.hsplit(xs, cuts)\<close> for ascending cuts.\<close>

definition hsplit :: "'a list \<Rightarrow> nat list \<Rightarrow> 'a list list" where
  "hsplit xs cuts = map (\<lambda>(a, b). take (b - a) (drop a xs)) (zip (0 # cuts) (cuts @ [length xs]))"

definition split_observation :: "team \<Rightarrow> nat \<Rightarrow> nat \<Rightarrow> nat \<Rightarrow> real list \<Rightarrow> real list list res" where
  "split_observation team nc nt no obs =
     (let indices = observation_indices_of team nc nt no
      in bind_res (check AssertionError (length obs = last indices)) (\<lambda>_.
           Inr (hsplit obs (butlast (tl indices)))))"

lemma hsplit_parts:
  assumes "length a = p" and "length b = q" and "length c = r" and "length d = t"
  shows "hsplit (a @ b @ c @ d @ e) [p, p + q, p + q + r, p + q + r + t] = [a, b, c, d, e]"
  using assms by (simp add: hsplit_def)

text \<open>Splitting cuts an observation of the environment exactly into what it was made of (preserved
  data, own state, opponents, obstacles, teammates), and an observation of any other length is refused.\<close>

lemma split_observation_parts:
  assumes "view_shapes s" and "i < num_agents team s"
  shows "split_observation team (num_cameras s) (num_targets s) (num_obstacles s) (observation_of team s i)
      = Inr [(preserved_data s)[3 := real i], self_part team s i,
             masked_rows (opponent_seen team s i) (rows_of (opponent team) s), obstacle_part team s i,
             masked_rows (teammate_seen team s i) (rows_of team s)]
    \<and> (length obs \<noteq> observation_dim team nc nt no \<longrightarrow> split_observation team nc nt no obs = Inl AssertionError)"
proof (intro conjI impI)
  have cuts: "butlast (tl (observation_indices_of team (num_cameras s) (num_targets s) (num_obstacles s)))
      = [PRESERVED_DIM, PRESERVED_DIM + self_dim team,
         PRESERVED_DIM + self_dim team + num_agents (opponent team) s * (public_dim (opponent team) + 1),
         PRESERVED_DIM + self_dim team + num_agents (opponent team) s * (public_dim (opponent team) + 1)
           + num_obstacles s * (OBSTACLE_STATE_DIM + 1)]"
    by (simp add: observation_indices Let_def num_agents_count)
  have len: "length (observation_of team s i)
      = last (observation_indices_of team (num_cameras s) (num_targets s) (num_obstacles s))"
    using length_observation_of [OF assms] by (simp add: observation_dim_def)
  note parts = part_lengths(1,4) [OF assms] part_lengths_masked [OF assms]
  show "split_observation team (num_cameras s) (num_targets s) (num_obstacles s) (observation_of team s i)
      = Inr [(preserved_data s)[3 := real i], self_part team s i,
             masked_rows (opponent_seen team s i) (rows_of (opponent team) s), obstacle_part team s i,
             masked_rows (teammate_seen team s i) (rows_of team s)]"
    unfolding split_observation_def Let_def cuts bind_check len
    using hsplit_parts [OF _ parts(1,3,2), of "(preserved_data s)[3 := real i]" PRESERVED_DIM
        "masked_rows (teammate_seen team s i) (rows_of team s)"]
    by (simp add: observation_parts)
  show "split_observation team nc nt no obs = Inl AssertionError" if "length obs \<noteq> observation_dim team nc nt no"
    using that by (simp add: split_observation_def bind_check observation_dim_def)
qed

subsection \<open>Rescaling to the unit interval\<close>

text \<open>One entry of \<open>normalize_observation\<close>: bounded below, the lower bound is subtracted; bounded on
  both sides by different bounds (and not masked out), the rest is scaled to \<open>[-1, 1]\<close>.\<close>

definition rescale_entry :: "ext \<Rightarrow> ext \<Rightarrow> bool \<Rightarrow> real \<Rightarrow> real" where
  "rescale_entry lo hi additional x =
     (case lo of
        Fin l \<Rightarrow>
          (let x1 = x - l
           in case hi of
                Fin h \<Rightarrow> if h > l \<and> additional then 2 * x1 / (h - l) - 1 else x1
              | _ \<Rightarrow> x1)
      | _ \<Rightarrow> x)"

definition normalize_observation :: "real list \<Rightarrow> box \<Rightarrow> bool list option \<Rightarrow> real list res" where
  "normalize_observation obs space additional_mask =
     (let n = length (low space);
          more = (case additional_mask of None \<Rightarrow> replicate n True | Some m \<Rightarrow> m)
      in bind_res (check AssertionError (n \<le> length obs)) (\<lambda>_.
           Inr (map (\<lambda>i. rescale_entry (low space ! i) (high space ! i) (more ! i) (obs ! i)) [0..<n] @ drop n obs)))"

definition rescale_observation :: "team \<Rightarrow> nat \<Rightarrow> nat \<Rightarrow> nat \<Rightarrow> real list \<Rightarrow> real list res" where
  "rescale_observation team nc nt no obs =
     normalize_observation obs (observation_space_of team nc nt no) None"

definition rescaled_joint ::
  "('g, 'm) env \<Rightarrow> real list list \<times> real list list \<Rightarrow> (real list list \<times> real list list) res" where
  "rescaled_joint s obs =
     bind_res (map_res (rescale_observation CAMERA (num_cameras s) (num_targets s) (num_obstacles s)) (fst obs)) (\<lambda>cs.
     bind_res (map_res (rescale_observation TARGET (num_cameras s) (num_targets s) (num_obstacles s)) (snd obs)) (\<lambda>ts.
       Inr (cs, ts)))"

definition in_bounds :: "ext \<Rightarrow> ext \<Rightarrow> real \<Rightarrow> bool" where
  "in_bounds lo hi x \<longleftrightarrow> (case lo of Fin l \<Rightarrow> l \<le> x | NInf \<Rightarrow> True | PInf \<Rightarrow> False)
     \<and> (case hi of Fin h \<Rightarrow> x \<le> h | PInf \<Rightarrow> True | NInf \<Rightarrow> False)"

text \<open>The value an entry was rescaled from.\<close>

definition restore_entry :: "ext \<Rightarrow> ext \<Rightarrow> bool \<Rightarrow> real \<Rightarrow> real" where
  "restore_entry lo hi additional y =
     (case (lo, hi) of
        (Fin l, Fin h) \<Rightarrow> if h > l \<and> additional then l + (h - l) * (y + 1) / 2 else y + l
      | (Fin l, _) \<Rightarrow> y + l
      | _ \<Rightarrow> y)"

lemma restore_rescale: "restore_entry lo hi m (rescale_entry lo hi m x) = x"
  by (auto simp: restore_entry_def rescale_entry_def Let_def field_simps split: ext.split)

lemma rescale_unit:
  assumes "in_bounds (Fin l) (Fin h) x" and "l < h"
  shows "- 1 \<le> rescale_entry (Fin l) (Fin h) True x \<and> rescale_entry (Fin l) (Fin h) True x \<le> 1"
  using assms by (simp add: rescale_entry_def in_bounds_def Let_def field_simps)

text \<open>C35: rescaling an observation of the right size or longer never fails and loses nothing: an entry
  bounded on both sides goes to \<open>[-1, 1]\<close> when it is within its bounds, one bounded below only becomes
  non-negative, the original is recovered entry by entry, and what lies beyond the space is untouched.\<close>

theorem rescale_observation_correct:
  assumes "n = observation_dim team nc nt no" and "n \<le> length obs"
    and "lows = low (observation_space_of team nc nt no)" and "highs = high (observation_space_of team nc nt no)"
  shows "\<exists>out. rescale_observation team nc nt no obs = Inr out \<and> length out = length obs \<and> drop n out = drop n obs
    \<and> (\<forall>i < n. restore_entry (lows ! i) (highs ! i) True (out ! i) = obs ! i)
    \<and> (\<forall>i < n. \<forall>l h. lows ! i = Fin l \<and> highs ! i = Fin h \<and> l < h \<and> in_bounds (Fin l) (Fin h) (obs ! i)
          \<longrightarrow> - 1 \<le> out ! i \<and> out ! i \<le> 1)
    \<and> (\<forall>i < n. \<forall>l. lows ! i = Fin l \<and> highs ! i = PInf \<and> l \<le> obs ! i \<longrightarrow> 0 \<le> out ! i)"
proof -
  have n: "length lows = n" by (simp add: assms length_observation_space)
  define out where "out = map (\<lambda>i. rescale_entry (lows ! i) (highs ! i) True (obs ! i)) [0..<n] @ drop n obs"
  have run: "rescale_observation team nc nt no obs = Inr out"
    using assms(2) n by (simp add: rescale_observation_def normalize_observation_def Let_def check_def out_def
        assms(3,4) [symmetric] cong: map_cong)
  have nth: "out ! i = rescale_entry (lows ! i) (highs ! i) True (obs ! i)" if "i < n" for i
    using that by (simp add: out_def nth_append)
  have "length out = length obs" "drop n out = drop n obs" using assms(2) by (simp_all add: out_def)
  then show ?thesis
    using run nth rescale_unit by (auto simp: restore_rescale) (auto simp: rescale_entry_def Let_def)
qed

theorem rescale_observation_correct_witness:
  "\<exists>out. rescale_observation CAMERA 0 0 0 (replicate 22 0) = Inr out \<and> length out = 22 \<and> 0 \<le> out ! 0"
proof -
  have d: "observation_dim CAMERA 0 0 0 = 22"
    by (simp add: observation_dim_def observation_indices Let_def self_dim_def team_count_def dim_defs opponent_def)
  have b: "low (observation_space_of CAMERA 0 0 0) ! 0 = Fin 0" "high (observation_space_of CAMERA 0 0 0) ! 0 = PInf"
    by (simp_all add: observation_space_of_def camera_observation_space_of_def PRESERVED_SPACE_def numeral_eq_Suc)
  from rescale_observation_correct [OF refl _ refl refl, of CAMERA 0 0 0 "replicate 22 0"] show ?thesis
    by (auto simp: d b)
qed

subsection \<open>Coordinates relative to the agent\<close>

text \<open>\<open>converted[mask] -= np.tile(origin, reps)\<close>: the masked entries in order, alternately minus the two
  coordinates of the origin.\<close>

fun sub_masked :: "vec \<Rightarrow> nat \<Rightarrow> real list \<Rightarrow> bool list \<Rightarrow> real list" where
  "sub_masked origin k (x # xs) (b # bs) =
     (if b then (x - (if even k then fst origin else snd origin)) # sub_masked origin (Suc k) xs bs
      else x # sub_masked origin k xs bs)"
| "sub_masked origin k xs bs = xs"

definition repeat_each :: "nat \<Rightarrow> bool list \<Rightarrow> bool list" where
  "repeat_each n bs = concat (map (replicate n) bs)"

text \<open>With no other entity at all, the slice of the last 0 entries is the whole array and the two masks
  do not fit: NumPy raises a \<open>ValueError\<close>.\<close>

definition convert_coordinates :: "team \<Rightarrow> nat \<Rightarrow> nat \<Rightarrow> nat \<Rightarrow> real list \<Rightarrow> real list res" where
  "convert_coordinates team nc nt no obs =
     (let n = length (low (observation_space_of team nc nt no));
          sl = observation_slices_of team nc nt no;
          converted = take n obs;
          flags = (\<lambda>sl. map (\<lambda>x. x \<noteq> 0) (slice_of converted sl));
          view_mask = repeat_each (public_dim (opponent team) + 1) (flags (opponent_mask_slice sl))
                      @ repeat_each (OBSTACLE_STATE_DIM + 1) (flags (obstacle_mask_slice sl))
                      @ repeat_each (public_dim team + 1) (flags (teammate_mask_slice sl));
          k = length view_mask;
          mask0 = coordinate_mask_of team nc nt no;
          mask = take (n - k) mask0 @ map2 (\<and>) (drop (n - k) mask0) view_mask
      in bind_res (check AssertionError (n \<le> length obs)) (\<lambda>_.
         bind_res (check ValueError (k \<noteq> 0 \<and> even (count_true mask))) (\<lambda>_.
           Inr (sub_masked (converted ! PRESERVED_DIM, converted ! (PRESERVED_DIM + 1)) 0 converted mask
                @ drop n obs))))"

definition relative_joint ::
  "('g, 'm) env \<Rightarrow> real list list \<times> real list list \<Rightarrow> (real list list \<times> real list list) res" where
  "relative_joint s obs =
     bind_res (map_res (convert_coordinates CAMERA (num_cameras s) (num_targets s) (num_obstacles s)) (fst obs)) (\<lambda>cs.
     bind_res (map_res (convert_coordinates TARGET (num_cameras s) (num_targets s) (num_obstacles s)) (snd obs)) (\<lambda>ts.
       Inr (cs, ts)))"

text \<open>A row with its first two entries, the location, relative to the origin.\<close>

definition shift_row :: "vec \<Rightarrow> real list \<Rightarrow> real list" where
  "shift_row origin row = (row ! 0 - fst origin) # (row ! 1 - snd origin) # drop 2 row"

definition row_mask :: "nat \<Rightarrow> bool \<Rightarrow> bool list" where
  "row_mask w b = (if b then range_mask w 0 2 else replicate w False)"

lemma sub_masked_append:
  "length x1 = length m1 \<Longrightarrow> sub_masked o1 k (x1 @ x2) (m1 @ m2)
    = sub_masked o1 k x1 m1 @ sub_masked o1 (k + length (filter (\<lambda>b. b) m1)) x2 m2"
proof (induction x1 arbitrary: m1 k)
  case (Cons x xs)
  then show ?case by (cases m1) auto
qed simp

lemma sub_masked_even: "even k \<Longrightarrow> sub_masked o1 (k + j) xs bs = sub_masked o1 j xs bs"
proof (induction o1 j xs bs rule: sub_masked.induct)
  case (1 o1 j x xs b bs)
  then show ?case by (simp flip: add_Suc_right)
qed simp_all

lemma sub_masked_none: "sub_masked o1 k xs (replicate n False) = xs"
  by (induction n arbitrary: xs) (case_tac [2] xs, simp_all)

lemma range_mask_02: "2 \<le> w \<Longrightarrow> range_mask w 0 2 = True # True # replicate (w - 2) False"
  by (rule nth_equalityI) (auto simp: range_mask_def nth_Cons' less_Suc_eq)

lemma row_mask_count: "2 \<le> w \<Longrightarrow> even (length (filter (\<lambda>b. b) (row_mask w b)))"
  by (simp add: row_mask_def range_mask_02)

lemma sub_masked_row:
  assumes "length row = w" and "2 \<le> w"
  shows "sub_masked o1 0 row (row_mask w b) = (if b then shift_row o1 row else row)"
proof -
  obtain x y rest where "row = x # y # rest" using assms by (metis Suc_le_length_iff numeral_2_eq_2)
  then show ?thesis using assms by (simp add: row_mask_def range_mask_02 shift_row_def sub_masked_none)
qed

lemma sub_masked_rows:
  assumes "\<forall>row \<in> set rows. length row = w" and "2 \<le> w" and "length seen = length rows"
  shows "sub_masked o1 0 (masked_rows seen rows) (concat (map (row_mask w) seen))
      = masked_rows seen (map (shift_row o1) rows)
    \<and> even (length (filter (\<lambda>b. b) (concat (map (row_mask w) seen))))"
  using assms(3,1)
proof (induction seen rows rule: list_induct2)
  case Nil
  then show ?case by (simp add: masked_rows_def)
next
  case (Cons b seen row rows)
  let ?row = "if b then row else map (\<lambda>_. 0) row"
  have w: "length ?row = length (row_mask w b)" "length row = w"
    using Cons.prems assms(2) by (auto simp: row_mask_def)
  have e: "even (length (filter (\<lambda>b. b) (row_mask w b)))" by (rule row_mask_count [OF assms(2)])
  have "sub_masked o1 0 ?row (row_mask w b) = (if b then shift_row o1 row else map (\<lambda>_. 0) row)"
    using sub_masked_row [OF _ assms(2), of ?row o1 b] w by (auto simp: row_mask_def)
  moreover have "map (\<lambda>_. 0 :: real) (shift_row o1 row) = map (\<lambda>_. 0) row"
  proof -
    obtain x y rest where "row = x # y # rest" using w(2) assms(2) by (metis Suc_le_length_iff numeral_2_eq_2)
    then show ?thesis by (simp add: shift_row_def)
  qed
  ultimately show ?case
    using Cons.IH Cons.prems e sub_masked_even [OF e, of o1 0]
    by (auto simp: masked_rows_def sub_masked_append [OF w(1)])
qed

lemma map2_append: "length a = length c \<Longrightarrow> map2 f (a @ b) (c @ d) = map2 f a c @ map2 f b d"
  by simp

lemma masked_tile:
  "map2 (\<and>) (tile (length seen) (range_mask w 0 2)) (repeat_each w seen) = concat (map (row_mask w) seen)"
proof (induction seen)
  case Nil
  then show ?case by (simp add: tile_def repeat_each_def)
next
  case (Cons b seen)
  have "map2 (\<and>) (range_mask w 0 2) (replicate w b) = row_mask w b"
    by (rule nth_equalityI) (auto simp: row_mask_def)
  then show ?case using Cons by (simp add: tile_def repeat_each_def)
qed

lemma coordinate_mask_parts:
  "coordinate_mask_of team nc nt no = (preserved_mask @ replicate (self_dim team) False)
     @ tile (team_count (opponent team) nc nt) (range_mask (public_dim (opponent team) + 1) 0 2)
     @ tile no (range_mask (OBSTACLE_STATE_DIM + 1) 0 2)
     @ tile (team_count team nc nt) (range_mask (public_dim team + 1) 0 2)"
  by (cases team) (simp_all add: coordinate_mask_of_def camera_coordinate_mask_of_def target_coordinate_mask_of_def
      self_dim_def public_dim_def opponent_def team_count_def)

definition relative_data :: "('g, 'm) env \<Rightarrow> nat \<Rightarrow> vec \<Rightarrow> real list" where
  "relative_data s i origin =
     map real [num_cameras s, num_targets s, num_obstacles s, i]
     @ concat (map (\<lambda>w. [fst w - fst origin, snd w - snd origin]) WAREHOUSES) @ [WAREHOUSE_RADIUS]"

lemma preserved_mask_eq:
  "preserved_mask = [False, False, False, False, True, True, True, True, True, True, True, True, False]"
  by (simp add: preserved_mask_def range_mask_def dim_defs upt_conv_Cons)

lemma sub_preserved:
  "sub_masked o1 0 ((preserved_data s)[3 := real i]) preserved_mask = relative_data s i o1"
  by (simp add: preserved_mask_eq preserved_data_def relative_data_def WAREHOUSES_def)

text \<open>The flags read back from masked rows whose own flag is set.\<close>

lemma mask_flags:
  assumes "\<forall>row \<in> set rows. length row = d + 1 \<and> row ! d \<noteq> 0" and "length seen = length rows"
    and "length pre = a"
  shows "map (\<lambda>x. x \<noteq> 0) (slice_of (pre @ masked_rows seen rows @ post) (slice3 (a + d) (a + length rows * (d + 1)) (d + 1)))
    = seen"
proof -
  let ?obs = "pre @ masked_rows seen rows @ post"
  have rows: "\<forall>row \<in> set rows. length row = d + 1" using assms(1) by blast
  have len: "a + length rows * (d + 1) \<le> length ?obs"
    using masked_rows_length [OF rows assms(2)] assms(3) by simp
  have flag: "?obs ! (a + d + (d + 1) * j) \<noteq> 0 \<longleftrightarrow> seen ! j" if "j < length rows" for j
  proof -
    have "snd (state_at ?obs a d j) = (seen ! j)"
      using state_at_masked [OF rows assms(2) that assms(3), of post] assms(1) that by simp
    then show ?thesis by (simp add: state_at_def Let_def ac_simps)
  qed
  show ?thesis
    unfolding slice3_of [OF len] map_map comp_def
    by (rule nth_equalityI) (use flag assms(2) in \<open>simp_all del: mult_Suc mult_Suc_right add_Suc_right\<close>)
qed

text \<open>Rows of entities with their flag: the width of the layout, and the last entry not zero.\<close>

definition flagged_rows :: "nat \<Rightarrow> nat \<Rightarrow> real list list \<Rightarrow> bool" where
  "flagged_rows n d rows \<longleftrightarrow> length rows = n \<and> (\<forall>row \<in> set rows. length row = d + 1 \<and> row ! d \<noteq> 0)"

lemma flagged_masked_length:
  "flagged_rows n d rows \<Longrightarrow> length seen = n \<Longrightarrow> length (masked_rows seen rows) = n * (d + 1)"
  using masked_rows_length [of rows "d + 1" seen] by (simp add: flagged_rows_def)

lemma flagged_shift:
  assumes "flagged_rows n d rows" and "length seen = n" and "1 \<le> d"
  shows "sub_masked o1 0 (masked_rows seen rows) (concat (map (row_mask (d + 1)) seen))
      = masked_rows seen (map (shift_row o1) rows)"
    and "even (length (filter (\<lambda>b. b) (concat (map (row_mask (d + 1)) seen))))"
    and "length (concat (map (row_mask (d + 1)) seen)) = n * (d + 1)"
proof -
  have "\<forall>row \<in> set rows. length row = d + 1" "length seen = length rows"
    using assms by (auto simp: flagged_rows_def)
  from sub_masked_rows [OF this(1) _ this(2), of o1] assms(3)
  show "sub_masked o1 0 (masked_rows seen rows) (concat (map (row_mask (d + 1)) seen))
      = masked_rows seen (map (shift_row o1) rows)"
    "even (length (filter (\<lambda>b. b) (concat (map (row_mask (d + 1)) seen))))" by simp_all
  have "\<forall>m \<in> set (map (row_mask (d + 1)) seen). length m = d + 1" by (auto simp: row_mask_def)
  from length_concat_rows [OF this] assms(2) show "length (concat (map (row_mask (d + 1)) seen)) = n * (d + 1)" by simp
qed

lemma count_true_filter: "count_true bs = int (length (filter (\<lambda>b. b) bs))"
  by (induction bs) (auto simp: count_true_def)

text \<open>C34: relativising an observation: the warehouses and every entity that is shown are given relative
  to the agent's own location, an entity that is not shown stays zero, the counts and the agent's own
  state are kept. The flat arithmetic on masks is this row by row.\<close>

theorem convert_coordinates_relative:
  fixes s :: "('g, 'm) env"
  assumes self: "length self = self_dim team"
    and ro: "flagged_rows (num_agents (opponent team) s) (public_dim (opponent team)) ro"
    and rb: "flagged_rows (num_obstacles s) OBSTACLE_STATE_DIM rb"
    and rt: "flagged_rows (num_agents team s) (public_dim team) rt"
    and seen: "length so = num_agents (opponent team) s" "length sb = num_obstacles s" "length st = num_agents team s"
    and pos: "0 < num_agents team s" and origin: "origin = (self ! 0, self ! 1)"
  shows "convert_coordinates team (num_cameras s) (num_targets s) (num_obstacles s)
      (assemble s i self (masked_rows so ro) (masked_rows sb rb) (masked_rows st rt))
    = Inr (relative_data s i origin @ self @ masked_rows so (map (shift_row origin) ro)
        @ masked_rows sb (map (shift_row origin) rb) @ masked_rows st (map (shift_row origin) rt))"
proof -
  define nO where "nO = num_agents (opponent team) s"
  define nT where "nT = num_agents team s"
  define dO where "dO = public_dim (opponent team)"
  define dT where "dT = public_dim team"
  define pre where "pre = (preserved_data s)[3 := real i] @ self"
  define obs where "obs = pre @ masked_rows so ro @ masked_rows sb rb @ masked_rows st rt"
  let ?B = "OBSTACLE_STATE_DIM"
  have obs: "assemble s i self (masked_rows so ro) (masked_rows sb rb) (masked_rows st rt) = obs"
    by (simp add: assemble_def obs_def pre_def)
  have d: "1 \<le> dO" "1 \<le> ?B" "1 \<le> dT"
    by (cases team; simp add: dO_def dT_def public_dim_def opponent_def dim_defs)+
  note R = ro [folded nO_def dO_def] rb rt [folded nT_def dT_def]
  note seen' = seen [folded nO_def nT_def]
  have pre_len: "length pre = PRESERVED_DIM + self_dim team" using self by (simp add: pre_def)
  have lens: "length (masked_rows so ro) = nO * (dO + 1)" "length (masked_rows sb rb) = num_obstacles s * (?B + 1)"
    "length (masked_rows st rt) = nT * (dT + 1)"
    using flagged_masked_length [OF R(1) seen'(1)] flagged_masked_length [OF R(2) seen'(2)]
      flagged_masked_length [OF R(3) seen'(3)] by simp_all
  define k where "k = nO * (dO + 1) + num_obstacles s * (?B + 1) + nT * (dT + 1)"
  have n: "length (low (observation_space_of team (num_cameras s) (num_targets s) (num_obstacles s))) = length pre + k"
    by (simp add: length_observation_space observation_dim_def observation_indices Let_def pre_len k_def
        nO_def nT_def dO_def dT_def num_agents_count)
  have obs_len: "length obs = length pre + k" by (simp add: obs_def lens k_def)
  have idx: "observation_indices_of team (num_cameras s) (num_targets s) (num_obstacles s) ! 2 = length pre"
    "observation_indices_of team (num_cameras s) (num_targets s) (num_obstacles s) ! 3 = length pre + length ro * (dO + 1)"
    "observation_indices_of team (num_cameras s) (num_targets s) (num_obstacles s) ! 3
      = length (pre @ masked_rows so ro)"
    "observation_indices_of team (num_cameras s) (num_targets s) (num_obstacles s) ! 4
      = length (pre @ masked_rows so ro) + length rb * (?B + 1)"
    "observation_indices_of team (num_cameras s) (num_targets s) (num_obstacles s) ! 4
      = length (pre @ masked_rows so ro @ masked_rows sb rb)"
    "observation_indices_of team (num_cameras s) (num_targets s) (num_obstacles s) ! 5
      = length (pre @ masked_rows so ro @ masked_rows sb rb) + length rt * (dT + 1)"
    using R by (simp_all add: index_values pre_len lens nO_def nT_def dO_def dT_def flagged_rows_def)
  have flags: "map (\<lambda>x. x \<noteq> 0) (slice_of obs (slice3 (length pre + dO) (length pre + length ro * (dO + 1)) (dO + 1))) = so"
    "map (\<lambda>x. x \<noteq> 0) (slice_of obs (slice3 (length (pre @ masked_rows so ro) + ?B)
        (length (pre @ masked_rows so ro) + length rb * (?B + 1)) (?B + 1))) = sb"
    "map (\<lambda>x. x \<noteq> 0) (slice_of obs (slice3 (length (pre @ masked_rows so ro @ masked_rows sb rb) + dT)
        (length (pre @ masked_rows so ro @ masked_rows sb rb) + length rt * (dT + 1)) (dT + 1))) = st"
    using mask_flags [of ro dO so pre "length pre" "masked_rows sb rb @ masked_rows st rt"]
      mask_flags [of rb ?B sb "pre @ masked_rows so ro" "length (pre @ masked_rows so ro)" "masked_rows st rt"]
      mask_flags [of rt dT st "pre @ masked_rows so ro @ masked_rows sb rb"
          "length (pre @ masked_rows so ro @ masked_rows sb rb)" "[]"]
      R seen'
    by (simp_all add: flagged_rows_def obs_def)
  define sl where "sl = observation_slices_of team (num_cameras s) (num_targets s) (num_obstacles s)"
  have sls: "opponent_mask_slice sl = slice3 (length pre + dO) (length pre + length ro * (dO + 1)) (dO + 1)"
    "obstacle_mask_slice sl = slice3 (length (pre @ masked_rows so ro) + ?B)
        (length (pre @ masked_rows so ro) + length rb * (?B + 1)) (?B + 1)"
    "teammate_mask_slice sl = slice3 (length (pre @ masked_rows so ro @ masked_rows sb rb) + dT)
        (length (pre @ masked_rows so ro @ masked_rows sb rb) + length rt * (dT + 1)) (dT + 1)"
    subgoal unfolding sl_def slices_at idx(1,2) dO_def ..
    subgoal unfolding sl_def slices_at idx(3,4) ..
    subgoal unfolding sl_def slices_at idx(5,6) dT_def ..
    done
  define vm where "vm = repeat_each (dO + 1) so @ repeat_each (?B + 1) sb @ repeat_each (dT + 1) st"
  define mask0 where "mask0 = coordinate_mask_of team (num_cameras s) (num_targets s) (num_obstacles s)"
  define rm where "rm = concat (map (row_mask (dO + 1)) so) @ concat (map (row_mask (?B + 1)) sb)
      @ concat (map (row_mask (dT + 1)) st)"
  have rep: "length (repeat_each w bs) = length bs * w" for w bs
    by (induction bs) (simp_all add: repeat_each_def)
  have vk: "length vm = k" using seen' by (simp add: vm_def rep k_def)
  have mask0: "mask0 = (preserved_mask @ replicate (self_dim team) False)
      @ tile (length so) (range_mask (dO + 1) 0 2) @ tile (length sb) (range_mask (?B + 1) 0 2)
      @ tile (length st) (range_mask (dT + 1) 0 2)"
    unfolding mask0_def coordinate_mask_parts using seen' by (simp add: nO_def nT_def dO_def dT_def num_agents_count)
  have head: "length (preserved_mask @ replicate (self_dim team) False) = length pre"
    using pre_len by simp
  have "map2 (\<and>) (drop (length pre) mask0) vm = rm"
    unfolding mask0 drop_append head [symmetric] vm_def rm_def
    by (simp add: map2_append rep masked_tile)
  then have mask: "take (length pre + k - length vm) mask0 @ map2 (\<and>) (drop (length pre + k - length vm) mask0) vm
      = (preserved_mask @ replicate (self_dim team) False) @ rm"
    using head by (simp add: vk mask0)
  note S1 = flagged_shift [OF R(1) seen'(1) d(1)] and S2 = flagged_shift [OF R(2) seen'(2) d(2)]
    and S3 = flagged_shift [OF R(3) seen'(3) d(3)]
  have sub_rm: "sub_masked origin 0 (masked_rows so ro @ masked_rows sb rb @ masked_rows st rt) rm
      = masked_rows so (map (shift_row origin) ro) @ masked_rows sb (map (shift_row origin) rb)
        @ masked_rows st (map (shift_row origin) rt)"
    unfolding rm_def using S1 S2 S3 lens sub_masked_even [OF S1(2), of origin 0] sub_masked_even [OF S2(2), of origin 0]
    by (simp add: sub_masked_append)
  have even_pre: "even (length (filter (\<lambda>b. b) (preserved_mask @ replicate (self_dim team) False)))"
    by (simp add: preserved_mask_eq)
  have sub_pre: "sub_masked origin 0 pre (preserved_mask @ replicate (self_dim team) False) = relative_data s i origin @ self"
    using sub_masked_even [of "length (filter (\<lambda>b. b) preserved_mask)" origin 0]
    by (simp add: pre_def sub_masked_append sub_preserved sub_masked_none)
  have sub: "sub_masked origin 0 obs ((preserved_mask @ replicate (self_dim team) False) @ rm)
      = relative_data s i origin @ self @ masked_rows so (map (shift_row origin) ro)
        @ masked_rows sb (map (shift_row origin) rb) @ masked_rows st (map (shift_row origin) rt)"
    unfolding obs_def sub_masked_append [OF head [symmetric]]
    using sub_masked_even [OF even_pre, of origin 0] sub_pre sub_rm by simp
  have ev: "even (count_true ((preserved_mask @ replicate (self_dim team) False) @ rm))"
    using even_pre S1(2) S2(2) S3(2) by (simp add: count_true_filter rm_def)
  have k0: "k \<noteq> 0" using pos by (simp add: k_def nT_def)
  have org: "(obs ! PRESERVED_DIM, obs ! (PRESERVED_DIM + 1)) = origin"
  proof -
    have "2 \<le> length self" using self by (cases team) (simp_all add: self_dim_def dim_defs)
    moreover from this have "self \<noteq> []" by auto
    ultimately show ?thesis by (simp add: obs_def pre_def nth_append origin)
  qed
  have flag_sl: "map (\<lambda>x. x \<noteq> 0) (slice_of obs (opponent_mask_slice sl)) = so"
    "map (\<lambda>x. x \<noteq> 0) (slice_of obs (obstacle_mask_slice sl)) = sb"
    "map (\<lambda>x. x \<noteq> 0) (slice_of obs (teammate_mask_slice sl)) = st"
    unfolding sls by (rule flags)+
  have tk: "take (length pre + k) obs = obs" "drop (length pre + k) obs = []" using obs_len by simp_all
  show ?thesis
    unfolding obs convert_coordinates_def n sl_def [symmetric] mask0_def [symmetric] Let_def tk flag_sl
      dO_def [symmetric] dT_def [symmetric] vm_def [symmetric] mask org sub
    using k0 ev obs_len by (simp add: check_def vk)
qed

theorem convert_coordinates_relative_witness:
  "convert_coordinates TARGET 1 1 1 (assemble demo_env 0 (3 # 4 # replicate 12 0)
      (masked_rows [True] [[5, 7, 1, 0, 0, 0, 1]]) (masked_rows [False] [[1, 1, 1, 1]]) (masked_rows [True] [[3, 4, 1, 0, 1]]))
    = Inr (relative_data demo_env 0 (3, 4) @ (3 # 4 # replicate 12 0) @ [2, 3, 1, 0, 0, 0, 1] @ [0, 0, 0, 0] @ [0, 0, 1, 0, 1])"
proof -
  have d: "length (3 # 4 # replicate 12 (0 :: real)) = self_dim TARGET"
    by (simp add: self_dim_def dim_defs)
  have n: "num_agents team demo_env = 1" for team by (cases team) (simp_all add: num_agents_def demo_counts)
  have r: "flagged_rows (num_agents (opponent TARGET) demo_env) (public_dim (opponent TARGET)) [[5, 7, 1, 0, 0, 0, 1]]"
    "flagged_rows (num_obstacles demo_env) OBSTACLE_STATE_DIM [[1, 1, 1, 1]]"
    "flagged_rows (num_agents TARGET demo_env) (public_dim TARGET) [[3, 4, 1, 0, 1]]"
    by (simp_all add: flagged_rows_def n demo_counts public_dim_def opponent_def dim_defs)
  show ?thesis
    using convert_coordinates_relative [OF d r, of "[True]" "[False]" "[True]" "(3, 4)" 0]
    by (simp add: n demo_counts masked_rows_def shift_row_def)
qed

end
