(* ===== verification/RuleAgents.thy ===== *)
theory RuleAgents
  imports AgentStates Guarantees
begin

text \<open>
  What the rule-based agents share, and the two simplest of them: \<^verbatim>\<open>mate/agents/base.py\<close> (generator and
  action space of an agent), \<^verbatim>\<open>mate/agents/random.py\<close> and \<^verbatim>\<open>mate/agents/naive.py\<close>. An agent owns two
  generators, its own and the one of the action space it copies from its state at every reset; drawing
  is explicit state passing, as for the environment. What an agent returns is an action; the theorems
  show that it lies in the action space of the agent, so that \<open>step\<close> carries it out unclipped.
\<close>

subsection \<open>Generator and action space\<close>

record ('m, 'g) rule_agent = "'m agent" +
  ra_random :: 'g
  ra_space_random :: 'g
  ra_low :: vec
  ra_high :: vec

definition action_space_of :: "team \<Rightarrow> real list \<Rightarrow> vec \<times> vec" where
  "action_space_of team st = (case team of CAMERA \<Rightarrow> cs_st_action_space st | TARGET \<Rightarrow> ts_st_action_space st)"

text \<open>\<open>seed\<close>: before the first reset the agent has no action space to seed.\<close>

definition agent_seed ::
  "'g rng \<Rightarrow> (int option \<Rightarrow> 'g \<times> int) \<Rightarrow> int option \<Rightarrow> bool \<Rightarrow> ('m, 'g, 'z) rule_agent_scheme
    \<Rightarrow> int list \<times> ('m, 'g, 'z) rule_agent_scheme" where
  "agent_seed R seeding seed has_space ag =
     (let (g, main) = seeding seed
      in if \<not> has_space then ([main], ag\<lparr>ra_random := g\<rparr>)
         else (let (k, g') = randint R g 0 np_int_max; (h, second) = seeding (Some k)
               in ([main, second], ag\<lparr>ra_random := g', ra_space_random := h\<rparr>)))"

text \<open>\<open>clone\<close> and \<open>spawn\<close>: deep copies, each seeded by a draw from the generator of the original.\<close>

definition agent_clone ::
  "'g rng \<Rightarrow> (int option \<Rightarrow> 'g \<times> int) \<Rightarrow> bool \<Rightarrow> ('m, 'g, 'z) rule_agent_scheme
    \<Rightarrow> ('m, 'g, 'z) rule_agent_scheme \<times> ('m, 'g, 'z) rule_agent_scheme" where
  "agent_clone R seeding has_space ag =
     (case randint R (ra_random ag) 0 np_int_max of
        (k, g) \<Rightarrow> (snd (agent_seed R seeding (Some k) has_space ag), ag\<lparr>ra_random := g\<rparr>))"

fun agent_spawn ::
  "'g rng \<Rightarrow> (int option \<Rightarrow> 'g \<times> int) \<Rightarrow> bool \<Rightarrow> nat \<Rightarrow> ('m, 'g, 'z) rule_agent_scheme
    \<Rightarrow> ('m, 'g, 'z) rule_agent_scheme list \<times> ('m, 'g, 'z) rule_agent_scheme" where
  "agent_spawn R seeding has_space 0 ag = ([], ag)"
| "agent_spawn R seeding has_space (Suc n) ag =
     (let (c, ag1) = agent_clone R seeding has_space ag;
          (cs, ag2) = agent_spawn R seeding has_space n ag1
      in (c # cs, ag2))"

definition rule_reset ::
  "'g rng \<Rightarrow> (int option \<Rightarrow> 'g \<times> int) \<Rightarrow> real list \<Rightarrow> ('m, 'g, 'z) rule_agent_scheme
    \<Rightarrow> ('m, 'g, 'z) rule_agent_scheme res" where
  "rule_reset R seeding obs ag0 =
     bind_res (agent_reset obs ag0) (\<lambda>ag.
       let (lo, hi) = action_space_of (ag_team ag) (ag_state ag);
           (k, g') = randint R (ra_random ag) 0 np_int_max
       in Inr (ag\<lparr>ra_low := lo, ra_high := hi, ra_random := g', ra_space_random := fst (seeding (Some k))\<rparr>))"

text \<open>\<open>action_space.sample()\<close> and \<open>clip(min=action_space.low, max=action_space.high)\<close>.\<close>

definition sample_action :: "'g rng \<Rightarrow> ('m, 'g, 'z) rule_agent_scheme \<Rightarrow> vec \<times> ('m, 'g, 'z) rule_agent_scheme" where
  "sample_action R ag =
     (case sample_box2 R (ra_space_random ag) (ra_low ag) (ra_high ag) of
        (p, g) \<Rightarrow> (p, ag\<lparr>ra_space_random := g\<rparr>))"

definition clip_action :: "('m, 'g, 'z) rule_agent_scheme \<Rightarrow> vec \<Rightarrow> vec" where
  "clip_action ag p = (clip (fst (ra_low ag)) (fst (ra_high ag)) (fst p), clip (snd (ra_low ag)) (snd (ra_high ag)) (snd p))"

definition in_space :: "('m, 'g, 'z) rule_agent_scheme \<Rightarrow> vec \<Rightarrow> bool" where
  "in_space ag p \<longleftrightarrow> fst (ra_low ag) \<le> fst p \<and> fst p \<le> fst (ra_high ag)
     \<and> snd (ra_low ag) \<le> snd p \<and> snd p \<le> snd (ra_high ag)"

definition space_ok :: "('m, 'g, 'z) rule_agent_scheme \<Rightarrow> bool" where
  "space_ok ag \<longleftrightarrow> ra_low ag = vneg (ra_high ag) \<and> 0 \<le> fst (ra_high ag) \<and> 0 \<le> snd (ra_high ag)"

text \<open>What \<open>check_inputs\<close> requires: an observation of the size fixed at the last reset.\<close>

definition fits :: "('m, 'z) agent_scheme \<Rightarrow> real list \<Rightarrow> bool" where
  "fits ag obs \<longleftrightarrow> length obs = ag_observation_dim ag"

subsection \<open>Random agents\<close>

record ('m, 'g) random_agent = "('m, 'g) rule_agent" +
  rd_frame_skip :: int
  rd_prev_action :: "vec option"

definition random_reset ::
  "'g rng \<Rightarrow> (int option \<Rightarrow> 'g \<times> int) \<Rightarrow> real list \<Rightarrow> ('m, 'g) random_agent \<Rightarrow> ('m, 'g) random_agent res" where
  "random_reset R seeding obs ag0 =
     bind_res (rule_reset R seeding obs ag0) (\<lambda>ag. Inr (ag\<lparr>rd_prev_action := None\<rparr>))"

text \<open>The remainder is only computed when there is a previous action.\<close>

definition random_act ::
  "'g rng \<Rightarrow> real list \<Rightarrow> ('m, 'g) random_agent \<Rightarrow> (vec \<times> ('m, 'g) random_agent) res" where
  "random_act R obs ag0 =
     bind_res (check_inputs obs ag0) (\<lambda>ag.
       case rd_prev_action ag of
         None \<Rightarrow> (case sample_action R ag of (a, ag') \<Rightarrow> Inr (a, ag'\<lparr>rd_prev_action := Some a\<rparr>))
       | Some prev \<Rightarrow>
           bind_res (check ZeroDivisionError (rd_frame_skip ag \<noteq> 0)) (\<lambda>_.
             if ag_episode_step ag mod rd_frame_skip ag = 0
             then (case sample_action R ag of (a, ag') \<Rightarrow> Inr (a, ag'\<lparr>rd_prev_action := Some a\<rparr>))
             else Inr (prev, ag)))"

subsection \<open>Naive agents\<close>

definition naive_camera_act ::
  "'g rng \<Rightarrow> real list \<Rightarrow> ('m, 'g) rule_agent \<Rightarrow> (vec \<times> ('m, 'g) rule_agent) res" where
  "naive_camera_act R obs ag0 =
     bind_res (check_inputs obs ag0) (\<lambda>ag.
       case uniform R (ra_random ag) 0 (2 / 5) of
         (u, g) \<Rightarrow> Inr (vscale u (ra_high ag), ag\<lparr>ra_random := g\<rparr>))"

record ('m, 'g) naive_target = "('m, 'g) rule_agent" +
  nt_goal :: nat
  nt_inc :: int
  nt_prev_state :: "real list"
  nt_prev_noise :: vec

definition naive_target_reset ::
  "'g rng \<Rightarrow> (int option \<Rightarrow> 'g \<times> int) \<Rightarrow> real list \<Rightarrow> ('m, 'g) naive_target \<Rightarrow> ('m, 'g) naive_target res" where
  "naive_target_reset R seeding obs ag0 =
     bind_res (rule_reset R seeding obs ag0) (\<lambda>ag1.
       let (p, ag2) = sample_action R ag1;
           (goal, g1) = choice R (ra_random ag2) [0..<NUM_WAREHOUSES];
           (i, g2) = choice R g1 [0, 1]
       in Inr (ag2\<lparr>nt_prev_state := ag_state ag2, nt_prev_noise := vscale (1 / 2) p, nt_goal := goal,
                  nt_inc := [1, - 1] ! i, ra_random := g2\<rparr>))"

definition next_goal :: "int \<Rightarrow> nat \<Rightarrow> nat" where
  "next_goal inc goal = nat ((int goal + inc) mod int NUM_WAREHOUSES)"

text \<open>The \<open>while True\<close> loop: on to the next warehouse until one is not known to be empty.\<close>

partial_function (option) skip_empty :: "int \<Rightarrow> bool list \<Rightarrow> nat \<Rightarrow> nat option" where
  "skip_empty inc emptied goal =
     (let goal' = next_goal inc goal
      in if \<not> emptied ! goal' then Some goal' else skip_empty inc emptied goal')"

definition arrived :: "real list \<Rightarrow> nat \<Rightarrow> bool" where
  "arrived st goal \<longleftrightarrow> vnorm (vsub (st_location st) (WAREHOUSES ! goal)) \<le> 9 / 10 * WAREHOUSE_RADIUS"

definition naive_goal :: "int \<Rightarrow> real list \<Rightarrow> nat \<Rightarrow> nat option" where
  "naive_goal inc st goal =
     (if \<not> arrived st goal then Some goal
      else if any_nonzero (ts_st_goal_bits st) \<or> list_all (\<lambda>b. b) (ts_st_empty_bits st) then Some (next_goal inc goal)
      else skip_empty inc (ts_st_empty_bits st) goal)"

text \<open>The step towards a place, at most the step size long, and the noise added to it: fresh noise rarely
  while the target is moving, often when it is stuck.\<close>

definition step_towards :: "real list \<Rightarrow> vec \<Rightarrow> vec" where
  "step_towards st p =
     (let action = vsub p (st_location st); n = vnorm action
      in if n > ts_st_step_size st then vscale (ts_st_step_size st / n) action else action)"

definition noise_prob :: "real list \<Rightarrow> real list \<Rightarrow> real" where
  "noise_prob st prev =
     (if vnorm (vsub (st_location st) (st_location prev)) > 1 / 5 * ts_st_step_size st then 1 / 20 else 3 / 4)"

definition draw_noise ::
  "'g rng \<Rightarrow> real \<Rightarrow> real \<Rightarrow> vec \<Rightarrow> ('m, 'g, 'z) rule_agent_scheme \<Rightarrow> vec \<times> ('m, 'g, 'z) rule_agent_scheme" where
  "draw_noise R scale prob prev_noise ag =
     (case binomial1 R (ra_random ag) prob of
        (b, g) \<Rightarrow>
          (if b \<noteq> 0 then (case sample_action R (ag\<lparr>ra_random := g\<rparr>) of (p, ag') \<Rightarrow> (vscale scale p, ag'))
           else (prev_noise, ag\<lparr>ra_random := g\<rparr>)))"

definition naive_target_act ::
  "'g rng \<Rightarrow> real list \<Rightarrow> ('m, 'g) naive_target \<Rightarrow> (vec \<times> ('m, 'g) naive_target) res option" where
  "naive_target_act R obs ag0 =
     (case check_inputs obs ag0 of
        Inl e \<Rightarrow> Some (Inl e)
      | Inr ag \<Rightarrow>
          (case naive_goal (nt_inc ag) (ag_state ag) (nt_goal ag) of
             None \<Rightarrow> None
           | Some goal \<Rightarrow>
               let st = ag_state ag;
                   action = step_towards st (WAREHOUSES ! goal);
                   (noise, ag1) = draw_noise R (1 / 2) (noise_prob st (nt_prev_state ag)) (nt_prev_noise ag)
                                    (ag\<lparr>nt_goal := goal\<rparr>)
               in Some (Inr (clip_action ag1 (vadd action noise),
                             ag1\<lparr>nt_prev_state := st, nt_prev_noise := noise\<rparr>))))"

subsection \<open>Inputs and action space\<close>

lemma self_slice_length:
  assumes "fits ag obs"
  shows "length (slice_of obs (self_state_slice (ag_slices ag))) = self_dim (ag_team ag)"
proof -
  have sl: "self_state_slice (ag_slices ag) = slice2 PRESERVED_DIM (PRESERVED_DIM + self_dim (ag_team ag))"
    by (cases "ag_team ag"; simp add: ag_slices_def observation_slices_of_def camera_observation_slices_of_def
        target_observation_slices_of_def Let_def camera_observation_indices_of_def
        target_observation_indices_of_def self_dim_def)
  have "PRESERVED_DIM + self_dim (ag_team ag) \<le> length obs"
    using assms by (simp add: fits_def ag_observation_dim_def ag_indices_def observation_indices Let_def)
  then show ?thesis unfolding sl by (simp add: slice_of_def slice_indices_def slice2_def min_def)
qed

text \<open>\<open>check_inputs\<close> on an observation that fits: the state is read, the rest of the agent is kept.\<close>

definition inputs_read :: "real list \<Rightarrow> ('m, 'z) agent_scheme \<Rightarrow> ('m, 'z) agent_scheme" where
  "inputs_read obs ag =
     ag\<lparr>ag_state := slice_of obs (self_state_slice (ag_slices ag)),
        ag_episode_step := (if ag_step_counter ag mod 2 = 0 then ag_episode_step ag + 1 else ag_episode_step ag),
        ag_step_counter := ag_step_counter ag + 1\<rparr>"

lemma check_inputs_eq:
  "check_inputs obs ag = (if fits ag obs then Inr (inputs_read obs ag) else Inl AssertionError)"
  by (simp add: check_inputs_def fits_def check_def inputs_read_def)

lemma inputs_read_sel [simp]:
  "ag_team (inputs_read obs ag) = ag_team ag" "ag_num_cameras (inputs_read obs ag) = ag_num_cameras ag"
  "ag_num_targets (inputs_read obs ag) = ag_num_targets ag" "ag_num_obstacles (inputs_read obs ag) = ag_num_obstacles ag"
  "ag_index (inputs_read obs ag) = ag_index ag"
  by (simp_all add: inputs_read_def)

lemma inputs_read_rule [simp]:
  "ra_random (inputs_read obs ag) = ra_random ag" "ra_space_random (inputs_read obs ag) = ra_space_random ag"
  "ra_low (inputs_read obs ag) = ra_low ag" "ra_high (inputs_read obs ag) = ra_high ag"
  by (simp_all add: inputs_read_def)

lemma inputs_read_state: "fits ag obs \<Longrightarrow> length (ag_state (inputs_read obs ag)) = self_dim (ag_team ag)"
  by (simp add: inputs_read_def self_slice_length)

lemma sample_action_in:
  assumes "rng_ok R" and "space_ok ag"
  shows "in_space ag (fst (sample_action R ag))"
proof -
  have "fst (ra_low ag) \<le> fst (ra_high ag)" "snd (ra_low ag) \<le> snd (ra_high ag)"
    using assms(2) by (simp_all add: space_ok_def vneg_def)
  from rng_sample_box2 [OF assms(1) this] show ?thesis
    by (simp add: in_space_def sample_action_def case_prod_beta)
qed

lemma clip_action_in: "space_ok ag \<Longrightarrow> in_space ag (clip_action ag p)"
  using clip_bounds by (simp add: in_space_def clip_action_def space_ok_def vneg_def)

text \<open>A number in the action space is what \<open>simulate\<close> applies: no clipping there.\<close>

lemma in_space_abs: "space_ok ag \<Longrightarrow> in_space ag p \<longleftrightarrow> \<bar>fst p\<bar> \<le> fst (ra_high ag) \<and> \<bar>snd p\<bar> \<le> snd (ra_high ag)"
  by (auto simp: in_space_def space_ok_def vneg_def)

subsection \<open>The naive target goes round the warehouses\<close>

definition round_trip_stop :: "int \<Rightarrow> nat \<Rightarrow> nat \<Rightarrow> nat" where
  "round_trip_stop inc goal k = nat ((int goal + int k * inc) mod int NUM_WAREHOUSES)"

lemma round_trip_stop_simps:
  "round_trip_stop inc goal (Suc 0) = next_goal inc goal"
  "round_trip_stop inc (next_goal inc goal) k = round_trip_stop inc goal (Suc k)"
  by (simp_all add: round_trip_stop_def next_goal_def dim_defs mod_simps algebra_simps)

lemma next_goal_less: "next_goal inc goal < NUM_WAREHOUSES"
  by (simp add: next_goal_def dim_defs nat_less_iff)

lemma skip_empty_first:
  assumes "1 \<le> k" and "\<not> emptied ! round_trip_stop inc goal k"
    and "\<forall>j. 1 \<le> j \<and> j < k \<longrightarrow> emptied ! round_trip_stop inc goal j"
  shows "skip_empty inc emptied goal = Some (round_trip_stop inc goal k)"
  using assms
proof (induction k arbitrary: goal)
  case (Suc k)
  show ?case
  proof (cases "k = 0")
    case True
    then show ?thesis using Suc.prems by (subst skip_empty.simps) (simp add: round_trip_stop_simps)
  next
    case False
    then have first: "emptied ! next_goal inc goal"
      using Suc.prems(3) [rule_format, of 1] by (simp add: round_trip_stop_simps)
    have "skip_empty inc emptied (next_goal inc goal) = Some (round_trip_stop inc (next_goal inc goal) k)"
      using Suc.prems False by (intro Suc.IH) (auto simp: round_trip_stop_simps)
    then show ?thesis using first by (subst skip_empty.simps) (simp add: round_trip_stop_simps)
  qed
qed simp

lemma round_trip_reaches:
  assumes "inc = 1 \<or> inc = - 1" and "goal < NUM_WAREHOUSES" and "i < NUM_WAREHOUSES"
  shows "\<exists>k. 1 \<le> k \<and> k \<le> NUM_WAREHOUSES \<and> round_trip_stop inc goal k = i"
proof -
  have g: "goal \<in> {0, 1, 2, 3}" "i \<in> {0, 1, 2, 3}" using assms(2,3) by (auto simp: dim_defs)
  have "round_trip_stop inc goal 1 = i \<or> round_trip_stop inc goal 2 = i
      \<or> round_trip_stop inc goal 3 = i \<or> round_trip_stop inc goal 4 = i"
    using assms(1) g by (auto simp: round_trip_stop_def dim_defs)
  then obtain k where k: "k \<in> {1, 2, 3, 4}" "round_trip_stop inc goal k = i" by blast
  then have "1 \<le> k" "k \<le> NUM_WAREHOUSES" by (auto simp: dim_defs)
  with k(2) show ?thesis by blast
qed

lemma skip_empty_terminates:
  assumes "inc = 1 \<or> inc = - 1" and "goal < NUM_WAREHOUSES" and "\<exists>i < NUM_WAREHOUSES. \<not> emptied ! i"
  shows "\<exists>k. 1 \<le> k \<and> k \<le> NUM_WAREHOUSES \<and> skip_empty inc emptied goal = Some (round_trip_stop inc goal k)
    \<and> \<not> emptied ! round_trip_stop inc goal k \<and> (\<forall>j. 1 \<le> j \<and> j < k \<longrightarrow> emptied ! round_trip_stop inc goal j)"
proof -
  let ?P = "\<lambda>k. 1 \<le> k \<and> \<not> emptied ! round_trip_stop inc goal k"
  obtain k0 where k0: "?P k0" "k0 \<le> NUM_WAREHOUSES" using round_trip_reaches [OF assms(1,2)] assms(3) by metis
  define k where "k = (LEAST k. ?P k)"
  have k: "?P k" "\<forall>j < k. \<not> ?P j" unfolding k_def using LeastI [of ?P, OF k0(1)] not_less_Least by blast+
  moreover have "k \<le> NUM_WAREHOUSES" using k0 k(2) by (meson leI le_trans)
  ultimately show ?thesis using skip_empty_first [of k emptied inc goal] by blast
qed

text \<open>What a target agent keeps between calls.\<close>

definition target_agent_ok :: "('m, 'g, 'z) rule_agent_scheme \<Rightarrow> bool" where
  "target_agent_ok ag \<longleftrightarrow> ag_team ag = TARGET \<and> space_ok ag"

definition naive_target_ok :: "('m, 'g) naive_target \<Rightarrow> bool" where
  "naive_target_ok ag \<longleftrightarrow> target_agent_ok ag \<and> nt_goal ag < NUM_WAREHOUSES \<and> (nt_inc ag = 1 \<or> nt_inc ag = - 1)"

lemma target_bits_length:
  "length st = self_dim TARGET \<Longrightarrow> length (ts_st_empty_bits st) = NUM_WAREHOUSES \<and> length (ts_st_goal_bits st) = NUM_WAREHOUSES"
  by (simp add: ts_st_empty_bits_def ts_st_goal_bits_def self_dim_def dim_defs)

lemma naive_goal_total:
  assumes "inc = 1 \<or> inc = - 1" and "goal < NUM_WAREHOUSES" and "length st = self_dim TARGET"
  shows "\<exists>goal'. naive_goal inc st goal = Some goal' \<and> goal' < NUM_WAREHOUSES
    \<and> (\<not> arrived st goal \<longrightarrow> goal' = goal)
    \<and> (arrived st goal \<and> \<not> any_nonzero (ts_st_goal_bits st) \<and> (\<exists>i < NUM_WAREHOUSES. \<not> ts_st_empty_bits st ! i)
         \<longrightarrow> \<not> ts_st_empty_bits st ! goal')"
proof (cases "arrived st goal \<and> \<not> any_nonzero (ts_st_goal_bits st) \<and> \<not> list_all (\<lambda>b. b) (ts_st_empty_bits st)")
  case True
  then have "\<exists>i < NUM_WAREHOUSES. \<not> ts_st_empty_bits st ! i"
    using target_bits_length [OF assms(3)] by (auto simp: list_all_length)
  from skip_empty_terminates [OF assms(1,2) this] obtain k
    where k: "skip_empty inc (ts_st_empty_bits st) goal = Some (round_trip_stop inc goal k)"
      "\<not> ts_st_empty_bits st ! round_trip_stop inc goal k" by blast
  moreover have "round_trip_stop inc goal k < NUM_WAREHOUSES"
    by (simp add: round_trip_stop_def dim_defs nat_less_iff)
  ultimately show ?thesis using True by (simp add: naive_goal_def)
next
  case False
  then show ?thesis
    using assms(2) next_goal_less target_bits_length [OF assms(3)]
    by (auto simp: naive_goal_def list_all_length)
qed

lemma draw_noise_frame:
  assumes "draw_noise R c prob prev ag = (noise, ag')"
  shows "ra_low ag' = ra_low ag \<and> ra_high ag' = ra_high ag \<and> ag_team ag' = ag_team ag
    \<and> ag_num_cameras ag' = ag_num_cameras ag \<and> ag_num_targets ag' = ag_num_targets ag
    \<and> ag_num_obstacles ag' = ag_num_obstacles ag \<and> ag_index ag' = ag_index ag \<and> ag_state ag' = ag_state ag"
  using assms by (auto simp: draw_noise_def sample_action_def split: prod.splits if_splits)

lemma draw_noise_naive:
  fixes ag :: "('m, 'g) naive_target"
  assumes "draw_noise R c prob prev ag = (noise, ag')"
  shows "nt_goal ag' = nt_goal ag \<and> nt_inc ag' = nt_inc ag"
  using assms by (auto simp: draw_noise_def sample_action_def split: prod.splits if_splits)

text \<open>C31: a naive target that has been reset always acts: the loop looking for the next warehouse ends
  after at most one round (at the first one in turn that is not known to be empty), nothing fails on an
  observation of the right size, the action lies in the action space of the target, and the agent is
  ready for the next call. It keeps its goal until it arrives, and leaves for a warehouse that may still
  have cargoes when it knows of one.\<close>

theorem naive_target_acts:
  assumes ok: "naive_target_ok ag" and obs: "fits ag obs"
  shows "\<exists>a ag'. naive_target_act R obs ag = Some (Inr (a, ag')) \<and> in_space ag a
    \<and> naive_target_ok ag' \<and> (\<forall>obs'. fits ag' obs' \<longleftrightarrow> fits ag obs')
    \<and> (\<not> arrived (ag_state ag') (nt_goal ag) \<longrightarrow> nt_goal ag' = nt_goal ag)
    \<and> (arrived (ag_state ag') (nt_goal ag) \<and> \<not> any_nonzero (ts_st_goal_bits (ag_state ag'))
        \<and> (\<exists>i < NUM_WAREHOUSES. \<not> ts_st_empty_bits (ag_state ag') ! i)
          \<longrightarrow> \<not> ts_st_empty_bits (ag_state ag') ! nt_goal ag')"
proof -
  let ?ag = "inputs_read obs ag"
  have keep: "nt_goal ?ag = nt_goal ag" "nt_inc ?ag = nt_inc ag" by (simp_all add: inputs_read_def)
  have inv: "ag_team ag = TARGET" "space_ok ag" "nt_goal ag < NUM_WAREHOUSES" "nt_inc ag = 1 \<or> nt_inc ag = - 1"
    using ok by (auto simp: naive_target_ok_def target_agent_ok_def)
  have len: "length (ag_state ?ag) = self_dim TARGET" using inputs_read_state [OF obs] inv(1) by simp
  obtain goal where goal: "naive_goal (nt_inc ag) (ag_state ?ag) (nt_goal ag) = Some goal" "goal < NUM_WAREHOUSES"
    "\<not> arrived (ag_state ?ag) (nt_goal ag) \<Longrightarrow> goal = nt_goal ag"
    "arrived (ag_state ?ag) (nt_goal ag) \<Longrightarrow> \<not> any_nonzero (ts_st_goal_bits (ag_state ?ag))
       \<Longrightarrow> \<exists>i < NUM_WAREHOUSES. \<not> ts_st_empty_bits (ag_state ?ag) ! i \<Longrightarrow> \<not> ts_st_empty_bits (ag_state ?ag) ! goal"
    using naive_goal_total [OF inv(4,3) len] by blast
  obtain noise ag1 where d: "draw_noise R (1 / 2) (noise_prob (ag_state ?ag) (nt_prev_state ?ag))
      (nt_prev_noise ?ag) (?ag\<lparr>nt_goal := goal\<rparr>) = (noise, ag1)" by fastforce
  have F: "ra_low ag1 = ra_low ag" "ra_high ag1 = ra_high ag" "ag_team ag1 = TARGET"
    "ag_num_cameras ag1 = ag_num_cameras ag" "ag_num_targets ag1 = ag_num_targets ag"
    "ag_num_obstacles ag1 = ag_num_obstacles ag" "ag_state ag1 = ag_state ?ag"
    "nt_goal ag1 = goal" "nt_inc ag1 = nt_inc ag"
    using draw_noise_frame [OF d] draw_noise_naive [OF d] inv(1) keep by simp_all
  define a where "a = clip_action ag1 (vadd (step_towards (ag_state ?ag) (WAREHOUSES ! goal)) noise)"
  define ag' where "ag' = ag1\<lparr>nt_prev_state := ag_state ?ag, nt_prev_noise := noise\<rparr>"
  have run: "naive_target_act R obs ag = Some (Inr (a, ag'))"
    using obs d by (simp add: naive_target_act_def check_inputs_eq keep goal(1) a_def ag'_def Let_def)
  have sp: "space_ok ag1" using inv(2) by (simp add: space_ok_def F)
  have act: "in_space ag a" using clip_action_in [OF sp] by (simp add: a_def in_space_def F)
  have ok': "naive_target_ok ag'"
    using sp goal(2) inv(4) by (simp add: naive_target_ok_def target_agent_ok_def ag'_def F space_ok_def)
  have fit: "fits ag' obs' \<longleftrightarrow> fits ag obs'" for obs'
    by (simp add: fits_def ag_observation_dim_def ag_indices_def ag'_def F inv(1))
  have st: "ag_state ag' = ag_state ?ag" "nt_goal ag' = goal" by (simp_all add: ag'_def F)
  show ?thesis using run act ok' fit goal(3,4) unfolding st [symmetric] by blast
qed

subsection \<open>After a reset\<close>

text \<open>The observation of an agent in a state of the environment fits the agent reset there.\<close>

definition steps_positive :: "('g, 'e) env \<Rightarrow> bool" where
  "steps_positive s \<longleftrightarrow>
     (\<forall>c \<in> set (cameras s). 0 < rotation_step c \<and> 0 < zooming_step c) \<and> (\<forall>t \<in> set (targets s). 0 < step_size t)"

lemma action_space_own:
  assumes "steps_positive s" and "i < num_agents team s" and "(lo, hi) = action_space_of team (self_part team s i)"
  shows "lo = vneg hi \<and> 0 < fst hi \<and> 0 < snd hi"
proof (cases team)
  case CAMERA
  then have "cameras s ! i \<in> set (cameras s)" using assms(2) by (simp add: num_agents_def num_cameras_def)
  then show ?thesis
    using assms(1,3) CAMERA
    by (auto simp: action_space_of_def cs_st_action_space_def self_part_def steps_positive_def vneg_def
        cs_st_rotation_step_def cs_st_zooming_step_def camera_state_nth)
next
  case TARGET
  then have "targets s ! i \<in> set (targets s)" using assms(2) by (simp add: num_agents_def num_targets_def)
  moreover have "ts_st_step_size (target_state (targets s ! i) True) = step_size (targets s ! i)"
    by (simp add: ts_st_step_size_def target_state_def)
  ultimately show ?thesis
    using assms(1,3) TARGET
    by (auto simp: action_space_of_def ts_st_action_space_def self_part_def steps_positive_def vneg_def)
qed

lemma rule_reset_ready:
  assumes "view_shapes s" and "steps_positive s" and "i < num_agents team s" and "ag_team ag0 = team"
  shows "\<exists>ag. rule_reset R seeding (observation_of team s i) ag0 = Inr ag
    \<and> ag_team ag = team \<and> space_ok ag \<and> ag_state ag = self_part team s i \<and> ag_index ag = i
    \<and> ag_num_cameras ag = num_cameras s \<and> ag_num_targets ag = num_targets s \<and> ag_num_obstacles ag = num_obstacles s
    \<and> (ra_low ag, ra_high ag) = action_space_of team (self_part team s i)"
proof -
  obtain lo hi where sp: "action_space_of team (self_part team s i) = (lo, hi)" by (rule prod.exhaust)
  have "lo = vneg hi \<and> 0 < fst hi \<and> 0 < snd hi" by (rule action_space_own [OF assms(2,3) sp [symmetric]])
  then show ?thesis
    using agent_reset_reads [OF assms(1,3,4)] sp assms(4)
    by (simp add: rule_reset_def Let_def case_prod_beta space_ok_def)
qed

lemma observation_fits:
  assumes "view_shapes s" and "j < num_agents team s" and "ag_team ag = team" and "ag_num_cameras ag = num_cameras s"
    and "ag_num_targets ag = num_targets s" and "ag_num_obstacles ag = num_obstacles s"
  shows "fits ag (observation_of team s j)"
  using length_observation_of [OF assms(1,2)] assms(3-)
  by (simp add: fits_def ag_observation_dim_def ag_indices_def observation_dim_def)

lemma naive_target_reset_ok:
  assumes R: "rng_ok R" and s: "view_shapes s" "steps_positive s" "i < num_targets s" and team: "ag_team ag0 = TARGET"
  shows "\<exists>ag. naive_target_reset R seeding (observation_of TARGET s i) ag0 = Inr ag \<and> naive_target_ok ag
    \<and> ag_team ag = TARGET \<and> ag_num_cameras ag = num_cameras s \<and> ag_num_targets ag = num_targets s
    \<and> ag_num_obstacles ag = num_obstacles s"
proof -
  have n: "i < num_agents TARGET s" using s(3) by (simp add: num_agents_def)
  obtain ag1 where ag1: "rule_reset R seeding (observation_of TARGET s i) ag0 = Inr ag1" "ag_team ag1 = TARGET"
    "space_ok ag1" "ag_num_cameras ag1 = num_cameras s" "ag_num_targets ag1 = num_targets s"
    "ag_num_obstacles ag1 = num_obstacles s"
    using rule_reset_ready [OF s(1,2) n team] by blast
  have c1: "fst (choice R g [0..<NUM_WAREHOUSES]) < NUM_WAREHOUSES" for g
    using rng_choice [OF R, of "[0..<NUM_WAREHOUSES]" g] by (simp add: dim_defs)
  have c2: "fst (choice R g [0, 1]) = 0 \<or> fst (choice R g [0, 1]) = 1" for g
    using rng_choice [OF R, of "[0, 1]" g] by auto
  have inc: "[1, - 1 :: int] ! fst (choice R g [0, 1]) = 1 \<or> [1, - 1 :: int] ! fst (choice R g [0, 1]) = - 1" for g
    using c2 [of g] by auto
  obtain p sp where p: "sample_box2 R (ra_space_random ag1) (ra_low ag1) (ra_high ag1) = (p, sp)" by fastforce
  show ?thesis
    using ag1 c1 inc
    by (simp add: naive_target_reset_def sample_action_def p Let_def case_prod_beta naive_target_ok_def
        target_agent_ok_def space_ok_def)
qed

definition demo_naive :: "(unit, nat) naive_target" where
  "demo_naive =
     \<lparr>ag_team = TARGET, ag_num_cameras = 0, ag_num_targets = 1, ag_num_obstacles = 0, ag_index = 0,
      ag_state = replicate 14 0, ag_episode_step = 0, ag_step_counter = 0, ag_last_observation = None,
      ag_last_requests = [], ag_last_responses = [], ra_random = 0, ra_space_random = 0,
      ra_low = (- 20, - 20), ra_high = (20, 20), nt_goal = 2, nt_inc = - 1, nt_prev_state = replicate 14 0,
      nt_prev_noise = (0, 0)\<rparr>"

theorem naive_target_acts_witness:
  "\<exists>a ag'. naive_target_act counter_rng (replicate 32 0) demo_naive = Some (Inr (a, ag'))
    \<and> in_space demo_naive a \<and> nt_goal ag' < NUM_WAREHOUSES"
proof -
  have "naive_target_ok demo_naive"
    by (simp add: naive_target_ok_def target_agent_ok_def space_ok_def demo_naive_def vneg_def dim_defs)
  moreover have "fits demo_naive (replicate 32 0)"
    by (simp add: fits_def ag_observation_dim_def ag_indices_def observation_indices Let_def demo_naive_def
        self_dim_def public_dim_def team_count_def opponent_def dim_defs)
  ultimately show ?thesis using naive_target_acts [of demo_naive "replicate 32 0" counter_rng]
    by (auto simp: naive_target_ok_def)
qed

lemma env_ok_steps: "env_ok s \<Longrightarrow> steps_positive s"
  by (auto simp: steps_positive_def env_ok_def view_shapes_def target_ok_def camera_ok_def in_set_conv_nth
      num_cameras_def num_targets_def)

end
