(* ===== verification/Teams.thy ===== *)
theory Teams
  imports RuleAgents
begin

text \<open>
  A team of agents playing through the environment: the functions \<open>group_reset\<close>, \<open>group_observe\<close>,
  \<open>group_communicate\<close>, \<open>group_act\<close> and \<open>group_step\<close> of \<^verbatim>\<open>mate/wrappers/single_team.py\<close>. An agent is an
  object of some subclass of \<open>AgentBase\<close>: its methods are the fields of a record \<open>handlers\<close>, over the
  states of that subclass. The environment is used only through \<open>send_messages\<close> and \<open>receive_messages\<close>,
  that is through its mailbox; \<open>send\<close> is the channel (the environment, or wrappers around it).

  The locale \<open>team_agent\<close> is what a team relies on in its agents, \<open>open_channel\<close> what it relies on in the
  channel, and \<open>talking_team\<close> proves once for both that a round of a team never fails.
\<close>

subsection \<open>Agents as objects\<close>

record ('a, 'm) handlers =
  h_id :: "'a \<Rightarrow> team \<times> nat"
  h_reset :: "real list \<Rightarrow> 'a \<Rightarrow> 'a res"
  h_observe :: "real list \<Rightarrow> 'm agent_info option \<Rightarrow> 'a \<Rightarrow> 'a res"
  h_act :: "real list \<Rightarrow> 'm agent_info option \<Rightarrow> 'a \<Rightarrow> (vec \<times> 'a) res"
  h_send_requests :: "'a \<Rightarrow> ('m message list \<times> 'a) res"
  h_receive_requests :: "'m message list \<Rightarrow> 'a \<Rightarrow> 'a res"
  h_send_responses :: "'a \<Rightarrow> ('m message list \<times> 'a) res"
  h_receive_responses :: "'m message list \<Rightarrow> 'a \<Rightarrow> 'a res"
  h_seed :: "int option \<Rightarrow> 'a \<Rightarrow> int list \<times> 'a"
  h_spawn :: "nat \<Rightarrow> 'a \<Rightarrow> 'a list \<times> 'a"

subsection \<open>Groups\<close>

text \<open>A method called on each agent with its own argument; \<open>zip\<close> stops at the shorter list.\<close>

fun call_each :: "('x \<Rightarrow> 'a \<Rightarrow> ('b \<times> 'a) res) \<Rightarrow> 'x list \<Rightarrow> 'a list \<Rightarrow> ('b list \<times> 'a list) res" where
  "call_each f (x # xs) (a # as) =
     bind_res (f x a) (\<lambda>(b, a').
     bind_res (call_each f xs as) (\<lambda>(bs, as'). Inr (b # bs, a' # as')))"
| "call_each f [] as = Inr ([], as)"
| "call_each f xs [] = Inr ([], [])"

text \<open>No infos are an endless supply of \<open>None\<close>.\<close>

definition infos_for :: "'m agent_info list option \<Rightarrow> nat \<Rightarrow> 'm agent_info option list" where
  "infos_for infos n = (case infos of None \<Rightarrow> replicate n None | Some is \<Rightarrow> map Some is)"

definition group_reset :: "('a, 'm) handlers \<Rightarrow> 'a list \<Rightarrow> real list list \<Rightarrow> 'a list res" where
  "group_reset H agents joint =
     bind_res (call_each (\<lambda>obs a. bind_res (h_reset H obs a) (\<lambda>a'. Inr ((), a'))) joint agents) (\<lambda>(_, as). Inr as)"

definition group_observe ::
  "('a, 'm) handlers \<Rightarrow> 'a list \<Rightarrow> real list list \<Rightarrow> 'm agent_info list option \<Rightarrow> 'a list res" where
  "group_observe H agents joint infos =
     bind_res (call_each (\<lambda>(obs, info) a. bind_res (h_observe H obs info a) (\<lambda>a'. Inr ((), a')))
       (zip joint (infos_for infos (length joint))) agents) (\<lambda>(_, as). Inr as)"

definition group_act ::
  "('a, 'm) handlers \<Rightarrow> 'a list \<Rightarrow> real list list \<Rightarrow> 'm agent_info list option \<Rightarrow> (vec list \<times> 'a list) res" where
  "group_act H agents joint infos =
     call_each (\<lambda>(obs, info). h_act H obs info) (zip joint (infos_for infos (length joint))) agents"

text \<open>One of the four loops of \<open>group_communicate\<close>: a call per agent, threading the mailbox.\<close>

fun round_calls :: "('a \<Rightarrow> 's \<Rightarrow> ('a \<times> 's) res) \<Rightarrow> 'a list \<Rightarrow> 's \<Rightarrow> ('a list \<times> 's) res" where
  "round_calls f [] s = Inr ([], s)"
| "round_calls f (a # as) s =
     bind_res (f a s) (\<lambda>(a', s1). bind_res (round_calls f as s1) (\<lambda>(as', s2). Inr (a' # as', s2)))"

definition send_call ::
  "('m mailbox \<Rightarrow> 'm message list \<Rightarrow> 'm mailbox res) \<Rightarrow> ('a \<Rightarrow> ('m message list \<times> 'a) res)
    \<Rightarrow> 'a \<Rightarrow> 'm mailbox \<Rightarrow> ('a \<times> 'm mailbox) res" where
  "send_call send prepare a mb = bind_res (prepare a) (\<lambda>(ms, a'). bind_res (send mb ms) (\<lambda>mb'. Inr (a', mb')))"

definition receive_call ::
  "('a \<Rightarrow> team \<times> nat) \<Rightarrow> ('m message list \<Rightarrow> 'a \<Rightarrow> 'a res) \<Rightarrow> 'a \<Rightarrow> 'm mailbox \<Rightarrow> ('a \<times> 'm mailbox) res" where
  "receive_call agent_id hear a mb =
     (case receive_for mb (fst (agent_id a)) (snd (agent_id a)) of
        (ms, mb') \<Rightarrow> bind_res (hear ms a) (\<lambda>a'. Inr (a', mb')))"

definition group_communicate ::
  "('m mailbox \<Rightarrow> 'm message list \<Rightarrow> 'm mailbox res) \<Rightarrow> ('a, 'm) handlers \<Rightarrow> 'a list \<Rightarrow> 'm mailbox
    \<Rightarrow> ('a list \<times> 'm mailbox) res" where
  "group_communicate send H agents mb =
     bind_res (round_calls (send_call send (h_send_requests H)) agents mb) (\<lambda>(as1, mb1).
     bind_res (round_calls (receive_call (h_id H) (h_receive_requests H)) as1 mb1) (\<lambda>(as2, mb2).
     bind_res (round_calls (send_call send (h_send_responses H)) as2 mb2) (\<lambda>(as3, mb3).
       round_calls (receive_call (h_id H) (h_receive_responses H)) as3 mb3)))"

definition group_step ::
  "('m mailbox \<Rightarrow> 'm message list \<Rightarrow> 'm mailbox res) \<Rightarrow> ('a, 'm) handlers \<Rightarrow> 'a list \<Rightarrow> real list list
    \<Rightarrow> 'm agent_info list option \<Rightarrow> 'm mailbox \<Rightarrow> (vec list \<times> 'a list \<times> 'm mailbox) res" where
  "group_step send H agents joint infos mb =
     bind_res (group_observe H agents joint infos) (\<lambda>as1.
     bind_res (group_communicate send H as1 mb) (\<lambda>(as2, mb2).
     bind_res (group_act H as2 joint infos) (\<lambda>(actions, as3). Inr (actions, as3, mb2))))"

subsection \<open>What a team relies on\<close>

text \<open>
  An agent of team \<open>side\<close> with number \<open>i\<close> satisfies \<open>ok i\<close> between calls; \<open>sees i\<close> are the observations it
  is prepared for, \<open>good\<close> the messages its team exchanges, \<open>legal i\<close> the actions it may choose.
\<close>

locale team_agent =
  fixes H :: "('a, 'm) handlers" and side :: team and n :: nat
    and ok :: "nat \<Rightarrow> 'a \<Rightarrow> bool" and sees :: "nat \<Rightarrow> real list \<Rightarrow> bool"
    and good :: "'m message \<Rightarrow> bool" and legal :: "nat \<Rightarrow> vec \<Rightarrow> bool"
  assumes identity: "ok i a \<Longrightarrow> h_id H a = (side, i)"
    and observes: "ok i a \<Longrightarrow> sees i obs \<Longrightarrow> \<exists>a'. h_observe H obs info a = Inr a' \<and> ok i a'"
    and acts: "ok i a \<Longrightarrow> sees i obs \<Longrightarrow> \<exists>v a'. h_act H obs info a = Inr (v, a') \<and> legal i v \<and> ok i a'"
    and requests: "ok i a \<Longrightarrow> i < n
      \<Longrightarrow> \<exists>ms a'. h_send_requests H a = Inr (ms, a') \<and> ok i a' \<and> (\<forall>m \<in> set ms. good m)"
    and responds: "ok i a \<Longrightarrow> i < n
      \<Longrightarrow> \<exists>ms a'. h_send_responses H a = Inr (ms, a') \<and> ok i a' \<and> (\<forall>m \<in> set ms. good m)"
    and hears_requests: "ok i a \<Longrightarrow> \<forall>m \<in> set ms. good m \<Longrightarrow> \<exists>a'. h_receive_requests H ms a = Inr a' \<and> ok i a'"
    and hears_responses: "ok i a \<Longrightarrow> \<forall>m \<in> set ms. good m \<Longrightarrow> \<exists>a'. h_receive_responses H ms a = Inr a' \<and> ok i a'"
    and good_inside: "good m \<Longrightarrow> msg_team m = side \<and> sender m < n \<and> (\<forall>r. recipient m = Some r \<longrightarrow> r < n)"
    and good_copy: "good m \<Longrightarrow> r < n \<Longrightarrow> good (m\<lparr>recipient := Some r, broadcasting := True\<rparr>)"
begin

lemma good_one_team: "\<forall>m \<in> set ms. good m \<Longrightarrow> one_team ms"
  using good_inside by (simp add: one_team_iff)

lemma good_in_team: "team_size mb side = n \<Longrightarrow> \<forall>m \<in> set ms. good m \<Longrightarrow> \<forall>m \<in> set ms. in_team mb m"
  using good_inside by (auto simp: in_team_def)

lemma group_observe_ok:
  assumes "list_all2 ok is agents" and "list_all2 sees is joint" and "\<forall>infos'. infos = Some infos' \<longrightarrow> length is \<le> length infos'"
  shows "\<exists>agents'. group_observe H agents joint infos = Inr agents' \<and> list_all2 ok is agents'"
proof -
  have "\<exists>bs agents'. call_each (\<lambda>(obs, info) a. bind_res (h_observe H obs info a) (\<lambda>a'. Inr ((), a'))) (zip joint is') agents
      = Inr (bs, agents') \<and> list_all2 ok is agents'" if "length is \<le> length is'" for is'
    using assms(1,2) that
  proof (induction arbitrary: joint is' rule: list_all2_induct)
    case (Cons i "is" a as)
    obtain obs joint' where j: "joint = obs # joint'" "sees i obs" "list_all2 sees is joint'"
      using Cons.prems(1) by (cases joint) auto
    obtain x xs where x: "is' = x # xs" "length is \<le> length xs" using Cons.prems(2) by (cases is') auto
    obtain a' where a': "h_observe H obs x a = Inr a'" "ok i a'" using observes [OF Cons.hyps(1) j(2)] by blast
    obtain bs as' where "call_each (\<lambda>(obs, info) a. bind_res (h_observe H obs info a) (\<lambda>a'. Inr ((), a'))) (zip joint' xs) as
        = Inr (bs, as')" "list_all2 ok is as'" using Cons.IH [OF j(3) x(2)] by blast
    then show ?case using a' by (simp add: j x)
  qed simp
  from this [of "infos_for infos (length joint)"] show ?thesis
    using assms(2,3) by (auto simp: group_observe_def infos_for_def list_all2_lengthD split: option.splits)
qed

lemma group_act_ok:
  assumes "list_all2 ok is agents" and "list_all2 sees is joint" and "\<forall>infos'. infos = Some infos' \<longrightarrow> length is \<le> length infos'"
  shows "\<exists>vs agents'. group_act H agents joint infos = Inr (vs, agents') \<and> list_all2 legal is vs \<and> list_all2 ok is agents'"
proof -
  have "\<exists>vs agents'. call_each (\<lambda>(obs, info). h_act H obs info) (zip joint is') agents = Inr (vs, agents')
      \<and> list_all2 legal is vs \<and> list_all2 ok is agents'" if "length is \<le> length is'" for is'
    using assms(1,2) that
  proof (induction arbitrary: joint is' rule: list_all2_induct)
    case (Cons i "is" a as)
    obtain obs joint' where j: "joint = obs # joint'" "sees i obs" "list_all2 sees is joint'"
      using Cons.prems(1) by (cases joint) auto
    obtain x xs where x: "is' = x # xs" "length is \<le> length xs" using Cons.prems(2) by (cases is') auto
    obtain v a' where a': "h_act H obs x a = Inr (v, a')" "legal i v" "ok i a'" using acts [OF Cons.hyps(1) j(2)] by blast
    obtain vs as' where "call_each (\<lambda>(obs, info). h_act H obs info) (zip joint' xs) as = Inr (vs, as')"
      "list_all2 legal is vs" "list_all2 ok is as'" using Cons.IH [OF j(3) x(2)] by blast
    then show ?case using a' by (simp add: j x)
  qed simp
  from this [of "infos_for infos (length joint)"] show ?thesis
    using assms(2,3) by (auto simp: group_act_def infos_for_def list_all2_lengthD split: option.splits)
qed

end

text \<open>What a team relies on in the channel: it takes every list of messages of one team between its agents.\<close>

locale open_channel = channel send route message_queues passes
  for send :: "'m mailbox \<Rightarrow> 'm message list \<Rightarrow> 'm mailbox res"
    and route :: "'m mailbox \<Rightarrow> 'm message list \<Rightarrow> 'm message list" and passes :: "'m message \<Rightarrow> bool" +
  assumes accepts: "mailbox_ok mb \<Longrightarrow> one_team ms \<Longrightarrow> \<forall>m \<in> set ms. in_team mb m
      \<Longrightarrow> \<exists>mb'. send mb ms = Inr mb' \<and> mailbox_ok mb' \<and> team_size mb' = team_size mb"
    and routes: "m' \<in> set (route mb ms) \<Longrightarrow> \<exists>m \<in> set ms. m' = m
      \<or> (\<exists>r < team_size mb (msg_team m). m' = m\<lparr>recipient := Some r, broadcasting := True\<rparr>)"
    and keeps: "send mb ms = Inr mb' \<Longrightarrow> mailbox_ok mb \<Longrightarrow> mailbox_ok mb' \<and> team_size mb' = team_size mb"
begin

text \<open>What one team sends does not reach the queues of the other.\<close>

lemma other_team_undisturbed:
  assumes "send mb ms = Inr mb'" and "\<forall>m \<in> set ms. msg_team m \<noteq> t"
  shows "message_queues mb' t = message_queues mb t"
proof
  fix i
  have "msg_team m \<noteq> t" if "m \<in> set (route mb ms)" for m
    using routes [OF that] assms(2) by auto
  then have "filter (\<lambda>m. addressed t i m \<and> passes m) (route mb ms) = []"
    by (auto simp: filter_empty_conv addressed_def)
  then show "message_queues mb' t i = message_queues mb t i" using send_waiting [OF assms(1), of t i] by simp
qed

end

lemma round_calls_ok:
  assumes "list_all2 ok is agents" and "P s"
    and "\<And>i a s. i \<in> set is \<Longrightarrow> ok i a \<Longrightarrow> P s \<Longrightarrow> \<exists>a' s'. f a s = Inr (a', s') \<and> ok i a' \<and> P s'"
  shows "\<exists>agents' s'. round_calls f agents s = Inr (agents', s') \<and> list_all2 ok is agents' \<and> P s'"
  using assms
proof (induction arbitrary: s rule: list_all2_induct)
  case (Cons i "is" a as)
  obtain a' s1 where 1: "f a s = Inr (a', s1)" "ok i a'" "P s1"
    using Cons.prems(2) [OF _ Cons.hyps(1) Cons.prems(1)] by auto
  obtain as' s2 where "round_calls f as s1 = Inr (as', s2)" "list_all2 ok is as'" "P s2"
    using Cons.IH [OF 1(3)] Cons.prems(2) by (metis list.set_intros(2))
  then show ?case using 1 by simp
qed simp

locale talking_team = team_agent H side n ok sees good legal + open_channel send route passes
  for H :: "('a, 'm) handlers" and side n ok sees and good :: "'m message \<Rightarrow> bool" and legal
    and send :: "'m mailbox \<Rightarrow> 'm message list \<Rightarrow> 'm mailbox res" and route passes
begin

text \<open>Between two calls: the team's queues hold good messages, and those of the other team are as before.\<close>

definition calm :: "(team \<Rightarrow> nat) \<Rightarrow> (nat \<Rightarrow> 'm message list) \<Rightarrow> 'm mailbox \<Rightarrow> bool" where
  "calm sizes q mb \<longleftrightarrow> mailbox_ok mb \<and> team_size mb = sizes \<and> sizes side = n
     \<and> (\<forall>i. \<forall>m \<in> set (message_queues mb side i). good m) \<and> message_queues mb (opponent side) = q"

lemma send_calm:
  assumes "calm sizes q mb" and ms: "\<forall>m \<in> set ms. good m"
  shows "\<exists>mb'. send mb ms = Inr mb' \<and> calm sizes q mb'"
proof -
  have mb: "mailbox_ok mb" "team_size mb side = n" "team_size mb = sizes"
    using assms(1) by (auto simp: calm_def)
  obtain mb' where mb': "send mb ms = Inr mb'" "mailbox_ok mb'" "team_size mb' = team_size mb"
    using accepts [OF mb(1) good_one_team [OF ms] good_in_team [OF mb(2) ms]] by blast
  have routed: "good m" if "m \<in> set (route mb ms)" for m
    using routes [OF that] ms good_copy good_inside mb(2) by metis
  then have own: "\<forall>m \<in> set (message_queues mb' side i). good m" for i
    using assms(1) send_waiting [OF mb'(1), of side i] by (auto simp: calm_def)
  have "filter (\<lambda>m. addressed (opponent side) i m \<and> passes m) (route mb ms) = []" for i
    using routed good_inside by (fastforce simp: filter_empty_conv addressed_def opponent_def split: team.splits)
  then have "message_queues mb' (opponent side) i = q i" for i
    using assms(1) send_waiting [OF mb'(1), of "opponent side" i] by (simp add: calm_def)
  then show ?thesis using mb' own assms(1) by (auto simp: calm_def)
qed

lemma send_call_calm:
  assumes "ok i a" and "calm sizes q mb" and "\<exists>ms a'. prepare a = Inr (ms, a') \<and> ok i a' \<and> (\<forall>m \<in> set ms. good m)"
  shows "\<exists>a' mb'. send_call send prepare a mb = Inr (a', mb') \<and> ok i a' \<and> calm sizes q mb'"
  using assms(3) send_calm [OF assms(2)] by (fastforce simp: send_call_def)

lemma receive_call_calm:
  assumes "ok i a" and "calm sizes q mb"
    and "\<And>ms. \<forall>m \<in> set ms. good m \<Longrightarrow> \<exists>a'. hear ms a = Inr a' \<and> ok i a'"
  shows "\<exists>a' mb'. receive_call (h_id H) hear a mb = Inr (a', mb') \<and> ok i a' \<and> calm sizes q mb'"
proof -
  have "\<forall>m \<in> set (message_queues mb side i). good m" using assms(2) by (simp add: calm_def)
  then obtain a' where "hear (message_queues mb side i) a = Inr a'" "ok i a'" using assms(3) by blast
  then show ?thesis
    using assms(2) identity [OF assms(1)]
    by (auto simp: receive_call_def receive_for_def calm_def mailbox_ok_def opponent_def split: team.splits)
qed

lemma send_round:
  assumes "list_all2 ok is agents" and "calm sizes q mb" and "\<forall>i \<in> set is. i < n"
    and prepare: "\<And>i a. ok i a \<Longrightarrow> i < n \<Longrightarrow> \<exists>ms a'. prepare a = Inr (ms, a') \<and> ok i a' \<and> (\<forall>m \<in> set ms. good m)"
  shows "\<exists>agents' mb'. round_calls (send_call send prepare) agents mb = Inr (agents', mb')
    \<and> list_all2 ok is agents' \<and> calm sizes q mb'"
proof (rule round_calls_ok [where P = "calm sizes q", OF assms(1,2)])
  fix i a mb
  assume "i \<in> set is" "ok i a" "calm sizes q mb"
  then show "\<exists>a' mb'. send_call send prepare a mb = Inr (a', mb') \<and> ok i a' \<and> calm sizes q mb'"
    using assms(3) by (intro send_call_calm prepare) auto
qed

lemma receive_round:
  assumes "list_all2 ok is agents" and "calm sizes q mb"
    and hear: "\<And>i a ms. ok i a \<Longrightarrow> \<forall>m \<in> set ms. good m \<Longrightarrow> \<exists>a'. hear ms a = Inr a' \<and> ok i a'"
  shows "\<exists>agents' mb'. round_calls (receive_call (h_id H) hear) agents mb = Inr (agents', mb')
    \<and> list_all2 ok is agents' \<and> calm sizes q mb'"
  by (rule round_calls_ok [where P = "calm sizes q", OF assms(1,2)]) (rule receive_call_calm [OF _ _ hear])

lemma group_communicate_ok:
  assumes "list_all2 ok is agents" and "\<forall>i \<in> set is. i < n" and "calm sizes q mb"
  shows "\<exists>agents' mb'. group_communicate send H agents mb = Inr (agents', mb') \<and> list_all2 ok is agents' \<and> calm sizes q mb'"
proof -
  obtain as1 mb1 where 1: "round_calls (send_call send (h_send_requests H)) agents mb = Inr (as1, mb1)"
    "list_all2 ok is as1" "calm sizes q mb1"
    using send_round [OF assms(1,3,2), where prepare = "h_send_requests H"] requests by blast
  obtain as2 mb2 where 2: "round_calls (receive_call (h_id H) (h_receive_requests H)) as1 mb1 = Inr (as2, mb2)"
    "list_all2 ok is as2" "calm sizes q mb2"
    using receive_round [OF 1(2,3), where hear = "h_receive_requests H"] hears_requests by blast
  obtain as3 mb3 where 3: "round_calls (send_call send (h_send_responses H)) as2 mb2 = Inr (as3, mb3)"
    "list_all2 ok is as3" "calm sizes q mb3"
    using send_round [OF 2(2,3) assms(2), where prepare = "h_send_responses H"] responds by blast
  obtain as4 mb4 where 4: "round_calls (receive_call (h_id H) (h_receive_responses H)) as3 mb3 = Inr (as4, mb4)"
    "list_all2 ok is as4" "calm sizes q mb4"
    using receive_round [OF 3(2,3), where hear = "h_receive_responses H"] hears_responses by blast
  show ?thesis using 1(1) 2(1) 3(1) 4 by (simp add: group_communicate_def)
qed

lemma group_step_ok:
  assumes "list_all2 ok is agents" and "list_all2 sees is joint" and "\<forall>i \<in> set is. i < n" and "calm sizes q mb"
    and "\<forall>infos'. infos = Some infos' \<longrightarrow> length is \<le> length infos'"
  shows "\<exists>vs agents' mb'. group_step send H agents joint infos mb = Inr (vs, agents', mb')
    \<and> list_all2 legal is vs \<and> list_all2 ok is agents' \<and> calm sizes q mb'"
proof -
  obtain as1 where 1: "group_observe H agents joint infos = Inr as1" "list_all2 ok is as1"
    using group_observe_ok [OF assms(1,2,5)] by blast
  obtain as2 mb2 where 2: "group_communicate send H as1 mb = Inr (as2, mb2)" "list_all2 ok is as2" "calm sizes q mb2"
    using group_communicate_ok [OF 1(2) assms(3,4)] by blast
  obtain vs as3 where "group_act H as2 joint infos = Inr (vs, as3)" "list_all2 legal is vs" "list_all2 ok is as3"
    using group_act_ok [OF 2(2) assms(2,5)] by blast
  then show ?thesis using 1(1) 2(1,3) by (simp add: group_step_def)
qed

end

subsection \<open>The environment and a filter around it take what a team sends\<close>

lemma routes_copies:
  assumes "m' \<in> set (route_messages mb ms)"
  shows "\<exists>m \<in> set ms. m' = m \<or> (\<exists>r < team_size mb (msg_team m). m' = m\<lparr>recipient := Some r, broadcasting := True\<rparr>)"
proof -
  obtain m where m: "m \<in> set ms" "m' \<in> set (case recipient m of
      None \<Rightarrow> map (\<lambda>r. m\<lparr>recipient := Some r, broadcasting := True\<rparr>) [0..<team_size mb (msg_team m)] | Some _ \<Rightarrow> [m])"
    using assms by (auto simp: route_messages_def)
  then have "m' = m \<or> (\<exists>r < team_size mb (msg_team m). m' = m\<lparr>recipient := Some r, broadcasting := True\<rparr>)"
    by (auto split: option.splits)
  with m(1) show ?thesis by blast
qed

lemma send_messages_accepts:
  assumes "mailbox_ok mb" and "one_team ms" and "\<forall>m \<in> set ms. in_team mb m"
  shows "\<exists>mb'. send_messages mb ms = Inr mb' \<and> mailbox_ok mb' \<and> team_size mb' = team_size mb"
proof -
  obtain mb' where f: "fold_res post_message (route_messages mb ms) mb = Inr mb'"
    using fold_succeeds [OF route_in_team [OF assms(3)]] by blast
  have "is_matrix (team_size mb t) (team_size mb t) (communication_edges mb' t)" for t
    using fold_edges [OF f, of t] assms(1) by (simp add: mailbox_ok_def)
  then show ?thesis
    using fold_posted [OF f] f assms(1,2) by (auto simp: send_messages_Inr posted_def mailbox_ok_def)
qed

lemma routes_team: "m' \<in> set (route_messages mb ms) \<Longrightarrow> \<exists>m \<in> set ms. msg_team m' = msg_team m"
  using routes_copies by fastforce

lemma send_messages_keeps:
  assumes "send_messages mb ms = Inr mb'" and "mailbox_ok mb"
  shows "mailbox_ok mb' \<and> team_size mb' = team_size mb"
proof -
  have f: "fold_res post_message (route_messages mb ms) mb = Inr mb'" using assms(1) by (simp add: send_messages_Inr)
  have "is_matrix (team_size mb t) (team_size mb t) (communication_edges mb' t)" for t
    using fold_edges [OF f, of t] assms(2) by (simp add: mailbox_ok_def)
  then show ?thesis using fold_posted [OF f] assms(2) by (auto simp: posted_def mailbox_ok_def)
qed

lemma filter_send_keeps:
  "filter_send route_messages send_messages keep mb ms = Inr mb' \<Longrightarrow> mailbox_ok mb
    \<Longrightarrow> mailbox_ok mb' \<and> team_size mb' = team_size mb"
  using send_messages_keeps by (fastforce simp: filter_send_def bind_res_Inr)

interpretation open_env: open_channel send_messages route_messages "\<lambda>_. True"
  by (intro open_channel.intro env.channel_axioms open_channel_axioms.intro send_messages_accepts routes_copies send_messages_keeps)

lemma filter_res_total: "filter_res (\<lambda>m. Inr (p m)) ms = Inr (filter p ms)"
  by (induction ms) simp_all

lemma filter_send_accepts:
  assumes "mailbox_ok mb" and "one_team ms" and "\<forall>m \<in> set ms. in_team mb m"
  shows "\<exists>mb'. filter_send route_messages send_messages (\<lambda>m. Inr (p m)) mb ms = Inr mb' \<and> mailbox_ok mb'
    \<and> team_size mb' = team_size mb"
proof -
  let ?ms = "filter p (route_messages mb ms)"
  have "\<forall>m \<in> set ?ms. in_team mb m" using route_in_team [OF assms(3)] by simp
  moreover have "msg_team m = msg_team m'" if "m \<in> set ?ms" "m' \<in> set ?ms" for m m'
  proof -
    note mm = that
    obtain k where k: "k \<in> set ms" "msg_team m = msg_team k" using mm(1) routes_team [of m mb ms] by auto
    obtain k' where k': "k' \<in> set ms" "msg_team m' = msg_team k'" using mm(2) routes_team [of m' mb ms] by auto
    have "msg_team k = msg_team k'" using assms(2) k(1) k'(1) unfolding one_team_iff by blast
    then show ?thesis using k(2) k'(2) by simp
  qed
  then have "one_team ?ms" unfolding one_team_iff by blast
  ultimately show ?thesis
    using send_messages_accepts [OF assms(1), of ?ms] by (simp add: filter_send_def filter_res_total)
qed

interpretation open_filter: open_channel "filter_send route_messages send_messages (\<lambda>m. Inr (p m))" route_messages
    "\<lambda>m. (Inr (p m) :: bool res) = Inr True" for p :: "'m message \<Rightarrow> bool"
  by (intro open_channel.intro filtered.channel_axioms [of "\<lambda>m. Inr (p m)"] open_channel_axioms.intro filter_send_accepts routes_copies filter_send_keeps)

end
