(* ===== verification/GreedyCamera.thy ===== *)
theory GreedyCamera
  imports RuleAgents
begin

text \<open>
  \<^verbatim>\<open>GreedyCameraAgent\<close> of \<^verbatim>\<open>mate/agents/greedy.py\<close>. The agent remembers, per target, the last state it
  has seen or was told, and for how many steps that is still worth tracking; it turns towards the nearest
  remembered target, with the viewing angle that just encloses it, and tells its teammates what it sees.
  A message carries a dictionary with at most two keys, the sender's state and a list of target states; a
  state object is its index and its vector.
\<close>

subsection \<open>State and messages\<close>

record camera_content =
  cc_state :: "real list option"
  cc_targets :: "(nat \<times> real list) list option"

definition empty_content :: camera_content where
  "empty_content = \<lparr>cc_state = None, cc_targets = None\<rparr>"

definition targets_told :: "camera_content \<Rightarrow> (nat \<times> real list) list" where
  "targets_told m = (case cc_targets m of None \<Rightarrow> [] | Some ts \<Rightarrow> ts)"

record 'g greedy_camera = "(camera_content, 'g) rule_agent" +
  gc_memory_period :: int
  gc_filterout_unloaded :: bool
  gc_filterout_beyond_range :: bool
  gc_memory :: "(nat \<times> real list) list"
  gc_time2forget :: "int list"
  gc_never_loaded :: "bool list"
  gc_prev_action :: vec
  gc_neighbors :: "nat \<rightharpoonup> real list"
  gc_message2send :: camera_content
  gc_delay :: "int list"

definition range_factor :: real where "range_factor = 11 / 10"

definition st_dist :: "real list \<Rightarrow> real list \<Rightarrow> real" where
  "st_dist a b = r_norm (st_minus a b)"

text \<open>\<open>get_all_opponent_states\<close>: unzipping no opponents at all gives nothing to unpack.\<close>

definition seen_targets :: "('m, 'z) agent_scheme \<Rightarrow> real list \<Rightarrow> ((nat \<times> real list) list \<times> bool list) res" where
  "seen_targets ag obs =
     bind_res (get_all_opponent_states ag obs) (\<lambda>xs.
     bind_res (check ValueError (xs \<noteq> [])) (\<lambda>_.
       Inr (zip [0..<length xs] (map fst xs), map snd xs)))"

definition greedy_camera_reset ::
  "'g rng \<Rightarrow> (int option \<Rightarrow> 'g \<times> int) \<Rightarrow> real list \<Rightarrow> 'g greedy_camera \<Rightarrow> 'g greedy_camera res" where
  "greedy_camera_reset R seeding obs ag0 =
     bind_res (rule_reset R seeding obs ag0) (\<lambda>ag.
     bind_res (seen_targets ag obs) (\<lambda>(target_states, tracked_bits).
       Inr (ag\<lparr>gc_memory := target_states,
              gc_time2forget := map (\<lambda>b. gc_memory_period ag * bool_int b) tracked_bits,
              gc_never_loaded := replicate (ag_num_targets ag) True,
              gc_prev_action := (0, 0), gc_neighbors := Map.empty,
              gc_message2send := \<lparr>cc_state = Some (ag_state ag), cc_targets = None\<rparr>,
              gc_delay := replicate (ag_num_teammates ag) 0\<rparr>)))"

subsection \<open>Observing\<close>

definition see_target :: "(nat \<times> real list) list \<Rightarrow> nat \<Rightarrow> 'g greedy_camera \<Rightarrow> 'g greedy_camera" where
  "see_target target_states t ag =
     (let ts = target_states ! t; m = gc_message2send ag
      in ag\<lparr>gc_time2forget := (gc_time2forget ag)[t := gc_memory_period ag],
            gc_memory := (gc_memory ag)[t := ts],
            gc_never_loaded := (if ts_st_is_loaded (snd ts) then (gc_never_loaded ag)[t := False] else gc_never_loaded ag),
            gc_message2send := m\<lparr>cc_targets := Some (targets_told m @ [ts])\<rparr>\<rparr>)"

definition process_observation :: "real list \<Rightarrow> 'g greedy_camera \<Rightarrow> 'g greedy_camera res" where
  "process_observation obs ag =
     (let ag1 = ag\<lparr>gc_time2forget := map (\<lambda>x. max (x - 1) 0) (gc_time2forget ag)\<rparr>
      in bind_res (seen_targets ag1 obs) (\<lambda>(target_states, tracked_bits).
           Inr (fold (see_target target_states) (flatnonzero tracked_bits) ag1)))"

definition greedy_camera_observe :: "real list \<Rightarrow> 'g greedy_camera \<Rightarrow> 'g greedy_camera res" where
  "greedy_camera_observe obs ag = bind_res (check_inputs obs ag) (process_observation obs)"

subsection \<open>Acting\<close>

definition tracked_targets :: "'g greedy_camera \<Rightarrow> (nat \<times> real list) list" where
  "tracked_targets ag =
     (let st = ag_state ag;
          remembered = map (\<lambda>t. gc_memory ag ! t) (flatnonzero (map (\<lambda>x. x \<noteq> 0) (gc_time2forget ag)));
          near = (if gc_filterout_beyond_range ag
                  then filter (\<lambda>ts. st_dist (snd ts) st < range_factor * cs_st_max_sight_range st) remembered
                  else remembered)
      in if gc_filterout_unloaded ag
         then filter (\<lambda>ts. ts_st_is_loaded (snd ts) \<or> gc_never_loaded ag ! fst ts) near
         else near)"

text \<open>The viewing angle whose sector just encloses a target at the given distance: the loop runs 20 rounds
  of a fixed-point iteration from the widest angle.\<close>

definition enclose_once :: "real \<Rightarrow> real \<Rightarrow> real \<Rightarrow> real" where
  "enclose_once area away best =
     area / (away * (1 + sin_deg (min (best / 2) 90)))\<^sup>2"

definition best_viewing_angle :: "real list \<Rightarrow> real \<Rightarrow> real" where
  "best_viewing_angle st away =
     (let min_angle = cs_st_min_viewing_angle st;
          area = cs_st_viewing_angle st * (cs_st_sight_range st)\<^sup>2;
          widest = min 180 MAX_CAMERA_VIEWING_ANGLE
      in if away * (1 + sin_deg (min_angle / 2)) \<ge> cs_st_max_sight_range st then min_angle
         else if away \<le> sqrt (area / 180) / 2 then widest
         else clip min_angle MAX_CAMERA_VIEWING_ANGLE ((enclose_once area away ^^ 20) widest))"

definition act_from_target_states :: "('m, 'g, 'z) rule_agent_scheme \<Rightarrow> (nat \<times> real list) list \<Rightarrow> vec res" where
  "act_from_target_states ag target_states =
     bind_res (check AssertionError (target_states \<noteq> [])) (\<lambda>_.
       let st = ag_state ag;
           ts = snd (target_states ! argmin (map (\<lambda>ts. st_dist (snd ts) st) target_states));
           best_orientation = r_angle (st_minus ts st)
       in Inr (clip_action ag
                 (normalize_angle (best_orientation - cs_st_orientation st),
                  best_viewing_angle st (st_dist ts st) - cs_st_viewing_angle st)))"

definition greedy_camera_act :: "'g rng \<Rightarrow> real list \<Rightarrow> 'g greedy_camera \<Rightarrow> (vec \<times> 'g greedy_camera) res" where
  "greedy_camera_act R obs ag0 =
     bind_res (check_inputs obs ag0) (\<lambda>ag.
       if tracked_targets ag \<noteq> [] then
         bind_res (act_from_target_states ag (tracked_targets ag)) (\<lambda>a. Inr (a, ag\<lparr>gc_prev_action := a\<rparr>))
       else
         (case binomial1 R (ra_random ag) (1 / 10) of
            (b, g) \<Rightarrow>
              (if b \<noteq> 0 then (case sample_action R (ag\<lparr>ra_random := g\<rparr>) of (a, ag') \<Rightarrow> Inr (a, ag'\<lparr>gc_prev_action := a\<rparr>))
               else Inr (gc_prev_action ag, ag\<lparr>ra_random := g\<rparr>))))"

subsection \<open>Talking\<close>

text \<open>What is sent to one teammate: target states only to a neighbour (when the range filter is on), and of
  those only the ones in the neighbour's range.\<close>

definition content_for :: "'g greedy_camera \<Rightarrow> nat \<Rightarrow> camera_content" where
  "content_for ag c =
     (let m = gc_message2send ag
      in case cc_targets m of
           None \<Rightarrow> m
         | Some ts \<Rightarrow>
             (case gc_neighbors ag c of
                Some teammate \<Rightarrow>
                  (if gc_filterout_beyond_range ag
                   then (let near = filter (\<lambda>ts. st_dist (snd ts) teammate
                                                  < range_factor * cs_st_max_sight_range teammate) ts
                         in m\<lparr>cc_targets := (if near = [] then None else Some near)\<rparr>)
                   else m\<lparr>cc_targets := None\<rparr>)
              | None \<Rightarrow> m\<lparr>cc_targets := None\<rparr>))"

definition send_to ::
  "'g rng \<Rightarrow> nat \<Rightarrow> camera_content message list \<times> 'g greedy_camera
    \<Rightarrow> (camera_content message list \<times> 'g greedy_camera) res" where
  "send_to R c acc =
     (case acc of (out, ag) \<Rightarrow>
        if c = ag_index ag \<or> gc_delay ag ! c > 0 \<or> content_for ag c = empty_content then Inr (out, ag)
        else
          bind_res (check ValueError (gc_memory_period ag div 4 < 2 * gc_memory_period ag)) (\<lambda>_.
            case randint R (ra_random ag) (gc_memory_period ag div 4) (2 * gc_memory_period ag) of
              (delay, g) \<Rightarrow> Inr (out @ [pack_message ag (content_for ag c) (Some c)],
                                 ag\<lparr>ra_random := g, gc_delay := (gc_delay ag)[c := delay]\<rparr>)))"

definition greedy_camera_send ::
  "'g rng \<Rightarrow> 'g greedy_camera \<Rightarrow> (camera_content message list \<times> 'g greedy_camera) res" where
  "greedy_camera_send R ag =
     (let ag1 = ag\<lparr>gc_delay := map (\<lambda>x. max (x - 1) 0) (gc_delay ag)\<rparr>
      in if gc_message2send ag1 = empty_content then Inr ([], ag1)
         else bind_res (fold_res (send_to R) [0..<ag_num_cameras ag1] ([], ag1)) (\<lambda>(out, ag2).
                Inr (out, ag2\<lparr>gc_message2send := empty_content\<rparr>)))"

text \<open>The sender's state is filed twice: whatever the range test decides, the last line of its block files
  the sender as a neighbour.\<close>

definition hear_state :: "camera_content message \<Rightarrow> 'g greedy_camera \<Rightarrow> 'g greedy_camera" where
  "hear_state m ag =
     (case cc_state (content m) of
        None \<Rightarrow> ag
      | Some teammate \<Rightarrow>
          let is_neighboring = (if gc_filterout_beyond_range ag
                then st_dist teammate (ag_state ag)
                       < cs_st_max_sight_range (ag_state ag) + range_factor * cs_st_max_sight_range teammate
                else True);
              filed = (if is_neighboring then (gc_neighbors ag)(sender m \<mapsto> teammate)
                       else (gc_neighbors ag)(sender m := None))
          in ag\<lparr>gc_neighbors := filed(sender m \<mapsto> teammate)\<rparr>)"

definition hear_target :: "nat \<times> real list \<Rightarrow> 'g greedy_camera \<Rightarrow> 'g greedy_camera res" where
  "hear_target ts ag =
     bind_res (check IndexError (fst ts < length (gc_memory ag) \<and> fst ts < length (gc_time2forget ag)
                 \<and> (ts_st_is_loaded (snd ts) \<longrightarrow> fst ts < length (gc_never_loaded ag)))) (\<lambda>_.
       Inr (ag\<lparr>gc_memory := (gc_memory ag)[fst ts := ts],
              gc_time2forget := (gc_time2forget ag)[fst ts := gc_memory_period ag],
              gc_never_loaded := (if ts_st_is_loaded (snd ts) then (gc_never_loaded ag)[fst ts := False]
                                  else gc_never_loaded ag)\<rparr>))"

definition hear_message :: "camera_content message \<Rightarrow> 'g greedy_camera \<Rightarrow> 'g greedy_camera res" where
  "hear_message m ag = fold_res hear_target (targets_told (content m)) (hear_state m ag)"

definition greedy_camera_receive :: "camera_content message list \<Rightarrow> 'g greedy_camera \<Rightarrow> 'g greedy_camera res" where
  "greedy_camera_receive ms ag = fold_res hear_message ms (receive_responses ms ag)"

subsection \<open>What the agent keeps\<close>

definition valid_told :: "nat \<Rightarrow> camera_content \<Rightarrow> bool" where
  "valid_told n m \<longleftrightarrow> (\<forall>ts \<in> set (targets_told m). fst ts < n)"

definition camera_memory_ok :: "'g greedy_camera \<Rightarrow> bool" where
  "camera_memory_ok ag \<longleftrightarrow>
     (let n = ag_num_targets ag
      in 0 < n \<and> length (gc_memory ag) = n \<and> length (gc_time2forget ag) = n \<and> length (gc_never_loaded ag) = n
       \<and> (\<forall>t < n. fst (gc_memory ag ! t) = t)
       \<and> (\<forall>t < n. 0 \<le> gc_time2forget ag ! t \<and> gc_time2forget ag ! t \<le> gc_memory_period ag)
       \<and> 1 \<le> gc_memory_period ag \<and> length (gc_delay ag) = ag_num_cameras ag
       \<and> valid_told n (gc_message2send ag))"

definition greedy_camera_ok :: "'g greedy_camera \<Rightarrow> bool" where
  "greedy_camera_ok ag \<longleftrightarrow>
     ag_team ag = CAMERA \<and> space_ok ag \<and> in_space ag (gc_prev_action ag) \<and> camera_memory_ok ag"

text \<open>What no call after the reset changes.\<close>

definition gc_static :: "'g greedy_camera \<Rightarrow> (team \<times> nat \<times> nat \<times> nat \<times> nat) \<times> (vec \<times> vec) \<times> int \<times> bool \<times> bool" where
  "gc_static ag =
     ((ag_team ag, ag_index ag, ag_num_cameras ag, ag_num_targets ag, ag_num_obstacles ag),
      (ra_low ag, ra_high ag), gc_memory_period ag, gc_filterout_unloaded ag, gc_filterout_beyond_range ag)"

lemma static_fits: "gc_static ag' = gc_static ag \<Longrightarrow> fits ag' obs \<longleftrightarrow> fits ag obs"
  by (simp add: gc_static_def fits_def ag_observation_dim_def ag_indices_def)

lemma static_space:
  "gc_static ag' = gc_static ag \<Longrightarrow> space_ok ag' \<longleftrightarrow> space_ok ag"
  "gc_static ag' = gc_static ag \<Longrightarrow> in_space ag' p \<longleftrightarrow> in_space ag p"
  by (simp_all add: gc_static_def space_ok_def in_space_def)

lemma static_ok:
  assumes "gc_static ag' = gc_static ag" and "gc_prev_action ag' = gc_prev_action ag" and "camera_memory_ok ag'"
    and "greedy_camera_ok ag"
  shows "greedy_camera_ok ag'"
  using assms static_space [OF assms(1)] by (simp add: greedy_camera_ok_def gc_static_def)

text \<open>What the agent reads of the targets: one row per target, in order.\<close>

definition target_rows_of :: "('m, 'z) agent_scheme \<Rightarrow> real list \<Rightarrow> (real list \<times> bool) list" where
  "target_rows_of ag obs =
     map (\<lambda>t. state_at obs (ag_indices ag ! 2) (public_dim (opponent (ag_team ag))) t) [0..<ag_num_opponents ag]"

lemma seen_targets_eq:
  "seen_targets ag obs =
     (if ag_num_opponents ag = 0 then Inl ValueError
      else Inr (zip [0..<ag_num_opponents ag] (map fst (target_rows_of ag obs)), map snd (target_rows_of ag obs)))"
proof -
  have "map_res (\<lambda>i. get_opponent_state ag obs (int i)) is
      = Inr (map (\<lambda>t. state_at obs (ag_indices ag ! 2) (public_dim (opponent (ag_team ag))) t) is)"
    if "\<forall>i \<in> set is. i < ag_num_opponents ag" for "is"
    using that by (induction "is") (simp_all add: get_opponent_state_def)
  then have "get_all_opponent_states ag obs = Inr (target_rows_of ag obs)"
    by (simp add: get_all_opponent_states_def target_rows_of_def)
  moreover have "length (target_rows_of ag obs) = ag_num_opponents ag"
    "target_rows_of ag obs = [] \<longleftrightarrow> ag_num_opponents ag = 0" by (simp_all add: target_rows_of_def)
  ultimately show ?thesis by (simp add: seen_targets_def check_def)
qed

lemma seen_targets_camera:
  assumes "ag_team ag = CAMERA" and "0 < ag_num_targets ag"
  shows "\<exists>states bits. seen_targets ag obs = Inr (states, bits) \<and> length states = ag_num_targets ag
    \<and> length bits = ag_num_targets ag \<and> (\<forall>t < ag_num_targets ag. fst (states ! t) = t)"
proof -
  have "ag_num_opponents ag = ag_num_targets ag"
    using assms(1) by (simp add: ag_num_opponents_def opponent_def team_count_def)
  then show ?thesis using assms(2) by (simp add: seen_targets_eq target_rows_of_def)
qed

subsection \<open>Every call keeps it\<close>

lemma see_target_ok:
  assumes "camera_memory_ok ag" and "t < ag_num_targets ag" and "fst (states ! t) = t"
  shows "camera_memory_ok (see_target states t ag) \<and> gc_static (see_target states t ag) = gc_static ag
    \<and> gc_prev_action (see_target states t ag) = gc_prev_action ag"
  using assms
  by (auto simp: camera_memory_ok_def see_target_def Let_def gc_static_def nth_list_update valid_told_def
      targets_told_def split: option.splits)

lemma fold_see_target_ok:
  assumes "camera_memory_ok ag" and "\<forall>t \<in> set ks. t < ag_num_targets ag \<and> fst (states ! t) = t"
  shows "camera_memory_ok (fold (see_target states) ks ag) \<and> gc_static (fold (see_target states) ks ag) = gc_static ag
    \<and> gc_prev_action (fold (see_target states) ks ag) = gc_prev_action ag"
  using assms
proof (induction ks arbitrary: ag)
  case (Cons t ks)
  from see_target_ok [of ag t states] Cons.prems
  have 1: "camera_memory_ok (see_target states t ag)" "gc_static (see_target states t ag) = gc_static ag"
    "gc_prev_action (see_target states t ag) = gc_prev_action ag" by auto
  moreover have "ag_num_targets (see_target states t ag) = ag_num_targets ag" using 1(2) by (simp add: gc_static_def)
  ultimately show ?case using Cons.IH [of "see_target states t ag"] Cons.prems by simp
qed simp

lemma process_observation_ok:
  assumes "camera_memory_ok ag" and "ag_team ag = CAMERA"
  shows "\<exists>ag'. process_observation obs ag = Inr ag' \<and> camera_memory_ok ag' \<and> gc_static ag' = gc_static ag
    \<and> gc_prev_action ag' = gc_prev_action ag"
proof -
  let ?ag1 = "ag\<lparr>gc_time2forget := map (\<lambda>x. max (x - 1) 0) (gc_time2forget ag)\<rparr>"
  have ok1: "camera_memory_ok ?ag1" using assms(1) by (auto simp: camera_memory_ok_def Let_def)
  obtain states bits where s: "seen_targets ?ag1 obs = Inr (states, bits)" "length bits = ag_num_targets ?ag1"
    "\<forall>t < ag_num_targets ?ag1. fst (states ! t) = t"
    using seen_targets_camera [of ?ag1 obs] assms by (auto simp: camera_memory_ok_def Let_def)
  have "\<forall>t \<in> set (flatnonzero bits). t < ag_num_targets ?ag1 \<and> fst (states ! t) = t"
    using s(2,3) by (simp add: set_flatnonzero)
  from fold_see_target_ok [OF ok1 this] show ?thesis
    by (simp add: process_observation_def s(1) gc_static_def)
qed

lemma greedy_observe_ok:
  assumes "greedy_camera_ok ag" and "fits ag obs"
  shows "\<exists>ag'. greedy_camera_observe obs ag = Inr ag' \<and> greedy_camera_ok ag' \<and> gc_static ag' = gc_static ag"
proof -
  let ?ag = "inputs_read obs ag"
  have ok: "camera_memory_ok ?ag" "ag_team ?ag = CAMERA" "gc_static ?ag = gc_static ag"
    "gc_prev_action ?ag = gc_prev_action ag"
    using assms(1) by (auto simp: inputs_read_def greedy_camera_ok_def camera_memory_ok_def gc_static_def Let_def)
  obtain ag' where ag': "process_observation obs ?ag = Inr ag'" "camera_memory_ok ag'" "gc_static ag' = gc_static ?ag"
    "gc_prev_action ag' = gc_prev_action ?ag"
    using process_observation_ok [OF ok(1,2)] by blast
  have "gc_static ag' = gc_static ag" "gc_prev_action ag' = gc_prev_action ag" using ag' ok by simp_all
  from static_ok [OF this ag'(2) assms(1)] this(1) ag'(1) show ?thesis
    by (simp add: greedy_camera_observe_def check_inputs_eq assms(2))
qed

lemma greedy_act_ok:
  assumes R: "rng_ok R" and ok: "greedy_camera_ok ag" and fit: "fits ag obs"
  shows "\<exists>a ag'. greedy_camera_act R obs ag = Inr (a, ag') \<and> in_space ag a \<and> greedy_camera_ok ag'
    \<and> gc_static ag' = gc_static ag"
proof -
  let ?ag = "inputs_read obs ag"
  have st: "gc_static ?ag = gc_static ag" "gc_prev_action ?ag = gc_prev_action ag"
    by (simp_all add: gc_static_def inputs_read_def)
  have mem: "camera_memory_ok ?ag" using ok by (auto simp: inputs_read_def greedy_camera_ok_def camera_memory_ok_def Let_def)
  have ok1: "greedy_camera_ok ?ag" by (rule static_ok [OF st mem ok])
  have keep: "gc_static (?ag\<lparr>ra_random := g, ra_space_random := g', gc_prev_action := a\<rparr>) = gc_static ag
      \<and> (in_space ag a \<longrightarrow> greedy_camera_ok (?ag\<lparr>ra_random := g, ra_space_random := g', gc_prev_action := a\<rparr>))" for g g' a
  proof -
    have "gc_static (?ag\<lparr>ra_random := g, ra_space_random := g', gc_prev_action := a\<rparr>) = gc_static ag"
      using st by (simp add: gc_static_def)
    then show ?thesis
      using ok1 by (simp add: greedy_camera_ok_def camera_memory_ok_def Let_def in_space_def space_ok_def)
  qed
  have keep_prev: "gc_static (?ag\<lparr>gc_prev_action := a\<rparr>) = gc_static ag
      \<and> (in_space ag a \<longrightarrow> greedy_camera_ok (?ag\<lparr>gc_prev_action := a\<rparr>))" for a
    using st ok1 by (simp add: greedy_camera_ok_def camera_memory_ok_def Let_def in_space_def space_ok_def gc_static_def)
  have keep_random: "gc_static (?ag\<lparr>ra_random := g\<rparr>) = gc_static ag \<and> greedy_camera_ok (?ag\<lparr>ra_random := g\<rparr>)" for g
    using st ok1 by (auto simp: greedy_camera_ok_def camera_memory_ok_def Let_def in_space_def space_ok_def gc_static_def)
  have sp: "space_ok ag" "in_space ag (gc_prev_action ag)" using ok by (simp_all add: greedy_camera_ok_def)
  show ?thesis
  proof (cases "tracked_targets ?ag = []")
    case False
    then obtain p where p: "act_from_target_states ?ag (tracked_targets ?ag) = Inr (clip_action ?ag p)"
      by (simp add: act_from_target_states_def Let_def check_def)
    have "clip_action ?ag p = clip_action ag p" by (simp add: clip_action_def)
    then have "in_space ag (clip_action ?ag p)" using clip_action_in [OF sp(1)] by simp
    then show ?thesis using False p keep_prev [of "clip_action ?ag p"]
      by (simp add: greedy_camera_act_def check_inputs_eq fit)
  next
    case True
    obtain b g where b: "binomial1 R (ra_random ?ag) (1 / 10) = (b, g)" by (rule prod.exhaust)
    show ?thesis
    proof (cases "b = 0")
      case True
      show ?thesis
        using True b st(2) sp(2) keep_random [of g] \<open>tracked_targets ?ag = []\<close>
        by (simp add: greedy_camera_act_def check_inputs_eq fit)
    next
      case False
      obtain a g' where a: "sample_box2 R (ra_space_random ag) (ra_low ag) (ra_high ag) = (a, g')" by (rule prod.exhaust)
      have "in_space ag a" using sample_action_in [OF R sp(1)] a by (simp add: sample_action_def)
      then show ?thesis
        using False b a keep [of a g' g] \<open>tracked_targets ?ag = []\<close>
        by (simp add: greedy_camera_act_def check_inputs_eq fit sample_action_def)
    qed
  qed
qed

definition camera_message_ok :: "'g greedy_camera \<Rightarrow> camera_content message \<Rightarrow> bool" where
  "camera_message_ok ag m \<longleftrightarrow>
     sender m = ag_index ag \<and> msg_team m = ag_team ag \<and> \<not> broadcasting m \<and> content m \<noteq> empty_content
   \<and> (\<exists>c < ag_num_cameras ag. c \<noteq> ag_index ag \<and> recipient m = Some c) \<and> valid_told (ag_num_targets ag) (content m)"

lemma camera_message_static:
  "gc_static ag' = gc_static ag \<Longrightarrow> camera_message_ok ag' m \<longleftrightarrow> camera_message_ok ag m"
  by (simp add: camera_message_ok_def gc_static_def)

lemma content_for_valid: "valid_told n (gc_message2send ag) \<Longrightarrow> valid_told n (content_for ag c)"
  by (fastforce simp: content_for_def valid_told_def targets_told_def Let_def split: option.splits if_splits)

lemma send_to_ok:
  assumes "camera_memory_ok ag" and "c < ag_num_cameras ag" and "list_all (camera_message_ok ag) out"
  shows "\<exists>out' ag'. send_to R c (out, ag) = Inr (out', ag') \<and> camera_memory_ok ag' \<and> gc_static ag' = gc_static ag
    \<and> gc_prev_action ag' = gc_prev_action ag \<and> list_all (camera_message_ok ag') out'"
proof (cases "c = ag_index ag \<or> gc_delay ag ! c > 0 \<or> content_for ag c = empty_content")
  case True
  then show ?thesis using assms by (simp add: send_to_def)
next
  case False
  obtain delay g where d: "randint R (ra_random ag) (gc_memory_period ag div 4) (2 * gc_memory_period ag) = (delay, g)"
    by (rule prod.exhaust)
  have p: "gc_memory_period ag div 4 < 2 * gc_memory_period ag"
    using assms(1) by (simp add: camera_memory_ok_def Let_def) linarith
  define ag' where "ag' = ag\<lparr>ra_random := g, gc_delay := (gc_delay ag)[c := delay]\<rparr>"
  define m where "m = pack_message ag (content_for ag c) (Some c)"
  have run: "send_to R c (out, ag) = Inr (out @ [m], ag')"
    using False d p by (simp add: send_to_def check_def ag'_def m_def)
  have st: "gc_static ag' = gc_static ag" by (simp add: gc_static_def ag'_def)
  have "camera_memory_ok ag'" using assms(1) by (simp add: camera_memory_ok_def Let_def ag'_def)
  moreover have "camera_message_ok ag m"
    using False assms(1,2) content_for_valid [of "ag_num_targets ag" ag c]
    by (simp add: camera_message_ok_def m_def pack_message_def camera_memory_ok_def Let_def)
  ultimately show ?thesis
    using run st assms(3) by (simp add: ag'_def list_all_iff camera_message_static [OF st, unfolded ag'_def])
qed

lemma send_all_ok:
  assumes "camera_memory_ok ag" and "\<forall>c \<in> set cs. c < ag_num_cameras ag" and "list_all (camera_message_ok ag) out"
  shows "\<exists>out' ag'. fold_res (send_to R) cs (out, ag) = Inr (out', ag') \<and> camera_memory_ok ag'
    \<and> gc_static ag' = gc_static ag \<and> gc_prev_action ag' = gc_prev_action ag \<and> list_all (camera_message_ok ag') out'"
  using assms
proof (induction cs arbitrary: out ag)
  case (Cons c cs)
  obtain out1 ag1 where 1: "send_to R c (out, ag) = Inr (out1, ag1)" "camera_memory_ok ag1" "gc_static ag1 = gc_static ag"
    "gc_prev_action ag1 = gc_prev_action ag" "list_all (camera_message_ok ag1) out1"
    using send_to_ok [OF Cons.prems(1) _ Cons.prems(3), of c R] Cons.prems(2) by auto
  have "\<forall>c \<in> set cs. c < ag_num_cameras ag1" using Cons.prems(2) 1(3) by (simp add: gc_static_def)
  from Cons.IH [OF 1(2) this 1(5)] show ?case using 1 by auto
qed auto

lemma greedy_send_ok:
  assumes ok: "greedy_camera_ok ag"
  shows "\<exists>ms ag'. greedy_camera_send R ag = Inr (ms, ag') \<and> greedy_camera_ok ag' \<and> gc_static ag' = gc_static ag
    \<and> list_all (camera_message_ok ag) ms \<and> gc_message2send ag' = empty_content"
proof -
  let ?ag1 = "ag\<lparr>gc_delay := map (\<lambda>x. max (x - 1) 0) (gc_delay ag)\<rparr>"
  have st1: "gc_static ?ag1 = gc_static ag" "gc_prev_action ?ag1 = gc_prev_action ag" by (simp_all add: gc_static_def)
  have mem: "camera_memory_ok ?ag1" using ok by (simp add: greedy_camera_ok_def camera_memory_ok_def Let_def)
  show ?thesis
  proof (cases "gc_message2send ag = empty_content")
    case True
    then show ?thesis using static_ok [OF st1 mem ok] st1 by (simp add: greedy_camera_send_def)
  next
    case False
    obtain ms ag2 where 2: "fold_res (send_to R) [0..<ag_num_cameras ?ag1] ([], ?ag1) = Inr (ms, ag2)"
      "camera_memory_ok ag2" "gc_static ag2 = gc_static ?ag1" "gc_prev_action ag2 = gc_prev_action ?ag1"
      "list_all (camera_message_ok ag2) ms"
      using send_all_ok [OF mem, of "[0..<ag_num_cameras ?ag1]" "[]" R] by auto
    let ?ag' = "ag2\<lparr>gc_message2send := empty_content\<rparr>"
    have st: "gc_static ?ag' = gc_static ag" "gc_prev_action ?ag' = gc_prev_action ag"
      using 2(3,4) st1 by (simp_all add: gc_static_def)
    have "camera_memory_ok ?ag'"
      using 2(2) by (simp add: camera_memory_ok_def Let_def valid_told_def targets_told_def empty_content_def)
    from static_ok [OF st this ok] have "greedy_camera_ok ?ag'" .
    moreover have "list_all (camera_message_ok ag) ms"
      using 2(3,5) st1(1) camera_message_static by (metis (mono_tags, lifting) list_all_iff)
    ultimately show ?thesis using False 2(1) st(1) by (simp add: greedy_camera_send_def)
  qed
qed

lemma hear_target_ok:
  assumes "camera_memory_ok ag" and "fst ts < ag_num_targets ag"
  shows "\<exists>ag'. hear_target ts ag = Inr ag' \<and> camera_memory_ok ag' \<and> gc_static ag' = gc_static ag
    \<and> gc_prev_action ag' = gc_prev_action ag"
  using assms
  by (auto simp: hear_target_def check_def camera_memory_ok_def Let_def gc_static_def nth_list_update)

lemma hear_targets_ok:
  assumes "camera_memory_ok ag" and "\<forall>ts \<in> set tss. fst ts < ag_num_targets ag"
  shows "\<exists>ag'. fold_res hear_target tss ag = Inr ag' \<and> camera_memory_ok ag' \<and> gc_static ag' = gc_static ag
    \<and> gc_prev_action ag' = gc_prev_action ag"
  using assms
proof (induction tss arbitrary: ag)
  case (Cons ts tss)
  obtain ag1 where 1: "hear_target ts ag = Inr ag1" "camera_memory_ok ag1" "gc_static ag1 = gc_static ag"
    "gc_prev_action ag1 = gc_prev_action ag"
    using hear_target_ok [OF Cons.prems(1)] Cons.prems(2) by fastforce
  have "\<forall>ts \<in> set tss. fst ts < ag_num_targets ag1" using Cons.prems(2) 1(3) by (simp add: gc_static_def)
  from Cons.IH [OF 1(2) this] show ?case using 1 by auto
qed auto

lemma hear_state_ok:
  "camera_memory_ok ag \<Longrightarrow> camera_memory_ok (hear_state m ag)"
  "gc_static (hear_state m ag) = gc_static ag" "gc_prev_action (hear_state m ag) = gc_prev_action ag"
  by (auto simp: hear_state_def camera_memory_ok_def gc_static_def Let_def split: option.splits)

lemma hear_messages_ok:
  assumes "camera_memory_ok ag" and "\<forall>m \<in> set ms. valid_told (ag_num_targets ag) (content m)"
  shows "\<exists>ag'. fold_res hear_message ms ag = Inr ag' \<and> camera_memory_ok ag' \<and> gc_static ag' = gc_static ag
    \<and> gc_prev_action ag' = gc_prev_action ag"
  using assms
proof (induction ms arbitrary: ag)
  case (Cons m ms)
  have n: "ag_num_targets (hear_state m ag) = ag_num_targets ag" using hear_state_ok(2) [of m ag] by (simp add: gc_static_def)
  obtain ag1 where 1: "hear_message m ag = Inr ag1" "camera_memory_ok ag1" "gc_static ag1 = gc_static ag"
    "gc_prev_action ag1 = gc_prev_action ag"
    using hear_targets_ok [OF hear_state_ok(1) [OF Cons.prems(1)], of "targets_told (content m)" m] Cons.prems(2) n
    by (fastforce simp: hear_message_def hear_state_ok valid_told_def)
  have "\<forall>m \<in> set ms. valid_told (ag_num_targets ag1) (content m)" using Cons.prems(2) 1(3) by (simp add: gc_static_def)
  from Cons.IH [OF 1(2) this] show ?case using 1 by auto
qed auto

lemma greedy_receive_ok:
  assumes ok: "greedy_camera_ok ag" and ms: "\<forall>m \<in> set ms. valid_told (ag_num_targets ag) (content m)"
  shows "\<exists>ag'. greedy_camera_receive ms ag = Inr ag' \<and> greedy_camera_ok ag' \<and> gc_static ag' = gc_static ag"
proof -
  let ?ag = "receive_responses ms ag"
  have st: "gc_static ?ag = gc_static ag" "gc_prev_action ?ag = gc_prev_action ag" "ag_num_targets ?ag = ag_num_targets ag"
    by (simp_all add: receive_responses_def gc_static_def)
  have mem: "camera_memory_ok ?ag"
    using ok by (simp add: receive_responses_def greedy_camera_ok_def camera_memory_ok_def Let_def)
  obtain ag' where a: "fold_res hear_message ms ?ag = Inr ag'" "camera_memory_ok ag'" "gc_static ag' = gc_static ?ag"
    "gc_prev_action ag' = gc_prev_action ?ag"
    using hear_messages_ok [OF mem, of ms] ms st(3) by auto
  have "gc_static ag' = gc_static ag" "gc_prev_action ag' = gc_prev_action ag" using a st by simp_all
  from static_ok [OF this a(2) ok] this(1) a(1) show ?thesis by (simp add: greedy_camera_receive_def)
qed

subsection \<open>The life of an agent\<close>

text \<open>A call of one of the handlers, and its outcome: an action, or messages.\<close>

datatype camera_call = Observe "real list" | Send | Receive "camera_content message list" | Act "real list"

record camera_output =
  co_action :: "vec option"
  co_messages :: "camera_content message list"

fun make_call :: "'g rng \<Rightarrow> camera_call \<Rightarrow> 'g greedy_camera \<Rightarrow> (camera_output \<times> 'g greedy_camera) res" where
  "make_call R (Observe obs) ag =
     bind_res (greedy_camera_observe obs ag) (\<lambda>ag'. Inr (\<lparr>co_action = None, co_messages = []\<rparr>, ag'))"
| "make_call R Send ag =
     bind_res (greedy_camera_send R ag) (\<lambda>(ms, ag'). Inr (\<lparr>co_action = None, co_messages = ms\<rparr>, ag'))"
| "make_call R (Receive ms) ag =
     bind_res (greedy_camera_receive ms ag) (\<lambda>ag'. Inr (\<lparr>co_action = None, co_messages = []\<rparr>, ag'))"
| "make_call R (Act obs) ag =
     bind_res (greedy_camera_act R obs ag) (\<lambda>(a, ag'). Inr (\<lparr>co_action = Some a, co_messages = []\<rparr>, ag'))"

fun legal_call :: "'g greedy_camera \<Rightarrow> camera_call \<Rightarrow> bool" where
  "legal_call ag (Observe obs) \<longleftrightarrow> fits ag obs"
| "legal_call ag Send \<longleftrightarrow> True"
| "legal_call ag (Receive ms) \<longleftrightarrow> (\<forall>m \<in> set ms. valid_told (ag_num_targets ag) (content m))"
| "legal_call ag (Act obs) \<longleftrightarrow> fits ag obs"

text \<open>From a successful reset on (with steps that are not negative), any legal calls in any order.\<close>

inductive camera_life :: "'g rng \<Rightarrow> (int option \<Rightarrow> 'g \<times> int) \<Rightarrow> 'g greedy_camera \<Rightarrow> bool" for R seeding where
  life_reset: "ag_team ag0 = CAMERA \<Longrightarrow> 1 \<le> gc_memory_period ag0 \<Longrightarrow> greedy_camera_reset R seeding obs ag0 = Inr ag
    \<Longrightarrow> space_ok ag \<Longrightarrow> camera_life R seeding ag"
| life_call: "camera_life R seeding ag \<Longrightarrow> legal_call ag call \<Longrightarrow> make_call R call ag = Inr (out, ag')
    \<Longrightarrow> camera_life R seeding ag'"

lemma greedy_reset_ok:
  assumes "ag_team ag0 = CAMERA" and p: "1 \<le> gc_memory_period ag0"
    and run: "greedy_camera_reset R seeding obs ag0 = Inr ag" and sp: "space_ok ag"
  shows "greedy_camera_ok ag"
proof -
  obtain ag1 where 1: "rule_reset R seeding obs ag0 = Inr ag1" using run by (auto simp: greedy_camera_reset_def bind_res_Inr)
  have T: "ag_team ag1 = CAMERA" "gc_memory_period ag1 = gc_memory_period ag0"
    using 1 assms(1) by (auto simp: rule_reset_def agent_reset_def bind_res_Inr Let_def case_prod_beta split: if_splits)
  have n: "0 < ag_num_targets ag1"
  proof (rule ccontr)
    assume "\<not> 0 < ag_num_targets ag1"
    then have "seen_targets ag1 obs = Inl ValueError"
      using T(1) by (simp add: seen_targets_eq ag_num_opponents_def opponent_def team_count_def)
    then show False using run 1 by (simp add: greedy_camera_reset_def)
  qed
  from seen_targets_camera [OF T(1) n, of obs] obtain states bits
    where sb: "seen_targets ag1 obs = Inr (states, bits)" "length states = ag_num_targets ag1"
      "length bits = ag_num_targets ag1" "\<forall>t < ag_num_targets ag1. fst (states ! t) = t" by blast
  have mates: "ag_num_teammates ag1 = ag_num_cameras ag1" using T(1) by (simp add: ag_num_teammates_def team_count_def)
  have bit: "0 \<le> gc_memory_period ag0 * bool_int b \<and> gc_memory_period ag0 * bool_int b \<le> gc_memory_period ag0" for b
    using p by (cases b) simp_all
  show ?thesis
    using run sp 1 T n sb mates p bit
    by (auto simp: greedy_camera_reset_def greedy_camera_ok_def camera_memory_ok_def Let_def valid_told_def
        targets_told_def in_space_def space_ok_def vneg_def)
qed

text \<open>On an observation the environment has made the reset succeeds.\<close>

lemma greedy_reset_succeeds:
  assumes s: "view_shapes s" "steps_positive s" "0 < num_targets s" "i < num_cameras s" and team: "ag_team ag0 = CAMERA"
  shows "\<exists>ag. greedy_camera_reset R seeding (observation_of CAMERA s i) ag0 = Inr ag \<and> space_ok ag
    \<and> ag_num_cameras ag = num_cameras s \<and> ag_num_targets ag = num_targets s \<and> ag_num_obstacles ag = num_obstacles s"
proof -
  have n: "i < num_agents CAMERA s" using s(4) by (simp add: num_agents_def)
  obtain ag1 where 1: "rule_reset R seeding (observation_of CAMERA s i) ag0 = Inr ag1" "ag_team ag1 = CAMERA"
    "space_ok ag1" "ag_num_cameras ag1 = num_cameras s" "ag_num_targets ag1 = num_targets s"
    "ag_num_obstacles ag1 = num_obstacles s"
    using rule_reset_ready [OF s(1,2) n team] by blast
  have "0 < ag_num_targets ag1" using s(3) 1(5) by simp
  from seen_targets_camera [OF 1(2) this, of "observation_of CAMERA s i"] obtain states bits
    where sb: "seen_targets ag1 (observation_of CAMERA s i) = Inr (states, bits)" by blast
  then show ?thesis using 1 by (simp add: greedy_camera_reset_def space_ok_def)
qed

lemma camera_call_ok:
  assumes "rng_ok R" and "greedy_camera_ok ag" and "legal_call ag call"
  shows "\<exists>out ag'. make_call R call ag = Inr (out, ag') \<and> greedy_camera_ok ag' \<and> gc_static ag' = gc_static ag
    \<and> (\<forall>a. co_action out = Some a \<longrightarrow> in_space ag a) \<and> list_all (camera_message_ok ag) (co_messages out)"
proof (cases call)
  case (Observe obs)
  then show ?thesis using greedy_observe_ok [OF assms(2), of obs] assms(3) by auto
next
  case Send
  then show ?thesis using greedy_send_ok [OF assms(2), of R] by auto
next
  case (Receive ms)
  then show ?thesis using greedy_receive_ok [OF assms(2), of ms] assms(3) by auto
next
  case (Act obs)
  then show ?thesis using greedy_act_ok [OF assms(1,2), of obs] assms(3) by auto
qed

lemma camera_life_ok:
  assumes "camera_life R seeding ag" and "rng_ok R"
  shows "greedy_camera_ok ag"
  using assms
proof (induction rule: camera_life.induct)
  case (life_reset ag0 obs ag)
  then show ?case by (intro greedy_reset_ok)
next
  case (life_call ag call out ag')
  then show ?case using camera_call_ok [of R ag call] by auto
qed

text \<open>C19: a greedy camera agent never fails: from its reset on, whatever handlers are called in whatever
  order on observations of its size and messages that name targets of the episode, every call returns,
  every action lies in the action space of the camera, every message goes from this agent to another camera
  of the episode, is not empty and names targets of the episode only.\<close>

theorem greedy_camera_never_fails:
  assumes "rng_ok R" and "camera_life R seeding ag" and "legal_call ag call"
  shows "\<exists>out ag'. make_call R call ag = Inr (out, ag') \<and> camera_life R seeding ag'
    \<and> (\<forall>a. co_action out = Some a \<longrightarrow> in_space ag a) \<and> list_all (camera_message_ok ag) (co_messages out)"
  using camera_call_ok [OF assms(1) camera_life_ok [OF assms(2,1)] assms(3)] life_call [OF assms(2,3)] by blast

subsection \<open>The camera closes in on its target\<close>

lemma turn_by_clip:
  assumes "0 < r"
  shows "normalize_angle (d - normalize_angle (orient + clip (- r) r (normalize_angle (d - orient))))
    = normalize_angle (d - orient) - clip (- r) r (normalize_angle (d - orient))"
proof -
  define e where "e = normalize_angle (d - orient)"
  define c where "c = clip (- r) r e"
  obtain j :: int where j: "e = d - orient + 360 * of_int j" using normalize_angle_turns unfolding e_def by blast
  obtain k :: int where k: "normalize_angle (orient + c) = orient + c + 360 * of_int k"
    using normalize_angle_turns by blast
  have "- 180 \<le> e" "e < 180" using normalize_angle_range [of "d - orient"] by (simp_all add: e_def)
  then have "- 180 \<le> e - c" "e - c < 180" using assms by (auto simp: c_def clip_def min_def max_def)
  then show ?thesis
    unfolding e_def [symmetric] c_def [symmetric] k
    by (rule normalize_angle_unique [of _ _ "j + k"]) (simp add: j algebra_simps)
qed

lemma clip_rest:
  fixes e :: real
  shows "0 < r \<Longrightarrow> \<bar>e - clip (- r) r e\<bar> = max 0 (\<bar>e\<bar> - r)"
  by (auto simp: clip_def min_def max_def)

lemma best_viewing_angle_bounds:
  assumes "camera_ok cam"
  shows "min_viewing_angle cam \<le> best_viewing_angle (camera_state cam True) d
    \<and> best_viewing_angle (camera_state cam True) d \<le> MAX_CAMERA_VIEWING_ANGLE"
proof -
  have "min_viewing_angle cam \<le> MAX_CAMERA_VIEWING_ANGLE" using assms by (simp add: camera_ok_def)
  then show ?thesis
    using camera_state_reads(5) [OF assms] clip_bounds [of "min_viewing_angle cam" MAX_CAMERA_VIEWING_ANGLE]
    by (simp add: best_viewing_angle_def Let_def MAX_CAMERA_VIEWING_ANGLE_def)
qed

lemma zoom_by_clip:
  fixes v :: real
  assumes "lo \<le> v" and "v \<le> hi" and "lo \<le> b" and "b \<le> hi" and "0 < z"
  shows "\<bar>b - clip lo hi (v + clip (- z) z (b - v))\<bar> = max 0 (\<bar>b - v\<bar> - z)"
  using assms by (auto simp: clip_def min_def max_def)

lemma clip_twice: "clip lo hi (clip lo hi x) = clip lo hi x"
  by (auto simp: clip_def min_def max_def)

text \<open>C20: the action of a greedy camera closes in on the nearest of the tracked targets. When the
  environment carries the action out, the angle between the camera's orientation and the direction of that
  target shrinks by exactly the rotation step, down to zero, also across the half turn, where the agent reads
  180 degrees for the camera's -180; the viewing angle approaches the best one in the same way, and the best
  one is one the camera can take.\<close>

theorem greedy_camera_closes_in:
  assumes cam: "camera_ok cam" and st: "ag_state ag = camera_state cam True"
    and sp: "(ra_low ag, ra_high ag) = cs_st_action_space (camera_state cam True)" and ne: "tss \<noteq> []"
  shows "\<exists>ts \<in> set tss. \<exists>a cam'. \<exists>dir best. (\<forall>u \<in> set tss. vnorm (vsub (st_location (snd ts)) (location cam))
        \<le> vnorm (vsub (st_location (snd u)) (location cam)))
    \<and> act_from_target_states ag tss = Inr a \<and> camera_simulate cam [fst a, snd a] = Inr cam'
    \<and> dir = arctan2_deg (snd (st_location (snd ts)) - snd (location cam)) (fst (st_location (snd ts)) - fst (location cam))
    \<and> \<bar>normalize_angle (dir - orientation cam')\<bar> = max 0 (\<bar>normalize_angle (dir - orientation cam)\<bar> - rotation_step cam)
    \<and> best = best_viewing_angle (camera_state cam True) (vnorm (vsub (st_location (snd ts)) (location cam)))
    \<and> min_viewing_angle cam \<le> best \<and> best \<le> MAX_CAMERA_VIEWING_ANGLE
    \<and> \<bar>best - viewing_angle cam'\<bar> = max 0 (\<bar>best - viewing_angle cam\<bar> - zooming_step cam)"
proof -
  note S = camera_state_reads [OF cam]
  let ?keys = "map (\<lambda>ts. st_dist (snd ts) (ag_state ag)) tss"
  let ?away = "\<lambda>ts. vnorm (vsub (st_location (snd ts)) (location cam))"
  define ts where "ts = tss ! argmin ?keys"
  have keys: "?keys \<noteq> []" using ne by simp
  have lt: "argmin ?keys < length tss" using argmin_least(1) [OF keys] by simp
  have d: "st_dist (snd u) (ag_state ag) = ?away u" for u by (simp add: st_dist_def st_minus_def st S(1))
  have "st_dist (snd ts) (ag_state ag) = Min (set ?keys)"
    using argmin_least(2) [OF keys] lt by (simp add: ts_def)
  then have near: "\<forall>u \<in> set tss. ?away ts \<le> ?away u" by (simp add: d)
  define dir where "dir = arctan2_deg (snd (st_location (snd ts)) - snd (location cam)) (fst (st_location (snd ts)) - fst (location cam))"
  define best where "best = best_viewing_angle (camera_state cam True) (?away ts)"
  have ang: "arctan2_deg (snd (vsub (st_location (snd ts)) (location cam))) (fst (vsub (st_location (snd ts)) (location cam))) = dir"
    by (simp add: dir_def vsub_def)
  have orient: "normalize_angle (dir - cs_st_orientation (camera_state cam True)) = normalize_angle (dir - orientation cam)"
    using normalize_angle_shift [of "dir + 180" "- 1"] by (simp add: S(3))
  define c where "c = clip (- rotation_step cam) (rotation_step cam) (normalize_angle (dir - orientation cam))"
  define z where "z = clip (- zooming_step cam) (zooming_step cam) (best - viewing_angle cam)"
  have act: "act_from_target_states ag tss = Inr (c, z)"
    using ne sp by (simp add: act_from_target_states_def check_def Let_def st clip_action_def cs_st_action_space_def
        S(4,7,8) c_def z_def flip: ts_def [unfolded st]) (simp add: st_minus_def st_dist_def S(1) ang orient best_def)
  have pos: "0 < rotation_step cam" "0 < zooming_step cam" "min_viewing_angle cam \<le> viewing_angle cam"
    "viewing_angle cam \<le> MAX_CAMERA_VIEWING_ANGLE" using cam by (simp_all add: camera_ok_def)
  define v where "v = clip (min_viewing_angle cam) MAX_CAMERA_VIEWING_ANGLE (viewing_angle cam + z)"
  define cam' where "cam' = cam\<lparr>orientation := normalize_angle (orientation cam + c), viewing_angle := v,
      sight_range := sqrt (area_product cam / v)\<rparr>"
  have run: "camera_simulate cam [fst (c, z), snd (c, z)] = Inr cam'"
    by (simp add: camera_simulate_def bind_check CAMERA_ACTION_DIM_def cam'_def v_def Let_def c_def z_def clip_twice)
  have "\<bar>normalize_angle (dir - orientation cam')\<bar> = max 0 (\<bar>normalize_angle (dir - orientation cam)\<bar> - rotation_step cam)"
    using turn_by_clip [OF pos(1), of dir "orientation cam"] clip_rest [OF pos(1)] by (simp add: cam'_def c_def)
  moreover have B: "min_viewing_angle cam \<le> best" "best \<le> MAX_CAMERA_VIEWING_ANGLE"
    using best_viewing_angle_bounds [OF cam] by (simp_all add: best_def)
  moreover have "\<bar>best - viewing_angle cam'\<bar> = max 0 (\<bar>best - viewing_angle cam\<bar> - zooming_step cam)"
    using zoom_by_clip [OF pos(3,4) B pos(2)] by (simp add: cam'_def v_def z_def)
  moreover have "ts \<in> set tss" using lt by (simp add: ts_def)
  ultimately show ?thesis using near act run dir_def best_def by blast
qed

subsection \<open>A camera of the demonstration\<close>

definition demo_greedy :: "nat greedy_camera" where
  "demo_greedy =
     \<lparr>ag_team = CAMERA, ag_num_cameras = 0, ag_num_targets = 0, ag_num_obstacles = 0, ag_index = 0,
      ag_state = [], ag_episode_step = - 1, ag_step_counter = 0, ag_last_observation = None,
      ag_last_requests = [], ag_last_responses = [], ra_random = 0, ra_space_random = 0,
      ra_low = (0, 0), ra_high = (0, 0), gc_memory_period = 25, gc_filterout_unloaded = False,
      gc_filterout_beyond_range = True, gc_memory = [], gc_time2forget = [], gc_never_loaded = [],
      gc_prev_action = (0, 0), gc_neighbors = Map.empty, gc_message2send = empty_content, gc_delay = []\<rparr>"

theorem greedy_camera_never_fails_witness:
  "\<exists>ag a ag'. camera_life counter_rng demo_seeding ag
     \<and> make_call counter_rng (Act (observation_of CAMERA demo_start 0)) ag = Inr (a, ag')"
proof -
  have sh: "view_shapes demo_start" and sp: "steps_positive demo_start"
    using demo_view_shapes env_ok_steps [OF demo_start_ok(1)] by simp_all
  have n: "0 < num_targets demo_start" "0 < num_cameras demo_start" by (simp_all add: demo_start_ok)
  have team: "ag_team demo_greedy = CAMERA" and period: "1 \<le> gc_memory_period demo_greedy"
    by (simp_all add: demo_greedy_def)
  obtain ag where ag: "greedy_camera_reset counter_rng demo_seeding (observation_of CAMERA demo_start 0) demo_greedy = Inr ag"
    "space_ok ag" "ag_num_cameras ag = num_cameras demo_start" "ag_num_targets ag = num_targets demo_start"
    "ag_num_obstacles ag = num_obstacles demo_start"
    using greedy_reset_succeeds [OF sh sp n team] by blast
  have life: "camera_life counter_rng demo_seeding ag" by (rule life_reset [OF team period ag(1,2)])
  have "ag_team ag = CAMERA" using greedy_reset_ok [OF team period ag(1,2)] by (simp add: greedy_camera_ok_def)
  then have "legal_call ag (Act (observation_of CAMERA demo_start 0))"
    using observation_fits [OF sh, of 0 CAMERA ag] n ag(3-5) by (simp add: num_agents_def)
  from greedy_camera_never_fails [OF counter_rng_ok life this] life show ?thesis by blast
qed

theorem greedy_camera_closes_in_witness:
  "\<exists>(ag :: nat greedy_camera) a cam'. act_from_target_states ag [(0, [0, 300, 500, 0])] = Inr a
     \<and> camera_simulate demo_camera [fst a, snd a] = Inr cam'
     \<and> \<bar>best_viewing_angle (camera_state demo_camera True) (vnorm (vsub (0, 300) (100, 0))) - viewing_angle cam'\<bar>
         = max 0 (\<bar>best_viewing_angle (camera_state demo_camera True) (vnorm (vsub (0, 300) (100, 0))) - 30\<bar> - 1 / 2)"
proof -
  have cam: "camera_ok demo_camera"
    by (simp add: camera_ok_def demo_camera_def MAX_CAMERA_VIEWING_ANGLE_def)
  obtain lo hi where sp: "cs_st_action_space (camera_state demo_camera True) = (lo, hi)" by (rule prod.exhaust)
  let ?ag = "demo_greedy\<lparr>ag_state := camera_state demo_camera True, ra_low := lo, ra_high := hi\<rparr>"
  have "ag_state ?ag = camera_state demo_camera True"
    "(ra_low ?ag, ra_high ?ag) = cs_st_action_space (camera_state demo_camera True)"
    "[(0 :: nat, [0, 300, 500, 0 :: real])] \<noteq> []" by (simp_all add: sp)
  from greedy_camera_closes_in [OF cam this] obtain ts a cam' best where
    ts: "ts \<in> set [(0 :: nat, [0, 300, 500, 0])]" and R: "act_from_target_states ?ag [(0, [0, 300, 500, 0])] = Inr a"
    "camera_simulate demo_camera [fst a, snd a] = Inr cam'"
    "best = best_viewing_angle (camera_state demo_camera True) (vnorm (vsub (st_location (snd ts)) (location demo_camera)))"
    "\<bar>best - viewing_angle cam'\<bar> = max 0 (\<bar>best - viewing_angle demo_camera\<bar> - zooming_step demo_camera)"
    by (elim bexE exE conjE) (rule that; assumption)
  moreover have "st_location (snd ts) = (0, 300)" using ts by (simp add: st_location_def)
  moreover have "location demo_camera = (100, 0)" "viewing_angle demo_camera = 30" "zooming_step demo_camera = 1 / 2"
    by (simp_all add: demo_camera_def)
  ultimately show ?thesis by - (rule exI [of _ ?ag], rule exI [of _ a], rule exI [of _ cam'], simp)
qed

end
