(* ===== verification/GreedyTarget.thy ===== *)
theory GreedyTarget
  imports RuleAgents
begin

text \<open>
  \<^verbatim>\<open>GreedyTargetAgent\<close> of \<^verbatim>\<open>mate/agents/greedy.py\<close>. The agent carries its load straight to its goal, with
  some noise; without a load it picks a warehouse it does not know to be empty. Which warehouses those are
  it learns from its own state and from its teammates: \<open>gt_non_empty\<close> only ever shrinks, and whenever its
  own state shrinks it, the agent broadcasts it. A message carries a dictionary; here it is its value under
  the key the agent reads, if it has one. The order in which Python lists a set is the argument \<open>order\<close>.
\<close>

subsection \<open>State\<close>

record 'g greedy_target = "(nat set option, 'g) rule_agent" +
  gt_noise_scale :: real
  gt_goal_bits :: "int list"
  gt_prev_state :: "real list"
  gt_prev_noise :: vec
  gt_non_empty :: "nat set"
  gt_need_communication :: bool

text \<open>No goal bits (\<open>None\<close> before the first reset) are the empty list.\<close>

definition goal_of :: "int list \<Rightarrow> nat option" where
  "goal_of bits = (case flatnonzero (map (\<lambda>x. x \<noteq> 0) bits) of [] \<Rightarrow> None | w # _ \<Rightarrow> Some w)"

definition goal_location :: "int list \<Rightarrow> vec option" where
  "goal_location bits = map_option (\<lambda>w. WAREHOUSES ! w) (goal_of bits)"

definition greedy_target_reset ::
  "'g rng \<Rightarrow> (int option \<Rightarrow> 'g \<times> int) \<Rightarrow> real list \<Rightarrow> 'g greedy_target \<Rightarrow> 'g greedy_target res" where
  "greedy_target_reset R seeding obs ag0 =
     bind_res (rule_reset R seeding obs ag0) (\<lambda>ag.
       case sample_action R ag of (p, ag1) \<Rightarrow>
         Inr (ag1\<lparr>gt_prev_state := ag_state ag1, gt_prev_noise := vscale (1 / 2) p,
                 gt_goal_bits := ts_st_goal_bits (ag_state ag1), gt_non_empty := {..<NUM_WAREHOUSES},
                 gt_need_communication := False\<rparr>))"

subsection \<open>Observing and talking\<close>

definition seen_empty :: "real list \<Rightarrow> nat set" where
  "seen_empty st = set (flatnonzero (ts_st_empty_bits st))"

definition note_empty :: "'g greedy_target \<Rightarrow> 'g greedy_target" where
  "note_empty ag =
     (if seen_empty (ag_state ag) \<inter> gt_non_empty ag \<noteq> {}
      then ag\<lparr>gt_non_empty := gt_non_empty ag - seen_empty (ag_state ag), gt_need_communication := True\<rparr>
      else ag)"

definition greedy_target_observe :: "real list \<Rightarrow> 'g greedy_target \<Rightarrow> 'g greedy_target res" where
  "greedy_target_observe obs ag = bind_res (check_inputs obs ag) (\<lambda>ag1. Inr (note_empty ag1))"

definition greedy_target_send :: "'g greedy_target \<Rightarrow> nat set option message list \<times> 'g greedy_target" where
  "greedy_target_send ag =
     (if gt_need_communication ag
      then ([pack_message ag (Some (gt_non_empty ag)) None], ag\<lparr>gt_need_communication := False\<rparr>)
      else ([], ag))"

definition hear_non_empty :: "nat set option message \<Rightarrow> 'g greedy_target \<Rightarrow> 'g greedy_target res" where
  "hear_non_empty m ag =
     (case content m of
        None \<Rightarrow> Inl KeyError
      | Some ws \<Rightarrow> Inr (ag\<lparr>gt_non_empty := gt_non_empty ag \<inter> ws\<rparr>))"

definition greedy_target_receive :: "nat set option message list \<Rightarrow> 'g greedy_target \<Rightarrow> 'g greedy_target res" where
  "greedy_target_receive ms ag = fold_res hear_non_empty ms (receive_responses ms ag)"

subsection \<open>Acting\<close>

definition choose_goal ::
  "'g rng \<Rightarrow> (nat set \<Rightarrow> nat list) \<Rightarrow> 'g greedy_target \<Rightarrow> 'g greedy_target" where
  "choose_goal R order ag =
     (let st = ag_state ag;
          loaded = any_nonzero (ts_st_goal_bits st);
          bits = (if loaded then ts_st_goal_bits st else gt_goal_bits ag);
          none = replicate (length (ts_st_goal_bits st)) 0;
          keep = (case goal_of bits of None \<Rightarrow> False | Some w \<Rightarrow> loaded \<or> w \<in> gt_non_empty ag)
      in if keep then ag\<lparr>gt_goal_bits := bits\<rparr>
         else if gt_non_empty ag \<noteq> {}
         then (case choice R (ra_random ag) (order (gt_non_empty ag)) of
                 (w, g) \<Rightarrow> ag\<lparr>gt_goal_bits := none[w := 1], ra_random := g\<rparr>)
         else ag\<lparr>gt_goal_bits := none\<rparr>)"

definition greedy_target_act ::
  "'g rng \<Rightarrow> (nat set \<Rightarrow> nat list) \<Rightarrow> real list \<Rightarrow> 'g greedy_target \<Rightarrow> (vec \<times> 'g greedy_target) res" where
  "greedy_target_act R order obs ag0 =
     bind_res (check_inputs obs ag0) (\<lambda>ag.
       let ag1 = choose_goal R order ag;
           st = ag_state ag1;
           action = (case goal_location (gt_goal_bits ag1) of None \<Rightarrow> (0, 0) | Some p \<Rightarrow> step_towards st p);
           (noise, ag2) = draw_noise R (gt_noise_scale ag1) (noise_prob st (gt_prev_state ag1)) (gt_prev_noise ag1) ag1
       in Inr (clip_action ag2 (vadd action noise), ag2\<lparr>gt_prev_state := st, gt_prev_noise := noise\<rparr>))"

subsection \<open>What the agent knows\<close>

definition greedy_target_ok :: "'g greedy_target \<Rightarrow> bool" where
  "greedy_target_ok ag \<longleftrightarrow>
     target_agent_ok ag \<and> gt_non_empty ag \<subseteq> {..<NUM_WAREHOUSES} \<and> length (gt_goal_bits ag) = NUM_WAREHOUSES"

definition lists_sets :: "(nat set \<Rightarrow> nat list) \<Rightarrow> bool" where
  "lists_sets order \<longleftrightarrow> (\<forall>S. finite S \<longrightarrow> set (order S) = S)"

lemma goal_of_Some: "goal_of bits = Some w \<Longrightarrow> w < length bits \<and> bits ! w \<noteq> 0"
proof -
  assume "goal_of bits = Some w"
  then have "w \<in> set (flatnonzero (map (\<lambda>x. x \<noteq> 0) bits))" by (auto simp: goal_of_def split: list.splits)
  then show ?thesis by (auto simp: set_flatnonzero)
qed

lemma goal_of_None: "goal_of bits = None \<longleftrightarrow> \<not> any_nonzero bits"
proof -
  have "goal_of bits = None \<longleftrightarrow> flatnonzero (map (\<lambda>x. x \<noteq> 0) bits) = []" by (simp add: goal_of_def split: list.splits)
  also have "\<dots> \<longleftrightarrow> (\<forall>i < length bits. bits ! i = 0)" by (auto simp: flatnonzero_empty)
  finally show ?thesis by (auto simp: any_nonzero_iff in_set_conv_nth)
qed

lemma goal_of_one: "w < n \<Longrightarrow> goal_of ((replicate n 0)[w := 1]) = Some w"
proof -
  assume w: "w < n"
  let ?bits = "(replicate n 0)[w := 1 :: int]"
  have "any_nonzero ?bits" using w by (auto simp: any_nonzero_iff in_set_conv_nth)
  then obtain v where v: "goal_of ?bits = Some v" using goal_of_None by (cases "goal_of ?bits") auto
  then have "v < n \<and> ?bits ! v \<noteq> 0" using goal_of_Some [OF v] by simp
  then have "v = w" by (cases "v = w") auto
  with v show ?thesis by simp
qed

lemma choose_goal_frame:
  "ag_team (choose_goal R order ag) = ag_team ag" "ra_low (choose_goal R order ag) = ra_low ag"
  "ra_high (choose_goal R order ag) = ra_high ag" "gt_non_empty (choose_goal R order ag) = gt_non_empty ag"
  "ag_state (choose_goal R order ag) = ag_state ag" "ag_num_cameras (choose_goal R order ag) = ag_num_cameras ag"
  "ag_num_targets (choose_goal R order ag) = ag_num_targets ag"
  "ag_num_obstacles (choose_goal R order ag) = ag_num_obstacles ag"
  by (simp_all add: choose_goal_def Let_def split: prod.split option.split)

lemma choose_goal_rules:
  assumes R: "rng_ok R" "lists_sets order" and ne: "gt_non_empty ag \<subseteq> {..<NUM_WAREHOUSES}"
    and len: "length (gt_goal_bits ag) = NUM_WAREHOUSES" "length (ts_st_goal_bits (ag_state ag)) = NUM_WAREHOUSES"
  shows "length (gt_goal_bits (choose_goal R order ag)) = NUM_WAREHOUSES
    \<and> (if any_nonzero (ts_st_goal_bits (ag_state ag))
       then gt_goal_bits (choose_goal R order ag) = ts_st_goal_bits (ag_state ag)
       else case goal_of (gt_goal_bits (choose_goal R order ag)) of
              None \<Rightarrow> gt_non_empty ag = {} | Some w \<Rightarrow> w \<in> gt_non_empty ag)"
proof -
  have fin: "finite (gt_non_empty ag)" using ne finite_subset by blast
  obtain v g where v: "choice R (ra_random ag) (order (gt_non_empty ag)) = (v, g)" by (rule prod.exhaust)
  have drawn: "v \<in> gt_non_empty ag \<and> goal_of ((replicate NUM_WAREHOUSES 0)[v := 1]) = Some v" if "gt_non_empty ag \<noteq> {}"
  proof -
    have "set (order (gt_non_empty ag)) = gt_non_empty ag" using R(2) fin by (simp add: lists_sets_def)
    moreover from this have "order (gt_non_empty ag) \<noteq> []" using that by auto
    ultimately have "v \<in> gt_non_empty ag" using rng_choice [OF R(1), of "order (gt_non_empty ag)" "ra_random ag"] v by simp
    then show ?thesis using ne goal_of_one by auto
  qed
  have none: "goal_of (replicate NUM_WAREHOUSES 0) = None"
    by (simp add: goal_of_None any_nonzero_iff)
  show ?thesis
    using v drawn none len goal_of_None [of "ts_st_goal_bits (ag_state ag)"]
    by (auto simp: choose_goal_def Let_def split: option.splits)
qed

lemma greedy_target_keeps:
  assumes "greedy_target_ok ag" and "ag_team ag' = ag_team ag" and "ra_low ag' = ra_low ag" and "ra_high ag' = ra_high ag"
    and "gt_non_empty ag' \<subseteq> gt_non_empty ag" and "length (gt_goal_bits ag') = NUM_WAREHOUSES"
  shows "greedy_target_ok ag'"
  using assms by (auto simp: greedy_target_ok_def target_agent_ok_def space_ok_def)

lemma inputs_read_greedy:
  "gt_non_empty (inputs_read obs ag) = gt_non_empty ag" "gt_goal_bits (inputs_read obs ag) = gt_goal_bits ag"
  by (simp_all add: inputs_read_def)

lemma inputs_read_greedy_ok: "greedy_target_ok ag \<Longrightarrow> greedy_target_ok (inputs_read obs ag)"
  by (rule greedy_target_keeps) (auto simp: inputs_read_greedy greedy_target_ok_def)

lemma greedy_target_reset_ok:
  assumes "ag_team ag0 = TARGET" and run: "greedy_target_reset R seeding obs ag0 = Inr ag" and sp: "space_ok ag"
    and obs: "fits ag obs"
  shows "greedy_target_ok ag \<and> gt_non_empty ag = {..<NUM_WAREHOUSES}"
proof -
  obtain ag1 where 1: "rule_reset R seeding obs ag0 = Inr ag1" using run by (auto simp: greedy_target_reset_def bind_res_Inr)
  have T: "ag_team ag1 = TARGET" "ag_state ag1 = slice_of obs (self_state_slice (ag_slices ag1))"
    using 1 assms(1)
    by (auto simp: rule_reset_def agent_reset_def bind_res_Inr Let_def case_prod_beta ag_slices_def split: if_splits)
  have E: "ag_team ag = TARGET" "gt_non_empty ag = {..<NUM_WAREHOUSES}" "gt_goal_bits ag = ts_st_goal_bits (ag_state ag1)"
    "fits ag obs \<longleftrightarrow> fits ag1 obs"
    using run 1 T(1) by (auto simp: greedy_target_reset_def sample_action_def fits_def ag_observation_dim_def
        ag_indices_def split: prod.splits)
  have "length (ag_state ag1) = self_dim TARGET" using self_slice_length [of ag1 obs] E(4) obs T by simp
  then show ?thesis using target_bits_length E sp by (simp add: greedy_target_ok_def target_agent_ok_def)
qed

lemma note_empty_facts:
  "gt_non_empty (note_empty ag) = gt_non_empty ag - seen_empty (ag_state ag)"
  "gt_goal_bits (note_empty ag) = gt_goal_bits ag" "ag_team (note_empty ag) = ag_team ag"
  "ra_low (note_empty ag) = ra_low ag" "ra_high (note_empty ag) = ra_high ag"
  by (auto simp: note_empty_def)

lemma draw_noise_greedy:
  fixes ag :: "'g greedy_target"
  assumes "draw_noise R c prob prev ag = (noise, ag')"
  shows "gt_goal_bits ag' = gt_goal_bits ag \<and> gt_non_empty ag' = gt_non_empty ag"
  using assms by (auto simp: draw_noise_def sample_action_def split: prod.splits if_splits)

lemma hear_non_empty_all:
  assumes "\<forall>m \<in> set ms. content m \<noteq> None"
  shows "\<exists>ag'. fold_res hear_non_empty ms ag = Inr ag' \<and> ag_team ag' = ag_team ag \<and> ra_low ag' = ra_low ag
    \<and> ra_high ag' = ra_high ag \<and> gt_goal_bits ag' = gt_goal_bits ag
    \<and> gt_non_empty ag' = gt_non_empty ag \<inter> (\<Inter>m \<in> set ms. the (content m))"
  using assms
proof (induction ms arbitrary: ag)
  case (Cons m ms)
  then obtain ws where "content m = Some ws" by auto
  then show ?case using Cons.IH [of "ag\<lparr>gt_non_empty := gt_non_empty ag \<inter> ws\<rparr>"] Cons.prems
    by (auto simp: hear_non_empty_def)
qed simp

lemma greedy_target_observe_ok:
  assumes ok: "greedy_target_ok ag" and fit: "fits ag obs"
  shows "\<exists>ag'. greedy_target_observe obs ag = Inr ag' \<and> greedy_target_ok ag'
    \<and> gt_non_empty ag' = gt_non_empty ag - seen_empty (slice_of obs (self_state_slice (ag_slices ag)))"
proof -
  have "greedy_target_ok (note_empty (inputs_read obs ag))"
    by (rule greedy_target_keeps [OF inputs_read_greedy_ok [OF ok]])
      (use ok in \<open>auto simp: note_empty_facts inputs_read_greedy greedy_target_ok_def\<close>)
  moreover have "ag_state (inputs_read obs ag) = slice_of obs (self_state_slice (ag_slices ag))"
    by (simp add: inputs_read_def)
  ultimately show ?thesis
    using fit by (simp add: greedy_target_observe_def check_inputs_eq note_empty_facts inputs_read_greedy)
qed

lemma greedy_target_receive_ok:
  assumes ok: "greedy_target_ok ag" and "\<forall>m \<in> set heard. content m \<noteq> None"
  shows "\<exists>ag'. greedy_target_receive heard ag = Inr ag' \<and> greedy_target_ok ag'
    \<and> gt_non_empty ag' = gt_non_empty ag \<inter> (\<Inter>m \<in> set heard. the (content m))"
proof -
  from hear_non_empty_all [OF assms(2), of "receive_responses heard ag"] obtain ag' where ag':
    "fold_res hear_non_empty heard (receive_responses heard ag) = Inr ag'" "ag_team ag' = ag_team ag"
    "ra_low ag' = ra_low ag" "ra_high ag' = ra_high ag" "gt_goal_bits ag' = gt_goal_bits ag"
    "gt_non_empty ag' = gt_non_empty ag \<inter> (\<Inter>m \<in> set heard. the (content m))"
    by (auto simp: receive_responses_def)
  have "greedy_target_ok ag'"
    by (rule greedy_target_keeps [OF ok ag'(2-4)]) (use ok in \<open>auto simp: ag'(5,6) greedy_target_ok_def\<close>)
  then show ?thesis using ag'(1,6) by (simp add: greedy_target_receive_def)
qed

lemma greedy_target_act_ok:
  assumes R: "rng_ok R" and order: "lists_sets order" and ok: "greedy_target_ok ag" and fit: "fits ag obs"
  shows "\<exists>a ag'. greedy_target_act R order obs ag = Inr (a, ag') \<and> in_space ag a \<and> greedy_target_ok ag'
    \<and> gt_non_empty ag' = gt_non_empty ag
    \<and> (if any_nonzero (ts_st_goal_bits (ag_state ag')) then gt_goal_bits ag' = ts_st_goal_bits (ag_state ag')
       else case goal_of (gt_goal_bits ag') of None \<Rightarrow> gt_non_empty ag' = {} | Some w \<Rightarrow> w \<in> gt_non_empty ag')"
proof -
  let ?ag = "inputs_read obs ag" let ?c = "choose_goal R order ?ag"
  have inv: "ag_team ag = TARGET" "space_ok ag" "gt_non_empty ag \<subseteq> {..<NUM_WAREHOUSES}"
    "length (gt_goal_bits ag) = NUM_WAREHOUSES"
    using ok by (simp_all add: greedy_target_ok_def target_agent_ok_def)
  have "length (ts_st_goal_bits (ag_state ?ag)) = NUM_WAREHOUSES"
    using target_bits_length inputs_read_state [OF fit] inv(1) by simp
  note C = choose_goal_rules [OF R order, of ?ag, unfolded inputs_read_greedy, OF inv(3,4) this]
  note F = choose_goal_frame [of R order ?ag, unfolded inputs_read_greedy]
  define action where "action = (case goal_location (gt_goal_bits ?c) of None \<Rightarrow> (0, 0) | Some p \<Rightarrow> step_towards (ag_state ?c) p)"
  obtain noise ag2 where d: "draw_noise R (gt_noise_scale ?c) (noise_prob (ag_state ?c) (gt_prev_state ?c))
      (gt_prev_noise ?c) ?c = (noise, ag2)" by (rule prod.exhaust)
  note D = draw_noise_frame [OF d] draw_noise_greedy [OF d]
  define a where "a = clip_action ag2 (vadd action noise)"
  define ag' where "ag' = ag2\<lparr>gt_prev_state := ag_state ?c, gt_prev_noise := noise\<rparr>"
  have run: "greedy_target_act R order obs ag = Inr (a, ag')"
    using d by (simp add: greedy_target_act_def check_inputs_eq fit Let_def action_def ag'_def a_def)
  have "in_space ag2 a"
    unfolding a_def by (rule clip_action_in) (use inv(2) D F in \<open>simp add: space_ok_def\<close>)
  then have "in_space ag a" using D F by (simp add: in_space_def)
  moreover have "greedy_target_ok ag'"
    by (rule greedy_target_keeps [OF ok]) (use D F C in \<open>simp_all add: ag'_def\<close>)
  moreover have "gt_non_empty ag' = gt_non_empty ag" "gt_goal_bits ag' = gt_goal_bits ?c" "ag_state ag' = ag_state ?ag"
    using D F by (simp_all add: ag'_def)
  ultimately show ?thesis using run C by (intro exI [of _ a] exI [of _ ag'] conjI) (simp_all split: option.splits)
qed


definition demo_greedy_target :: "nat greedy_target" where
  "demo_greedy_target =
     \<lparr>ag_team = TARGET, ag_num_cameras = 0, ag_num_targets = 1, ag_num_obstacles = 0, ag_index = 0,
      ag_state = replicate 14 0, ag_episode_step = 0, ag_step_counter = 0, ag_last_observation = None,
      ag_last_requests = [], ag_last_responses = [], ra_random = 0, ra_space_random = 0,
      ra_low = (- 20, - 20), ra_high = (20, 20), gt_noise_scale = 1 / 2, gt_goal_bits = replicate 4 0,
      gt_prev_state = replicate 14 0, gt_prev_noise = (0, 0), gt_non_empty = {1, 2}, gt_need_communication = True\<rparr>"


end
