(* ===== verification/Players.thy ===== *)
theory Players
  imports Teams GreedyCamera GreedyTarget
begin

text \<open>
  The greedy agents as players of a team: their methods as \<open>handlers\<close>, and the proofs that they keep the
  contract \<open>team_agent\<close> of \<open>Teams\<close>. A greedy target is taken with a set \<open>W\<close> of warehouses it must go on
  believing in; every choice of \<open>W\<close> gives a contract.
\<close>

subsection \<open>Who an agent is\<close>

text \<open>What a reset fixes and no other call changes: team, number, sizes of the game, action space.\<close>

definition rule_static :: "('m, 'g, 'z) rule_agent_scheme \<Rightarrow> (team \<times> nat \<times> nat \<times> nat \<times> nat) \<times> vec \<times> vec" where
  "rule_static ag =
     ((ag_team ag, ag_index ag, ag_num_cameras ag, ag_num_targets ag, ag_num_obstacles ag), ra_low ag, ra_high ag)"

definition within_hi :: "(nat \<Rightarrow> vec) \<Rightarrow> nat \<Rightarrow> vec \<Rightarrow> bool" where
  "within_hi hi i v \<longleftrightarrow> \<bar>fst v\<bar> \<le> fst (hi i) \<and> \<bar>snd v\<bar> \<le> snd (hi i)"

definition sized_for :: "team \<Rightarrow> nat \<Rightarrow> nat \<Rightarrow> nat \<Rightarrow> real list \<Rightarrow> bool" where
  "sized_for team nc nt no obs \<longleftrightarrow> length obs = observation_dim team nc nt no"

lemma static_fits_sized:
  "rule_static ag = ((team, i, nc, nt, no), space) \<Longrightarrow> fits ag obs \<longleftrightarrow> sized_for team nc nt no obs"
  by (simp add: rule_static_def fits_def sized_for_def ag_observation_dim_def ag_indices_def observation_dim_def)

lemma static_within_hi:
  "rule_static ag = (who, vneg (hi i), hi i) \<Longrightarrow> in_space ag v \<longleftrightarrow> within_hi hi i v"
  by (auto simp: rule_static_def in_space_def within_hi_def vneg_def)

lemma gc_static_rule: "gc_static ag' = gc_static ag \<Longrightarrow> rule_static ag' = rule_static ag"
  by (simp add: gc_static_def rule_static_def)

subsection \<open>Greedy cameras\<close>

definition greedy_camera_handlers ::
  "'g rng \<Rightarrow> (int option \<Rightarrow> 'g \<times> int) \<Rightarrow> ('g greedy_camera \<Rightarrow> bool) \<Rightarrow> ('g greedy_camera, camera_content) handlers" where
  "greedy_camera_handlers R seeding has_space =
     \<lparr>h_id = (\<lambda>ag. (ag_team ag, ag_index ag)),
      h_reset = greedy_camera_reset R seeding,
      h_observe = (\<lambda>obs info. greedy_camera_observe obs),
      h_act = (\<lambda>obs info. greedy_camera_act R obs),
      h_send_requests = (\<lambda>ag. Inr ([], ag)),
      h_receive_requests = (\<lambda>ms ag. Inr (receive_requests ms ag)),
      h_send_responses = greedy_camera_send R,
      h_receive_responses = greedy_camera_receive,
      h_seed = (\<lambda>seed ag. agent_seed R seeding seed (has_space ag) ag),
      h_spawn = (\<lambda>n ag. agent_spawn R seeding (has_space ag) n ag)\<rparr>"

definition camera_player :: "nat \<Rightarrow> nat \<Rightarrow> nat \<Rightarrow> (nat \<Rightarrow> vec) \<Rightarrow> nat \<Rightarrow> 'g greedy_camera \<Rightarrow> bool" where
  "camera_player nc nt no hi i ag \<longleftrightarrow>
     greedy_camera_ok ag \<and> rule_static ag = ((CAMERA, i, nc, nt, no), vneg (hi i), hi i)"

definition camera_talk :: "nat \<Rightarrow> nat \<Rightarrow> camera_content message \<Rightarrow> bool" where
  "camera_talk nc nt m \<longleftrightarrow> msg_team m = CAMERA \<and> sender m < nc \<and> (\<forall>r. recipient m = Some r \<longrightarrow> r < nc)
     \<and> valid_told nt (content m)"

lemma camera_player_keeps:
  "camera_player nc nt no hi i ag \<Longrightarrow> greedy_camera_ok ag' \<Longrightarrow> gc_static ag' = gc_static ag
    \<Longrightarrow> camera_player nc nt no hi i ag'"
  by (drule gc_static_rule) (simp add: camera_player_def)

lemma camera_message_talk:
  assumes "camera_player nc nt no hi i ag" and "camera_message_ok ag m" and "i < nc"
  shows "camera_talk nc nt m"
  using assms by (auto simp: camera_message_ok_def camera_talk_def camera_player_def rule_static_def)

lemma camera_player_acts:
  assumes "rng_ok R" and "camera_player nc nt no hi i ag" and "sized_for CAMERA nc nt no obs"
  shows "\<exists>v ag'. greedy_camera_act R obs ag = Inr (v, ag') \<and> within_hi hi i v \<and> camera_player nc nt no hi i ag'"
proof -
  have ok: "greedy_camera_ok ag" and st: "rule_static ag = ((CAMERA, i, nc, nt, no), vneg (hi i), hi i)"
    using assms(2) by (simp_all add: camera_player_def)
  have "fits ag obs" using static_fits_sized [OF st] assms(3) by simp
  then show ?thesis
    using greedy_act_ok [OF assms(1) ok] static_within_hi [of ag _ hi i, OF st] camera_player_keeps [OF assms(2)] by blast
qed

lemma camera_player_observes:
  assumes "camera_player nc nt no hi i ag" and "sized_for CAMERA nc nt no obs"
  shows "\<exists>ag'. greedy_camera_observe obs ag = Inr ag' \<and> camera_player nc nt no hi i ag'"
proof -
  have ok: "greedy_camera_ok ag" and st: "rule_static ag = ((CAMERA, i, nc, nt, no), vneg (hi i), hi i)"
    using assms(1) by (simp_all add: camera_player_def)
  have "fits ag obs" using static_fits_sized [OF st] assms(2) by simp
  then show ?thesis using greedy_observe_ok [OF ok] camera_player_keeps [OF assms(1)] by blast
qed

lemma camera_player_sends:
  assumes "camera_player nc nt no hi i ag" and "i < nc"
  shows "\<exists>ms ag'. greedy_camera_send R ag = Inr (ms, ag') \<and> camera_player nc nt no hi i ag' \<and> (\<forall>m \<in> set ms. camera_talk nc nt m)"
proof -
  have "greedy_camera_ok ag" using assms(1) by (simp add: camera_player_def)
  from greedy_send_ok [OF this, of R] obtain ms ag' where s: "greedy_camera_send R ag = Inr (ms, ag')"
    "greedy_camera_ok ag'" "gc_static ag' = gc_static ag" "list_all (camera_message_ok ag) ms" by blast
  have "\<forall>m \<in> set ms. camera_talk nc nt m"
    using s(4) camera_message_talk [OF assms(1) _ assms(2)] by (simp add: list_all_iff)
  then show ?thesis using s(1) camera_player_keeps [OF assms(1) s(2,3)] by blast
qed

lemma camera_player_hears:
  assumes "camera_player nc nt no hi i ag" and "\<forall>m \<in> set ms. camera_talk nc nt m"
  shows "\<exists>ag'. greedy_camera_receive ms ag = Inr ag' \<and> camera_player nc nt no hi i ag'"
proof -
  have "greedy_camera_ok ag" "ag_num_targets ag = nt" using assms(1) by (simp_all add: camera_player_def rule_static_def)
  then show ?thesis
    using greedy_receive_ok [of ag ms] assms(2) camera_player_keeps [OF assms(1)] by (auto simp: camera_talk_def)
qed

lemma camera_player_requests:
  "camera_player nc nt no hi i ag \<Longrightarrow> camera_player nc nt no hi i (receive_requests ms ag)"
  by (rule camera_player_keeps, assumption)
    (auto simp: camera_player_def receive_requests_def greedy_camera_ok_def camera_memory_ok_def Let_def
      space_ok_def in_space_def gc_static_def)

lemma greedy_camera_team:
  fixes R :: "'g rng"
  assumes "rng_ok R"
  shows "team_agent (greedy_camera_handlers R seeding has_space) CAMERA nc (camera_player nc nt no hi)
    (\<lambda>i. sized_for CAMERA nc nt no) (camera_talk nc nt) (within_hi hi)"
proof
  fix i and ag :: "'g greedy_camera" and obs info ms
  assume ok: "camera_player nc nt no hi i ag"
  show "h_id (greedy_camera_handlers R seeding has_space) ag = (CAMERA, i)"
    using ok by (simp add: greedy_camera_handlers_def camera_player_def rule_static_def)
  show "\<exists>ag'. h_receive_requests (greedy_camera_handlers R seeding has_space) ms ag = Inr ag' \<and> camera_player nc nt no hi i ag'"
    using camera_player_requests [OF ok] by (simp add: greedy_camera_handlers_def)
  show "\<exists>ms ag'. h_send_requests (greedy_camera_handlers R seeding has_space) ag = Inr (ms, ag')
      \<and> camera_player nc nt no hi i ag' \<and> (\<forall>m \<in> set ms. camera_talk nc nt m)"
    using ok by (simp add: greedy_camera_handlers_def)
qed (simp_all add: greedy_camera_handlers_def camera_player_acts [OF assms] camera_player_observes camera_player_sends
    camera_player_hears del: split_paired_Ex, simp_all add: camera_talk_def)

subsection \<open>Greedy targets\<close>

definition greedy_target_handlers ::
  "'g rng \<Rightarrow> (int option \<Rightarrow> 'g \<times> int) \<Rightarrow> (nat set \<Rightarrow> nat list) \<Rightarrow> ('g greedy_target \<Rightarrow> bool)
    \<Rightarrow> ('g greedy_target, nat set option) handlers" where
  "greedy_target_handlers R seeding order has_space =
     \<lparr>h_id = (\<lambda>ag. (ag_team ag, ag_index ag)),
      h_reset = greedy_target_reset R seeding,
      h_observe = (\<lambda>obs info. greedy_target_observe obs),
      h_act = (\<lambda>obs info. greedy_target_act R order obs),
      h_send_requests = (\<lambda>ag. Inr ([], ag)),
      h_receive_requests = (\<lambda>ms ag. Inr (receive_requests ms ag)),
      h_send_responses = (\<lambda>ag. Inr (greedy_target_send ag)),
      h_receive_responses = greedy_target_receive,
      h_seed = (\<lambda>seed ag. agent_seed R seeding seed (has_space ag) ag),
      h_spawn = (\<lambda>n ag. agent_spawn R seeding (has_space ag) n ag)\<rparr>"

definition target_player :: "nat set \<Rightarrow> nat \<Rightarrow> nat \<Rightarrow> nat \<Rightarrow> (nat \<Rightarrow> vec) \<Rightarrow> nat \<Rightarrow> 'g greedy_target \<Rightarrow> bool" where
  "target_player W nc nt no hi i ag \<longleftrightarrow>
     greedy_target_ok ag \<and> W \<subseteq> gt_non_empty ag \<and> rule_static ag = ((TARGET, i, nc, nt, no), vneg (hi i), hi i)"

text \<open>The private part of an observation, and the observations that show no warehouse of \<open>W\<close> empty.\<close>

definition own_state :: "team \<Rightarrow> nat \<Rightarrow> nat \<Rightarrow> nat \<Rightarrow> real list \<Rightarrow> real list" where
  "own_state team nc nt no obs = slice_of obs (self_state_slice (observation_slices_of team nc nt no))"

definition shows_stock :: "nat set \<Rightarrow> nat \<Rightarrow> nat \<Rightarrow> nat \<Rightarrow> real list \<Rightarrow> bool" where
  "shows_stock W nc nt no obs \<longleftrightarrow>
     sized_for TARGET nc nt no obs \<and> W \<inter> seen_empty (own_state TARGET nc nt no obs) = {}"

definition target_talk :: "nat set \<Rightarrow> nat \<Rightarrow> nat set option message \<Rightarrow> bool" where
  "target_talk W nt m \<longleftrightarrow> msg_team m = TARGET \<and> sender m < nt \<and> (\<forall>r. recipient m = Some r \<longrightarrow> r < nt)
     \<and> (\<exists>ws. content m = Some ws \<and> W \<subseteq> ws)"

lemma target_static_own:
  "rule_static ag = ((TARGET, i, nc, nt, no), space)
    \<Longrightarrow> slice_of obs (self_state_slice (ag_slices ag)) = own_state TARGET nc nt no obs"
  by (simp add: rule_static_def own_state_def ag_slices_def)

lemma inputs_read_static: "rule_static (inputs_read obs ag) = rule_static ag"
  by (simp add: rule_static_def inputs_read_def)

lemma greedy_target_observe_static:
  "greedy_target_observe obs ag = Inr ag' \<Longrightarrow> rule_static ag' = rule_static ag"
  by (auto simp: greedy_target_observe_def check_inputs_eq note_empty_def rule_static_def split: if_splits)

lemma hear_non_empty_static: "hear_non_empty m ag = Inr ag' \<Longrightarrow> rule_static ag' = rule_static ag"
  by (auto simp: hear_non_empty_def rule_static_def split: option.splits)

lemma greedy_target_receive_static:
  assumes "greedy_target_receive ms ag = Inr ag'"
  shows "rule_static ag' = rule_static ag"
proof -
  have "fold_res hear_non_empty xs a = Inr a' \<Longrightarrow> rule_static a' = rule_static a" for xs a a'
    by (induction xs arbitrary: a) (auto simp: bind_res_Inr dest: hear_non_empty_static)
  from this [OF assms [unfolded greedy_target_receive_def]] show ?thesis
    by (simp add: receive_responses_def rule_static_def)
qed

lemma greedy_target_act_static:
  assumes "greedy_target_act R order obs ag = Inr (v, ag')"
  shows "rule_static ag' = rule_static ag"
proof -
  let ?c = "choose_goal R order (inputs_read obs ag)"
  obtain noise ag2 where d: "draw_noise R (gt_noise_scale ?c) (noise_prob (ag_state ?c) (gt_prev_state ?c))
      (gt_prev_noise ?c) ?c = (noise, ag2)" by (rule prod.exhaust)
  have "ag' = ag2\<lparr>gt_prev_state := ag_state ?c, gt_prev_noise := noise\<rparr>"
    using assms d by (simp add: greedy_target_act_def check_inputs_eq Let_def split: if_splits)
  moreover have "rule_static ag2 = rule_static ?c" using draw_noise_frame [OF d] by (simp add: rule_static_def)
  moreover have "rule_static ?c = rule_static (inputs_read obs ag)"
    by (simp add: choose_goal_def rule_static_def Let_def split: prod.split option.split)
  ultimately show ?thesis using inputs_read_static [of obs ag] by (simp add: rule_static_def)
qed

lemma target_player_acts:
  assumes "rng_ok R" and "lists_sets order" and "target_player W nc nt no hi i ag" and "sized_for TARGET nc nt no obs"
  shows "\<exists>v ag'. greedy_target_act R order obs ag = Inr (v, ag') \<and> within_hi hi i v \<and> target_player W nc nt no hi i ag'"
proof -
  have ok: "greedy_target_ok ag" and st: "rule_static ag = ((TARGET, i, nc, nt, no), vneg (hi i), hi i)"
    using assms(3) by (simp_all add: target_player_def)
  have "fits ag obs" using static_fits_sized [OF st] assms(4) by simp
  from greedy_target_act_ok [OF assms(1,2) ok this] obtain v ag' where a: "greedy_target_act R order obs ag = Inr (v, ag')"
    "in_space ag v" "greedy_target_ok ag'" "gt_non_empty ag' = gt_non_empty ag" by blast
  then show ?thesis
    using assms(3) greedy_target_act_static [OF a(1)] static_within_hi [of ag _ hi i, OF st] by (auto simp: target_player_def)
qed

lemma target_player_observes:
  assumes "target_player W nc nt no hi i ag" and "shows_stock W nc nt no obs"
  shows "\<exists>ag'. greedy_target_observe obs ag = Inr ag' \<and> target_player W nc nt no hi i ag'"
proof -
  have ok: "greedy_target_ok ag" and st: "rule_static ag = ((TARGET, i, nc, nt, no), vneg (hi i), hi i)"
    using assms(1) by (simp_all add: target_player_def)
  have "fits ag obs" using static_fits_sized [OF st] assms(2) by (simp add: shows_stock_def)
  from greedy_target_observe_ok [OF ok this] obtain ag' where a: "greedy_target_observe obs ag = Inr ag'"
    "greedy_target_ok ag'" "gt_non_empty ag' = gt_non_empty ag - seen_empty (own_state TARGET nc nt no obs)"
    by (auto simp: target_static_own [OF st])
  then show ?thesis
    using assms greedy_target_observe_static [OF a(1)] by (auto simp: target_player_def shows_stock_def)
qed

lemma target_player_sends:
  assumes "target_player W nc nt no hi i ag" and "i < nt"
  shows "target_player W nc nt no hi i (snd (greedy_target_send ag)) \<and> (\<forall>m \<in> set (fst (greedy_target_send ag)). target_talk W nt m)"
  using assms
  by (auto simp: target_player_def greedy_target_send_def rule_static_def greedy_target_ok_def target_agent_ok_def
      space_ok_def target_talk_def pack_message_def)

lemma target_player_hears:
  assumes "target_player W nc nt no hi i ag" and ms: "\<forall>m \<in> set ms. target_talk W nt m"
  shows "\<exists>ag'. greedy_target_receive ms ag = Inr ag' \<and> target_player W nc nt no hi i ag'"
proof -
  have ok: "greedy_target_ok ag" using assms(1) by (simp add: target_player_def)
  have "\<forall>m \<in> set ms. content m \<noteq> None \<and> W \<subseteq> the (content m)" using ms by (fastforce simp: target_talk_def)
  moreover from this obtain ag' where a: "greedy_target_receive ms ag = Inr ag'" "greedy_target_ok ag'"
    "gt_non_empty ag' = gt_non_empty ag \<inter> (\<Inter>m \<in> set ms. the (content m))"
    using greedy_target_receive_ok [OF ok, of ms] by auto
  ultimately show ?thesis
    using assms(1) greedy_target_receive_static [OF a(1)] by (intro exI [of _ ag']) (auto simp: target_player_def)
qed

lemma target_player_requests:
  "target_player W nc nt no hi i ag \<Longrightarrow> target_player W nc nt no hi i (receive_requests ms ag)"
  by (auto simp: target_player_def receive_requests_def greedy_target_ok_def target_agent_ok_def space_ok_def rule_static_def)

lemma greedy_target_team:
  fixes R :: "'g rng"
  assumes "rng_ok R" and "lists_sets order"
  shows "team_agent (greedy_target_handlers R seeding order has_space) TARGET nt (target_player W nc nt no hi)
    (\<lambda>i. shows_stock W nc nt no) (target_talk W nt) (within_hi hi)"
proof
  fix i and ag :: "'g greedy_target" and obs info ms
  assume ok: "target_player W nc nt no hi i ag"
  show "h_id (greedy_target_handlers R seeding order has_space) ag = (TARGET, i)"
    using ok by (simp add: greedy_target_handlers_def target_player_def rule_static_def)
  show "\<exists>ag'. h_receive_requests (greedy_target_handlers R seeding order has_space) ms ag = Inr ag'
      \<and> target_player W nc nt no hi i ag'"
    using target_player_requests [OF ok] by (simp add: greedy_target_handlers_def)
  show "\<exists>ms ag'. h_send_requests (greedy_target_handlers R seeding order has_space) ag = Inr (ms, ag')
      \<and> target_player W nc nt no hi i ag' \<and> (\<forall>m \<in> set ms. target_talk W nt m)"
    using ok by (simp add: greedy_target_handlers_def)
  show "\<exists>ms ag'. h_send_responses (greedy_target_handlers R seeding order has_space) ag = Inr (ms, ag')
      \<and> target_player W nc nt no hi i ag' \<and> (\<forall>m \<in> set ms. target_talk W nt m)" if "i < nt"
    using target_player_sends [OF ok that] by (cases "greedy_target_send ag") (simp add: greedy_target_handlers_def)
qed (simp_all add: greedy_target_handlers_def target_player_acts [OF assms] target_player_observes target_player_hears
    shows_stock_def del: split_paired_Ex, simp_all add: target_talk_def)

end
