(* ===== verification/Stock.thy ===== *)
theory Stock
  imports Guarantees
begin

text \<open>
  What the environment hands out after \<open>reset\<close> and \<open>step\<close>: the observations of the state it is left in, and
  empty queues; and what the targets are told about the warehouses: the \<open>empty_bits\<close> of a target, which it
  sets when it stands at a warehouse, stay right, because the cargoes left at a warehouse only get fewer.
\<close>

subsection \<open>Observations of the state after a call\<close>

lemma observation_of_cong:
  assumes "targets s' = targets s" and "cameras s' = cameras s" and "obstacles s' = obstacles s"
    and "camera_target_view_mask s' = camera_target_view_mask s"
    and "camera_camera_view_mask s' = camera_camera_view_mask s"
    and "target_camera_view_mask s' = target_camera_view_mask s"
    and "target_obstacle_view_mask s' = target_obstacle_view_mask s"
    and "target_target_view_mask s' = target_target_view_mask s"
    and "obstacle_states_flagged s' = obstacle_states_flagged s"
    and "camera_obstacle_observations s' = camera_obstacle_observations s"
  shows "observation_of team s' i = observation_of team s i"
  using assms
  by (cases team) (simp_all add: observation_of_def camera_observation_def target_observation_def preserved_data_def
      num_cameras_def num_targets_def num_obstacles_def camera_rows_def target_rows_def)

definition observations_of :: "team \<Rightarrow> ('g, 'm) env \<Rightarrow> real list list" where
  "observations_of team s = map (observation_of team s) [0..<num_agents team s]"

lemma joint_of_state:
  "fst (joint_observation s) = (observations_of CAMERA s, observations_of TARGET s)"
proof -
  have "camera_observation s = observation_of CAMERA s" "target_observation s = observation_of TARGET s"
    by (auto simp: observation_of_def)
  then show ?thesis by (simp add: joint_observation_def observations_of_def num_agents_def)
qed

lemma observations_of_cong:
  assumes "targets s' = targets s" and "cameras s' = cameras s" and "obstacles s' = obstacles s"
    and "camera_target_view_mask s' = camera_target_view_mask s"
    and "camera_camera_view_mask s' = camera_camera_view_mask s"
    and "target_camera_view_mask s' = target_camera_view_mask s"
    and "target_obstacle_view_mask s' = target_obstacle_view_mask s"
    and "target_target_view_mask s' = target_target_view_mask s"
    and "obstacle_states_flagged s' = obstacle_states_flagged s"
    and "camera_obstacle_observations s' = camera_obstacle_observations s"
  shows "observations_of team s' = observations_of team s"
proof -
  have "num_agents team s' = num_agents team s"
    using assms(1,2) by (cases team) (simp_all add: num_agents_def num_cameras_def num_targets_def)
  then show ?thesis using observation_of_cong [OF assms, of team] by (simp add: observations_of_def)
qed

text \<open>\<open>step\<close> and \<open>reset\<close> seen from outside.\<close>

definition quiet :: "'m mailbox \<Rightarrow> bool" where
  "quiet mb \<longleftrightarrow> message_queues mb = (\<lambda>_ _. [])"

lemma step_reads:
  assumes "step R interp1d order action s = Inr (res, s')"
  shows "camera_joint_observation res = observations_of CAMERA s'" "target_joint_observation res = observations_of TARGET s'"
    "length (camera_infos res) = num_cameras s'" "length (target_infos res) = num_targets s'" "quiet (mail s')"
    "length (target_dones s') = num_targets s'"
proof -
  obtain s1 s2 reward delayed where 1: "simulate R interp1d order action s = Inr s1"
    "assign_goals R s1 = (s2, reward, delayed)"
    using assms by (cases "assign_goals R (case simulate R interp1d order action s of Inr x \<Rightarrow> x)")
      (auto simp: step_def bind_res_Inr)
  let ?b = "book_rewards reward delayed s2"
  have E: "(camera_joint_observation res, target_joint_observation res) = fst (joint_observation ?b)"
    "s' = (tick (update_rates ?b))\<lparr>mail := end_of_step (mail (tick (update_rates ?b)))\<rparr>"
    "length (camera_infos res) = num_cameras (tick (update_rates ?b))"
    "length (target_infos res) = num_targets (tick (update_rates ?b))"
    using assms 1 by (auto simp: step_def joint_observation_def Let_def)
  have "observations_of team s' = observations_of team ?b" for team
    unfolding E(2) by (rule observations_of_cong) (simp_all add: tick_def update_rates_def Let_def)
  then show "camera_joint_observation res = observations_of CAMERA s'"
    "target_joint_observation res = observations_of TARGET s'"
    using E(1) by (simp_all add: joint_of_state)
  show "length (camera_infos res) = num_cameras s'" "length (target_infos res) = num_targets s'"
    using E(2-4) by (simp_all add: num_cameras_def num_targets_def)
  show "quiet (mail s')" by (simp add: E(2) quiet_def end_of_step_def)
  have "length (target_dones s2) = num_targets s2"
    using 1(2) by (auto simp: assign_goals_def Let_def num_targets_def split: prod.splits)
  then show "length (target_dones s') = num_targets s'"
    by (simp add: E(2) tick_def update_rates_def Let_def num_targets_def book_rewards_def)
qed

lemma reset_reads:
  assumes "reset R seeding interp1d order seed s = Some (Inr (obs, s'))"
  shows "obs = (observations_of CAMERA s', observations_of TARGET s')" "quiet (mail s')"
proof -
  obtain s5 where s5: "joint_observation ((orient_targets R s5)
      \<lparr>mail := clear_mailbox (mail (orient_targets R s5)), episode_step := 0\<rparr>) = (obs, s')"
    using assms by (auto simp: reset_def Let_def split: option.splits sum.splits)
  let ?s6 = "(orient_targets R s5)\<lparr>mail := clear_mailbox (mail (orient_targets R s5)), episode_step := 0\<rparr>"
  have s': "s' = update_rates ?s6" "obs = fst (joint_observation ?s6)"
    using s5 by (simp_all add: joint_observation_def)
  have "observations_of team s' = observations_of team ?s6" for team
    unfolding s'(1) by (rule observations_of_cong) (simp_all add: update_rates_def Let_def)
  then show "obs = (observations_of CAMERA s', observations_of TARGET s')"
    using s'(2) by (simp add: joint_of_state)
  show "quiet (mail s')" by (simp add: s'(1) quiet_def update_rates_def Let_def clear_mailbox_def)
qed

subsection \<open>Warehouses with cargoes left\<close>

definition in_stock :: "('g, 'z) world_scheme \<Rightarrow> nat set" where
  "in_stock s = {w. w < NUM_WAREHOUSES \<and> any_nonzero (remaining_cargoes s ! w)}"

text \<open>No target takes a warehouse with cargoes for empty.\<close>

definition told_right :: "('g, 'z) world_scheme \<Rightarrow> bool" where
  "told_right s \<longleftrightarrow> (\<forall>t \<in> set (targets s). \<forall>w \<in> in_stock s. \<not> empty_bits t ! w)"

definition stock_shrinks :: "('g, 'z) world_scheme \<Rightarrow> ('g, 'y) world_scheme \<Rightarrow> bool" where
  "stock_shrinks s s' \<longleftrightarrow> in_stock s' \<subseteq> in_stock s \<and> map empty_bits (targets s') = map empty_bits (targets s)"

lemma stock_shrinks_refl: "stock_shrinks s s"
  by (simp add: stock_shrinks_def)

lemma stock_shrinks_trans: "stock_shrinks s s' \<Longrightarrow> stock_shrinks s' s'' \<Longrightarrow> stock_shrinks s s''"
  by (auto simp: stock_shrinks_def)

lemma told_right_map: "told_right s \<longleftrightarrow> (\<forall>bits \<in> set (map empty_bits (targets s)). \<forall>w \<in> in_stock s. \<not> bits ! w)"
  by (simp add: told_right_def)

lemma shrinks_told_right:
  assumes "stock_shrinks s s'" and "told_right s"
  shows "told_right s'"
proof -
  have "map empty_bits (targets s') = map empty_bits (targets s)" "in_stock s' \<subseteq> in_stock s"
    using assms(1) by (simp_all add: stock_shrinks_def)
  then show ?thesis using assms(2) unfolding told_right_map by (metis subsetD)
qed

lemma map_bits_upd: "empty_bits (f (ts ! t)) = empty_bits (ts ! t) \<Longrightarrow> map empty_bits (ts[t := f (ts ! t)]) = map empty_bits ts"
  by (cases "t < length ts") (simp_all add: map_update list_update_same_conv list_update_beyond)

lemma deliver_shrinks: "stock_shrinks s (deliver t w s)"
  by (simp add: stock_shrinks_def deliver_def in_stock_def Let_def)

lemma clear_load_shrinks: "stock_shrinks s (clear_load t s)"
  by (simp add: stock_shrinks_def clear_load_def in_stock_def map_bits_upd)

lemma load_cargo_shrinks:
  assumes "any_nonzero (remaining_cargoes s ! w)"
  shows "stock_shrinks s (load_cargo R t w s)"
proof -
  have "any_nonzero (remaining_cargoes s ! v)" if "any_nonzero (mat_upd (remaining_cargoes s) w j x ! v)" for v j x
    using that assms by (cases "v = w") (simp_all add: mat_upd_def)
  then show ?thesis
    by (auto simp: stock_shrinks_def load_cargo_def in_stock_def Let_def map_bits_upd split: prod.split)
qed

text \<open>What holds between the states before and after each part of a visit holds between those of the whole.\<close>

lemma visit_warehouses_relates:
  fixes Q :: "('g, 'z) world_scheme \<Rightarrow> ('g, 'z) world_scheme \<Rightarrow> bool"
  assumes refl: "\<And>u. Q u u" and trans: "\<And>u v w. Q u v \<Longrightarrow> Q v w \<Longrightarrow> Q u w"
    and parts: "\<And>w u. Q u (deliver t w u)" "\<And>u. Q u (clear_load t u)"
      "\<And>w u. any_nonzero (remaining_cargoes u ! w) \<Longrightarrow> Q u (load_cargo R t w u)"
    and run: "visit_warehouses R t goal ws (s, r, d) = (s', r', d')"
  shows "Q s s'"
  using run
proof (induction ws arbitrary: s r d)
  case (Cons w ws)
  show ?case
  proof (cases "goal \<ge> 0 \<and> goal \<noteq> int w")
    case True
    then show ?thesis using Cons by simp
  next
    case False
    let ?s1 = "if goal \<ge> 0 then deliver t w s else s"
    have "Q s ?s1" using parts(1) refl by simp
    from trans [OF this parts(2)] have 2: "Q s (clear_load t ?s1)" .
    define r1 where "r1 = (if goal \<ge> 0 then r + delivery_reward t s else r)"
    define d1 where "d1 = (if goal \<ge> 0 then d + delivery_delayed_reward t w s else d)"
    have v: "visit_warehouses R t goal (w # ws) (s, r, d) =
        (if any_nonzero (remaining_cargoes (clear_load t ?s1) ! w) then (load_cargo R t w (clear_load t ?s1), r1, d1)
         else visit_warehouses R t goal ws (clear_load t ?s1, r1, d1))"
      using False by (cases "goal \<ge> 0") (simp_all add: Let_def r1_def d1_def cong: if_cong)
    show ?thesis
    proof (cases "any_nonzero (remaining_cargoes (clear_load t ?s1) ! w)")
      case True
      then have "s' = load_cargo R t w (clear_load t ?s1)" using v Cons.prems by simp
      then show ?thesis using trans [OF 2 parts(3) [OF True]] by simp
    next
      case nothing: False
      then have "visit_warehouses R t goal ws (clear_load t ?s1, r1, d1) = (s', r', d')"
        using Cons.prems unfolding v by simp
      from trans [OF 2 Cons.IH [OF this]] show ?thesis .
    qed
  qed
qed (simp add: refl)

lemma visit_warehouses_shrinks:
  "visit_warehouses R t goal ws (s, r, d) = (s', r', d') \<Longrightarrow> stock_shrinks s s'"
  by (rule visit_warehouses_relates [where Q = stock_shrinks])
    (rule stock_shrinks_refl stock_shrinks_trans deliver_shrinks clear_load_shrinks load_cargo_shrinks; assumption)+

lemma noted_bits:
  assumes "\<not> bits ! w" and "\<not> f w"
  shows "\<not> fold (\<lambda>w bits. bits[w := f w]) ws bits ! w"
  using assms(1)
proof (induction ws arbitrary: bits)
  case (Cons v ws)
  have "\<not> bits[v := f v] ! w"
    using Cons.prems assms(2) by (cases "v = w"; cases "w < length bits") (simp_all add: list_update_beyond)
  then show ?case using Cons.IH by simp
qed simp

lemma see_empty_told_right:
  assumes "told_right s"
  shows "told_right (see_empty_warehouses t ws s)" "in_stock (see_empty_warehouses t ws s) = in_stock s"
proof -
  show stock: "in_stock (see_empty_warehouses t ws s) = in_stock s" by (simp add: in_stock_def see_empty_warehouses_def)
  show "told_right (see_empty_warehouses t ws s)"
  proof (cases "t < length (targets s)")
    case True
    have "\<not> fold (\<lambda>w bits. bits[w := \<not> any_nonzero (remaining_cargoes s ! w)]) ws (empty_bits (targets s ! t)) ! w"
      if "w \<in> in_stock s" for w
      using assms that True by (intro noted_bits) (auto simp: told_right_def in_stock_def)
    then show ?thesis
      using assms by (auto simp: told_right_def see_empty_warehouses_def in_stock_def dest!: set_update_subset_insert [THEN subsetD])
  next
    case False
    then show ?thesis using assms stock by (simp add: told_right_def) (simp add: see_empty_warehouses_def list_update_beyond)
  qed
qed

text \<open>What holds between the states before and after a part of a step.\<close>

definition keeps_right :: "('g, 'z) world_scheme \<Rightarrow> ('g, 'y) world_scheme \<Rightarrow> bool" where
  "keeps_right s s' \<longleftrightarrow> (told_right s \<longrightarrow> told_right s' \<and> in_stock s' \<subseteq> in_stock s)"

lemma keeps_right_trans: "keeps_right s s' \<Longrightarrow> keeps_right s' s'' \<Longrightarrow> keeps_right s s''"
  by (auto simp: keeps_right_def)

lemma shrinks_keeps_right: "stock_shrinks s s' \<Longrightarrow> keeps_right s s'"
  using shrinks_told_right by (auto simp: keeps_right_def stock_shrinks_def)

lemma assign_target_right:
  assumes "assign_target R t (s, r, d) = (s', r', d')"
  shows "keeps_right s s'"
proof -
  let ?s1 = "s\<lparr>target_warehouse_distances := (target_warehouse_distances s)[t := warehouse_distances (location (targets s ! t))]\<rparr>"
  let ?ws = "nearby_warehouses (location (targets s ! t))"
  obtain s2 r2 d2 where v: "visit_warehouses R t (target_goals s ! t) ?ws (?s1, r, d) = (s2, r2, d2)"
    by (metis prod_cases3)
  have s': "s' = see_empty_warehouses t ?ws s2" using assms v by (simp add: assign_target_def Let_def)
  have "stock_shrinks s ?s1" by (simp add: stock_shrinks_def in_stock_def)
  from shrinks_keeps_right [OF stock_shrinks_trans [OF this visit_warehouses_shrinks [OF v]]] show ?thesis
    using see_empty_told_right [of s2 t ?ws] by (auto simp: s' keeps_right_def)
qed

lemma assign_targets_right: "fold (assign_target R) ts (s, r, d) = (s', r', d') \<Longrightarrow> keeps_right s s'"
proof (induction ts arbitrary: s r d)
  case (Cons t ts)
  obtain s1 r1 d1 where 1: "assign_target R t (s, r, d) = (s1, r1, d1)" by (metis prod_cases3)
  show ?case using keeps_right_trans [OF assign_target_right [OF 1] Cons.IH [of s1 r1 d1]] Cons.prems 1 by simp
qed (simp add: keeps_right_def)

lemma assign_goals_right:
  assumes "assign_goals R s = (s', r, d)"
  shows "keeps_right s s'"
proof -
  obtain s1 where f: "fold (assign_target R) [0..<num_targets s] (pay_bounties s, - tracked_with_bounty s, 0) = (s1, r, d)"
    and e: "targets s' = targets s1" "remaining_cargoes s' = remaining_cargoes s1"
    using assms by (auto simp: assign_goals_def Let_def split: prod.splits)
  have "stock_shrinks s (pay_bounties s)" by (simp add: stock_shrinks_def in_stock_def pay_bounties_def)
  moreover have "stock_shrinks s1 s'" by (simp add: stock_shrinks_def in_stock_def e)
  ultimately show ?thesis
    using keeps_right_trans [OF shrinks_keeps_right keeps_right_trans [OF assign_targets_right [OF f] shrinks_keeps_right]] by blast
qed

lemma step_keeps_right:
  assumes R: "rng_ok R" and ok: "env_ok s" and run: "step R interp1d order action s = Inr (res, s')"
  shows "keeps_right s s'"
proof -
  have sz: "length (fst action) = num_cameras s * CAMERA_ACTION_DIM"
    "length (snd action) = num_targets s * TARGET_ACTION_DIM"
    using step_returns_sized [OF run] by (simp_all add: sized_def)
  obtain s1 s2 s3 reward delayed res' where D: "moved order s s1" "s2 = update_view R interp1d s1"
    "assign_goals R s2 = (s3, reward, delayed)"
    "step R interp1d order action s = Inr (res', finish_step (book_rewards reward delayed s3))"
    by (rule step_decomposed [OF sz]) (rule that; assumption?)
  obtain cams ts ors where m: "s1 = s\<lparr>cameras := cams, targets := ts, target_orientations := ors\<rparr>"
    "length ts = num_targets s"
    "\<forall>t < num_targets s. \<exists>a. target_simulate order (collisions s) (targets s ! t) a = Inr (ts ! t)"
    using D(1) by (auto simp: moved_def)
  have "empty_bits (ts ! t) = empty_bits (targets s ! t)" if "t < num_targets s" for t
    using m(3) that target_simulate_ok(3) ok by (metis env_ok_def view_shapes_def)
  then have "map empty_bits ts = map empty_bits (targets s)"
    using m(2) by (intro nth_equalityI) (simp_all add: num_targets_def)
  then have 1: "stock_shrinks s s1" by (simp add: stock_shrinks_def m(1) in_stock_def)
  have 2: "stock_shrinks s1 s2"
    by (simp add: D(2) stock_shrinks_def in_stock_def update_view_def case_prod_beta)
  have 3: "stock_shrinks s3 s'"
  proof -
    have "s' = finish_step (book_rewards reward delayed s3)" using run D(4) by simp
    then have "targets s' = targets s3" "remaining_cargoes s' = remaining_cargoes s3"
      by (simp_all add: finish_step_def book_rewards_def tick_def update_rates_def Let_def)
    then show ?thesis by (simp add: stock_shrinks_def in_stock_def)
  qed
  show ?thesis
    by (rule keeps_right_trans [OF shrinks_keeps_right [OF stock_shrinks_trans [OF 1 2]]
          keeps_right_trans [OF assign_goals_right [OF D(3)] shrinks_keeps_right [OF 3]]])
qed

text \<open>An episode starts with nothing noted; what is noted while the cargoes are drawn is right.\<close>

lemma first_load_shrinks: "stock_shrinks s (first_load R t ws s)"
  by (induction ws) (simp_all add: stock_shrinks_refl load_cargo_shrinks)

lemma start_target_shrinks: "stock_shrinks s (start_target R t s)"
proof -
  obtain ws g where p: "permutation R (np_random s) NUM_WAREHOUSES = (ws, g)" by (rule prod.exhaust)
  have "stock_shrinks s (s\<lparr>np_random := g\<rparr>)" by (simp add: stock_shrinks_def in_stock_def)
  from stock_shrinks_trans [OF this first_load_shrinks] show ?thesis by (simp add: start_target_def p)
qed

lemma start_with_cargoes_shrinks:
  assumes "start_with_cargoes R s = Inr s'"
  shows "stock_shrinks s s'"
proof -
  have "stock_shrinks u (fold (start_target R) ts u)" for ts u
    by (induction ts arbitrary: u) (auto simp: stock_shrinks_refl intro: stock_shrinks_trans [OF start_target_shrinks])
  then show ?thesis using assms by (auto simp: start_with_cargoes_def Let_def split: if_splits)
qed

lemma reset_cargo_right:
  assumes R: "rng_ok R" and st: "staged s" and run: "reset_cargo R k start s = Some (Inr s')"
  shows "told_right s'"
proof -
  obtain s1 where d: "draw_until_all R (k * num_targets s) (reset_remaining s) = Some s1"
    using run by (auto simp: reset_cargo_def split: option.splits)
  obtain m where rest: "rest_of s1 = rest_of s" by (rule draw_result [OF R d])
  have "targets (clear_transport s1) = targets s"
    using rest_of_fields(1) [OF rest] by (simp add: clear_transport_def Let_def)
  moreover have "\<forall>t \<in> set (targets s). empty_bits t = replicate NUM_WAREHOUSES False"
    using st by (auto simp: staged_def num_targets_def in_set_conv_nth)
  ultimately have "told_right (clear_transport s1)" by (auto simp: told_right_def in_stock_def)
  moreover obtain s2 r d' where a: "assign_goals R (clear_transport s1) = (s2, r, d')" by (metis prod_cases3)
  ultimately have 2: "told_right s2" using assign_goals_right [OF a] by (simp add: keeps_right_def)
  have "stock_shrinks s2 (clear_episode s2)" by (simp add: stock_shrinks_def clear_episode_def in_stock_def)
  from shrinks_told_right [OF this 2] have 3: "told_right (clear_episode s2)" .
  have "(if start then start_with_cargoes R (clear_episode s2) else Inr (clear_episode s2)) = Inr s'"
    using run d a by (simp add: reset_cargo_def)
  then show ?thesis
    using 3 shrinks_told_right [OF start_with_cargoes_shrinks] by (cases start) auto
qed

lemma reset_told_right:
  assumes R: "rng_ok R" and ok: "env_setup s" and run: "reset R seeding interp1d order seed s = Some (Inr (obs, s'))"
  shows "told_right s'"
proof -
  let ?k = "cargoes_per_target (settings s)"
  obtain s4 where s4: "staged s4"
    and eq: "reset R seeding interp1d order seed s =
       (case reset_cargo R ?k (start_loaded (settings s)) s4 of
          None \<Rightarrow> None
        | Some (Inl e) \<Rightarrow> Some (Inl e)
        | Some (Inr s5) \<Rightarrow>
            Some (Inr (joint_observation ((orient_targets R s5)
              \<lparr>mail := clear_mailbox (mail (orient_targets R s5)), episode_step := 0\<rparr>))))"
    by (rule reset_decomposed [OF R ok])
  obtain s5 where s5: "reset_cargo R ?k (start_loaded (settings s)) s4 = Some (Inr s5)"
    "joint_observation ((orient_targets R s5)
       \<lparr>mail := clear_mailbox (mail (orient_targets R s5)), episode_step := 0\<rparr>) = (obs, s')"
    using run unfolding eq by (auto split: option.splits sum.splits)
  obtain g ors where o: "orient_targets R s5 = s5\<lparr>np_random := g, target_orientations := ors\<rparr>"
    using orient_targets_frame [of R s5] by blast
  have "s' = update_rates ((orient_targets R s5)\<lparr>mail := clear_mailbox (mail (orient_targets R s5)), episode_step := 0\<rparr>)"
    using s5(2) by (simp add: joint_observation_def)
  then have "targets s' = targets s5" "remaining_cargoes s' = remaining_cargoes s5"
    by (simp_all add: o update_rates_def Let_def)
  then show ?thesis
    using reset_cargo_right [OF R s4 s5(1)] by (simp add: told_right_def in_stock_def)
qed

subsection \<open>The rules of an episode\<close>

text \<open>What the agents rely on from the reset on: the sizes of the game and how far each entity may move.\<close>

definition reach :: "team \<Rightarrow> ('g, 'm) env \<Rightarrow> nat \<Rightarrow> vec" where
  "reach team s i =
     (case team of CAMERA \<Rightarrow> (rotation_step (cameras s ! i), zooming_step (cameras s ! i))
      | TARGET \<Rightarrow> (step_size (targets s ! i), step_size (targets s ! i)))"

definition same_rules :: "('g, 'm) env \<Rightarrow> ('g, 'm) env \<Rightarrow> bool" where
  "same_rules s s' \<longleftrightarrow> num_cameras s' = num_cameras s \<and> num_targets s' = num_targets s \<and> num_obstacles s' = num_obstacles s
     \<and> (\<forall>c < num_cameras s. reach CAMERA s' c = reach CAMERA s c) \<and> (\<forall>t < num_targets s. reach TARGET s' t = reach TARGET s t)"

lemma same_rules_trans: "same_rules s s' \<Longrightarrow> same_rules s' s'' \<Longrightarrow> same_rules s s''"
  by (simp add: same_rules_def)

lemma same_rules_team:
  assumes "same_rules s s'"
  shows "num_agents team s' = num_agents team s" "i < num_agents team s \<Longrightarrow> reach team s' i = reach team s i"
  using assms by (cases team; simp add: same_rules_def num_agents_def)+

lemma moved_same_rules:
  assumes "env_ok s" and "moved order s s'"
  shows "same_rules s s'"
proof -
  obtain cams ts ors where m: "s' = s\<lparr>cameras := cams, targets := ts, target_orientations := ors\<rparr>"
    "length cams = num_cameras s" "length ts = num_targets s"
    "\<forall>c < num_cameras s. \<exists>a. camera_simulate (cameras s ! c) a = Inr (cams ! c)"
    "\<forall>t < num_targets s. \<exists>a. target_simulate order (collisions s) (targets s ! t) a = Inr (ts ! t)"
    using assms(2) by (auto simp: moved_def)
  have "step_size (ts ! t) = step_size (targets s ! t)" if "t < num_targets s" for t
    using m(5) that target_simulate_ok(4) assms(1) by (metis env_ok_def view_shapes_def)
  moreover have "rotation_step (cams ! c) = rotation_step (cameras s ! c) \<and> zooming_step (cams ! c) = zooming_step (cameras s ! c)"
    if "c < num_cameras s" for c
  proof -
    obtain a where "camera_simulate (cameras s ! c) a = Inr (cams ! c)" using m(4) \<open>c < num_cameras s\<close> by blast
    then obtain x y z where "cams ! c = (cameras s ! c)\<lparr>orientation := x, viewing_angle := y, sight_range := z\<rparr>"
      by (simp add: camera_simulate_def Let_def bind_check split: if_splits) (metis sum.inject(2))
    then show ?thesis by simp
  qed
  ultimately show ?thesis
    using m(2,3) by (simp add: same_rules_def reach_def m(1) num_cameras_def num_targets_def num_obstacles_def)
qed

lemma update_view_same_rules: "same_rules s (update_view R interp1d s)"
proof -
  obtain cams ct cc tc to tt tb where u: "update_view R interp1d s = s\<lparr>state_cache := None, cameras := cams,
      camera_target_view_mask := ct, target_camera_view_mask := tc, target_obstacle_view_mask := to,
      target_target_view_mask := tt, camera_camera_view_mask := cc, tracked_bits := tb\<rparr>"
    and L: "length cams = num_cameras s" "\<forall>c < num_cameras s. same_camera (cameras s ! c) (cams ! c)"
    using update_view_frame [of R interp1d s] by blast
  have "rotation_step b = rotation_step a \<and> zooming_step b = zooming_step a" if "same_camera a b" for a b :: "'a camera"
  proof -
    have "b = a\<lparr>gen := gen b\<rparr>" using that by (simp add: same_camera_def)
    from arg_cong [OF this, of rotation_step] arg_cong [OF this, of zooming_step] show ?thesis by simp
  qed
  then show ?thesis
    using L by (simp add: same_rules_def reach_def u num_cameras_def num_targets_def num_obstacles_def)
qed

lemma step_same_rules:
  assumes R: "rng_ok R" and ok: "env_ok s" and run: "step R interp1d order action s = Inr (res, s')"
  shows "same_rules s s'"
proof -
  have sz: "length (fst action) = num_cameras s * CAMERA_ACTION_DIM"
    "length (snd action) = num_targets s * TARGET_ACTION_DIM"
    using step_returns_sized [OF run] by (simp_all add: sized_def)
  obtain s1 s2 s3 reward delayed res' where D: "moved order s s1" "s2 = update_view R interp1d s1"
    "assign_goals R s2 = (s3, reward, delayed)"
    "step R interp1d order action s = Inr (res', finish_step (book_rewards reward delayed s3))"
    by (rule step_decomposed [OF sz]) (rule that; assumption?)
  have ok2: "env_ok s2" unfolding D(2) by (intro update_view_env_ok moved_env_ok [OF ok D(1)])
  have S: "same_setup s2 s3"
    using assign_goals_step(1) [OF R _ D(3)] ok2 by (simp add: env_ok_def ledger_def)
  have more: "world.more s3 = world.more s2" using S by (simp add: same_setup_def)
  note M = env_more [OF more]
  have "step_size (targets s3 ! t) = step_size (targets s2 ! t)" if "t < num_targets s2" for t
    using same_body_eqs(3) [OF same_setup_body [OF S that]] .
  moreover have "num_targets s3 = num_targets s2" using S by (simp add: same_setup_def)
  ultimately have 3: "same_rules s2 s3"
    using M by (simp add: same_rules_def reach_def num_cameras_def num_obstacles_def)
  have "s' = finish_step (book_rewards reward delayed s3)" using run D(4) by simp
  then have "targets s' = targets s3" "cameras s' = cameras s3" "obstacles s' = obstacles s3"
    by (simp_all add: finish_step_def book_rewards_def tick_def update_rates_def Let_def)
  then have 4: "same_rules s3 s'" by (simp add: same_rules_def reach_def num_cameras_def num_targets_def num_obstacles_def)
  show ?thesis
    using moved_same_rules [OF ok D(1)] update_view_same_rules [of s1 R interp1d, folded D(2)] 3 4 same_rules_trans by blast
qed

subsection \<open>An episode leaves the environment ready for the next one\<close>

lemma target_simulate_product:
  assumes "target_simulate order idx t a = Inr t'"
  shows "transport_product t' = transport_product t"
  using assms by (auto simp: target_simulate_def bind_check split: prod.splits if_splits)

lemma step_config:
  assumes R: "rng_ok R" and ok: "env_ok s" and run: "step R interp1d order action s = Inr (res, s')"
  shows "config_ok s' = config_ok s"
proof -
  have sz: "length (fst action) = num_cameras s * CAMERA_ACTION_DIM"
    "length (snd action) = num_targets s * TARGET_ACTION_DIM"
    using step_returns_sized [OF run] by (simp_all add: sized_def)
  obtain s1 s2 s3 reward delayed res' where D: "moved order s s1" "s2 = update_view R interp1d s1"
    "assign_goals R s2 = (s3, reward, delayed)"
    "step R interp1d order action s = Inr (res', finish_step (book_rewards reward delayed s3))"
    by (rule step_decomposed [OF sz]) (rule that; assumption?)
  have ok2: "env_ok s2" unfolding D(2) by (intro update_view_env_ok moved_env_ok [OF ok D(1)])
  have S: "same_setup s2 s3"
    using assign_goals_step(1) [OF R _ D(3)] ok2 by (simp add: env_ok_def ledger_def)
  have more: "world.more s3 = world.more s2" using S by (simp add: same_setup_def)
  note M = env_more [OF more]
  have "num_targets s3 = num_targets s2" using S by (simp add: same_setup_def)
  then have 3: "config_ok s3 = config_ok s2"
    using same_body_eqs(7) [OF same_setup_body [OF S]] M
    by (intro config_ok_cong) (simp_all add: num_cameras_def num_obstacles_def)
  obtain cams ts ors where m: "s1 = s\<lparr>cameras := cams, targets := ts, target_orientations := ors\<rparr>"
    "length cams = num_cameras s" "length ts = num_targets s"
    "\<forall>t < num_targets s. \<exists>a. target_simulate order (collisions s) (targets s ! t) a = Inr (ts ! t)"
    using D(1) by (auto simp: moved_def)
  have "transport_product (ts ! t) = transport_product (targets s ! t)" if "t < num_targets s" for t
    using m(4) that target_simulate_product by metis
  then have 1: "config_ok s1 = config_ok s"
    using m(2,3) by (intro config_ok_cong) (simp_all add: m(1) num_cameras_def num_targets_def num_obstacles_def)
  obtain cams' ct cc tc to tt tb where u: "s2 = s1\<lparr>state_cache := None, cameras := cams',
      camera_target_view_mask := ct, target_camera_view_mask := tc, target_obstacle_view_mask := to,
      target_target_view_mask := tt, camera_camera_view_mask := cc, tracked_bits := tb\<rparr>"
    and L: "length cams' = num_cameras s1"
    using update_view_frame [of R interp1d s1] unfolding D(2) by blast
  have 2: "config_ok s2 = config_ok s1"
    using L by (intro config_ok_cong) (simp_all add: u num_cameras_def num_targets_def num_obstacles_def)
  have "s' = finish_step (book_rewards reward delayed s3)" using run D(4) by simp
  then have 4: "config_ok s' = config_ok s3"
    by (intro config_ok_cong)
      (simp_all add: finish_step_def book_rewards_def tick_def update_rates_def Let_def num_cameras_def num_targets_def num_obstacles_def)
  show ?thesis using 1 2 3 4 by simp
qed

lemma setup_config: "env_setup s \<Longrightarrow> config_ok s"
  by (auto simp: env_setup_def config_ok_def num_targets_def)

lemma step_setup:
  assumes "rng_ok R" and "env_ok s" and "env_setup s" and "step R interp1d order action s = Inr (res, s')"
  shows "env_setup s'"
proof (rule env_ok_setup)
  have "sized s action" by (rule step_returns_sized [OF assms(4)])
  from step_round [OF assms(1,2) this, of interp1d order] show "env_ok s'" using assms(4) by auto
  show "config_ok s'" using step_config [OF assms(1,2,4)] setup_config [OF assms(3)] by simp
qed

lemma run_setup:
  assumes R: "rng_ok R" and "run R interp1d order s rs s'" and "env_ok s" and "env_setup s"
  shows "env_setup s'"
  using assms(2-)
proof (induction rule: run.induct)
  case (run_step s rs s1 action res s2)
  have "env_ok s1" using run_facts [OF R run_step.hyps(1) run_step.prems(1)] by blast
  then show ?case using step_setup [OF R _ run_step.IH [OF run_step.prems] run_step.hyps(2)] by blast
qed simp

end
