(* ===== verification/SingleTeam.thy ===== *)
theory SingleTeam
  imports Players Stock
begin

text \<open>
  The environment as one team sees it: \<open>SingleTeamHelper\<close> and \<open>SingleTeamMultiAgent\<close> (\<open>MultiCamera\<close>,
  \<open>MultiTarget\<close>) of \<^verbatim>\<open>mate/wrappers/single_team.py\<close>, around the environment or around
  \<open>RepeatedRewardIndividualDone\<close> of \<^verbatim>\<open>mate/wrappers/repeated_reward_individual_done.py\<close>. The other team is
  played by agents of the program; they share the environment's mailbox and generator.

  The list of opponents is kept in the order of the last shuffle, with the original indices, as the
  environment does with its entities. The locale \<open>rival_team\<close> is what the wrapper relies on in them, as a
  property of the state of the environment they play in; greedy cameras and greedy targets provide it.
\<close>

subsection \<open>Results of a step\<close>

text \<open>A reward or an end is one value for the team or one per agent; a tuple holds one for each team.\<close>

datatype payoff = Shared int | Individual "int list"

datatype ends = Done bool | Dones "bool list" "bool list"

datatype ending = Together bool | Apart "bool list"

record 'm joint_result =
  jr_obs :: "real list list \<times> real list list"
  jr_rewards :: "payoff \<times> payoff"
  jr_done :: ends
  jr_infos :: "'m agent_info list \<times> 'm agent_info list"

definition plain_result :: "'m step_result \<Rightarrow> 'm joint_result" where
  "plain_result res =
     \<lparr>jr_obs = (camera_joint_observation res, target_joint_observation res),
      jr_rewards = (Shared (camera_team_reward res), Shared (target_team_reward res)),
      jr_done = Done (done_flag res), jr_infos = (camera_infos res, target_infos res)\<rparr>"

text \<open>\<open>RepeatedRewardIndividualDone.step\<close>; \<open>s\<close> is the environment after the step.\<close>

definition individual_dones :: "bool \<Rightarrow> ('g, 'z) world_scheme \<Rightarrow> bool \<Rightarrow> bool list" where
  "individual_dones at_destination s d = (if at_destination then target_dones s else replicate (num_targets s) d)"

definition repeat_result :: "bool \<Rightarrow> ('g, 'm) env \<Rightarrow> 'm step_result \<Rightarrow> 'm joint_result" where
  "repeat_result at_destination s res =
     \<lparr>jr_obs = (camera_joint_observation res, target_joint_observation res),
      jr_rewards = (Individual (replicate (num_cameras s) (camera_team_reward res)),
                    Individual (replicate (num_targets s) (target_team_reward res))),
      jr_done = Dones (replicate (num_cameras s) (done_flag res)) (individual_dones at_destination s (done_flag res)),
      jr_infos = (camera_infos res, target_infos res)\<rparr>"

text \<open>The wrapped environment: \<open>None\<close> without the wrapper, else its setting.\<close>

definition wrapped_step ::
  "bool option \<Rightarrow> 'g rng \<Rightarrow> interp \<Rightarrow> (nat list \<Rightarrow> nat list) \<Rightarrow> real list \<times> real list \<Rightarrow> ('g, 'm) env
    \<Rightarrow> ('m joint_result \<times> ('g, 'm) env) res" where
  "wrapped_step repeated R interp1d order action s =
     bind_res (step R interp1d order action s) (\<lambda>(res, s').
       Inr (case repeated of None \<Rightarrow> plain_result res | Some at_destination \<Rightarrow> repeat_result at_destination s' res, s'))"

subsection \<open>Own team first\<close>

text \<open>\<open>swap\<close> of two and of four items; an item that is no tuple stays.\<close>

definition swap_pair :: "team \<Rightarrow> 'x \<times> 'x \<Rightarrow> 'x \<times> 'x" where
  "swap_pair team p = (case team of CAMERA \<Rightarrow> p | TARGET \<Rightarrow> (snd p, fst p))"

definition swap_ends :: "team \<Rightarrow> ends \<Rightarrow> ends" where
  "swap_ends team d =
     (case team of CAMERA \<Rightarrow> d | TARGET \<Rightarrow> (case d of Done b \<Rightarrow> Done b | Dones c t \<Rightarrow> Dones t c))"

definition swap_result :: "team \<Rightarrow> 'm joint_result \<Rightarrow> 'm joint_result" where
  "swap_result team jr =
     \<lparr>jr_obs = swap_pair team (jr_obs jr), jr_rewards = swap_pair team (jr_rewards jr),
      jr_done = swap_ends team (jr_done jr), jr_infos = swap_pair team (jr_infos jr)\<rparr>"

definition helper_step ::
  "bool option \<Rightarrow> team \<Rightarrow> 'g rng \<Rightarrow> interp \<Rightarrow> (nat list \<Rightarrow> nat list) \<Rightarrow> real list \<times> real list \<Rightarrow> ('g, 'm) env
    \<Rightarrow> ('m joint_result \<times> ('g, 'm) env) res" where
  "helper_step repeated team R interp1d order action s =
     bind_res (wrapped_step repeated R interp1d order (swap_pair team action) s) (\<lambda>(jr, s').
       Inr (swap_result team jr, s'))"

subsection \<open>A team against agents of the program\<close>

record ('a, 'g, 'm) multi_agent =
  inner :: "('g, 'm) env"
  prototype :: 'a
  rivals :: "'a list"
  rival_order :: "nat list"
  rival_obs :: "real list list"
  rival_infos :: "'m agent_info list option"

definition new_multi_agent ::
  "('a, 'm) handlers \<Rightarrow> team \<Rightarrow> 'a \<Rightarrow> ('g, 'm) env \<Rightarrow> ('a, 'g, 'm) multi_agent res" where
  "new_multi_agent H team agent s =
     bind_res (check AssertionError (0 < num_agents team s)) (\<lambda>_.
       case h_spawn H (num_agents (opponent team) s) agent of
         (agents, agent') \<Rightarrow>
           Inr \<lparr>inner = s, prototype = agent', rivals = agents, rival_order = [0..<length agents],
                rival_obs = [], rival_infos = None\<rparr>)"

text \<open>\<open>load_config\<close> of the wrapped environment, then the constructor again.\<close>

definition multi_load_config ::
  "(('g, 'm) env \<Rightarrow> ('g, 'm) env res) \<Rightarrow> ('a, 'm) handlers \<Rightarrow> team \<Rightarrow> ('a, 'g, 'm) multi_agent
    \<Rightarrow> ('a, 'g, 'm) multi_agent res" where
  "multi_load_config load H team ma =
     bind_res (load (inner ma)) (\<lambda>s. new_multi_agent H team (prototype ma) s)"

text \<open>The agents back in the order of the constructor, then shuffled when the environment shuffles its entities.\<close>

definition shuffle_agents :: "'g rng \<Rightarrow> bool \<Rightarrow> nat list \<Rightarrow> 'a list \<Rightarrow> 'g \<Rightarrow> 'a list \<times> nat list \<times> 'g" where
  "shuffle_agents R shuffled order agents g =
     (let ordered = unshuffle order agents
      in if shuffled
         then (case permutation R g (length ordered) of (p, g') \<Rightarrow> (map (\<lambda>k. ordered ! k) p, p, g'))
         else (ordered, [0..<length ordered], g))"

definition shuffle_rivals ::
  "'g rng \<Rightarrow> ('a, 'g, 'm) multi_agent \<Rightarrow> ('a, 'g, 'm) multi_agent" where
  "shuffle_rivals R ma =
     (case shuffle_agents R (shuffle_entities (settings (inner ma))) (rival_order ma) (rivals ma) (np_random (inner ma)) of
        (agents, p, g) \<Rightarrow> ma\<lparr>inner := (inner ma)\<lparr>np_random := g\<rparr>, rivals := agents, rival_order := p\<rparr>)"

definition multi_reset ::
  "('a, 'm) handlers \<Rightarrow> team \<Rightarrow> 'g rng \<Rightarrow> (int option \<Rightarrow> 'g \<times> int) \<Rightarrow> interp \<Rightarrow> (nat list \<Rightarrow> nat list) \<Rightarrow> int option
    \<Rightarrow> ('a, 'g, 'm) multi_agent \<Rightarrow> (real list list \<times> ('a, 'g, 'm) multi_agent) res option" where
  "multi_reset H team R seeding interp1d order seed ma =
     (case reset R seeding interp1d order seed (inner ma) of
        None \<Rightarrow> None
      | Some (Inl e) \<Rightarrow> Some (Inl e)
      | Some (Inr (obs, s)) \<Rightarrow>
          (let (own, other) = swap_pair team obs;
               ma1 = shuffle_rivals R (ma\<lparr>inner := s\<rparr>)
           in Some (bind_res (group_reset H (rivals ma1) other) (\<lambda>agents.
                Inr (own, ma1\<lparr>rivals := agents, rival_obs := other, rival_infos := None\<rparr>)))))"

text \<open>What the team sends goes through the channel \<open>send\<close>; \<open>receive_messages()\<close> without an agent reads the
  buffers of the team, which stay until the end of the step.\<close>

definition multi_send ::
  "('m mailbox \<Rightarrow> 'm message list \<Rightarrow> 'm mailbox res) \<Rightarrow> team \<Rightarrow> 'm message list \<Rightarrow> ('a, 'g, 'm) multi_agent
    \<Rightarrow> ('a, 'g, 'm) multi_agent res" where
  "multi_send send team ms ma =
     bind_res (check AssertionError (list_all (\<lambda>m. msg_team m = team) ms)) (\<lambda>_.
     bind_res (send (mail (inner ma)) ms) (\<lambda>mb.
       Inr (ma\<lparr>inner := (inner ma)\<lparr>mail := mb\<rparr>\<rparr>)))"

definition multi_receive_all :: "team \<Rightarrow> ('a, 'g, 'm) multi_agent \<Rightarrow> 'm message list list" where
  "multi_receive_all team ma = map (message_buffers (mail (inner ma)) team) [0..<num_agents team (inner ma)]"

definition multi_receive ::
  "team \<Rightarrow> nat \<Rightarrow> ('a, 'g, 'm) multi_agent \<Rightarrow> 'm message list \<times> ('a, 'g, 'm) multi_agent" where
  "multi_receive team i ma =
     (case receive_for (mail (inner ma)) team i of
        (ms, mb) \<Rightarrow> (ms, ma\<lparr>inner := (inner ma)\<lparr>mail := mb\<rparr>\<rparr>))"

record 'm team_result =
  tr_obs :: "real list list"
  tr_reward :: payoff
  tr_done :: ending
  tr_infos :: "'m agent_info list"

definition flat_actions :: "vec list \<Rightarrow> real list" where
  "flat_actions vs = concat (map (\<lambda>v. [fst v, snd v]) vs)"

definition multi_step ::
  "bool option \<Rightarrow> ('m mailbox \<Rightarrow> 'm message list \<Rightarrow> 'm mailbox res) \<Rightarrow> ('a, 'm) handlers \<Rightarrow> team \<Rightarrow> 'g rng \<Rightarrow> interp
    \<Rightarrow> (nat list \<Rightarrow> nat list) \<Rightarrow> real list \<Rightarrow> ('a, 'g, 'm) multi_agent
    \<Rightarrow> ('m team_result \<times> ('a, 'g, 'm) multi_agent) res" where
  "multi_step repeated send H team R interp1d order action ma =
     bind_res (group_step send H (rivals ma) (rival_obs ma) (rival_infos ma) (mail (inner ma))) (\<lambda>(vs, agents, mb).
     bind_res (helper_step repeated team R interp1d order (action, flat_actions vs) ((inner ma)\<lparr>mail := mb\<rparr>)) (\<lambda>(jr, s).
       Inr (\<lparr>tr_obs = fst (jr_obs jr), tr_reward = fst (jr_rewards jr),
             tr_done = (case jr_done jr of Done b \<Rightarrow> Together b | Dones own other \<Rightarrow> Apart own),
             tr_infos = fst (jr_infos jr)\<rparr>,
            ma\<lparr>inner := s, rivals := agents, rival_obs := snd (jr_obs jr), rival_infos := Some (snd (jr_infos jr))\<rparr>)))"

text \<open>\<open>seed\<close>: the environment, the prototype and the opponents in their original order.\<close>

fun seed_agents ::
  "'g rng \<Rightarrow> ('a, 'm) handlers \<Rightarrow> 'a list \<Rightarrow> 'g \<Rightarrow> int list \<times> 'a list \<times> 'g" where
  "seed_agents R H [] g = ([], [], g)"
| "seed_agents R H (a # as) g =
     (let (k, g1) = randint R g 0 np_int_max;
          (ks, a') = h_seed H (Some k) a;
          (seeds, as', g2) = seed_agents R H as g1
      in (hd ks # seeds, a' # as', g2))"

definition multi_seed ::
  "('a, 'm) handlers \<Rightarrow> 'g rng \<Rightarrow> (int option \<Rightarrow> 'g \<times> int) \<Rightarrow> int option \<Rightarrow> ('a, 'g, 'm) multi_agent
    \<Rightarrow> int list \<times> ('a, 'g, 'm) multi_agent" where
  "multi_seed H R seeding seed ma =
     (let (seeds, s) = env_seed R seeding seed (inner ma);
          (more, agents, g) = seed_agents R H (prototype ma # unshuffle (rival_order ma) (rivals ma)) (np_random s)
      in (seeds @ more,
          ma\<lparr>inner := s\<lparr>np_random := g\<rparr>, prototype := hd agents,
             rivals := map (\<lambda>k. tl agents ! k) (rival_order ma)\<rparr>))"

text \<open>\<open>RepeatedRewardIndividualDone\<close> around the single-team environment instead of inside.\<close>

definition repeat_team :: "bool \<Rightarrow> team \<Rightarrow> ('g, 'm) env \<Rightarrow> int \<Rightarrow> bool \<Rightarrow> payoff \<times> ending" where
  "repeat_team at_destination team s reward d =
     (Individual (replicate (num_agents team s) reward),
      Apart (case team of TARGET \<Rightarrow> individual_dones at_destination s d | CAMERA \<Rightarrow> replicate (num_cameras s) d))"

definition repeated_multi_step ::
  "bool \<Rightarrow> ('m mailbox \<Rightarrow> 'm message list \<Rightarrow> 'm mailbox res) \<Rightarrow> ('a, 'm) handlers \<Rightarrow> team \<Rightarrow> 'g rng \<Rightarrow> interp
    \<Rightarrow> (nat list \<Rightarrow> nat list) \<Rightarrow> real list \<Rightarrow> ('a, 'g, 'm) multi_agent
    \<Rightarrow> ('m team_result \<times> ('a, 'g, 'm) multi_agent) res" where
  "repeated_multi_step at_destination send H team R interp1d order action ma =
     bind_res (multi_step None send H team R interp1d order action ma) (\<lambda>(tr, ma').
       case (tr_reward tr, tr_done tr) of
         (Shared reward, Together d) \<Rightarrow>
           (case repeat_team at_destination team (inner ma') reward d of
              (rewards, dones) \<Rightarrow> Inr (tr\<lparr>tr_reward := rewards, tr_done := dones\<rparr>, ma'))
       | _ \<Rightarrow> Inl TypeError)"

subsection \<open>What the wrapper relies on in the opponents\<close>

text \<open>
  \<open>ok s i\<close> is what holds of opponent \<open>i\<close> in the state \<open>s\<close> of the environment: it survives a step, which
  keeps the rules of the episode and takes cargoes away, and an agent that is \<open>fresh\<close> has it after its reset.
\<close>

locale rival_team =
  fixes H :: "('a, 'm) handlers" and side :: team
    and ok :: "('g, 'm) env \<Rightarrow> nat \<Rightarrow> 'a \<Rightarrow> bool" and sees :: "('g, 'm) env \<Rightarrow> nat \<Rightarrow> real list \<Rightarrow> bool"
    and good :: "('g, 'm) env \<Rightarrow> 'm message \<Rightarrow> bool" and fresh :: "'a \<Rightarrow> bool"
    and send :: "'m mailbox \<Rightarrow> 'm message list \<Rightarrow> 'm mailbox res" and route passes
  assumes talks: "talking_team H side (num_agents side s) (ok s) (sees s) (good s) (within_hi (reach side s)) send route passes"
    and resets: "env_ok s \<Longrightarrow> i < num_agents side s \<Longrightarrow> fresh a
      \<Longrightarrow> \<exists>a'. h_reset H (observation_of side s i) a = Inr a' \<and> ok s i a'"
    and looks: "env_ok s \<Longrightarrow> told_right s \<Longrightarrow> i < num_agents side s \<Longrightarrow> sees s i (observation_of side s i)"
    and persists: "same_rules s s' \<Longrightarrow> in_stock s' \<subseteq> in_stock s \<Longrightarrow> i < num_agents side s \<Longrightarrow> ok s i a \<Longrightarrow> ok s' i a"

definition rivals_ready ::
  "team \<Rightarrow> (('g, 'm) env \<Rightarrow> nat \<Rightarrow> 'a \<Rightarrow> bool) \<Rightarrow> ('a, 'g, 'm) multi_agent \<Rightarrow> bool" where
  "rivals_ready side ok ma \<longleftrightarrow>
     env_ok (inner ma) \<and> told_right (inner ma) \<and> (\<forall>i. message_queues (mail (inner ma)) side i = [])
   \<and> list_all2 (ok (inner ma)) [0..<num_agents side (inner ma)] (rivals ma)
   \<and> rival_obs ma = observations_of side (inner ma)
   \<and> (\<forall>infos. rival_infos ma = Some infos \<longrightarrow> length infos = num_agents side (inner ma))"

definition rivals_waiting :: "team \<Rightarrow> ('a \<Rightarrow> bool) \<Rightarrow> ('a, 'g, 'm) multi_agent \<Rightarrow> bool" where
  "rivals_waiting side fresh ma \<longleftrightarrow>
     env_setup (inner ma) \<and> length (rivals ma) = num_agents side (inner ma)
   \<and> length (rival_order ma) = length (rivals ma) \<and> (\<forall>a \<in> set (rivals ma). fresh a)"

lemma num_agents_mail: "num_agents team (s\<lparr>mail := mb\<rparr>) = num_agents team s"
  by (cases team) (simp_all add: num_agents_def num_cameras_def num_targets_def)

lemma env_ok_mail: "env_ok s \<Longrightarrow> mailbox_ok mb \<Longrightarrow> team_size mb = team_size (mail s) \<Longrightarrow> env_ok (s\<lparr>mail := mb\<rparr>)"
proof -
  assume a: "env_ok s" "mailbox_ok mb" "team_size mb = team_size (mail s)"
  have eq: "cargo_inv (s\<lparr>mail := mb\<rparr>) = cargo_inv s" "bounty_lost (s\<lparr>mail := mb\<rparr>) = bounty_lost s"
    by (rule cargo_inv_cong; simp add: num_targets_def)+
  have n: "num_cameras (s\<lparr>mail := mb\<rparr>) = num_cameras s" "num_targets (s\<lparr>mail := mb\<rparr>) = num_targets s"
    "num_obstacles (s\<lparr>mail := mb\<rparr>) = num_obstacles s" by (simp_all add: num_cameras_def num_targets_def num_obstacles_def)
  have "num_agents t (s\<lparr>mail := mb\<rparr>) = num_agents t s" for t by (rule num_agents_mail)
  then show ?thesis
    using a by (simp add: env_ok_def eq n view_shapes_def books_ok_def reward_scale_def)
qed

lemma told_right_mail: "told_right (s\<lparr>mail := mb\<rparr>) = told_right s" "in_stock (s\<lparr>mail := mb\<rparr>) = in_stock s"
  by (simp_all add: told_right_def in_stock_def)

lemma same_rules_mail: "same_rules s (s\<lparr>mail := mb\<rparr>)"
  by (simp add: same_rules_def reach_def num_cameras_def num_targets_def num_obstacles_def)

text \<open>A shuffle keeps the agents.\<close>

lemma shuffle_agents_keeps:
  assumes R: "rng_ok R" and len: "length order = length agents"
    and run: "shuffle_agents R shuffled order agents g = (agents', order', g')"
  shows "set agents' = set agents" "length agents' = length agents" "length order' = length agents"
proof -
  let ?as = "unshuffle order agents"
  note U = mset_unshuffle [OF len]
  obtain p h where p: "permutation R g (length agents) = (p, h)" by (rule prod.exhaust)
  have P: "length p = length ?as" "set p = {..<length ?as}"
    using rng_permutation [OF R, of g "length agents"] p U by simp_all
  have "(\<lambda>k. ?as ! k) ` {..<length ?as} = set ?as" by (auto simp: set_conv_nth)
  then have "set (map (\<lambda>k. ?as ! k) p) = set ?as" using P(2) by simp
  then show "set agents' = set agents" "length agents' = length agents" "length order' = length agents"
    using run P(1) U p by (cases shuffled; auto simp: shuffle_agents_def Let_def)+
qed

lemma shuffle_rivals_keeps:
  assumes R: "rng_ok R" and len: "length (rival_order ma) = length (rivals ma)"
  shows "set (rivals (shuffle_rivals R ma)) = set (rivals ma)" "length (rivals (shuffle_rivals R ma)) = length (rivals ma)"
    "length (rival_order (shuffle_rivals R ma)) = length (rivals ma)"
    "\<exists>g. inner (shuffle_rivals R ma) = (inner ma)\<lparr>np_random := g\<rparr>"
proof -
  obtain agents p g where s: "shuffle_agents R (shuffle_entities (settings (inner ma))) (rival_order ma) (rivals ma)
      (np_random (inner ma)) = (agents, p, g)" by (rule prod_cases3)
  note K = shuffle_agents_keeps [OF R len s]
  show "set (rivals (shuffle_rivals R ma)) = set (rivals ma)" "length (rivals (shuffle_rivals R ma)) = length (rivals ma)"
    "length (rival_order (shuffle_rivals R ma)) = length (rivals ma)"
    "\<exists>g. inner (shuffle_rivals R ma) = (inner ma)\<lparr>np_random := g\<rparr>"
    using K by (auto simp: shuffle_rivals_def s)
qed

lemma random_frame:
  "env_ok (s\<lparr>np_random := g\<rparr>) = env_ok s" "told_right (s\<lparr>np_random := g\<rparr>) = told_right s"
  "num_agents team (s\<lparr>np_random := g\<rparr>) = num_agents team s" "same_rules s (s\<lparr>np_random := g\<rparr>)"
  "in_stock (s\<lparr>np_random := g\<rparr>) = in_stock s" "observation_of team (s\<lparr>np_random := g\<rparr>) i = observation_of team s i"
proof -
  have n: "num_cameras (s\<lparr>np_random := g\<rparr>) = num_cameras s" "num_targets (s\<lparr>np_random := g\<rparr>) = num_targets s"
    "num_obstacles (s\<lparr>np_random := g\<rparr>) = num_obstacles s" by (simp_all add: num_cameras_def num_targets_def num_obstacles_def)
  show N: "num_agents team (s\<lparr>np_random := g\<rparr>) = num_agents team s" for team by (cases team) (simp_all add: num_agents_def n)
  have eq: "cargo_inv (s\<lparr>np_random := g\<rparr>) = cargo_inv s" "bounty_lost (s\<lparr>np_random := g\<rparr>) = bounty_lost s"
    by (rule cargo_inv_cong; simp add: num_targets_def)+
  show "env_ok (s\<lparr>np_random := g\<rparr>) = env_ok s"
    using N by (simp add: env_ok_def eq n view_shapes_def books_ok_def reward_scale_def)
  show "told_right (s\<lparr>np_random := g\<rparr>) = told_right s" "in_stock (s\<lparr>np_random := g\<rparr>) = in_stock s"
    by (simp_all add: told_right_def in_stock_def)
  show "same_rules s (s\<lparr>np_random := g\<rparr>)" by (simp add: same_rules_def reach_def n)
  show "observation_of team (s\<lparr>np_random := g\<rparr>) i = observation_of team s i"
    by (rule observation_of_cong) simp_all
qed

lemma random_setup: "env_setup s \<Longrightarrow> env_ok s \<Longrightarrow> env_setup (s\<lparr>np_random := g\<rparr>)"
proof (rule env_ok_setup)
  assume "env_setup s" and "env_ok s"
  then show "env_ok (s\<lparr>np_random := g\<rparr>)" by (simp add: random_frame)
  have "config_ok s" by (rule setup_config) fact
  then show "config_ok (s\<lparr>np_random := g\<rparr>)"
    by (simp add: config_ok_def num_cameras_def num_targets_def num_obstacles_def)
qed

lemma length_flat_actions: "length (flat_actions vs) = 2 * length vs"
  by (induction vs) (simp_all add: flat_actions_def)

lemma call_each_reset:
  assumes "list_all2 (\<lambda>i a. \<exists>a'. h_reset H (obs i) a = Inr a' \<and> ok i a') is agents"
  shows "\<exists>agents'. group_reset H agents (map obs is) = Inr agents' \<and> list_all2 ok is agents'"
proof -
  have "\<exists>bs agents'. call_each (\<lambda>obs a. bind_res (h_reset H obs a) (\<lambda>a'. Inr ((), a'))) (map obs is) agents = Inr (bs, agents')
      \<and> list_all2 ok is agents'"
    using assms by (induction rule: list_all2_induct) auto
  then show ?thesis by (auto simp: group_reset_def)
qed

text \<open>What the wrappers rely on in the environment.\<close>

definition payoff_for :: "nat \<Rightarrow> payoff \<Rightarrow> bool" where
  "payoff_for n r = (case r of Shared _ \<Rightarrow> True | Individual rs \<Rightarrow> length rs = n)"

definition ends_for :: "nat \<Rightarrow> ends \<Rightarrow> bool" where
  "ends_for n d = (case d of Done _ \<Rightarrow> True | Dones own _ \<Rightarrow> length own = n)"

lemma helper_step_ok:
  assumes R: "rng_ok R" and ok: "env_ok s" "told_right s" and sz: "length own = 2 * num_agents team s"
    "length other = 2 * num_agents (opponent team) s"
  obtains jr s' where "helper_step repeated team R interp1d order (own, other) s = Inr (jr, s')"
    "env_ok s'" "told_right s'" "in_stock s' \<subseteq> in_stock s" "same_rules s s'" "quiet (mail s')"
    "jr_obs jr = (observations_of team s', observations_of (opponent team) s')"
    "length (fst (jr_infos jr)) = num_agents team s'" "length (snd (jr_infos jr)) = num_agents (opponent team) s'"
    "payoff_for (num_agents team s') (fst (jr_rewards jr))" "ends_for (num_agents team s') (jr_done jr)"
    "\<exists>joint res. step R interp1d order joint s = Inr (res, s') \<and> (repeated = None \<longrightarrow> jr = swap_result team (plain_result res))"
proof -
  let ?joint = "swap_pair team (own, other)"
  have "sized s ?joint"
    using sz by (cases team) (simp_all add: sized_def swap_pair_def opponent_def num_agents_def
        CAMERA_ACTION_DIM_def TARGET_ACTION_DIM_def)
  then obtain res s' where st: "step R interp1d order ?joint s = Inr (res, s')" "env_ok s'"
    using step_round [OF R ok(1)] by metis
  have K: "told_right s'" "in_stock s' \<subseteq> in_stock s"
    using step_keeps_right [OF R ok(1) st(1)] ok(2) by (auto simp: keeps_right_def)
  note SR = step_reads [OF st(1)]
  define jr where "jr = (case repeated of None \<Rightarrow> plain_result res | Some d \<Rightarrow> repeat_result d s' res)"
  have h: "helper_step repeated team R interp1d order (own, other) s = Inr (swap_result team jr, s')"
    by (simp add: helper_step_def wrapped_step_def st(1) jr_def)
  have shape: "jr_obs (swap_result team jr) = (observations_of team s', observations_of (opponent team) s')"
    "length (fst (jr_infos (swap_result team jr))) = num_agents team s'"
    "length (snd (jr_infos (swap_result team jr))) = num_agents (opponent team) s'"
    "payoff_for (num_agents team s') (fst (jr_rewards (swap_result team jr)))"
    "ends_for (num_agents team s') (jr_done (swap_result team jr))"
    using SR(1-4,6)
    by (cases repeated; cases team; simp add: jr_def plain_result_def repeat_result_def swap_result_def swap_pair_def swap_ends_def
        opponent_def num_agents_def payoff_for_def ends_for_def individual_dones_def)+
  have "\<exists>joint res. step R interp1d order joint s = Inr (res, s')
      \<and> (repeated = None \<longrightarrow> swap_result team jr = swap_result team (plain_result res))"
    using st(1) by (intro exI [of _ ?joint] exI [of _ res]) (simp add: jr_def)
  then show ?thesis by (rule that [OF h st(2) K step_same_rules [OF R ok(1) st(1)] SR(5) shape])
qed

lemma helper_step_unsized:
  assumes "length own \<noteq> 2 * num_agents team s"
  shows "helper_step repeated team R interp1d order (own, other) s = Inl ValueError"
proof -
  have "\<not> sized s (swap_pair team (own, other))"
    using assms by (cases team) (simp_all add: sized_def swap_pair_def num_agents_def CAMERA_ACTION_DIM_def TARGET_ACTION_DIM_def)
  from step_unsized [OF this, of R interp1d order] show ?thesis by (simp add: helper_step_def wrapped_step_def)
qed

context rival_team begin

lemma multi_reset_ok:
  assumes R: "rng_ok R" and w: "rivals_waiting side fresh ma" and team: "side = opponent team"
    and run: "reset R seeding interp1d order seed (inner ma) = Some res"
  shows "\<exists>obs ma'. multi_reset H team R seeding interp1d order seed ma = Some (Inr (obs, ma')) \<and> rivals_ready side ok ma'
    \<and> obs = observations_of team (inner ma') \<and> rival_infos ma' = None \<and> quiet (mail (inner ma'))
    \<and> length (rival_order ma') = length (rivals ma') \<and> env_setup (inner ma') \<and> settings (inner ma') = settings (inner ma)
    \<and> num_agents team (inner ma') = num_agents team (inner ma) \<and> episode_step (inner ma') = 0
    \<and> num_delivered_cargoes (inner ma') = 0 \<and> target_team_episode_reward (inner ma') = 0
    \<and> delayed_target_team_episode_reward (inner ma') = 0 \<and> 0 < total_cargoes (inner ma')"
proof -
  have su: "env_setup (inner ma)" using w by (simp add: rivals_waiting_def)
  obtain obs s m where r: "res = Inr (obs, s)" "env_ok s" "num_targets s = num_targets (inner ma)"
    "num_cameras s = num_cameras (inner ma)"
    and fresh_: "episode_step s = 0" "settings s = settings (inner ma)" "num_delivered_cargoes s = 0"
    "target_team_episode_reward s = 0" "delayed_target_team_episode_reward s = 0" "env_setup s"
    "total_cargoes s = int (Suc m * (cargoes_per_target (settings (inner ma)) * num_targets (inner ma)))"
    by (rule reset_result [OF R su run]) (rule that; assumption?)
  note RR = reset_reads [OF run [unfolded r(1)]]
  have right: "told_right s" by (rule reset_told_right [OF R su run [unfolded r(1)]])
  let ?ma0 = "ma\<lparr>inner := s\<rparr>" let ?ma1 = "shuffle_rivals R ?ma0"
  have len: "length (rival_order ?ma0) = length (rivals ?ma0)" using w by (simp add: rivals_waiting_def)
  note S = shuffle_rivals_keeps [OF R len]
  obtain g where g: "inner ?ma1 = s\<lparr>np_random := g\<rparr>" using S(4) by auto
  have n: "num_agents side s = num_agents side (inner ma)" using r(3,4) by (cases side) (simp_all add: num_agents_def)
  let ?n = "num_agents side s"
  have "list_all2 (\<lambda>i a. \<exists>a'. h_reset H (observation_of side s i) a = Inr a' \<and> ok s i a') [0..<?n] (rivals ?ma1)"
  proof -
    have len1: "length (rivals ?ma1) = ?n" using S(2) w n by (simp add: rivals_waiting_def)
    have "fresh (rivals ?ma1 ! i)" if "i < ?n" for i
      using nth_mem [of i "rivals ?ma1"] that len1 S(1) w by (simp add: rivals_waiting_def)
    then show ?thesis using resets [OF r(2)] len1 by (simp add: list_all2_conv_all_nth)
  qed
  from call_each_reset [OF this] obtain agents where a: "group_reset H (rivals ?ma1) (observations_of side s) = Inr agents"
    "list_all2 (ok s) [0..<?n] agents" by (auto simp: observations_of_def)
  have a': "list_all2 (ok (s\<lparr>np_random := g\<rparr>)) [0..<?n] agents"
    using a(2) persists [OF random_frame(4)] by (auto simp: list_all2_conv_all_nth random_frame)
  have sw: "swap_pair team obs = (observations_of team s, observations_of side s)"
    using RR(1) team by (cases team) (simp_all add: swap_pair_def opponent_def)
  have O: "observations_of t (s\<lparr>np_random := g\<rparr>) = observations_of t s" for t
    by (simp add: observations_of_def random_frame)
  have su': "env_setup (s\<lparr>np_random := g\<rparr>)" "total_cargoes (s\<lparr>np_random := g\<rparr>) = total_cargoes s"
    using fresh_(6) r(2) random_setup [of s g] by (simp_all add: total_cargoes_def)
  have "0 < Suc m * (cargoes_per_target (settings (inner ma)) * num_targets (inner ma))" using su by (simp add: env_setup_def)
  then have many: "0 < total_cargoes s" unfolding fresh_(7) by linarith
  have t: "num_agents team s = num_agents team (inner ma)" using r(3,4) by (cases team) (simp_all add: num_agents_def)
  have "length agents = length (rivals ma)" using list_all2_lengthD [OF a(2)] w n by (simp add: rivals_waiting_def)
  then show ?thesis
    using run r RR(2) right a a' g S(3) fresh_ su' many t
    by (simp add: multi_reset_def sw rivals_ready_def random_frame O quiet_def)
qed

lemma rivals_play:
  assumes rd: "rivals_ready side ok ma"
  shows "\<exists>vs agents mb'. group_step send H (rivals ma) (rival_obs ma) (rival_infos ma) (mail (inner ma)) = Inr (vs, agents, mb')
    \<and> list_all2 (within_hi (reach side (inner ma))) [0..<num_agents side (inner ma)] vs
    \<and> list_all2 (ok (inner ma)) [0..<num_agents side (inner ma)] agents
    \<and> mailbox_ok mb' \<and> team_size mb' = team_size (mail (inner ma))"
proof -
  let ?s = "inner ma" let ?n = "num_agents side ?s" let ?q = "message_queues (mail ?s) (opponent side)"
  have ok: "env_ok ?s" "told_right ?s" "list_all2 (ok ?s) [0..<?n] (rivals ma)" "rival_obs ma = observations_of side ?s"
    and infos: "\<forall>infos. rival_infos ma = Some infos \<longrightarrow> length [0..<?n] \<le> length infos"
    and none: "\<forall>i. message_queues (mail ?s) side i = []"
    using rd by (simp_all add: rivals_ready_def)
  have mb: "mailbox_ok (mail ?s)" "team_size (mail ?s) = (\<lambda>t. num_agents t ?s)" using ok(1) by (simp_all add: env_ok_def)
  have calm: "talking_team.calm side ?n (good ?s) (\<lambda>t. num_agents t ?s) ?q (mail ?s)"
    using mb none by (simp add: talking_team.calm_def [OF talks])
  have see: "list_all2 (sees ?s) [0..<?n] (rival_obs ma)"
    using ok(1,2,4) looks by (simp add: list_all2_conv_all_nth observations_of_def)
  obtain vs agents mb' where "group_step send H (rivals ma) (rival_obs ma) (rival_infos ma) (mail ?s) = Inr (vs, agents, mb')"
    "list_all2 (within_hi (reach side ?s)) [0..<?n] vs" "list_all2 (ok ?s) [0..<?n] agents"
    "talking_team.calm side ?n (good ?s) (\<lambda>t. num_agents t ?s) ?q mb'"
    using talking_team.group_step_ok [OF talks ok(3) see _ calm infos] by auto
  then show ?thesis using mb(2) by (simp add: talking_team.calm_def [OF talks])
qed

lemma multi_step_ok:
  assumes R: "rng_ok R" and rd: "rivals_ready side ok ma" and team: "side = opponent team"
    and sz: "length action = 2 * num_agents team (inner ma)"
  shows "\<exists>tr ma'. multi_step repeated send H team R interp1d order action ma = Inr (tr, ma') \<and> rivals_ready side ok ma'
    \<and> tr_obs tr = observations_of team (inner ma') \<and> same_rules (inner ma) (inner ma') \<and> in_stock (inner ma') \<subseteq> in_stock (inner ma)
    \<and> quiet (mail (inner ma')) \<and> length (tr_infos tr) = num_agents team (inner ma') \<and> rival_order ma' = rival_order ma
    \<and> (\<exists>joint mb res. env_ok ((inner ma)\<lparr>mail := mb\<rparr>) \<and> team_size mb = team_size (mail (inner ma))
        \<and> step R interp1d order joint ((inner ma)\<lparr>mail := mb\<rparr>) = Inr (res, inner ma')
        \<and> (repeated = None \<longrightarrow> tr_done tr = Together (done_flag res)
             \<and> tr_reward tr = Shared (case team of CAMERA \<Rightarrow> camera_team_reward res | TARGET \<Rightarrow> target_team_reward res)))"
proof -
  let ?s = "inner ma" let ?n = "num_agents side ?s"
  have ok: "env_ok ?s" "told_right ?s" using rd by (simp_all add: rivals_ready_def)
  obtain vs agents mb' where g: "group_step send H (rivals ma) (rival_obs ma) (rival_infos ma) (mail ?s) = Inr (vs, agents, mb')"
    "list_all2 (within_hi (reach side ?s)) [0..<?n] vs" "list_all2 (ok ?s) [0..<?n] agents"
    and mb': "mailbox_ok mb'" "team_size mb' = team_size (mail ?s)"
    using rivals_play [OF rd] by blast
  let ?s1 = "?s\<lparr>mail := mb'\<rparr>"
  have ok1: "env_ok ?s1" "told_right ?s1" using env_ok_mail [OF ok(1) mb'] ok(2) by (simp_all add: told_right_mail)
  have "length vs = ?n" using g(2) by (simp add: list_all2_conv_all_nth)
  then have sz1: "length action = 2 * num_agents team ?s1" "length (flat_actions vs) = 2 * num_agents (opponent team) ?s1"
    using sz team by (simp_all add: num_agents_mail length_flat_actions)
  obtain jr s2 where H: "helper_step repeated team R interp1d order (action, flat_actions vs) ?s1 = Inr (jr, s2)"
    "env_ok s2" "told_right s2" "in_stock s2 \<subseteq> in_stock ?s1" "same_rules ?s1 s2" "quiet (mail s2)"
    "jr_obs jr = (observations_of team s2, observations_of (opponent team) s2)"
    "length (fst (jr_infos jr)) = num_agents team s2" "length (snd (jr_infos jr)) = num_agents (opponent team) s2"
    and run: "\<exists>joint res. step R interp1d order joint ?s1 = Inr (res, s2) \<and> (repeated = None \<longrightarrow> jr = swap_result team (plain_result res))"
    by (rule helper_step_ok [OF R ok1 sz1]) (rule that; assumption)
  have rules: "same_rules ?s s2" by (rule same_rules_trans [OF same_rules_mail H(5)])
  have stock: "in_stock s2 \<subseteq> in_stock ?s" using H(4) by (simp add: told_right_mail)
  have first: "fst (jr_rewards (swap_result team (plain_result res)))
      = Shared (case team of CAMERA \<Rightarrow> camera_team_reward res | TARGET \<Rightarrow> target_team_reward res)"
    "jr_done (swap_result team (plain_result res)) = Done (done_flag res)" for res :: "'m step_result"
    by (cases team; simp add: swap_result_def plain_result_def swap_pair_def swap_ends_def)+
  have run': "\<exists>joint mb res. env_ok (?s\<lparr>mail := mb\<rparr>) \<and> team_size mb = team_size (mail ?s)
      \<and> step R interp1d order joint (?s\<lparr>mail := mb\<rparr>) = Inr (res, s2)
      \<and> (repeated = None \<longrightarrow> (case jr_done jr of Done b \<Rightarrow> Together b | Dones own other \<Rightarrow> Apart own) = Together (done_flag res)
           \<and> fst (jr_rewards jr) = Shared (case team of CAMERA \<Rightarrow> camera_team_reward res | TARGET \<Rightarrow> target_team_reward res))"
  proof -
    obtain joint res where j: "step R interp1d order joint ?s1 = Inr (res, s2)"
      "repeated = None \<longrightarrow> jr = swap_result team (plain_result res)" using run by blast
    show ?thesis
      by (rule exI [of _ joint], rule exI [of _ mb'], rule exI [of _ res]) (use j ok1(1) mb'(2) first [of res] in auto)
  qed
  have rivals: "list_all2 (ok s2) [0..<?n] agents"
    using g(3) persists [OF rules stock] by (auto simp: list_all2_conv_all_nth)
  show ?thesis
    using H rules stock rivals same_rules_team [OF rules] team run'
    by (simp add: multi_step_def g(1) rivals_ready_def quiet_def)
qed

lemma multi_step_unsized:
  assumes R: "rng_ok R" and rd: "rivals_ready side ok ma" and team: "side = opponent team"
    and sz: "length action \<noteq> 2 * num_agents team (inner ma)"
  shows "multi_step repeated send H team R interp1d order action ma = Inl ValueError"
proof -
  let ?s = "inner ma"
  obtain vs agents mb' where g: "group_step send H (rivals ma) (rival_obs ma) (rival_infos ma) (mail ?s) = Inr (vs, agents, mb')"
    using rivals_play [OF rd] by blast
  have "length action \<noteq> 2 * num_agents team (?s\<lparr>mail := mb'\<rparr>)" using sz by (simp add: num_agents_mail)
  from helper_step_unsized [OF this] show ?thesis by (simp add: multi_step_def g)
qed

end

subsection \<open>The life of a single-team environment\<close>

text \<open>From a reset that returned on, any calls in any order: the team sends, anyone receives, the team steps.\<close>

inductive multi_life ::
  "bool option \<Rightarrow> ('m mailbox \<Rightarrow> 'm message list \<Rightarrow> 'm mailbox res) \<Rightarrow> ('a, 'm) handlers \<Rightarrow> team \<Rightarrow> 'g rng
    \<Rightarrow> (int option \<Rightarrow> 'g \<times> int) \<Rightarrow> interp \<Rightarrow> (nat list \<Rightarrow> nat list) \<Rightarrow> ('a \<Rightarrow> bool) \<Rightarrow> ('a, 'g, 'm) multi_agent \<Rightarrow> bool"
  for repeated send H team R seeding interp1d order fresh where
  after_reset: "rivals_waiting (opponent team) fresh ma0
    \<Longrightarrow> multi_reset H team R seeding interp1d order seed ma0 = Some (Inr (obs, ma))
    \<Longrightarrow> multi_life repeated send H team R seeding interp1d order fresh ma"
| after_send: "multi_life repeated send H team R seeding interp1d order fresh ma
    \<Longrightarrow> multi_send send team ms ma = Inr ma' \<Longrightarrow> multi_life repeated send H team R seeding interp1d order fresh ma'"
| after_receive: "multi_life repeated send H team R seeding interp1d order fresh ma
    \<Longrightarrow> multi_receive t i ma = (ms, ma') \<Longrightarrow> multi_life repeated send H team R seeding interp1d order fresh ma'"
| after_step: "multi_life repeated send H team R seeding interp1d order fresh ma
    \<Longrightarrow> multi_step repeated send H team R interp1d order action ma = Inr (tr, ma')
    \<Longrightarrow> multi_life repeated send H team R seeding interp1d order fresh ma'"

lemma rivals_ready_mail:
  assumes rd: "rivals_ready side ok ma" and mb: "mailbox_ok mb" "team_size mb = team_size (mail (inner ma))"
    and q: "\<forall>i. message_queues mb side i = []"
    and ok: "\<And>i a. i < num_agents side (inner ma) \<Longrightarrow> ok (inner ma) i a \<Longrightarrow> ok ((inner ma)\<lparr>mail := mb\<rparr>) i a"
  shows "rivals_ready side ok (ma\<lparr>inner := (inner ma)\<lparr>mail := mb\<rparr>\<rparr>)"
proof -
  have "observations_of side ((inner ma)\<lparr>mail := mb\<rparr>) = observations_of side (inner ma)"
    by (rule observations_of_cong) simp_all
  then show ?thesis
    using rd q ok env_ok_mail [OF _ mb]
    by (auto simp: rivals_ready_def told_right_mail num_agents_mail list_all2_conv_all_nth)
qed

context rival_team begin

lemma ok_mail: "i < num_agents side s \<Longrightarrow> ok s i a \<Longrightarrow> ok (s\<lparr>mail := mb\<rparr>) i a"
  using persists [OF same_rules_mail] by (simp add: told_right_mail)

lemma multi_send_ready:
  assumes rd: "rivals_ready side ok ma" and team: "side = opponent team" and run: "multi_send send team ms ma = Inr ma'"
    and ch: "open_channel send route passes"
  shows "rivals_ready side ok ma'"
proof -
  obtain mb where mb: "send (mail (inner ma)) ms = Inr mb" "ma' = ma\<lparr>inner := (inner ma)\<lparr>mail := mb\<rparr>\<rparr>"
    "\<forall>m \<in> set ms. msg_team m = team"
    using run by (auto simp: multi_send_def bind_res_Inr check_def list_all_iff split: if_splits)
  have ok: "mailbox_ok (mail (inner ma))" using rd by (simp add: rivals_ready_def env_ok_def)
  have "team \<noteq> side" using team by (cases team) (simp_all add: opponent_def)
  then have "message_queues mb side = message_queues (mail (inner ma)) side"
    using open_channel.other_team_undisturbed [OF ch mb(1)] mb(3) by simp
  then show ?thesis
    unfolding mb(2) using open_channel.keeps [OF ch mb(1) ok] rd
    by (intro rivals_ready_mail ok_mail) (simp_all add: rivals_ready_def)
qed

lemma multi_receive_ready:
  assumes rd: "rivals_ready side ok ma" and run: "multi_receive t i ma = (ms, ma')"
  shows "rivals_ready side ok ma'"
proof -
  let ?mb = "snd (receive_for (mail (inner ma)) t i)"
  have "ma' = ma\<lparr>inner := (inner ma)\<lparr>mail := ?mb\<rparr>\<rparr>" using run by (simp add: multi_receive_def receive_for_def)
  moreover have "mailbox_ok ?mb" "team_size ?mb = team_size (mail (inner ma))" "\<forall>j. message_queues ?mb side j = []"
    using rd by (auto simp: rivals_ready_def env_ok_def receive_for_def mailbox_ok_def)
  ultimately show ?thesis by (simp add: rivals_ready_mail [OF rd _ _ _ ok_mail])
qed

lemma life_ready:
  fixes ma :: "('a, 'g, 'm) multi_agent"
  assumes "multi_life repeated send H team R seeding interp1d order fresh ma" and "rng_ok R" and "side = opponent team"
    and ch: "open_channel send route passes"
  shows "rivals_ready side ok ma"
  using assms
proof (induction rule: multi_life.induct)
  case (after_reset ma0 seed obs ma)
  obtain res where r: "reset R seeding interp1d order seed (inner ma0) = Some res"
    using after_reset.hyps(2) by (cases "reset R seeding interp1d order seed (inner ma0)") (simp_all add: multi_reset_def)
  have w: "rivals_waiting side fresh ma0" using after_reset by simp
  from multi_reset_ok [OF after_reset.prems(1) w after_reset.prems(2) r] show ?case using after_reset.hyps(2) by auto
next
  case (after_send ma ms ma')
  then show ?case using multi_send_ready by blast
next
  case (after_receive ma t i ms ma')
  then show ?case using multi_receive_ready by blast
next
  case (after_step ma action tr ma')
  have rd: "rivals_ready side ok ma" using after_step by blast
  show ?case
  proof (cases "length action = 2 * num_agents team (inner ma)")
    case True
    from multi_step_ok [OF after_step.prems(1) rd after_step.prems(2) True, of repeated interp1d order] show ?thesis
      using after_step.hyps(2) by auto
  next
    case False
    from multi_step_unsized [OF after_step.prems(1) rd after_step.prems(2) False, of repeated interp1d order] show ?thesis
      using after_step.hyps(2) by simp
  qed
qed

lemma life_starts:
  fixes ma0 :: "('a, 'g, 'm) multi_agent"
  assumes R: "rng_ok R" "draws_all_senders R" and w: "rivals_waiting side fresh ma0" and team: "side = opponent team"
  shows "\<exists>obs ma. multi_reset H team R seeding interp1d order seed ma0 = Some (Inr (obs, ma))
    \<and> multi_life repeated send H team R seeding interp1d order fresh ma \<and> obs = observations_of team (inner ma)"
proof -
  have "env_setup (inner ma0)" using w by (simp add: rivals_waiting_def)
  then obtain res where r: "reset R seeding interp1d order seed (inner ma0) = Some res"
    using reset_terminates [OF R(1) _ R(2)] by blast
  obtain obs ma where "multi_reset H team R seeding interp1d order seed ma0 = Some (Inr (obs, ma))" "obs = observations_of team (inner ma)"
    using multi_reset_ok [OF R(1) w team r] by blast
  then show ?thesis using after_reset w team by blast
qed

lemma life_steps:
  fixes ma :: "('a, 'g, 'm) multi_agent"
  assumes life: "multi_life repeated send H team R seeding interp1d order fresh ma" and R: "rng_ok R"
    and team: "side = opponent team" and ch: "open_channel send route passes"
  shows "(length action = 2 * num_agents team (inner ma) \<longrightarrow>
      (\<exists>tr ma'. multi_step repeated send H team R interp1d order action ma = Inr (tr, ma')
        \<and> multi_life repeated send H team R seeding interp1d order fresh ma'
        \<and> tr_obs tr = observations_of team (inner ma') \<and> same_rules (inner ma) (inner ma')))
    \<and> (length action \<noteq> 2 * num_agents team (inner ma)
        \<longrightarrow> multi_step repeated send H team R interp1d order action ma = Inl ValueError)"
proof (intro conjI impI)
  note rd = life_ready [OF life R team ch]
  show "\<exists>tr ma'. multi_step repeated send H team R interp1d order action ma = Inr (tr, ma')
      \<and> multi_life repeated send H team R seeding interp1d order fresh ma'
      \<and> tr_obs tr = observations_of team (inner ma') \<and> same_rules (inner ma) (inner ma')"
    if "length action = 2 * num_agents team (inner ma)"
    using multi_step_ok [OF R rd team that, of repeated interp1d order] after_step [OF life] by blast
  show "multi_step repeated send H team R interp1d order action ma = Inl ValueError"
    if "length action \<noteq> 2 * num_agents team (inner ma)"
    by (rule multi_step_unsized [OF R rd team that])
qed

end

end
