(* ===== verification/Rivals.thy ===== *)
theory Rivals
  imports SingleTeam
begin

text \<open>
  The greedy agents as opponents in the single-team environments: greedy cameras and greedy targets satisfy
  the contract \<open>rival_team\<close> of \<open>SingleTeam\<close>, with the environment's own channel and with a message filter
  around it (\<open>NoCommunication\<close> is one). What a greedy target must go on believing in, in a state of the
  environment, are the warehouses that still have cargoes.
\<close>

subsection \<open>The action space an agent copies\<close>

lemma action_space_reach:
  assumes "i < num_agents team s"
  shows "action_space_of team (self_part team s i) = (vneg (reach team s i), reach team s i)"
proof (cases team)
  case CAMERA
  then show ?thesis
    by (simp add: action_space_of_def cs_st_action_space_def self_part_def reach_def vneg_def
        cs_st_rotation_step_def cs_st_zooming_step_def camera_state_nth)
next
  case TARGET
  have "ts_st_step_size (target_state (targets s ! i) True) = step_size (targets s ! i)"
    by (simp add: ts_st_step_size_def target_state_def)
  then show ?thesis
    using TARGET by (simp add: action_space_of_def ts_st_action_space_def self_part_def reach_def vneg_def)
qed

lemma rule_reset_static:
  assumes "env_ok s" and "i < num_agents team s" and "ag_team ag0 = team"
  shows "\<exists>ag. rule_reset R seeding (observation_of team s i) ag0 = Inr ag \<and> space_ok ag
    \<and> rule_static ag = ((team, i, num_cameras s, num_targets s, num_obstacles s), vneg (reach team s i), reach team s i)"
proof -
  have s: "view_shapes s" "steps_positive s" using assms(1) env_ok_steps by (auto simp: env_ok_def)
  obtain ag where "rule_reset R seeding (observation_of team s i) ag0 = Inr ag" "ag_team ag = team" "space_ok ag"
    "ag_index ag = i" "ag_num_cameras ag = num_cameras s" "ag_num_targets ag = num_targets s"
    "ag_num_obstacles ag = num_obstacles s" "(ra_low ag, ra_high ag) = action_space_of team (self_part team s i)"
    using rule_reset_ready [OF s assms(2,3)] by blast
  then show ?thesis using action_space_reach [OF assms(2)] by (simp add: rule_static_def)
qed

lemma observation_sized:
  assumes "env_ok s" and "i < num_agents team s"
  shows "sized_for team (num_cameras s) (num_targets s) (num_obstacles s) (observation_of team s i)"
  using length_observation_of [OF _ assms(2)] assms(1) by (simp add: sized_for_def env_ok_def)

subsection \<open>Greedy cameras\<close>

definition fresh_camera :: "'g greedy_camera \<Rightarrow> bool" where
  "fresh_camera ag \<longleftrightarrow> ag_team ag = CAMERA \<and> 1 \<le> gc_memory_period ag"

definition camera_rival :: "('g, 'm) env \<Rightarrow> nat \<Rightarrow> 'h greedy_camera \<Rightarrow> bool" where
  "camera_rival s = camera_player (num_cameras s) (num_targets s) (num_obstacles s) (reach CAMERA s)"

lemma greedy_camera_resets:
  assumes ok: "env_ok s" and i: "i < num_agents CAMERA s" and fresh: "fresh_camera ag0"
  shows "\<exists>ag. greedy_camera_reset R seeding (observation_of CAMERA s i) ag0 = Inr ag \<and> camera_rival s i ag"
proof -
  have s: "view_shapes s" "steps_positive s" "0 < num_targets s" using ok env_ok_steps by (auto simp: env_ok_def)
  have i': "i < num_cameras s" using i by (simp add: num_agents_def)
  have team: "ag_team ag0 = CAMERA" "1 \<le> gc_memory_period ag0" using fresh by (simp_all add: fresh_camera_def)
  obtain ag where ag: "greedy_camera_reset R seeding (observation_of CAMERA s i) ag0 = Inr ag" "space_ok ag"
    using greedy_reset_succeeds [OF s i' team(1)] by blast
  obtain ag1 where 1: "rule_reset R seeding (observation_of CAMERA s i) ag0 = Inr ag1"
    "rule_static ag1 = ((CAMERA, i, num_cameras s, num_targets s, num_obstacles s), vneg (reach CAMERA s i), reach CAMERA s i)"
    using rule_reset_static [OF ok i team(1)] by blast
  have "rule_static ag = rule_static ag1"
    using ag(1) 1(1) by (auto simp: greedy_camera_reset_def bind_res_Inr rule_static_def)
  then show ?thesis using greedy_reset_ok [OF team ag] ag(1) 1(2) by (simp add: camera_rival_def camera_player_def)
qed

lemma camera_rival_persists:
  assumes "same_rules s s'" and "i < num_agents CAMERA s" and "camera_rival s i ag"
  shows "camera_rival s' i ag"
  using assms same_rules_team(2) [OF assms(1,2)] by (simp add: camera_rival_def camera_player_def same_rules_def)

lemma greedy_camera_rivals:
  fixes R :: "'h rng" and s :: "('g, camera_content) env"
  assumes R: "rng_ok R" and ch: "open_channel send route passes"
  shows "rival_team (greedy_camera_handlers R seeding has_space) CAMERA
    (camera_rival :: ('g, camera_content) env \<Rightarrow> nat \<Rightarrow> 'h greedy_camera \<Rightarrow> bool)
    (\<lambda>s i. sized_for CAMERA (num_cameras s) (num_targets s) (num_obstacles s))
    (\<lambda>s. camera_talk (num_cameras s) (num_targets s)) fresh_camera send route passes"
proof (rule rival_team.intro)
  fix s :: "('g, camera_content) env"
  show "talking_team (greedy_camera_handlers R seeding has_space) CAMERA (num_agents CAMERA s) (camera_rival s)
      (\<lambda>i. sized_for CAMERA (num_cameras s) (num_targets s) (num_obstacles s))
      (camera_talk (num_cameras s) (num_targets s)) (within_hi (reach CAMERA s)) send route passes"
    using greedy_camera_team [OF R] ch unfolding talking_team_def camera_rival_def num_agents_def team.case by blast
qed (simp_all add: greedy_camera_resets greedy_camera_handlers_def observation_sized camera_rival_persists)

subsection \<open>Greedy targets\<close>

definition fresh_target :: "'g greedy_target \<Rightarrow> bool" where
  "fresh_target ag \<longleftrightarrow> ag_team ag = TARGET"

definition target_rival :: "('g, 'm) env \<Rightarrow> nat \<Rightarrow> 'h greedy_target \<Rightarrow> bool" where
  "target_rival s = target_player (in_stock s) (num_cameras s) (num_targets s) (num_obstacles s) (reach TARGET s)"

lemma greedy_target_resets:
  assumes ok: "env_ok s" and i: "i < num_agents TARGET s" and fresh: "fresh_target ag0"
  shows "\<exists>ag. greedy_target_reset R seeding (observation_of TARGET s i) ag0 = Inr ag \<and> target_rival s i ag"
proof -
  have team: "ag_team ag0 = TARGET" using fresh by (simp add: fresh_target_def)
  obtain ag1 where 1: "rule_reset R seeding (observation_of TARGET s i) ag0 = Inr ag1" "space_ok ag1"
    "rule_static ag1 = ((TARGET, i, num_cameras s, num_targets s, num_obstacles s), vneg (reach TARGET s i), reach TARGET s i)"
    using rule_reset_static [OF ok i team] by blast
  obtain ag where ag: "greedy_target_reset R seeding (observation_of TARGET s i) ag0 = Inr ag" "rule_static ag = rule_static ag1"
    using 1(1) by (cases "sample_action R ag1") (auto simp: greedy_target_reset_def sample_action_def rule_static_def split: prod.splits)
  have "fits ag (observation_of TARGET s i)"
    using static_fits_sized [OF trans [OF ag(2) 1(3)]] observation_sized [OF ok i] by simp
  moreover have "space_ok ag" using 1(2) ag(2) by (simp add: space_ok_def rule_static_def)
  ultimately have "greedy_target_ok ag \<and> gt_non_empty ag = {..<NUM_WAREHOUSES}"
    using greedy_target_reset_ok [OF team ag(1)] by blast
  then show ?thesis using ag 1(3) by (auto simp: target_rival_def target_player_def in_stock_def)
qed

lemma target_rival_persists:
  assumes "same_rules s s'" and "in_stock s' \<subseteq> in_stock s" and "i < num_agents TARGET s" and "target_rival s i ag"
  shows "target_rival s' i ag"
  using assms same_rules_team(2) [OF assms(1,3)] by (auto simp: target_rival_def target_player_def same_rules_def)

lemma observation_shows_stock:
  assumes ok: "env_ok s" and right: "told_right s" and i: "i < num_agents TARGET s"
  shows "shows_stock (in_stock s) (num_cameras s) (num_targets s) (num_obstacles s) (observation_of TARGET s i)"
proof -
  have sh: "view_shapes s" and n: "i < num_targets s" using ok i by (auto simp: env_ok_def num_agents_def)
  have "own_state TARGET (num_cameras s) (num_targets s) (num_obstacles s) (observation_of TARGET s i) = target_state (targets s ! i) True"
    using self_slice [OF sh i] by (simp add: own_state_def self_part_def)
  moreover have "ts_st_empty_bits (target_state (targets s ! i) True) = empty_bits (targets s ! i)"
    using target_state_read_back [of "targets s ! i"] sh n by (simp add: view_shapes_def)
  moreover have "\<not> empty_bits (targets s ! i) ! w" if "w \<in> in_stock s" for w
    using right n that by (simp add: told_right_def num_targets_def)
  ultimately show ?thesis
    using observation_sized [OF ok i] by (auto simp: shows_stock_def seen_empty_def set_flatnonzero)
qed

lemma greedy_target_rivals:
  fixes R :: "'h rng" and s :: "('g, nat set option) env"
  assumes R: "rng_ok R" "lists_sets order" and ch: "open_channel send route passes"
  shows "rival_team (greedy_target_handlers R seeding order has_space) TARGET
    (target_rival :: ('g, nat set option) env \<Rightarrow> nat \<Rightarrow> 'h greedy_target \<Rightarrow> bool)
    (\<lambda>s i. shows_stock (in_stock s) (num_cameras s) (num_targets s) (num_obstacles s))
    (\<lambda>s. target_talk (in_stock s) (num_targets s)) fresh_target send route passes"
proof (rule rival_team.intro)
  fix s :: "('g, nat set option) env"
  show "talking_team (greedy_target_handlers R seeding order has_space) TARGET (num_agents TARGET s) (target_rival s)
      (\<lambda>i. shows_stock (in_stock s) (num_cameras s) (num_targets s) (num_obstacles s))
      (target_talk (in_stock s) (num_targets s)) (within_hi (reach TARGET s)) send route passes"
    using greedy_target_team [OF R] ch unfolding talking_team_def target_rival_def num_agents_def team.case by blast
next
  fix s s' :: "('g, nat set option) env" and i a
  assume "same_rules s s'" "in_stock s' \<subseteq> in_stock s" "i < num_agents TARGET s" "target_rival s i a"
  then show "target_rival s' i a" by (rule target_rival_persists)
qed (simp_all add: greedy_target_resets greedy_target_handlers_def observation_shows_stock)

subsection \<open>Interpretations\<close>

text \<open>
  For any generator and set order of the agents the greedy teams are teams of agents in the sense of
  \<open>Teams\<close> and opponents in the sense of \<open>SingleTeam\<close>, with the environment's own channel.
\<close>

locale greedy_world =
  fixes R :: "'h rng" and order :: "nat set \<Rightarrow> nat list"
  assumes draws: "rng_ok R" and lists: "lists_sets order"

sublocale greedy_world < cameras: rival_team "greedy_camera_handlers R seeding has_space" CAMERA camera_rival
    "\<lambda>s i. sized_for CAMERA (num_cameras s) (num_targets s) (num_obstacles s)"
    "\<lambda>s. camera_talk (num_cameras s) (num_targets s)" fresh_camera send_messages route_messages "\<lambda>_. True"
    for seeding has_space
  by (rule greedy_camera_rivals [OF draws open_env.open_channel_axioms])

sublocale greedy_world < targets: rival_team "greedy_target_handlers R seeding order has_space" TARGET target_rival
    "\<lambda>s i. shows_stock (in_stock s) (num_cameras s) (num_targets s) (num_obstacles s)"
    "\<lambda>s. target_talk (in_stock s) (num_targets s)" fresh_target send_messages route_messages "\<lambda>_. True"
    for seeding has_space
  by (rule greedy_target_rivals [OF draws lists open_env.open_channel_axioms])

sublocale rival_team < talks: talking_team H side "num_agents side s" "ok s" "sees s" "good s" "within_hi (reach side s)"
    send route passes for s
  by (rule talks)

interpretation counting: greedy_world counter_rng sorted_list_of_set
  by unfold_locales (simp_all add: counter_rng_ok lists_sets_def)

interpretation rival_cameras: rival_team "greedy_camera_handlers counter_rng demo_seeding (\<lambda>_. True)" CAMERA camera_rival
    "\<lambda>s i. sized_for CAMERA (num_cameras s) (num_targets s) (num_obstacles s)"
    "\<lambda>s. camera_talk (num_cameras s) (num_targets s)" fresh_camera send_messages route_messages "\<lambda>_. True"
  by (rule greedy_camera_rivals [OF counter_rng_ok open_env.open_channel_axioms])

interpretation camera_players: team_agent "greedy_camera_handlers counter_rng demo_seeding (\<lambda>_. True)" CAMERA nc
    "camera_player nc nt no hi" "\<lambda>i. sized_for CAMERA nc nt no" "camera_talk nc nt" "within_hi hi" for nc nt no hi
  by (rule greedy_camera_team [OF counter_rng_ok])

interpretation camera_talkers: talking_team "greedy_camera_handlers counter_rng demo_seeding (\<lambda>_. True)" CAMERA nc
    "camera_player nc nt no hi" "\<lambda>i. sized_for CAMERA nc nt no" "camera_talk nc nt" "within_hi hi"
    send_messages route_messages "\<lambda>_. True" for nc nt no hi
  by (intro talking_team.intro camera_players.team_agent_axioms open_env.open_channel_axioms)

subsection \<open>From the constructor to the first reset\<close>

lemma agent_seed_frame:
  "snd (agent_seed R seeding k b ag) = ag\<lparr>ra_random := ra_random (snd (agent_seed R seeding k b ag)),
     ra_space_random := ra_space_random (snd (agent_seed R seeding k b ag))\<rparr>"
  by (simp add: agent_seed_def split: prod.split)

lemma agent_clone_frame:
  assumes "agent_clone R seeding b ag = (c, ag')"
  obtains g g' h where "c = ag\<lparr>ra_random := g, ra_space_random := h\<rparr>" "ag' = ag\<lparr>ra_random := g'\<rparr>"
proof -
  obtain k g' where k: "randint R (ra_random ag) 0 np_int_max = (k, g')" by (rule prod.exhaust)
  then have "ag' = ag\<lparr>ra_random := g'\<rparr>" "c = snd (agent_seed R seeding (Some k) b ag)"
    using assms by (simp_all add: agent_clone_def)
  with agent_seed_frame [of R seeding "Some k" b ag] show ?thesis by (metis that)
qed

lemma agent_spawn_all:
  assumes "agent_spawn R seeding b n ag = (cs, ag')" and "P ag"
    and P: "\<And>x g h. P x \<Longrightarrow> P (x\<lparr>ra_random := g, ra_space_random := h\<rparr>)" "\<And>x g. P x \<Longrightarrow> P (x\<lparr>ra_random := g\<rparr>)"
  shows "length cs = n \<and> (\<forall>c \<in> set cs. P c) \<and> P ag'"
  using assms(1,2)
proof (induction n arbitrary: ag cs ag')
  case (Suc n)
  obtain c ag1 cs' where s: "agent_clone R seeding b ag = (c, ag1)" "agent_spawn R seeding b n ag1 = (cs', ag')" "cs = c # cs'"
    using Suc.prems(1) by (auto simp: Let_def split: prod.splits)
  have "P c \<and> P ag1" using s(1) Suc.prems(2) P by (auto elim!: agent_clone_frame)
  then show ?case using Suc.IH [OF s(2)] s(3) by simp
qed simp

lemma new_multi_agent_waits:
  assumes "new_multi_agent H team agent s = Inr ma" and "env_setup s" and "fresh agent"
    and spawn: "\<And>n cs a'. h_spawn H n agent = (cs, a') \<Longrightarrow> length cs = n \<and> (\<forall>c \<in> set cs. fresh c)"
  shows "rivals_waiting (opponent team) fresh ma"
  using assms(1,2) spawn by (auto simp: new_multi_agent_def bind_res_Inr rivals_waiting_def split: prod.splits)

lemma camera_spawn_fresh:
  assumes "h_spawn (greedy_camera_handlers R seeding has_space) n ag = (cs, ag')" and "fresh_camera ag"
  shows "length cs = n \<and> (\<forall>c \<in> set cs. fresh_camera c)"
  using agent_spawn_all [where P = fresh_camera, OF _ assms(2), of R seeding "has_space ag" n cs ag'] assms(1)
  by (simp add: greedy_camera_handlers_def fresh_camera_def)

subsection \<open>A world of the demonstration\<close>

text \<open>The environment of \<open>Demo\<close>, for messages of any content.\<close>

definition demo_world :: "(nat, 'm) env" where
  "demo_world = \<lparr>targets = [demo_target], target_capacities = [1],
     remaining_cargoes = replicate NUM_WAREHOUSES (replicate NUM_WAREHOUSES 0),
     awaiting_cargo_counts = replicate NUM_WAREHOUSES 0, num_delivered_cargoes = 0,
     target_team_episode_reward = 0, delayed_target_team_episode_reward = 0,
     target_warehouse_distances = [], target_goal_bits = [], target_goals = [], target_dones = [],
     target_steps = [], tracked_steps = [], freight_scale = 100, bounty_scale = 100,
     freights = [], bounties = [], tracked_bits = [], np_random = 0,
     settings = demo_settings, cameras = [demo_camera], obstacles = [demo_obstacle],
     camera_order = [0], target_order = [0], obstacle_order = [0], collisions = empty_index,
     camera_target_view_mask = [], target_camera_view_mask = [], camera_obstacle_view_mask = [],
     camera_camera_view_mask = [], target_obstacle_view_mask = [], target_target_view_mask = [],
     obstacle_states_flagged = [], camera_obstacle_observations = [], state_cache = None,
     coverage_rate = 0, real_coverage_rate = 0, mean_transport_rate = 0, episode_step = 0,
     target_orientations = [],
     mail = \<lparr>team_size = (\<lambda>_. 1), message_queues = (\<lambda>_ _. []), message_buffers = (\<lambda>_ _. []),
       communication_edges = (\<lambda>_. []), total_communication_edges = (\<lambda>_. [])\<rparr>\<rparr>"

lemma demo_world_setup: "env_setup (demo_world :: (nat, 'm) env)"
proof -
  have n: "num_targets (demo_world :: (nat, 'm) env) = 1" "num_cameras (demo_world :: (nat, 'm) env) = 1"
    "num_obstacles (demo_world :: (nat, 'm) env) = 1"
    by (simp_all add: num_targets_def num_cameras_def num_obstacles_def demo_world_def)
  have a: "num_agents t (demo_world :: (nat, 'm) env) = 1" for t by (cases t) (simp_all add: num_agents_def n)
  have c: "camera_params_ok demo_camera" by (simp add: camera_params_ok_def demo_camera_def MAX_CAMERA_VIEWING_ANGLE_def)
  have t: "target_ok demo_target" "0 < transport_product demo_target"
    by (simp_all add: target_ok_def demo_target_def in_terrain_def terrain_defs)
  have "(\<lambda>t. num_agents t (demo_world :: (nat, 'm) env)) = (\<lambda>_. 1)" by (simp add: a)
  then show ?thesis
    unfolding env_setup_def n using c t by (simp add: demo_world_def demo_settings_def)
qed

definition demo_multi_camera :: "(nat greedy_target, nat, nat set option) multi_agent" where
  "demo_multi_camera = \<lparr>inner = demo_world, prototype = demo_greedy_target, rivals = [demo_greedy_target], rival_order = [0],
     rival_obs = [], rival_infos = None\<rparr>"

definition demo_multi_target :: "(nat greedy_camera, nat, camera_content) multi_agent" where
  "demo_multi_target = \<lparr>inner = demo_world, prototype = demo_greedy, rivals = [demo_greedy], rival_order = [0],
     rival_obs = [], rival_infos = None\<rparr>"

lemma demo_worlds_wait: "rivals_waiting TARGET fresh_target demo_multi_camera" "rivals_waiting CAMERA fresh_camera demo_multi_target"
  using demo_world_setup
  by (simp_all add: rivals_waiting_def demo_multi_camera_def demo_multi_target_def fresh_target_def fresh_camera_def
      demo_greedy_target_def demo_greedy_def num_agents_def num_targets_def num_cameras_def) (simp_all add: demo_world_def)

subsection \<open>Single-team environments against the greedy agents\<close>

text \<open>C16: the single-team environment of the cameras, opposed by greedy targets: from its reset on, whatever
  calls are made in whatever order, no opponent takes a warehouse that still holds cargoes for empty, and
  \<open>step\<close> fails (a \<open>ValueError\<close>) exactly when the action does not have two numbers per camera: neither the
  opponents' observing, talking and acting nor the environment ever raises. What a step returns are the
  cameras' observations of the state it leaves.\<close>

theorem multi_camera_against_greedy:
  fixes ma :: "('h greedy_target, 'g, nat set option) multi_agent"
  assumes "rng_ok R" and "rng_ok R'" and "lists_sets order'"
    and "multi_life repeated send_messages (greedy_target_handlers R' seeding' order' has_space) CAMERA R seeding interp1d order
      fresh_target ma"
  shows "(\<forall>ag \<in> set (rivals ma). in_stock (inner ma) \<subseteq> gt_non_empty ag)
    \<and> (length action = 2 * num_agents CAMERA (inner ma) \<longrightarrow>
      (\<exists>tr ma'. multi_step repeated send_messages (greedy_target_handlers R' seeding' order' has_space) CAMERA R interp1d order
          action ma = Inr (tr, ma')
        \<and> multi_life repeated send_messages (greedy_target_handlers R' seeding' order' has_space) CAMERA R seeding interp1d order
            fresh_target ma'
        \<and> tr_obs tr = observations_of CAMERA (inner ma') \<and> same_rules (inner ma) (inner ma')))
    \<and> (length action \<noteq> 2 * num_agents CAMERA (inner ma) \<longrightarrow>
      multi_step repeated send_messages (greedy_target_handlers R' seeding' order' has_space) CAMERA R interp1d order action ma
        = Inl ValueError)"
proof -
  note team = greedy_target_rivals [OF assms(2,3) open_env.open_channel_axioms]
  have side: "TARGET = opponent CAMERA" by (simp add: opponent_def)
  have "rivals_ready TARGET target_rival ma"
    by (rule rival_team.life_ready [OF team assms(4,1) side open_env.open_channel_axioms])
  then have "\<forall>ag \<in> set (rivals ma). in_stock (inner ma) \<subseteq> gt_non_empty ag"
    by (fastforce simp: rivals_ready_def target_rival_def target_player_def list_all2_conv_all_nth in_set_conv_nth)
  then show ?thesis
    using rival_team.life_steps [OF team assms(4,1) side open_env.open_channel_axioms, of action] by blast
qed

theorem multi_camera_against_greedy_witness:
  "\<exists>obs ma tr ma'. multi_reset (greedy_target_handlers counter_rng demo_seeding sorted_list_of_set (\<lambda>_. True)) CAMERA counter_rng
      demo_seeding demo_interp id (Some 7) demo_multi_camera = Some (Inr (obs, ma))
    \<and> multi_step None send_messages (greedy_target_handlers counter_rng demo_seeding sorted_list_of_set (\<lambda>_. True)) CAMERA
        counter_rng demo_interp id (replicate (2 * num_agents CAMERA (inner ma)) 0) ma = Inr (tr, ma')"
proof -
  have sets: "lists_sets sorted_list_of_set" by (simp add: lists_sets_def)
  have side: "TARGET = opponent CAMERA" by (simp add: opponent_def)
  note team = greedy_target_rivals [OF counter_rng_ok sets open_env.open_channel_axioms]
  obtain obs ma where L:
    "multi_reset (greedy_target_handlers counter_rng demo_seeding sorted_list_of_set (\<lambda>_. True)) CAMERA counter_rng
      demo_seeding demo_interp id (Some 7) demo_multi_camera = Some (Inr (obs, ma))"
    "multi_life None send_messages (greedy_target_handlers counter_rng demo_seeding sorted_list_of_set (\<lambda>_. True)) CAMERA
      counter_rng demo_seeding demo_interp id fresh_target ma"
    using rival_team.life_starts [OF team counter_rng_ok counter_draws_all demo_worlds_wait(1) side] by metis
  from multi_camera_against_greedy [OF counter_rng_ok counter_rng_ok sets L(2),
      of "replicate (2 * num_agents CAMERA (inner ma)) 0"] L(1) show ?thesis by auto
qed



text \<open>\<open>RepeatedRewardIndividualDone\<close> may stand inside the single-team wrapper or around it: the results of
  a step are the same.\<close>

lemma repeated_wrapping_commutes:
  "multi_step (Some d) send H team R interp1d order action ma = repeated_multi_step d send H team R interp1d order action ma"
proof -
  have "fst (swap_pair CAMERA q) = fst q" "fst (swap_pair TARGET q) = snd q" for q :: "payoff \<times> payoff"
    by (simp_all add: swap_pair_def)
  show ?thesis
    by (cases team; cases "group_step send H (rivals ma) (rival_obs ma) (rival_infos ma) (mail (inner ma))")
      (auto simp: repeated_multi_step_def multi_step_def helper_step_def wrapped_step_def bind_res_def swap_result_def
        swap_pair_def swap_ends_def plain_result_def repeat_result_def repeat_team_def num_agents_def split: prod.splits sum.splits)
qed

end
