(* ===== verification/SingleAgent.thy ===== *)
theory SingleAgent
  imports SingleTeam
begin

text \<open>
  The single-agent environments (\<open>SingleTeamSingleAgent\<close> with \<open>SingleCamera\<close> and \<open>SingleTarget\<close> in
  \<open>wrappers/single_team.py\<close>): one agent is trained, its teammates and the opponents are agents of the program.
  \<open>sa_mates\<close> are the teammates in the order they have in the episode, \<open>sa_index\<close> is the place of the trained
  agent among them. The locale \<open>single_world\<close> puts together what the wrapper relies on in both groups of
  agents: two instances of \<open>rival_team\<close>, of which the teammates also hear the trained agent.
\<close>

subsection \<open>The environment of one agent\<close>

record ('b, 'a, 'g, 'm) single_agent =
  sa_env :: "('g, 'm) env"
  sa_mate :: 'b
  sa_mates :: "'b list"
  sa_mate_order :: "nat list"
  sa_index :: nat
  sa_obs :: "real list list"
  sa_infos :: "'m agent_info list option"
  sa_foe :: 'a
  sa_foes :: "'a list"
  sa_foe_order :: "nat list"
  sa_foe_obs :: "real list list"
  sa_foe_infos :: "'m agent_info list option"

text \<open>\<open>xs[:i] + xs[i + 1:]\<close> and \<open>xs.insert(i, x)\<close>.\<close>

definition without :: "nat \<Rightarrow> 'x list \<Rightarrow> 'x list" where
  "without i xs = take i xs @ drop (Suc i) xs"

definition insert_at :: "nat \<Rightarrow> 'x \<Rightarrow> 'x list \<Rightarrow> 'x list" where
  "insert_at i x xs = take i xs @ x # drop i xs"

definition new_single_agent ::
  "('b, 'm) handlers \<Rightarrow> ('a, 'm) handlers \<Rightarrow> team \<Rightarrow> 'b \<Rightarrow> 'a \<Rightarrow> ('g, 'm) env \<Rightarrow> ('b, 'a, 'g, 'm) single_agent res" where
  "new_single_agent Hm Hf team mate foe s =
     bind_res (check AssertionError (0 < num_agents team s)) (\<lambda>_.
       let (mates, mate') = h_spawn Hm (num_agents team s - 1) mate;
           (foes, foe') = h_spawn Hf (num_agents (opponent team) s) foe
       in Inr \<lparr>sa_env = s, sa_mate = mate', sa_mates = mates, sa_mate_order = [0..<length mates],
               sa_index = 0, sa_obs = [], sa_infos = None,
               sa_foe = foe', sa_foes = foes, sa_foe_order = [0..<length foes], sa_foe_obs = [], sa_foe_infos = None\<rparr>)"

definition single_load_config ::
  "(('g, 'm) env \<Rightarrow> ('g, 'm) env res) \<Rightarrow> ('b, 'm) handlers \<Rightarrow> ('a, 'm) handlers \<Rightarrow> team
    \<Rightarrow> ('b, 'a, 'g, 'm) single_agent \<Rightarrow> ('b, 'a, 'g, 'm) single_agent res" where
  "single_load_config load Hm Hf team sa =
     bind_res (load (sa_env sa)) (\<lambda>s. new_single_agent Hm Hf team (sa_mate sa) (sa_foe sa) s)"

text \<open>The place of the trained agent: the last one, or drawn when the environment shuffles its entities.\<close>

definition draw_index :: "'g rng \<Rightarrow> bool \<Rightarrow> nat \<Rightarrow> 'g \<Rightarrow> nat \<times> 'g" where
  "draw_index R shuffled n g =
     (if shuffled then (case randint R g 0 (int n) of (k, g') \<Rightarrow> (nat k, g')) else (n - 1, g))"

definition single_reset ::
  "('b, 'm) handlers \<Rightarrow> ('a, 'm) handlers \<Rightarrow> team \<Rightarrow> 'g rng \<Rightarrow> (int option \<Rightarrow> 'g \<times> int) \<Rightarrow> interp
    \<Rightarrow> (nat list \<Rightarrow> nat list) \<Rightarrow> int option \<Rightarrow> ('b, 'a, 'g, 'm) single_agent
    \<Rightarrow> (real list \<times> ('b, 'a, 'g, 'm) single_agent) res option" where
  "single_reset Hm Hf team R seeding interp1d order seed sa =
     (case reset R seeding interp1d order seed (sa_env sa) of
        None \<Rightarrow> None
      | Some (Inl e) \<Rightarrow> Some (Inl e)
      | Some (Inr (obs, s)) \<Rightarrow>
          (let (own, other) = swap_pair team obs;
               shuffled = shuffle_entities (settings s);
               (foes, foe_order, g1) = shuffle_agents R shuffled (sa_foe_order sa) (sa_foes sa) (np_random s)
           in Some (bind_res (group_reset Hf foes other) (\<lambda>foes'.
                let (i, g2) = draw_index R shuffled (num_agents team s) g1;
                    (mates, mate_order, g3) = shuffle_agents R shuffled (sa_mate_order sa) (sa_mates sa) g2
                in bind_res (group_reset Hm mates (without i own)) (\<lambda>mates'.
                     Inr (own ! i,
                          sa\<lparr>sa_env := s\<lparr>np_random := g3\<rparr>, sa_mates := mates', sa_mate_order := mate_order, sa_index := i,
                             sa_obs := own, sa_infos := None, sa_foes := foes', sa_foe_order := foe_order,
                             sa_foe_obs := other, sa_foe_infos := None\<rparr>))))))"

definition single_send ::
  "('m mailbox \<Rightarrow> 'm message list \<Rightarrow> 'm mailbox res) \<Rightarrow> team \<Rightarrow> 'm message list \<Rightarrow> ('b, 'a, 'g, 'm) single_agent
    \<Rightarrow> ('b, 'a, 'g, 'm) single_agent res" where
  "single_send send team ms sa =
     bind_res (check AssertionError (list_all (\<lambda>m. msg_team m = team \<and> sender m = sa_index sa) ms)) (\<lambda>_.
     bind_res (send (mail (sa_env sa)) ms) (\<lambda>mb.
       Inr (sa\<lparr>sa_env := (sa_env sa)\<lparr>mail := mb\<rparr>\<rparr>)))"

text \<open>\<open>receive_messages\<close>: without an argument, what waits for the trained agent.\<close>

definition single_receive ::
  "team \<Rightarrow> (team \<times> nat) option \<Rightarrow> ('b, 'a, 'g, 'm) single_agent \<Rightarrow> 'm message list \<times> ('b, 'a, 'g, 'm) single_agent" where
  "single_receive team agent_id sa =
     (let (t, i) = (case agent_id of None \<Rightarrow> (team, sa_index sa) | Some aid \<Rightarrow> aid);
          (ms, mb) = receive_for (mail (sa_env sa)) t i
      in (ms, sa\<lparr>sa_env := (sa_env sa)\<lparr>mail := mb\<rparr>\<rparr>))"

record 'm agent_result =
  ar_obs :: "real list"
  ar_reward :: int
  ar_done :: bool
  ar_info :: "'m agent_info"

definition own_reward :: "nat \<Rightarrow> payoff \<Rightarrow> int" where
  "own_reward i r = (case r of Shared x \<Rightarrow> x | Individual xs \<Rightarrow> xs ! i)"

definition own_done :: "nat \<Rightarrow> ends \<Rightarrow> bool" where
  "own_done i d = (case d of Done b \<Rightarrow> b | Dones own other \<Rightarrow> own ! i)"

definition single_step ::
  "bool option \<Rightarrow> ('m mailbox \<Rightarrow> 'm message list \<Rightarrow> 'm mailbox res) \<Rightarrow> ('b, 'm) handlers \<Rightarrow> ('a, 'm) handlers \<Rightarrow> team
    \<Rightarrow> 'g rng \<Rightarrow> interp \<Rightarrow> (nat list \<Rightarrow> nat list) \<Rightarrow> real list \<Rightarrow> ('b, 'a, 'g, 'm) single_agent
    \<Rightarrow> ('m agent_result \<times> ('b, 'a, 'g, 'm) single_agent) res" where
  "single_step repeated send Hm Hf team R interp1d order action sa =
     (let i = sa_index sa; s = sa_env sa in
      bind_res (group_step send Hm (sa_mates sa) (without i (sa_obs sa)) (map_option (without i) (sa_infos sa)) (mail s))
        (\<lambda>(vs, mates, mb1).
      bind_res (group_step send Hf (sa_foes sa) (sa_foe_obs sa) (sa_foe_infos sa) mb1) (\<lambda>(ws, foes, mb2).
      bind_res (helper_step repeated team R interp1d order
          (concat (insert_at i action (map (\<lambda>v. [fst v, snd v]) vs)), flat_actions ws) (s\<lparr>mail := mb2\<rparr>)) (\<lambda>(jr, s').
        Inr (\<lparr>ar_obs = fst (jr_obs jr) ! i, ar_reward = own_reward i (fst (jr_rewards jr)),
              ar_done = own_done i (jr_done jr), ar_info = fst (jr_infos jr) ! i\<rparr>,
             sa\<lparr>sa_env := s', sa_mates := mates, sa_foes := foes, sa_obs := fst (jr_obs jr),
                sa_foe_obs := snd (jr_obs jr), sa_infos := Some (fst (jr_infos jr)),
                sa_foe_infos := Some (snd (jr_infos jr))\<rparr>)))))"

text \<open>\<open>seed\<close>: the environment, both prototypes, the teammates and the opponents in their original order.\<close>

definition single_seed ::
  "('b, 'm) handlers \<Rightarrow> ('a, 'm) handlers \<Rightarrow> 'g rng \<Rightarrow> (int option \<Rightarrow> 'g \<times> int) \<Rightarrow> int option
    \<Rightarrow> ('b, 'a, 'g, 'm) single_agent \<Rightarrow> int list \<times> ('b, 'a, 'g, 'm) single_agent" where
  "single_seed Hm Hf R seeding seed sa =
     (let (seeds, s) = env_seed R seeding seed (sa_env sa);
          (s1, mate, g1) = seed_agents R Hm [sa_mate sa] (np_random s);
          (s2, foe, g2) = seed_agents R Hf [sa_foe sa] g1;
          (s3, mates, g3) = seed_agents R Hm (unshuffle (sa_mate_order sa) (sa_mates sa)) g2;
          (s4, foes, g4) = seed_agents R Hf (unshuffle (sa_foe_order sa) (sa_foes sa)) g3
      in (seeds @ s1 @ s2 @ s3 @ s4,
          sa\<lparr>sa_env := s\<lparr>np_random := g4\<rparr>, sa_mate := hd mate, sa_foe := hd foe,
             sa_mates := map (\<lambda>k. mates ! k) (sa_mate_order sa), sa_foes := map (\<lambda>k. foes ! k) (sa_foe_order sa)\<rparr>))"

subsection \<open>Lists without one element\<close>

lemma length_without: "i < length xs \<Longrightarrow> length (without i xs) = length xs - 1"
  by (simp add: without_def)

lemma without_map: "without i (map f xs) = map f (without i xs)"
  by (simp add: without_def take_map drop_map)

lemma set_without_upt: "set (without i [0..<n]) \<subseteq> {..<n}"
  by (auto simp: without_def dest!: in_set_takeD in_set_dropD)

lemma length_pairs: "length (concat (map (\<lambda>v. [fst v, snd v]) vs)) = 2 * length vs"
  by (induction vs) simp_all

lemma length_inserted: "length (concat (insert_at i x (map (\<lambda>v. [fst v, snd v]) vs))) = length x + 2 * length vs"
proof -
  have "length (concat (insert_at i x (map (\<lambda>v. [fst v, snd v]) vs))) = 2 * length (take i vs) + length x + 2 * length (drop i vs)"
    unfolding insert_at_def concat_append concat.simps length_append take_map drop_map length_pairs by simp
  moreover have "length (take i vs) + length (drop i vs) = length vs" by (metis append_take_drop_id length_append)
  ultimately show ?thesis by linarith
qed

subsection \<open>What the wrapper relies on in both groups\<close>

text \<open>Teammates: what they exchange is good whatever waits in the mailbox.\<close>

locale mate_team = rival_team H side ok sees good fresh send route passes
  for H :: "('b, 'm) handlers" and side and ok :: "('g, 'm) env \<Rightarrow> nat \<Rightarrow> 'b \<Rightarrow> bool" and sees
    and good :: "('g, 'm) env \<Rightarrow> 'm message \<Rightarrow> bool" and fresh and send and route and passes +
  assumes good_mail: "good (s\<lparr>mail := mb\<rparr>) m = good s m"

definition single_ready ::
  "team \<Rightarrow> (('g, 'm) env \<Rightarrow> nat \<Rightarrow> 'b \<Rightarrow> bool) \<Rightarrow> (('g, 'm) env \<Rightarrow> 'm message \<Rightarrow> bool) \<Rightarrow> (('g, 'm) env \<Rightarrow> nat \<Rightarrow> 'a \<Rightarrow> bool)
    \<Rightarrow> ('b, 'a, 'g, 'm) single_agent \<Rightarrow> bool" where
  "single_ready team okm goodm okf sa \<longleftrightarrow>
     (let s = sa_env sa; n = num_agents team s; k = num_agents (opponent team) s in
      env_ok s \<and> told_right s \<and> (\<forall>i. message_queues (mail s) (opponent team) i = [])
    \<and> (\<forall>i. \<forall>m \<in> set (message_queues (mail s) team i). goodm s m) \<and> sa_index sa < n
    \<and> list_all2 (okm s) (without (sa_index sa) [0..<n]) (sa_mates sa) \<and> list_all2 (okf s) [0..<k] (sa_foes sa)
    \<and> sa_obs sa = observations_of team s \<and> sa_foe_obs sa = observations_of (opponent team) s
    \<and> (\<forall>infos. sa_infos sa = Some infos \<longrightarrow> length infos = n)
    \<and> (\<forall>infos. sa_foe_infos sa = Some infos \<longrightarrow> length infos = k))"

definition single_waiting :: "team \<Rightarrow> ('b \<Rightarrow> bool) \<Rightarrow> ('a \<Rightarrow> bool) \<Rightarrow> ('b, 'a, 'g, 'm) single_agent \<Rightarrow> bool" where
  "single_waiting team freshm freshf sa \<longleftrightarrow>
     env_setup (sa_env sa) \<and> 0 < num_agents team (sa_env sa)
   \<and> length (sa_mates sa) = num_agents team (sa_env sa) - 1 \<and> length (sa_foes sa) = num_agents (opponent team) (sa_env sa)
   \<and> length (sa_mate_order sa) = length (sa_mates sa) \<and> length (sa_foe_order sa) = length (sa_foes sa)
   \<and> (\<forall>b \<in> set (sa_mates sa). freshm b) \<and> (\<forall>a \<in> set (sa_foes sa). freshf a)"

lemma draw_index_below:
  assumes "rng_ok R" and "0 < n"
  shows "fst (draw_index R shuffled n g) < n"
proof -
  obtain k g' where k: "randint R g 0 (int n) = (k, g')" by (rule prod.exhaust)
  have "0 \<le> k" "k < int n" using rng_randint [OF assms(1), of 0 "int n" g] assms(2) k by simp_all
  then show ?thesis using assms(2) k by (auto simp: draw_index_def)
qed

lemma opponent_twice [simp]: "opponent (opponent team) = team"
  by (cases team) (simp_all add: opponent_def)

locale single_world =
  mates: mate_team Hm team okm seesm goodm freshm send route passes +
  foes: rival_team Hf "opponent team" okf seesf goodf freshf send route passes
  for Hm :: "('b, 'm) handlers" and Hf :: "('a, 'm) handlers" and team
    and okm :: "('g, 'm) env \<Rightarrow> nat \<Rightarrow> 'b \<Rightarrow> bool" and seesm goodm freshm
    and okf :: "('g, 'm) env \<Rightarrow> nat \<Rightarrow> 'a \<Rightarrow> bool" and seesf goodf freshf send route passes
begin

lemma groups_play:
  assumes rd: "single_ready team okm goodm okf sa"
  obtains vs mates' mb1 ws foes' mb2 where
    "group_step send Hm (sa_mates sa) (without (sa_index sa) (sa_obs sa)) (map_option (without (sa_index sa)) (sa_infos sa))
       (mail (sa_env sa)) = Inr (vs, mates', mb1)"
    "group_step send Hf (sa_foes sa) (sa_foe_obs sa) (sa_foe_infos sa) mb1 = Inr (ws, foes', mb2)"
    "length vs = num_agents team (sa_env sa) - 1" "length ws = num_agents (opponent team) (sa_env sa)"
    "list_all2 (okm (sa_env sa)) (without (sa_index sa) [0..<num_agents team (sa_env sa)]) mates'"
    "list_all2 (okf (sa_env sa)) [0..<num_agents (opponent team) (sa_env sa)] foes'"
    "mailbox_ok mb2" "team_size mb2 = team_size (mail (sa_env sa))"
proof -
  let ?s = "sa_env sa" let ?n = "num_agents team ?s" let ?k = "num_agents (opponent team) ?s" let ?i = "sa_index sa"
  let ?is = "without ?i [0..<?n]" let ?sizes = "\<lambda>t. num_agents t ?s" let ?q = "message_queues (mail ?s) (opponent team)"
  have ok: "env_ok ?s" "told_right ?s" "list_all2 (okm ?s) ?is (sa_mates sa)" "list_all2 (okf ?s) [0..<?k] (sa_foes sa)"
    "sa_obs sa = observations_of team ?s" "sa_foe_obs sa = observations_of (opponent team) ?s" "?i < ?n"
    and quiet_foes: "\<forall>i. message_queues (mail ?s) (opponent team) i = []"
    and good: "\<forall>i. \<forall>m \<in> set (message_queues (mail ?s) team i). goodm ?s m"
    and infos: "\<forall>infos. sa_infos sa = Some infos \<longrightarrow> length infos = ?n" "\<forall>infos. sa_foe_infos sa = Some infos \<longrightarrow> length infos = ?k"
    using rd by (simp_all add: single_ready_def Let_def)
  have mb: "mailbox_ok (mail ?s)" "team_size (mail ?s) = ?sizes" using ok(1) by (simp_all add: env_ok_def)
  have below: "\<forall>i \<in> set ?is. i < ?n" using set_without_upt by fastforce
  have calm: "talking_team.calm team ?n (goodm ?s) ?sizes ?q (mail ?s)"
    using mb good by (simp add: talking_team.calm_def [OF mates.talks])
  have see: "list_all2 (seesm ?s) ?is (without ?i (sa_obs sa))"
    using ok(1,2,5) mates.looks below by (simp add: observations_of_def without_map list_all2_map2 list_all2_same)
  have len: "\<forall>infos'. map_option (without ?i) (sa_infos sa) = Some infos' \<longrightarrow> length ?is \<le> length infos'"
    using infos(1) ok(7) by (auto simp: length_without)
  obtain vs mates' mb1 where 1: "group_step send Hm (sa_mates sa) (without ?i (sa_obs sa)) (map_option (without ?i) (sa_infos sa))
      (mail ?s) = Inr (vs, mates', mb1)"
    "list_all2 (within_hi (reach team ?s)) ?is vs" "list_all2 (okm ?s) ?is mates'" "talking_team.calm team ?n (goodm ?s) ?sizes ?q mb1"
    using talking_team.group_step_ok [OF mates.talks ok(3) see below calm len] by blast
  have mb1: "mailbox_ok mb1" "team_size mb1 = ?sizes" "message_queues mb1 (opponent team) = ?q"
    using 1(4) by (simp_all add: talking_team.calm_def [OF mates.talks])
  have calm': "talking_team.calm (opponent team) ?k (goodf ?s) ?sizes (message_queues mb1 team) mb1"
    using mb1 quiet_foes by (simp add: talking_team.calm_def [OF foes.talks])
  have see': "list_all2 (seesf ?s) [0..<?k] (sa_foe_obs sa)"
    using ok(1,2,6) foes.looks by (simp add: list_all2_conv_all_nth observations_of_def)
  have len': "\<forall>infos'. sa_foe_infos sa = Some infos' \<longrightarrow> length [0..<?k] \<le> length infos'" using infos(2) by simp
  obtain ws foes' mb2 where 2: "group_step send Hf (sa_foes sa) (sa_foe_obs sa) (sa_foe_infos sa) mb1 = Inr (ws, foes', mb2)"
    "list_all2 (within_hi (reach (opponent team) ?s)) [0..<?k] ws" "list_all2 (okf ?s) [0..<?k] foes'"
    "talking_team.calm (opponent team) ?k (goodf ?s) ?sizes (message_queues mb1 team) mb2"
    using talking_team.group_step_ok [OF foes.talks ok(4) see' _ calm' len'] by auto
  have "mailbox_ok mb2" "team_size mb2 = team_size (mail ?s)"
    using 2(4) mb(2) by (simp_all add: talking_team.calm_def [OF foes.talks])
  moreover have "length vs = ?n - 1" "length ws = ?k"
    using 1(2) 2(2) ok(7) length_without [of ?i "[0..<?n]"] by (auto dest!: list_all2_lengthD)
  ultimately show ?thesis using that [OF 1(1) 2(1)] 1(3) 2(3) by blast
qed

lemma single_step_ok:
  assumes R: "rng_ok R" and rd: "single_ready team okm goodm okf sa" and sz: "length action = 2"
  shows "\<exists>res sa'. single_step repeated send Hm Hf team R interp1d order action sa = Inr (res, sa')
    \<and> single_ready team okm goodm okf sa' \<and> sa_index sa' = sa_index sa
    \<and> ar_obs res = observation_of team (sa_env sa') (sa_index sa) \<and> same_rules (sa_env sa) (sa_env sa')"
proof -
  let ?s = "sa_env sa" let ?n = "num_agents team ?s" let ?k = "num_agents (opponent team) ?s" let ?i = "sa_index sa"
  have ok: "env_ok ?s" "told_right ?s" "?i < ?n" using rd by (simp_all add: single_ready_def Let_def)
  obtain vs mates' mb1 ws foes' mb2 where G:
    "group_step send Hm (sa_mates sa) (without ?i (sa_obs sa)) (map_option (without ?i) (sa_infos sa)) (mail ?s) = Inr (vs, mates', mb1)"
    "group_step send Hf (sa_foes sa) (sa_foe_obs sa) (sa_foe_infos sa) mb1 = Inr (ws, foes', mb2)"
    "length vs = ?n - 1" "length ws = ?k"
    "list_all2 (okm ?s) (without ?i [0..<?n]) mates'" "list_all2 (okf ?s) [0..<?k] foes'"
    "mailbox_ok mb2" "team_size mb2 = team_size (mail ?s)"
    by (rule groups_play [OF rd])
  let ?s1 = "?s\<lparr>mail := mb2\<rparr>" let ?own = "concat (insert_at ?i action (map (\<lambda>v. [fst v, snd v]) vs))"
  have ok1: "env_ok ?s1" "told_right ?s1" using env_ok_mail [OF ok(1) G(7,8)] ok(2) by (simp_all add: told_right_mail)
  have sz1: "length ?own = 2 * num_agents team ?s1" "length (flat_actions ws) = 2 * num_agents (opponent team) ?s1"
    using sz G(3,4) ok(3) by (simp_all add: length_inserted length_flat_actions num_agents_mail)
  obtain jr s2 where H: "helper_step repeated team R interp1d order (?own, flat_actions ws) ?s1 = Inr (jr, s2)"
    "env_ok s2" "told_right s2" "in_stock s2 \<subseteq> in_stock ?s1" "same_rules ?s1 s2" "quiet (mail s2)"
    "jr_obs jr = (observations_of team s2, observations_of (opponent team) s2)"
    "length (fst (jr_infos jr)) = num_agents team s2" "length (snd (jr_infos jr)) = num_agents (opponent team) s2"
    by (rule helper_step_ok [OF R ok1 sz1]) (rule that; assumption)
  have rules: "same_rules ?s s2" by (rule same_rules_trans [OF same_rules_mail H(5)])
  have stock: "in_stock s2 \<subseteq> in_stock ?s" using H(4) by (simp add: told_right_mail)
  note N = same_rules_team [OF rules]
  have in_is: "without ?i [0..<?n] ! j < ?n" if "j < length (without ?i [0..<?n])" for j
    using set_without_upt [of ?i ?n] nth_mem [OF that] by auto
  have "list_all2 (okm s2) (without ?i [0..<?n]) mates'"
    using G(5) in_is mates.persists [OF rules stock] unfolding list_all2_conv_all_nth by metis
  moreover have "list_all2 (okf s2) [0..<?k] foes'"
    using G(6) foes.persists [OF rules stock] by (auto simp: list_all2_conv_all_nth)
  moreover have "observations_of team s2 ! ?i = observation_of team s2 ?i" using ok(3) N(1) by (simp add: observations_of_def)
  ultimately show ?thesis
    using H rules stock N ok(3)
    by (simp add: single_step_def Let_def G(1,2) single_ready_def quiet_def)
qed

lemma single_step_unsized:
  assumes rd: "single_ready team okm goodm okf sa" and sz: "length action \<noteq> 2"
  shows "single_step repeated send Hm Hf team R interp1d order action sa = Inl ValueError"
proof -
  let ?s = "sa_env sa" let ?n = "num_agents team ?s" let ?k = "num_agents (opponent team) ?s" let ?i = "sa_index sa"
  have i: "?i < ?n" using rd by (simp add: single_ready_def Let_def)
  obtain vs mates' mb1 ws foes' mb2 where G:
    "group_step send Hm (sa_mates sa) (without ?i (sa_obs sa)) (map_option (without ?i) (sa_infos sa)) (mail ?s) = Inr (vs, mates', mb1)"
    "group_step send Hf (sa_foes sa) (sa_foe_obs sa) (sa_foe_infos sa) mb1 = Inr (ws, foes', mb2)" "length vs = ?n - 1"
    by (rule groups_play [OF rd])
  have "length (concat (insert_at ?i action (map (\<lambda>v. [fst v, snd v]) vs))) \<noteq> 2 * num_agents team (?s\<lparr>mail := mb2\<rparr>)"
    using sz G(3) i by (simp add: length_inserted num_agents_mail)
  from helper_step_unsized [OF this] show ?thesis by (simp add: single_step_def Let_def G)
qed

lemma single_reset_ok:
  assumes R: "rng_ok R" and w: "single_waiting team freshm freshf sa"
    and run: "reset R seeding interp1d order seed (sa_env sa) = Some res"
  shows "\<exists>obs sa'. single_reset Hm Hf team R seeding interp1d order seed sa = Some (Inr (obs, sa'))
    \<and> single_ready team okm goodm okf sa' \<and> obs = observation_of team (sa_env sa') (sa_index sa')"
proof -
  have su: "env_setup (sa_env sa)" using w by (simp add: single_waiting_def)
  obtain obs s where r: "res = Inr (obs, s)" "env_ok s" "num_targets s = num_targets (sa_env sa)"
    "num_cameras s = num_cameras (sa_env sa)"
    by (rule reset_result [OF R su run]) (rule that; assumption?)
  note RR = reset_reads [OF run [unfolded r(1)]]
  have right: "told_right s" by (rule reset_told_right [OF R su run [unfolded r(1)]])
  have N: "num_agents t s = num_agents t (sa_env sa)" for t using r(3,4) by (cases t) (simp_all add: num_agents_def)
  let ?n = "num_agents team s" let ?k = "num_agents (opponent team) s" let ?shuffled = "shuffle_entities (settings s)"
  obtain fs fo g1 where f: "shuffle_agents R ?shuffled (sa_foe_order sa) (sa_foes sa) (np_random s) = (fs, fo, g1)"
    by (rule prod_cases3)
  obtain i g2 where i: "draw_index R ?shuffled ?n g1 = (i, g2)" by (rule prod.exhaust)
  obtain ms mo g3 where m: "shuffle_agents R ?shuffled (sa_mate_order sa) (sa_mates sa) g2 = (ms, mo, g3)" by (rule prod_cases3)
  have W: "length (sa_mates sa) = ?n - 1" "length (sa_foes sa) = ?k" "length (sa_mate_order sa) = length (sa_mates sa)"
    "length (sa_foe_order sa) = length (sa_foes sa)" "\<forall>b \<in> set (sa_mates sa). freshm b" "\<forall>a \<in> set (sa_foes sa). freshf a" "0 < ?n"
    using w N by (simp_all add: single_waiting_def)
  note F = shuffle_agents_keeps [OF R W(4) f] and M = shuffle_agents_keeps [OF R W(3) m]
  have i_n: "i < ?n" using draw_index_below [OF R W(7), of ?shuffled g1] i by simp
  let ?is = "without i [0..<?n]"
  have in_is: "?is ! j < ?n" if "j < length ?is" for j using set_without_upt [of i ?n] nth_mem [OF that] by auto
  have "list_all2 (\<lambda>j a. \<exists>a'. h_reset Hf (observation_of (opponent team) s j) a = Inr a' \<and> okf s j a') [0..<?k] fs"
    using foes.resets [OF r(2)] F(1,2) W(2,6) by (simp add: list_all2_conv_all_nth) (metis nth_mem)
  from call_each_reset [OF this] obtain fs' where fs': "group_reset Hf fs (observations_of (opponent team) s) = Inr fs'"
    "list_all2 (okf s) [0..<?k] fs'" by (auto simp: observations_of_def)
  have "list_all2 (\<lambda>j a. \<exists>a'. h_reset Hm (observation_of team s j) a = Inr a' \<and> okm s j a') ?is ms"
  proof -
    have len: "length ms = length ?is" using M(2) W(1) i_n by (simp add: length_without)
    have "freshm (ms ! j)" if "j < length ms" for j using nth_mem [OF that] M(1) W(5) by simp
    then show ?thesis using mates.resets [OF r(2)] in_is len by (simp add: list_all2_conv_all_nth)
  qed
  from call_each_reset [OF this] obtain ms' where ms': "group_reset Hm ms (without i (observations_of team s)) = Inr ms'"
    "list_all2 (okm s) ?is ms'" by (auto simp: observations_of_def without_map)
  let ?s = "s\<lparr>np_random := g3\<rparr>"
  have ms'': "list_all2 (okm ?s) ?is ms'"
    using ms'(2) in_is mates.persists [OF random_frame(4)] random_frame(5)
    unfolding list_all2_conv_all_nth by (metis order_refl)
  have fs'': "list_all2 (okf ?s) [0..<?k] fs'"
    using fs'(2) foes.persists [OF random_frame(4)] by (auto simp: list_all2_conv_all_nth random_frame)
  have sw: "swap_pair team obs = (observations_of team s, observations_of (opponent team) s)"
    using RR(1) by (cases team) (simp_all add: swap_pair_def opponent_def)
  have O: "observations_of t ?s = observations_of t s" for t by (simp add: observations_of_def random_frame)
  have at_i: "observations_of team s ! i = observation_of team s i" using i_n by (simp add: observations_of_def)
  show ?thesis
    using run r(1,2) RR(2) right fs' ms' ms'' fs'' i_n at_i
    by (simp add: single_reset_def sw f i m Let_def single_ready_def random_frame O quiet_def)
qed

lemma mail_ready:
  assumes rd: "single_ready team okm goodm okf sa" and mb: "mailbox_ok mb" "team_size mb = team_size (mail (sa_env sa))"
    and q: "message_queues mb (opponent team) = (\<lambda>_. [])" "\<forall>i. \<forall>m \<in> set (message_queues mb team i). goodm (sa_env sa) m"
  shows "single_ready team okm goodm okf (sa\<lparr>sa_env := (sa_env sa)\<lparr>mail := mb\<rparr>\<rparr>)"
proof -
  let ?s = "sa_env sa" let ?is = "without (sa_index sa) [0..<num_agents team ?s]"
  have O: "observations_of t (?s\<lparr>mail := mb\<rparr>) = observations_of t ?s" for t by (rule observations_of_cong) simp_all
  have in_is: "?is ! j < num_agents team ?s" if "j < length ?is" for j
    using set_without_upt [of "sa_index sa" "num_agents team ?s"] nth_mem [OF that] by auto
  have "list_all2 (okm (?s\<lparr>mail := mb\<rparr>)) ?is (sa_mates sa)"
    using rd in_is mates.ok_mail unfolding single_ready_def Let_def list_all2_conv_all_nth by metis
  moreover have "list_all2 (okf (?s\<lparr>mail := mb\<rparr>)) [0..<num_agents (opponent team) ?s] (sa_foes sa)"
    using rd foes.ok_mail by (auto simp: single_ready_def Let_def list_all2_conv_all_nth)
  ultimately show ?thesis
    using rd q env_ok_mail [OF _ mb] by (simp add: single_ready_def Let_def O told_right_mail num_agents_mail mates.good_mail)
qed

lemma single_send_ready:
  assumes rd: "single_ready team okm goodm okf sa" and run: "single_send send team ms sa = Inr sa'"
    and good: "\<forall>m \<in> set ms. goodm (sa_env sa) m" and ch: "open_channel send route passes"
  shows "single_ready team okm goodm okf sa'"
proof -
  let ?s = "sa_env sa" let ?sizes = "\<lambda>t. num_agents t ?s" let ?q = "message_queues (mail ?s) (opponent team)"
  obtain mb where mb: "send (mail ?s) ms = Inr mb" "sa' = sa\<lparr>sa_env := ?s\<lparr>mail := mb\<rparr>\<rparr>"
    using run by (auto simp: single_send_def bind_res_Inr)
  have "talking_team.calm team (num_agents team ?s) (goodm ?s) ?sizes ?q (mail ?s)"
    using rd by (simp add: talking_team.calm_def [OF mates.talks] single_ready_def Let_def env_ok_def)
  from talking_team.send_calm [OF mates.talks this good] mb(1)
  have "talking_team.calm team (num_agents team ?s) (goodm ?s) ?sizes ?q mb" by auto
  then have "mailbox_ok mb" "team_size mb = ?sizes" "message_queues mb (opponent team) = ?q"
    "\<forall>i. \<forall>m \<in> set (message_queues mb team i). goodm ?s m"
    by (simp_all add: talking_team.calm_def [OF mates.talks])
  then show ?thesis
    unfolding mb(2) using rd by (intro mail_ready) (auto simp: single_ready_def Let_def env_ok_def)
qed

lemma single_receive_ready:
  assumes rd: "single_ready team okm goodm okf sa" and run: "single_receive team aid sa = (ms, sa')"
  shows "single_ready team okm goodm okf sa'"
proof -
  obtain t i where "sa' = sa\<lparr>sa_env := (sa_env sa)\<lparr>mail := snd (receive_for (mail (sa_env sa)) t i)\<rparr>\<rparr>"
    using run by (auto simp: single_receive_def Let_def receive_for_def split: prod.splits)
  moreover have "mailbox_ok (mail (sa_env sa))" using rd by (simp add: single_ready_def Let_def env_ok_def)
  ultimately show ?thesis
    using rd mail_ready [OF rd, of "snd (receive_for (mail (sa_env sa)) t i)"]
    by (auto simp: receive_for_def mailbox_ok_def single_ready_def Let_def fun_eq_iff)
qed

end

subsection \<open>The life of a single-agent environment\<close>

text \<open>From a reset that returned on, any calls in any order; what the trained agent says to its teammates is \<open>goodm\<close>.\<close>

inductive single_life ::
  "bool option \<Rightarrow> ('m mailbox \<Rightarrow> 'm message list \<Rightarrow> 'm mailbox res) \<Rightarrow> ('b, 'm) handlers \<Rightarrow> ('a, 'm) handlers \<Rightarrow> team
    \<Rightarrow> 'g rng \<Rightarrow> (int option \<Rightarrow> 'g \<times> int) \<Rightarrow> interp \<Rightarrow> (nat list \<Rightarrow> nat list) \<Rightarrow> (('g, 'm) env \<Rightarrow> 'm message \<Rightarrow> bool)
    \<Rightarrow> ('b \<Rightarrow> bool) \<Rightarrow> ('a \<Rightarrow> bool) \<Rightarrow> ('b, 'a, 'g, 'm) single_agent \<Rightarrow> bool"
  for repeated send Hm Hf team R seeding interp1d order goodm freshm freshf where
  begun: "single_waiting team freshm freshf sa0
    \<Longrightarrow> single_reset Hm Hf team R seeding interp1d order seed sa0 = Some (Inr (obs, sa))
    \<Longrightarrow> single_life repeated send Hm Hf team R seeding interp1d order goodm freshm freshf sa"
| told: "single_life repeated send Hm Hf team R seeding interp1d order goodm freshm freshf sa
    \<Longrightarrow> \<forall>m \<in> set ms. goodm (sa_env sa) m \<Longrightarrow> single_send send team ms sa = Inr sa'
    \<Longrightarrow> single_life repeated send Hm Hf team R seeding interp1d order goodm freshm freshf sa'"
| heard: "single_life repeated send Hm Hf team R seeding interp1d order goodm freshm freshf sa
    \<Longrightarrow> single_receive team aid sa = (ms, sa')
    \<Longrightarrow> single_life repeated send Hm Hf team R seeding interp1d order goodm freshm freshf sa'"
| played: "single_life repeated send Hm Hf team R seeding interp1d order goodm freshm freshf sa
    \<Longrightarrow> single_step repeated send Hm Hf team R interp1d order action sa = Inr (res, sa')
    \<Longrightarrow> single_life repeated send Hm Hf team R seeding interp1d order goodm freshm freshf sa'"

context single_world begin

lemma single_life_ready:
  fixes sa :: "('b, 'a, 'g, 'm) single_agent"
  assumes "single_life repeated send Hm Hf team R seeding interp1d order goodm freshm freshf sa" and "rng_ok R"
    and ch: "open_channel send route passes"
  shows "single_ready team okm goodm okf sa"
  using assms
proof (induction rule: single_life.induct)
  case (begun sa0 seed obs sa)
  obtain res where r: "reset R seeding interp1d order seed (sa_env sa0) = Some res"
    using begun.hyps(2) by (cases "reset R seeding interp1d order seed (sa_env sa0)") (simp_all add: single_reset_def)
  from single_reset_ok [OF begun.prems(1) begun.hyps(1) r] show ?case using begun.hyps(2) by auto
next
  case (told sa ms sa')
  then show ?case using single_send_ready by blast
next
  case (heard sa aid ms sa')
  then show ?case using single_receive_ready by blast
next
  case (played sa action res sa')
  have rd: "single_ready team okm goodm okf sa" using played by blast
  show ?case
  proof (cases "length action = 2")
    case True
    from single_step_ok [OF played.prems(1) rd True, of repeated interp1d order] show ?thesis using played.hyps(2) by auto
  next
    case False
    from single_step_unsized [OF rd False, of repeated R interp1d order] show ?thesis using played.hyps(2) by simp
  qed
qed

lemma single_life_starts:
  fixes sa0 :: "('b, 'a, 'g, 'm) single_agent"
  assumes R: "rng_ok R" "draws_all_senders R" and w: "single_waiting team freshm freshf sa0"
  shows "\<exists>obs sa. single_reset Hm Hf team R seeding interp1d order seed sa0 = Some (Inr (obs, sa))
    \<and> single_life repeated send Hm Hf team R seeding interp1d order goodm freshm freshf sa
    \<and> obs = observation_of team (sa_env sa) (sa_index sa)"
proof -
  have "env_setup (sa_env sa0)" using w by (simp add: single_waiting_def)
  then obtain res where r: "reset R seeding interp1d order seed (sa_env sa0) = Some res"
    using reset_terminates [OF R(1) _ R(2)] by blast
  obtain obs sa where "single_reset Hm Hf team R seeding interp1d order seed sa0 = Some (Inr (obs, sa))"
    "obs = observation_of team (sa_env sa) (sa_index sa)"
    using single_reset_ok [OF R(1) w r] by blast
  then show ?thesis using begun w by blast
qed

lemma single_life_steps:
  fixes sa :: "('b, 'a, 'g, 'm) single_agent"
  assumes life: "single_life repeated send Hm Hf team R seeding interp1d order goodm freshm freshf sa" and R: "rng_ok R"
    and ch: "open_channel send route passes"
  shows "if length action = 2
    then \<exists>res sa'. single_step repeated send Hm Hf team R interp1d order action sa = Inr (res, sa')
      \<and> single_life repeated send Hm Hf team R seeding interp1d order goodm freshm freshf sa'
      \<and> sa_index sa' = sa_index sa \<and> ar_obs res = observation_of team (sa_env sa') (sa_index sa)
    else single_step repeated send Hm Hf team R interp1d order action sa = Inl ValueError"
proof -
  note rd = single_life_ready [OF life R ch]
  show ?thesis
  proof (cases "length action = 2")
    case True
    with single_step_ok [OF R rd True, of repeated interp1d order] played [OF life] show ?thesis by (auto; blast)
  next
    case False
    with single_step_unsized [OF rd False] show ?thesis by simp
  qed
qed

end

end
