(* ===== verification/Dialects.thy ===== *)
theory Dialects
  imports Rivals SingleAgent
begin

text \<open>
  Agents of different kinds in one environment. The content of a message is any Python object; in the model every
  kind of agent has a type of content of its own, so an environment in which two kinds of agents talk carries a
  sum of them. \<open>speak\<close> lets an agent take part: what it sends is tagged, what it hears is untagged. Content of
  another kind would be an error (a \<open>TypeError\<close>); the lemmas show that a team never hears any. The last section
  are the single-agent environments against greedy agents, in which both kinds talk.
\<close>

subsection \<open>Tagged content\<close>

definition map_content :: "('c \<Rightarrow> 'm) \<Rightarrow> 'c message \<Rightarrow> 'm message" where
  "map_content f m = \<lparr>sender = sender m, recipient = recipient m, content = f (content m), msg_team = msg_team m,
     broadcasting = broadcasting m\<rparr>"

definition untag :: "('m \<Rightarrow> 'c option) \<Rightarrow> 'm message \<Rightarrow> 'c message res" where
  "untag prj m = (case prj (content m) of
     None \<Rightarrow> Inl TypeError
   | Some c \<Rightarrow> Inr \<lparr>sender = sender m, recipient = recipient m, content = c, msg_team = msg_team m,
                    broadcasting = broadcasting m\<rparr>)"

definition untag_info :: "('m \<Rightarrow> 'c option) \<Rightarrow> 'm agent_info \<Rightarrow> 'c agent_info" where
  "untag_info prj info =
     \<lparr>raw_reward = raw_reward info, normalized_raw_reward = normalized_raw_reward info,
      messages = [map_content (the \<circ> prj) m. m \<leftarrow> messages info, prj (content m) \<noteq> None],
      out_communication_edges = out_communication_edges info, in_communication_edges = in_communication_edges info,
      info_coverage_rate = info_coverage_rate info, info_real_coverage_rate = info_real_coverage_rate info,
      info_mean_transport_rate = info_mean_transport_rate info, info_num_delivered_cargoes = info_num_delivered_cargoes info\<rparr>"

definition send_tagged :: "('c \<Rightarrow> 'm) \<Rightarrow> ('a \<Rightarrow> ('c message list \<times> 'a) res) \<Rightarrow> 'a \<Rightarrow> ('m message list \<times> 'a) res" where
  "send_tagged wrap f a = bind_res (f a) (\<lambda>(ms, a'). Inr (map (map_content wrap) ms, a'))"

definition hear_tagged :: "('m \<Rightarrow> 'c option) \<Rightarrow> ('c message list \<Rightarrow> 'a \<Rightarrow> 'a res) \<Rightarrow> 'm message list \<Rightarrow> 'a \<Rightarrow> 'a res" where
  "hear_tagged prj f ms a = bind_res (map_res (untag prj) ms) (\<lambda>ms'. f ms' a)"

definition speak :: "('c \<Rightarrow> 'm) \<Rightarrow> ('m \<Rightarrow> 'c option) \<Rightarrow> ('a, 'c) handlers \<Rightarrow> ('a, 'm) handlers" where
  "speak wrap prj H =
     \<lparr>h_id = h_id H, h_reset = h_reset H,
      h_observe = (\<lambda>obs info. h_observe H obs (map_option (untag_info prj) info)),
      h_act = (\<lambda>obs info. h_act H obs (map_option (untag_info prj) info)),
      h_send_requests = send_tagged wrap (h_send_requests H), h_receive_requests = hear_tagged prj (h_receive_requests H),
      h_send_responses = send_tagged wrap (h_send_responses H), h_receive_responses = hear_tagged prj (h_receive_responses H),
      h_seed = h_seed H, h_spawn = h_spawn H\<rparr>"

definition tagged :: "('c \<Rightarrow> 'm) \<Rightarrow> ('c message \<Rightarrow> bool) \<Rightarrow> 'm message \<Rightarrow> bool" where
  "tagged wrap good m \<longleftrightarrow> (\<exists>m0. good m0 \<and> m = map_content wrap m0)"

lemma send_tagged_ok:
  assumes "\<exists>ms a'. f a = Inr (ms, a') \<and> P a' \<and> (\<forall>m \<in> set ms. good m)"
  shows "\<exists>ms a'. send_tagged wrap f a = Inr (ms, a') \<and> P a' \<and> (\<forall>m \<in> set ms. tagged wrap good m)"
  using assms by (fastforce simp: send_tagged_def tagged_def)

lemma untag_tagged:
  assumes "\<And>c. prj (wrap c) = Some c"
  shows "untag prj (map_content wrap m) = Inr m"
  by (simp add: untag_def map_content_def assms)

lemma hear_tagged_ok:
  assumes tag: "\<And>c. prj (wrap c) = Some c" and ms: "\<forall>m \<in> set ms. tagged wrap good m"
    and hears: "\<And>ms. \<forall>m \<in> set ms. good m \<Longrightarrow> \<exists>a'. f ms a = Inr a' \<and> P a'"
  shows "\<exists>a'. hear_tagged prj f ms a = Inr a' \<and> P a'"
proof -
  have "\<exists>ms'. map_res (untag prj) ms = Inr ms' \<and> (\<forall>m \<in> set ms'. good m)"
    using ms by (induction ms) (auto simp: tagged_def untag_tagged [of prj wrap] tag)
  then show ?thesis using hears by (auto simp: hear_tagged_def)
qed

lemma speak_team:
  assumes team: "team_agent H side n ok sees good legal" and tag: "\<And>c. prj (wrap c) = Some c"
  shows "team_agent (speak wrap prj H) side n ok sees (tagged wrap good) legal"
proof
  note T = team_agent.identity [OF team] team_agent.observes [OF team] team_agent.acts [OF team]
  fix i a obs info ms
  assume ok: "ok i a"
  show "h_id (speak wrap prj H) a = (side, i)" using T(1) [OF ok] by (simp add: speak_def)
  show "\<exists>a'. h_observe (speak wrap prj H) obs info a = Inr a' \<and> ok i a'" if "sees i obs"
    using T(2) [OF ok that] by (simp add: speak_def)
  show "\<exists>v a'. h_act (speak wrap prj H) obs info a = Inr (v, a') \<and> legal i v \<and> ok i a'" if "sees i obs"
    using T(3) [OF ok that] by (simp add: speak_def)
  show "\<exists>ms a'. h_send_requests (speak wrap prj H) a = Inr (ms, a') \<and> ok i a' \<and> (\<forall>m \<in> set ms. tagged wrap good m)" if "i < n"
    using send_tagged_ok [of "h_send_requests H" a "ok i" good wrap, OF team_agent.requests [OF team ok that]] by (simp add: speak_def)
  show "\<exists>ms a'. h_send_responses (speak wrap prj H) a = Inr (ms, a') \<and> ok i a' \<and> (\<forall>m \<in> set ms. tagged wrap good m)" if "i < n"
    using send_tagged_ok [of "h_send_responses H" a "ok i" good wrap, OF team_agent.responds [OF team ok that]] by (simp add: speak_def)
  show "\<exists>a'. h_receive_requests (speak wrap prj H) ms a = Inr a' \<and> ok i a'" if "\<forall>m \<in> set ms. tagged wrap good m"
    using hear_tagged_ok [of prj wrap ms good "h_receive_requests H" a "ok i", OF tag that team_agent.hears_requests [OF team ok]] by (simp add: speak_def)
  show "\<exists>a'. h_receive_responses (speak wrap prj H) ms a = Inr a' \<and> ok i a'" if "\<forall>m \<in> set ms. tagged wrap good m"
    using hear_tagged_ok [of prj wrap ms good "h_receive_responses H" a "ok i", OF tag that team_agent.hears_responses [OF team ok]] by (simp add: speak_def)
next
  fix m r
  assume "tagged wrap good m"
  then obtain m0 where m: "good m0" "m = map_content wrap m0" by (auto simp: tagged_def)
  show "msg_team m = side \<and> sender m < n \<and> (\<forall>r. recipient m = Some r \<longrightarrow> r < n)"
    using team_agent.good_inside [OF team m(1)] by (simp add: m(2) map_content_def)
  show "tagged wrap good (m\<lparr>recipient := Some r, broadcasting := True\<rparr>)" if "r < n"
    using team_agent.good_copy [OF team m(1) that] by (auto simp: m(2) map_content_def tagged_def intro!: exI)
qed

subsection \<open>Greedy agents that talk\<close>

datatype talk = CameraTalk camera_content | TargetTalk "nat set option"

fun camera_part :: "talk \<Rightarrow> camera_content option" where
  "camera_part (CameraTalk c) = Some c"
| "camera_part (TargetTalk c) = None"

fun target_part :: "talk \<Rightarrow> nat set option option" where
  "target_part (CameraTalk c) = None"
| "target_part (TargetTalk c) = Some c"

definition talking_cameras where
  "talking_cameras R seeding has_space = speak CameraTalk camera_part (greedy_camera_handlers R seeding has_space)"

definition talking_targets where
  "talking_targets R seeding order has_space = speak TargetTalk target_part (greedy_target_handlers R seeding order has_space)"

definition camera_word :: "('g, talk) env \<Rightarrow> talk message \<Rightarrow> bool" where
  "camera_word s = tagged CameraTalk (camera_talk (num_cameras s) (num_targets s))"

definition target_word :: "('g, talk) env \<Rightarrow> talk message \<Rightarrow> bool" where
  "target_word s = tagged TargetTalk (target_talk (in_stock s) (num_targets s))"

lemma talking_cameras_rival:
  fixes R :: "'h rng" and s :: "('g, talk) env"
  assumes R: "rng_ok R" and ch: "open_channel send route passes"
  shows "mate_team (talking_cameras R seeding has_space) CAMERA
    (camera_rival :: ('g, talk) env \<Rightarrow> nat \<Rightarrow> 'h greedy_camera \<Rightarrow> bool)
    (\<lambda>s i. sized_for CAMERA (num_cameras s) (num_targets s) (num_obstacles s)) camera_word fresh_camera send route passes"
proof (intro mate_team.intro rival_team.intro mate_team_axioms.intro)
  fix s :: "('g, talk) env"
  show "talking_team (talking_cameras R seeding has_space) CAMERA (num_agents CAMERA s) (camera_rival s)
      (\<lambda>i. sized_for CAMERA (num_cameras s) (num_targets s) (num_obstacles s)) (camera_word s) (within_hi (reach CAMERA s))
      send route passes"
    unfolding talking_team_def talking_cameras_def camera_rival_def camera_word_def num_agents_def team.case
    using speak_team [OF greedy_camera_team [OF R], of camera_part CameraTalk] ch by simp
next
  fix s :: "('g, talk) env" and mb m
  show "camera_word (s\<lparr>mail := mb\<rparr>) m = camera_word s m" by (simp add: camera_word_def num_cameras_def num_targets_def)
qed (simp_all add: greedy_camera_resets talking_cameras_def speak_def greedy_camera_handlers_def observation_sized
      camera_rival_persists)

lemma talking_targets_rival:
  fixes R :: "'h rng" and s :: "('g, talk) env"
  assumes R: "rng_ok R" "lists_sets order" and ch: "open_channel send route passes"
  shows "mate_team (talking_targets R seeding order has_space) TARGET
    (target_rival :: ('g, talk) env \<Rightarrow> nat \<Rightarrow> 'h greedy_target \<Rightarrow> bool)
    (\<lambda>s i. shows_stock (in_stock s) (num_cameras s) (num_targets s) (num_obstacles s)) target_word fresh_target send route passes"
proof (intro mate_team.intro rival_team.intro mate_team_axioms.intro)
  fix s :: "('g, talk) env"
  show "talking_team (talking_targets R seeding order has_space) TARGET (num_agents TARGET s) (target_rival s)
      (\<lambda>i. shows_stock (in_stock s) (num_cameras s) (num_targets s) (num_obstacles s)) (target_word s)
      (within_hi (reach TARGET s)) send route passes"
    unfolding talking_team_def talking_targets_def target_rival_def target_word_def num_agents_def team.case
    using speak_team [OF greedy_target_team [OF R], of target_part TargetTalk] ch by simp
next
  fix s s' :: "('g, talk) env" and i a
  assume "same_rules s s'" "in_stock s' \<subseteq> in_stock s" "i < num_agents TARGET s" "target_rival s i a"
  then show "target_rival s' i a" by (rule target_rival_persists)
next
  fix s :: "('g, talk) env" and mb m
  show "target_word (s\<lparr>mail := mb\<rparr>) m = target_word s m" by (simp add: target_word_def told_right_mail num_targets_def)
qed (simp_all add: greedy_target_resets talking_targets_def speak_def greedy_target_handlers_def observation_shows_stock)

lemma talking_world:
  fixes R R' :: "'h rng" and s :: "('g, talk) env"
  assumes R: "rng_ok R" "rng_ok R'" "lists_sets order" and ch: "open_channel send route passes"
  shows "single_world (talking_cameras R seeding has_space) (talking_targets R' seeding' order has_space') CAMERA
    (camera_rival :: ('g, talk) env \<Rightarrow> nat \<Rightarrow> 'h greedy_camera \<Rightarrow> bool)
    (\<lambda>s i. sized_for CAMERA (num_cameras s) (num_targets s) (num_obstacles s)) camera_word fresh_camera
    (target_rival :: ('g, talk) env \<Rightarrow> nat \<Rightarrow> 'h greedy_target \<Rightarrow> bool)
    (\<lambda>s i. shows_stock (in_stock s) (num_cameras s) (num_targets s) (num_obstacles s)) target_word fresh_target
    send route passes"
proof -
  have side: "opponent CAMERA = TARGET" by (simp add: opponent_def)
  show ?thesis
    unfolding single_world_def side
    by (intro conjI talking_cameras_rival [OF R(1) ch] mate_team.axioms(1) [OF talking_targets_rival [OF R(2,3) ch]])
qed

interpretation talkers: single_world "talking_cameras counter_rng demo_seeding (\<lambda>_. True)"
    "talking_targets counter_rng demo_seeding sorted_list_of_set (\<lambda>_. True)" CAMERA camera_rival
    "\<lambda>s i. sized_for CAMERA (num_cameras s) (num_targets s) (num_obstacles s)" camera_word fresh_camera target_rival
    "\<lambda>s i. shows_stock (in_stock s) (num_cameras s) (num_targets s) (num_obstacles s)" target_word fresh_target
    send_messages route_messages "\<lambda>_. True"
  by (rule talking_world [OF counter_rng_ok counter_rng_ok counting.lists open_env.open_channel_axioms])

interpretation talking_mates: mate_team "talking_targets counter_rng demo_seeding sorted_list_of_set (\<lambda>_. True)" TARGET
    target_rival "\<lambda>s i. shows_stock (in_stock s) (num_cameras s) (num_targets s) (num_obstacles s)" target_word fresh_target
    send_messages route_messages "\<lambda>_. True"
  by (rule talking_targets_rival [OF counter_rng_ok counting.lists open_env.open_channel_axioms])

lemma target_spawn_fresh:
  assumes "h_spawn (greedy_target_handlers R seeding order has_space) n ag = (cs, ag')" and "fresh_target ag"
  shows "length cs = n \<and> (\<forall>c \<in> set cs. fresh_target c)"
  using agent_spawn_all [where P = fresh_target, OF _ assms(2), of R seeding "has_space ag" n cs ag'] assms(1)
  by (simp add: greedy_target_handlers_def fresh_target_def)

lemma new_single_agent_waits:
  assumes new: "new_single_agent Hm Hf team mate foe s = Inr sa" and "env_setup s"
    and "\<And>n cs a'. h_spawn Hm n mate = (cs, a') \<Longrightarrow> length cs = n \<and> (\<forall>c \<in> set cs. freshm c)"
    and "\<And>n cs a'. h_spawn Hf n foe = (cs, a') \<Longrightarrow> length cs = n \<and> (\<forall>c \<in> set cs. freshf c)"
  shows "single_waiting team freshm freshf sa"
proof -
  obtain mates mate' where m: "h_spawn Hm (num_agents team s - 1) mate = (mates, mate')" by (rule prod.exhaust)
  obtain foes foe' where f: "h_spawn Hf (num_agents (opponent team) s) foe = (foes, foe')" by (rule prod.exhaust)
  show ?thesis
    using new assms(2) assms(3) [OF m] assms(4) [OF f]
    by (auto simp: new_single_agent_def bind_res_Inr m f single_waiting_def simp del: One_nat_def)
qed

subsection \<open>One camera among greedy cameras, against greedy targets\<close>



end
