(* ===== verification/Mixtures.thy ===== *)
theory Mixtures
  imports Dialects
begin

text \<open>
  \<open>MixtureCameraAgent\<close> and \<open>MixtureTargetAgent\<close> of \<open>agents/mixture.py\<close>: an agent that at every reset draws one of
  its candidates and from then on lets it do everything. A candidate is any agent in the sense of \<open>Teams\<close>; the
  mixture is one again, so it can take part wherever its candidates can. \<open>choice(candidates, p=weights)\<close> is the
  parameter \<open>pick\<close>, which is documented to return one of the indices (\<open>picks_ok\<close>).
\<close>

subsection \<open>The agent\<close>

text \<open>\<open>mx_random\<close> is the generator of the mixture; no current candidate (\<open>None\<close>) before the first reset.\<close>

record ('a, 'm, 'g) mixture = "('m, 'g) rule_agent" +
  mx_candidates :: "'a list"
  mx_weights :: "real list"
  mx_random :: 'g
  mx_current :: "nat option"

text \<open>\<open>seed\<close>: the agent, its action space once it has one, and the candidates; not the mixture.\<close>

definition mix_seed ::
  "'g rng \<Rightarrow> (int option \<Rightarrow> 'g \<times> int) \<Rightarrow> ('a, 'm) handlers \<Rightarrow> int option \<Rightarrow> ('a, 'm, 'g) mixture
    \<Rightarrow> int list \<times> ('a, 'm, 'g) mixture" where
  "mix_seed R seeding H seed mx =
     (let (seeds, m1) = agent_seed R seeding seed (mx_current mx \<noteq> None) mx;
          (more, candidates, g) = seed_agents R H (mx_candidates m1) (ra_random m1)
      in (seeds @ more, m1\<lparr>mx_candidates := candidates, ra_random := g\<rparr>))"

definition seed_mixture :: "(int option \<Rightarrow> 'g \<times> int) \<Rightarrow> int option \<Rightarrow> ('a, 'm, 'g) mixture \<Rightarrow> ('a, 'm, 'g) mixture" where
  "seed_mixture seeding seed mx = mx\<lparr>mx_random := fst (seeding seed)\<rparr>"

text \<open>The constructor after its checks: candidates of positive weight, weights that sum to one, a new base agent.\<close>

definition built_mixture ::
  "'g rng \<Rightarrow> (int option \<Rightarrow> 'g \<times> int) \<Rightarrow> ('a, 'm) handlers \<Rightarrow> team \<Rightarrow> 'a list \<Rightarrow> real list \<Rightarrow> int option \<Rightarrow> int option
    \<Rightarrow> ('a, 'm, 'g) mixture" where
  "built_mixture R seeding H team candidates weights mixture_seed seed =
     (let kept = filter (\<lambda>w. w > 0) weights;
          new = \<lparr>ag_team = team, ag_num_cameras = 0, ag_num_targets = 0, ag_num_obstacles = 0, ag_index = 0,
                 ag_state = [], ag_episode_step = - 1, ag_step_counter = 0, ag_last_observation = None,
                 ag_last_requests = [], ag_last_responses = [],
                 ra_random = fst (seeding None), ra_space_random = fst (seeding None), ra_low = (0, 0), ra_high = (0, 0),
                 mx_candidates = map fst (filter (\<lambda>(c, w). w \<noteq> 0) (zip candidates weights)),
                 mx_weights = map (\<lambda>w. w / sum_list kept) kept, mx_random = fst (seeding None), mx_current = None\<rparr>
      in seed_mixture seeding mixture_seed (snd (mix_seed R seeding H seed new)))"

definition new_mixture ::
  "'g rng \<Rightarrow> (int option \<Rightarrow> 'g \<times> int) \<Rightarrow> ('a, 'm) handlers \<Rightarrow> team \<Rightarrow> 'a list \<Rightarrow> real list option \<Rightarrow> int option \<Rightarrow> int option
    \<Rightarrow> ('a, 'm, 'g) mixture res" where
  "new_mixture R seeding H team candidates weights mixture_seed seed =
     (let ws = (case weights of None \<Rightarrow> replicate (length candidates) 1 | Some ws \<Rightarrow> ws)
      in bind_res (check AssertionError (length candidates = length ws)) (\<lambda>_.
         bind_res (check AssertionError (list_all (\<lambda>w. 0 \<le> w) ws \<and> list_ex (\<lambda>w. w \<noteq> 0) ws)) (\<lambda>_.
           Inr (built_mixture R seeding H team candidates ws mixture_seed seed))))"

text \<open>
  \<open>clone\<close>: clones of the candidates in a new mixture; its checks hold again. The original's generators move on.
  A candidate's \<open>clone()\<close> is \<open>spawn(1)\<close>, as for all agents but mixtures themselves, so mixtures here are not nested.
\<close>

fun clone_all :: "('a, 'm) handlers \<Rightarrow> 'a list \<Rightarrow> 'a list \<times> 'a list" where
  "clone_all H [] = ([], [])"
| "clone_all H (a # as) =
     (let (cs, a') = h_spawn H 1 a; (ds, as') = clone_all H as in (hd cs # ds, a' # as'))"

definition mix_clone ::
  "'g rng \<Rightarrow> (int option \<Rightarrow> 'g \<times> int) \<Rightarrow> ('a, 'm) handlers \<Rightarrow> ('a, 'm, 'g) mixture
    \<Rightarrow> ('a, 'm, 'g) mixture \<times> ('a, 'm, 'g) mixture" where
  "mix_clone R seeding H mx =
     (let (clones, candidates) = clone_all H (mx_candidates mx);
          (k, g1) = randint R (ra_random mx) 0 np_int_max;
          (mk, g2) = randint R g1 0 np_int_max
      in (built_mixture R seeding H (ag_team mx) clones (mx_weights mx) (Some mk) (Some k),
          mx\<lparr>mx_candidates := candidates, ra_random := g2\<rparr>))"

fun mix_clones ::
  "'g rng \<Rightarrow> (int option \<Rightarrow> 'g \<times> int) \<Rightarrow> ('a, 'm) handlers \<Rightarrow> nat \<Rightarrow> ('a, 'm, 'g) mixture
    \<Rightarrow> ('a, 'm, 'g) mixture list \<times> ('a, 'm, 'g) mixture" where
  "mix_clones R seeding H 0 mx = ([], mx)"
| "mix_clones R seeding H (Suc n) mx =
     (let (c, m1) = mix_clone R seeding H mx; (cs, m2) = mix_clones R seeding H n m1 in (c # cs, m2))"

text \<open>\<open>spawn\<close>: all clones get the same seed for the mixture.\<close>

definition mix_spawn ::
  "'g rng \<Rightarrow> (int option \<Rightarrow> 'g \<times> int) \<Rightarrow> ('a, 'm) handlers \<Rightarrow> nat \<Rightarrow> ('a, 'm, 'g) mixture
    \<Rightarrow> ('a, 'm, 'g) mixture list \<times> ('a, 'm, 'g) mixture" where
  "mix_spawn R seeding H n mx =
     (let (cs, m1) = mix_clones R seeding H n mx;
          (k, g) = randint R (ra_random m1) 0 np_int_max
      in (map (seed_mixture seeding (Some k)) cs, m1\<lparr>ra_random := g\<rparr>))"

subsection \<open>Handlers\<close>

definition mix_reset ::
  "'g rng \<Rightarrow> (int option \<Rightarrow> 'g \<times> int) \<Rightarrow> ('g \<Rightarrow> real list \<Rightarrow> nat \<times> 'g) \<Rightarrow> ('a, 'm) handlers \<Rightarrow> real list
    \<Rightarrow> ('a, 'm, 'g) mixture \<Rightarrow> ('a, 'm, 'g) mixture res" where
  "mix_reset R seeding pick H obs mx =
     bind_res (rule_reset R seeding obs mx) (\<lambda>m1.
       case pick (mx_random m1) (mx_weights m1) of
         (k, g) \<Rightarrow> bind_res (h_reset H obs (mx_candidates m1 ! k)) (\<lambda>c.
           Inr (m1\<lparr>mx_random := g, mx_candidates := (mx_candidates m1)[k := c], mx_current := Some k\<rparr>)))"

text \<open>A method of the current candidate; \<open>None\<close> has none.\<close>

definition on_current ::
  "('a \<Rightarrow> ('x \<times> 'a) res) \<Rightarrow> ('a, 'm, 'g) mixture \<Rightarrow> ('x \<times> ('a, 'm, 'g) mixture) res" where
  "on_current f mx =
     (case mx_current mx of
        None \<Rightarrow> Inl AttributeError
      | Some k \<Rightarrow> bind_res (f (mx_candidates mx ! k)) (\<lambda>(x, c).
          Inr (x, mx\<lparr>mx_candidates := (mx_candidates mx)[k := c]\<rparr>)))"

definition on_current_only :: "('a \<Rightarrow> 'a res) \<Rightarrow> ('a, 'm, 'g) mixture \<Rightarrow> ('a, 'm, 'g) mixture res" where
  "on_current_only f mx = bind_res (on_current (\<lambda>a. bind_res (f a) (\<lambda>a'. Inr ((), a'))) mx) (\<lambda>(_, m). Inr m)"

definition mix_observe ::
  "('a, 'm) handlers \<Rightarrow> real list \<Rightarrow> 'm agent_info option \<Rightarrow> ('a, 'm, 'g) mixture \<Rightarrow> ('a, 'm, 'g) mixture res" where
  "mix_observe H obs info mx = bind_res (observe obs mx) (\<lambda>m1. on_current_only (h_observe H obs info) m1)"

definition mix_act ::
  "('a, 'm) handlers \<Rightarrow> real list \<Rightarrow> 'm agent_info option \<Rightarrow> ('a, 'm, 'g) mixture \<Rightarrow> (vec \<times> ('a, 'm, 'g) mixture) res" where
  "mix_act H obs info mx = bind_res (check_inputs obs mx) (\<lambda>m1. on_current (h_act H obs info) m1)"

definition mixture_handlers ::
  "'g rng \<Rightarrow> (int option \<Rightarrow> 'g \<times> int) \<Rightarrow> ('g \<Rightarrow> real list \<Rightarrow> nat \<times> 'g) \<Rightarrow> ('a, 'm) handlers
    \<Rightarrow> (('a, 'm, 'g) mixture, 'm) handlers" where
  "mixture_handlers R seeding pick H =
     \<lparr>h_id = (\<lambda>mx. (ag_team mx, ag_index mx)),
      h_reset = mix_reset R seeding pick H,
      h_observe = mix_observe H,
      h_act = mix_act H,
      h_send_requests = on_current (h_send_requests H),
      h_receive_requests = (\<lambda>ms mx. on_current_only (h_receive_requests H ms) (receive_requests ms mx)),
      h_send_responses = on_current (h_send_responses H),
      h_receive_responses = (\<lambda>ms mx. on_current_only (h_receive_responses H ms) (receive_responses ms mx)),
      h_seed = mix_seed R seeding H,
      h_spawn = mix_spawn R seeding H\<rparr>"

subsection \<open>A mixture takes part where its candidates can\<close>

definition picks_ok :: "('g \<Rightarrow> real list \<Rightarrow> nat \<times> 'g) \<Rightarrow> bool" where
  "picks_ok pick \<longleftrightarrow> (\<forall>g ws. ws \<noteq> [] \<longrightarrow> fst (pick g ws) < length ws)"

definition mixture_player ::
  "team \<Rightarrow> nat \<Rightarrow> nat \<Rightarrow> nat \<Rightarrow> (nat \<Rightarrow> 'a \<Rightarrow> bool) \<Rightarrow> nat \<Rightarrow> ('a, 'm, 'g) mixture \<Rightarrow> bool" where
  "mixture_player side nc nt no ok i mx \<longleftrightarrow>
     fst (rule_static mx) = (side, i, nc, nt, no)
   \<and> (\<exists>k < length (mx_candidates mx). mx_current mx = Some k \<and> ok i (mx_candidates mx ! k))"

lemma on_current_ok:
  assumes mx: "mixture_player side nc nt no ok i mx"
    and f: "\<And>a. ok i a \<Longrightarrow> \<exists>x a'. f a = Inr (x, a') \<and> P x \<and> ok i a'"
  shows "\<exists>x mx'. on_current f mx = Inr (x, mx') \<and> P x \<and> mixture_player side nc nt no ok i mx'"
proof -
  obtain k where k: "k < length (mx_candidates mx)" "mx_current mx = Some k" "ok i (mx_candidates mx ! k)"
    using mx by (auto simp: mixture_player_def)
  obtain x a' where "f (mx_candidates mx ! k) = Inr (x, a')" "P x" "ok i a'" using f [OF k(3)] by blast
  then show ?thesis using mx k by (simp add: on_current_def mixture_player_def rule_static_def)
qed

lemma on_current_only_ok:
  assumes mx: "mixture_player side nc nt no ok i mx" and f: "\<And>a. ok i a \<Longrightarrow> \<exists>a'. f a = Inr a' \<and> ok i a'"
  shows "\<exists>mx'. on_current_only f mx = Inr mx' \<and> mixture_player side nc nt no ok i mx'"
proof -
  have "\<exists>x a'. bind_res (f a) (\<lambda>a'. Inr ((), a')) = Inr (x, a') \<and> True \<and> ok i a'" if "ok i a" for a
    using f [OF that] by auto
  from on_current_ok [where P = "\<lambda>_. True" and f = "\<lambda>a. bind_res (f a) (\<lambda>a'. Inr ((), a'))" and ok = ok, OF mx this]
  show ?thesis by (auto simp: on_current_only_def)
qed

lemma mixture_player_same:
  assumes "mixture_player side nc nt no ok i mx" and "fst (rule_static mx') = fst (rule_static mx)"
    and "mx_candidates mx' = mx_candidates mx" and "mx_current mx' = mx_current mx"
  shows "mixture_player side nc nt no ok i mx'"
  using assms by (simp add: mixture_player_def)

lemma mixture_fits: "mixture_player side nc nt no ok i mx \<Longrightarrow> sized_for side nc nt no obs \<Longrightarrow> fits mx obs"
  using static_fits_sized [of mx side i nc nt no "snd (rule_static mx)"] by (simp add: mixture_player_def prod_eq_iff)

lemma mixture_team:
  fixes R :: "'g rng" and H :: "('a, 'm) handlers"
  assumes team: "team_agent H side n ok sees good legal" and sized: "\<And>i obs. sees i obs \<Longrightarrow> sized_for side nc nt no obs"
  shows "team_agent (mixture_handlers R seeding pick H) side n (mixture_player side nc nt no ok) sees good legal"
proof
  fix i obs info ms and mx :: "('a, 'm, 'g) mixture"
  assume mx: "mixture_player side nc nt no ok i mx"
  show "h_id (mixture_handlers R seeding pick H) mx = (side, i)"
    using mx by (simp add: mixture_handlers_def mixture_player_def rule_static_def)
  show "\<exists>mx'. h_observe (mixture_handlers R seeding pick H) obs info mx = Inr mx' \<and> mixture_player side nc nt no ok i mx'"
    if "sees i obs"
  proof -
    have fit: "fits mx obs" by (rule mixture_fits [OF mx sized [OF that]])
    have "mixture_player side nc nt no ok i ((inputs_read obs mx)\<lparr>ag_last_observation := Some obs\<rparr>)"
      by (rule mixture_player_same [OF mx]) (simp_all add: rule_static_def inputs_read_def)
    from on_current_only_ok [OF this team_agent.observes [OF team _ that]] show ?thesis
      by (simp add: mixture_handlers_def mix_observe_def observe_def check_inputs_eq fit)
  qed
  show "\<exists>v mx'. h_act (mixture_handlers R seeding pick H) obs info mx = Inr (v, mx') \<and> legal i v
      \<and> mixture_player side nc nt no ok i mx'" if "sees i obs"
  proof -
    have fit: "fits mx obs" by (rule mixture_fits [OF mx sized [OF that]])
    have "mixture_player side nc nt no ok i (inputs_read obs mx)"
      by (rule mixture_player_same [OF mx]) (simp_all add: rule_static_def inputs_read_def)
    from on_current_ok [where P = "legal i", OF this team_agent.acts [OF team _ that]] show ?thesis
      by (simp add: mixture_handlers_def mix_act_def check_inputs_eq fit)
  qed
  show "\<exists>ms mx'. h_send_requests (mixture_handlers R seeding pick H) mx = Inr (ms, mx')
      \<and> mixture_player side nc nt no ok i mx' \<and> (\<forall>m \<in> set ms. good m)" if "i < n"
    using on_current_ok [where P = "\<lambda>ms. \<forall>m \<in> set ms. good m" and f = "h_send_requests H", OF mx]
      team_agent.requests [OF team _ that] by (simp add: mixture_handlers_def) blast
  show "\<exists>ms mx'. h_send_responses (mixture_handlers R seeding pick H) mx = Inr (ms, mx')
      \<and> mixture_player side nc nt no ok i mx' \<and> (\<forall>m \<in> set ms. good m)" if "i < n"
    using on_current_ok [where P = "\<lambda>ms. \<forall>m \<in> set ms. good m" and f = "h_send_responses H", OF mx]
      team_agent.responds [OF team _ that] by (simp add: mixture_handlers_def) blast
  show "\<exists>mx'. h_receive_requests (mixture_handlers R seeding pick H) ms mx = Inr mx' \<and> mixture_player side nc nt no ok i mx'"
    if "\<forall>m \<in> set ms. good m"
  proof -
    have "mixture_player side nc nt no ok i (receive_requests ms mx)"
      by (rule mixture_player_same [OF mx]) (simp_all add: rule_static_def receive_requests_def)
    from on_current_only_ok [OF this team_agent.hears_requests [OF team _ that]] show ?thesis by (simp add: mixture_handlers_def)
  qed
  show "\<exists>mx'. h_receive_responses (mixture_handlers R seeding pick H) ms mx = Inr mx' \<and> mixture_player side nc nt no ok i mx'"
    if "\<forall>m \<in> set ms. good m"
  proof -
    have "mixture_player side nc nt no ok i (receive_responses ms mx)"
      by (rule mixture_player_same [OF mx]) (simp_all add: rule_static_def receive_responses_def)
    from on_current_only_ok [OF this team_agent.hears_responses [OF team _ that]] show ?thesis by (simp add: mixture_handlers_def)
  qed
qed (use team_agent.good_inside [OF team] team_agent.good_copy [OF team] in blast)+

subsection \<open>Spawned mixtures choose the same candidate\<close>

text \<open>What one mixture goes through after it was made: \<open>k\<close> counts its resets.\<close>

inductive mixture_run ::
  "'g rng \<Rightarrow> (int option \<Rightarrow> 'g \<times> int) \<Rightarrow> ('g \<Rightarrow> real list \<Rightarrow> nat \<times> 'g) \<Rightarrow> ('a, 'm) handlers
    \<Rightarrow> ('a, 'm, 'g) mixture \<Rightarrow> nat \<Rightarrow> ('a, 'm, 'g) mixture \<Rightarrow> bool"
  for R seeding pick H new where
  run_new: "mixture_run R seeding pick H new 0 new"
| run_reset: "mixture_run R seeding pick H new k mx \<Longrightarrow> h_reset (mixture_handlers R seeding pick H) obs mx = Inr mx'
    \<Longrightarrow> mixture_run R seeding pick H new (Suc k) mx'"
| run_observe: "mixture_run R seeding pick H new k mx \<Longrightarrow> h_observe (mixture_handlers R seeding pick H) obs info mx = Inr mx'
    \<Longrightarrow> mixture_run R seeding pick H new k mx'"
| run_act: "mixture_run R seeding pick H new k mx \<Longrightarrow> h_act (mixture_handlers R seeding pick H) obs info mx = Inr (v, mx')
    \<Longrightarrow> mixture_run R seeding pick H new k mx'"
| run_send_requests: "mixture_run R seeding pick H new k mx
    \<Longrightarrow> h_send_requests (mixture_handlers R seeding pick H) mx = Inr (ms, mx') \<Longrightarrow> mixture_run R seeding pick H new k mx'"
| run_receive_requests: "mixture_run R seeding pick H new k mx
    \<Longrightarrow> h_receive_requests (mixture_handlers R seeding pick H) ms mx = Inr mx' \<Longrightarrow> mixture_run R seeding pick H new k mx'"
| run_send_responses: "mixture_run R seeding pick H new k mx
    \<Longrightarrow> h_send_responses (mixture_handlers R seeding pick H) mx = Inr (ms, mx') \<Longrightarrow> mixture_run R seeding pick H new k mx'"
| run_receive_responses: "mixture_run R seeding pick H new k mx
    \<Longrightarrow> h_receive_responses (mixture_handlers R seeding pick H) ms mx = Inr mx' \<Longrightarrow> mixture_run R seeding pick H new k mx'"
| run_seed: "mixture_run R seeding pick H new k mx \<Longrightarrow> h_seed (mixture_handlers R seeding pick H) seed mx = (seeds, mx')
    \<Longrightarrow> mixture_run R seeding pick H new k mx'"

text \<open>What the choices depend on, and the choice of the \<open>k\<close>-th reset with the generator after it.\<close>

definition mix_core :: "('a, 'm, 'g) mixture \<Rightarrow> nat \<times> real list \<times> 'g \<times> nat option" where
  "mix_core mx = (length (mx_candidates mx), mx_weights mx, mx_random mx, mx_current mx)"

primrec choices :: "('g \<Rightarrow> real list \<Rightarrow> nat \<times> 'g) \<Rightarrow> real list \<Rightarrow> 'g \<Rightarrow> nat \<Rightarrow> nat option \<times> 'g" where
  "choices pick ws g 0 = (None, g)"
| "choices pick ws g (Suc k) = (case pick (snd (choices pick ws g k)) ws of (i, g') \<Rightarrow> (Some i, g'))"

lemma on_current_core: "on_current f mx = Inr (x, mx') \<Longrightarrow> mix_core mx' = mix_core mx"
  by (auto simp: on_current_def mix_core_def bind_res_Inr split: option.splits prod.splits)

lemma on_current_only_core: "on_current_only f mx = Inr mx' \<Longrightarrow> mix_core mx' = mix_core mx"
  by (auto simp: on_current_only_def bind_res_Inr dest!: on_current_core split: prod.splits)

lemma base_core:
  "check_inputs obs mx = Inr mx' \<Longrightarrow> mix_core mx' = mix_core mx"
  "observe obs mx = Inr mx' \<Longrightarrow> mix_core mx' = mix_core mx"
  "rule_reset R seeding obs mx = Inr mx' \<Longrightarrow> mix_core mx' = mix_core mx"
  "agent_seed R seeding seed sp mx = (seeds, mx') \<Longrightarrow> mix_core mx' = mix_core mx"
  "mix_core (receive_requests ms mx) = mix_core mx" "mix_core (receive_responses ms mx) = mix_core mx"
  by (auto simp: mix_core_def check_inputs_eq inputs_read_def observe_def rule_reset_def agent_reset_def agent_seed_def
      receive_requests_def receive_responses_def bind_res_Inr Let_def split: if_splits prod.splits)

lemma seed_agents_length: "seed_agents R H as g = (ks, as', g') \<Longrightarrow> length as' = length as"
  by (induction "as" arbitrary: g ks as' g') (auto split: prod.splits)

lemma mix_seed_core: "mix_seed R seeding H seed mx = (seeds, mx') \<Longrightarrow> mix_core mx' = mix_core mx"
  by (auto simp: mix_seed_def mix_core_def split: prod.splits dest!: base_core(4) seed_agents_length)

lemma mix_reset_core:
  assumes "mix_reset R seeding pick H obs mx = Inr mx'"
  shows "mix_core mx' = (case pick (mx_random mx) (mx_weights mx) of (k, g) \<Rightarrow>
      (length (mx_candidates mx), mx_weights mx, g, Some k))"
proof -
  obtain m1 where m1: "rule_reset R seeding obs mx = Inr m1"
    and rest: "(case pick (mx_random m1) (mx_weights m1) of (k, g) \<Rightarrow>
      bind_res (h_reset H obs (mx_candidates m1 ! k)) (\<lambda>c.
        Inr (m1\<lparr>mx_random := g, mx_candidates := (mx_candidates m1)[k := c], mx_current := Some k\<rparr>))) = Inr mx'"
    using assms by (auto simp: mix_reset_def bind_res_Inr)
  then show ?thesis using base_core(3) [OF m1] by (auto simp: mix_core_def bind_res_Inr split: prod.splits)
qed

lemma mixture_run_core:
  assumes "mixture_run R seeding pick H new k mx" and new: "mix_core new = (n, ws, g, None)"
  shows "mix_core mx = (n, ws, snd (choices pick ws g k), fst (choices pick ws g k))"
  using assms(1)
proof (induction rule: mixture_run.induct)
  case (run_reset k mx obs mx')
  then show ?case
    by (auto simp: mixture_handlers_def mix_core_def dest!: mix_reset_core split: prod.splits)
next
  case (run_observe k mx obs info mx')
  then show ?case
    by (auto simp: mixture_handlers_def mix_observe_def bind_res_Inr dest!: on_current_only_core base_core(2))
next
  case (run_act k mx obs info v mx')
  then show ?case by (auto simp: mixture_handlers_def mix_act_def bind_res_Inr dest!: on_current_core base_core(1))
next
  case (run_seed k mx seed seeds mx')
  then show ?case by (simp add: mixture_handlers_def mix_seed_core)
qed (simp_all add: mixture_handlers_def new, (auto simp: base_core dest!: on_current_core on_current_only_core)[4])

lemma clone_all_length: "clone_all H as = (cs, as') \<Longrightarrow> length cs = length as \<and> length as' = length as"
  by (induction "as" arbitrary: cs as') (auto split: prod.splits)

text \<open>A constructed mixture has as many candidates as weights, all of them positive; clones keep both.\<close>

definition mixture_made :: "('a, 'm, 'g) mixture \<Rightarrow> bool" where
  "mixture_made mx \<longleftrightarrow> mx_weights mx \<noteq> [] \<and> (\<forall>w \<in> set (mx_weights mx). 0 < w)
    \<and> length (mx_candidates mx) = length (mx_weights mx)"

lemma kept_alike:
  "length cs = length ws \<Longrightarrow> \<forall>w \<in> set ws. (0 :: real) \<le> w
    \<Longrightarrow> length (filter (\<lambda>(c, w). w \<noteq> 0) (zip cs ws)) = length (filter (\<lambda>w. w > 0) ws)"
  by (induction cs ws rule: list_induct2) auto

lemma built_mixture_core:
  assumes "length cs = length ws" and "\<forall>w \<in> set ws. 0 \<le> w"
  shows "mix_core (built_mixture R seeding H team cs ws mk k) =
    (length (filter (\<lambda>w. w > 0) ws), map (\<lambda>w. w / sum_list (filter (\<lambda>w. w > 0) ws)) (filter (\<lambda>w. w > 0) ws),
     fst (seeding mk), None)"
proof -
  have seeded: "mix_core (seed_mixture seeding mk (snd (mix_seed R seeding H k new)))
      = (fst (mix_core new), fst (snd (mix_core new)), fst (seeding mk), snd (snd (snd (mix_core new))))" for new
    using mix_seed_core [of R seeding H k new] by (cases "mix_seed R seeding H k new") (simp add: seed_mixture_def mix_core_def)
  show ?thesis by (simp add: built_mixture_def Let_def seeded) (simp add: mix_core_def kept_alike [OF assms])
qed

lemma new_mixture_made:
  assumes "new_mixture R seeding H team candidates weights mk k = Inr mx"
  shows "mixture_made mx"
proof -
  define ws where "ws = (case weights of None \<Rightarrow> replicate (length candidates) 1 | Some ws \<Rightarrow> ws)"
  have ok: "length candidates = length ws" "\<forall>w \<in> set ws. 0 \<le> w" "\<exists>w \<in> set ws. w \<noteq> 0"
    "mx = built_mixture R seeding H team candidates ws mk k"
    using assms unfolding new_mixture_def Let_def ws_def [symmetric] by (auto simp: bind_res_Inr list_all_iff list_ex_iff)
  obtain w where w: "w \<in> set ws" "0 < w" using ok(2,3) by force
  have "0 < sum_list (filter (\<lambda>w. w > 0) ws)"
    using w by (intro less_le_trans [OF w(2) member_le_sum_list]) auto
  moreover have "filter (\<lambda>w. w > 0) ws \<noteq> []" using w by (auto simp: filter_empty_conv)
  ultimately show ?thesis
    using built_mixture_core [OF ok(1,2), of R seeding H team mk k]
    by (simp add: mixture_made_def ok(4) mix_core_def)
qed

lemma mixture_run_made: "mixture_run R seeding pick H new k mx \<Longrightarrow> mixture_made new \<Longrightarrow> mixture_made mx"
proof (induction rule: mixture_run.induct)
  case (run_reset k mx obs mx')
  then show ?case
    by (auto simp: mixture_handlers_def mixture_made_def mix_core_def dest!: mix_reset_core split: prod.splits)
next
  case (run_observe k mx obs info mx')
  then show ?case
    by (auto simp: mixture_handlers_def mix_observe_def mixture_made_def mix_core_def bind_res_Inr
        dest!: on_current_only_core base_core(2))
next
  case (run_act k mx obs info v mx')
  then show ?case
    by (auto simp: mixture_handlers_def mix_act_def mixture_made_def mix_core_def bind_res_Inr
        dest!: on_current_core base_core(1))
next
  case (run_seed k mx seed seeds mx')
  then show ?case by (auto simp: mixture_handlers_def mixture_made_def mix_core_def dest!: mix_seed_core)
qed (auto simp: mixture_handlers_def mixture_made_def mix_core_def base_core [unfolded mix_core_def]
    dest!: on_current_core on_current_only_core)

lemma mix_clones_core:
  assumes "mix_clones R seeding H n mx = (cs, mx')" and "mixture_made mx" and "c \<in> set cs"
  shows "\<exists>g. mix_core c = (length (mx_weights mx), map (\<lambda>w. w / sum_list (mx_weights mx)) (mx_weights mx), g, None)"
  using assms
proof (induction n arbitrary: mx cs mx')
  case (Suc n)
  obtain d m1 where d: "mix_clone R seeding H mx = (d, m1)" by (cases "mix_clone R seeding H mx") simp
  obtain ds m2 where ds: "mix_clones R seeding H n m1 = (ds, m2)" by (cases "mix_clones R seeding H n m1") simp
  have made: "length (mx_candidates mx) = length (mx_weights mx)" "\<forall>w \<in> set (mx_weights mx). 0 \<le> w"
    "filter (\<lambda>w. w > 0) (mx_weights mx) = mx_weights mx"
    using Suc.prems(2) by (auto simp: mixture_made_def less_imp_le)
  have m1: "mx_weights m1 = mx_weights mx" "mixture_made m1"
    and here: "\<exists>g. mix_core d = (length (mx_weights mx), map (\<lambda>w. w / sum_list (mx_weights mx)) (mx_weights mx), g, None)"
    using d Suc.prems(2) made
    by (auto simp: mix_clone_def mixture_made_def built_mixture_core [OF _ made(2), unfolded made(3)]
        split: prod.splits dest!: clone_all_length)
  show ?case using Suc.prems(1,3) Suc.IH [OF ds m1(2)] here d ds by (auto simp: m1(1))
qed simp

lemma mix_spawn_core:
  assumes "mix_spawn R seeding H n mx = (cs, mx')" and "mixture_made mx"
  shows "\<exists>g. \<forall>c \<in> set cs.
    mix_core c = (length (mx_weights mx), map (\<lambda>w. w / sum_list (mx_weights mx)) (mx_weights mx), g, None)"
proof -
  obtain ds m1 where ds: "mix_clones R seeding H n mx = (ds, m1)" by (cases "mix_clones R seeding H n mx") simp
  obtain k g where k: "randint R (ra_random m1) 0 np_int_max = (k, g)" by force
  have "mix_core (seed_mixture seeding (Some k) d)
      = (length (mx_weights mx), map (\<lambda>w. w / sum_list (mx_weights mx)) (mx_weights mx), fst (seeding (Some k)), None)"
    if "d \<in> set ds" for d
    using mix_clones_core [OF ds assms(2) that] by (auto simp: seed_mixture_def mix_core_def)
  then show ?thesis using assms(1) by (auto simp: mix_spawn_def ds k)
qed

subsection \<open>Mixtures of rivals are rivals\<close>

text \<open>A mixture that was constructed of agents ready for their first reset is ready for its own.\<close>

definition fresh_mixture :: "team \<Rightarrow> ('a \<Rightarrow> bool) \<Rightarrow> ('a, 'm, 'g) mixture \<Rightarrow> bool" where
  "fresh_mixture side fresh mx \<longleftrightarrow> mixture_made mx \<and> ag_team mx = side \<and> (\<forall>a \<in> set (mx_candidates mx). fresh a)"

definition mixture_rival ::
  "team \<Rightarrow> (('g, 'c) env \<Rightarrow> nat \<Rightarrow> 'a \<Rightarrow> bool) \<Rightarrow> ('g, 'c) env \<Rightarrow> nat \<Rightarrow> ('a, 'm, 'h) mixture \<Rightarrow> bool" where
  "mixture_rival side ok s = mixture_player side (num_cameras s) (num_targets s) (num_obstacles s) (ok s)"

lemma mixture_resets:
  assumes "picks_ok pick" and s: "env_ok s" "i < num_agents side s" and fresh: "fresh_mixture side fresh mx"
    and resets: "\<And>a. fresh a \<Longrightarrow> \<exists>a'. h_reset H (observation_of side s i) a = Inr a' \<and> ok s i a'"
  shows "\<exists>mx'. mix_reset R seeding pick H (observation_of side s i) mx = Inr mx' \<and> mixture_rival side ok s i mx'"
proof -
  have mx: "mixture_made mx" "ag_team mx = side" "\<forall>a \<in> set (mx_candidates mx). fresh a"
    using fresh by (simp_all add: fresh_mixture_def)
  obtain m1 where m1: "rule_reset R seeding (observation_of side s i) mx = Inr m1"
    "fst (rule_static m1) = (side, i, num_cameras s, num_targets s, num_obstacles s)"
    using rule_reset_static [OF s mx(2), of R seeding] by auto
  have cands: "mx_candidates m1 = mx_candidates mx"
    using m1(1) by (auto simp: rule_reset_def agent_reset_def bind_res_Inr Let_def split: if_splits prod.splits)
  obtain k g where k: "pick (mx_random m1) (mx_weights m1) = (k, g)" by force
  have "k < length (mx_candidates mx)"
    using assms(1) [unfolded picks_ok_def, rule_format, of "mx_weights m1" "mx_random m1"] mx(1) base_core(3) [OF m1(1)] k
    by (simp add: mixture_made_def mix_core_def)
  moreover from this obtain a' where "h_reset H (observation_of side s i) (mx_candidates mx ! k) = Inr a'" "ok s i a'"
    using resets mx(3) nth_mem by blast
  ultimately show ?thesis
    using m1 by (simp add: mix_reset_def k cands mixture_rival_def mixture_player_def rule_static_def)
qed

lemma mixture_rivals:
  fixes R :: "'h rng" and ok :: "('g, 'm) env \<Rightarrow> nat \<Rightarrow> 'a \<Rightarrow> bool"
  assumes picks: "picks_ok pick" and team: "rival_team H side ok sees good fresh send route passes"
    and sized: "\<And>s i obs. sees s i obs \<Longrightarrow> sized_for side (num_cameras s) (num_targets s) (num_obstacles s) obs"
  shows "rival_team (mixture_handlers R seeding pick H) side (mixture_rival side ok) sees good (fresh_mixture side fresh)
    send route passes"
proof (rule rival_team.intro)
  fix s :: "('g, 'm) env"
  have t: "team_agent H side (num_agents side s) (ok s) (sees s) (good s) (within_hi (reach side s))"
    and c: "open_channel send route passes"
    using rival_team.talks [OF team, of s] by (simp_all add: talking_team_def)
  show "talking_team (mixture_handlers R seeding pick H) side (num_agents side s) (mixture_rival side ok s) (sees s) (good s)
      (within_hi (reach side s)) send route passes"
    unfolding mixture_rival_def by (rule talking_team.intro [OF mixture_team [OF t sized] c])
next
  fix s :: "('g, 'm) env" and i and mx :: "('a, 'm, 'h) mixture"
  show "\<exists>mx'. h_reset (mixture_handlers R seeding pick H) (observation_of side s i) mx = Inr mx' \<and> mixture_rival side ok s i mx'"
    if "env_ok s" "i < num_agents side s" "fresh_mixture side fresh mx"
    using mixture_resets [OF picks that, of H ok] rival_team.resets [OF team that(1,2)] by (simp add: mixture_handlers_def)
  show "mixture_rival side ok s' i mx" if "same_rules s s'" "in_stock s' \<subseteq> in_stock s" "i < num_agents side s"
    "mixture_rival side ok s i mx" for s'
    using that rival_team.persists [OF team that(1-3)]
    by (auto simp: mixture_rival_def mixture_player_def same_rules_def)
qed (rule rival_team.looks [OF team]; assumption)

text \<open>What cloning and seeding keep of an agent that is ready for its first reset.\<close>

locale breeding =
  fixes H :: "('a, 'm) handlers" and fresh :: "'a \<Rightarrow> bool"
  assumes clones: "fresh a \<Longrightarrow> h_spawn H 1 a = (cs, a') \<Longrightarrow> fresh (hd cs) \<and> fresh a'"
    and seeded: "fresh a \<Longrightarrow> h_seed H k a = (ks, a') \<Longrightarrow> fresh a'"
begin

lemma clone_all_fresh: "clone_all H as = (cs, as') \<Longrightarrow> \<forall>a \<in> set as. fresh a \<Longrightarrow> (\<forall>c \<in> set cs. fresh c) \<and> (\<forall>a \<in> set as'. fresh a)"
  by (induction "as" arbitrary: cs as') (auto split: prod.splits dest: clones [unfolded One_nat_def])

lemma seed_agents_fresh: "seed_agents R H as g = (ks, as', g') \<Longrightarrow> \<forall>a \<in> set as. fresh a \<Longrightarrow> \<forall>a \<in> set as'. fresh a"
  by (induction "as" arbitrary: g ks as' g') (auto split: prod.splits dest: seeded)

lemma built_fresh:
  fixes R :: "'g rng"
  assumes "\<forall>a \<in> set cs. fresh a"
  shows "\<forall>a \<in> set (mx_candidates (built_mixture R seeding H side cs ws mk k)). fresh a"
proof -
  have "\<forall>a \<in> set (mx_candidates (snd (mix_seed R seeding H k mx))). fresh a" if "\<forall>a \<in> set (mx_candidates mx). fresh a"
    for mx :: "('a, 'm, 'g) mixture"
    using that seed_agents_fresh [of R "mx_candidates mx"]
    by (auto simp: mix_seed_def agent_seed_def Let_def split: prod.splits)
  from this have keep: "fresh a"
    if "\<forall>a \<in> set (mx_candidates mx). fresh a" "a \<in> set (mx_candidates (snd (mix_seed R seeding H k mx)))"
    for a and mx :: "('a, 'm, 'g) mixture" using that by blast
  have "\<forall>a \<in> set (map fst (filter (\<lambda>(c, w). w \<noteq> 0) (zip cs ws))). fresh a"
    using assms by (auto dest: set_zip_leftD)
  then show ?thesis unfolding built_mixture_def Let_def seed_mixture_def by (auto elim!: keep [rotated]) blast
qed

lemma mix_clones_fresh:
  assumes "mix_clones R seeding H n mx = (cs, mx')" and "\<forall>a \<in> set (mx_candidates mx). fresh a"
  shows "length cs = n \<and> (\<forall>c \<in> set cs. ag_team c = ag_team mx \<and> (\<forall>a \<in> set (mx_candidates c). fresh a))"
  using assms
proof (induction n arbitrary: mx cs mx')
  case (Suc n)
  obtain d m1 where d: "mix_clone R seeding H mx = (d, m1)" by (cases "mix_clone R seeding H mx") simp
  obtain ds m2 where ds: "mix_clones R seeding H n m1 = (ds, m2)" by (cases "mix_clones R seeding H n m1") simp
  have "ag_team (built_mixture R seeding H side xs ws mk k) = side" for side xs ws mk k
    by (simp add: built_mixture_def Let_def seed_mixture_def mix_seed_def agent_seed_def split: prod.split)
  moreover obtain xs as' where xs: "clone_all H (mx_candidates mx) = (xs, as')" by force
  ultimately have "ag_team d = ag_team mx" "ag_team m1 = ag_team mx" "\<forall>a \<in> set (mx_candidates d). fresh a"
    "\<forall>a \<in> set (mx_candidates m1). fresh a"
    using d clone_all_fresh [OF xs Suc.prems(2)] built_fresh [of xs R seeding] by (auto simp: mix_clone_def split: prod.splits)
  then show ?case using Suc.IH [OF ds] Suc.prems(1) by (auto simp: d ds)
qed simp

lemma mix_spawn_fresh:
  assumes "mix_spawn R seeding H n mx = (cs, mx')" and "fresh_mixture side fresh mx"
  shows "length cs = n \<and> (\<forall>c \<in> set cs. fresh_mixture side fresh c)"
proof -
  have mx: "mixture_made mx" "ag_team mx = side" "\<forall>a \<in> set (mx_candidates mx). fresh a"
    using assms(2) by (simp_all add: fresh_mixture_def)
  obtain ds m1 where ds: "mix_clones R seeding H n mx = (ds, m1)" by (cases "mix_clones R seeding H n mx") simp
  obtain g where g: "\<forall>c \<in> set cs.
      mix_core c = (length (mx_weights mx), map (\<lambda>w. w / sum_list (mx_weights mx)) (mx_weights mx), g, None)"
    using mix_spawn_core [OF assms(1) mx(1)] by blast
  have "0 < sum_list (mx_weights mx)"
    using mx(1) by (cases "mx_weights mx") (auto simp: mixture_made_def intro!: add_pos_nonneg sum_list_nonneg dest: bspec intro: less_imp_le)
  then have "\<forall>c \<in> set cs. mixture_made c" using g mx(1) by (auto simp: mix_core_def mixture_made_def)
  then show ?thesis
    using assms(1) mix_clones_fresh [OF ds mx(3)] mx(2)
    by (auto simp: mix_spawn_def ds fresh_mixture_def seed_mixture_def split: prod.splits)
qed

end

text \<open>
  The candidates of the demonstration are greedy cameras (greedy targets); the first candidate is always drawn.
\<close>

definition first_pick :: "nat \<Rightarrow> real list \<Rightarrow> nat \<times> nat" where
  "first_pick g ws = (0, Suc g)"

lemma first_pick_ok: "picks_ok first_pick"
  by (simp add: picks_ok_def first_pick_def)

interpretation camera_breeding: breeding "greedy_camera_handlers counter_rng demo_seeding (\<lambda>_. True)" fresh_camera
proof
  fix a :: "nat greedy_camera" and cs a' k ks
  assume a: "fresh_camera a"
  show "fresh_camera (hd cs) \<and> fresh_camera a'" if "h_spawn (greedy_camera_handlers counter_rng demo_seeding (\<lambda>_. True)) 1 a = (cs, a')"
    using a that by (auto simp: greedy_camera_handlers_def fresh_camera_def agent_clone_def agent_seed_def Let_def split: prod.splits)
  show "fresh_camera a'" if "h_seed (greedy_camera_handlers counter_rng demo_seeding (\<lambda>_. True)) k a = (ks, a')"
    using a that by (auto simp: greedy_camera_handlers_def fresh_camera_def agent_seed_def Let_def split: prod.splits)
qed

interpretation mixed_cameras: rival_team
    "mixture_handlers counter_rng demo_seeding first_pick (greedy_camera_handlers counter_rng demo_seeding (\<lambda>_. True))" CAMERA
    "mixture_rival CAMERA camera_rival" "\<lambda>s i. sized_for CAMERA (num_cameras s) (num_targets s) (num_obstacles s)"
    "\<lambda>s. camera_talk (num_cameras s) (num_targets s)" "fresh_mixture CAMERA fresh_camera" send_messages route_messages "\<lambda>_. True"
  by (rule mixture_rivals [OF first_pick_ok greedy_camera_rivals [OF counter_rng_ok open_env.open_channel_axioms]])

subsection \<open>Properties\<close>

text \<open>C36: two mixtures spawned from the same one (at any time of its life) that have been reset equally often play the
  same candidate, one of those they have, whatever else was called on them in between and however they were seeded;
  a team of mixtures therefore always plays as a team of one of its candidates.\<close>

theorem spawned_mixtures_agree:
  assumes "picks_ok pick" and "new_mixture R seeding H side candidates weights mixture_seed seed = Inr mx0"
    and "mixture_run R seeding pick H mx0 life mx" and "mix_spawn R seeding H n mx = (spawned, mx')"
    and "a \<in> set spawned" and "b \<in> set spawned"
    and "mixture_run R seeding pick H a k a'" and "mixture_run R seeding pick H b k b'" and "0 < k"
  shows "\<exists>i < length (mx_candidates a'). mx_current a' = Some i \<and> mx_current b' = Some i
    \<and> length (mx_candidates b') = length (mx_candidates a')"
proof -
  let ?ws = "map (\<lambda>w. w / sum_list (mx_weights mx)) (mx_weights mx)"
  have made: "mixture_made mx" by (rule mixture_run_made [OF assms(3) new_mixture_made [OF assms(2)]])
  obtain g where g: "\<forall>c \<in> set spawned. mix_core c = (length (mx_weights mx), ?ws, g, None)"
    using mix_spawn_core [OF assms(4) made] by blast
  obtain j where j: "k = Suc j" using assms(9) by (cases k) auto
  have "fst (pick (snd (choices pick ?ws g j)) ?ws) < length (mx_weights mx)"
    using assms(1) [unfolded picks_ok_def, rule_format, of ?ws] made by (simp add: mixture_made_def)
  then show ?thesis
    using mixture_run_core [OF assms(7) bspec [OF g assms(5)]] mixture_run_core [OF assms(8) bspec [OF g assms(6)]]
    by (auto simp: mix_core_def j split: prod.splits)
qed


theorem spawned_mixtures_agree_witness:
  "\<exists>mx0 spawned mx' a' b' i. new_mixture counter_rng demo_seeding (greedy_camera_handlers counter_rng demo_seeding (\<lambda>_. True))
      CAMERA [demo_greedy, demo_greedy, demo_greedy] (Some [0, 2, 1]) (Some 5) None = Inr mx0
    \<and> mix_spawn counter_rng demo_seeding (greedy_camera_handlers counter_rng demo_seeding (\<lambda>_. True)) 2 mx0 = (spawned, mx')
    \<and> mix_reset counter_rng demo_seeding first_pick (greedy_camera_handlers counter_rng demo_seeding (\<lambda>_. True))
        (observation_of CAMERA demo_start 0) (spawned ! 0) = Inr a'
    \<and> mix_reset counter_rng demo_seeding first_pick (greedy_camera_handlers counter_rng demo_seeding (\<lambda>_. True))
        (observation_of CAMERA demo_start 0) (spawned ! 1) = Inr b'
    \<and> i < length (mx_candidates a') \<and> mx_current a' = Some i \<and> mx_current b' = Some i"
proof -
  let ?H = "greedy_camera_handlers counter_rng demo_seeding (\<lambda>_. True)"
  define mx0 where "mx0 = built_mixture counter_rng demo_seeding ?H CAMERA [demo_greedy, demo_greedy, demo_greedy] [0, 2, 1] (Some 5) None"
  have new: "new_mixture counter_rng demo_seeding ?H CAMERA [demo_greedy, demo_greedy, demo_greedy] (Some [0, 2, 1]) (Some 5) None
      = Inr mx0" by (simp add: new_mixture_def check_def mx0_def)
  have side: "ag_team mx0 = CAMERA"
    by (simp add: mx0_def built_mixture_def Let_def seed_mixture_def mix_seed_def agent_seed_def split: prod.split)
  have "fresh_camera demo_greedy" by (simp add: fresh_camera_def demo_greedy_def)
  then have fresh: "fresh_mixture CAMERA fresh_camera mx0"
    using new_mixture_made [OF new] side camera_breeding.built_fresh [of "[demo_greedy, demo_greedy, demo_greedy]"]
    by (simp add: fresh_mixture_def mx0_def)
  obtain spawned mx' where sp: "mix_spawn counter_rng demo_seeding ?H 2 mx0 = (spawned, mx')" by force
  note born = camera_breeding.mix_spawn_fresh [OF sp fresh]
  have ab: "spawned ! 0 \<in> set spawned" "spawned ! 1 \<in> set spawned" using born by simp_all
  have cam: "\<exists>a'. h_reset ?H (observation_of CAMERA demo_start 0) a = Inr a' \<and> camera_rival demo_start 0 a'" if "fresh_camera a" for a
    using greedy_camera_resets [OF demo_start_ok(1) _ that, of 0]
    by (simp add: num_agents_def demo_start_ok greedy_camera_handlers_def)
  have reset: "\<exists>m. mix_reset counter_rng demo_seeding first_pick ?H (observation_of CAMERA demo_start 0) c = Inr m"
    if "c \<in> set spawned" for c
    using mixture_resets [where ok = camera_rival, OF first_pick_ok demo_start_ok(1) _ conjunct2 [OF born, rule_format, OF that] cam]
    by (simp add: num_agents_def demo_start_ok) blast
  obtain a' b' where r: "mix_reset counter_rng demo_seeding first_pick ?H (observation_of CAMERA demo_start 0) (spawned ! 0) = Inr a'"
    "mix_reset counter_rng demo_seeding first_pick ?H (observation_of CAMERA demo_start 0) (spawned ! 1) = Inr b'"
    using reset [OF ab(1)] reset [OF ab(2)] by blast
  have run: "mixture_run counter_rng demo_seeding first_pick ?H c (Suc 0) m"
    if "mix_reset counter_rng demo_seeding first_pick ?H (observation_of CAMERA demo_start 0) c = Inr m" for c m
    by (rule run_reset [OF run_new, where obs = "observation_of CAMERA demo_start 0"]) (simp add: mixture_handlers_def that)
  from spawned_mixtures_agree [OF first_pick_ok new run_new sp ab run [OF r(1)] run [OF r(2)]] new sp r
  show ?thesis by blast
qed

end
