(* ===== verification/RewardWrappers.thy ===== *)
theory RewardWrappers
  imports SingleTeam
begin

text \<open>
  The wrappers that add to what a step reports, without touching what it does:
  \<open>MoreTrainingInformation\<close> (\<open>wrappers/more_training_information.py\<close>), \<open>AuxiliaryCameraRewards\<close>
  (\<open>wrappers/auxiliary_camera_rewards.py\<close>) and \<open>AuxiliaryTargetRewards\<close>
  (\<open>wrappers/auxiliary_target_rewards.py\<close>). \<open>s\<close> is the environment after the step. The coefficient of a
  component is a number or a function of the caller, in the order of the dictionary; what the info of an agent
  gains is the record \<open>aux_info\<close>.
\<close>

subsection \<open>Distances to warehouses\<close>

text \<open>The distance to the edge, and to the goal or half the width of the terrain without one.\<close>

definition clear_distances :: "('g, 'z) world_scheme \<Rightarrow> nat \<Rightarrow> real list" where
  "clear_distances s t = map (\<lambda>d. max (d - WAREHOUSE_RADIUS) 0) (target_warehouse_distances s ! t)"

definition goal_distance :: "('g, 'z) world_scheme \<Rightarrow> nat \<Rightarrow> real" where
  "goal_distance s t =
     (if target_goals s ! t \<ge> 0 then clear_distances s t ! nat (target_goals s ! t) else TERRAIN_WIDTH / 2)"

subsection \<open>\<open>MoreTrainingInformation\<close>\<close>

datatype own_info =
    CameraInfo (ci_num_tracked: int) (ci_is_sensed: bool)
  | TargetInfo (ti_goal: int) (ti_goal_distance: real) (ti_warehouse_distances: "real list")
      (ti_individual_done: bool) (ti_is_tracked: bool) (ti_is_colliding: bool)

record 'm training_info =
  tr_plain :: "'m agent_info"
  tr_own :: own_info
  tr_state :: "real list"
  tr_camera_states :: "real list list"
  tr_target_states :: "real list list"
  tr_obstacle_states :: "real list list"
  tr_masks :: "bool list list list"
  tr_remaining_cargoes :: "int list list"
  tr_remaining_counts :: "int list"
  tr_awaiting_counts :: "int list"

definition camera_own_info :: "('g, 'm) env \<Rightarrow> nat \<Rightarrow> own_info" where
  "camera_own_info s c =
     CameraInfo (count_true (camera_target_view_mask s ! c)) (list_ex (\<lambda>row. row ! c) (target_camera_view_mask s))"

definition target_own_info :: "('g, 'm) env \<Rightarrow> nat \<Rightarrow> own_info" where
  "target_own_info s t =
     TargetInfo (target_goals s ! t) (goal_distance s t) (clear_distances s t) (target_dones s ! t)
       (list_ex (\<lambda>row. row ! t) (camera_target_view_mask s)) (is_colliding (targets s ! t))"

text \<open>The columns \<open>PRESERVED_DIM : PRESERVED_DIM + d\<close> of a joint observation.\<close>

definition private_states :: "nat \<Rightarrow> real list list \<Rightarrow> real list list" where
  "private_states d joint = map (\<lambda>obs. take d (drop PRESERVED_DIM obs)) joint"

definition full_info ::
  "real list list \<times> real list list \<Rightarrow> ('g, 'm) env \<Rightarrow> 'm agent_info \<Rightarrow> own_info \<Rightarrow> 'm training_info" where
  "full_info obs s info own =
     \<lparr>tr_plain = info, tr_own = own, tr_state = fst (env_state s),
      tr_camera_states = private_states CAMERA_STATE_DIM_PRIVATE (fst obs),
      tr_target_states = private_states TARGET_STATE_DIM_PRIVATE (snd obs),
      tr_obstacle_states = map butlast (obstacle_states_flagged s),
      tr_masks = [camera_target_view_mask s, camera_obstacle_view_mask s, target_camera_view_mask s,
                  target_obstacle_view_mask s, target_target_view_mask s],
      tr_remaining_cargoes = remaining_cargoes s, tr_remaining_counts = map sum_list (remaining_cargoes s),
      tr_awaiting_counts = awaiting_cargo_counts s\<rparr>"

definition more_information ::
  "'m joint_result \<Rightarrow> ('g, 'm) env \<Rightarrow> ('m training_info list \<times> 'm training_info list) \<times> ('g, 'm) env" where
  "more_information jr s =
     ((map2 (full_info (jr_obs jr) s) (fst (jr_infos jr)) (map (camera_own_info s) [0..<length (fst (jr_infos jr))]),
       map2 (full_info (jr_obs jr) s) (snd (jr_infos jr)) (map (target_own_info s) [0..<length (snd (jr_infos jr))])),
      snd (env_state s))"

subsection \<open>Weighted sums\<close>

datatype coefficient = Const real | Rule "nat \<Rightarrow> int \<Rightarrow> int \<Rightarrow> real \<Rightarrow> real \<Rightarrow> real"

record aux_rewards =
  ax_coefficients :: "(string \<times> coefficient) list"
  ax_reduction :: string
  ax_episode_id :: int

record aux_info =
  ax_terms :: "(string \<times> real \<times> real) list"
  ax_reward :: real
  ax_shared :: "real option"

definition new_aux_rewards :: "string list \<Rightarrow> string list \<Rightarrow> (string \<times> coefficient) list \<Rightarrow> string \<Rightarrow> aux_rewards res" where
  "new_aux_rewards reductions acceptable coefficients reduction =
     bind_res (check AssertionError (reduction \<in> set reductions)) (\<lambda>_.
     bind_res (check AssertionError (list_all (\<lambda>(key, _). key \<in> set acceptable) coefficients)) (\<lambda>_.
       Inr \<lparr>ax_coefficients = coefficients, ax_reduction = reduction, ax_episode_id = - 1\<rparr>))"

definition camera_keys :: "string list" where
  "camera_keys = [''raw_reward'', ''coverage_rate'', ''real_coverage_rate'', ''mean_transport_rate'',
     ''soft_coverage_score'', ''num_tracked'', ''baseline'']"

definition new_camera_rewards :: "(string \<times> coefficient) list \<Rightarrow> string \<Rightarrow> aux_rewards res" where
  "new_camera_rewards = new_aux_rewards [''mean'', ''sum'', ''max'', ''min'', ''none''] camera_keys"

definition target_keys :: "string list" where
  "target_keys = [''raw_reward'', ''coverage_rate'', ''real_coverage_rate'', ''mean_transport_rate'',
     ''normalized_goal_distance'', ''sparse_delivery'', ''soft_coverage_score'', ''is_tracked'', ''is_colliding'', ''baseline'']"

text \<open>The reduction \<open>min\<close> is documented and in the table of reducers, but the constructor does not accept it.\<close>

definition new_target_rewards :: "(string \<times> coefficient) list \<Rightarrow> string \<Rightarrow> aux_rewards res" where
  "new_target_rewards = new_aux_rewards [''mean'', ''sum'', ''max'', ''none''] target_keys"

definition aux_reset :: "aux_rewards \<Rightarrow> aux_rewards" where
  "aux_reset ax = ax\<lparr>ax_episode_id := ax_episode_id ax + 1\<rparr>"

text \<open>\<open>REDUCERS\<close>; \<open>np.max\<close> and \<open>np.min\<close> of nothing raise, \<open>none\<close> reduces nothing.\<close>

definition reducer :: "string \<Rightarrow> real list \<Rightarrow> real option res" where
  "reducer reduction rewards =
     (if reduction = ''mean'' then Inr (Some (sum_list rewards / real (length rewards)))
      else if reduction = ''sum'' then Inr (Some (sum_list rewards))
      else if reduction = ''max''
      then (if rewards = [] then Inl ValueError else Inr (Some (Max (set rewards))))
      else if reduction = ''min''
      then (if rewards = [] then Inl ValueError else Inr (Some (Min (set rewards))))
      else Inr None)"

definition coefficient_value :: "coefficient \<Rightarrow> nat \<Rightarrow> int \<Rightarrow> int \<Rightarrow> real \<Rightarrow> real \<Rightarrow> real" where
  "coefficient_value k i episode_id now raw auxiliary =
     (case k of Const x \<Rightarrow> x | Rule f \<Rightarrow> f i episode_id now raw auxiliary)"

definition aux_term ::
  "aux_rewards \<Rightarrow> int \<Rightarrow> nat \<Rightarrow> real \<Rightarrow> (string \<rightharpoonup> real) \<Rightarrow> string \<times> coefficient \<Rightarrow> (string \<times> real \<times> real) res" where
  "aux_term ax now i raw components entry =
     (case components (fst entry) of
        None \<Rightarrow> Inl KeyError
      | Some x \<Rightarrow> Inr (fst entry, x, coefficient_value (snd entry) i (ax_episode_id ax) now raw x))"

definition weigh ::
  "aux_rewards \<Rightarrow> int \<Rightarrow> (nat \<Rightarrow> real \<Rightarrow> string \<rightharpoonup> real) \<Rightarrow> nat \<Rightarrow> real \<Rightarrow> aux_info res" where
  "weigh ax now components i raw =
     bind_res (map_res (aux_term ax now i raw (components i raw)) (ax_coefficients ax)) (\<lambda>terms.
       Inr \<lparr>ax_terms = terms, ax_reward = sum_list (map (\<lambda>(key, x, k). k * x) terms), ax_shared = None\<rparr>)"

text \<open>The rewards of a team: weighed one by one, then reduced to a shared one.\<close>

definition aux_team ::
  "aux_rewards \<Rightarrow> int \<Rightarrow> (nat \<Rightarrow> real \<Rightarrow> string \<rightharpoonup> real) \<Rightarrow> nat \<Rightarrow> int list \<Rightarrow> (real list \<times> aux_info list) res" where
  "aux_team ax now components n raws =
     bind_res (map_res (\<lambda>(i, raw). weigh ax now components i (of_int raw)) (enumerate 0 raws)) (\<lambda>infos.
     bind_res (reducer (ax_reduction ax) (map ax_reward infos)) (\<lambda>shared.
       Inr (case shared of
              None \<Rightarrow> (map ax_reward infos, infos)
            | Some r \<Rightarrow> (replicate n r, map (\<lambda>info. info\<lparr>ax_shared := Some r\<rparr>) infos))))"

subsection \<open>Soft coverage\<close>

definition steps_from_zero :: "real \<Rightarrow> nat \<Rightarrow> real list" where
  "steps_from_zero stop num = map (\<lambda>k. real k * (stop / real num)) [0..<num]"

text \<open>The boundary of the sector as points relative to the camera: both edges in 16 steps and the outer boundary between.\<close>

definition sector_points :: "interp \<Rightarrow> 'g camera \<Rightarrow> vec list res" where
  "sector_points interp1d cam =
     bind_res (boundary_between interp1d cam (orientation cam - viewing_angle cam / 2) (orientation cam + viewing_angle cam / 2) True)
       (\<lambda>(phis, rhos).
         let all_phis = replicate 16 (hd phis) @ phis @ replicate 16 (last phis);
             all_rhos = steps_from_zero (hd rhos) 16 @ rhos @ steps_from_zero (last rhos) 16
         in Inr (map2 polar2cartesian all_rhos all_phis))"

definition inscribed_radius :: "'g camera \<Rightarrow> real" where
  "inscribed_radius cam =
     (if viewing_angle cam < 180 then sight_range cam / (1 + 1 / sin_deg (viewing_angle cam / 2)) else sight_range cam / 2)"

definition soft_coverage_score :: "interp \<Rightarrow> 'g camera \<Rightarrow> 'g target list \<Rightarrow> bool list \<Rightarrow> real list res" where
  "soft_coverage_score interp1d cam ts tracked =
     bind_res (sector_points interp1d cam) (\<lambda>points.
       Inr (map2 (\<lambda>seen t.
              let direction = vsub (location t) (location cam);
                  dist = Min (set (map (\<lambda>p. vnorm (vsub direction p)) points))
              in (if seen then dist else - dist) / inscribed_radius cam) tracked ts))"

definition soft_coverage_scores :: "interp \<Rightarrow> ('g, 'm) env \<Rightarrow> real list list res" where
  "soft_coverage_scores interp1d s =
     map_res (\<lambda>(cam, tracked). soft_coverage_score interp1d cam (targets s) tracked)
       (zip (cameras s) (camera_target_view_mask s))"

text \<open>The sum over what is tracked, else how close the nearest miss is; the largest of nothing is an error.\<close>

definition soft_score :: "bool list \<Rightarrow> real list \<Rightarrow> real res" where
  "soft_score tracked scores =
     (if list_ex id tracked then Inr (sum_list (map snd (filter fst (zip tracked scores))))
      else if scores = [] then Inl ValueError
      else Inr (tanh (Max (set scores))))"

text \<open>Only computed when some coefficient asks for it.\<close>

definition wants_soft :: "aux_rewards \<Rightarrow> bool" where
  "wants_soft ax \<longleftrightarrow> ''soft_coverage_score'' \<in> fst ` set (ax_coefficients ax)"

definition camera_soft_scores :: "interp \<Rightarrow> aux_rewards \<Rightarrow> ('g, 'm) env \<Rightarrow> real list res" where
  "camera_soft_scores interp1d ax s =
     (if \<not> wants_soft ax then Inr (replicate (num_cameras s) 0)
      else bind_res (soft_coverage_scores interp1d s) (\<lambda>matrix.
             map_res (\<lambda>c. soft_score (camera_target_view_mask s ! c) (matrix ! c)) [0..<num_cameras s]))"

definition target_soft_scores :: "interp \<Rightarrow> aux_rewards \<Rightarrow> ('g, 'm) env \<Rightarrow> real list res" where
  "target_soft_scores interp1d ax s =
     (if \<not> wants_soft ax then Inr (replicate (num_targets s) 0)
      else bind_res (soft_coverage_scores interp1d s) (\<lambda>matrix.
             map_res (\<lambda>t. soft_score (map (\<lambda>row. row ! t) (camera_target_view_mask s)) (map (\<lambda>row. row ! t) matrix))
               [0..<num_targets s]))"

subsection \<open>The rewards of the cameras\<close>

definition camera_components :: "('g, 'm) env \<Rightarrow> real list \<Rightarrow> nat \<Rightarrow> real \<Rightarrow> string \<rightharpoonup> real" where
  "camera_components s soft c raw = map_of
     [(''raw_reward'', raw), (''coverage_rate'', coverage_rate s), (''real_coverage_rate'', real_coverage_rate s),
      (''mean_transport_rate'', mean_transport_rate s), (''soft_coverage_score'', soft ! c),
      (''num_tracked'', of_int (count_true (camera_target_view_mask s ! c))), (''baseline'', 1)]"

definition camera_rewards ::
  "interp \<Rightarrow> aux_rewards \<Rightarrow> ('g, 'm) env \<Rightarrow> payoff \<Rightarrow> (real list \<times> aux_info list) res" where
  "camera_rewards interp1d ax s raws =
     (case raws of
        Shared _ \<Rightarrow> Inl TypeError
      | Individual rs \<Rightarrow>
          bind_res (camera_soft_scores interp1d ax s) (\<lambda>soft.
            aux_team ax (episode_step s) (camera_components s soft) (num_cameras s) rs))"

subsection \<open>The rewards of the targets\<close>

definition normalized_goal_distance :: "('g, 'z) world_scheme \<Rightarrow> nat \<Rightarrow> real" where
  "normalized_goal_distance s t =
     (let distances = clear_distances s t; bits = empty_bits (targets s ! t) in
      (if target_goals s ! t \<ge> 0 then distances ! nat (target_goals s ! t)
       else if \<not> list_all id bits then Min (set (map snd (filter (\<lambda>(e, d). \<not> e) (zip bits distances))))
       else TERRAIN_WIDTH / 2) / TERRAIN_WIDTH)"

definition target_components :: "('g, 'm) env \<Rightarrow> real list \<Rightarrow> nat \<Rightarrow> real \<Rightarrow> string \<rightharpoonup> real" where
  "target_components s soft t raw = map_of
     [(''raw_reward'', raw), (''coverage_rate'', coverage_rate s), (''real_coverage_rate'', real_coverage_rate s),
      (''mean_transport_rate'', mean_transport_rate s), (''normalized_goal_distance'', normalized_goal_distance s t),
      (''sparse_delivery'', of_bool (target_dones s ! t)), (''soft_coverage_score'', soft ! t),
      (''is_tracked'', of_bool (list_ex (\<lambda>row. row ! t) (camera_target_view_mask s))),
      (''is_colliding'', of_bool (is_colliding (targets s ! t))), (''baseline'', 1)]"

definition target_rewards ::
  "interp \<Rightarrow> aux_rewards \<Rightarrow> ('g, 'm) env \<Rightarrow> payoff \<Rightarrow> (real list \<times> aux_info list) res" where
  "target_rewards interp1d ax s raws =
     (case raws of
        Shared _ \<Rightarrow> Inl TypeError
      | Individual rs \<Rightarrow>
          bind_res (target_soft_scores interp1d ax s) (\<lambda>soft.
            aux_team ax (episode_step s) (target_components s soft) (num_targets s) rs))"

subsection \<open>The steps\<close>

text \<open>Around the environment of two teams the other team's rewards stay; around a single-team environment there is one.\<close>

definition camera_aux_step ::
  "interp \<Rightarrow> aux_rewards \<Rightarrow> ('m joint_result \<times> ('g, 'm) env) res
    \<Rightarrow> (((real list \<times> payoff) \<times> aux_info list) \<times> 'm joint_result \<times> ('g, 'm) env) res" where
  "camera_aux_step interp1d ax inner_step =
     bind_res inner_step (\<lambda>(jr, s).
     bind_res (camera_rewards interp1d ax s (fst (jr_rewards jr))) (\<lambda>(rs, infos).
       Inr (((rs, snd (jr_rewards jr)), infos), jr, s)))"

definition target_aux_step ::
  "interp \<Rightarrow> aux_rewards \<Rightarrow> ('m joint_result \<times> ('g, 'm) env) res
    \<Rightarrow> (((payoff \<times> real list) \<times> aux_info list) \<times> 'm joint_result \<times> ('g, 'm) env) res" where
  "target_aux_step interp1d ax inner_step =
     bind_res inner_step (\<lambda>(jr, s).
     bind_res (target_rewards interp1d ax s (snd (jr_rewards jr))) (\<lambda>(rs, infos).
       Inr (((fst (jr_rewards jr), rs), infos), jr, s)))"

definition team_aux_step ::
  "(interp \<Rightarrow> aux_rewards \<Rightarrow> ('g, 'm) env \<Rightarrow> payoff \<Rightarrow> (real list \<times> aux_info list) res) \<Rightarrow> interp \<Rightarrow> aux_rewards
    \<Rightarrow> ('m team_result \<times> ('a, 'g, 'm) multi_agent) res
    \<Rightarrow> ((real list \<times> aux_info list) \<times> 'm team_result \<times> ('a, 'g, 'm) multi_agent) res" where
  "team_aux_step rewards interp1d ax inner_step =
     bind_res inner_step (\<lambda>(tr, ma).
     bind_res (rewards interp1d ax (inner ma) (tr_reward tr)) (\<lambda>(rs, infos). Inr ((rs, infos), tr, ma)))"

subsection \<open>What a step leaves for the wrappers\<close>

text \<open>The distances of a target are those of the place it is at.\<close>

definition same_places :: "('g, 'z) world_scheme \<Rightarrow> ('g, 'z) world_scheme \<Rightarrow> bool" where
  "same_places s s' \<longleftrightarrow> target_warehouse_distances s' = target_warehouse_distances s
     \<and> map location (targets s') = map location (targets s)"

lemma map_location_upd: "location (f (ts ! t)) = location (ts ! t) \<Longrightarrow> map location (ts[t := f (ts ! t)]) = map location ts"
  by (cases "t < length ts") (simp_all add: map_update list_update_same_conv list_update_beyond)

lemma visit_warehouses_places:
  assumes "visit_warehouses R t goal ws (s, r, d) = (s', r', d')"
  shows "same_places s s'"
proof (rule visit_warehouses_relates [where Q = same_places, OF _ _ _ _ _ assms])
  show "same_places u (deliver t w u)" for w and u :: "('a, 'b) world_scheme"
    by (simp add: same_places_def deliver_def Let_def)
  show "same_places u (clear_load t u)" for u :: "('a, 'b) world_scheme"
    by (simp add: same_places_def clear_load_def map_location_upd)
  show "same_places u (load_cargo R t w u)" for w and u :: "('a, 'b) world_scheme"
    by (simp add: same_places_def load_cargo_def Let_def map_location_upd split: prod.split)
qed (simp_all add: same_places_def)

lemma assign_target_places:
  assumes "assign_target R t (s, r, d) = (s', r', d')"
  shows "map location (targets s') = map location (targets s)"
    "target_warehouse_distances s' = (target_warehouse_distances s)[t := warehouse_distances (location (targets s ! t))]"
proof -
  let ?s1 = "s\<lparr>target_warehouse_distances := (target_warehouse_distances s)[t := warehouse_distances (location (targets s ! t))]\<rparr>"
  obtain s2 where v: "visit_warehouses R t (target_goals s ! t) (nearby_warehouses (location (targets s ! t))) (?s1, r, d) = (s2, r', d')"
    "s' = see_empty_warehouses t (nearby_warehouses (location (targets s ! t))) s2"
    using assms by (auto simp: assign_target_def Let_def split: prod.splits)
  from visit_warehouses_places [OF v(1)]
  show "map location (targets s') = map location (targets s)"
    "target_warehouse_distances s' = (target_warehouse_distances s)[t := warehouse_distances (location (targets s ! t))]"
    by (simp_all add: v(2) same_places_def see_empty_warehouses_def map_location_upd)
qed

lemma assign_fold_places:
  assumes "fold (assign_target R) ts (s, r, d) = (s', r', d')" and "\<forall>t \<in> set ts. t < num_targets s"
    and "length (target_warehouse_distances s) = num_targets s"
  shows "map location (targets s') = map location (targets s) \<and> length (target_warehouse_distances s') = num_targets s
    \<and> (\<forall>t. target_warehouse_distances s' ! t =
          (if t \<in> set ts then warehouse_distances (location (targets s ! t)) else target_warehouse_distances s ! t))"
  using assms
proof (induction ts arbitrary: s r d)
  case (Cons t ts)
  obtain s1 r1 d1 where a: "assign_target R t (s, r, d) = (s1, r1, d1)" by (rule prod_cases3)
  note A = assign_target_places [OF a]
  have n: "num_targets s1 = num_targets s" using arg_cong [OF A(1), of length] by (simp add: num_targets_def)
  have loc: "location (targets s1 ! u) = location (targets s ! u)" if "u < num_targets s" for u
    using arg_cong [OF A(1), of "\<lambda>xs. xs ! u"] that n by (simp add: num_targets_def)
  have "map location (targets s') = map location (targets s1) \<and> length (target_warehouse_distances s') = num_targets s1
    \<and> (\<forall>u. target_warehouse_distances s' ! u =
          (if u \<in> set ts then warehouse_distances (location (targets s1 ! u)) else target_warehouse_distances s1 ! u))"
    using Cons.prems A(2) n by (intro Cons.IH [where r = r1 and d = d1]) (simp_all add: a)
  then show ?case using A Cons.prems(2,3) n loc by (auto simp: nth_list_update)
qed simp

text \<open>The distances are up to date: an invariant of the states that \<open>reset\<close> and \<open>step\<close> leave.\<close>

definition distances_current :: "('g, 'z) world_scheme \<Rightarrow> bool" where
  "distances_current s \<longleftrightarrow> target_warehouse_distances s = map (\<lambda>t. warehouse_distances (location t)) (targets s)"

lemma places_current: "same_places s s' \<Longrightarrow> distances_current s \<Longrightarrow> distances_current s'"
proof -
  assume a: "same_places s s'" "distances_current s"
  have "map (\<lambda>t. warehouse_distances (location t)) (targets s') = map warehouse_distances (map location (targets s'))" by simp
  also have "\<dots> = target_warehouse_distances s'" using a by (simp add: same_places_def distances_current_def)
  finally show ?thesis by (simp add: distances_current_def)
qed

lemma assign_goals_current:
  assumes "assign_goals R s = (s', r, d)" and "length (target_warehouse_distances s) = num_targets s"
  shows "distances_current s'"
proof -
  obtain u r d where f: "fold (assign_target R) [0..<num_targets s] (pay_bounties s, - tracked_with_bounty s, 0) = (u, r, d)"
    by (rule prod_cases3)
  have n: "num_targets (pay_bounties s) = num_targets s" by (simp add: pay_bounties_def num_targets_def)
  have P: "map location (targets u) = map location (targets s)" "length (target_warehouse_distances u) = num_targets s"
    "\<forall>t < num_targets s. target_warehouse_distances u ! t = warehouse_distances (location (targets s ! t))"
    using assign_fold_places [OF f] assms(2) n by (simp_all add: pay_bounties_def)
  have "target_warehouse_distances u = map warehouse_distances (map location (targets s))"
    using P(2,3) by (intro nth_equalityI) (simp_all add: num_targets_def)
  then have "distances_current u" unfolding P(1) [symmetric] by (simp add: distances_current_def)
  then show ?thesis using assms(1) f by (auto simp: assign_goals_def Let_def distances_current_def)
qed

lemma first_load_places: "same_places s (first_load R t ws s)"
proof (induction ws)
  case (Cons w ws)
  have "same_places s (load_cargo R t w s)"
    by (simp add: same_places_def load_cargo_def Let_def map_location_upd split: prod.split)
  then show ?case using Cons by simp
qed (simp add: same_places_def)

lemma start_with_cargoes_current:
  assumes "start_with_cargoes R s = Inr s'" and "distances_current s"
  shows "distances_current s'"
proof -
  have "distances_current (start_target R t u)" if "distances_current u" for t and u :: "('a, 'b) world_scheme"
  proof -
    obtain ws g where p: "permutation R (np_random u) NUM_WAREHOUSES = (ws, g)" by (rule prod.exhaust)
    have "distances_current (u\<lparr>np_random := g\<rparr>)" using that by (simp add: distances_current_def)
    from places_current [OF first_load_places this] show ?thesis by (simp add: start_target_def p)
  qed
  then have "distances_current (fold (start_target R) ts u)" if "distances_current u" for ts and u :: "('a, 'b) world_scheme"
    using that by (induction ts arbitrary: u) auto
  then show ?thesis using assms by (auto simp: start_with_cargoes_def Let_def split: if_splits)
qed

lemma reset_cargo_current:
  assumes run: "reset_cargo R k start s = Some (Inr s')"
  shows "distances_current s'"
proof -
  obtain s1 where d: "draw_until_all R (k * num_targets s) (reset_remaining s) = Some s1"
    using run by (auto simp: reset_cargo_def split: option.splits)
  obtain s2 r d' where a: "assign_goals R (clear_transport s1) = (s2, r, d')" by (metis prod_cases3)
  have "distances_current s2"
    by (rule assign_goals_current [OF a]) (simp add: clear_transport_def Let_def num_targets_def)
  then have "distances_current (clear_episode s2)" by (simp add: clear_episode_def distances_current_def)
  moreover have "(if start then start_with_cargoes R (clear_episode s2) else Inr (clear_episode s2)) = Inr s'"
    using run d a by (simp add: reset_cargo_def)
  ultimately show ?thesis using start_with_cargoes_current by (cases start) auto
qed

lemma reset_current:
  assumes R: "rng_ok R" and ok: "env_setup s" and run: "reset R seeding interp1d order seed s = Some (Inr (obs, s'))"
  shows "distances_current s'"
proof -
  obtain s4 where eq: "reset R seeding interp1d order seed s =
       (case reset_cargo R (cargoes_per_target (settings s)) (start_loaded (settings s)) s4 of
          None \<Rightarrow> None
        | Some (Inl e) \<Rightarrow> Some (Inl e)
        | Some (Inr s5) \<Rightarrow>
            Some (Inr (joint_observation ((orient_targets R s5)
              \<lparr>mail := clear_mailbox (mail (orient_targets R s5)), episode_step := 0\<rparr>))))"
    by (rule reset_decomposed [OF R ok])
  obtain s5 where s5: "reset_cargo R (cargoes_per_target (settings s)) (start_loaded (settings s)) s4 = Some (Inr s5)"
    "joint_observation ((orient_targets R s5)
       \<lparr>mail := clear_mailbox (mail (orient_targets R s5)), episode_step := 0\<rparr>) = (obs, s')"
    using run unfolding eq by (auto split: option.splits sum.splits)
  obtain g ors where o: "orient_targets R s5 = s5\<lparr>np_random := g, target_orientations := ors\<rparr>"
    using orient_targets_frame [of R s5] by blast
  have "s' = update_rates ((orient_targets R s5)\<lparr>mail := clear_mailbox (mail (orient_targets R s5)), episode_step := 0\<rparr>)"
    using s5(2) by (simp add: joint_observation_def)
  then have "targets s' = targets s5" "target_warehouse_distances s' = target_warehouse_distances s5"
    by (simp_all add: o update_rates_def Let_def)
  then show ?thesis using reset_cargo_current [OF s5(1)] by (simp add: distances_current_def)
qed

lemma step_leaves:
  assumes R: "rng_ok R" and ok: "env_ok s" "distances_current s" and run: "step R interp1d order action s = Inr (res, s')"
  shows "state_cache s' = None" and "distances_current s'"
proof -
  have sz: "length (fst action) = num_cameras s * CAMERA_ACTION_DIM" "length (snd action) = num_targets s * TARGET_ACTION_DIM"
    using step_returns_sized [OF run] by (simp_all add: sized_def)
  obtain s1 s2 s3 reward delayed res' where D: "moved order s s1" "s2 = update_view R interp1d s1"
    "assign_goals R s2 = (s3, reward, delayed)"
    "step R interp1d order action s = Inr (res', finish_step (book_rewards reward delayed s3))"
    by (rule step_decomposed [OF sz]) (rule that; assumption?)
  have ok2: "env_ok s2" unfolding D(2) by (intro update_view_env_ok moved_env_ok [OF ok(1) D(1)])
  have more: "world.more s3 = world.more s2"
    using assign_goals_step(1) [OF R _ D(3)] ok2 by (simp add: env_ok_def ledger_def same_setup_def)
  have "state_cache s2 = None" unfolding D(2) using update_view_frame [of R interp1d s1] by auto
  moreover have "state_cache s3 = state_cache s2" using more by (cases s2; cases s3; simp)
  moreover have e: "s' = finish_step (book_rewards reward delayed s3)" using run D(4) by simp
  ultimately show "state_cache s' = None"
    by (simp add: finish_step_def book_rewards_def tick_def update_rates_def Let_def)
  have n: "num_targets s2 = num_targets s" using moved_frame [OF D(1)] update_view_world [of R interp1d s1] by (simp add: D(2))
  have "target_warehouse_distances s2 = target_warehouse_distances s"
    using D(1) update_view_frame [of R interp1d s1] by (auto simp: D(2) moved_def)
  then have "length (target_warehouse_distances s2) = num_targets s2" using ok(2) n by (simp add: distances_current_def num_targets_def)
  from assign_goals_current [OF D(3) this] show "distances_current s'"
    by (simp add: distances_current_def e finish_step_def book_rewards_def tick_def update_rates_def Let_def)
qed

end
