(* ===== verification/Shaping.thy ===== *)
theory Shaping
  imports RewardWrappers
begin

text \<open>
  What the reward wrappers promise: the documented ranges of the individual components (the normalised
  distance to the goal lies in \<open>[0, sqrt 2]\<close>, a soft coverage score is not below \<open>- 1\<close> and is negative only for
  who tracks nothing), the weighted sums, the shared rewards, and the one case in which a step fails.
\<close>

subsection \<open>Ranges of the components\<close>

lemma warehouse_distance_le:
  assumes "in_terrain p" and "w \<in> set WAREHOUSES"
  shows "vnorm (vsub p w) \<le> TERRAIN_WIDTH * sqrt 2"
proof -
  have "\<bar>fst (vsub p w)\<bar> \<le> TERRAIN_WIDTH" "\<bar>snd (vsub p w)\<bar> \<le> TERRAIN_WIDTH"
    using assms by (auto simp: in_terrain_def WAREHOUSES_def terrain_defs vsub_def vscale_def)
  then have "(fst (vsub p w))\<^sup>2 \<le> TERRAIN_WIDTH\<^sup>2" "(snd (vsub p w))\<^sup>2 \<le> TERRAIN_WIDTH\<^sup>2"
    by (metis abs_ge_zero power2_abs power_mono)+
  then have "vnorm (vsub p w) \<le> sqrt (2 * TERRAIN_WIDTH\<^sup>2)"
    unfolding vnorm_def by (intro real_sqrt_le_mono) simp
  also have "\<dots> = sqrt 2 * \<bar>TERRAIN_WIDTH\<bar>" by (simp add: real_sqrt_mult)
  also have "\<dots> = TERRAIN_WIDTH * sqrt 2" by (simp add: terrain_defs)
  finally show ?thesis .
qed

lemma clear_distances_range:
  assumes "distances_current s" and "t < num_targets s" and "in_terrain (location (targets s ! t))"
  shows "length (clear_distances s t) = NUM_WAREHOUSES" "d \<in> set (clear_distances s t) \<Longrightarrow> 0 \<le> d \<and> d \<le> TERRAIN_WIDTH * sqrt 2"
proof -
  have row: "target_warehouse_distances s ! t = warehouse_distances (location (targets s ! t))"
    using assms(1,2) by (simp add: distances_current_def num_targets_def)
  then show "length (clear_distances s t) = NUM_WAREHOUSES"
    by (simp add: clear_distances_def warehouse_distances_def num_warehouses)
  assume "d \<in> set (clear_distances s t)"
  then obtain w where w: "w \<in> set WAREHOUSES" "d = max (vnorm (vsub (location (targets s ! t)) w) - WAREHOUSE_RADIUS) 0"
    by (auto simp: clear_distances_def row warehouse_distances_def)
  then show "0 \<le> d \<and> d \<le> TERRAIN_WIDTH * sqrt 2"
    using warehouse_distance_le [OF assms(3) w(1)] by (simp add: terrain_defs)
qed

lemma normalized_goal_distance_range:
  assumes ok: "env_ok s" and now: "distances_current s" and t: "t < num_targets s"
  shows "0 \<le> normalized_goal_distance s t" "normalized_goal_distance s t \<le> sqrt 2"
proof -
  have T: "target_ok (targets s ! t)" using ok t by (simp add: env_ok_def view_shapes_def)
  note D = clear_distances_range [OF now t]
  have len: "length (clear_distances s t) = NUM_WAREHOUSES" using D(1) T by (simp add: target_ok_def)
  have rng: "0 \<le> d \<and> d \<le> TERRAIN_WIDTH * sqrt 2" if "d \<in> set (clear_distances s t)" for d
    using D(2) [OF _ that] T by (simp add: target_ok_def)
  have "load_ok s t" using ok t by (simp add: env_ok_def cargo_inv_def)
  then have goal: "target_goals s ! t < int NUM_WAREHOUSES"
    by (cases "target_goals s ! t < 0") (simp_all add: load_ok_def Let_def)
  let ?bits = "empty_bits (targets s ! t)"
  let ?left = "map snd (filter (\<lambda>(e, d). \<not> e) (zip ?bits (clear_distances s t)))"
  have "0 \<le> normalized_goal_distance s t * TERRAIN_WIDTH \<and> normalized_goal_distance s t * TERRAIN_WIDTH \<le> TERRAIN_WIDTH * sqrt 2"
  proof -
    consider (goal) "target_goals s ! t \<ge> 0" | (some) "target_goals s ! t < 0" "\<not> list_all id ?bits"
      | (none) "target_goals s ! t < 0" "list_all id ?bits" by linarith
    then show ?thesis
    proof cases
      case goal
      then have "clear_distances s t ! nat (target_goals s ! t) \<in> set (clear_distances s t)"
        using \<open>target_goals s ! t < int NUM_WAREHOUSES\<close> len by simp
      then show ?thesis using rng goal by (simp add: normalized_goal_distance_def Let_def terrain_defs)
    next
      case some
      have "length ?bits = length (clear_distances s t)" using T len by (simp add: target_ok_def)
      moreover obtain k where "k < length ?bits" "\<not> ?bits ! k" using some(2) by (auto simp: list_all_length)
      ultimately have "(?bits ! k, clear_distances s t ! k) \<in> set (filter (\<lambda>(e, d). \<not> e) (zip ?bits (clear_distances s t)))"
        by (auto simp: set_zip)
      then have "filter (\<lambda>(e, d). \<not> e) (zip ?bits (clear_distances s t)) \<noteq> []" by (metis empty_iff empty_set)
      then have "?left \<noteq> []" by (metis map_is_Nil_conv)
      then have "Min (set ?left) \<in> set ?left" by (metis Min_in List.finite_set set_empty)
      moreover have "set ?left \<subseteq> set (clear_distances s t)" by (auto dest: set_zip_rightD)
      ultimately have "Min (set ?left) \<in> set (clear_distances s t)" by blast
      then show ?thesis using rng some by (simp add: normalized_goal_distance_def Let_def terrain_defs)
    next
      case none
      have "(1 :: real) \<le> 2 * sqrt 2" using real_sqrt_ge_1_iff [of 2] by linarith
      then show ?thesis using none by (simp add: normalized_goal_distance_def Let_def terrain_defs)
    qed
  qed
  then show "0 \<le> normalized_goal_distance s t" "normalized_goal_distance s t \<le> sqrt 2"
    by (simp_all add: terrain_defs zero_le_mult_iff)
qed

text \<open>Soft coverage.\<close>

lemma inscribed_radius_pos: "camera_ok cam \<Longrightarrow> 0 < inscribed_radius cam"
proof -
  assume ok: "camera_ok cam"
  have s: "0 < sight_range cam" using camera_ok_sight(2) [OF ok] .
  show ?thesis
  proof (cases "viewing_angle cam < 180")
    case True
    have "0 < viewing_angle cam" using ok by (simp add: camera_ok_def)
    then have "0 < deg2rad (viewing_angle cam / 2)" "deg2rad (viewing_angle cam / 2) < pi"
      using True by (simp_all add: deg2rad_def field_simps)
    then have "0 < sin_deg (viewing_angle cam / 2)" unfolding sin_deg_def by (rule sin_gt_zero)
    then have "0 < 1 + 1 / sin_deg (viewing_angle cam / 2)" by (simp add: add_pos_pos)
    then show ?thesis using True s by (simp add: inscribed_radius_def)
  qed (use s in \<open>simp add: inscribed_radius_def\<close>)
qed

lemma sector_points_some:
  assumes "camera_ok cam"
  shows "\<exists>points. sector_points interp1d cam = Inr points \<and> points \<noteq> []"
proof -
  have "0 < viewing_angle cam" "viewing_angle cam \<le> 180"
    using assms by (simp_all add: camera_ok_def MAX_CAMERA_VIEWING_ANGLE_def)
  then show ?thesis
    by (auto simp: sector_points_def boundary_between_def check_def Let_def steps_from_zero_def)
qed

lemma soft_coverage_score_signs:
  assumes ok: "camera_ok cam" and len: "length tracked = length ts"
  shows "\<exists>scores. soft_coverage_score interp1d cam ts tracked = Inr scores \<and> length scores = length ts
    \<and> (\<forall>t < length ts. if tracked ! t then 0 \<le> scores ! t else scores ! t \<le> 0)"
proof -
  obtain points where p: "sector_points interp1d cam = Inr points" "points \<noteq> []" using sector_points_some [OF ok] by blast
  have "0 \<le> Min (set (map (\<lambda>q. vnorm (vsub v q)) points))" for v
    using p(2) by (intro Min.boundedI) auto
  then show ?thesis
    using p len inscribed_radius_pos [OF ok] by (auto simp: soft_coverage_score_def Let_def divide_nonpos_pos)
qed

lemma soft_coverage_matrix:
  assumes ok: "env_ok s"
  shows "\<exists>matrix. soft_coverage_scores interp1d s = Inr matrix \<and> is_matrix (num_cameras s) (num_targets s) matrix
    \<and> (\<forall>c < num_cameras s. \<forall>t < num_targets s.
        if camera_target_view_mask s ! c ! t then 0 \<le> matrix ! c ! t else matrix ! c ! t \<le> 0)"
proof -
  let ?z = "zip (cameras s) (camera_target_view_mask s)"
  have mask: "is_matrix (num_cameras s) (num_targets s) (camera_target_view_mask s)"
    using ok by (simp add: env_ok_def view_shapes_def)
  have len: "length ?z = num_cameras s" using mask by (simp add: is_matrix_def num_cameras_def)
  have score: "\<exists>scores. (case x of (cam, tracked) \<Rightarrow> soft_coverage_score interp1d cam (targets s) tracked) = Inr scores
      \<and> (length scores = num_targets s \<and> (\<forall>t < num_targets s. if snd x ! t then 0 \<le> scores ! t else scores ! t \<le> 0))"
    if x: "x \<in> set ?z" for x
  proof -
    obtain c where "c < length ?z" "x = ?z ! c" using x by (metis in_set_conv_nth)
    then have c: "c < num_cameras s" "x = (cameras s ! c, camera_target_view_mask s ! c)"
      using len by (simp_all only: length_zip min_less_iff_conj nth_zip) (simp_all add: min_def split: if_splits)
    have "camera_ok (cameras s ! c)" using ok c(1) by (simp add: env_ok_def)
    moreover have "length (camera_target_view_mask s ! c) = length (targets s)"
      using mask c(1) by (simp add: is_matrix_def num_targets_def)
    ultimately show ?thesis
      using soft_coverage_score_signs [of "cameras s ! c" "camera_target_view_mask s ! c" "targets s"] by (auto simp: c(2) num_targets_def)
  qed
  let ?f = "\<lambda>(cam, tracked). soft_coverage_score interp1d cam (targets s) tracked"
  have "\<exists>matrix. map_res ?f ?z = Inr matrix \<and> length matrix = length ?z
      \<and> (\<forall>i < length ?z. length (matrix ! i) = num_targets s
        \<and> (\<forall>t < num_targets s. if snd (?z ! i) ! t then 0 \<le> matrix ! i ! t else matrix ! i ! t \<le> 0))"
    by (rule map_res_succeeds) (rule score)
  then obtain matrix where m: "soft_coverage_scores interp1d s = Inr matrix" "length matrix = length ?z"
    "\<forall>i < length ?z. length (matrix ! i) = num_targets s
       \<and> (\<forall>t < num_targets s. if snd (?z ! i) ! t then 0 \<le> matrix ! i ! t else matrix ! i ! t \<le> 0)"
    unfolding soft_coverage_scores_def by blast
  then show ?thesis
    using len mask by (intro exI [of _ matrix]) (simp add: is_matrix_def num_cameras_def)
qed

lemma soft_score_range:
  assumes len: "length scores = length tracked"
    and sg: "\<forall>i < length tracked. if tracked ! i then 0 \<le> scores ! i else scores ! i \<le> 0" and ne: "tracked \<noteq> []"
  shows "\<exists>x. soft_score tracked scores = Inr x \<and> - 1 \<le> x \<and> (if list_ex id tracked then 0 \<le> x else x \<le> 0)"
proof (cases "list_ex id tracked")
  case True
  have "0 \<le> v" if "v \<in> set (map snd (filter fst (zip tracked scores)))" for v
    using that sg len by (auto simp: set_zip)
  then have "0 \<le> sum_list (map snd (filter fst (zip tracked scores)))" by (rule sum_list_nonneg)
  then show ?thesis using True by (simp add: soft_score_def)
next
  case False
  have "Max (set scores) \<in> set scores" using ne len by (intro Max_in) auto
  then obtain i where "i < length scores" "scores ! i = Max (set scores)" by (auto simp: in_set_conv_nth)
  then have "Max (set scores) \<le> 0" using sg False len by (auto simp: list_ex_length dest!: spec [of _ i])
  moreover have "- 1 < tanh (Max (set scores))" by (rule tanh_real_gt_neg1)
  ultimately show ?thesis using False ne len by (auto simp: soft_score_def)
qed

lemma camera_soft_scores_ok:
  assumes ok: "env_ok s"
  shows "\<exists>soft. camera_soft_scores interp1d ax s = Inr soft \<and> length soft = num_cameras s
    \<and> (\<forall>c < num_cameras s. - 1 \<le> soft ! c \<and> (if list_ex id (camera_target_view_mask s ! c) then 0 \<le> soft ! c else soft ! c \<le> 0))"
proof (cases "wants_soft ax")
  case True
  obtain matrix where m: "soft_coverage_scores interp1d s = Inr matrix" "is_matrix (num_cameras s) (num_targets s) matrix"
    "\<forall>c < num_cameras s. \<forall>t < num_targets s.
        if camera_target_view_mask s ! c ! t then 0 \<le> matrix ! c ! t else matrix ! c ! t \<le> 0"
    using soft_coverage_matrix [OF ok] by blast
  have mask: "is_matrix (num_cameras s) (num_targets s) (camera_target_view_mask s)" and n: "0 < num_targets s"
    using ok by (simp_all add: env_ok_def view_shapes_def)
  let ?f = "\<lambda>c. soft_score (camera_target_view_mask s ! c) (matrix ! c)"
  have "\<exists>x. ?f c = Inr x \<and> - 1 \<le> x \<and> (if list_ex id (camera_target_view_mask s ! c) then 0 \<le> x else x \<le> 0)"
    if "c \<in> set [0..<num_cameras s]" for c
  proof -
    have "length (matrix ! c) = num_targets s" "length (camera_target_view_mask s ! c) = num_targets s"
      using that m(2) mask by (simp_all add: is_matrix_def)
    then show ?thesis using soft_score_range [of "matrix ! c" "camera_target_view_mask s ! c"] that m(3) n by fastforce
  qed
  from map_res_succeeds [of "[0..<num_cameras s]" ?f, OF this] obtain soft where
    "map_res ?f [0..<num_cameras s] = Inr soft" "length soft = num_cameras s"
    "\<forall>c < num_cameras s. - 1 \<le> soft ! c \<and> (if list_ex id (camera_target_view_mask s ! c) then 0 \<le> soft ! c else soft ! c \<le> 0)"
    by auto
  then show ?thesis using True m(1) by (simp add: camera_soft_scores_def)
qed (simp add: camera_soft_scores_def)

lemma target_soft_scores_ok:
  assumes ok: "env_ok s" and some: "0 < num_cameras s"
  shows "\<exists>soft. target_soft_scores interp1d ax s = Inr soft \<and> length soft = num_targets s
    \<and> (\<forall>t < num_targets s. - 1 \<le> soft ! t
        \<and> (if list_ex (\<lambda>row. row ! t) (camera_target_view_mask s) then 0 \<le> soft ! t else soft ! t \<le> 0))"
proof (cases "wants_soft ax")
  case True
  obtain matrix where m: "soft_coverage_scores interp1d s = Inr matrix" "is_matrix (num_cameras s) (num_targets s) matrix"
    "\<forall>c < num_cameras s. \<forall>t < num_targets s.
        if camera_target_view_mask s ! c ! t then 0 \<le> matrix ! c ! t else matrix ! c ! t \<le> 0"
    using soft_coverage_matrix [OF ok] by blast
  have mask: "is_matrix (num_cameras s) (num_targets s) (camera_target_view_mask s)"
    using ok by (simp add: env_ok_def view_shapes_def)
  let ?seen = "\<lambda>t. map (\<lambda>row. row ! t) (camera_target_view_mask s)"
  let ?f = "\<lambda>t. soft_score (?seen t) (map (\<lambda>row. row ! t) matrix)"
  have "\<exists>x. ?f t = Inr x \<and> - 1 \<le> x \<and> (if list_ex (\<lambda>row. row ! t) (camera_target_view_mask s) then 0 \<le> x else x \<le> 0)"
    if "t \<in> set [0..<num_targets s]" for t
  proof -
    have ex: "list_ex id (?seen t) = list_ex (\<lambda>row. row ! t) (camera_target_view_mask s)" by (simp add: list_ex_iff)
    have len: "length (map (\<lambda>row. row ! t) matrix) = length (?seen t)" "?seen t \<noteq> []"
      using m(2) mask some by (auto simp: is_matrix_def)
    have signs: "\<forall>i < length (?seen t). if ?seen t ! i then 0 \<le> map (\<lambda>row. row ! t) matrix ! i
        else map (\<lambda>row. row ! t) matrix ! i \<le> 0"
      using that m(2,3) mask by (simp add: is_matrix_def)
    show ?thesis using soft_score_range [OF len(1) signs len(2)] unfolding ex .
  qed
  from map_res_succeeds [of "[0..<num_targets s]" ?f, OF this] obtain soft where
    "map_res ?f [0..<num_targets s] = Inr soft" "length soft = num_targets s"
    "\<forall>t < num_targets s. - 1 \<le> soft ! t
        \<and> (if list_ex (\<lambda>row. row ! t) (camera_target_view_mask s) then 0 \<le> soft ! t else soft ! t \<le> 0)"
    by auto
  then show ?thesis using True m(1) by (simp add: target_soft_scores_def)
qed (simp add: target_soft_scores_def)

text \<open>Without cameras there is no nearest miss.\<close>

lemma target_soft_scores_fail:
  assumes ok: "env_ok s" and none: "num_cameras s = 0" and "wants_soft ax"
  shows "target_soft_scores interp1d ax s = Inl ValueError"
proof -
  have "camera_target_view_mask s = []" "0 < num_targets s"
    using ok none by (simp_all add: env_ok_def view_shapes_def is_matrix_def)
  then show ?thesis
    using assms none by (simp add: target_soft_scores_def soft_coverage_scores_def soft_score_def num_cameras_def upt_rec [of 0])
qed

subsection \<open>Weighted sums and shared rewards\<close>

text \<open>The reward of agent \<open>i\<close>: every coefficient times its component.\<close>

definition weighted ::
  "(string \<times> coefficient) list \<Rightarrow> int \<Rightarrow> int \<Rightarrow> (nat \<Rightarrow> real \<Rightarrow> string \<rightharpoonup> real) \<Rightarrow> nat \<Rightarrow> real \<Rightarrow> real" where
  "weighted coefficients episode_id now components i raw =
     (\<Sum>(key, k) \<leftarrow> coefficients.
        coefficient_value k i episode_id now raw (the (components i raw key)) * the (components i raw key))"

text \<open>What the reduction makes of the rewards: nothing, or one reward for all.\<close>

definition reduced :: "string \<Rightarrow> real list \<Rightarrow> real list \<Rightarrow> bool" where
  "reduced reduction rewards rs \<longleftrightarrow>
     (if reduction = ''none'' then rs = rewards
      else \<exists>r. rs = replicate (length rewards) r
        \<and> (reduction = ''mean'' \<longrightarrow> r * real (length rewards) = sum_list rewards)
        \<and> (reduction = ''sum'' \<longrightarrow> r = sum_list rewards)
        \<and> (reduction = ''max'' \<longrightarrow> r \<in> set rewards \<and> (\<forall>x \<in> set rewards. x \<le> r))
        \<and> (reduction = ''min'' \<longrightarrow> r \<in> set rewards \<and> (\<forall>x \<in> set rewards. r \<le> x)))"

lemma reducer_reduces:
  assumes "reduction \<in> set [''mean'', ''sum'', ''max'', ''min'', ''none'']" and "rewards \<noteq> []"
  shows "\<exists>shared. reducer reduction rewards = Inr shared
    \<and> reduced reduction rewards (case shared of None \<Rightarrow> rewards | Some r \<Rightarrow> replicate (length rewards) r)"
  using assms by (auto simp: reducer_def reduced_def)

lemma weigh_ok:
  assumes "\<forall>entry \<in> set (ax_coefficients ax). fst entry \<in> dom (components i raw)"
  shows "\<exists>info. weigh ax now components i raw = Inr info
    \<and> ax_reward info = weighted (ax_coefficients ax) (ax_episode_id ax) now components i raw"
proof -
  let ?weighed = "\<lambda>e. (fst e, the (components i raw (fst e)),
      coefficient_value (snd e) i (ax_episode_id ax) now raw (the (components i raw (fst e))))"
  have "map_res (aux_term ax now i raw (components i raw)) cs = Inr (map ?weighed cs)" if "set cs \<subseteq> set (ax_coefficients ax)" for cs
    using that assms by (induction cs) (auto simp: aux_term_def)
  from this [of "ax_coefficients ax"] show ?thesis
    by (simp add: weigh_def weighted_def comp_def case_prod_unfold)
qed

lemma aux_team_ok:
  assumes keys: "\<forall>i < n. \<forall>raw. \<forall>entry \<in> set (ax_coefficients ax). fst entry \<in> dom (components i raw)"
    and len: "length raws = n" "0 < n" and red: "ax_reduction ax \<in> set [''mean'', ''sum'', ''max'', ''min'', ''none'']"
  shows "\<exists>rs infos. aux_team ax now components n raws = Inr (rs, infos) \<and> length rs = n \<and> length infos = n
    \<and> (\<forall>i < n. ax_reward (infos ! i)
         = weighted (ax_coefficients ax) (ax_episode_id ax) now components i (of_int (raws ! i)))
    \<and> reduced (ax_reduction ax) (map ax_reward infos) rs"
proof -
  let ?f = "\<lambda>(i, raw :: int). weigh ax now components i (of_int raw)"
  let ?good = "\<lambda>(i, raw :: int) info. ax_reward info = weighted (ax_coefficients ax) (ax_episode_id ax) now components i (of_int raw)"
  have "\<exists>info. ?f x = Inr info \<and> ?good x info" if "x \<in> set (enumerate 0 raws)" for x
  proof -
    have "fst x < n" using that len(1) by (simp add: in_set_enumerate_eq)
    then have "\<forall>entry \<in> set (ax_coefficients ax). fst entry \<in> dom (components (fst x) (of_int (snd x)))" using keys by blast
    from weigh_ok [where components = components, OF this] show ?thesis by (simp add: case_prod_unfold)
  qed
  from map_res_succeeds [of "enumerate 0 raws" ?f ?good, OF this] obtain infos where
    i: "map_res ?f (enumerate 0 raws) = Inr infos" "length infos = n"
    "\<forall>j < n. ax_reward (infos ! j) = weighted (ax_coefficients ax) (ax_episode_id ax) now components j (of_int (raws ! j))"
    using len(1) by (auto simp: nth_enumerate_eq)
  have "map ax_reward infos \<noteq> []" using i(2) len(2) by auto
  from reducer_reduces [OF red this] obtain shared where sh: "reducer (ax_reduction ax) (map ax_reward infos) = Inr shared"
    "reduced (ax_reduction ax) (map ax_reward infos) (case shared of None \<Rightarrow> map ax_reward infos | Some r \<Rightarrow> replicate n r)"
    unfolding length_map i(2) by blast
  have same: "map ax_reward (map (\<lambda>info. info\<lparr>ax_shared := Some r\<rparr>) infos) = map ax_reward infos" for r by simp
  show ?thesis
  proof (cases shared)
    case None
    then show ?thesis using i sh by (simp add: aux_team_def)
  next
    case (Some r)
    then show ?thesis using i sh by (simp add: aux_team_def comp_def)
  qed
qed

lemma repeated_step_ok:
  assumes R: "rng_ok R" and ok: "env_ok s" and sz: "sized s action"
  obtains jr s' where "wrapped_step (Some d) R interp1d order action s = Inr (jr, s')" "env_ok s'"
    "num_cameras s' = num_cameras s" "num_targets s' = num_targets s" "distances_current s \<Longrightarrow> distances_current s'"
    "distances_current s \<Longrightarrow> state_cache s' = None"
    "jr_obs jr = (observations_of CAMERA s', observations_of TARGET s')"
    "length (fst (jr_infos jr)) = num_cameras s'" "length (snd (jr_infos jr)) = num_targets s'"
    "\<exists>x. fst (jr_rewards jr) = Individual (replicate (num_cameras s') x)"
    "\<exists>x. snd (jr_rewards jr) = Individual (replicate (num_targets s') x)"
proof -
  obtain res s' where st: "step R interp1d order action s = Inr (res, s')" "env_ok s'"
    "num_targets s' = num_targets s" "num_cameras s' = num_cameras s"
    using step_round [OF R ok sz] by metis
  have w: "wrapped_step (Some d) R interp1d order action s = Inr (repeat_result d s' res, s')"
    by (simp add: wrapped_step_def st(1))
  show ?thesis
    by (rule that [OF w st(2,4,3) step_leaves(2) [OF R ok _ st(1)] step_leaves(1) [OF R ok _ st(1)]])
      (use step_reads(1-4) [OF st(1)] in \<open>simp_all add: repeat_result_def\<close>)
qed

lemma new_camera_rewards_keys:
  assumes "new_camera_rewards coefficients reduction = Inr ax"
  shows "ax_coefficients ax = coefficients" "ax_reduction ax = reduction"
    "reduction \<in> set [''mean'', ''sum'', ''max'', ''min'', ''none'']"
    "\<forall>entry \<in> set coefficients. fst entry \<in> dom (camera_components s soft c raw)"
  using assms
  by (auto simp: new_camera_rewards_def new_aux_rewards_def bind_res_Inr list_all_iff camera_keys_def camera_components_def)

lemma new_target_rewards_keys:
  assumes "new_target_rewards coefficients reduction = Inr ax"
  shows "ax_coefficients ax = coefficients" "ax_reduction ax = reduction"
    "reduction \<in> set [''mean'', ''sum'', ''max'', ''min'', ''none'']"
    "\<forall>entry \<in> set coefficients. fst entry \<in> dom (target_components s soft t raw)"
  using assms
  by (auto simp: new_target_rewards_def new_aux_rewards_def bind_res_Inr list_all_iff target_keys_def target_components_def)


text \<open>C30: the auxiliary rewards of the targets, in an environment with cameras: a step never fails; the reward of
  each target is the sum of every coefficient times its component, the reduction is shared by all, the cameras keep
  their rewards, and the normalised distance to the goal is in its documented range from 0 to the root of 2. Without
  cameras, a coefficient for the soft coverage score makes every step fail with a \<open>ValueError\<close>.\<close>

theorem target_auxiliary_rewards:
  assumes "rng_ok R" and "env_ok s" and "distances_current s" and "sized s action"
    and "new_target_rewards coefficients reduction = Inr ax"
  shows "\<exists>jr s'. wrapped_step (Some d) R interp1d order action s = Inr (jr, s')
    \<and> (if num_cameras s = 0 \<and> wants_soft ax
       then target_aux_step interp1d (ax\<lparr>ax_episode_id := episode\<rparr>) (wrapped_step (Some d) R interp1d order action s) = Inl ValueError
       else \<exists>rs infos soft raw.
         target_aux_step interp1d (ax\<lparr>ax_episode_id := episode\<rparr>) (wrapped_step (Some d) R interp1d order action s)
           = Inr (((fst (jr_rewards jr), rs), infos), jr, s')
         \<and> length rs = num_targets s' \<and> snd (jr_rewards jr) = Individual (replicate (num_targets s') raw)
         \<and> (\<forall>t < num_targets s'. ax_reward (infos ! t)
              = weighted coefficients episode (episode_step s') (target_components s' soft) t (of_int raw))
         \<and> reduced reduction (map ax_reward infos) rs)
    \<and> (\<forall>t < num_targets s'. 0 \<le> normalized_goal_distance s' t \<and> normalized_goal_distance s' t \<le> sqrt 2)"
proof -
  obtain jr s' raw where st: "wrapped_step (Some d) R interp1d order action s = Inr (jr, s')" "env_ok s'"
    "num_cameras s' = num_cameras s" "num_targets s' = num_targets s" "distances_current s'"
    "snd (jr_rewards jr) = Individual (replicate (num_targets s') raw)"
    by (rule repeated_step_ok [OF assms(1,2,4), of d interp1d order]) (erule exE, rule that; (assumption | simp add: assms(3)))
  let ?ax = "ax\<lparr>ax_episode_id := episode\<rparr>"
  note range = normalized_goal_distance_range [OF st(2,5)]
  have w: "wants_soft ?ax = wants_soft ax" by (simp add: wants_soft_def)
  show ?thesis
  proof (cases "num_cameras s = 0 \<and> wants_soft ax")
    case True
    then have "target_soft_scores interp1d ?ax s' = Inl ValueError"
      using target_soft_scores_fail [OF st(2), of ?ax] st(3) w by simp
    then show ?thesis using True st range by (simp add: target_aux_step_def target_rewards_def)
  next
    case False
    then have "\<exists>soft. target_soft_scores interp1d ?ax s' = Inr soft"
      using target_soft_scores_ok [OF st(2), of interp1d ?ax] st(3) w by (auto simp: target_soft_scores_def)
    then obtain soft where soft: "target_soft_scores interp1d ?ax s' = Inr soft" ..
    note K = new_target_rewards_keys [OF assms(5)]
    have keys: "\<forall>t < num_targets s'. \<forall>x. \<forall>entry \<in> set (ax_coefficients ?ax). fst entry \<in> dom (target_components s' soft t x)"
      and red: "ax_reduction ?ax \<in> set [''mean'', ''sum'', ''max'', ''min'', ''none'']" and some: "0 < num_targets s'"
      using K(1-3) K(4) [of s' soft] st(2) by (simp_all add: env_ok_def)
    obtain rs infos where
      a: "aux_team ?ax (episode_step s') (target_components s' soft) (num_targets s') (replicate (num_targets s') raw) = Inr (rs, infos)"
      "length rs = num_targets s'"
      "\<forall>t < num_targets s'. ax_reward (infos ! t)
         = weighted coefficients episode (episode_step s') (target_components s' soft) t (of_int raw)"
      "reduced reduction (map ax_reward infos) rs"
      using aux_team_ok [OF keys length_replicate some red, of "episode_step s'" raw] K(1,2) by auto
    have step: "target_aux_step interp1d ?ax (wrapped_step (Some d) R interp1d order action s)
        = Inr (((fst (jr_rewards jr), rs), infos), jr, s')"
      using st(1,6) soft a(1) by (simp add: target_aux_step_def target_rewards_def)
    show ?thesis using False st(1,6) step a(2-4) range by auto
  qed
qed

subsection \<open>What \<open>MoreTrainingInformation\<close> reveals\<close>

lemma private_part:
  assumes "length pre = PRESERVED_DIM" and "length st = d"
  shows "take d (drop PRESERVED_DIM ((pre @ st @ rest)[3 := x])) = st"
proof -
  have "3 < PRESERVED_DIM" by (simp add: dim_defs)
  then have "drop PRESERVED_DIM ((pre @ st @ rest)[3 := x]) = st @ rest" using assms(1) by (simp add: drop_update_cancel)
  then show ?thesis using assms(2) by simp
qed

lemma private_states_of:
  assumes "env_ok s"
  shows "private_states CAMERA_STATE_DIM_PRIVATE (observations_of CAMERA s) = map (\<lambda>cam. camera_state cam True) (cameras s)"
    "private_states TARGET_STATE_DIM_PRIVATE (observations_of TARGET s) = map (\<lambda>t. target_state t True) (targets s)"
proof -
  have "length (camera_state cam True) = CAMERA_STATE_DIM_PRIVATE" for cam :: "'a camera" by simp
  then have "take CAMERA_STATE_DIM_PRIVATE (drop PRESERVED_DIM (observation_of CAMERA s c)) = camera_state (cameras s ! c) True" for c
    unfolding observation_of_def team.case camera_observation_def by (intro private_part length_preserved_data)
  then show "private_states CAMERA_STATE_DIM_PRIVATE (observations_of CAMERA s) = map (\<lambda>cam. camera_state cam True) (cameras s)"
    by (intro nth_equalityI) (simp_all add: private_states_def observations_of_def num_agents_def num_cameras_def)
  have "take TARGET_STATE_DIM_PRIVATE (drop PRESERVED_DIM (observation_of TARGET s t)) = target_state (targets s ! t) True"
    if "t < num_targets s" for t
  proof -
    have "length (target_state (targets s ! t) True) = TARGET_STATE_DIM_PRIVATE"
      using assms that by (simp add: env_ok_def view_shapes_def target_ok_def target_state_def dim_defs)
    then show ?thesis
      unfolding observation_of_def team.case target_observation_def by (intro private_part length_preserved_data)
  qed
  then show "private_states TARGET_STATE_DIM_PRIVATE (observations_of TARGET s) = map (\<lambda>t. target_state t True) (targets s)"
    by (intro nth_equalityI) (simp_all add: private_states_def observations_of_def num_agents_def num_targets_def)
qed

text \<open>The training information of a step: one record per agent, and whatever agent it is for, it shows the global
  state of the environment the step leaves (not an older, cached one) and the private states of all cameras and targets,
  cut out of the joint observation; a loaded target is told how far it is from the edge of its goal.\<close>

lemma more_information_reveals:
  assumes "rng_ok R" and "env_ok s" and "distances_current s" and "sized s action"
  shows "\<exists>jr s' cs ts. wrapped_step (Some d) R interp1d order action s = Inr (jr, s') \<and> fst (more_information jr s') = (cs, ts)
    \<and> length cs = num_cameras s' \<and> length ts = num_targets s'
    \<and> (\<forall>info \<in> set cs \<union> set ts. tr_state info = fresh_state s'
        \<and> tr_camera_states info = map (\<lambda>cam. camera_state cam True) (cameras s')
        \<and> tr_target_states info = map (\<lambda>t. target_state t True) (targets s'))
    \<and> (\<forall>t < num_targets s'. 0 \<le> target_goals s' ! t \<longrightarrow>
        ti_goal_distance (tr_own (ts ! t))
          = max (vnorm (vsub (location (targets s' ! t)) (WAREHOUSES ! nat (target_goals s' ! t))) - WAREHOUSE_RADIUS) 0)"
proof -
  obtain jr s' where st: "wrapped_step (Some d) R interp1d order action s = Inr (jr, s')" "env_ok s'" "distances_current s'"
    "state_cache s' = None" "jr_obs jr = (observations_of CAMERA s', observations_of TARGET s')"
    "length (fst (jr_infos jr)) = num_cameras s'" "length (snd (jr_infos jr)) = num_targets s'"
    by (rule repeated_step_ok [OF assms(1,2,4), of d interp1d order]) (rule that; (assumption | simp add: assms(3)))
  have state: "fst (env_state s') = fresh_state s'" using st(4) by (simp add: env_state_def)
  have full: "tr_state info = fresh_state s' \<and> tr_camera_states info = map (\<lambda>cam. camera_state cam True) (cameras s')
      \<and> tr_target_states info = map (\<lambda>t. target_state t True) (targets s')"
    if "info = full_info (jr_obs jr) s' x own" for info x own
    using that st(5) private_states_of [OF st(2)] state by (simp add: full_info_def)
  have goal: "goal_distance s' t = max (vnorm (vsub (location (targets s' ! t)) (WAREHOUSES ! nat (target_goals s' ! t))) - WAREHOUSE_RADIUS) 0"
    if t: "t < num_targets s'" "0 \<le> target_goals s' ! t" for t
  proof -
    have "load_ok s' t" using st(2) t(1) by (simp add: env_ok_def cargo_inv_def)
    then have "target_goals s' ! t < int NUM_WAREHOUSES" using t(2) by (simp add: load_ok_def Let_def)
    then have "nat (target_goals s' ! t) < NUM_WAREHOUSES" using t(2) by linarith
    moreover have "target_warehouse_distances s' ! t = warehouse_distances (location (targets s' ! t))"
      using st(3) t(1) by (simp add: distances_current_def num_targets_def)
    ultimately show ?thesis
      using t by (simp add: goal_distance_def clear_distances_def warehouse_distances_def num_warehouses)
  qed
  let ?cs = "fst (fst (more_information jr s'))" let ?ts = "snd (fst (more_information jr s'))"
  have len: "length ?cs = num_cameras s'" "length ?ts = num_targets s'" using st(6,7) by (simp_all add: more_information_def)
  have all: "\<forall>info \<in> set ?cs \<union> set ?ts. \<exists>x own. info = full_info (jr_obs jr) s' x own"
    by (auto simp: more_information_def set_zip)
  have own: "tr_own (?ts ! t) = target_own_info s' t" if "t < num_targets s'" for t
    using that st(7) by (simp add: more_information_def full_info_def)
  have "\<forall>info \<in> set ?cs \<union> set ?ts. tr_state info = fresh_state s'
      \<and> tr_camera_states info = map (\<lambda>cam. camera_state cam True) (cameras s')
      \<and> tr_target_states info = map (\<lambda>t. target_state t True) (targets s')" using all full by blast
  moreover have "\<forall>t < num_targets s'. 0 \<le> target_goals s' ! t \<longrightarrow> ti_goal_distance (tr_own (?ts ! t))
      = max (vnorm (vsub (location (targets s' ! t)) (WAREHOUSES ! nat (target_goals s' ! t))) - WAREHOUSE_RADIUS) 0"
    using own goal by (simp add: target_own_info_def)
  ultimately show ?thesis using st(1) len by (metis prod.collapse)
qed

subsection \<open>On the environment of the demonstration\<close>

lemma demo_start_current: "distances_current demo_start"
proof -
  obtain res where r: "reset counter_rng demo_seeding demo_interp id (Some 7) demo_env = Some res"
    using reset_terminates [OF counter_rng_ok demo_env_setup counter_draws_all] by blast
  obtain obs s' where s': "res = Inr (obs, s')" using reset_result [OF counter_rng_ok demo_env_setup r] by metis
  then have "demo_start = s'" by (simp add: demo_start_def demo_reset_def r)
  then show ?thesis using reset_current [OF counter_rng_ok demo_env_setup r [unfolded s']] by simp
qed

lemma demo_sized: "sized demo_start ([1, 2], [3, 4])"
  by (simp add: sized_def demo_start_ok CAMERA_ACTION_DIM_def TARGET_ACTION_DIM_def)


theorem target_auxiliary_rewards_witness:
  "\<exists>ax. new_target_rewards [(''is_tracked'', Const (- 1)), (''normalized_goal_distance'', Const (- 2))] ''none'' = Inr ax
    \<and> (\<exists>rs other infos jr s'. target_aux_step demo_interp (ax\<lparr>ax_episode_id := 0\<rparr>)
        (wrapped_step (Some True) counter_rng demo_interp id ([1, 2], [3, 4]) demo_start) = Inr (((other, rs), infos), jr, s'))"
proof -
  obtain ax where ax: "new_target_rewards [(''is_tracked'', Const (- 1)), (''normalized_goal_distance'', Const (- 2))] ''none'' = Inr ax"
    by (simp add: new_target_rewards_def new_aux_rewards_def target_keys_def check_def)
  have "\<not> (num_cameras demo_start = 0 \<and> wants_soft ax)" by (simp add: demo_start_ok)
  with target_auxiliary_rewards [OF counter_rng_ok demo_start_ok(1) demo_start_current demo_sized ax, of True demo_interp id 0] ax
  show ?thesis by (auto; blast)
qed

end
