(* ===== verification/Heuristic.thy ===== *)
theory Heuristic
  imports Rivals
begin

text \<open>
  \<open>HeuristicTargetAgent\<close> of \<open>agents/heuristic.py\<close>: a greedy target that, having chosen its action, adds a drift
  away from the centre of the field of view of the nearest camera it is in or near to. Everything else is inherited,
  so the handlers are those of the greedy target with another \<open>act\<close>, and heuristic targets are opponents in the
  sense of \<open>SingleTeam\<close> wherever there is a camera.
\<close>

subsection \<open>The drift\<close>

text \<open>
  Is the target, at \<open>st\<close>, in the field of view of camera \<open>cs\<close> widened by a fifth? The signed difference of the angles is
  compared, as in the code, so everything to the right of the camera's axis counts. The centre is that of the circle
  inscribed in the field of view, the number is its radius.
\<close>

definition in_wide_view :: "real list \<Rightarrow> real list \<Rightarrow> bool" where
  "in_wide_view st cs \<longleftrightarrow>
     (let direction = st_minus st cs
      in r_norm direction \<le> 6 / 5 * cs_st_sight_range cs
       \<and> normalize_angle (r_angle direction - cs_st_orientation cs) \<le> 6 / 5 * (cs_st_viewing_angle cs / 2))"

definition view_centre :: "real list \<Rightarrow> vec \<times> real" where
  "view_centre cs =
     (let n = cs_st_sight_range cs / (1 + sin_deg (min (cs_st_viewing_angle cs / 2) 90))
      in (vadd (st_location cs) (polar2cartesian n (cs_st_orientation cs)), cs_st_sight_range cs - n))"

definition view_centres :: "real list \<Rightarrow> (nat \<times> real list) list \<Rightarrow> bool list \<Rightarrow> (vec \<times> real) list" where
  "view_centres st seen_cameras sensed =
     map (\<lambda>(c, cs). view_centre cs)
       (map fst (filter (\<lambda>((c, cs), seen). seen \<and> in_wide_view st cs) (zip seen_cameras sensed)))"

text \<open>\<open>limit\<close> is the step size of the target times its noise scale.\<close>

definition drift_from :: "vec \<Rightarrow> real \<Rightarrow> vec \<Rightarrow> vec" where
  "drift_from p limit centre =
     (let drift = vsub p centre; drift_size = vnorm drift
      in if drift_size > limit then vscale (limit / drift_size) drift else drift)"

definition drifted :: "('m, 'g, 'z) rule_agent_scheme \<Rightarrow> real \<Rightarrow> (vec \<times> real) list \<Rightarrow> vec \<Rightarrow> vec" where
  "drifted ag limit centres action =
     (if centres = [] then action
      else (let p = st_location (ag_state ag);
                centre = fst (centres ! argmin (map (\<lambda>(q, r). vnorm (vsub p q) / r) centres));
                drift = drift_from p limit centre
            in if vdot action drift \<ge> 0 then clip_action ag (vadd action drift) else action))"

definition heuristic_target_act ::
  "'g rng \<Rightarrow> (nat set \<Rightarrow> nat list) \<Rightarrow> real list \<Rightarrow> 'g greedy_target \<Rightarrow> (vec \<times> 'g greedy_target) res" where
  "heuristic_target_act R order obs ag0 =
     bind_res (greedy_target_act R order obs ag0) (\<lambda>(action, ag).
     bind_res (seen_targets ag obs) (\<lambda>(camera_states, sensed).
       Inr (drifted ag (ts_st_step_size (ag_state ag) * gt_noise_scale ag)
              (view_centres (ag_state ag) camera_states sensed) action, ag)))"

definition heuristic_target_handlers ::
  "'g rng \<Rightarrow> (int option \<Rightarrow> 'g \<times> int) \<Rightarrow> (nat set \<Rightarrow> nat list) \<Rightarrow> ('g greedy_target \<Rightarrow> bool)
    \<Rightarrow> ('g greedy_target, nat set option) handlers" where
  "heuristic_target_handlers R seeding order has_space =
     (greedy_target_handlers R seeding order has_space)\<lparr>h_act := (\<lambda>obs info. heuristic_target_act R order obs)\<rparr>"

subsection \<open>What it does\<close>

lemma drift_from_bound:
  assumes "0 \<le> limit"
  shows "vnorm (drift_from p limit centre) \<le> limit"
  using assms by (auto simp: drift_from_def Let_def vnorm_vscale)

lemma drift_from_away:
  assumes "0 \<le> limit"
  shows "\<exists>k. 0 \<le> k \<and> k \<le> 1 \<and> drift_from p limit centre = vscale k (vsub p centre)"
proof (cases "vnorm (vsub p centre) > limit")
  case True
  then show ?thesis
    using assms by (intro exI [of _ "limit / vnorm (vsub p centre)"]) (simp add: drift_from_def Let_def)
next
  case False
  then show ?thesis by (intro exI [of _ 1]) (simp add: drift_from_def Let_def vscale_def)
qed

lemma drifted_in_space:
  assumes "space_ok ag" and "in_space ag action"
  shows "in_space ag (drifted ag limit centres action)"
  using assms by (simp add: drifted_def Let_def clip_action_in)

text \<open>Either the greedy action stands, or it is pushed away from the centre by at most the limit, never against its direction.\<close>

lemma drifted_cases:
  assumes "0 \<le> limit"
  shows "drifted ag limit centres action = action
    \<or> (\<exists>drift centre k. centre \<in> fst ` set centres \<and> 0 \<le> k \<and> k \<le> 1 \<and> drift = vscale k (vsub (st_location (ag_state ag)) centre)
        \<and> vnorm drift \<le> limit \<and> 0 \<le> vdot action drift \<and> drifted ag limit centres action = clip_action ag (vadd action drift))"
proof (cases "centres = []")
  case False
  let ?p = "st_location (ag_state ag)"
  let ?i = "argmin (map (\<lambda>(q, r). vnorm (vsub ?p q) / r) centres)"
  have "?i < length centres" using argmin_least(1) [of "map (\<lambda>(q, r). vnorm (vsub ?p q) / r) centres"] False by simp
  then have c: "fst (centres ! ?i) \<in> fst ` set centres" by simp
  obtain k where k: "0 \<le> k" "k \<le> 1" "drift_from ?p limit (fst (centres ! ?i)) = vscale k (vsub ?p (fst (centres ! ?i)))"
    using drift_from_away [OF assms] by blast
  show ?thesis
  proof (cases "vdot action (drift_from ?p limit (fst (centres ! ?i))) \<ge> 0")
    case True
    then have "drifted ag limit centres action = clip_action ag (vadd action (drift_from ?p limit (fst (centres ! ?i))))"
      using False by (simp add: drifted_def Let_def)
    then show ?thesis using c k True drift_from_bound [OF assms] by metis
  qed (use False in \<open>simp add: drifted_def Let_def\<close>)
qed (simp add: drifted_def)

lemma greedy_target_act_reads:
  assumes "greedy_target_act R order obs ag = Inr (a, ag')"
  shows "ag_state ag' = slice_of obs (self_state_slice (ag_slices ag))" "gt_noise_scale ag' = gt_noise_scale ag"
proof -
  let ?c = "choose_goal R order (inputs_read obs ag)"
  obtain noise ag2 where d: "draw_noise R (gt_noise_scale ?c) (noise_prob (ag_state ?c) (gt_prev_state ?c))
      (gt_prev_noise ?c) ?c = (noise, ag2)" by (rule prod.exhaust)
  have e: "ag' = ag2\<lparr>gt_prev_state := ag_state ?c, gt_prev_noise := noise\<rparr>"
    using assms d by (simp add: greedy_target_act_def check_inputs_eq Let_def split: if_splits)
  have "ag_state ag2 = ag_state ?c" using draw_noise_frame [OF d] by simp
  moreover have "gt_noise_scale ag2 = gt_noise_scale ?c"
    using d by (auto simp: draw_noise_def sample_action_def split: prod.splits if_splits)
  moreover have "gt_noise_scale ?c = gt_noise_scale (inputs_read obs ag)"
    by (simp add: choose_goal_def Let_def split: prod.split option.split)
  ultimately show "ag_state ag' = slice_of obs (self_state_slice (ag_slices ag))" "gt_noise_scale ag' = gt_noise_scale ag"
    using choose_goal_frame [of R order "inputs_read obs ag"] by (simp_all add: e inputs_read_def)
qed

text \<open>The centres come from cameras that are sensed.\<close>

lemma view_centres_sensed:
  assumes "centre \<in> fst ` set (view_centres st (zip [0..<nc] css) sensed)" and "length css = nc" "length sensed = nc"
  shows "\<exists>c < nc. sensed ! c \<and> in_wide_view st (css ! c) \<and> centre = fst (view_centre (css ! c))"
proof -
  let ?keep = "\<lambda>((c, cs), seen). seen \<and> in_wide_view st cs"
  have "centre \<in> (\<lambda>x. fst (view_centre (snd (fst x)))) ` set (filter ?keep (zip (zip [0..<nc] css) sensed))"
    using assms(1) by (simp add: view_centres_def image_image case_prod_unfold)
  then obtain x where x: "x \<in> set (filter ?keep (zip (zip [0..<nc] css) sensed))" "centre = fst (view_centre (snd (fst x)))" by blast
  then obtain c where c: "c < nc" "x = ((c, css ! c), sensed ! c)" using assms(2,3) by (auto simp: set_zip)
  then show ?thesis using x by auto
qed

text \<open>C37: the heuristic target. Without cameras it cannot act: unpacking no opponents raises a \<open>ValueError\<close>. With
  cameras it acts whenever the greedy target would, keeps the same memory, and its action is in the action
  space: it is the greedy one, or the greedy one plus a drift straight away from the centre of the field of view
  of a camera that it senses and is in the widened view of, no longer than the step size times the noise scale and
  never against the greedy direction, clipped to the action space.\<close>

theorem heuristic_target_drifts:
  assumes "rng_ok R" and "lists_sets order" and "greedy_target_ok ag" and "fits ag obs"
    and "0 \<le> ts_st_step_size (slice_of obs (self_state_slice (ag_slices ag))) * gt_noise_scale ag"
  shows "\<exists>a ag'. greedy_target_act R order obs ag = Inr (a, ag')
    \<and> (if ag_num_cameras ag = 0 then heuristic_target_act R order obs ag = Inl ValueError
       else \<exists>v. heuristic_target_act R order obs ag = Inr (v, ag') \<and> in_space ag v
         \<and> (v = a \<or> (\<exists>drift c k. c < ag_num_cameras ag \<and> snd (target_rows_of ag' obs ! c)
              \<and> in_wide_view (ag_state ag') (fst (target_rows_of ag' obs ! c)) \<and> 0 \<le> k \<and> k \<le> 1
              \<and> drift = vscale k (vsub (st_location (ag_state ag')) (fst (view_centre (fst (target_rows_of ag' obs ! c)))))
              \<and> vnorm drift \<le> ts_st_step_size (ag_state ag') * gt_noise_scale ag \<and> 0 \<le> vdot a drift
              \<and> v = clip_action ag (vadd a drift))))"
proof -
  obtain a ag' where a: "greedy_target_act R order obs ag = Inr (a, ag')" "in_space ag a" "greedy_target_ok ag'"
    using greedy_target_act_ok [OF assms(1-4)] by blast
  have st: "rule_static ag' = rule_static ag" by (rule greedy_target_act_static [OF a(1)])
  note reads = greedy_target_act_reads [OF a(1)]
  have team: "ag_team ag = TARGET" "space_ok ag" using assms(3) by (simp_all add: greedy_target_ok_def target_agent_ok_def)
  have n: "ag_num_opponents ag' = ag_num_cameras ag"
    using st team(1) by (simp add: rule_static_def ag_num_opponents_def team_count_def opponent_def)
  have same: "in_space ag' = in_space ag" "clip_action ag' = clip_action ag" "space_ok ag'"
    using st team(2) by (auto simp: fun_eq_iff rule_static_def in_space_def clip_action_def space_ok_def)
  define limit where "limit = ts_st_step_size (ag_state ag') * gt_noise_scale ag"
  have pos: "0 \<le> limit" using assms(5) reads by (simp add: limit_def)
  let ?rows = "target_rows_of ag' obs" let ?nc = "ag_num_cameras ag"
  define centres where "centres = view_centres (ag_state ag') (zip [0..<?nc] (map fst ?rows)) (map snd ?rows)"
  have act: "heuristic_target_act R order obs ag = (if ?nc = 0 then Inl ValueError else Inr (drifted ag' limit centres a, ag'))"
    by (simp add: heuristic_target_act_def a(1) seen_targets_eq n reads(2) limit_def centres_def)
  have len: "length ?rows = ?nc" by (simp add: target_rows_of_def n)
  have space: "in_space ag (drifted ag' limit centres a)"
    using drifted_in_space [OF same(3), of a limit centres] a(2) same(1) by simp
  have origin: "\<exists>c < ?nc. snd (?rows ! c) \<and> in_wide_view (ag_state ag') (fst (?rows ! c)) \<and> centre = fst (view_centre (fst (?rows ! c)))"
    if "centre \<in> fst ` set centres" for centre
    using view_centres_sensed [OF that [unfolded centres_def]] len by auto
  have D: "drifted ag' limit centres a = a \<or> (\<exists>drift c k. c < ?nc \<and> snd (?rows ! c) \<and> in_wide_view (ag_state ag') (fst (?rows ! c))
      \<and> 0 \<le> k \<and> k \<le> 1 \<and> drift = vscale k (vsub (st_location (ag_state ag')) (fst (view_centre (fst (?rows ! c)))))
      \<and> vnorm drift \<le> limit \<and> 0 \<le> vdot a drift \<and> drifted ag' limit centres a = clip_action ag (vadd a drift))"
  proof (cases "drifted ag' limit centres a = a")
    case False
    then obtain drift centre k where d: "centre \<in> fst ` set centres" "0 \<le> k" "k \<le> 1"
      "drift = vscale k (vsub (st_location (ag_state ag')) centre)" "vnorm drift \<le> limit" "0 \<le> vdot a drift"
      "drifted ag' limit centres a = clip_action ag' (vadd a drift)"
      using drifted_cases [OF pos, of ag' centres a] by blast
    from origin [OF d(1)] obtain c where "c < ?nc" "snd (?rows ! c)" "in_wide_view (ag_state ag') (fst (?rows ! c))"
      "centre = fst (view_centre (fst (?rows ! c)))" by blast
    then show ?thesis using d unfolding same(2) by blast
  qed simp
  show ?thesis
  proof (rule exI [of _ a], rule exI [of _ ag'], rule conjI [OF a(1)], cases "?nc = 0")
    case False
    then have A: "heuristic_target_act R order obs ag = Inr (drifted ag' limit centres a, ag')" using act by simp
    show "if ?nc = 0 then heuristic_target_act R order obs ag = Inl ValueError
       else \<exists>v. heuristic_target_act R order obs ag = Inr (v, ag') \<and> in_space ag v
         \<and> (v = a \<or> (\<exists>drift c k. c < ?nc \<and> snd (?rows ! c) \<and> in_wide_view (ag_state ag') (fst (?rows ! c)) \<and> 0 \<le> k \<and> k \<le> 1
              \<and> drift = vscale k (vsub (st_location (ag_state ag')) (fst (view_centre (fst (?rows ! c)))))
              \<and> vnorm drift \<le> ts_st_step_size (ag_state ag') * gt_noise_scale ag \<and> 0 \<le> vdot a drift
              \<and> v = clip_action ag (vadd a drift)))"
      unfolding limit_def [symmetric] if_not_P [OF False] by (rule exI, rule conjI [OF A conjI [OF space D]])
  qed (simp add: act)
qed

text \<open>A target that sees nothing of one camera.\<close>

definition demo_heuristic :: "nat greedy_target" where
  "demo_heuristic = demo_greedy_target\<lparr>ag_num_cameras := 1, gt_noise_scale := 0\<rparr>"

theorem heuristic_target_drifts_witness:
  "\<exists>v ag'. heuristic_target_act counter_rng sorted_list_of_set (replicate 39 0) demo_heuristic = Inr (v, ag') \<and> in_space demo_heuristic v"
proof -
  have ok: "greedy_target_ok demo_heuristic"
    by (simp add: greedy_target_ok_def target_agent_ok_def space_ok_def demo_heuristic_def demo_greedy_target_def vneg_def dim_defs)
  have fit: "fits demo_heuristic (replicate 39 0)"
    by (simp add: fits_def ag_observation_dim_def ag_indices_def observation_indices Let_def demo_heuristic_def demo_greedy_target_def
        self_dim_def public_dim_def team_count_def opponent_def dim_defs)
  have "0 \<le> ts_st_step_size (slice_of (replicate 39 0) (self_state_slice (ag_slices demo_heuristic))) * gt_noise_scale demo_heuristic"
    by (simp add: demo_heuristic_def)
  moreover have "ag_num_cameras demo_heuristic \<noteq> 0" by (simp add: demo_heuristic_def)
  ultimately show ?thesis using heuristic_target_drifts [OF counter_rng_ok counting.lists ok fit] by auto
qed

end
