(* ===== verification/HeuristicCamera.thy ===== *)
theory HeuristicCamera
  imports Players "HOL-Library.AList" "HOL-Library.Product_Lexorder" "HOL-Library.List_Lexorder"
begin

text \<open>
  \<open>HeuristicCameraAgent\<close> of \<open>agents/heuristic.py\<close>. The cameras send what they observe to camera 0, the
  controller, which chooses a pose (an orientation and a viewing angle) for every camera with a target in range and
  sends it back. A pose is one of a fixed mesh; how well it covers a place is tabulated once per reset, on a polar
  grid of places around a camera (\<open>calculate_scores\<close>; that the function is memoised changes nothing). The
  controller tries 32 random orders of the cameras, lets the cameras choose greedily in that order and keeps the
  best plan, compared as Python compares tuples: this is the order of \<open>Product_Lexorder\<close> and \<open>List_Lexorder\<close>.
\<close>

subsection \<open>The table of scores\<close>

text \<open>\<open>np.linspace\<close>: \<open>parts\<close> is \<open>num\<close> without the end point and one less with it. \<open>round(x, 8)\<close> keeps eight decimals.\<close>

definition spread :: "real \<Rightarrow> real \<Rightarrow> nat \<Rightarrow> nat \<Rightarrow> real list" where
  "spread start stop num parts = map (\<lambda>k. start + real k * ((stop - start) / real parts)) [0..<num]"

definition round8 :: "real \<Rightarrow> real" where
  "round8 x = of_int (np_round (x * 10 ^ 8)) / 10 ^ 8"

text \<open>\<open>np.meshgrid\<close> and \<open>reshape(-1, 2)\<close>: the first coordinate runs faster.\<close>

definition pairs_of :: "real list \<Rightarrow> real list \<Rightarrow> (real \<times> real) list" where
  "pairs_of xs ys = concat (map (\<lambda>y. map (\<lambda>x. (x, y)) xs) ys)"

definition state_mesh :: "real \<Rightarrow> real \<Rightarrow> (real \<times> real \<times> real) list" where
  "state_mesh max_range min_angle =
     map (\<lambda>(orient, angle). (orient, angle, max_range * sqrt (min_angle / angle)))
       (pairs_of (spread (- 180) 180 36 36) (spread min_angle MAX_CAMERA_VIEWING_ANGLE 21 20))"

definition polar_grid :: "real \<Rightarrow> (real \<times> real) list" where
  "polar_grid max_range = pairs_of (spread 0 max_range 41 40) (spread (- 180) 180 72 72)"

text \<open>How well a pose covers a place: the distance to the boundary of the sector relative to the largest one possible,
  less for a place farther away; nothing outside.\<close>

definition pose_score :: "real \<times> real \<times> real \<Rightarrow> real \<times> real \<Rightarrow> real" where
  "pose_score pose place_at =
     (case (pose, place_at) of ((orient, angle, sight), (rho, phi)) \<Rightarrow>
        let half = angle / 2;
            dist_max = (if angle < 180 then sight / (1 + 1 / sin_deg half) else sight / 2);
            delta = \<bar>normalize_angle (phi - orient)\<bar>;
            dist = max (min (min rho (sight - rho)) (rho * sin_deg (min (half - delta) 90))) 0
        in if rho \<le> sight \<and> delta \<le> half then dist / dist_max * (1 - rho / sight) else 0)"

definition calculate_scores ::
  "real \<Rightarrow> real \<Rightarrow> (real \<times> real \<times> real) list \<times> vec list \<times> real list list" where
  "calculate_scores max_range min_angle =
     (let mesh = state_mesh max_range min_angle; grid = polar_grid max_range
      in (mesh, map (\<lambda>(rho, phi). polar2cartesian rho phi) grid, map (\<lambda>place_at. map (\<lambda>pose. pose_score pose place_at) mesh) grid))"

subsection \<open>State and messages\<close>

text \<open>A request carries the last observation (\<open>None\<close> before the first), a response a pose.\<close>

datatype camera_word = Look "real list option" | Pose "real \<times> real"

record 'g heuristic_camera = "(camera_word, 'g) rule_agent" +
  hc_mesh :: "(real \<times> real \<times> real) list"
  hc_grid :: "vec list"
  hc_scores :: "real list list"
  hc_camera_states :: "(nat \<times> real list) list option"
  hc_joint_observation :: "(nat \<times> camera_word) list option"
  hc_goals :: "(nat \<times> real \<times> real) list option"
  hc_prev_action :: vec

definition controller :: nat where "controller = 0"

definition heuristic_camera_reset ::
  "'g rng \<Rightarrow> (int option \<Rightarrow> 'g \<times> int) \<Rightarrow> real list \<Rightarrow> 'g heuristic_camera \<Rightarrow> 'g heuristic_camera res" where
  "heuristic_camera_reset R seeding obs ag0 =
     bind_res (rule_reset R seeding obs ag0) (\<lambda>ag.
       case calculate_scores (round8 (cs_st_max_sight_range (ag_state ag))) (round8 (cs_st_min_viewing_angle (ag_state ag))) of
         (mesh, grid, scores) \<Rightarrow>
           Inr (ag\<lparr>hc_mesh := mesh, hc_grid := grid, hc_scores := scores, hc_camera_states := None,
                  hc_joint_observation := None, hc_goals := None, hc_prev_action := (0, 0)\<rparr>))"

subsection \<open>The plan of the controller\<close>

text \<open>What a camera can gain from each pose: over the targets in its range, the score of the grid point nearest to the
  target, and which targets the pose covers.\<close>

record bid =
  bid_near :: nat
  bid_scores :: "real list"
  bid_tracked :: "bool list list"

definition argmax :: "real list \<Rightarrow> nat" where
  "argmax xs = argmin (map uminus xs)"

definition nearest_row :: "'g heuristic_camera \<Rightarrow> vec \<Rightarrow> real list" where
  "nearest_row ag direction = hc_scores ag ! argmin (map (\<lambda>p. vnorm (vsub direction p)) (hc_grid ag))"

definition near_targets :: "(nat \<times> real list) list \<Rightarrow> real list \<Rightarrow> (nat \<times> real list) list" where
  "near_targets target_states st = filter (\<lambda>ts. st_dist (snd ts) st \<le> cs_st_max_sight_range st) target_states"

definition make_bid :: "'g heuristic_camera \<Rightarrow> (nat \<times> real list) list \<Rightarrow> real list \<Rightarrow> bid" where
  "make_bid ag target_states st =
     (let near = near_targets target_states st;
          rows = map (\<lambda>(t, ts). (t, nearest_row ag (vsub (st_location ts) (st_location st)))) near;
          poses = [0..<length (hc_mesh ag)]
      in \<lparr>bid_near = length near,
          bid_scores = map (\<lambda>k. sum_list (map (\<lambda>(t, row). row ! k) rows)) poses,
          bid_tracked = map (\<lambda>k. map (\<lambda>t. list_ex (\<lambda>(t', row). t' = t \<and> row ! k > 0) rows) [0..<ag_num_targets ag]) poses\<rparr>)"

text \<open>The cameras choose in turn: the pose with the greatest own score plus the number of targets not yet covered.\<close>

record progress =
  pg_indices :: "nat list"
  pg_bits :: "bool list"
  pg_score :: real
  pg_cost :: real

definition pose_cost :: "vec \<Rightarrow> real list \<Rightarrow> real \<times> real \<times> real \<Rightarrow> real" where
  "pose_cost high_action st pose =
     max (\<bar>fst pose - cs_st_orientation st\<bar> / fst high_action) (\<bar>fst (snd pose) - cs_st_viewing_angle st\<bar> / snd high_action)"

definition choose_pose :: "bid \<Rightarrow> bool list \<Rightarrow> nat" where
  "choose_pose b covered =
     argmax (map2 (\<lambda>score bits. score + of_int (count_true (map2 (\<lambda>x y. x \<and> \<not> y) bits covered))) (bid_scores b) (bid_tracked b))"

definition take_turn ::
  "'g heuristic_camera \<Rightarrow> (nat \<times> real list) list \<Rightarrow> bid list \<Rightarrow> nat \<Rightarrow> progress \<Rightarrow> progress" where
  "take_turn ag camera_states bids c p =
     (let b = bids ! c; k = choose_pose b (pg_bits p)
      in \<lparr>pg_indices = pg_indices p @ [k], pg_bits = map2 (\<or>) (pg_bits p) (bid_tracked b ! k),
          pg_score = pg_score p + bid_scores b ! k,
          pg_cost = pg_cost p + pose_cost (ra_high ag) (snd (camera_states ! c)) (hc_mesh ag ! k)\<rparr>)"

type_synonym plan = "real \<times> real \<times> nat list \<times> nat list"

definition plan_for :: "'g heuristic_camera \<Rightarrow> (nat \<times> real list) list \<Rightarrow> bid list \<Rightarrow> nat list \<Rightarrow> plan" where
  "plan_for ag camera_states bids perm =
     (let p = fold (take_turn ag camera_states bids) perm
            \<lparr>pg_indices = [], pg_bits = replicate (ag_num_targets ag) False, pg_score = 0, pg_cost = 0\<rparr>
      in (pg_score p + of_int (count_true (pg_bits p)), - pg_cost p, perm, pg_indices p))"

fun try_plans :: "'g rng \<Rightarrow> (nat list \<Rightarrow> plan) \<Rightarrow> nat \<Rightarrow> nat \<Rightarrow> 'g \<Rightarrow> plan list \<times> 'g" where
  "try_plans R f n 0 g = ([], g)"
| "try_plans R f n (Suc k) g =
     (let (perm, g1) = permutation R g n; (plans, g2) = try_plans R f n k g1 in (f perm # plans, g2))"

text \<open>\<open>joint_goal_state\<close> as a dict in insertion order; a camera without an entry has the goal \<open>(None, None)\<close>.\<close>

definition set_goal ::
  "'g heuristic_camera \<Rightarrow> (nat \<times> real list) list \<Rightarrow> bid list \<Rightarrow> nat \<times> nat \<Rightarrow> (nat \<times> real \<times> real) list
    \<Rightarrow> (nat \<times> real \<times> real) list" where
  "set_goal ag camera_states bids = (\<lambda>(c, k) goals.
     if bid_near (bids ! c) > 0
     then AList.update (fst (camera_states ! c)) (fst (hc_mesh ag ! k), fst (snd (hc_mesh ag ! k))) goals
     else goals)"

definition get_joint_goal_state ::
  "'g rng \<Rightarrow> (nat \<times> real list) list \<Rightarrow> (nat \<times> real list) list \<Rightarrow> 'g heuristic_camera
    \<Rightarrow> (nat \<times> real \<times> real) list \<times> 'g heuristic_camera" where
  "get_joint_goal_state R camera_states target_states ag =
     (let bids = map (\<lambda>(c, st). make_bid ag target_states st) camera_states;
          (plans, g) = try_plans R (plan_for ag camera_states bids) (length camera_states) 32 (ra_random ag);
          (_, _, perm, indices) = Max (set plans)
      in (fold (set_goal ag camera_states bids) (zip perm indices) [], ag\<lparr>ra_random := g\<rparr>))"

subsection \<open>The handlers\<close>

text \<open>\<open>receive_requests\<close>. Slicing what is not an observation: \<open>None\<close> cannot be sliced, a slice of a pose is too short.\<close>

definition observation_in :: "camera_word \<Rightarrow> real list res" where
  "observation_in w = (case w of Look (Some obs) \<Rightarrow> Inr obs | Look None \<Rightarrow> Inl TypeError | Pose _ \<Rightarrow> Inl AssertionError)"

record survey =
  sv_cameras :: "(nat \<times> real list) list"
  sv_targets :: "(nat \<times> real list) list"
  sv_unsensed :: "nat set"

definition look_for :: "'g heuristic_camera \<Rightarrow> real list \<Rightarrow> nat \<Rightarrow> survey \<Rightarrow> survey res" where
  "look_for ag obs t sv =
     bind_res (get_opponent_state ag obs (int t)) (\<lambda>(ts, sensed).
       Inr (if sensed then sv\<lparr>sv_targets := sv_targets sv @ [(t, ts)], sv_unsensed := sv_unsensed sv - {t}\<rparr> else sv))"

definition survey_one :: "(nat set \<Rightarrow> nat list) \<Rightarrow> 'g heuristic_camera \<Rightarrow> nat \<times> camera_word \<Rightarrow> survey \<Rightarrow> survey res" where
  "survey_one order ag entry sv =
     bind_res (observation_in (snd entry)) (\<lambda>obs.
     bind_res (new_state CAMERA_STATE_DIM_PRIVATE (slice_of obs (self_state_slice (ag_slices ag)))) (\<lambda>st.
       fold_res (look_for ag obs) (order (sv_unsensed sv)) (sv\<lparr>sv_cameras := sv_cameras sv @ [(fst entry, st)]\<rparr>)))"

definition joint_observation_of :: "'g heuristic_camera \<Rightarrow> camera_word message list \<Rightarrow> (nat \<times> camera_word) list" where
  "joint_observation_of ag ms =
     fold (\<lambda>m. AList.update (sender m) (content m)) ms [(controller, Look (ag_last_observation ag))]"

definition heuristic_camera_hear ::
  "'g rng \<Rightarrow> (nat set \<Rightarrow> nat list) \<Rightarrow> camera_word message list \<Rightarrow> 'g heuristic_camera \<Rightarrow> 'g heuristic_camera res" where
  "heuristic_camera_hear R order ms ag0 =
     (let ag = receive_requests ms ag0 in
      if ag_index ag \<noteq> controller then Inr ag
      else
        (let joint = joint_observation_of ag ms in
         bind_res (fold_res (survey_one order ag) joint
                    \<lparr>sv_cameras = [], sv_targets = [], sv_unsensed = {..<ag_num_targets ag}\<rparr>) (\<lambda>sv.
           case get_joint_goal_state R (sv_cameras sv) (sv_targets sv) ag of
             (goals, ag') \<Rightarrow> Inr (ag'\<lparr>hc_joint_observation := Some joint, hc_camera_states := Some (sv_cameras sv),
                                     hc_goals := Some goals\<rparr>))))"

definition heuristic_camera_request :: "'g heuristic_camera \<Rightarrow> camera_word message list" where
  "heuristic_camera_request ag =
     (if ag_index ag = controller then [] else [pack_message ag (Look (ag_last_observation ag)) (Some controller)])"

definition heuristic_camera_respond :: "'g heuristic_camera \<Rightarrow> camera_word message list res" where
  "heuristic_camera_respond ag =
     (if ag_index ag \<noteq> controller then Inr []
      else (case hc_goals ag of
              None \<Rightarrow> Inl AttributeError
            | Some goals \<Rightarrow> Inr (map (\<lambda>(c, pose). pack_message ag (Pose pose) (Some c)) (filter (\<lambda>(c, pose). c \<noteq> ag_index ag) goals))))"

text \<open>\<open>act\<close>. Of what is not a pose, \<open>None\<close> cannot be searched for \<open>None\<close> and an observation does not unpack to two
  numbers. A camera that was told nothing plans for itself with what it sees. \<open>act\<close> does not read its arguments.\<close>

definition own_goal :: "'g rng \<Rightarrow> 'g heuristic_camera \<Rightarrow> ((real \<times> real) option \<times> 'g heuristic_camera) res" where
  "own_goal R ag =
     bind_res (case ag_last_observation ag of
                 None \<Rightarrow> Inl (if ag_num_opponents ag = 0 then ValueError else TypeError)
               | Some obs \<Rightarrow> seen_targets ag obs) (\<lambda>(states, bits).
       let target_states = map (\<lambda>t. states ! t) (flatnonzero bits)
       in if target_states = [] then Inr (None, ag)
          else (case get_joint_goal_state R [(ag_index ag, ag_state ag)] target_states ag of
                  (goals, ag') \<Rightarrow> Inr (map_of goals (ag_index ag), ag')))"

definition goal_state :: "'g rng \<Rightarrow> 'g heuristic_camera \<Rightarrow> ((real \<times> real) option \<times> 'g heuristic_camera) res" where
  "goal_state R ag =
     (if ag_index ag = controller then
        (case hc_goals ag of None \<Rightarrow> Inl TypeError | Some goals \<Rightarrow> Inr (map_of goals (ag_index ag), ag))
      else if ag_last_responses ag = [] then own_goal R ag
      else (case content (last (ag_last_responses ag)) of
              Pose pose \<Rightarrow> Inr (Some pose, ag)
            | Look None \<Rightarrow> Inl TypeError
            | Look (Some _) \<Rightarrow> Inl ValueError))"

definition heuristic_camera_act :: "'g rng \<Rightarrow> 'g heuristic_camera \<Rightarrow> (vec \<times> 'g heuristic_camera) res" where
  "heuristic_camera_act R ag0 =
     bind_res (goal_state R ag0) (\<lambda>(goal, ag).
       case goal of
         Some (orient, angle) \<Rightarrow>
           (let a = clip_action ag (normalize_angle (orient - cs_st_orientation (ag_state ag)),
                                    angle - cs_st_viewing_angle (ag_state ag))
            in Inr (a, ag\<lparr>hc_prev_action := a\<rparr>))
       | None \<Rightarrow>
           (case binomial1 R (ra_random ag) (1 / 10) of
              (b, g) \<Rightarrow>
                (if b \<noteq> 0 then (case sample_action R (ag\<lparr>ra_random := g\<rparr>) of (a, ag') \<Rightarrow> Inr (a, ag'\<lparr>hc_prev_action := a\<rparr>))
                 else Inr (hc_prev_action ag, ag\<lparr>ra_random := g\<rparr>))))"

subsection \<open>What a plan is made of\<close>

lemma argmax_lt: "xs \<noteq> [] \<Longrightarrow> argmax xs < length xs"
  using argmin_least(1) [of "map uminus xs"] by (simp add: argmax_def)

lemma argmax_greatest:
  assumes "x \<in> set xs"
  shows "x \<le> xs ! argmax xs"
proof -
  have "xs \<noteq> []" "- x \<in> uminus ` set xs" using assms by auto
  then have "- (xs ! argmax xs) \<le> - x"
    using argmin_least(1,2) [of "map uminus xs"] Min_le [of "uminus ` set xs" "- x"] by (simp add: argmax_def)
  then show ?thesis by simp
qed

lemma try_plans_all:
  assumes "rng_ok R" and "try_plans R f n k g = (plans, g')"
  shows "length plans = k \<and> (\<forall>p \<in> set plans. \<exists>perm. length perm = n \<and> set perm = {..<n} \<and> p = f perm)"
  using assms(2)
proof (induction k arbitrary: g plans g')
  case (Suc k)
  obtain perm g1 where 1: "permutation R g n = (perm, g1)" by force
  obtain ps g2 where 2: "try_plans R f n k g1 = (ps, g2)" by force
  have "length perm = n \<and> set perm = {..<n}" using rng_permutation [OF assms(1), of g n] 1 by simp
  then show ?case using Suc.IH [OF 2] Suc.prems by (auto simp: 1 2)
qed simp

definition bid_ok :: "'g heuristic_camera \<Rightarrow> bid \<Rightarrow> bool" where
  "bid_ok ag b \<longleftrightarrow> length (bid_scores b) = length (hc_mesh ag) \<and> length (bid_tracked b) = length (hc_mesh ag)"

lemma make_bid_ok: "bid_ok ag (make_bid ag target_states st)"
  by (simp add: bid_ok_def make_bid_def Let_def)

lemma choose_pose_lt: "bid_ok ag b \<Longrightarrow> hc_mesh ag \<noteq> [] \<Longrightarrow> choose_pose b covered < length (hc_mesh ag)"
  using argmax_lt [of "map2 (\<lambda>score bits. score + of_int (count_true (map2 (\<lambda>x y. x \<and> \<not> y) bits covered))) (bid_scores b) (bid_tracked b)"]
  by (cases "bid_scores b"; cases "bid_tracked b") (auto simp: choose_pose_def bid_ok_def)

lemma turns_indices:
  assumes "hc_mesh ag \<noteq> []" and "\<forall>c \<in> set perm. bid_ok ag (bids ! c)" and "\<forall>k \<in> set (pg_indices p). k < length (hc_mesh ag)"
  shows "length (pg_indices (fold (take_turn ag cams bids) perm p)) = length (pg_indices p) + length perm
    \<and> (\<forall>k \<in> set (pg_indices (fold (take_turn ag cams bids) perm p)). k < length (hc_mesh ag))"
  using assms(2,3)
proof (induction perm arbitrary: p)
  case (Cons c perm)
  have "\<forall>k \<in> set (pg_indices (take_turn ag cams bids c p)). k < length (hc_mesh ag)"
    "length (pg_indices (take_turn ag cams bids c p)) = Suc (length (pg_indices p))"
    using Cons.prems choose_pose_lt [OF _ assms(1)] by (auto simp: take_turn_def Let_def)
  then show ?case using Cons.IH [of "take_turn ag cams bids c p"] Cons.prems(1) by simp
qed simp

lemma set_goals:
  "dom (map_of (fold (set_goal ag cams bids) cks goals))
     = dom (map_of goals) \<union> {fst (cams ! c) | c k. (c, k) \<in> set cks \<and> bid_near (bids ! c) > 0}"
  "ran (map_of (fold (set_goal ag cams bids) cks goals))
     \<subseteq> ran (map_of goals) \<union> (\<lambda>(c, k). (fst (hc_mesh ag ! k), fst (snd (hc_mesh ag ! k)))) ` set cks"
proof (induction cks arbitrary: goals)
  case (Cons ck cks)
  obtain c k where ck: "ck = (c, k)" by force
  have A: "dom (map_of (set_goal ag cams bids ck goals)) = dom (map_of goals) \<union> {fst (cams ! c) | u :: nat. bid_near (bids ! c) > 0}"
    for goals by (auto simp: ck set_goal_def update_conv')
  have B: "ran (map_of (set_goal ag cams bids ck goals)) \<subseteq> insert (fst (hc_mesh ag ! k), fst (snd (hc_mesh ag ! k))) (ran (map_of goals))"
    for goals by (auto simp: ck set_goal_def update_conv' ran_def split: if_splits)
  { case (1 goals) show ?case unfolding fold.simps o_apply Cons.IH(1) A by (auto simp: ck)
  next
    case (2 goals) show ?case unfolding fold.simps o_apply by (rule order_trans [OF Cons.IH(2)]) (use B [of goals] in \<open>simp add: ck; blast\<close>) }
qed auto


text \<open>The cameras that get a goal are those with a target in range, and goals are poses of the mesh.\<close>

lemma joint_goals:
  assumes R: "rng_ok R" and mesh: "hc_mesh ag \<noteq> []"
    and run: "get_joint_goal_state R cams target_states ag = (goals, ag')"
  shows "dom (map_of goals) = {c. \<exists>st. (c, st) \<in> set cams \<and> near_targets target_states st \<noteq> []}"
    and "ran (map_of goals) \<subseteq> (\<lambda>pose. (fst pose, fst (snd pose))) ` set (hc_mesh ag)"
    and "\<exists>g. ag' = ag\<lparr>ra_random := g\<rparr>"
proof -
  define bids where "bids = map (\<lambda>(c, st). make_bid ag target_states st) cams"
  obtain plans g where tp: "try_plans R (plan_for ag cams bids) (length cams) 32 (ra_random ag) = (plans, g)" by force
  obtain score cost perm indices where best: "Max (set plans) = (score, cost, perm, indices)" by (metis prod.collapse)
  have out: "goals = fold (set_goal ag cams bids) (zip perm indices) []" "ag' = ag\<lparr>ra_random := g\<rparr>"
    using run by (simp_all add: get_joint_goal_state_def tp best flip: bids_def)
  have all: "length plans = 32" "\<forall>p \<in> set plans. \<exists>perm. length perm = length cams \<and> set perm = {..<length cams} \<and> p = plan_for ag cams bids perm"
    using try_plans_all [OF R tp] by simp_all
  have "plans \<noteq> []" using all(1) by auto
  then have "Max (set plans) \<in> set plans" by simp
  then obtain perm' where perm': "length perm' = length cams" "set perm' = {..<length cams}"
    "(score, cost, perm, indices) = plan_for ag cams bids perm'" using all(2) best by metis
  have perm: "perm' = perm" "indices = pg_indices (fold (take_turn ag cams bids) perm
      \<lparr>pg_indices = [], pg_bits = replicate (ag_num_targets ag) False, pg_score = 0, pg_cost = 0\<rparr>)"
    using perm'(3) by (simp_all add: plan_for_def Let_def)
  have "\<forall>c \<in> set perm. bid_ok ag (bids ! c)"
    using perm' perm(1) by (auto simp: bids_def make_bid_ok split: prod.split)
  from turns_indices [OF mesh this, where p = "\<lparr>pg_indices = [], pg_bits = replicate (ag_num_targets ag) False, pg_score = 0, pg_cost = 0\<rparr>"
      and cams = cams] have ind: "length indices = length perm" "\<forall>k \<in> set indices. k < length (hc_mesh ag)"
    by (simp_all add: perm(2))
  have near: "bid_near (bids ! c) > 0 \<longleftrightarrow> near_targets target_states (snd (cams ! c)) \<noteq> []" if "c < length cams" for c
    using that by (simp add: bids_def make_bid_def Let_def split: prod.split)
  have pick: "(\<exists>k. (c, k) \<in> set (zip perm indices)) \<longleftrightarrow> c < length cams" for c
  proof -
    have "(\<exists>k. (c, k) \<in> set (zip perm indices)) \<longleftrightarrow> c \<in> set (map fst (zip perm indices))" by force
    then show ?thesis using ind(1) perm'(1,2) perm(1) by simp
  qed
  show "dom (map_of goals) = {c. \<exists>st. (c, st) \<in> set cams \<and> near_targets target_states st \<noteq> []}"
  proof (intro set_eqI)
    fix c
    have "c \<in> dom (map_of goals) \<longleftrightarrow> (\<exists>i < length cams. c = fst (cams ! i) \<and> near_targets target_states (snd (cams ! i)) \<noteq> [])"
      unfolding out(1) set_goals(1) using pick near by auto
    also have "\<dots> \<longleftrightarrow> (\<exists>st. (c, st) \<in> set cams \<and> near_targets target_states st \<noteq> [])"
      by (auto simp: in_set_conv_nth) (metis prod.collapse fst_conv snd_conv)+
    finally show "c \<in> dom (map_of goals) \<longleftrightarrow> c \<in> {c. \<exists>st. (c, st) \<in> set cams \<and> near_targets target_states st \<noteq> []}" by simp
  qed
  have "(\<exists>c. (c, k) \<in> set (zip perm indices)) \<Longrightarrow> k < length (hc_mesh ag)" for k
    using ind(2) by (auto dest: set_zip_rightD)
  then show "ran (map_of goals) \<subseteq> (\<lambda>pose. (fst pose, fst (snd pose))) ` set (hc_mesh ag)"
    using set_goals(2) [of ag cams bids "zip perm indices" "[]"] unfolding out(1) by fastforce
  show "\<exists>g. ag' = ag\<lparr>ra_random := g\<rparr>" using out(2) by blast
qed

subsection \<open>The survey of the controller\<close>

text \<open>What an agent reads of target \<open>t\<close> in an observation, and what the survey knows after a set of observations.\<close>

definition target_row :: "'g heuristic_camera \<Rightarrow> real list \<Rightarrow> nat \<Rightarrow> real list \<times> bool" where
  "target_row ag obs t = state_at obs (ag_indices ag ! 2) (public_dim (opponent (ag_team ag))) t"

definition own_part :: "'g heuristic_camera \<Rightarrow> real list \<Rightarrow> real list" where
  "own_part ag obs = slice_of obs (self_state_slice (ag_slices ag))"

definition surveyed :: "'g heuristic_camera \<Rightarrow> real list set \<Rightarrow> survey \<Rightarrow> bool" where
  "surveyed ag seen sv \<longleftrightarrow>
     fst ` set (sv_targets sv) = {t. t < ag_num_targets ag \<and> (\<exists>obs \<in> seen. snd (target_row ag obs t))}
   \<and> (\<forall>(t, ts) \<in> set (sv_targets sv). \<exists>obs \<in> seen. snd (target_row ag obs t) \<and> ts = fst (target_row ag obs t))
   \<and> sv_unsensed sv = {t. t < ag_num_targets ag \<and> (\<forall>obs \<in> seen. \<not> snd (target_row ag obs t))}"

lemma look_for_all:
  assumes "ag_team ag = CAMERA" and "\<forall>t \<in> set ts. t < ag_num_targets ag"
  shows "\<exists>sv'. fold_res (look_for ag obs) ts sv = Inr sv' \<and> sv_cameras sv' = sv_cameras sv
    \<and> set (sv_targets sv') = set (sv_targets sv) \<union> {(t, fst (target_row ag obs t)) | t. t \<in> set ts \<and> snd (target_row ag obs t)}
    \<and> sv_unsensed sv' = sv_unsensed sv - {t \<in> set ts. snd (target_row ag obs t)}"
  using assms(2)
proof (induction ts arbitrary: sv)
  case (Cons t ts)
  have n: "ag_num_opponents ag = ag_num_targets ag"
    using assms(1) by (simp add: ag_num_opponents_def opponent_def team_count_def)
  let ?r = "target_row ag obs t"
  let ?sv = "if snd ?r then sv\<lparr>sv_targets := sv_targets sv @ [(t, fst ?r)], sv_unsensed := sv_unsensed sv - {t}\<rparr> else sv"
  have "look_for ag obs t sv = Inr ?sv"
    using Cons.prems n by (simp add: look_for_def get_opponent_state_def target_row_def split: prod.split)
  moreover obtain sv' where "fold_res (look_for ag obs) ts ?sv = Inr sv'" "sv_cameras sv' = sv_cameras ?sv"
    "set (sv_targets sv') = set (sv_targets ?sv) \<union> {(t, fst (target_row ag obs t)) | t. t \<in> set ts \<and> snd (target_row ag obs t)}"
    "sv_unsensed sv' = sv_unsensed ?sv - {t \<in> set ts. snd (target_row ag obs t)}"
    using Cons.IH [of ?sv] Cons.prems by auto
  ultimately show ?case by (intro exI [of _ sv']) auto
qed auto

lemma survey_one_ok:
  assumes team: "ag_team ag = CAMERA" and order: "lists_sets order" and "fits ag obs" and sv: "surveyed ag seen sv"
  shows "\<exists>sv'. survey_one order ag (c, Look (Some obs)) sv = Inr sv' \<and> surveyed ag (insert obs seen) sv'
    \<and> sv_cameras sv' = sv_cameras sv @ [(c, own_part ag obs)]"
proof -
  have len: "length (own_part ag obs) = CAMERA_STATE_DIM_PRIVATE"
    using self_slice_length [OF assms(3)] team by (simp add: own_part_def self_dim_def)
  let ?sv = "sv\<lparr>sv_cameras := sv_cameras sv @ [(c, own_part ag obs)]\<rparr>"
  have un: "finite (sv_unsensed sv)" "sv_unsensed sv \<subseteq> {..<ag_num_targets ag}" using sv by (auto simp: surveyed_def)
  have set: "set (order (sv_unsensed sv)) = sv_unsensed sv" using order un(1) by (simp add: lists_sets_def)
  obtain sv' where sv': "fold_res (look_for ag obs) (order (sv_unsensed sv)) ?sv = Inr sv'" "sv_cameras sv' = sv_cameras ?sv"
    "set (sv_targets sv') = set (sv_targets sv) \<union> {(t, fst (target_row ag obs t)) | t. t \<in> sv_unsensed sv \<and> snd (target_row ag obs t)}"
    "sv_unsensed sv' = sv_unsensed sv - {t \<in> sv_unsensed sv. snd (target_row ag obs t)}"
    using look_for_all [OF team, of "order (sv_unsensed sv)" obs ?sv] un(2) unfolding set by auto
  let ?P = "\<lambda>t. snd (target_row ag obs t)"
  have old: "fst ` set (sv_targets sv) = {t. t < ag_num_targets ag \<and> (\<exists>obs \<in> seen. snd (target_row ag obs t))}"
    "\<forall>(t, ts) \<in> set (sv_targets sv). \<exists>obs \<in> seen. snd (target_row ag obs t) \<and> ts = fst (target_row ag obs t)"
    "sv_unsensed sv = {t. t < ag_num_targets ag \<and> (\<forall>obs \<in> seen. \<not> snd (target_row ag obs t))}"
    using sv by (simp_all add: surveyed_def)
  have "fst ` set (sv_targets sv') = fst ` set (sv_targets sv) \<union> {t \<in> sv_unsensed sv. ?P t}"
    unfolding sv'(3) image_Un by force
  then have "fst ` set (sv_targets sv') = {t. t < ag_num_targets ag \<and> (\<exists>obs \<in> insert obs seen. snd (target_row ag obs t))}"
    unfolding old(1,3) by auto
  moreover have "\<forall>(t, ts) \<in> set (sv_targets sv'). \<exists>obs \<in> insert obs seen. snd (target_row ag obs t) \<and> ts = fst (target_row ag obs t)"
    using old(2) unfolding sv'(3) by blast
  moreover have "sv_unsensed sv' = {t. t < ag_num_targets ag \<and> (\<forall>obs \<in> insert obs seen. \<not> snd (target_row ag obs t))}"
    unfolding sv'(4) old(3) by auto
  ultimately have "surveyed ag (insert obs seen) sv'" by (simp add: surveyed_def)
  then show ?thesis
    using sv'(1,2) len by (simp add: survey_one_def observation_in_def new_state_def bind_check flip: own_part_def)
qed

lemma survey_all_ok:
  assumes team: "ag_team ag = CAMERA" and order: "lists_sets order"
    and "\<forall>(c, w) \<in> set joint. \<exists>obs. w = Look (Some obs) \<and> fits ag obs" and "surveyed ag seen sv"
  shows "\<exists>sv'. fold_res (survey_one order ag) joint sv = Inr sv'
    \<and> surveyed ag (seen \<union> {obs. \<exists>c. (c, Look (Some obs)) \<in> set joint}) sv'
    \<and> set (sv_cameras sv') = set (sv_cameras sv) \<union> {(c, own_part ag obs) | c obs. (c, Look (Some obs)) \<in> set joint}"
  using assms(3,4)
proof (induction joint arbitrary: seen sv)
  case (Cons cw joint)
  obtain c obs where cw: "cw = (c, Look (Some obs))" "fits ag obs" using Cons.prems(1) by force
  obtain sv1 where 1: "survey_one order ag (c, Look (Some obs)) sv = Inr sv1" "surveyed ag (insert obs seen) sv1"
    "sv_cameras sv1 = sv_cameras sv @ [(c, own_part ag obs)]"
    using survey_one_ok [OF team order cw(2) Cons.prems(2)] by blast
  obtain sv' where 2: "fold_res (survey_one order ag) joint sv1 = Inr sv'"
    "surveyed ag (insert obs seen \<union> {obs. \<exists>c. (c, Look (Some obs)) \<in> set joint}) sv'"
    "set (sv_cameras sv') = set (sv_cameras sv1) \<union> {(c, own_part ag obs) | c obs. (c, Look (Some obs)) \<in> set joint}"
    using Cons.IH [OF _ 1(2)] Cons.prems(1) by auto
  have "insert obs seen \<union> {obs. \<exists>c. (c, Look (Some obs)) \<in> set joint}
      = seen \<union> {obs. \<exists>c. (c, Look (Some obs)) \<in> set (cw # joint)}" by (auto simp: cw(1))
  then have "surveyed ag (seen \<union> {obs. \<exists>c. (c, Look (Some obs)) \<in> set (cw # joint)}) sv'" using 2(2) by simp
  moreover have "fold_res (survey_one order ag) (cw # joint) sv = Inr sv'" using 1(1) 2(1) by (simp add: cw(1))
  moreover have "set (sv_cameras sv') = set (sv_cameras sv) \<union> {(c, own_part ag obs) | c obs. (c, Look (Some obs)) \<in> set (cw # joint)}"
    unfolding 2(3) 1(3) by (auto simp: cw(1))
  ultimately show ?case by blast
qed auto

text \<open>The joint observation holds what the controller saw last and what it was sent, one entry per sender.\<close>

lemma set_alist_update: "set (AList.update k v al) \<subseteq> insert (k, v) (set al)"
  by (induction al) auto

lemma keys_alist_update: "fst ` set (AList.update k v al) = insert k (fst ` set al)"
  by (induction al) auto

lemma joint_entries:
  "set (fold (\<lambda>m. AList.update (sender m) (content m)) ms al) \<subseteq> set al \<union> {(sender m, content m) | m. m \<in> set ms}"
  "fst ` set (fold (\<lambda>m. AList.update (sender m) (content m)) ms al) = fst ` set al \<union> sender ` set ms"
proof (induction ms arbitrary: al)
  case (Cons m ms)
  { case (1 al) show ?case using Cons.IH(1) [of "AList.update (sender m) (content m) al"] set_alist_update [of "sender m" "content m" al]
      by (simp only: fold.simps o_apply) fastforce
  next
    case (2 al) show ?case using Cons.IH(2) [of "AList.update (sender m) (content m) al"]
      by (simp add: keys_alist_update) }
qed auto

lemma hear_ok:
  assumes R: "rng_ok R" and order: "lists_sets order" and team: "ag_team ag = CAMERA" and mesh: "hc_mesh ag \<noteq> []"
    and here: "ag_index ag = controller" "ag_last_observation ag = Some own" "fits ag own"
    and ms: "\<forall>m \<in> set ms. \<exists>obs. content m = Look (Some obs) \<and> fits ag obs"
  shows "\<exists>sv goals g joint. heuristic_camera_hear R order ms ag
      = Inr (ag\<lparr>ag_last_requests := ms, ra_random := g, hc_joint_observation := Some joint,
               hc_camera_states := Some (sv_cameras sv), hc_goals := Some goals\<rparr>)
    \<and> joint = joint_observation_of ag ms
    \<and> surveyed ag {obs. \<exists>c. (c, Look (Some obs)) \<in> set joint} sv
    \<and> set (sv_cameras sv) = {(c, own_part ag obs) | c obs. (c, Look (Some obs)) \<in> set joint}
    \<and> dom (map_of goals) = {c. \<exists>st. (c, st) \<in> set (sv_cameras sv) \<and> near_targets (sv_targets sv) st \<noteq> []}
    \<and> ran (map_of goals) \<subseteq> (\<lambda>pose. (fst pose, fst (snd pose))) ` set (hc_mesh ag)"
proof -
  let ?ag = "receive_requests ms ag"
  let ?joint = "joint_observation_of ag ms"
  have same: "joint_observation_of ?ag ms = ?joint" "ag_num_targets ?ag = ag_num_targets ag" "own_part ?ag = own_part ag"
    "surveyed ?ag = surveyed ag" "fits ?ag = fits ag" "ag_team ?ag = CAMERA" "ag_index ?ag = controller" "hc_mesh ?ag = hc_mesh ag"
    using team here(1) by (simp_all add: receive_requests_def joint_observation_of_def own_part_def fun_eq_iff surveyed_def
        target_row_def fits_def ag_slices_def ag_indices_def ag_observation_dim_def)
  have entries: "\<forall>(c, w) \<in> set ?joint. \<exists>obs. w = Look (Some obs) \<and> fits ?ag obs"
    using joint_entries(1) [of ms "[(controller, Look (ag_last_observation ag))]"] ms here(2,3)
    by (auto simp: joint_observation_of_def same(5))
  have start: "surveyed ?ag {} \<lparr>sv_cameras = [], sv_targets = [], sv_unsensed = {..<ag_num_targets ?ag}\<rparr>"
    by (auto simp: surveyed_def)
  obtain sv where sv: "fold_res (survey_one order ?ag) ?joint
      \<lparr>sv_cameras = [], sv_targets = [], sv_unsensed = {..<ag_num_targets ?ag}\<rparr> = Inr sv"
    "surveyed ag {obs. \<exists>c. (c, Look (Some obs)) \<in> set ?joint} sv"
    "set (sv_cameras sv) = {(c, own_part ag obs) | c obs. (c, Look (Some obs)) \<in> set ?joint}"
    using survey_all_ok [OF same(6) order entries start] by (auto simp: same(3,4))
  obtain goals ag' where plan: "get_joint_goal_state R (sv_cameras sv) (sv_targets sv) ?ag = (goals, ag')" by force
  note G = joint_goals [OF R _ plan, unfolded same(8), OF mesh]
  obtain g where g: "ag' = ?ag\<lparr>ra_random := g\<rparr>" using G(3) by blast
  have "heuristic_camera_hear R order ms ag
      = Inr (ag\<lparr>ag_last_requests := ms, ra_random := g, hc_joint_observation := Some ?joint,
               hc_camera_states := Some (sv_cameras sv), hc_goals := Some goals\<rparr>)"
    unfolding heuristic_camera_hear_def Let_def same(1,7) by (simp add: sv(1) plan g) (simp add: receive_requests_def)
  then show ?thesis using sv(2,3) G(1,2) by blast
qed


subsection \<open>Every call returns\<close>

definition heuristic_camera_handlers ::
  "'g rng \<Rightarrow> (int option \<Rightarrow> 'g \<times> int) \<Rightarrow> (nat set \<Rightarrow> nat list) \<Rightarrow> ('g heuristic_camera \<Rightarrow> bool)
    \<Rightarrow> ('g heuristic_camera, camera_word) handlers" where
  "heuristic_camera_handlers R seeding order has_space =
     \<lparr>h_id = (\<lambda>ag. (ag_team ag, ag_index ag)),
      h_reset = heuristic_camera_reset R seeding,
      h_observe = (\<lambda>obs info. observe obs),
      h_act = (\<lambda>obs info. heuristic_camera_act R),
      h_send_requests = (\<lambda>ag. Inr (heuristic_camera_request ag, ag)),
      h_receive_requests = heuristic_camera_hear R order,
      h_send_responses = (\<lambda>ag. bind_res (heuristic_camera_respond ag) (\<lambda>ms. Inr (ms, ag))),
      h_receive_responses = (\<lambda>ms ag. Inr (receive_responses ms ag)),
      h_seed = (\<lambda>seed ag. agent_seed R seeding seed (has_space ag) ag),
      h_spawn = (\<lambda>n ag. agent_spawn R seeding (has_space ag) n ag)\<rparr>"

text \<open>A call of one of the handlers, and its outcome: an action, messages, or nothing.\<close>

datatype 'm handler_call =
  Observes "real list" | Requests | HearsRequests "'m message list" | Responds | HearsResponses "'m message list" | Acts "real list"

fun perform :: "('a, 'm) handlers \<Rightarrow> 'm handler_call \<Rightarrow> 'a \<Rightarrow> ((vec option \<times> 'm message list) \<times> 'a) res" where
  "perform H (Observes obs) a = bind_res (h_observe H obs None a) (\<lambda>a'. Inr ((None, []), a'))"
| "perform H Requests a = bind_res (h_send_requests H a) (\<lambda>(ms, a'). Inr ((None, ms), a'))"
| "perform H (HearsRequests ms) a = bind_res (h_receive_requests H ms a) (\<lambda>a'. Inr ((None, []), a'))"
| "perform H Responds a = bind_res (h_send_responses H a) (\<lambda>(ms, a'). Inr ((None, ms), a'))"
| "perform H (HearsResponses ms) a = bind_res (h_receive_responses H ms a) (\<lambda>a'. Inr ((None, []), a'))"
| "perform H (Acts obs) a = bind_res (h_act H obs None a) (\<lambda>(v, a'). Inr ((Some v, []), a'))"

definition heuristic_camera_ok :: "'g heuristic_camera \<Rightarrow> bool" where
  "heuristic_camera_ok ag \<longleftrightarrow>
     ag_team ag = CAMERA \<and> space_ok ag \<and> in_space ag (hc_prev_action ag) \<and> hc_mesh ag \<noteq> []
   \<and> (\<forall>obs. ag_last_observation ag = Some obs \<longrightarrow> fits ag obs)
   \<and> (\<forall>m \<in> set (ag_last_responses ag). \<exists>pose. content m = Pose pose)
   \<and> (\<forall>goals. hc_goals ag = Some goals \<longrightarrow> (\<forall>c \<in> dom (map_of goals). c \<noteq> controller \<longrightarrow> c < ag_num_cameras ag))"

text \<open>A camera may ask once it has observed, the controller may hear what was observed, answer and act once it has a
  plan, the others act on a pose or on what they see themselves.\<close>

fun heuristic_legal :: "'g heuristic_camera \<Rightarrow> camera_word handler_call \<Rightarrow> bool" where
  "heuristic_legal ag (Observes obs) \<longleftrightarrow> fits ag obs"
| "heuristic_legal ag Requests \<longleftrightarrow> ag_last_observation ag \<noteq> None"
| "heuristic_legal ag (HearsRequests ms) \<longleftrightarrow> ag_index ag = controller \<longrightarrow>
     ag_last_observation ag \<noteq> None
   \<and> (\<forall>m \<in> set ms. sender m < ag_num_cameras ag \<and> (\<exists>obs. content m = Look (Some obs) \<and> fits ag obs))"
| "heuristic_legal ag Responds \<longleftrightarrow> ag_index ag = controller \<longrightarrow> hc_goals ag \<noteq> None"
| "heuristic_legal ag (HearsResponses ms) \<longleftrightarrow> (\<forall>m \<in> set ms. \<exists>pose. content m = Pose pose)"
| "heuristic_legal ag (Acts obs) \<longleftrightarrow>
     (if ag_index ag = controller then hc_goals ag \<noteq> None
      else ag_last_responses ag = [] \<longrightarrow> ag_last_observation ag \<noteq> None \<and> 0 < ag_num_targets ag)"

text \<open>What it says: a request to the controller with an observation, or poses to the other cameras.\<close>

definition heuristic_message_ok :: "'g heuristic_camera \<Rightarrow> camera_word message \<Rightarrow> bool" where
  "heuristic_message_ok ag m \<longleftrightarrow> sender m = ag_index ag \<and> msg_team m = CAMERA \<and> \<not> broadcasting m
   \<and> (if ag_index ag = controller
      then (\<exists>c pose. recipient m = Some c \<and> c \<noteq> controller \<and> c < ag_num_cameras ag \<and> content m = Pose pose)
      else recipient m = Some controller \<and> (\<exists>obs. content m = Look (Some obs) \<and> fits ag obs))"

lemma ok_same:
  assumes "heuristic_camera_ok ag" and "rule_static ag' = rule_static ag" and "in_space ag (hc_prev_action ag')"
    and "hc_mesh ag' = hc_mesh ag" and "hc_goals ag' = hc_goals ag"
    and "\<forall>obs. ag_last_observation ag' = Some obs \<longrightarrow> fits ag obs"
    and "\<forall>m \<in> set (ag_last_responses ag'). \<exists>pose. content m = Pose pose"
  shows "heuristic_camera_ok ag'"
proof -
  have "fits ag' = fits ag" "in_space ag' = in_space ag" "space_ok ag' = space_ok ag" "ag_team ag' = ag_team ag"
    "ag_num_cameras ag' = ag_num_cameras ag"
    using assms(2) by (auto simp: rule_static_def fun_eq_iff fits_def ag_observation_dim_def ag_indices_def in_space_def space_ok_def)
  then show ?thesis using assms by (simp add: heuristic_camera_ok_def)
qed

lemma goal_state_ok:
  assumes R: "rng_ok R" and ok: "heuristic_camera_ok ag" and legal: "heuristic_legal ag (Acts obs)"
  shows "\<exists>goal g. goal_state R ag = Inr (goal, ag\<lparr>ra_random := g\<rparr>)"
proof -
  have self: "ag = ag\<lparr>ra_random := ra_random ag\<rparr>" by simp
  show ?thesis
  proof (cases "ag_index ag = controller")
    case True
    then obtain goals where "hc_goals ag = Some goals" using legal by auto
    then have "goal_state R ag = Inr (map_of goals (ag_index ag), ag)" using True by (simp add: goal_state_def)
    then show ?thesis using self by metis
  next
    case False
    show ?thesis
    proof (cases "ag_last_responses ag = []")
      case True
      then obtain seen where seen: "ag_last_observation ag = Some seen" "0 < ag_num_targets ag"
        using legal False by auto
      have mesh: "hc_mesh ag \<noteq> []" using ok by (simp add: heuristic_camera_ok_def)
      obtain states bits where sb: "seen_targets ag seen = Inr (states, bits)"
        using seen_targets_camera [OF _ seen(2), of seen] ok unfolding heuristic_camera_ok_def by blast
      let ?near = "map (\<lambda>t. states ! t) (flatnonzero bits)"
      obtain goals ag' where plan: "get_joint_goal_state R [(ag_index ag, ag_state ag)] ?near ag = (goals, ag')" by force
      obtain g where "ag' = ag\<lparr>ra_random := g\<rparr>" using joint_goals(3) [OF R mesh plan] by blast
      then have "own_goal R ag = (if ?near = [] then Inr (None, ag\<lparr>ra_random := ra_random ag\<rparr>)
          else Inr (map_of goals (ag_index ag), ag\<lparr>ra_random := g\<rparr>))"
        using plan by (simp add: own_goal_def seen(1) sb Let_def)
      then have "\<exists>goal g. own_goal R ag = Inr (goal, ag\<lparr>ra_random := g\<rparr>)" by meson
      then show ?thesis using True False by (simp add: goal_state_def)
    next
      case no: False
      then have "last (ag_last_responses ag) \<in> set (ag_last_responses ag)" by simp
      then obtain pose where "content (last (ag_last_responses ag)) = Pose pose"
        using ok unfolding heuristic_camera_ok_def by blast
      then have "goal_state R ag = Inr (Some pose, ag)" using False no by (simp add: goal_state_def)
      then show ?thesis using self by metis
    qed
  qed
qed

lemma heuristic_act_ok:
  assumes R: "rng_ok R" and ok: "heuristic_camera_ok ag" and legal: "heuristic_legal ag (Acts obs)"
  shows "\<exists>a ag'. heuristic_camera_act R ag = Inr (a, ag') \<and> in_space ag a \<and> heuristic_camera_ok ag' \<and> rule_static ag' = rule_static ag"
proof -
  obtain goal g where goal: "goal_state R ag = Inr (goal, ag\<lparr>ra_random := g\<rparr>)" using goal_state_ok [OF assms] by blast
  have sp: "space_ok ag" "in_space ag (hc_prev_action ag)" using ok by (simp_all add: heuristic_camera_ok_def)
  have keep: "heuristic_camera_ok (ag\<lparr>ra_random := r, ra_space_random := r', hc_prev_action := a\<rparr>)
      \<and> rule_static (ag\<lparr>ra_random := r, ra_space_random := r', hc_prev_action := a\<rparr>) = rule_static ag" if "in_space ag a" for r r' a
    using ok_same [OF ok, of "ag\<lparr>ra_random := r, ra_space_random := r', hc_prev_action := a\<rparr>"] ok that
    by (simp add: rule_static_def heuristic_camera_ok_def)
  have act: ?thesis if "heuristic_camera_act R ag = Inr (a, ag\<lparr>ra_random := r, ra_space_random := r', hc_prev_action := a\<rparr>)"
    "in_space ag a" for a r r' using that keep [OF that(2)] by blast
  show ?thesis
  proof (cases goal)
    case (Some pose)
    obtain orient angle where p: "pose = (orient, angle)" by force
    let ?v = "(normalize_angle (orient - cs_st_orientation (ag_state ag)), angle - cs_st_viewing_angle (ag_state ag))"
    have "clip_action (ag\<lparr>ra_random := g\<rparr>) ?v = clip_action ag ?v" by (simp add: clip_action_def)
    then have "heuristic_camera_act R ag
        = Inr (clip_action ag ?v, ag\<lparr>ra_random := g, ra_space_random := ra_space_random ag, hc_prev_action := clip_action ag ?v\<rparr>)"
      by (simp add: heuristic_camera_act_def goal Some p Let_def)
    then show ?thesis by (rule act) (rule clip_action_in [OF sp(1)])
  next
    case None
    obtain b g' where b: "binomial1 R g (1 / 10) = (b, g')" by force
    show ?thesis
    proof (cases "b = 0")
      case True
      then have "heuristic_camera_act R ag
          = Inr (hc_prev_action ag, ag\<lparr>ra_random := g', ra_space_random := ra_space_random ag, hc_prev_action := hc_prev_action ag\<rparr>)"
        by (simp add: heuristic_camera_act_def goal None b)
      then show ?thesis by (rule act) (rule sp(2))
    next
      case False
      obtain a h where a: "sample_box2 R (ra_space_random ag) (ra_low ag) (ra_high ag) = (a, h)" by (rule prod.exhaust)
      have "in_space ag a" using sample_action_in [OF R sp(1)] a by (simp add: sample_action_def)
      moreover have "heuristic_camera_act R ag = Inr (a, ag\<lparr>ra_random := g', ra_space_random := h, hc_prev_action := a\<rparr>)"
        using False by (simp add: heuristic_camera_act_def goal None b sample_action_def a)
      ultimately show ?thesis by (rule act [rotated])
    qed
  qed
qed


lemma heuristic_hear_ok:
  assumes R: "rng_ok R" "lists_sets order" and ok: "heuristic_camera_ok ag" and legal: "heuristic_legal ag (HearsRequests ms)"
  shows "\<exists>ag'. heuristic_camera_hear R order ms ag = Inr ag' \<and> heuristic_camera_ok ag' \<and> rule_static ag' = rule_static ag"
proof (cases "ag_index ag = controller")
  case False
  then have "heuristic_camera_hear R order ms ag = Inr (receive_requests ms ag)"
    by (simp add: heuristic_camera_hear_def receive_requests_def)
  moreover have "heuristic_camera_ok (receive_requests ms ag)"
    by (rule ok_same [OF ok]) (use ok in \<open>simp_all add: receive_requests_def rule_static_def heuristic_camera_ok_def\<close>)
  ultimately show ?thesis by (simp add: receive_requests_def rule_static_def)
next
  case True
  then obtain own where own: "ag_last_observation ag = Some own" using legal by auto
  have ag: "ag_team ag = CAMERA" "hc_mesh ag \<noteq> []" "fits ag own" using ok own by (auto simp: heuristic_camera_ok_def)
  have ms: "\<forall>m \<in> set ms. \<exists>obs. content m = Look (Some obs) \<and> fits ag obs" using legal True by auto
  obtain sv :: survey and goals g joint where h: "heuristic_camera_hear R order ms ag
      = Inr (ag\<lparr>ag_last_requests := ms, ra_random := g, hc_joint_observation := Some joint,
               hc_camera_states := Some (sv_cameras sv), hc_goals := Some goals\<rparr>)" (is "_ = Inr ?ag")
    "joint = joint_observation_of ag ms"
    "set (sv_cameras sv) = {(c, own_part ag obs) | c obs. (c, Look (Some obs)) \<in> set joint}"
    "dom (map_of goals) = {c. \<exists>st. (c, st) \<in> set (sv_cameras sv) \<and> near_targets (sv_targets sv) st \<noteq> []}"
    using hear_ok [OF R ag(1,2) True own ag(3) ms] by blast
  have "dom (map_of goals) \<subseteq> fst ` set joint" unfolding h(4,3) by force
  also have "\<dots> = insert controller (sender ` set ms)" by (simp add: h(2) joint_observation_of_def joint_entries(2))
  finally have "\<forall>c \<in> dom (map_of goals). c \<noteq> controller \<longrightarrow> c < ag_num_cameras ag" using legal True by auto
  moreover have "fits ?ag = fits ag" "in_space ?ag = in_space ag" "space_ok ?ag = space_ok ag"
    by (simp_all add: fun_eq_iff fits_def ag_observation_dim_def ag_indices_def in_space_def space_ok_def)
  ultimately have "heuristic_camera_ok ?ag" using ok by (simp add: heuristic_camera_ok_def)
  then show ?thesis using h(1) by (simp add: rule_static_def)
qed

lemma heuristic_call_ok:
  assumes R: "rng_ok R" "lists_sets order" and ok: "heuristic_camera_ok ag" and legal: "heuristic_legal ag call"
  shows "\<exists>v ms ag'. perform (heuristic_camera_handlers R seeding order has_space) call ag = Inr ((v, ms), ag')
    \<and> heuristic_camera_ok ag' \<and> rule_static ag' = rule_static ag
    \<and> (\<forall>a. v = Some a \<longrightarrow> in_space ag a) \<and> (\<forall>m \<in> set ms. heuristic_message_ok ag m)"
proof (cases call)
  case (Observes obs)
  then have fit: "fits ag obs" using legal by simp
  let ?ag = "(inputs_read obs ag)\<lparr>ag_last_observation := Some obs\<rparr>"
  have "heuristic_camera_ok ?ag" "rule_static ?ag = rule_static ag"
    by (rule ok_same [OF ok]) (use ok fit in \<open>simp_all add: inputs_read_def rule_static_def heuristic_camera_ok_def\<close>)
  then show ?thesis using Observes fit by (simp add: heuristic_camera_handlers_def observe_def check_inputs_eq)
next
  case Requests
  then show ?thesis using legal ok
    by (auto simp: heuristic_camera_handlers_def heuristic_camera_request_def heuristic_message_ok_def pack_message_def
        heuristic_camera_ok_def)
next
  case (HearsRequests ms)
  then show ?thesis using heuristic_hear_ok [OF R ok, of ms] legal by (auto simp: heuristic_camera_handlers_def)
next
  case Responds
  show ?thesis
  proof (cases "ag_index ag = controller")
    case True
    then obtain goals where g: "hc_goals ag = Some goals" using legal Responds by auto
    have "\<forall>(c, pose) \<in> set goals. c \<noteq> controller \<longrightarrow> c < ag_num_cameras ag"
      using ok g by (auto simp: heuristic_camera_ok_def dom_map_of_conv_image_fst)
    then show ?thesis using Responds True g ok
      by (auto simp: heuristic_camera_handlers_def heuristic_camera_respond_def heuristic_message_ok_def pack_message_def
          heuristic_camera_ok_def)
  qed (use Responds ok in \<open>simp add: heuristic_camera_handlers_def heuristic_camera_respond_def\<close>)
next
  case (HearsResponses ms)
  have "heuristic_camera_ok (receive_responses ms ag)"
    by (rule ok_same [OF ok]) (use ok legal HearsResponses in \<open>simp_all add: receive_responses_def rule_static_def heuristic_camera_ok_def\<close>)
  then show ?thesis using HearsResponses by (simp add: heuristic_camera_handlers_def receive_responses_def rule_static_def)
next
  case (Acts obs)
  then obtain a ag' where "heuristic_camera_act R ag = Inr (a, ag')" "in_space ag a" "heuristic_camera_ok ag'"
    "rule_static ag' = rule_static ag" using heuristic_act_ok [OF R(1) ok, of obs] legal by blast
  then show ?thesis using Acts by (auto simp: heuristic_camera_handlers_def)
qed


text \<open>From a successful reset on (with steps that are not negative), any legal calls in any order.\<close>

inductive heuristic_life ::
  "'g rng \<Rightarrow> (int option \<Rightarrow> 'g \<times> int) \<Rightarrow> (nat set \<Rightarrow> nat list) \<Rightarrow> ('g heuristic_camera \<Rightarrow> bool) \<Rightarrow> 'g heuristic_camera \<Rightarrow> bool"
  for R seeding order has_space where
  heuristic_born: "ag_team ag0 = CAMERA \<Longrightarrow> heuristic_camera_reset R seeding obs ag0 = Inr ag \<Longrightarrow> space_ok ag
    \<Longrightarrow> heuristic_life R seeding order has_space ag"
| heuristic_called: "heuristic_life R seeding order has_space ag \<Longrightarrow> heuristic_legal ag call
    \<Longrightarrow> perform (heuristic_camera_handlers R seeding order has_space) call ag = Inr (out, ag')
    \<Longrightarrow> heuristic_life R seeding order has_space ag'"

lemma length_mesh: "length (state_mesh max_range min_angle) = 756" "length (polar_grid max_range) = 2952"
  by (simp_all add: state_mesh_def polar_grid_def pairs_of_def spread_def length_concat sum_list_triv o_def)

lemma heuristic_reset_ok:
  assumes "ag_team ag0 = CAMERA" and "heuristic_camera_reset R seeding obs ag0 = Inr ag" and "space_ok ag"
  shows "heuristic_camera_ok ag"
proof -
  obtain ag1 where 1: "rule_reset R seeding obs ag0 = Inr ag1" using assms(2) by (auto simp: heuristic_camera_reset_def bind_res_Inr)
  have 2: "ag_team ag1 = CAMERA" "ag_last_observation ag1 = None" "ag_last_responses ag1 = []"
    using 1 assms(1) by (auto simp: rule_reset_def agent_reset_def bind_res_Inr Let_def case_prod_beta split: if_splits)
  have "state_mesh r m \<noteq> []" for r m using length_mesh(1) [of r m] by auto
  then show ?thesis
    using assms(2,3) 2 by (auto simp: heuristic_camera_reset_def 1 calculate_scores_def Let_def heuristic_camera_ok_def
        in_space_def space_ok_def vneg_def)
qed

lemma heuristic_life_ok:
  "heuristic_life R seeding order has_space ag \<Longrightarrow> rng_ok R \<Longrightarrow> lists_sets order \<Longrightarrow> heuristic_camera_ok ag"
proof (induction rule: heuristic_life.induct)
  case (heuristic_born ag0 obs ag)
  then show ?case by (intro heuristic_reset_ok)
next
  case (heuristic_called ag call out ag')
  then show ?case using heuristic_call_ok [of R order ag call seeding has_space] by force
qed

subsection \<open>Properties\<close>

text \<open>C22: a heuristic camera never fails. From its reset on, handlers called in any order in which it asks and
  plans only after it has observed and acts only on a plan, a pose it was told or what it sees, all return; every
  action lies in the action space of the camera; a camera asks the controller only, with an observation of the size
  of the episode; the controller answers other cameras of the episode only, with poses.\<close>

theorem heuristic_camera_never_fails:
  assumes "rng_ok R" and "lists_sets order" and "heuristic_life R seeding order has_space ag" and "heuristic_legal ag call"
  shows "\<exists>v ms ag'. perform (heuristic_camera_handlers R seeding order has_space) call ag = Inr ((v, ms), ag')
    \<and> heuristic_life R seeding order has_space ag'
    \<and> (\<forall>a. v = Some a \<longrightarrow> in_space ag a) \<and> (\<forall>m \<in> set ms. heuristic_message_ok ag m)"
  using heuristic_call_ok [OF assms(1,2) heuristic_life_ok [OF assms(3,1,2)] assms(4), of seeding has_space]
    heuristic_called [OF assms(3,4)] by blast

text \<open>What the agent reads, in an observation the environment made, is what the environment has.\<close>

definition knows_game :: "('g, 'm) env \<Rightarrow> 'h heuristic_camera \<Rightarrow> bool" where
  "knows_game s ag \<longleftrightarrow> ag_team ag = CAMERA \<and> ag_num_cameras ag = num_cameras s \<and> ag_num_targets ag = num_targets s
     \<and> ag_num_obstacles ag = num_obstacles s"

lemma reads_own:
  assumes "env_ok s" and "knows_game s ag" and "c < num_cameras s"
  shows "own_part ag (observation_of CAMERA s c) = camera_state (cameras s ! c) True"
    and "fits ag (observation_of CAMERA s c)"
  using self_slice [of s c CAMERA] observation_fits [of s c CAMERA ag] assms
  by (simp_all add: own_part_def ag_slices_def knows_game_def env_ok_def num_agents_def self_part_def)

lemma reads_targets:
  assumes s: "env_ok s" and ag: "knows_game s ag" and c: "c < num_cameras s" and t: "t < num_targets s"
  shows "target_row ag (observation_of CAMERA s c) t
    = (if camera_target_view_mask s ! c ! t then (target_state (targets s ! t) False, True)
       else (replicate (public_dim TARGET) 0, False))"
proof -
  have row: "get_opponent_state (agent_of CAMERA s c) (observation_of CAMERA s c) (int t) = Inr (target_row ag (observation_of CAMERA s c) t)"
    using ag t by (simp add: get_opponent_state_def target_row_def knows_game_def ag_num_opponents_def ag_indices_def
        opponent_def team_count_def)
  have "view_shapes s" "c < num_agents CAMERA s" "t < num_agents (opponent CAMERA) s"
    using s c t by (simp_all add: env_ok_def num_agents_def opponent_def)
  then have "get_opponent_state (agent_of CAMERA s c) (observation_of CAMERA s c) (int t)
      = Inr (if opponent_seen CAMERA s c ! t then (public_state (opponent CAMERA) s t, True)
             else (replicate (public_dim (opponent CAMERA)) 0, False))"
    using getters_read_back [of s c CAMERA] by blast
  then show ?thesis unfolding row by (simp add: opponent_seen_def public_state_def opponent_def)
qed

lemma joint_of_requests:
  assumes "0 < num_cameras s" and "ag_last_observation ag = Some (observation_of CAMERA s 0)"
    and "\<forall>m \<in> set ms. sender m < num_cameras s \<and> content m = Look (Some (observation_of CAMERA s (sender m)))"
    and "{1..<num_cameras s} \<subseteq> sender ` set ms"
  shows "set (joint_observation_of ag ms) = (\<lambda>c. (c, Look (Some (observation_of CAMERA s c)))) ` {..<num_cameras s}"
proof (rule antisym)
  let ?joint = "joint_observation_of ag ms"
  show sub: "set ?joint \<subseteq> (\<lambda>c. (c, Look (Some (observation_of CAMERA s c)))) ` {..<num_cameras s}"
    using joint_entries(1) [of ms "[(controller, Look (ag_last_observation ag))]"] assms(1-3)
    by (auto simp: joint_observation_of_def controller_def)
  have keys: "fst ` set ?joint = insert controller (sender ` set ms)" by (simp add: joint_observation_of_def joint_entries(2))
  show "(\<lambda>c. (c, Look (Some (observation_of CAMERA s c)))) ` {..<num_cameras s} \<subseteq> set ?joint"
  proof
    fix e assume "e \<in> (\<lambda>c. (c, Look (Some (observation_of CAMERA s c)))) ` {..<num_cameras s}"
    then obtain c where c: "c < num_cameras s" "e = (c, Look (Some (observation_of CAMERA s c)))" by blast
    have "c = controller \<or> c \<in> {1..<num_cameras s}" using c(1) by (auto simp: controller_def)
    then have "c \<in> fst ` set ?joint" using keys assms(4) by blast
    then obtain w where w: "(c, w) \<in> set ?joint" by force
    then have "w = Look (Some (observation_of CAMERA s c))" using sub by auto
    then show "e \<in> set ?joint" using w c(2) by simp
  qed
qed

lemma survey_finds:
  assumes s: "env_ok s" "knows_game s ag" and sv: "surveyed ag (observation_of CAMERA s ` {..<num_cameras s}) sv"
  shows "(t, ts) \<in> set (sv_targets sv) \<longleftrightarrow>
    t < num_targets s \<and> (\<exists>i < num_cameras s. camera_target_view_mask s ! i ! t) \<and> ts = target_state (targets s ! t) False"
proof -
  note row = reads_targets [OF s]
  have nt: "ag_num_targets ag = num_targets s" using s(2) by (simp add: knows_game_def)
  have seen: "snd (target_row ag (observation_of CAMERA s c) t) \<longleftrightarrow> camera_target_view_mask s ! c ! t"
    "camera_target_view_mask s ! c ! t \<Longrightarrow> fst (target_row ag (observation_of CAMERA s c) t) = target_state (targets s ! t) False"
    if "c < num_cameras s" "t < num_targets s" for c t using row [OF that] by simp_all
  have sv1: "fst ` set (sv_targets sv) = {t. t < num_targets s \<and> (\<exists>i < num_cameras s. camera_target_view_mask s ! i ! t)}"
    using sv seen(1) by (auto simp: surveyed_def nt)
  have sv2: "ts = target_state (targets s ! t) False" if in_sv: "(t, ts) \<in> set (sv_targets sv)" for t ts
  proof -
    have t: "t < num_targets s" using sv1 in_sv by force
    obtain c where "c < num_cameras s" "snd (target_row ag (observation_of CAMERA s c) t)"
      "ts = fst (target_row ag (observation_of CAMERA s c) t)" using sv in_sv by (auto simp: surveyed_def)
    then show ?thesis using seen t by simp
  qed
  show ?thesis
  proof
    assume known: "(t, ts) \<in> set (sv_targets sv)"
    then have "t \<in> fst ` set (sv_targets sv)" by force
    then show "t < num_targets s \<and> (\<exists>i < num_cameras s. camera_target_view_mask s ! i ! t) \<and> ts = target_state (targets s ! t) False"
      using sv2 [OF known] unfolding sv1 by blast
  next
    assume r: "t < num_targets s \<and> (\<exists>i < num_cameras s. camera_target_view_mask s ! i ! t) \<and> ts = target_state (targets s ! t) False"
    then have "t \<in> fst ` set (sv_targets sv)" unfolding sv1 by blast
    then obtain ts' where known: "(t, ts') \<in> set (sv_targets sv)" by force
    then show "(t, ts) \<in> set (sv_targets sv)" using sv2 [OF known] r by simp
  qed
qed

lemma near_in_environment:
  fixes s :: "('g, 'm) env"
  assumes "camera_ok cam"
    and "\<And>t ts. (t, ts) \<in> set known \<longleftrightarrow> t < num_targets s \<and> seen t \<and> ts = target_state (targets s ! t) False"
  shows "near_targets known (camera_state cam True) \<noteq> []
    \<longleftrightarrow> (\<exists>t < num_targets s. seen t \<and> vnorm (vsub (location (targets s ! t)) (location cam)) \<le> max_sight_range cam)"
proof -
  have "st_location (target_state u False) = location u" for u :: "'g target" by (simp add: st_location_def target_state_def)
  then have d: "st_dist (target_state u False) (camera_state cam True) = vnorm (vsub (location u) (location cam))"
    for u :: "'g target" by (simp add: st_dist_def st_minus_def camera_state_reads(1) [OF assms(1)])
  have "near_targets known (camera_state cam True) \<noteq> []
      \<longleftrightarrow> (\<exists>t ts. (t, ts) \<in> set known \<and> st_dist ts (camera_state cam True) \<le> max_sight_range cam)"
    by (simp add: near_targets_def filter_empty_conv camera_state_reads(6) [OF assms(1)] Bex_def split_paired_Ex del: not_ex)
  then show ?thesis unfolding assms(2) using d by auto
qed

text \<open>C21: the plan of the controller, from the observations the environment has made in one state, its own and those
  the other cameras sent: planning never fails, exactly those cameras get a goal that have, within their largest
  sight range, a target that is seen by some camera of the team, and every goal is a pose of the mesh.\<close>

theorem controller_plans:
  assumes "rng_ok R" and "lists_sets order" and "env_ok s" and "0 < num_cameras s"
    and "heuristic_camera_ok ag" and "knows_game s ag" and "ag_index ag = controller"
    and "ag_last_observation ag = Some (observation_of CAMERA s 0)"
    and "\<forall>m \<in> set ms. sender m < num_cameras s \<and> content m = Look (Some (observation_of CAMERA s (sender m)))"
    and "{1..<num_cameras s} \<subseteq> sender ` set ms"
  shows "\<exists>ag' goals. heuristic_camera_hear R order ms ag = Inr ag' \<and> hc_goals ag' = Some goals
    \<and> (\<forall>c. map_of goals c \<noteq> None \<longleftrightarrow> c < num_cameras s
        \<and> (\<exists>t < num_targets s. (\<exists>i < num_cameras s. camera_target_view_mask s ! i ! t)
             \<and> vnorm (vsub (location (targets s ! t)) (location (cameras s ! c))) \<le> max_sight_range (cameras s ! c)))
    \<and> ran (map_of goals) \<subseteq> (\<lambda>pose. (fst pose, fst (snd pose))) ` set (hc_mesh ag)"
proof -
  let ?obs = "observation_of CAMERA s" and ?n = "num_cameras s"
  note read = reads_own [OF assms(3,6)] and joint = joint_of_requests [OF assms(4,8-10)]
  have ag: "ag_team ag = CAMERA" "hc_mesh ag \<noteq> []" using assms(5) by (simp_all add: heuristic_camera_ok_def)
  have ms: "\<forall>m \<in> set ms. \<exists>obs. content m = Look (Some obs) \<and> fits ag obs" using assms(9) read(2) by blast
  obtain sv :: survey and goals g where h: "heuristic_camera_hear R order ms ag
      = Inr (ag\<lparr>ag_last_requests := ms, ra_random := g, hc_joint_observation := Some (joint_observation_of ag ms),
               hc_camera_states := Some (sv_cameras sv), hc_goals := Some goals\<rparr>)"
    "surveyed ag {obs. \<exists>c. (c, Look (Some obs)) \<in> set (joint_observation_of ag ms)} sv"
    "set (sv_cameras sv) = {(c, own_part ag obs) | c obs. (c, Look (Some obs)) \<in> set (joint_observation_of ag ms)}"
    "dom (map_of goals) = {c. \<exists>st. (c, st) \<in> set (sv_cameras sv) \<and> near_targets (sv_targets sv) st \<noteq> []}"
    "ran (map_of goals) \<subseteq> (\<lambda>pose. (fst pose, fst (snd pose))) ` set (hc_mesh ag)"
    using hear_ok [OF assms(1,2) ag assms(7,8) read(2) [OF assms(4)] ms] by blast
  have "{obs. \<exists>c. (c, Look (Some obs)) \<in> set (joint_observation_of ag ms)} = ?obs ` {..<?n}"
    unfolding joint by auto
  then have sv: "surveyed ag (?obs ` {..<?n}) sv" using h(2) by simp
  have "(c, Look (Some obs)) \<in> set (joint_observation_of ag ms) \<longleftrightarrow> c < ?n \<and> obs = ?obs c" for c obs
    unfolding joint by auto
  then have cams: "(c, st) \<in> set (sv_cameras sv) \<longleftrightarrow> c < ?n \<and> st = camera_state (cameras s ! c) True" for c st
    unfolding h(3) using read(1) by auto
  let ?near = "\<lambda>c. \<exists>t < num_targets s. (\<exists>i < ?n. camera_target_view_mask s ! i ! t)
      \<and> vnorm (vsub (location (targets s ! t)) (location (cameras s ! c))) \<le> max_sight_range (cameras s ! c)"
  have "map_of goals c \<noteq> None \<longleftrightarrow> c < ?n \<and> near_targets (sv_targets sv) (camera_state (cameras s ! c) True) \<noteq> []" for c
    using h(4) cams by (auto simp: set_eq_iff domIff simp del: not_None_eq)
  moreover have "near_targets (sv_targets sv) (camera_state (cameras s ! c) True) \<noteq> [] \<longleftrightarrow> ?near c" if "c < ?n" for c
    using near_in_environment [OF _ survey_finds [OF assms(3,6) sv]] assms(3) that unfolding env_ok_def by blast
  ultimately have "map_of goals c \<noteq> None \<longleftrightarrow> c < ?n \<and> ?near c" for c by meson
  then show ?thesis using h(1,5) by (intro exI [of _ goals] exI conjI allI) (rule h(1), simp_all)
qed

text \<open>The entries of the table. The circle inscribed in a sector has the radius \<open>dist_max\<close>, so no place is deeper inside.\<close>

lemma sin_deg_mono:
  assumes "- 90 \<le> x" and "x \<le> y" and "y \<le> 90"
  shows "sin_deg x \<le> sin_deg y"
proof -
  have deg: "deg2rad a \<le> deg2rad b" if "a \<le> b" for a b using that by (simp add: deg2rad_def divide_right_mono)
  have "deg2rad (- 90) = - (pi / 2)" by (simp add: deg2rad_def)
  then show ?thesis
    using deg [OF assms(1)] deg [OF assms(2)] deg [OF assms(3)] unfolding sin_deg_def by (intro sin_monotone_2pi_le) simp_all
qed

lemma sin_deg_pos: "0 < x \<Longrightarrow> x < 180 \<Longrightarrow> 0 < sin_deg x"
  unfolding sin_deg_def deg2rad_def by (rule sin_gt_zero) (auto simp: field_simps)

lemma inscribed_depth:
  fixes rho d S sight :: real
  assumes "0 < S" and "d \<le> sight - rho" and "d \<le> rho * S"
  shows "d \<le> sight / (1 + 1 / S)"
proof -
  have "d / S \<le> rho" using assms(1,3) by (simp add: divide_le_eq)
  then have "d * (1 + 1 / S) \<le> sight" using assms(2) by (simp add: algebra_simps)
  moreover have "0 < 1 + 1 / S" using assms(1) by (simp add: add_pos_pos)
  ultimately show ?thesis by (simp add: le_divide_eq)
qed

lemma pose_score_bounds:
  assumes "0 < angle" and "angle \<le> 180" and "0 < sight" and "0 \<le> rho"
  shows "0 \<le> pose_score (orient, angle, sight) (rho, phi) \<and> pose_score (orient, angle, sight) (rho, phi) \<le> 1
    \<and> (0 < pose_score (orient, angle, sight) (rho, phi) \<longrightarrow> rho < sight \<and> \<bar>normalize_angle (phi - orient)\<bar> \<le> angle / 2)"
proof (cases "rho \<le> sight \<and> \<bar>normalize_angle (phi - orient)\<bar> \<le> angle / 2")
  case False
  then show ?thesis by (auto simp: pose_score_def Let_def)
next
  case True
  define delta where "delta = \<bar>normalize_angle (phi - orient)\<bar>"
  define dist where "dist = max (min (min rho (sight - rho)) (rho * sin_deg (min (angle / 2 - delta) 90))) 0"
  define dist_max where "dist_max = (if angle < 180 then sight / (1 + 1 / sin_deg (angle / 2)) else sight / 2)"
  have score: "pose_score (orient, angle, sight) (rho, phi) = dist / dist_max * (1 - rho / sight)"
    using True by (simp add: pose_score_def Let_def dist_def dist_max_def delta_def)
  have half: "0 < sin_deg (angle / 2)" using assms(1,2) by (intro sin_deg_pos) simp_all
  have delta: "0 \<le> delta" "delta \<le> angle / 2" using True by (simp_all add: delta_def)
  have "sin_deg (min (angle / 2 - delta) 90) \<le> sin_deg (angle / 2)" using delta assms(1,2) by (intro sin_deg_mono) auto
  then have d: "min (min rho (sight - rho)) (rho * sin_deg (min (angle / 2 - delta) 90)) \<le> rho * sin_deg (angle / 2)"
    using assms(4) by (meson min.coboundedI2 mult_left_mono)
  have pos: "0 < dist_max"
    using half assms(3) by (auto simp: dist_max_def intro!: divide_pos_pos add_pos_pos)
  have "dist \<le> dist_max"
  proof (cases "angle < 180")
    case True
    then show ?thesis using inscribed_depth [OF half _ d, of sight] pos by (simp add: dist_def dist_max_def)
  next
    case False
    then have "dist_max = sight / 2" by (simp add: dist_max_def)
    then show ?thesis using assms(3,4) by (auto simp: dist_def)
  qed
  moreover have "0 \<le> dist" by (simp add: dist_def)
  ultimately have q: "0 \<le> dist / dist_max" "dist / dist_max \<le> 1" using pos by simp_all
  have w: "0 \<le> 1 - rho / sight" "1 - rho / sight \<le> 1" using True assms(3,4) by (simp_all add: divide_le_eq)
  have "rho < sight" if "0 < dist / dist_max * (1 - rho / sight)"
  proof (rule ccontr)
    assume "\<not> rho < sight"
    then have "rho = sight" using True by simp
    then show False using that assms(3) by simp
  qed
  moreover have "0 \<le> dist / dist_max * (1 - rho / sight)" "dist / dist_max * (1 - rho / sight) \<le> 1"
    by (rule mult_nonneg_nonneg [OF q(1) w(1)], rule mult_le_one [OF q(2) w])
  ultimately show ?thesis using True unfolding score by blast
qed

lemma mesh_poses:
  assumes "pose \<in> set (state_mesh max_range min_angle)" and "0 < min_angle" and "min_angle \<le> 180" and "0 < max_range"
  shows "\<exists>orient angle. pose = (orient, angle, max_range * sqrt (min_angle / angle)) \<and> - 180 \<le> orient \<and> orient < 180
    \<and> min_angle \<le> angle \<and> angle \<le> 180"
proof -
  obtain j k :: nat where jk: "j < 36" "k < 21"
    "pose = (- 180 + real j * (360 / 36), min_angle + real k * ((180 - min_angle) / 20),
       max_range * sqrt (min_angle / (min_angle + real k * ((180 - min_angle) / 20))))"
    using assms(1) by (auto simp: state_mesh_def pairs_of_def spread_def MAX_CAMERA_VIEWING_ANGLE_def)
  have "real k * ((180 - min_angle) / 20) \<le> 20 * ((180 - min_angle) / 20)"
    using jk(2) assms(3) by (intro mult_right_mono) auto
  moreover have "0 \<le> real k * ((180 - min_angle) / 20)" using assms(3) by simp
  ultimately show ?thesis using jk by simp
qed

text \<open>The table of scores has one row for each of the 2952 places and one entry for each of the 756 poses of
  the mesh; poses are angles a camera can take; every score is between 0 and 1, and only a place inside the sector of
  the pose scores at all.\<close>

lemma calculate_scores_bounded:
  assumes "0 < max_range" and "0 < min_angle" and "min_angle \<le> 180" and "calculate_scores max_range min_angle = (mesh, grid, scores)"
    and "i < 2952" and "k < 756"
  shows "length scores = 2952 \<and> length (scores ! i) = 756 \<and> grid ! i = (case polar_grid max_range ! i of (rho, phi) \<Rightarrow> polar2cartesian rho phi)
    \<and> (\<exists>orient angle sight. mesh ! k = (orient, angle, sight) \<and> - 180 \<le> orient \<and> orient < 180 \<and> min_angle \<le> angle \<and> angle \<le> 180
        \<and> sight\<^sup>2 * angle = max_range\<^sup>2 * min_angle
        \<and> 0 \<le> scores ! i ! k \<and> scores ! i ! k \<le> 1
        \<and> (0 < scores ! i ! k \<longrightarrow> (case polar_grid max_range ! i of (rho, phi) \<Rightarrow>
              rho < sight \<and> \<bar>normalize_angle (phi - orient)\<bar> \<le> angle / 2)))"
proof -
  note L = length_mesh(1) [of max_range min_angle] length_mesh(2) [of max_range]
  have eq: "mesh = state_mesh max_range min_angle" "grid = map (\<lambda>(rho, phi). polar2cartesian rho phi) (polar_grid max_range)"
    "scores = map (\<lambda>place_at. map (\<lambda>pose. pose_score pose place_at) (state_mesh max_range min_angle)) (polar_grid max_range)"
    using assms(4) by (auto simp: calculate_scores_def Let_def)
  have "state_mesh max_range min_angle ! k \<in> set (state_mesh max_range min_angle)" using assms(6) L by simp
  then obtain orient angle where p: "mesh ! k = (orient, angle, max_range * sqrt (min_angle / angle))"
    "- 180 \<le> orient" "orient < 180" "min_angle \<le> angle" "angle \<le> 180"
    using mesh_poses [OF _ assms(2,3,1)] eq(1) by blast
  define sight where "sight = max_range * sqrt (min_angle / angle)"
  have sight: "0 < sight" "sight\<^sup>2 * angle = max_range\<^sup>2 * min_angle"
    using assms(1,2) p(4) by (simp_all add: sight_def power_mult_distrib)
  obtain rho phi where r: "polar_grid max_range ! i = (rho, phi)" by force
  have "(rho, phi) \<in> set (polar_grid max_range)" using assms(5) L nth_mem [of i "polar_grid max_range"] r by simp
  then have "0 \<le> rho" using assms(1) by (auto simp: polar_grid_def pairs_of_def spread_def)
  from pose_score_bounds [OF _ p(5) sight(1) this, of orient phi] show ?thesis
    using assms(2,5,6) p sight(2) r L by (simp add: eq sight_def [symmetric])
qed

subsection \<open>The controller of the demonstration\<close>

definition demo_planner :: "nat heuristic_camera" where
  "demo_planner =
     \<lparr>ag_team = CAMERA, ag_num_cameras = 0, ag_num_targets = 0, ag_num_obstacles = 0, ag_index = 0,
      ag_state = [], ag_episode_step = - 1, ag_step_counter = 0, ag_last_observation = None,
      ag_last_requests = [], ag_last_responses = [], ra_random = 0, ra_space_random = 0,
      ra_low = (0, 0), ra_high = (0, 0), hc_mesh = [], hc_grid = [], hc_scores = [], hc_camera_states = None,
      hc_joint_observation = None, hc_goals = None, hc_prev_action = (0, 0)\<rparr>"

lemma demo_planner_observes:
  "\<exists>ag. heuristic_life counter_rng demo_seeding sorted_list_of_set (\<lambda>_. True) ag \<and> knows_game demo_start ag
    \<and> ag_index ag = controller \<and> ag_last_observation ag = Some (observation_of CAMERA demo_start 0)"
proof -
  let ?obs = "observation_of CAMERA demo_start 0"
  let ?H = "heuristic_camera_handlers counter_rng demo_seeding sorted_list_of_set (\<lambda>_. True)"
  have n: "0 < num_agents CAMERA demo_start" by (simp add: num_agents_def demo_start_ok)
  have s: "view_shapes demo_start" "steps_positive demo_start" using demo_view_shapes env_ok_steps [OF demo_start_ok(1)] by simp_all
  have team: "ag_team demo_planner = CAMERA" by (simp add: demo_planner_def)
  obtain ag1 where 1: "rule_reset counter_rng demo_seeding ?obs demo_planner = Inr ag1" "ag_team ag1 = CAMERA" "space_ok ag1"
    "ag_num_cameras ag1 = num_cameras demo_start" "ag_num_targets ag1 = num_targets demo_start"
    "ag_num_obstacles ag1 = num_obstacles demo_start" "ag_index ag1 = 0"
    using rule_reset_ready [OF s n team] by blast
  obtain ag2 where 2: "heuristic_camera_reset counter_rng demo_seeding ?obs demo_planner = Inr ag2" "rule_static ag2 = rule_static ag1"
    by (simp add: heuristic_camera_reset_def 1(1) calculate_scores_def Let_def rule_static_def)
  have born: "heuristic_life counter_rng demo_seeding sorted_list_of_set (\<lambda>_. True) ag2"
    by (rule heuristic_born [OF team 2(1)]) (use 1(3) 2(2) in \<open>simp add: rule_static_def space_ok_def\<close>)
  have knows: "knows_game demo_start ag2" "ag_index ag2 = controller"
    using 1(2,4-7) 2(2) by (simp_all add: rule_static_def knows_game_def controller_def)
  have fit: "fits ag2 ?obs" using reads_own(2) [OF demo_start_ok(1) knows(1)] by (simp add: demo_start_ok)
  then have "perform ?H (Observes ?obs) ag2 = Inr ((None, []), (inputs_read ?obs ag2)\<lparr>ag_last_observation := Some ?obs\<rparr>)"
    by (simp add: heuristic_camera_handlers_def observe_def check_inputs_eq)
  from heuristic_called [OF born _ this] fit knows show ?thesis
    by (intro exI [of _ "(inputs_read ?obs ag2)\<lparr>ag_last_observation := Some ?obs\<rparr>"])
      (simp add: inputs_read_def knows_game_def)
qed

lemma counted_sets: "lists_sets sorted_list_of_set"
  by (simp add: lists_sets_def)

theorem heuristic_camera_never_fails_witness:
  "\<exists>ag out ag' v ms ag''. heuristic_life counter_rng demo_seeding sorted_list_of_set (\<lambda>_. True) ag
    \<and> perform (heuristic_camera_handlers counter_rng demo_seeding sorted_list_of_set (\<lambda>_. True)) (HearsRequests []) ag = Inr (out, ag')
    \<and> perform (heuristic_camera_handlers counter_rng demo_seeding sorted_list_of_set (\<lambda>_. True)) (HearsResponses []) ag' = Inr ((v, ms), ag'')"
proof -
  obtain ag where ag: "heuristic_life counter_rng demo_seeding sorted_list_of_set (\<lambda>_. True) ag"
    "ag_last_observation ag = Some (observation_of CAMERA demo_start 0)"
    using demo_planner_observes by blast
  have legal: "heuristic_legal ag (HearsRequests [])" by (simp add: ag(2))
  note first = heuristic_camera_never_fails [OF counter_rng_ok counted_sets ag(1) legal]
  have "heuristic_legal a (HearsResponses [])" for a :: "nat heuristic_camera" by simp
  note second = heuristic_camera_never_fails [OF counter_rng_ok counted_sets _ this]
  show ?thesis using first second ag(1) by meson
qed

theorem controller_plans_witness:
  "\<exists>(ag :: nat heuristic_camera) ag' goals. heuristic_camera_hear counter_rng sorted_list_of_set [] ag = Inr ag' \<and> hc_goals ag' = Some goals
    \<and> (map_of goals 0 \<noteq> None \<longleftrightarrow> camera_target_view_mask demo_start ! 0 ! 0
         \<and> vnorm (vsub (location (targets demo_start ! 0)) (location (cameras demo_start ! 0))) \<le> max_sight_range (cameras demo_start ! 0))"
proof -
  obtain ag :: "nat heuristic_camera" where ag: "heuristic_life counter_rng demo_seeding sorted_list_of_set (\<lambda>_. True) ag" "knows_game demo_start ag"
    "ag_index ag = controller" "ag_last_observation ag = Some (observation_of CAMERA demo_start 0)"
    using demo_planner_observes by blast
  have n: "0 < num_cameras demo_start" "{1..<num_cameras demo_start} \<subseteq> sender ` set ([] :: camera_word message list)"
    "\<forall>m \<in> set ([] :: camera_word message list). sender m < num_cameras demo_start
      \<and> content m = Look (Some (observation_of CAMERA demo_start (sender m)))"
    by (simp_all add: demo_start_ok)
  have one: "num_cameras demo_start = 1" "num_targets demo_start = 1" by (simp_all add: demo_start_ok)
  from controller_plans [OF counter_rng_ok counted_sets demo_start_ok(1) n(1) heuristic_life_ok [OF ag(1) counter_rng_ok counted_sets]
      ag(2-4) n(3,2)]
  obtain ag' goals where h: "heuristic_camera_hear counter_rng sorted_list_of_set [] ag = Inr ag'" "hc_goals ag' = Some goals"
    "\<forall>c. map_of goals c \<noteq> None \<longleftrightarrow> c < num_cameras demo_start
        \<and> (\<exists>t < num_targets demo_start. (\<exists>i < num_cameras demo_start. camera_target_view_mask demo_start ! i ! t)
             \<and> vnorm (vsub (location (targets demo_start ! t)) (location (cameras demo_start ! c))) \<le> max_sight_range (cameras demo_start ! c))"
    by blast
  from spec [OF h(3), of 0] h(1,2) show ?thesis unfolding one less_one by blast
qed

end
