(* ===== verification/Evaluation.thy ===== *)
theory Evaluation
  imports Dialects
begin

text \<open>
  The evaluation of \<^verbatim>\<open>mate/evaluate.py\<close>: target agents play whole episodes in a single-team environment
  whose opponents are camera agents. \<open>evaluate\<close> resets, then plays rounds until the clock reaches the limit or
  the environment reports the end, and returns the last line of the statistics; \<open>main\<close> repeats it. Here every
  part of the development meets: the agents talk through the wrapper, the wrapper plays the opponents, the
  environment moves, pays and reports.

  Rendering, the video and the times are not modelled; no agent of the program has belief diagnostics, so what
  collecting them does is to read the global state, which the environment caches.
\<close>

subsection \<open>One line of statistics\<close>

record report =
  rp_step :: int
  rp_cargoes :: int
  rp_reward :: int
  rp_episode_reward :: int
  rp_per_cargo :: "real option"
  rp_transport :: real
  rp_coverage :: real
  rp_normalized :: real

definition mean_of :: "real list \<Rightarrow> real" where
  "mean_of xs = sum_list xs / real (length xs)"

text \<open>\<open>np.nan\<close> is \<open>None\<close>.\<close>

definition report_of :: "('g, 'm) env \<Rightarrow> int \<Rightarrow> int \<Rightarrow> real list \<Rightarrow> report" where
  "report_of s reward earned rates =
     \<lparr>rp_step = episode_step s, rp_cargoes = num_delivered_cargoes s, rp_reward = reward, rp_episode_reward = earned,
      rp_per_cargo = (if num_delivered_cargoes s > 0
                      then Some (of_int (episode_step s) / of_int (num_delivered_cargoes s)) else None),
      rp_transport = mean_transport_rate s, rp_coverage = mean_of rates,
      rp_normalized = of_int earned / of_int (max_target_team_episode_reward s)\<rparr>"

subsection \<open>An episode\<close>

text \<open>What the single-team wrapper does with the messages its team sends.\<close>

definition own_channel ::
  "team \<Rightarrow> ('m mailbox \<Rightarrow> 'm message list \<Rightarrow> 'm mailbox res) \<Rightarrow> 'm mailbox \<Rightarrow> 'm message list \<Rightarrow> 'm mailbox res" where
  "own_channel side send mb ms =
     bind_res (check AssertionError (list_all (\<lambda>m. msg_team m = side) ms)) (\<lambda>_. send mb ms)"

record ('b, 'a, 'g, 'm) evaluation =
  ev_env :: "('a, 'g, 'm) multi_agent"
  ev_agents :: "'b list"
  ev_obs :: "real list list"
  ev_infos :: "'m agent_info list option"
  ev_reward :: int
  ev_rates :: "real list"
  ev_status :: "report option"
  ev_done :: bool

definition diagnose :: "int \<Rightarrow> ('g, 'm) env \<Rightarrow> ('g, 'm) env" where
  "diagnose stride s = (if stride > 0 \<and> episode_step s mod stride = 0 then snd (env_state s) else s)"

definition evaluate_round ::
  "bool option \<Rightarrow> int \<Rightarrow> ('m mailbox \<Rightarrow> 'm message list \<Rightarrow> 'm mailbox res) \<Rightarrow> ('b, 'm) handlers \<Rightarrow> ('a, 'm) handlers
    \<Rightarrow> 'g rng \<Rightarrow> interp \<Rightarrow> (nat list \<Rightarrow> nat list) \<Rightarrow> ('b, 'a, 'g, 'm) evaluation \<Rightarrow> ('b, 'a, 'g, 'm) evaluation res" where
  "evaluate_round repeated stride send Ht Hc R interp1d order ev =
     (let ma = ev_env ev
      in bind_res (group_step (own_channel TARGET send) Ht (ev_agents ev) (ev_obs ev) (ev_infos ev) (mail (inner ma)))
           (\<lambda>(vs, agents, mb).
         bind_res (multi_step repeated send Hc TARGET R interp1d order (flat_actions vs) (ma\<lparr>inner := (inner ma)\<lparr>mail := mb\<rparr>\<rparr>))
           (\<lambda>(tr, ma').
           case (tr_reward tr, tr_done tr) of
             (Shared reward, Together d) \<Rightarrow>
               (let rates = ev_rates ev @ [coverage_rate (inner ma')];
                    s = diagnose stride (inner ma');
                    earned = ev_reward ev + reward
                in Inr \<lparr>ev_env = ma'\<lparr>inner := s\<rparr>, ev_agents = agents, ev_obs = tr_obs tr, ev_infos = Some (tr_infos tr),
                        ev_reward = earned, ev_rates = rates,
                        ev_status = (if num_delivered_cargoes s > 0 \<or> d then Some (report_of s reward earned rates)
                                     else ev_status ev),
                        ev_done = d\<rparr>)
           | _ \<Rightarrow> Inl TypeError)))"

partial_function (option) evaluate_loop ::
  "bool option \<Rightarrow> int \<Rightarrow> ('m mailbox \<Rightarrow> 'm message list \<Rightarrow> 'm mailbox res) \<Rightarrow> ('b, 'm) handlers \<Rightarrow> ('a, 'm) handlers
    \<Rightarrow> 'g rng \<Rightarrow> interp \<Rightarrow> (nat list \<Rightarrow> nat list) \<Rightarrow> ('b, 'a, 'g, 'm) evaluation
    \<Rightarrow> ('b, 'a, 'g, 'm) evaluation res option" where
  "evaluate_loop repeated stride send Ht Hc R interp1d order ev =
     (if episode_step (inner (ev_env ev)) < max_episode_steps (settings (inner (ev_env ev)))
      then (case evaluate_round repeated stride send Ht Hc R interp1d order ev of
              Inl e \<Rightarrow> Some (Inl e)
            | Inr ev' \<Rightarrow> if ev_done ev' then Some (Inr ev')
                        else evaluate_loop repeated stride send Ht Hc R interp1d order ev')
      else Some (Inr ev))"

definition evaluate ::
  "bool option \<Rightarrow> int \<Rightarrow> ('m mailbox \<Rightarrow> 'm message list \<Rightarrow> 'm mailbox res) \<Rightarrow> ('b, 'm) handlers \<Rightarrow> ('a, 'm) handlers
    \<Rightarrow> 'g rng \<Rightarrow> (int option \<Rightarrow> 'g \<times> int) \<Rightarrow> interp \<Rightarrow> (nat list \<Rightarrow> nat list) \<Rightarrow> ('a, 'g, 'm) multi_agent \<Rightarrow> 'b list
    \<Rightarrow> ('b, 'a, 'g, 'm) evaluation res option" where
  "evaluate repeated stride send Ht Hc R seeding interp1d order ma agents =
     (case multi_reset Hc TARGET R seeding interp1d order None ma of
        None \<Rightarrow> None
      | Some (Inl e) \<Rightarrow> Some (Inl e)
      | Some (Inr (obs, ma1)) \<Rightarrow>
          (case group_reset Ht agents obs of
             Inl e \<Rightarrow> Some (Inl e)
           | Inr agents1 \<Rightarrow> evaluate_loop repeated stride send Ht Hc R interp1d order
               \<lparr>ev_env = ma1, ev_agents = agents1, ev_obs = obs, ev_infos = None, ev_reward = 0, ev_rates = [],
                ev_status = None, ev_done = False\<rparr>))"

subsection \<open>Several episodes\<close>

text \<open>The loop of \<open>main\<close> without rendering: the line of each episode is kept, and \<open>status['FPS']\<close> is looked up.\<close>

fun evaluate_episodes ::
  "nat \<Rightarrow> bool option \<Rightarrow> int \<Rightarrow> ('m mailbox \<Rightarrow> 'm message list \<Rightarrow> 'm mailbox res) \<Rightarrow> ('b, 'm) handlers \<Rightarrow> ('a, 'm) handlers
    \<Rightarrow> 'g rng \<Rightarrow> (int option \<Rightarrow> 'g \<times> int) \<Rightarrow> interp \<Rightarrow> (nat list \<Rightarrow> nat list) \<Rightarrow> ('a, 'g, 'm) multi_agent \<Rightarrow> 'b list
    \<Rightarrow> report list res option" where
  "evaluate_episodes 0 repeated stride send Ht Hc R seeding interp1d order ma agents = Some (Inr [])"
| "evaluate_episodes (Suc n) repeated stride send Ht Hc R seeding interp1d order ma agents =
     (case evaluate repeated stride send Ht Hc R seeding interp1d order ma agents of
        None \<Rightarrow> None
      | Some (Inl e) \<Rightarrow> Some (Inl e)
      | Some (Inr ev) \<Rightarrow>
          (case ev_status ev of
             None \<Rightarrow> Some (Inl KeyError)
           | Some rp \<Rightarrow>
               (case evaluate_episodes n repeated stride send Ht Hc R seeding interp1d order (ev_env ev) (ev_agents ev) of
                  Some (Inr rps) \<Rightarrow> Some (Inr (rp # rps))
                | other \<Rightarrow> other)))"

text \<open>\<open>main\<close>: the environment is seeded, the target agents are spawned, the episodes are played.\<close>

definition evaluate_main ::
  "nat \<Rightarrow> int \<Rightarrow> bool option \<Rightarrow> int \<Rightarrow> ('m mailbox \<Rightarrow> 'm message list \<Rightarrow> 'm mailbox res) \<Rightarrow> ('b, 'm) handlers
    \<Rightarrow> ('a, 'm) handlers \<Rightarrow> 'g rng \<Rightarrow> (int option \<Rightarrow> 'g \<times> int) \<Rightarrow> interp \<Rightarrow> (nat list \<Rightarrow> nat list)
    \<Rightarrow> ('a, 'g, 'm) multi_agent \<Rightarrow> 'b \<Rightarrow> report list res option" where
  "evaluate_main episodes seed repeated stride send Ht Hc R seeding interp1d order ma agent =
     (let ma1 = snd (multi_seed Hc R seeding (Some seed) ma);
          agents = fst (h_spawn Ht (num_targets (inner ma1)) agent)
      in evaluate_episodes episodes repeated stride send Ht Hc R seeding interp1d order ma1 agents)"

subsection \<open>Talking through the wrapper\<close>

lemma round_calls_cong:
  assumes "list_all2 ok is agents" and "P s"
    and "\<And>i a s. i \<in> set is \<Longrightarrow> ok i a \<Longrightarrow> P s \<Longrightarrow> \<exists>a' s'. f a s = Inr (a', s') \<and> ok i a' \<and> P s'"
    and "\<And>i a s. i \<in> set is \<Longrightarrow> ok i a \<Longrightarrow> P s \<Longrightarrow> g a s = f a s"
  shows "round_calls g agents s = round_calls f agents s"
  using assms
proof (induction arbitrary: s rule: list_all2_induct)
  case (Cons i "is" a as)
  obtain a' s1 where 1: "f a s = Inr (a', s1)" "P s1" using Cons.prems(2) [OF _ Cons.hyps(1) Cons.prems(1)] by auto
  have "round_calls g as s1 = round_calls f as s1"
  proof (rule Cons.IH [OF 1(2)])
    fix j b u
    assume b: "j \<in> set is" "ok j b" "P u"
    then have j: "j \<in> set (i # is)" by simp
    show "\<exists>a' s'. f b u = Inr (a', s') \<and> ok j a' \<and> P s'" by (rule Cons.prems(2) [OF j b(2,3)])
    show "g b u = f b u" by (rule Cons.prems(3) [OF j b(2,3)])
  qed
  moreover have "g a s = f a s" using Cons.prems(3) [OF _ Cons.hyps(1) Cons.prems(1)] by simp
  ultimately show ?case using 1 by simp
qed simp

context talking_team
begin

lemma own_send_call:
  assumes "\<exists>ms a'. prepare a = Inr (ms, a') \<and> ok i a' \<and> (\<forall>m \<in> set ms. good m)"
  shows "send_call (own_channel side send) prepare a mb = send_call send prepare a mb"
proof -
  obtain ms a' where p: "prepare a = Inr (ms, a')" "\<forall>m \<in> set ms. good m" using assms by blast
  have "list_all (\<lambda>m. msg_team m = side) ms" using p(2) good_inside by (auto simp: list_all_iff)
  then show ?thesis by (simp add: send_call_def own_channel_def p(1) check_def)
qed

lemma own_send_round:
  assumes "list_all2 ok is agents" and "calm sizes q mb" and "\<forall>i \<in> set is. i < n"
    and prepare: "\<And>i a. ok i a \<Longrightarrow> i < n \<Longrightarrow> \<exists>ms a'. prepare a = Inr (ms, a') \<and> ok i a' \<and> (\<forall>m \<in> set ms. good m)"
  shows "round_calls (send_call (own_channel side send) prepare) agents mb = round_calls (send_call send prepare) agents mb"
proof (rule round_calls_cong [where P = "calm sizes q", OF assms(1,2)])
  fix i a mb
  assume i: "i \<in> set is" "ok i a" "calm sizes q mb"
  then have "i < n" using assms(3) by simp
  note p = prepare [OF i(2) this]
  show "\<exists>a' mb'. send_call send prepare a mb = Inr (a', mb') \<and> ok i a' \<and> calm sizes q mb'"
    by (rule send_call_calm [OF i(2,3)]) (rule p)
  show "send_call (own_channel side send) prepare a mb = send_call send prepare a mb" by (rule own_send_call) (rule p)
qed

lemma group_step_own:
  assumes "list_all2 ok is agents" and "list_all2 sees is joint" and "\<forall>i \<in> set is. i < n" and "calm sizes q mb"
    and "\<forall>infos'. infos = Some infos' \<longrightarrow> length is \<le> length infos'"
  shows "group_step (own_channel side send) H agents joint infos mb = group_step send H agents joint infos mb"
proof -
  obtain as0 where 0: "group_observe H agents joint infos = Inr as0" "list_all2 ok is as0"
    using group_observe_ok [OF assms(1,2,5)] by blast
  obtain as1 mb1 where 1: "round_calls (send_call send (h_send_requests H)) as0 mb = Inr (as1, mb1)"
    "list_all2 ok is as1" "calm sizes q mb1"
    using send_round [OF 0(2) assms(4,3), where prepare = "h_send_requests H"] requests by blast
  obtain as2 mb2 where 2: "round_calls (receive_call (h_id H) (h_receive_requests H)) as1 mb1 = Inr (as2, mb2)"
    "list_all2 ok is as2" "calm sizes q mb2"
    using receive_round [OF 1(2,3), where hear = "h_receive_requests H"] hears_requests by blast
  have "round_calls (send_call (own_channel side send) (h_send_requests H)) as0 mb
      = round_calls (send_call send (h_send_requests H)) as0 mb"
    by (rule own_send_round [OF 0(2) assms(4,3) requests])
  moreover have "round_calls (send_call (own_channel side send) (h_send_responses H)) as2 mb2
      = round_calls (send_call send (h_send_responses H)) as2 mb2"
    by (rule own_send_round [OF 2(2,3) assms(3) responds])
  ultimately have "group_communicate (own_channel side send) H as0 mb = group_communicate send H as0 mb"
    by (simp add: group_communicate_def 1(1) 2(1))
  then show ?thesis by (simp add: group_step_def 0(1))
qed

end

subsection \<open>Reading the state leaves the game alone\<close>

lemma cache_frame:
  "env_ok (s\<lparr>state_cache := x\<rparr>) = env_ok s" "told_right (s\<lparr>state_cache := x\<rparr>) = told_right s"
  "num_agents team (s\<lparr>state_cache := x\<rparr>) = num_agents team s" "same_rules s (s\<lparr>state_cache := x\<rparr>)"
  "in_stock (s\<lparr>state_cache := x\<rparr>) = in_stock s" "observation_of team (s\<lparr>state_cache := x\<rparr>) i = observation_of team s i"
  "config_ok (s\<lparr>state_cache := x\<rparr>) = config_ok s"
proof -
  have n: "num_cameras (s\<lparr>state_cache := x\<rparr>) = num_cameras s" "num_targets (s\<lparr>state_cache := x\<rparr>) = num_targets s"
    "num_obstacles (s\<lparr>state_cache := x\<rparr>) = num_obstacles s" by (simp_all add: num_cameras_def num_targets_def num_obstacles_def)
  show N: "num_agents team (s\<lparr>state_cache := x\<rparr>) = num_agents team s" for team by (cases team) (simp_all add: num_agents_def n)
  have eq: "cargo_inv (s\<lparr>state_cache := x\<rparr>) = cargo_inv s" "bounty_lost (s\<lparr>state_cache := x\<rparr>) = bounty_lost s"
    by (rule cargo_inv_cong; simp add: num_targets_def)+
  show "env_ok (s\<lparr>state_cache := x\<rparr>) = env_ok s"
    using N by (simp add: env_ok_def eq n view_shapes_def books_ok_def reward_scale_def)
  show "told_right (s\<lparr>state_cache := x\<rparr>) = told_right s" "in_stock (s\<lparr>state_cache := x\<rparr>) = in_stock s"
    by (simp_all add: told_right_def in_stock_def)
  show "same_rules s (s\<lparr>state_cache := x\<rparr>)" by (simp add: same_rules_def reach_def n)
  show "observation_of team (s\<lparr>state_cache := x\<rparr>) i = observation_of team s i" by (rule observation_of_cong) simp_all
  show "config_ok (s\<lparr>state_cache := x\<rparr>) = config_ok s" by (simp add: config_ok_def n)
qed

lemma diagnose_cache: "\<exists>x. diagnose stride s = s\<lparr>state_cache := x\<rparr>"
proof (cases "diagnose stride s = s")
  case True
  then show ?thesis by (intro exI [of _ "state_cache s"]) simp
next
  case False
  then have "diagnose stride s = s\<lparr>state_cache := Some (fresh_state s)\<rparr>"
    by (cases "state_cache s") (simp_all add: diagnose_def env_state_def split: if_splits)
  then show ?thesis by blast
qed

lemma max_reward_frame: "max_target_team_episode_reward (s\<lparr>state_cache := x\<rparr>) = max_target_team_episode_reward s"
  by (simp add: max_target_team_episode_reward_def reward_scale_def num_targets_def)

subsection \<open>What holds between two rounds\<close>

text \<open>Both teams are ready to play.\<close>

definition playing ::
  "(('g, 'm) env \<Rightarrow> nat \<Rightarrow> 'b \<Rightarrow> bool) \<Rightarrow> (('g, 'm) env \<Rightarrow> nat \<Rightarrow> 'a \<Rightarrow> bool) \<Rightarrow> ('b, 'a, 'g, 'm) evaluation \<Rightarrow> bool" where
  "playing okt okc ev \<longleftrightarrow>
     (let s = inner (ev_env ev); n = num_agents TARGET s in
      rivals_ready (opponent TARGET) okc (ev_env ev) \<and> quiet (mail s)
    \<and> length (rival_order (ev_env ev)) = length (rivals (ev_env ev))
    \<and> list_all2 (okt s) [0..<n] (ev_agents ev) \<and> ev_obs ev = observations_of TARGET s
    \<and> (\<forall>infos. ev_infos ev = Some infos \<longrightarrow> length infos = n))"

text \<open>The books: what has been added up agrees with what the environment says.\<close>

definition earned_so_far :: "('g, 'm) env \<Rightarrow> int" where
  "earned_so_far s =
     (if sparse_reward (settings s) then delayed_target_team_episode_reward s else target_team_episode_reward s)"

definition accounted :: "('b, 'a, 'g, 'm) evaluation \<Rightarrow> bool" where
  "accounted ev \<longleftrightarrow>
     (let s = inner (ev_env ev) in
      env_setup s \<and> 0 \<le> episode_step s \<and> 0 \<le> num_delivered_cargoes s \<and> 0 < total_cargoes s
    \<and> ev_reward ev = earned_so_far s \<and> int (length (ev_rates ev)) = episode_step s
    \<and> (\<forall>x \<in> set (ev_rates ev). 0 \<le> x \<and> x \<le> 1)
    \<and> (ev_done ev \<longrightarrow> num_delivered_cargoes s = total_cargoes s)
    \<and> (ev_status ev = None \<longleftrightarrow> num_delivered_cargoes s = 0)
    \<and> (\<forall>rp. ev_status ev = Some rp \<longrightarrow> rp = report_of s (rp_reward rp) (ev_reward ev) (ev_rates ev)))"

lemma report_reward [simp]: "rp_reward (report_of s r e rates) = r"
  by (simp add: report_of_def)

lemma mean_of_bounded:
  assumes "\<forall>x \<in> set xs. 0 \<le> x \<and> x \<le> 1"
  shows "0 \<le> mean_of xs \<and> mean_of xs \<le> 1"
proof -
  have "0 \<le> sum_list xs \<and> sum_list xs \<le> real (length xs)" using assms by (induction xs) auto
  then show ?thesis by (auto simp: mean_of_def divide_le_eq_1)
qed

lemma cache_accounts:
  "env_setup s \<Longrightarrow> env_ok s \<Longrightarrow> env_setup (s\<lparr>state_cache := x\<rparr>)"
  "total_cargoes (s\<lparr>state_cache := x\<rparr>) = total_cargoes s" "earned_so_far (s\<lparr>state_cache := x\<rparr>) = earned_so_far s"
  "report_of (s\<lparr>state_cache := x\<rparr>) = report_of s"
proof -
  show "env_setup s \<Longrightarrow> env_ok s \<Longrightarrow> env_setup (s\<lparr>state_cache := x\<rparr>)"
    by (rule env_ok_setup) (simp_all add: cache_frame setup_config)
qed (simp_all add: total_cargoes_def earned_so_far_def report_of_def max_reward_frame fun_eq_iff)

lemma step_accounts:
  assumes R: "rng_ok R" and ok: "env_ok s" and su: "env_setup s" and run: "step R interp1d order action s = Inr (res, s')"
  shows "env_ok s'" "env_setup s'" "settings s' = settings s" "num_targets s' = num_targets s"
    "episode_step s' = episode_step s + 1" "total_cargoes s' = total_cargoes s"
    "num_delivered_cargoes s \<le> num_delivered_cargoes s'"
    "earned_so_far s' = earned_so_far s + target_team_reward res"
    "0 \<le> coverage_rate s' \<and> coverage_rate s' \<le> 1"
    "episode_step s < max_episode_steps (settings s) \<Longrightarrow> done_flag res \<Longrightarrow> num_delivered_cargoes s' = total_cargoes s'"
proof -
  have sz: "length (fst action) = num_cameras s * CAMERA_ACTION_DIM" "length (snd action) = num_targets s * TARGET_ACTION_DIM"
    using step_returns_sized [OF run] by (simp_all add: sized_def)
  obtain res' s'' where S: "step R interp1d order action s = Inr (res', s'')" "env_ok s''"
    "settings s'' = settings s" "num_targets s'' = num_targets s"
    "episode_step s'' = episode_step s + 1" "total_cargoes s'' = total_cargoes s"
    "num_delivered_cargoes s \<le> num_delivered_cargoes s''"
    "target_team_reward res' =
       (if sparse_reward (settings s)
        then delayed_target_team_episode_reward s'' - delayed_target_team_episode_reward s
        else target_team_episode_reward s'' - target_team_episode_reward s)"
    "done_flag res' = (max_episode_steps (settings s) \<le> episode_step s \<or> \<not> any_nonzero (awaiting_cargo_counts s''))"
    by (rule step_env [OF R ok sz]) (rule that; assumption?)
  have e: "res' = res" "s'' = s'" using S(1) run by simp_all
  note S = S(2-) [unfolded e]
  show "env_ok s'" "settings s' = settings s" "num_targets s' = num_targets s"
    "episode_step s' = episode_step s + 1" "total_cargoes s' = total_cargoes s"
    "num_delivered_cargoes s \<le> num_delivered_cargoes s'" by (fact S)+
  show "env_setup s'" by (rule step_setup [OF R ok su run])
  show "earned_so_far s' = earned_so_far s + target_team_reward res" using S(2,7) by (simp add: earned_so_far_def)
  obtain b where b: "env_ok b" "s' = finish_step b" by (rule step_inside [OF R ok run])
  show "0 \<le> coverage_rate s' \<and> coverage_rate s' \<le> 1"
    using rates_bounded [OF b(1)] by (simp add: b(2) finish_step_frame rates_ok_def)
  show "num_delivered_cargoes s' = total_cargoes s'" if "episode_step s < max_episode_steps (settings s)" "done_flag res"
  proof -
    have "\<forall>g < NUM_WAREHOUSES. awaiting_cargo_counts s' ! g = 0"
      using S(1,8) that by (auto simp: any_nonzero_iff env_ok_def cargo_inv_def cargo_shapes_def)
    then show ?thesis by (simp add: total_cargoes_def)
  qed
qed

subsection \<open>The two teams\<close>

context rival_team
begin

lemma rivals_ready_cache:
  assumes "rivals_ready side ok ma"
  shows "rivals_ready side ok (ma\<lparr>inner := (inner ma)\<lparr>state_cache := x\<rparr>\<rparr>)"
proof -
  have "observations_of side ((inner ma)\<lparr>state_cache := x\<rparr>) = observations_of side (inner ma)"
    by (simp add: observations_of_def cache_frame)
  moreover have "ok ((inner ma)\<lparr>state_cache := x\<rparr>) i a" if "i < num_agents side (inner ma)" "ok (inner ma) i a" for i a
    using persists [OF cache_frame(4) _ that] by (simp add: cache_frame)
  ultimately show ?thesis
    using assms by (auto simp: rivals_ready_def cache_frame list_all2_conv_all_nth)
qed

end

lemma all_fresh: "list_all2 ok is agents \<Longrightarrow> (\<And>i a. ok i a \<Longrightarrow> fresh a) \<Longrightarrow> \<forall>a \<in> set agents. fresh a"
  by (induction rule: list_all2_induct) auto

lemma mail_accounts:
  assumes "env_setup s" and "env_ok (s\<lparr>mail := mb\<rparr>)"
  shows "env_setup (s\<lparr>mail := mb\<rparr>)" "earned_so_far (s\<lparr>mail := mb\<rparr>) = earned_so_far s"
    "total_cargoes (s\<lparr>mail := mb\<rparr>) = total_cargoes s"
proof -
  have "config_ok (s\<lparr>mail := mb\<rparr>)"
    using setup_config [OF assms(1)] by (simp add: config_ok_def num_cameras_def num_targets_def num_obstacles_def)
  then show "env_setup (s\<lparr>mail := mb\<rparr>)" by (rule env_ok_setup [OF assms(2)])
qed (simp_all add: earned_so_far_def total_cargoes_def)

text \<open>
  What the evaluation relies on: targets that can play as teammates against cameras that can play as opponents,
  both in a condition to be reset again after they have played.
\<close>

locale evaluated_teams = single_world Ht Hc TARGET okt seest goodt fresht okc seesc goodc freshc send route passes
  for Ht :: "('b, 'm) handlers" and Hc :: "('a, 'm) handlers"
    and okt :: "('g, 'm) env \<Rightarrow> nat \<Rightarrow> 'b \<Rightarrow> bool" and seest goodt fresht
    and okc :: "('g, 'm) env \<Rightarrow> nat \<Rightarrow> 'a \<Rightarrow> bool" and seesc goodc freshc and send and route and passes +
  assumes targets_again: "okt s i b \<Longrightarrow> fresht b" and cameras_again: "okc s i a \<Longrightarrow> freshc a"
begin

lemma targets_play:
  assumes pl: "playing okt okc ev"
  obtains vs agents mb where
    "group_step (own_channel TARGET send) Ht (ev_agents ev) (ev_obs ev) (ev_infos ev) (mail (inner (ev_env ev))) = Inr (vs, agents, mb)"
    "length vs = num_agents TARGET (inner (ev_env ev))"
    "list_all2 (okt (inner (ev_env ev))) [0..<num_agents TARGET (inner (ev_env ev))] agents"
    "rivals_ready (opponent TARGET) okc ((ev_env ev)\<lparr>inner := (inner (ev_env ev))\<lparr>mail := mb\<rparr>\<rparr>)"
    "team_size mb = team_size (mail (inner (ev_env ev)))" "env_ok ((inner (ev_env ev))\<lparr>mail := mb\<rparr>)"
proof -
  let ?ma = "ev_env ev" let ?s = "inner ?ma" let ?n = "num_agents TARGET ?s" let ?sizes = "\<lambda>t. num_agents t ?s"
  let ?q = "message_queues (mail ?s) (opponent TARGET)"
  have rd: "rivals_ready (opponent TARGET) okc ?ma" and quiet: "quiet (mail ?s)"
    and ok: "list_all2 (okt ?s) [0..<?n] (ev_agents ev)" "ev_obs ev = observations_of TARGET ?s"
    and infos: "\<forall>infos. ev_infos ev = Some infos \<longrightarrow> length [0..<?n] \<le> length infos"
    using pl by (simp_all add: playing_def Let_def)
  have env: "env_ok ?s" "told_right ?s" using rd by (simp_all add: rivals_ready_def)
  have mb: "mailbox_ok (mail ?s)" "team_size (mail ?s) = ?sizes" using env(1) by (simp_all add: env_ok_def)
  have calm: "talking_team.calm TARGET ?n (goodt ?s) ?sizes ?q (mail ?s)"
    using mb quiet by (simp add: talking_team.calm_def [OF mates.talks] quiet_def)
  have see: "list_all2 (seest ?s) [0..<?n] (ev_obs ev)"
    using env ok(2) mates.looks by (simp add: observations_of_def list_all2_conv_all_nth)
  have below: "\<forall>i \<in> set [0..<?n]. i < ?n" by simp
  obtain vs agents mb' where g: "group_step send Ht (ev_agents ev) (ev_obs ev) (ev_infos ev) (mail ?s) = Inr (vs, agents, mb')"
    "list_all2 (within_hi (reach TARGET ?s)) [0..<?n] vs" "list_all2 (okt ?s) [0..<?n] agents"
    "talking_team.calm TARGET ?n (goodt ?s) ?sizes ?q mb'"
    using talking_team.group_step_ok [OF mates.talks ok(1) see below calm infos] by blast
  have mb': "mailbox_ok mb'" "team_size mb' = team_size (mail ?s)" "\<forall>i. message_queues mb' (opponent TARGET) i = []"
    using g(4) mb(2) quiet by (simp_all add: talking_team.calm_def [OF mates.talks] quiet_def)
  have "rivals_ready (opponent TARGET) okc (?ma\<lparr>inner := ?s\<lparr>mail := mb'\<rparr>\<rparr>)"
    by (rule rivals_ready_mail [OF rd mb' foes.ok_mail])
  moreover have "length vs = ?n" using g(2) by (simp add: list_all2_conv_all_nth)
  ultimately show thesis
    using g(1,3) mb'(2) env_ok_mail [OF env(1) mb'(1,2)] talking_team.group_step_own [OF mates.talks ok(1) see below calm infos]
    by (intro that) simp_all
qed

lemma round_ok:
  assumes R: "rng_ok R" and pl: "playing okt okc ev" and ac: "accounted ev"
    and going: "episode_step (inner (ev_env ev)) < max_episode_steps (settings (inner (ev_env ev)))"
  obtains ev' where "evaluate_round None stride send Ht Hc R interp1d order ev = Inr ev'" "playing okt okc ev'" "accounted ev'"
    "settings (inner (ev_env ev')) = settings (inner (ev_env ev))"
    "num_targets (inner (ev_env ev')) = num_targets (inner (ev_env ev))"
    "episode_step (inner (ev_env ev')) = episode_step (inner (ev_env ev)) + 1"
    "total_cargoes (inner (ev_env ev')) = total_cargoes (inner (ev_env ev))"
proof -
  let ?ma = "ev_env ev" let ?s = "inner ?ma" let ?n = "num_agents TARGET ?s"
  obtain vs agents mb where g:
    "group_step (own_channel TARGET send) Ht (ev_agents ev) (ev_obs ev) (ev_infos ev) (mail ?s) = Inr (vs, agents, mb)"
    "length vs = ?n" "list_all2 (okt ?s) [0..<?n] agents"
    "rivals_ready (opponent TARGET) okc (?ma\<lparr>inner := ?s\<lparr>mail := mb\<rparr>\<rparr>)" "team_size mb = team_size (mail ?s)"
    "env_ok (?s\<lparr>mail := mb\<rparr>)"
    by (rule targets_play [OF pl])
  let ?ma1 = "?ma\<lparr>inner := ?s\<lparr>mail := mb\<rparr>\<rparr>"
  have "length (flat_actions vs) = 2 * num_agents TARGET (inner ?ma1)" using g(2) by (simp add: length_flat_actions num_agents_mail)
  from foes.multi_step_ok [OF R g(4) refl, of "flat_actions vs" None interp1d order] this
  obtain tr ma' joint mb' res where m:
    "multi_step None send Hc TARGET R interp1d order (flat_actions vs) ?ma1 = Inr (tr, ma')" "rivals_ready (opponent TARGET) okc ma'"
    "tr_obs tr = observations_of TARGET (inner ma')" "same_rules (?s\<lparr>mail := mb\<rparr>) (inner ma')"
    "in_stock (inner ma') \<subseteq> in_stock (?s\<lparr>mail := mb\<rparr>)" "quiet (mail (inner ma'))"
    "length (tr_infos tr) = num_agents TARGET (inner ma')" "rival_order ma' = rival_order ?ma"
    "env_ok (?s\<lparr>mail := mb'\<rparr>)" "step R interp1d order joint (?s\<lparr>mail := mb'\<rparr>) = Inr (res, inner ma')"
    "tr_done tr = Together (done_flag res)" "tr_reward tr = Shared (target_team_reward res)"
    by (auto simp del: split_paired_Ex)
  let ?s' = "diagnose stride (inner ma')"
  obtain x where x: "?s' = (inner ma')\<lparr>state_cache := x\<rparr>" using diagnose_cache by blast
  have su: "env_setup ?s" and books: "ev_reward ev = earned_so_far ?s" "int (length (ev_rates ev)) = episode_step ?s"
    "\<forall>x \<in> set (ev_rates ev). 0 \<le> x \<and> x \<le> 1" "0 < total_cargoes ?s" "0 \<le> episode_step ?s" "0 \<le> num_delivered_cargoes ?s"
    "ev_status ev = None \<longleftrightarrow> num_delivered_cargoes ?s = 0"
    using ac by (simp_all add: accounted_def Let_def)
  note M = mail_accounts [OF su m(9)]
  note A = step_accounts [OF R m(9) M(1) m(10)]
  note N = same_rules_team [OF m(4)]
  have agents: "list_all2 (okt ?s') [0..<?n] agents"
  proof -
    have rules: "same_rules ?s (inner ma')" by (rule same_rules_trans [OF same_rules_mail m(4)])
    have stock: "in_stock (inner ma') \<subseteq> in_stock ?s" using m(5) by (simp add: told_right_mail)
    have "list_all2 (okt (inner ma')) [0..<?n] agents"
      using g(3) mates.persists [OF rules stock] by (auto simp: list_all2_conv_all_nth)
    then show ?thesis
      using mates.persists [OF cache_frame(4) [where x = x], of "inner ma'"] N(1)
      by (auto simp: x cache_frame num_agents_mail list_all2_conv_all_nth)
  qed
  let ?rates = "ev_rates ev @ [coverage_rate (inner ma')]" let ?earned = "ev_reward ev + target_team_reward res"
  define ev' where "ev' = \<lparr>ev_env = ma'\<lparr>inner := ?s'\<rparr>, ev_agents = agents, ev_obs = tr_obs tr, ev_infos = Some (tr_infos tr),
      ev_reward = ?earned, ev_rates = ?rates,
      ev_status = (if num_delivered_cargoes ?s' > 0 \<or> done_flag res then Some (report_of ?s' (target_team_reward res) ?earned ?rates)
                   else ev_status ev), ev_done = done_flag res\<rparr>"
  have run: "evaluate_round None stride send Ht Hc R interp1d order ev = Inr ev'"
    by (simp add: evaluate_round_def Let_def g(1) m(1,11,12) ev'_def)
  have lengths: "length (rival_order ma') = length (rivals ma')"
    using pl m(2,8) N(1) by (auto simp: playing_def Let_def rivals_ready_def num_agents_mail dest!: list_all2_lengthD)
  have "playing okt okc ev'"
    unfolding playing_def Let_def
    using foes.rivals_ready_cache [OF m(2), where x = x] m(3,6,7) agents N(1) lengths
    by (simp add: ev'_def x cache_frame num_agents_mail observations_of_def)
  moreover have "accounted ev'"
    unfolding accounted_def Let_def
    using A M books cache_accounts(1) [OF A(2,1), where x = x] going
    by (auto simp: ev'_def x cache_accounts(2-))
  ultimately show thesis
    using run A M by (intro that [of ev']) (simp_all add: ev'_def x cache_accounts(2-) num_targets_def)
qed

lemma loop_ok:
  assumes R: "rng_ok R" and "playing okt okc ev" and "accounted ev"
    and "episode_step (inner (ev_env ev)) \<le> max_episode_steps (settings (inner (ev_env ev)))"
  shows "\<exists>ev'. evaluate_loop None stride send Ht Hc R interp1d order ev = Some (Inr ev') \<and> playing okt okc ev' \<and> accounted ev'
    \<and> settings (inner (ev_env ev')) = settings (inner (ev_env ev))
    \<and> num_targets (inner (ev_env ev')) = num_targets (inner (ev_env ev))
    \<and> total_cargoes (inner (ev_env ev')) = total_cargoes (inner (ev_env ev))
    \<and> episode_step (inner (ev_env ev')) \<le> max_episode_steps (settings (inner (ev_env ev)))
    \<and> (ev_done ev' \<or> episode_step (inner (ev_env ev')) = max_episode_steps (settings (inner (ev_env ev))))"
  using assms(2-)
proof (induction "nat (max_episode_steps (settings (inner (ev_env ev))) - episode_step (inner (ev_env ev)))" arbitrary: ev
    rule: less_induct)
  case less
  let ?now = "episode_step (inner (ev_env ev))" and ?limit = "max_episode_steps (settings (inner (ev_env ev)))"
  show ?case
  proof (cases "?now < ?limit")
    case False
    then show ?thesis using less.prems by (subst evaluate_loop.simps) simp
  next
    case True
    obtain ev1 where 1: "evaluate_round None stride send Ht Hc R interp1d order ev = Inr ev1" "playing okt okc ev1" "accounted ev1"
      "settings (inner (ev_env ev1)) = settings (inner (ev_env ev))"
      "num_targets (inner (ev_env ev1)) = num_targets (inner (ev_env ev))"
      "episode_step (inner (ev_env ev1)) = ?now + 1" "total_cargoes (inner (ev_env ev1)) = total_cargoes (inner (ev_env ev))"
      by (rule round_ok [OF R less.prems(1,2) True, of stride interp1d order])
    have unfold: "evaluate_loop None stride send Ht Hc R interp1d order ev
        = (if ev_done ev1 then Some (Inr ev1) else evaluate_loop None stride send Ht Hc R interp1d order ev1)"
      using True by (subst evaluate_loop.simps) (simp add: 1(1))
    show ?thesis
    proof (cases "ev_done ev1")
      case d: True
      then show ?thesis using 1 True unfold by simp
    next
      case d: False
      have "nat (max_episode_steps (settings (inner (ev_env ev1))) - episode_step (inner (ev_env ev1))) < nat (?limit - ?now)"
        using 1(4,6) True by simp
      from less.hyps [OF this 1(2,3)] show ?thesis using 1(4-7) True unfold d by simp
    qed
  qed
qed

text \<open>A whole evaluation, and both teams ready for the next one.\<close>

lemma evaluate_ok:
  fixes ma :: "('a, 'g, 'm) multi_agent"
  assumes R: "rng_ok R" "draws_all_senders R" and w: "rivals_waiting (opponent TARGET) freshc ma"
    and agents: "length agents = num_targets (inner ma)" "\<forall>b \<in> set agents. fresht b"
    and limit: "0 \<le> max_episode_steps (settings (inner ma))"
  shows "\<exists>ev. evaluate None stride send Ht Hc R seeding interp1d order ma agents = Some (Inr ev) \<and> accounted ev
    \<and> settings (inner (ev_env ev)) = settings (inner ma) \<and> num_targets (inner (ev_env ev)) = num_targets (inner ma)
    \<and> episode_step (inner (ev_env ev)) \<le> max_episode_steps (settings (inner ma))
    \<and> (ev_done ev \<or> episode_step (inner (ev_env ev)) = max_episode_steps (settings (inner ma)))
    \<and> rivals_waiting (opponent TARGET) freshc (ev_env ev) \<and> length (ev_agents ev) = num_targets (inner ma)
    \<and> (\<forall>b \<in> set (ev_agents ev). fresht b)"
proof -
  have "env_setup (inner ma)" using w by (simp add: rivals_waiting_def)
  then obtain res where r: "reset R seeding interp1d order None (inner ma) = Some res" using reset_terminates [OF R(1) _ R(2)] by blast
  from foes.multi_reset_ok [OF R(1) w refl r]
  obtain obs ma1 where 1: "multi_reset Hc TARGET R seeding interp1d order None ma = Some (Inr (obs, ma1))"
    "rivals_ready (opponent TARGET) okc ma1" "obs = observations_of TARGET (inner ma1)" "quiet (mail (inner ma1))"
    "length (rival_order ma1) = length (rivals ma1)" "env_setup (inner ma1)" "settings (inner ma1) = settings (inner ma)"
    "num_agents TARGET (inner ma1) = num_agents TARGET (inner ma)" "episode_step (inner ma1) = 0"
    "num_delivered_cargoes (inner ma1) = 0" "target_team_episode_reward (inner ma1) = 0"
    "delayed_target_team_episode_reward (inner ma1) = 0" "0 < total_cargoes (inner ma1)" by auto
  let ?s = "inner ma1"
  have n: "num_targets ?s = num_targets (inner ma)" using 1(8) by (simp add: num_agents_def)
  have "list_all2 (\<lambda>i b. \<exists>b'. h_reset Ht (observation_of TARGET ?s i) b = Inr b' \<and> okt ?s i b') [0..<num_agents TARGET ?s] agents"
    using agents n 1(2) mates.resets [of ?s] by (auto simp: rivals_ready_def num_agents_def list_all2_conv_all_nth)
  from call_each_reset [OF this] obtain agents1 where a: "group_reset Ht agents obs = Inr agents1"
    "list_all2 (okt ?s) [0..<num_agents TARGET ?s] agents1" by (auto simp: observations_of_def 1(3))
  define ev0 where "ev0 = \<lparr>ev_env = ma1, ev_agents = agents1, ev_obs = obs, ev_infos = None, ev_reward = 0, ev_rates = [],
      ev_status = None, ev_done = False\<rparr>"
  have "playing okt okc ev0" using 1(2-5) a(2) by (simp add: playing_def ev0_def)
  moreover have "accounted ev0" using 1(6,9-13) by (simp add: accounted_def ev0_def earned_so_far_def)
  moreover have "episode_step (inner (ev_env ev0)) \<le> max_episode_steps (settings (inner (ev_env ev0)))"
    using 1(7,9) limit by (simp add: ev0_def)
  ultimately obtain ev where ev: "evaluate_loop None stride send Ht Hc R interp1d order ev0 = Some (Inr ev)" "playing okt okc ev" "accounted ev"
    "settings (inner (ev_env ev)) = settings (inner ma)" "num_targets (inner (ev_env ev)) = num_targets (inner ma)"
    "episode_step (inner (ev_env ev)) \<le> max_episode_steps (settings (inner ma))"
    "ev_done ev \<or> episode_step (inner (ev_env ev)) = max_episode_steps (settings (inner ma))"
    using loop_ok [OF R(1), of ev0 stride interp1d order] 1(7) n by (auto simp: ev0_def)
  have "evaluate None stride send Ht Hc R seeding interp1d order ma agents = Some (Inr ev)"
    using ev(1) by (simp add: evaluate_def 1(1) a(1) ev0_def)
  moreover have "rivals_waiting (opponent TARGET) freshc (ev_env ev)"
  proof -
    have "list_all2 (okc (inner (ev_env ev))) [0..<num_agents (opponent TARGET) (inner (ev_env ev))] (rivals (ev_env ev))"
      "length (rival_order (ev_env ev)) = length (rivals (ev_env ev))" "env_setup (inner (ev_env ev))"
      using ev(2,3) by (simp_all add: playing_def accounted_def Let_def rivals_ready_def)
    moreover from this(1) have "\<forall>a \<in> set (rivals (ev_env ev)). freshc a" by (rule all_fresh) (rule cameras_again)
    ultimately show ?thesis by (auto simp: rivals_waiting_def dest: list_all2_lengthD)
  qed
  moreover have "length (ev_agents ev) = num_targets (inner ma) \<and> (\<forall>b \<in> set (ev_agents ev). fresht b)"
  proof -
    have "list_all2 (okt (inner (ev_env ev))) [0..<num_targets (inner ma)] (ev_agents ev)"
      using ev(2,5) by (simp add: playing_def Let_def num_agents_def)
    moreover from this have "\<forall>b \<in> set (ev_agents ev). fresht b" by (rule all_fresh) (rule targets_again)
    ultimately show ?thesis by (auto dest: list_all2_lengthD)
  qed
  ultimately show ?thesis using ev(3-7) by blast
qed

lemma episodes_ok:
  fixes ma :: "('a, 'g, 'm) multi_agent"
  assumes R: "rng_ok R" "draws_all_senders R"
  shows "rivals_waiting (opponent TARGET) freshc ma \<Longrightarrow> length agents = num_targets (inner ma) \<Longrightarrow> \<forall>b \<in> set agents. fresht b
    \<Longrightarrow> 0 \<le> max_episode_steps (settings (inner ma))
    \<Longrightarrow> evaluate_episodes n None stride send Ht Hc R seeding interp1d order ma agents = Some (Inl KeyError)
      \<or> (\<exists>rps. evaluate_episodes n None stride send Ht Hc R seeding interp1d order ma agents = Some (Inr rps) \<and> length rps = n
           \<and> (\<forall>rp \<in> set rps. 0 < rp_cargoes rp \<and> rp_step rp \<le> max_episode_steps (settings (inner ma))
                \<and> 0 \<le> rp_coverage rp \<and> rp_coverage rp \<le> 1))"
proof (induction n arbitrary: ma agents)
  case (Suc n)
  obtain ev where ev: "evaluate None stride send Ht Hc R seeding interp1d order ma agents = Some (Inr ev)" "accounted ev"
    "settings (inner (ev_env ev)) = settings (inner ma)" "num_targets (inner (ev_env ev)) = num_targets (inner ma)"
    "episode_step (inner (ev_env ev)) \<le> max_episode_steps (settings (inner ma))"
    "rivals_waiting (opponent TARGET) freshc (ev_env ev)" "length (ev_agents ev) = num_targets (inner ma)"
    "\<forall>b \<in> set (ev_agents ev). fresht b"
    using evaluate_ok [OF R Suc.prems, of stride seeding interp1d order] by blast
  show ?case
  proof (cases "ev_status ev")
    case None
    then show ?thesis by (simp add: ev(1))
  next
    case (Some rp)
    then have "rp = report_of (inner (ev_env ev)) (rp_reward rp) (ev_reward ev) (ev_rates ev)"
      "0 < num_delivered_cargoes (inner (ev_env ev))" and rates: "\<forall>x \<in> set (ev_rates ev). 0 \<le> x \<and> x \<le> 1"
      using ev(2) by (auto simp: accounted_def Let_def)
    then have rp: "rp_cargoes rp = num_delivered_cargoes (inner (ev_env ev))" "rp_step rp = episode_step (inner (ev_env ev))"
      "rp_coverage rp = mean_of (ev_rates ev)" "0 < num_delivered_cargoes (inner (ev_env ev))"
      by (simp_all add: report_of_def) (metis report.select_convs)+
    have "length (ev_agents ev) = num_targets (inner (ev_env ev))" "0 \<le> max_episode_steps (settings (inner (ev_env ev)))"
      using ev(3,4,7) Suc.prems(4) by simp_all
    from Suc.IH [OF ev(6) this(1) ev(8) this(2)] show ?thesis
      using rp mean_of_bounded [OF rates] ev(3,5) by (auto simp: ev(1) Some)
  qed
qed simp

end

subsection \<open>Greedy targets evaluated against greedy cameras\<close>

lemma greedy_teams_evaluated:
  fixes R R' :: "'h rng" and s :: "('g, talk) env"
  assumes R: "rng_ok R" "rng_ok R'" "lists_sets order" and ch: "open_channel send route passes"
  shows "evaluated_teams (talking_targets R' seeding' order has_space') (talking_cameras R seeding has_space)
    (target_rival :: ('g, talk) env \<Rightarrow> nat \<Rightarrow> 'h greedy_target \<Rightarrow> bool)
    (\<lambda>s i. shows_stock (in_stock s) (num_cameras s) (num_targets s) (num_obstacles s)) target_word fresh_target
    (camera_rival :: ('g, talk) env \<Rightarrow> nat \<Rightarrow> 'h greedy_camera \<Rightarrow> bool)
    (\<lambda>s i. sized_for CAMERA (num_cameras s) (num_targets s) (num_obstacles s)) camera_word fresh_camera
    send route passes"
proof -
  have side: "opponent TARGET = CAMERA" by (simp add: opponent_def)
  show ?thesis
    unfolding evaluated_teams_def single_world_def side
  proof (intro conjI evaluated_teams_axioms.intro talking_targets_rival [OF R(2,3) ch] mate_team.axioms(1) [OF talking_cameras_rival [OF R(1) ch]])
    show "fresh_target b" if "target_rival s i b" for s :: "('g, talk) env" and i and b :: "'h greedy_target"
      using that by (simp add: target_rival_def target_player_def greedy_target_ok_def target_agent_ok_def fresh_target_def)
    show "fresh_camera a" if "camera_rival s i a" for s :: "('g, talk) env" and i and a :: "'h greedy_camera"
      using that by (simp add: camera_rival_def camera_player_def greedy_camera_ok_def camera_memory_ok_def Let_def fresh_camera_def)
  qed
qed

interpretation greedy_evaluation: evaluated_teams "talking_targets counter_rng demo_seeding sorted_list_of_set (\<lambda>_. True)"
    "talking_cameras counter_rng demo_seeding (\<lambda>_. True)" target_rival
    "\<lambda>s i. shows_stock (in_stock s) (num_cameras s) (num_targets s) (num_obstacles s)" target_word fresh_target
    camera_rival "\<lambda>s i. sized_for CAMERA (num_cameras s) (num_targets s) (num_obstacles s)" camera_word fresh_camera
    send_messages route_messages "\<lambda>_. True"
  by (rule greedy_teams_evaluated [OF counter_rng_ok counter_rng_ok counting.lists open_env.open_channel_axioms])

text \<open>Seeding the environment keeps it and the opponents ready for a reset.\<close>

lemma seed_agents_keep:
  assumes "\<And>k a. P a \<Longrightarrow> P (snd (h_seed H k a))" and "\<forall>a \<in> set as. P a" and "seed_agents R H as g = (ks, as', g')"
  shows "length as' = length as \<and> (\<forall>a \<in> set as'. P a)"
  using assms(2,3)
proof (induction as arbitrary: g ks as' g')
  case (Cons a as)
  obtain k g1 where k: "randint R g 0 np_int_max = (k, g1)" by (rule prod.exhaust)
  obtain s0 a' where a: "h_seed H (Some k) a = (s0, a')" by (rule prod.exhaust)
  obtain ss as1 g2 where r: "seed_agents R H as g1 = (ss, as1, g2)" by (rule prod_cases3)
  have "P a'" using assms(1) [of a "Some k"] Cons.prems(1) a by simp
  then show ?case using Cons.IH [OF _ r] Cons.prems by (auto simp: k a r)
qed simp

lemma multi_seed_waits:
  assumes w: "rivals_waiting side fresh ma" and p: "fresh (prototype ma)" and o: "set (rival_order ma) \<subseteq> {..<length (rivals ma)}"
    and "\<And>k a. fresh a \<Longrightarrow> fresh (snd (h_seed H k a))"
  shows "rivals_waiting side fresh (snd (multi_seed H R seeding seed ma))
    \<and> num_targets (inner (snd (multi_seed H R seeding seed ma))) = num_targets (inner ma)
    \<and> settings (inner (snd (multi_seed H R seeding seed ma))) = settings (inner ma)"
proof -
  obtain seeds s where e: "env_seed R seeding seed (inner ma) = (seeds, s)" by (rule prod.exhaust)
  obtain more agents g where a: "seed_agents R H (prototype ma # unshuffle (rival_order ma) (rivals ma)) (np_random s) = (more, agents, g)"
    by (rule prod_cases3)
  have len: "length (rival_order ma) = length (rivals ma)" and fr: "\<forall>a \<in> set (rivals ma). fresh a"
    and su: "env_setup (inner ma)" and n: "length (rivals ma) = num_agents side (inner ma)"
    using w by (simp_all add: rivals_waiting_def)
  note U = mset_unshuffle [OF len]
  have A: "length agents = Suc (length (rivals ma))" "\<forall>a \<in> set agents. fresh a"
    using seed_agents_keep [where P = fresh, OF assms(4) _ a] p fr U by auto
  note E = env_seed_setup [OF su, of R seeding seed, unfolded e snd_conv]
  have N: "num_agents t (s\<lparr>np_random := g\<rparr>) = num_agents t s" for t
    by (cases t) (simp_all add: num_agents_def num_cameras_def num_targets_def)
  have S: "env_setup (s\<lparr>np_random := g\<rparr>)"
    using E(1) unfolding env_setup_def N by (simp add: num_cameras_def num_targets_def num_obstacles_def)
  have "num_agents side (s\<lparr>np_random := g\<rparr>) = num_agents side (inner ma)"
    using E(2,4) by (cases side) (simp_all add: num_agents_def num_cameras_def num_targets_def)
  moreover have "fresh (tl agents ! k)" if "k \<in> set (rival_order ma)" for k
  proof -
    have "k < length (tl agents)" using that o A(1) by auto
    then have "tl agents ! k \<in> set agents" by (metis nth_mem list.set_sel(2) list.sel(2))
    then show ?thesis using A(2) by blast
  qed
  moreover have "snd (multi_seed H R seeding seed ma) = ma\<lparr>inner := s\<lparr>np_random := g\<rparr>, prototype := hd agents,
      rivals := map (\<lambda>k. tl agents ! k) (rival_order ma)\<rparr>"
    by (simp add: multi_seed_def e a del: seed_agents.simps)
  ultimately show ?thesis
    using S n len E(2,3) by (auto simp: rivals_waiting_def num_targets_def)
qed

lemma new_multi_agent_keeps:
  assumes "new_multi_agent H team agent s = Inr ma"
  shows "inner ma = s" "rival_order ma = [0..<length (rivals ma)]" "prototype ma = snd (h_spawn H (num_agents (opponent team) s) agent)"
  using assms by (auto simp: new_multi_agent_def bind_res_Inr split: prod.splits)


text \<open>The cameras of the demonstration, talking.\<close>

definition demo_opposed :: "(nat greedy_camera, nat, talk) multi_agent" where
  "demo_opposed = \<lparr>inner = demo_world, prototype = demo_greedy, rivals = [demo_greedy], rival_order = [0],
     rival_obs = [], rival_infos = None\<rparr>"

lemma demo_opposed_waits: "rivals_waiting CAMERA fresh_camera demo_opposed"
  using demo_world_setup
  by (simp add: rivals_waiting_def demo_opposed_def fresh_camera_def demo_greedy_def num_agents_def num_cameras_def)
    (simp add: demo_world_def)

lemma demo_opposed_facts:
  "num_targets (inner demo_opposed) = 1" "max_episode_steps (settings (inner demo_opposed)) = 10"
  "fresh_target demo_greedy_target"
  by (simp_all add: demo_opposed_def demo_world_def num_targets_def demo_settings_def fresh_target_def demo_greedy_target_def)


lemma camera_prototype_fresh:
  assumes "fresh_camera ag"
  shows "fresh_camera (snd (h_spawn (talking_cameras R seeding has_space) n ag))"
proof -
  obtain cs ag' where s: "agent_spawn R seeding (has_space ag) n ag = (cs, ag')" by (rule prod.exhaust)
  have "fresh_camera ag'"
    using agent_spawn_all [where P = fresh_camera, OF s assms] by (simp add: fresh_camera_def)
  then show ?thesis by (simp add: talking_cameras_def speak_def greedy_camera_handlers_def s)
qed

lemma camera_seeded_fresh:
  assumes "fresh_camera ag"
  shows "fresh_camera (snd (agent_seed R seeding k b ag))"
proof -
  obtain g h where e: "snd (agent_seed R seeding k b ag) = ag\<lparr>ra_random := g, ra_space_random := h\<rparr>"
    using agent_seed_frame [of R seeding k b ag] by blast
  show ?thesis using assms by (simp add: e fresh_camera_def)
qed



end
