(* ===== verification/Generator.thy ===== *)
theory Generator
  imports Config
begin

text \<open>
  The configuration generator \<^verbatim>\<open>mate/assets/generator.py\<close>: from the default configuration
  (\<^verbatim>\<open>mate/assets/MATE-4v8-9.yaml\<close>) and the places and the distance an optimiser has found for the cameras,
  \<open>generate\<close> makes the configuration of an environment with the numbers of agents asked for. The optimiser is
  not part of the repository: what it returns, in units of \<open>SCALE\<close>, is an argument. What is written to the file is
  what the constructor reads back; the format of the file is not modelled.

  The lemmas show that what is generated builds an environment of the size asked for, when there is a camera.
\<close>

subsection \<open>The default configuration\<close>

definition box_of :: "real \<Rightarrow> real \<Rightarrow> real \<Rightarrow> real \<Rightarrow> vec \<times> vec" where
  "box_of x_low x_high y_low y_high = ((x_low, y_low), (x_high, y_high))"

definition default_config :: config where
  "default_config =
     \<lparr>c_max_episode_steps = Some 10000, c_reward_type = Some ''dense'', c_num_cargoes_per_target = Some 8,
      c_high_capacity_target_split = Some (1 / 2), c_targets_start_with_cargoes = Some True,
      c_bounty_factor = Some 1, c_shuffle_entities = Some True,
      c_camera = Some
        \<lparr>cs_location = None,
         cs_random_range = Some [box_of 500 800 500 800, box_of 500 800 (- 800) (- 500),
           box_of (- 800) (- 500) (- 800) (- 500), box_of (- 800) (- 500) 500 800],
         cs_radius = Some 40, cs_min_viewing_angle = Some 30, cs_max_sight_range = Some 1500,
         cs_rotation_step = Some 5, cs_zooming_step = Some (5 / 2)\<rparr>,
      c_target = Some
        \<lparr>ts_location = None, ts_random_range = Some (replicate 8 (box_of (- 200) 200 (- 200) 200)),
         ts_sight_range = Some 500, ts_step_size = Some 20\<rparr>,
      c_obstacle = Some
        \<lparr>os_location = None,
         os_random_range = Some [box_of 200 800 200 800, box_of 200 800 (- 800) (- 200),
           box_of (- 800) (- 200) (- 800) (- 200), box_of (- 800) (- 200) 200 800,
           box_of 900 900 (- 500) 500, box_of (- 500) 500 900 900,
           box_of (- 900) (- 900) (- 500) 500, box_of (- 500) 500 (- 900) (- 900),
           box_of (- 200) 200 (- 200) 200],
         os_radius = None, os_radius_random_range = Some (25, 100), os_transmittance = Some (1 / 10)\<rparr>\<rparr>"

subsection \<open>Generation\<close>

definition SCALE :: real where "SCALE = TERRAIN_SIZE"

text \<open>A small box around the place found for a camera.\<close>

definition camera_box :: "vec \<Rightarrow> vec \<times> vec" where
  "camera_box p =
     (let x = SCALE * fst p; y = SCALE * snd p
      in box_of (x - 2 / 100 * SCALE) (x + 2 / 100 * SCALE) (y - 2 / 100 * SCALE) (y + 2 / 100 * SCALE))"

definition generated_camera :: "vec list \<Rightarrow> real \<Rightarrow> camera_section \<Rightarrow> camera_section res" where
  "generated_camera places max_distance c =
     bind_res (key (cs_radius c)) (\<lambda>rad.
       let sight = 2 * max_distance
       in Inr (c\<lparr>cs_random_range := Some (map camera_box places), cs_max_sight_range := Some sight,
                 cs_radius := Some (min rad (1 / 10 * sight))\<rparr>))"

definition generated_obstacle :: "nat \<Rightarrow> real \<Rightarrow> real \<Rightarrow> obstacle_section \<Rightarrow> obstacle_section res" where
  "generated_obstacle n max_distance transmit ob =
     bind_res (key (os_radius_random_range ob)) (\<lambda>(lo, hi).
       Inr (ob\<lparr>os_random_range := Some (replicate n (box_of (- SCALE) SCALE (- SCALE) SCALE)),
               os_radius_random_range := Some (lo, min (max (3 * lo) (15 / 100 * max_distance)) hi),
               os_transmittance := Some transmit\<rparr>))"

text \<open>\<open>file_ext\<close> is the extension of the path, in lower case.\<close>

definition generate ::
  "config \<Rightarrow> string \<Rightarrow> nat \<Rightarrow> nat \<Rightarrow> nat \<Rightarrow> int \<Rightarrow> real \<Rightarrow> vec list \<Rightarrow> real \<Rightarrow> config res" where
  "generate base file_ext n_cameras n_targets n_obstacles cargoes transmit places found =
     bind_res (check AssertionError (4 \<le> cargoes)) (\<lambda>_.
     let transmit1 = max 0 (min transmit 1) in
     bind_res (check AssertionError (file_ext \<in> {''.json'', ''.yaml'', ''.yml''})) (\<lambda>_.
     let max_distance = SCALE * (if n_cameras > 0 then found else 0);
         cfg = base\<lparr>c_num_cargoes_per_target := Some cargoes\<rparr> in
     bind_res (key (c_camera cfg)) (\<lambda>cam.
     bind_res (if n_cameras > 0 then bind_res (generated_camera places max_distance cam) (\<lambda>c. Inr (Some c))
               else Inr None) (\<lambda>camera.
     bind_res (key (c_target cfg)) (\<lambda>t.
     bind_res (key camera) (\<lambda>c.
     bind_res (key (cs_max_sight_range c)) (\<lambda>sight.
       let target = t\<lparr>ts_random_range := Some (replicate n_targets
                          (box_of (- (5 / 10) * SCALE) (5 / 10 * SCALE) (- (5 / 10) * SCALE) (5 / 10 * SCALE))),
                      ts_sight_range := Some (sight / 2)\<rparr> in
     bind_res (key (c_obstacle cfg)) (\<lambda>ob.
     bind_res (if n_obstacles > 0
               then bind_res (generated_obstacle n_obstacles max_distance transmit1 ob) (\<lambda>o1. Inr (Some o1))
               else Inr None) (\<lambda>obstacle.
       Inr (cfg\<lparr>c_camera := camera, c_target := Some target, c_obstacle := obstacle\<rparr>))))))))))"

subsection \<open>What is generated builds an environment\<close>

lemma generate_default:
  assumes "4 \<le> cargoes" and "file_ext \<in> {''.json'', ''.yaml'', ''.yml''}" and "0 < n_cameras"
  obtains cfg c t where
    "generate default_config file_ext n_cameras n_targets n_obstacles cargoes transmit places found = Inr cfg"
    "c_camera cfg = Some c" "cs_location c = None" "cs_random_range c = Some (map camera_box places)"
    "cs_max_sight_range c = Some (2 * (SCALE * found))" "cs_radius c = Some (min 40 (1 / 10 * (2 * (SCALE * found))))"
    "cs_min_viewing_angle c = Some 30" "cs_rotation_step c = Some 5" "cs_zooming_step c = Some (5 / 2)"
    "c_target cfg = Some t" "ts_location t = None" "length (get_or [] (ts_random_range t)) = n_targets"
    "ts_sight_range t = Some (SCALE * found)" "ts_step_size t = Some 20"
    "n_obstacles = 0 \<Longrightarrow> c_obstacle cfg = None"
    "0 < n_obstacles \<Longrightarrow> \<exists>ob. c_obstacle cfg = Some ob \<and> os_location ob = None \<and> os_radius ob = None
       \<and> length (get_or [] (os_random_range ob)) = n_obstacles
       \<and> os_radius_random_range ob = Some (25, min (max 75 (15 / 100 * (SCALE * found))) 100)
       \<and> os_transmittance ob = Some (max 0 (min transmit 1))"
    "c_num_cargoes_per_target cfg = Some cargoes" "c_max_episode_steps cfg = Some 10000" "c_reward_type cfg = Some ''dense''"
    "c_high_capacity_target_split cfg = Some (1 / 2)" "c_bounty_factor cfg = Some 1"
  using assms
  by (cases "n_obstacles = 0")
    (auto simp: generate_def default_config_def generated_camera_def generated_obstacle_def check_def Let_def)



end
