(* ===== verification/Spec2Isabelle.thy ===== *)
theory Spec2Isabelle
  imports Guarantees ConfigFiles DiscreteActions Mixtures Shaping Heuristic HeuristicCamera Evaluation Generator
begin

text \<open>Header to come.\<close>

section \<open>Reset\<close>

text \<open>C1: a reset that returns has not failed: from what the constructor leaves (entities with valid
  parameters, arrays of matching sizes, at least two cargoes per target) it returns observations and a
  state that satisfies the invariant of an episode, with the clock, the counters and both episode
  rewards at zero, the settings untouched and a positive multiple of \<open>num_cargoes_per_target *
  num_targets\<close> cargoes; when targets start with cargoes, each has a goal. The state can be reset again.\<close>

theorem reset_starts_episode:
  assumes "rng_ok R" and "env_setup s" and "reset R seeding interp1d order seed s = Some res"
  shows "\<exists>obs s' m. res = Inr (obs, s') \<and> env_ok s' \<and> env_setup s' \<and> episode_step s' = 0 \<and> settings s' = settings s
    \<and> num_targets s' = num_targets s
    \<and> total_cargoes s' = int (Suc m * (cargoes_per_target (settings s) * num_targets s))
    \<and> num_delivered_cargoes s' = 0 \<and> target_team_episode_reward s' = 0
    \<and> delayed_target_team_episode_reward s' = 0
    \<and> (start_loaded (settings s) \<longrightarrow> (\<forall>t < num_targets s. 0 \<le> target_goals s' ! t))"
  using reset_result [OF assms] by metis

theorem reset_starts_episode_witness:
  "\<exists>obs s'. reset counter_rng demo_seeding demo_interp id (Some 7) demo_env = Some (Inr (obs, s'))
    \<and> env_ok s' \<and> 0 \<le> target_goals s' ! 0"
proof -
  obtain res where r: "reset counter_rng demo_seeding demo_interp id (Some 7) demo_env = Some res"
    using reset_terminates [OF counter_rng_ok demo_env_setup counter_draws_all] by blast
  from reset_starts_episode [OF counter_rng_ok demo_env_setup r] r show ?thesis
    by (auto simp: demo_counts demo_settings_def)
qed



section \<open>Steps and episodes\<close>



text \<open>C2: every step is a round of the abstract transport game: it keeps the invariant of the
  environment, hands over a number of cargoes that were awaited, pays for each of them between
  freight minus bounty and freight plus bounty, the dense reward differs from that payment by the
  bounty forfeited by the loads on the way, the two teams' rewards are opposite, and the episode is
  over when the clock had run out before the step or nothing is awaited after it.\<close>

theorem step_refines_game:
  assumes "rng_ok R" and "env_ok s" and "step R interp1d order action s = Inr (res, s')"
  shows "env_ok s' \<and> (\<exists>r d. game_round (freight_scale s) (bounty_scale s) (max_episode_steps (settings s))
       (abs_game s) r d (done_flag res) (abs_game s')
     \<and> target_team_reward res = (if sparse_reward (settings s) then d else r)
     \<and> camera_team_reward res = - target_team_reward res)"
proof -
  obtain res2 s2 r d where st: "step R interp1d order action s = Inr (res2, s2)" "env_ok s2"
    "game_round (freight_scale s) (bounty_scale s) (max_episode_steps (settings s))
       (abs_game s) r d (done_flag res2) (abs_game s2)"
    "target_team_reward res2 = (if sparse_reward (settings s) then d else r)"
    "camera_team_reward res2 = - target_team_reward res2"
    using step_round [OF assms(1,2) step_returns_sized [OF assms(3)], of interp1d order] by metis
  then show ?thesis using assms(3) by auto
qed

lemma demo_step_returns:
  "\<exists>res s'. step counter_rng demo_interp id ([1, 2], [3, 4]) demo_start = Inr (res, s')"
proof -
  have "sized demo_start ([1, 2], [3, 4])"
    by (simp add: sized_def demo_start_ok CAMERA_ACTION_DIM_def TARGET_ACTION_DIM_def)
  from step_round [OF counter_rng_ok demo_start_ok(1) this] show ?thesis by metis
qed

theorem step_refines_game_witness:
  "\<exists>res s'. step counter_rng demo_interp id ([1, 2], [3, 4]) demo_start = Inr (res, s') \<and> env_ok s'
     \<and> camera_team_reward res = - target_team_reward res"
  using demo_step_returns step_refines_game [OF counter_rng_ok demo_start_ok(1)] by blast

text \<open>C5: along a whole episode the invariant holds, the settings and the agents stay, the clock counts
  the steps, the number of cargoes in the game (awaited or delivered) is constant, the number
  delivered never decreases, and what a reset needs of the environment is there after every step.\<close>

theorem episode_invariant:
  assumes "rng_ok R" and "run R interp1d order s rs s'" and "env_ok s" and "env_setup s"
  shows "env_ok s' \<and> env_setup s' \<and> settings s' = settings s \<and> num_targets s' = num_targets s
    \<and> num_cameras s' = num_cameras s \<and> episode_step s' = episode_step s + int (length rs)
    \<and> total_cargoes s' = total_cargoes s \<and> num_delivered_cargoes s \<le> num_delivered_cargoes s'"
  using run_facts [OF assms(1-3)] run_setup [OF assms] by (simp add: abs_game_def awaiting_total_alt)

lemma demo_run:
  obtains res s' where "run counter_rng demo_interp id demo_start [res] s'"
    "step counter_rng demo_interp id ([1, 2], [3, 4]) demo_start = Inr (res, s')"
  using demo_step_returns run_step [OF run_start] by (metis append_Nil)

theorem episode_invariant_witness:
  "\<exists>res s'. run counter_rng demo_interp id demo_start [res] s' \<and> env_ok s' \<and> env_setup s' \<and> episode_step s' = 1"
proof -
  obtain res s' where r: "run counter_rng demo_interp id demo_start [res] s'" by (rule demo_run)
  from episode_invariant [OF counter_rng_ok r demo_start_ok(1,10)] r show ?thesis
    by (auto simp: demo_start_ok)
qed

text \<open>C6: what an episode pays. The cameras' return is the negative of the targets'. From the start of
  an episode the targets' return with sparse rewards is the delayed episode reward, which lies between
  freight minus bounty and freight plus bounty for each delivered cargo; with dense rewards it is less
  than that by the bounty that the loads still on the way have forfeited, so it is never more.\<close>

theorem episode_returns:
  assumes "rng_ok R" and "run R interp1d order s rs s'" and "env_ok s"
    and "target_team_episode_reward s = 0" and "delayed_target_team_episode_reward s = 0"
  shows "camera_return rs = - target_return rs
    \<and> (sparse_reward (settings s) \<longrightarrow> target_return rs = delayed_target_team_episode_reward s')
    \<and> (\<not> sparse_reward (settings s) \<longrightarrow> target_return rs = target_team_episode_reward s'
        \<and> target_return rs = delayed_target_team_episode_reward s' - bounty_lost s'
        \<and> target_return rs \<le> delayed_target_team_episode_reward s')
    \<and> (freight_scale s' - bounty_scale s') * num_delivered_cargoes s' \<le> delayed_target_team_episode_reward s'
    \<and> delayed_target_team_episode_reward s' \<le> (freight_scale s' + bounty_scale s') * num_delivered_cargoes s'"
proof (intro conjI impI)
  note F = run_facts [OF assms(1-3)]
  have ok: "env_ok s'" using F by simp
  note P = env_ok_parts [OF assms(3)] and P' = env_ok_parts [OF ok]
  show "camera_return rs = - target_return rs" using F by simp
  show "target_return rs = delayed_target_team_episode_reward s'" if "sparse_reward (settings s)"
    using F that assms(5) by (simp add: abs_game_def)
  show "target_return rs = target_team_episode_reward s'"
    "target_return rs = delayed_target_team_episode_reward s' - bounty_lost s'"
    "target_return rs \<le> delayed_target_team_episode_reward s'" if "\<not> sparse_reward (settings s)"
    using F that P(2) P'(2) assms(4,5) bounty_lost_nonneg [OF P'(1)] by (simp_all add: abs_game_def)
  show "(freight_scale s' - bounty_scale s') * num_delivered_cargoes s' \<le> delayed_target_team_episode_reward s'"
    "delayed_target_team_episode_reward s' \<le> (freight_scale s' + bounty_scale s') * num_delivered_cargoes s'"
    using ok by (simp_all add: env_ok_def books_ok_def reward_scale_def)
qed

theorem episode_returns_witness:
  "\<exists>res s'. run counter_rng demo_interp id demo_start [res] s' \<and> camera_return [res] = - target_return [res]
     \<and> target_return [res] = delayed_target_team_episode_reward s' - bounty_lost s'"
proof -
  obtain res s' where r: "run counter_rng demo_interp id demo_start [res] s'" by (rule demo_run)
  have dense: "\<not> sparse_reward (settings demo_start)" by (simp add: demo_start_ok(3) demo_settings_def)
  from episode_returns [OF counter_rng_ok r demo_start_ok(1,6,7)] dense r show ?thesis by blast
qed

text \<open>C4: when an episode ends. Counting the steps of an episode from 0, step number
  \<open>max_episode_steps\<close> and every later one reports the end (so an episode that stops at the first end
  has at most \<open>max_episode_steps + 1\<close> steps, one more than the setting says), and an end reported
  earlier means that every cargo of the episode has been delivered.\<close>

theorem episode_ends:
  assumes "rng_ok R" and "run R interp1d order s rs s'" and "env_ok s" and "episode_step s = 0"
  shows "(\<forall>i < length rs. max_episode_steps (settings s) \<le> int i \<longrightarrow> done_flag (rs ! i))
    \<and> (\<forall>i < length rs. done_flag (rs ! i) \<and> int i < max_episode_steps (settings s)
        \<longrightarrow> num_delivered_cargoes s' = total_cargoes s)
    \<and> (0 \<le> max_episode_steps (settings s) \<and> (\<forall>r \<in> set (butlast rs). \<not> done_flag r)
        \<longrightarrow> int (length rs) \<le> max_episode_steps (settings s) + 1)"
proof (intro conjI allI impI)
  note F = run_facts [OF assms(1-3)]
  have c: "clock (abs_game s) = 0" using assms(4) by (simp add: abs_game_def)
  show late: "done_flag (rs ! i)" if "i < length rs" "max_episode_steps (settings s) \<le> int i" for i
    using F that c by simp
  show "num_delivered_cargoes s' = total_cargoes s"
    if "i < length rs" "done_flag (rs ! i) \<and> int i < max_episode_steps (settings s)" for i
    using F that c by (auto simp: abs_game_def awaiting_total_alt)
  show "int (length rs) \<le> max_episode_steps (settings s) + 1"
    if "0 \<le> max_episode_steps (settings s) \<and> (\<forall>r \<in> set (butlast rs). \<not> done_flag r)"
  proof (rule ccontr)
    let ?i = "nat (max_episode_steps (settings s))"
    assume "\<not> ?thesis"
    then have i: "?i < length rs - 1" using that by linarith
    then have "done_flag (butlast rs ! ?i)"
      using late [of ?i] that by (simp add: nth_butlast)
    then show False using that i nth_mem [of ?i "butlast rs"] by simp
  qed
qed

theorem episode_ends_witness:
  "\<exists>res s'. run counter_rng demo_interp id demo_start [res] s'
     \<and> (done_flag res \<longrightarrow> num_delivered_cargoes s' = total_cargoes demo_start)"
proof -
  obtain res s' where r: "run counter_rng demo_interp id demo_start [res] s'" by (rule demo_run)
  from episode_ends [OF counter_rng_ok r demo_start_ok(1,2)] r show ?thesis
    by (auto simp: demo_start_ok demo_settings_def)
qed

text \<open>A step returns one observation per camera and per target, each as long as the layout of its
  team says, and the rates it reports are in range: both coverage rates between 0 and 1, the mean
  transport rate at most 1 and, once something is delivered, at least (freight - bounty) / (freight + bounty).\<close>

lemma step_observes:
  assumes "rng_ok R" and "env_ok s" and "step R interp1d order action s = Inr (res, s')"
  shows "length (camera_joint_observation res) = num_cameras s
    \<and> length (target_joint_observation res) = num_targets s
    \<and> (\<forall>ob \<in> set (camera_joint_observation res).
        length ob = observation_dim CAMERA (num_cameras s) (num_targets s) (num_obstacles s'))
    \<and> (\<forall>ob \<in> set (target_joint_observation res).
        length ob = observation_dim TARGET (num_cameras s) (num_targets s) (num_obstacles s'))
    \<and> rates_ok s'"
proof -
  obtain b where b: "env_ok b" "s' = finish_step b" "num_cameras b = num_cameras s" "num_targets b = num_targets s"
    "(camera_joint_observation res, target_joint_observation res) = fst (joint_observation b)"
    by (rule step_inside [OF assms])
  have sh: "view_shapes b" using b(1) by (simp add: env_ok_def)
  have "joint_observation b = ((camera_joint_observation res, target_joint_observation res), update_rates b)"
    using b(5) by (simp add: joint_observation_def)
  note O = joint_observation_shapes [OF sh this]
  have no: "num_obstacles s' = num_obstacles b" by (simp add: b(2) finish_step_frame)
  have "rates_ok s'" using rates_bounded [OF b(1)] by (simp add: b(2) finish_step_rates)
  then show ?thesis using O b(3,4) no by simp
qed

end
